(* ===== verification/Prelude.thy ===== *)
theory Prelude
  imports Main "HOL-Library.Word"
begin

text \<open>
  Shared vocabulary of the development.

  \<^item> The machine types of the Rust sources: \<open>u8\<close> to \<open>u64\<close> are words of that width,
    a \<open>Vec<u8>\<close> or \<open>&[u8]\<close> is a list of bytes, \<open>usize\<close> is \<open>nat\<close> (the lengths that
    occur are bounded far below the width of the platform's word), and an SQLite
    INTEGER, which is an \<open>i64\<close>, is an \<open>int\<close>.
  \<^item> \<open>Result<T, E>\<close> is the sum \<open>'e + 'a\<close>, \<open>Inl\<close> the error; the \<open>?\<close> operator is
    \<open>and_then\<close>, \<open>ok_or\<close> and \<open>map_err\<close> keep their names.
  \<^item> A stateful operation is a function from the state to a result and the state it
    leaves behind, also when it fails (\<open>op_then\<close> sequences two of them).
  \<^item> The generic lemmas on lists, options and words that the component theories share.

  The collections \<open>result_simps\<close>, \<open>op_simps\<close> and \<open>wire_simps\<close> gather the rewrite rules
  that carry the proofs about results, stateful operations and wire encodings.
\<close>

named_theorems result_simps
named_theorems op_simps
named_theorems wire_simps
named_theorems table_simps

type_synonym u8 = "8 word"
type_synonym u16 = "16 word"
type_synonym u32 = "32 word"
type_synonym u64 = "64 word"
type_synonym bytes = "u8 list"

section \<open>Results\<close>

definition and_then :: "'e + 'a \<Rightarrow> ('a \<Rightarrow> 'e + 'b) \<Rightarrow> 'e + 'b" where
  "and_then r f = (case r of Inl e \<Rightarrow> Inl e | Inr a \<Rightarrow> f a)"

definition ok_or :: "'a option \<Rightarrow> 'e \<Rightarrow> 'e + 'a" where
  "ok_or x e = (case x of None \<Rightarrow> Inl e | Some a \<Rightarrow> Inr a)"

definition map_err :: "('e \<Rightarrow> 'f) \<Rightarrow> 'e + 'a \<Rightarrow> 'f + 'a" where
  "map_err g r = (case r of Inl e \<Rightarrow> Inl (g e) | Inr a \<Rightarrow> Inr a)"

definition result_ok :: "'e + 'a \<Rightarrow> 'a option" where
  "result_ok r = (case r of Inl _ \<Rightarrow> None | Inr a \<Rightarrow> Some a)"

definition is_ok :: "'e + 'a \<Rightarrow> bool" where
  "is_ok r = (case r of Inl _ \<Rightarrow> False | Inr _ \<Rightarrow> True)"

definition ensure :: "bool \<Rightarrow> 'e \<Rightarrow> 'e + unit" where
  "ensure b e = (if b then Inr () else Inl e)"

text \<open>Collecting an iterator of results stops at the first error.\<close>

fun collect_results :: "('e + 'a) list \<Rightarrow> 'e + 'a list" where
  "collect_results [] = Inr []"
| "collect_results (r # rs) =
     (case r of Inl e \<Rightarrow> Inl e
      | Inr a \<Rightarrow> (case collect_results rs of Inl e \<Rightarrow> Inl e | Inr as \<Rightarrow> Inr (a # as)))"

fun collect_options :: "'a option list \<Rightarrow> 'a list option" where
  "collect_options [] = Some []"
| "collect_options (None # _) = None"
| "collect_options (Some a # rs) = map_option ((#) a) (collect_options rs)"

lemma collect_results_length: "collect_results rs = Inr as \<Longrightarrow> length as = length rs"
  by (induction rs arbitrary: as) (auto split: sum.splits)

lemma collect_results_append:
  "collect_results (xs @ ys) =
     (case collect_results xs of Inl e \<Rightarrow> Inl e
      | Inr a \<Rightarrow> (case collect_results ys of Inl e \<Rightarrow> Inl e | Inr b \<Rightarrow> Inr (a @ b)))"
  by (induction xs) (auto split: sum.splits)

lemma and_then_Inl [simp, result_simps]: "and_then (Inl e) f = Inl e"
  by (simp add: and_then_def)

lemma and_then_Inr [simp, result_simps]: "and_then (Inr a) f = f a"
  by (simp add: and_then_def)

lemma and_then_eq_Inr_iff [result_simps]:
  "and_then r f = Inr b \<longleftrightarrow> (\<exists>a. r = Inr a \<and> f a = Inr b)"
  by (cases r) auto

lemma and_then_eq_Inl_iff [result_simps]:
  "and_then r f = Inl e \<longleftrightarrow> r = Inl e \<or> (\<exists>a. r = Inr a \<and> f a = Inl e)"
  by (cases r) auto

lemma and_then_cong [fundef_cong]:
  "r = r' \<Longrightarrow> (\<And>a. r' = Inr a \<Longrightarrow> f a = g a) \<Longrightarrow> and_then r f = and_then r' g"
  by (cases r') auto

lemma ok_or_Some [simp, result_simps]: "ok_or (Some a) e = Inr a"
  by (simp add: ok_or_def)

lemma ok_or_None [simp, result_simps]: "ok_or None e = Inl e"
  by (simp add: ok_or_def)

lemma ok_or_eq_Inr_iff [result_simps]: "ok_or x e = Inr a \<longleftrightarrow> x = Some a"
  by (cases x) auto

lemma ok_or_eq_Inl_iff [result_simps]: "ok_or x e = Inl f \<longleftrightarrow> x = None \<and> f = e"
  by (cases x) auto

lemma map_err_Inl [simp, result_simps]: "map_err g (Inl e) = Inl (g e)"
  by (simp add: map_err_def)

lemma map_err_Inr [simp, result_simps]: "map_err g (Inr a) = Inr a"
  by (simp add: map_err_def)

lemma map_err_eq_Inr_iff [result_simps]: "map_err g r = Inr a \<longleftrightarrow> r = Inr a"
  by (cases r) auto

lemma map_err_eq_Inl_iff [result_simps]: "map_err g r = Inl f \<longleftrightarrow> (\<exists>e. r = Inl e \<and> f = g e)"
  by (cases r) auto

lemma result_ok_Inl [simp]: "result_ok (Inl e) = None"
  by (simp add: result_ok_def)

lemma result_ok_Inr [simp]: "result_ok (Inr a) = Some a"
  by (simp add: result_ok_def)

lemma result_ok_eq_Some_iff: "result_ok r = Some a \<longleftrightarrow> r = Inr a"
  by (cases r) auto

lemma is_ok_simps [simp]: "is_ok (Inr a)" "\<not> is_ok (Inl e)"
  by (simp_all add: is_ok_def)

lemma is_ok_iff: "is_ok r \<longleftrightarrow> (\<exists>a. r = Inr a)"
  by (cases r) auto

lemma ensure_simps [simp, result_simps]: "ensure True e = Inr ()" "ensure False e = Inl e"
  by (simp_all add: ensure_def)

lemma ensure_eq_Inr_iff [result_simps]: "ensure b e = Inr u \<longleftrightarrow> b"
  by (simp add: ensure_def)

lemma ensure_eq_Inl_iff [result_simps]: "ensure b e = Inl f \<longleftrightarrow> \<not> b \<and> f = e"
  by (auto simp: ensure_def)

lemma collect_results_map_Inr [simp]: "collect_results (map (\<lambda>x. Inr (f x)) xs) = Inr (map f xs)"
  by (induction xs) auto

lemma collect_options_map_Some [simp]: "collect_options (map (\<lambda>x. Some (f x)) xs) = Some (map f xs)"
  by (induction xs) auto

lemma collect_options_Some_iff:
  "collect_options xs = Some ys \<longleftrightarrow> xs = map Some ys"
proof (induction xs arbitrary: ys)
  case (Cons x xs)
  then show ?case by (cases x; cases ys) auto
qed auto

section \<open>Stateful operations\<close>

text \<open>An operation on a state \<open>'s\<close> returns its result and the state after it.\<close>

type_synonym ('s, 'e, 'a) op = "'s \<Rightarrow> ('e + 'a) \<times> 's"

definition op_return :: "'a \<Rightarrow> ('s, 'e, 'a) op" where
  "op_return a s = (Inr a, s)"

definition op_fail :: "'e \<Rightarrow> ('s, 'e, 'a) op" where
  "op_fail e s = (Inl e, s)"

definition op_then :: "('s, 'e, 'a) op \<Rightarrow> ('a \<Rightarrow> ('s, 'e, 'b) op) \<Rightarrow> ('s, 'e, 'b) op" where
  "op_then m f s = (case m s of (Inl e, s') \<Rightarrow> (Inl e, s') | (Inr a, s') \<Rightarrow> f a s')"

definition op_lift :: "'e + 'a \<Rightarrow> ('s, 'e, 'a) op" where
  "op_lift r s = (r, s)"

definition op_get :: "('s \<Rightarrow> 'a) \<Rightarrow> ('s, 'e, 'a) op" where
  "op_get f s = (Inr (f s), s)"

definition op_modify :: "('s \<Rightarrow> 's) \<Rightarrow> ('s, 'e, unit) op" where
  "op_modify f s = (Inr (), f s)"

definition op_map_err :: "('e \<Rightarrow> 'f) \<Rightarrow> ('s, 'e, 'a) op \<Rightarrow> ('s, 'f, 'a) op" where
  "op_map_err g m s = (case m s of (r, s') \<Rightarrow> (map_err g r, s'))"

definition op_ensure :: "bool \<Rightarrow> 'e \<Rightarrow> ('s, 'e, unit) op" where
  "op_ensure b e = op_lift (ensure b e)"

text \<open>A \<open>for\<close> loop whose body may fail with \<open>?\<close>.\<close>

fun op_for :: "'x list \<Rightarrow> ('x \<Rightarrow> ('s, 'e, unit) op) \<Rightarrow> ('s, 'e, unit) op" where
  "op_for [] f = op_return ()"
| "op_for (x # xs) f = op_then (f x) (\<lambda>_. op_for xs f)"

lemma op_return_apply [simp, op_simps]: "op_return a s = (Inr a, s)"
  by (simp add: op_return_def)

lemma op_fail_apply [simp, op_simps]: "op_fail e s = (Inl e, s)"
  by (simp add: op_fail_def)

lemma op_lift_apply [simp, op_simps]: "op_lift r s = (r, s)"
  by (simp add: op_lift_def)

lemma op_get_apply [simp, op_simps]: "op_get f s = (Inr (f s), s)"
  by (simp add: op_get_def)

lemma op_modify_apply [simp, op_simps]: "op_modify f s = (Inr (), f s)"
  by (simp add: op_modify_def)

lemma op_ensure_apply [simp, op_simps]: "op_ensure b e s = (ensure b e, s)"
  by (simp add: op_ensure_def)

lemma op_then_eq_Inr_iff [op_simps]:
  "op_then m f s = (Inr b, t) \<longleftrightarrow> (\<exists>a u. m s = (Inr a, u) \<and> f a u = (Inr b, t))"
  by (auto simp: op_then_def split: prod.splits sum.splits)

lemma op_then_eq_Inl_iff [op_simps]:
  "op_then m f s = (Inl e, t) \<longleftrightarrow>
     m s = (Inl e, t) \<or> (\<exists>a u. m s = (Inr a, u) \<and> f a u = (Inl e, t))"
  by (auto simp: op_then_def split: prod.splits sum.splits)

lemma op_then_Inr: "m s = (Inr a, u) \<Longrightarrow> op_then m f s = f a u"
  by (simp add: op_then_def)

lemma op_then_Inl: "m s = (Inl e, u) \<Longrightarrow> op_then m f s = (Inl e, u)"
  by (simp add: op_then_def)

lemma op_map_err_eq_Inr_iff [op_simps]: "op_map_err g m s = (Inr a, t) \<longleftrightarrow> m s = (Inr a, t)"
  by (auto simp: op_map_err_def map_err_def split: prod.splits sum.splits)

lemma op_map_err_eq_Inl_iff [op_simps]:
  "op_map_err g m s = (Inl f, t) \<longleftrightarrow> (\<exists>e. m s = (Inl e, t) \<and> f = g e)"
  by (auto simp: op_map_err_def map_err_def split: prod.splits sum.splits)

text \<open>A predicate on states that an operation keeps, whether it succeeds or fails.\<close>

definition op_keeps :: "('s \<Rightarrow> bool) \<Rightarrow> ('s, 'e, 'a) op \<Rightarrow> bool" where
  "op_keeps P m \<longleftrightarrow> (\<forall>s. P s \<longrightarrow> P (snd (m s)))"

lemma op_keeps_return [intro, simp]: "op_keeps P (op_return a)"
  by (simp add: op_keeps_def)

lemma op_keeps_fail [intro, simp]: "op_keeps P (op_fail e)"
  by (simp add: op_keeps_def)

lemma op_keeps_lift [intro, simp]: "op_keeps P (op_lift r)"
  by (simp add: op_keeps_def)

lemma op_keeps_get [intro, simp]: "op_keeps P (op_get f)"
  by (simp add: op_keeps_def)

lemma op_keeps_ensure [intro, simp]: "op_keeps P (op_ensure b e)"
  by (simp add: op_keeps_def)

lemma op_keeps_modify: "(\<And>s. P s \<Longrightarrow> P (f s)) \<Longrightarrow> op_keeps P (op_modify f)"
  by (simp add: op_keeps_def)

lemma op_keeps_then [intro]:
  assumes "op_keeps P m" and "\<And>a. op_keeps P (f a)"
  shows "op_keeps P (op_then m f)"
  unfolding op_keeps_def
proof (intro allI impI)
  fix s assume "P s"
  with assms(1) have "P (snd (m s))" by (simp add: op_keeps_def)
  with assms(2) show "P (snd (op_then m f s))"
    by (auto simp: op_keeps_def op_then_def split: prod.splits sum.splits)
qed

lemma op_keeps_for: "(\<And>x. x \<in> set xs \<Longrightarrow> op_keeps P (f x)) \<Longrightarrow> op_keeps P (op_for xs f)"
  by (induction xs) auto

section \<open>Lists\<close>

text \<open>\<open>slice::chunks\<close>: consecutive pieces of \<open>n\<close> elements, the last one possibly shorter.\<close>

function chunks :: "nat \<Rightarrow> 'a list \<Rightarrow> 'a list list" where
  "chunks n xs =
     (if xs = [] then [] else if n = 0 then [xs] else take n xs # chunks n (drop n xs))"
  by pat_completeness auto
termination
  by (relation "measure (\<lambda>(n, xs). length xs)") auto

declare chunks.simps [simp del]

lemma chunks_Nil [simp]: "chunks n [] = []"
  by (simp add: chunks.simps)

lemma concat_chunks [simp]: "concat (chunks n xs) = xs"
proof (induction n xs rule: chunks.induct)
  case (1 n xs)
  then show ?case by (subst chunks.simps) auto
qed

lemma chunks_eq_Nil_iff [simp]: "chunks n xs = [] \<longleftrightarrow> xs = []"
  by (subst chunks.simps) auto

lemma chunks_length_le: "0 < n \<Longrightarrow> c \<in> set (chunks n xs) \<Longrightarrow> length c \<le> n"
proof (induction n xs rule: chunks.induct)
  case (1 n xs)
  then show ?case by (subst (asm) (2) chunks.simps) (auto split: if_splits)
qed

lemma list_find_Some_iff: "find P xs = Some x \<Longrightarrow> P x \<and> x \<in> set xs"
  by (induction xs) (auto split: if_splits)

lemma distinct_map_filter_fst: "distinct (map f xs) \<Longrightarrow> distinct (map f (filter P xs))"
  by (rule distinct_map_filter)

section \<open>Byte strings\<close>

definition bytes_of_string :: "string \<Rightarrow> bytes" where
  "bytes_of_string s = map (\<lambda>c. word_of_nat (of_char c)) s"

lemma inj_bytes_of_string: "bytes_of_string s = bytes_of_string t \<longleftrightarrow> s = t"
proof -
  have "inj (\<lambda>c::char. word_of_nat (of_char c) :: u8)"
  proof (rule injI)
    fix c d :: char
    assume "word_of_nat (of_char c) = (word_of_nat (of_char d) :: u8)"
    then have "unat (word_of_nat (of_char c) :: u8) = unat (word_of_nat (of_char d) :: u8)"
      by simp
    then have "(of_char c :: nat) mod 256 = of_char d mod 256"
      by (simp add: unat_of_nat)
    then show "c = d"
      by (metis char_of_mod_256 char_of_char)
  qed
  then show ?thesis
    by (simp add: bytes_of_string_def inj_map_eq_map)
qed

lemma length_bytes_of_string [simp]: "length (bytes_of_string s) = length s"
  by (simp add: bytes_of_string_def)

text \<open>\<open>to_be_bytes\<close> of the unsigned types.\<close>

definition u16_to_be_bytes :: "u16 \<Rightarrow> bytes" where
  "u16_to_be_bytes w = [ucast (drop_bit 8 w), ucast w]"

definition u32_to_be_bytes :: "u32 \<Rightarrow> bytes" where
  "u32_to_be_bytes w = [ucast (drop_bit 24 w), ucast (drop_bit 16 w), ucast (drop_bit 8 w), ucast w]"

definition u64_to_be_bytes :: "u64 \<Rightarrow> bytes" where
  "u64_to_be_bytes w =
     u32_to_be_bytes (ucast (drop_bit 32 w)) @ u32_to_be_bytes (ucast w)"

definition u32_from_be_bytes :: "u8 \<Rightarrow> u8 \<Rightarrow> u8 \<Rightarrow> u8 \<Rightarrow> u32" where
  "u32_from_be_bytes a b c d =
     push_bit 24 (ucast a) + push_bit 16 (ucast b) + push_bit 8 (ucast c) + ucast d"

lemma length_be_bytes [simp]:
  "length (u16_to_be_bytes a) = 2" "length (u32_to_be_bytes b) = 4" "length (u64_to_be_bytes c) = 8"
  by (simp_all add: u16_to_be_bytes_def u32_to_be_bytes_def u64_to_be_bytes_def)

text \<open>The casts between \<open>u64\<close> and the \<open>i64\<close> SQLite stores.\<close>

definition as_i64 :: "u64 \<Rightarrow> int" where
  "as_i64 w = sint w"

definition as_u64 :: "int \<Rightarrow> u64" where
  "as_u64 i = word_of_int i"

lemma as_u64_as_i64 [simp]: "as_u64 (as_i64 w) = w"
  by (simp add: as_u64_def as_i64_def)

lemma as_i64_inject [simp]: "as_i64 a = as_i64 b \<longleftrightarrow> a = b"
  by (metis as_u64_as_i64)

text \<open>Below \<open>2 ^ 63\<close> the stored integer is the number itself, so it is ordered alike.\<close>

lemma as_i64_small: "unat w < 2 ^ 63 \<Longrightarrow> as_i64 w = int (unat w)"
proof -
  assume a: "unat w < 2 ^ 63"
  then have "uint w < 2 ^ 63"
    by (metis of_nat_less_iff of_nat_numeral of_nat_power uint_nat)
  then have "sint w = uint w"
    by (simp add: sint_uint signed_take_bit_int_eq_self_iff order_trans [OF _ uint_ge_0])
  then show ?thesis by (simp add: as_i64_def)
qed

end
