(* ===== verification/Cbor.thy ===== *)
theory Cbor
  imports Prelude "HOL-Library.Multiset" "HOL-Library.List_Lexorder" "HOL-Library.Product_Lexorder"
    "HOL-Library.Monad_Syntax"
begin

text \<open>
  The CBOR layer that \<open>core/crates/arveil-core/src/signed.rs\<close> builds on.

  \<open>value\<close> is the data model of \<open>ciborium::Value\<close>. The crates \<open>ciborium\<close> and \<open>serde\<close> are
  not part of the repository: what the sources call of them is the record \<open>cbor\<close>, an
  argument of every definition that encodes or decodes. What the sources rely on is the
  locale \<open>cbor_codec\<close>: encoding then decoding gives the value back, the size of an
  encoding is the size RFC 8949 prescribes, a value of less than \<open>2^64\<close> bytes is encoded,
  and the accessors that derived deserializers use read the values derived serializers
  write.

  \<open>sort_maps\<close> and \<open>canonical\<close> are the functions of \<open>signed.rs\<close>; \<open>struct\<close> and the
  \<open>f_\<close> accessors are what \<open>#[derive(Serialize, Deserialize)]\<close> generates for the
  attributes the sources use: a struct is a map from field names, unknown fields are
  ignored, a missing or repeated field is an error.
\<close>

section \<open>Values\<close>

datatype "value" =
    VInteger int
  | VBytes bytes
  | VFloat u64
  | VText string
  | VBool bool
  | VNull
  | VTag u64 "value"
  | VArray "value list"
  | VMap "(value \<times> value) list"

text \<open>Well-formed UTF-8, which a Rust \<open>String\<close> always is.\<close>

definition cont_byte :: "char \<Rightarrow> bool" where
  "cont_byte c \<longleftrightarrow> (of_char c :: nat) div 64 = 2"

fun utf8 :: "string \<Rightarrow> bool" where
  "utf8 [] = True"
| "utf8 (a # s) =
     (let n = (of_char a :: nat) in
      if n < 128 then utf8 s
      else if 194 \<le> n \<and> n < 224 then
        (case s of b # s' \<Rightarrow> cont_byte b \<and> utf8 s' | _ \<Rightarrow> False)
      else if 224 \<le> n \<and> n < 240 then
        (case s of b # c # s' \<Rightarrow>
           cont_byte b \<and> cont_byte c \<and> (n = 224 \<longrightarrow> 160 \<le> (of_char b :: nat)) \<and>
           (n = 237 \<longrightarrow> (of_char b :: nat) < 160) \<and> utf8 s'
         | _ \<Rightarrow> False)
      else if 240 \<le> n \<and> n < 245 then
        (case s of b # c # d # s' \<Rightarrow>
           cont_byte b \<and> cont_byte c \<and> cont_byte d \<and> (n = 240 \<longrightarrow> 144 \<le> (of_char b :: nat)) \<and>
           (n = 244 \<longrightarrow> (of_char b :: nat) < 144) \<and> utf8 s'
         | _ \<Rightarrow> False)
      else False)"

definition ascii :: "string \<Rightarrow> bool" where
  "ascii s \<longleftrightarrow> list_all (\<lambda>c. (of_char c :: nat) < 128) s"

lemma ascii_utf8: "ascii s \<Longrightarrow> utf8 s"
  by (induction s) (auto simp: ascii_def)

text \<open>Values a Rust program can hold: integers in the range of CBOR, valid text, and
  bounded nesting (the first argument). No float is ever written by the sources.\<close>

fun wf_value :: "nat \<Rightarrow> value \<Rightarrow> bool" where
  "wf_value 0 _ = False"
| "wf_value (Suc n) (VInteger i) = (- (2 ^ 64) \<le> i \<and> i < 2 ^ 64)"
| "wf_value (Suc n) (VBytes b) = True"
| "wf_value (Suc n) (VFloat f) = False"
| "wf_value (Suc n) (VText s) = utf8 s"
| "wf_value (Suc n) (VBool b) = True"
| "wf_value (Suc n) VNull = True"
| "wf_value (Suc n) (VTag t v) = wf_value n v"
| "wf_value (Suc n) (VArray vs) = list_all (wf_value n) vs"
| "wf_value (Suc n) (VMap es) = list_all (\<lambda>e. wf_value n (fst e) \<and> wf_value n (snd e)) es"

lemma wf_value_numeral:
  "wf_value (numeral k) (VInteger i) = (- (2 ^ 64) \<le> i \<and> i < 2 ^ 64)"
  "wf_value (numeral k) (VBytes b) = True"
  "wf_value (numeral k) (VText s) = utf8 s"
  "wf_value (numeral k) (VBool t) = True"
  "wf_value (numeral k) VNull = True"
  "wf_value (numeral k) (VTag u v) = wf_value (pred_numeral k) v"
  "wf_value (numeral k) (VArray vs) = list_all (wf_value (pred_numeral k)) vs"
  "wf_value (numeral k) (VMap es) =
     list_all (\<lambda>e. wf_value (pred_numeral k) (fst e) \<and> wf_value (pred_numeral k) (snd e)) es"
  by (simp_all add: numeral_eq_Suc)

text \<open>The length of an encoding in bytes (RFC 8949, section 3): a head of 1, 2, 3, 5 or 9
  bytes for the argument, then the contents.\<close>

definition head_size :: "nat \<Rightarrow> nat" where
  "head_size n =
     (if n < 24 then 1 else if n < 256 then 2 else if n < 65536 then 3
      else if n < 4294967296 then 5 else 9)"

fun cbor_size :: "value \<Rightarrow> nat" where
  "cbor_size (VInteger i) = head_size (nat (if i < 0 then - 1 - i else i))"
| "cbor_size (VBytes b) = head_size (length b) + length b"
| "cbor_size (VFloat f) = 9"
| "cbor_size (VText s) = head_size (length s) + length s"
| "cbor_size (VBool b) = 1"
| "cbor_size VNull = 1"
| "cbor_size (VTag t v) = head_size (unat t) + cbor_size v"
| "cbor_size (VArray vs) = head_size (length vs) + sum_list (map cbor_size vs)"
| "cbor_size (VMap es) =
     head_size (length es) + sum_list (map (\<lambda>e. cbor_size (fst e) + cbor_size (snd e)) es)"

section \<open>The external codec\<close>

text \<open>\<open>into_writer\<close> and \<open>from_reader\<close> are \<open>ciborium\<close>'s. \<open>de_fields\<close> is the sequence of
  named entries a derived struct visitor is given, \<open>de_enum\<close> the variant name and its
  content, \<open>de_unit\<close> whether a unit variant accepts that content, the other fields read one item as the Rust type in their name.\<close>

record cbor =
  into_writer :: "value \<Rightarrow> bytes option"
  from_reader :: "bytes \<Rightarrow> value option"
  de_fields :: "value \<Rightarrow> (string \<times> value) list option"
  de_enum :: "value \<Rightarrow> (string \<times> value option) option"
  de_unit :: "value option \<Rightarrow> bool"
  de_seq :: "value \<Rightarrow> value list option"
  de_bytes :: "value \<Rightarrow> bytes option"
  de_text :: "value \<Rightarrow> string option"
  de_int :: "value \<Rightarrow> int option"
  de_bool :: "value \<Rightarrow> bool option"
  de_null :: "value \<Rightarrow> bool"

text \<open>The value of a struct with named fields, and of an externally tagged enum.\<close>

definition struct :: "(string \<times> value) list \<Rightarrow> value" where
  "struct fs = VMap (map (\<lambda>(k, v). (VText k, v)) fs)"

definition unit_variant :: "string \<Rightarrow> value" where
  "unit_variant tag = VText tag"

definition struct_variant :: "string \<Rightarrow> value \<Rightarrow> value" where
  "struct_variant tag body = VMap [(VText tag, body)]"

locale cbor_codec =
  fixes cb :: cbor
  assumes roundtrip: "into_writer cb v = Some b \<Longrightarrow> wf_value 16 v \<Longrightarrow> from_reader cb b = Some v"
    and encoded_size: "into_writer cb v = Some b \<Longrightarrow> wf_value 16 v \<Longrightarrow> length b = cbor_size v"
    and encodes: "wf_value 16 v \<Longrightarrow> cbor_size v < 2 ^ 64 \<Longrightarrow> into_writer cb v \<noteq> None"
    and de_fields_struct: "de_fields cb (struct fs) = Some fs"
    and de_enum_unit: "de_enum cb (unit_variant tag) = Some (tag, None)"
    and de_enum_struct: "de_enum cb (struct_variant tag body) = Some (tag, Some body)"
    and de_unit_none: "de_unit cb None"
    and de_seq_array: "de_seq cb (VArray vs) = Some vs"
    and de_bytes_bytes: "de_bytes cb (VBytes b) = Some b"
    and de_text_text: "de_text cb (VText s) = Some s"
    and de_int_integer: "de_int cb (VInteger i) = Some i"
    and de_bool_bool: "de_bool cb (VBool t) = Some t"
    and de_null_null: "de_null cb VNull"
    and de_null_other: "v \<noteq> VNull \<Longrightarrow> (\<forall>t w. v \<noteq> VTag t w) \<Longrightarrow> \<not> de_null cb v"

section \<open>Canonical form\<close>

definition encoded :: "cbor \<Rightarrow> value \<Rightarrow> bytes" where
  "encoded cb v = the (into_writer cb v)"

definition sort_entries :: "cbor \<Rightarrow> (value \<times> value) list \<Rightarrow> (value \<times> value) list" where
  "sort_entries cb = sort_key (\<lambda>(k, _). let e = encoded cb k in (length e, e))"

fun sort_maps :: "cbor \<Rightarrow> value \<Rightarrow> value" where
  "sort_maps cb (VMap es) = VMap (sort_entries cb (map (\<lambda>e. (fst e, sort_maps cb (snd e))) es))"
| "sort_maps cb (VArray vs) = VArray (map (sort_maps cb) vs)"
| "sort_maps cb (VTag t v) = VTag t (sort_maps cb v)"
| "sort_maps cb v = v"

definition canonical :: "cbor \<Rightarrow> value \<Rightarrow> bytes option" where
  "canonical cb v = into_writer cb (sort_maps cb v)"

section \<open>What the derived deserializers do\<close>

text \<open>A required field: exactly one entry of that name. An optional one may be missing.\<close>

definition field :: "(string \<times> value) list \<Rightarrow> string \<Rightarrow> value option" where
  "field fs k = (case filter (\<lambda>e. fst e = k) fs of [e] \<Rightarrow> Some (snd e) | _ \<Rightarrow> None)"

definition opt_field :: "(string \<times> value) list \<Rightarrow> string \<Rightarrow> value option option" where
  "opt_field fs k =
     (case filter (\<lambda>e. fst e = k) fs of [] \<Rightarrow> Some None | [e] \<Rightarrow> Some (Some (snd e)) | _ \<Rightarrow> None)"

definition de_uint :: "nat \<Rightarrow> cbor \<Rightarrow> value \<Rightarrow> int option" where
  "de_uint w cb v =
     Option.bind (de_int cb v) (\<lambda>i. if 0 \<le> i \<and> i < 2 ^ w then Some i else None)"

definition de_u8 :: "cbor \<Rightarrow> value \<Rightarrow> u8 option" where
  "de_u8 cb v = map_option word_of_int (de_uint 8 cb v)"

definition de_u16 :: "cbor \<Rightarrow> value \<Rightarrow> u16 option" where
  "de_u16 cb v = map_option word_of_int (de_uint 16 cb v)"

definition de_u32 :: "cbor \<Rightarrow> value \<Rightarrow> u32 option" where
  "de_u32 cb v = map_option word_of_int (de_uint 32 cb v)"

definition de_u64 :: "cbor \<Rightarrow> value \<Rightarrow> u64 option" where
  "de_u64 cb v = map_option word_of_int (de_uint 64 cb v)"

definition de_option :: "cbor \<Rightarrow> (value \<Rightarrow> 'a option) \<Rightarrow> value \<Rightarrow> 'a option option" where
  "de_option cb d v = (if de_null cb v then Some None else map_option Some (d v))"

definition de_list :: "cbor \<Rightarrow> (value \<Rightarrow> 'a option) \<Rightarrow> value \<Rightarrow> 'a list option" where
  "de_list cb d v = Option.bind (de_seq cb v) (\<lambda>vs. collect_options (map d vs))"

definition get_field :: "(value \<Rightarrow> 'a option) \<Rightarrow> (string \<times> value) list \<Rightarrow> string \<Rightarrow> 'a option" where
  "get_field d fs k = Option.bind (field fs k) d"

text \<open>A field with \<open>#[serde(default)]\<close>.\<close>

definition get_default ::
  "'a \<Rightarrow> (value \<Rightarrow> 'a option) \<Rightarrow> (string \<times> value) list \<Rightarrow> string \<Rightarrow> 'a option" where
  "get_default a d fs k =
     (case opt_field fs k of None \<Rightarrow> None | Some None \<Rightarrow> Some a | Some (Some v) \<Rightarrow> d v)"

lemma field_Nil [wire_simps]: "field [] k = None"
  by (simp add: field_def)

lemma field_Cons_other [wire_simps]: "k' \<noteq> k \<Longrightarrow> field ((k', v) # fs) k = field fs k"
  by (simp add: field_def)

lemma field_Cons_same [wire_simps]: "k \<notin> fst ` set fs \<Longrightarrow> field ((k, v) # fs) k = Some v"
proof -
  assume "k \<notin> fst ` set fs"
  then have "filter (\<lambda>e. fst e = k) fs = []"
    by (auto simp: filter_empty_conv)
  then show ?thesis by (simp add: field_def)
qed

lemma opt_field_Nil [wire_simps]: "opt_field [] k = Some None"
  by (simp add: opt_field_def)

lemma opt_field_Cons_other [wire_simps]: "k' \<noteq> k \<Longrightarrow> opt_field ((k', v) # fs) k = opt_field fs k"
  by (simp add: opt_field_def)

lemma opt_field_Cons_same [wire_simps]: "k \<notin> fst ` set fs \<Longrightarrow> opt_field ((k, v) # fs) k = Some (Some v)"
proof -
  assume "k \<notin> fst ` set fs"
  then have "filter (\<lambda>e. fst e = k) fs = []"
    by (auto simp: filter_empty_conv)
  then show ?thesis by (simp add: opt_field_def)
qed

definition v_uint :: "'a::len word \<Rightarrow> value" where
  "v_uint w = VInteger (uint w)"

section \<open>Sorting keeps the fields\<close>

lemma mset_sort_entries [simp]: "mset (sort_entries cb es) = mset es"
  by (simp add: sort_entries_def)

lemma set_sort_entries [simp]: "set (sort_entries cb es) = set es"
  by (simp add: sort_entries_def)

lemma length_sort_entries [simp]: "length (sort_entries cb es) = length es"
  by (simp add: sort_entries_def)

lemma sort_entries_single [simp]: "sort_entries cb [e] = [e]"
  by (simp add: sort_entries_def)

lemma sort_maps_leaf [simp, wire_simps]:
  "sort_maps cb (v_uint w) = v_uint w"
  "sort_maps cb (unit_variant t) = unit_variant t"
  "sort_maps cb (struct_variant t v) = struct_variant t (sort_maps cb v)"
  by (simp_all add: v_uint_def unit_variant_def struct_variant_def)

lemma filter_mset_singleton:
  assumes "mset xs = mset ys" and "filter P xs = [x]"
  shows "filter P ys = [x]"
proof -
  have "mset (filter P ys) = mset (filter P xs)"
    using assms(1) by (simp add: mset_filter)
  then have "mset (filter P ys) = {#x#}"
    by (simp add: assms(2))
  then show ?thesis by (simp only: mset_single_iff)
qed

lemma length_filter_mset: "mset xs = mset ys \<Longrightarrow> length (filter P xs) = length (filter P ys)"
  by (metis mset_filter size_mset)

lemma field_mset: "mset fs = mset gs \<Longrightarrow> field fs k = field gs k"
proof (cases "\<exists>e. filter (\<lambda>e. fst e = k) fs = [e]")
  case True
  assume m: "mset fs = mset gs"
  from True obtain e where "filter (\<lambda>e. fst e = k) fs = [e]" by blast
  moreover from filter_mset_singleton [OF m this] have "filter (\<lambda>e. fst e = k) gs = [e]" .
  ultimately show ?thesis by (simp add: field_def)
next
  case False
  assume m: "mset fs = mset gs"
  have "\<nexists>e. filter (\<lambda>e. fst e = k) gs = [e]"
    using False filter_mset_singleton [OF m [symmetric]] by blast
  then show ?thesis using False by (auto simp: field_def split: list.splits)
qed

lemma opt_field_mset: "mset fs = mset gs \<Longrightarrow> opt_field fs k = opt_field gs k"
proof (cases "\<exists>e. filter (\<lambda>e. fst e = k) fs = [e]")
  case True
  assume m: "mset fs = mset gs"
  from True obtain e where "filter (\<lambda>e. fst e = k) fs = [e]" by blast
  moreover from filter_mset_singleton [OF m this] have "filter (\<lambda>e. fst e = k) gs = [e]" .
  ultimately show ?thesis by (simp add: opt_field_def)
next
  case False
  assume m: "mset fs = mset gs"
  have ne: "\<nexists>e. filter (\<lambda>e. fst e = k) gs = [e]"
    using False filter_mset_singleton [OF m [symmetric]] by blast
  have len: "length (filter (\<lambda>e. fst e = k) fs) = length (filter (\<lambda>e. fst e = k) gs)"
    by (rule length_filter_mset [OF m])
  show ?thesis
    using False ne len unfolding opt_field_def by (auto split: list.splits)
qed

lemma filter_map_snd:
  "filter (\<lambda>e. fst e = k) (map (\<lambda>e. (fst e, f (snd e))) fs) =
   map (\<lambda>e. (fst e, f (snd e))) (filter (\<lambda>e. fst e = k) fs)"
  by (induction fs) auto

lemma field_map_snd: "field (map (\<lambda>e. (fst e, f (snd e))) fs) k = map_option f (field fs k)"
  by (auto simp: field_def filter_map_snd split: list.splits)

lemma opt_field_map_snd:
  "opt_field (map (\<lambda>e. (fst e, f (snd e))) fs) k = map_option (map_option f) (opt_field fs k)"
  by (auto simp: opt_field_def filter_map_snd split: list.splits)

text \<open>The fields of a sorted struct: some permutation of the fields, each sorted.\<close>

lemma sort_maps_struct:
  obtains gs where "sort_maps cb (struct fs) = struct gs"
    and "mset gs = mset (map (\<lambda>e. (fst e, sort_maps cb (snd e))) fs)"
proof -
  let ?m = "\<lambda>e :: string \<times> value. (VText (fst e), sort_maps cb (snd e))"
  have sm: "sort_maps cb (struct fs) = VMap (sort_entries cb (map ?m fs))"
    by (simp add: struct_def comp_def case_prod_beta)
  define un :: "value \<times> value \<Rightarrow> string \<times> value" where
    "un = (\<lambda>e. (case fst e of VText s \<Rightarrow> s | _ \<Rightarrow> [], snd e))"
  define gs where "gs = map un (sort_entries cb (map ?m fs))"
  have un_back: "(VText (fst (un e)), snd (un e)) = e" if "e \<in> set (map ?m fs)" for e
    using that by (auto simp: un_def)
  have "map (\<lambda>(k, v). (VText k, v)) gs = sort_entries cb (map ?m fs)"
    unfolding gs_def map_map comp_def case_prod_beta
    by (rule map_idI) (use un_back in simp)
  then have "sort_maps cb (struct fs) = struct gs"
    by (simp only: sm struct_def [of gs])
  moreover have "mset gs = mset (map (\<lambda>e. (fst e, sort_maps cb (snd e))) fs)"
  proof -
    have "mset gs = image_mset un (mset (map ?m fs))"
      by (simp add: gs_def)
    also have "\<dots> = mset (map (un \<circ> ?m) fs)"
      by (simp add: mset_map multiset.map_comp)
    finally show ?thesis
      by (simp add: un_def comp_def)
  qed
  ultimately show thesis by (rule that)
qed

context cbor_codec begin

text \<open>What a derived deserializer reads from a canonical encoding of a struct.\<close>

lemma de_fields_sorted_struct:
  obtains gs where "de_fields cb (sort_maps cb (struct fs)) = Some gs"
    and "\<And>k. field gs k = map_option (sort_maps cb) (field fs k)"
    and "\<And>k. opt_field gs k = map_option (map_option (sort_maps cb)) (opt_field fs k)"
proof -
  obtain gs where gs: "sort_maps cb (struct fs) = struct gs"
    and m: "mset gs = mset (map (\<lambda>e. (fst e, sort_maps cb (snd e))) fs)"
    by (rule sort_maps_struct)
  show thesis
  proof (rule that)
    show "de_fields cb (sort_maps cb (struct fs)) = Some gs"
      by (simp add: gs de_fields_struct)
    show "field gs k = map_option (sort_maps cb) (field fs k)" for k
      by (simp add: field_mset [OF m] field_map_snd)
    show "opt_field gs k = map_option (map_option (sort_maps cb)) (opt_field fs k)" for k
      by (simp add: opt_field_mset [OF m] opt_field_map_snd)
  qed
qed

lemma de_uint_word [simp]:
  "de_u8 cb (v_uint a) = Some a" "de_u16 cb (v_uint b) = Some b"
  "de_u32 cb (v_uint c) = Some c" "de_u64 cb (v_uint d) = Some d"
  using uint_lt2p [of a] uint_lt2p [of b] uint_lt2p [of c] uint_lt2p [of d]
  by (simp_all add: de_u8_def de_u16_def de_u32_def de_u64_def de_uint_def v_uint_def de_int_integer)

lemmas de_leaf [wire_simps] = de_text_text de_bytes_bytes de_bool_bool de_uint_word

lemma sorted_struct_cases:
  obtains gs where "de_fields cb (sort_maps cb (struct fs)) = Some gs"
    and "\<And>k. field gs k = map_option (sort_maps cb) (field fs k)"
  by (rule de_fields_sorted_struct) blast

lemma sorted_field:
  assumes "\<And>k. field gs k = map_option (sort_maps cb) (field fs k)"
  shows "get_field d gs k = Option.bind (field fs k) (\<lambda>v. d (sort_maps cb v))"
  by (simp add: get_field_def assms bind_map_option comp_def)

lemma sorted_default:
  assumes "\<And>k. opt_field gs k = map_option (map_option (sort_maps cb)) (opt_field fs k)"
  shows "get_default a d gs k =
    (case opt_field fs k of None \<Rightarrow> None | Some None \<Rightarrow> Some a | Some (Some v) \<Rightarrow> d (sort_maps cb v))"
  by (auto simp: get_default_def assms split: option.splits)

lemma de_option_text [wire_simps]: "de_option cb (de_text cb) (VText s) = Some (Some s)"
  using de_null_other [of "VText s"] by (simp add: de_option_def de_text_text)

lemma de_option_bytes [wire_simps]: "de_option cb (de_bytes cb) (VBytes b) = Some (Some b)"
  using de_null_other [of "VBytes b"] by (simp add: de_option_def de_bytes_bytes)

lemma de_option_null [wire_simps]: "de_option cb d VNull = Some None"
  by (simp add: de_option_def de_null_null)

lemma de_list_map:
  "(\<And>x. x \<in> set xs \<Longrightarrow> d (e x) = Some x) \<Longrightarrow> de_list cb d (VArray (map e xs)) = Some xs"
proof -
  assume a: "\<And>x. x \<in> set xs \<Longrightarrow> d (e x) = Some x"
  have "map (d \<circ> e) xs = map Some xs"
    by (rule map_cong) (simp_all add: a)
  then show ?thesis
    by (simp add: de_list_def de_seq_array collect_options_Some_iff)
qed

lemma sorted_list_roundtrip:
  "(\<And>x. d (sort_maps cb (e x)) = Some x) \<Longrightarrow>
     de_list cb d (VArray (map (sort_maps cb \<circ> e) xs)) = Some xs"
  using de_list_map [of xs d "\<lambda>x. sort_maps cb (e x)"] by (simp add: comp_def)

lemma canonical_decodes:
  "canonical cb v = Some b \<Longrightarrow> wf_value 16 (sort_maps cb v) \<Longrightarrow> from_reader cb b = Some (sort_maps cb v)"
  unfolding canonical_def by (rule roundtrip)

end

lemma wf_value_mono: "wf_value m v \<Longrightarrow> m \<le> n \<Longrightarrow> wf_value n v"
proof (induction m v arbitrary: n rule: wf_value.induct)
  case (8 m t v)
  then show ?case by (cases n) auto
next
  case (9 m vs)
  then show ?case by (cases n) (auto simp: list_all_iff)
next
  case (10 m es)
  then show ?case by (cases n) (auto simp: list_all_iff)
qed (auto dest!: Suc_le_D)

lemma wf_value_sort_maps [simp]: "wf_value n (sort_maps cb v) = wf_value n v"
proof (induction n v rule: wf_value.induct)
  case (9 n vs)
  then show ?case by (auto simp: list_all_iff)
next
  case (10 n es)
  then show ?case by (auto simp: list_all_iff)
qed auto

lemma sum_list_map_mset:
  fixes f :: "'a \<Rightarrow> nat"
  assumes "mset xs = mset ys"
  shows "sum_list (map f xs) = sum_list (map f ys)"
proof -
  have "sum_mset (mset (map f xs)) = sum_mset (mset (map f ys))"
    using assms by simp
  then show ?thesis
    by (simp only: sum_mset_sum_list)
qed

lemma cbor_size_sort_maps [simp]: "cbor_size (sort_maps cb v) = cbor_size v"
proof (induction cb v rule: sort_maps.induct)
  case (1 cb es)
  let ?f = "\<lambda>e. cbor_size (fst e) + cbor_size (snd e)"
  let ?es = "map (\<lambda>e. (fst e, sort_maps cb (snd e))) es"
  have "sum_list (map ?f (sort_entries cb ?es)) = sum_list (map ?f ?es)"
    by (rule sum_list_map_mset) simp
  also have "map ?f ?es = map ?f es"
    using 1 by auto
  finally show ?case by simp
next
  case (2 cb vs)
  have "map (\<lambda>x. cbor_size (sort_maps cb x)) vs = map cbor_size vs"
    using 2 by (intro map_cong) auto
  then show ?case
    by (simp only: sort_maps.simps cbor_size.simps length_map map_map comp_def)
qed auto

lemma wf_v_uint [simp]: "wf_value (Suc n) (v_uint (w :: u8))" "wf_value (Suc n) (v_uint (w16 :: u16))"
  "wf_value (Suc n) (v_uint (w32 :: u32))" "wf_value (Suc n) (v_uint (w64 :: u64))"
proof -
  have *: "- 18446744073709551616 \<le> uint x" for x :: "'a::len word"
    by (rule order_trans [OF _ uint_ge_0]) simp
  show "wf_value (Suc n) (v_uint w)" "wf_value (Suc n) (v_uint w16)"
    "wf_value (Suc n) (v_uint w32)" "wf_value (Suc n) (v_uint w64)"
    using uint_lt2p [of w] uint_lt2p [of w16] uint_lt2p [of w32] uint_lt2p [of w64]
    by (simp_all add: v_uint_def * )
qed

lemma wf_v_uint_numeral:
  "wf_value (numeral k) (v_uint (w8 :: u8))" "wf_value (numeral k) (v_uint (w16 :: u16))"
  "wf_value (numeral k) (v_uint (w32 :: u32))" "wf_value (numeral k) (v_uint (w64 :: u64))"
  by (simp_all add: numeral_eq_Suc)

lemma wf_struct: "wf_value (Suc (Suc n)) (struct fs) \<longleftrightarrow>
    list_all (\<lambda>e. utf8 (fst e) \<and> wf_value (Suc n) (snd e)) fs"
  by (auto simp: struct_def list_all_iff)

lemma wf_variants: "wf_value (Suc n) (unit_variant t) \<longleftrightarrow> utf8 t"
  "wf_value (Suc (Suc n)) (struct_variant t v) \<longleftrightarrow> utf8 t \<and> wf_value (Suc n) v"
  by (simp_all add: unit_variant_def struct_variant_def)

end
