(* ===== verification/Rfc8949.thy ===== *)
theory Rfc8949
  imports Cbor
begin

text \<open>
  A codec that satisfies the contract \<open>cbor_codec\<close>: the encoding of RFC 8949 with shortest
  heads and definite lengths, and a decoder for it. The sources call \<open>ciborium\<close> for this
  work, so nothing here models a line of the repository. The theory shows that the
  assumptions of \<open>cbor_codec\<close> are satisfiable together (the interpretation \<open>rfc\<close>), and it is
  the codec the witnesses of the properties evaluate.
\<close>

section \<open>Encoding\<close>

fun be_bytes :: "nat \<Rightarrow> nat \<Rightarrow> bytes" where
  "be_bytes 0 n = []"
| "be_bytes (Suc k) n = be_bytes k (n div 256) @ [word_of_nat n]"

definition head_byte :: "nat \<Rightarrow> nat \<Rightarrow> u8" where
  "head_byte m k = word_of_nat (32 * m + k)"

definition rfc_head :: "nat \<Rightarrow> nat \<Rightarrow> bytes" where
  "rfc_head m n =
     (if n < 24 then [head_byte m n]
      else if n < 256 then head_byte m 24 # be_bytes 1 n
      else if n < 65536 then head_byte m 25 # be_bytes 2 n
      else if n < 4294967296 then head_byte m 26 # be_bytes 4 n
      else head_byte m 27 # be_bytes 8 n)"

definition sized_head :: "nat \<Rightarrow> nat \<Rightarrow> bytes option" where
  "sized_head m n = (if n < 2 ^ 64 then Some (rfc_head m n) else None)"

fun rfc_enc :: "value \<Rightarrow> bytes option" where
  "rfc_enc (VInteger i) =
     (if 0 \<le> i then sized_head 0 (nat i) else sized_head 1 (nat (- 1 - i)))"
| "rfc_enc (VBytes b) = map_option (\<lambda>h. h @ b) (sized_head 2 (length b))"
| "rfc_enc (VFloat f) = Some (head_byte 7 27 # be_bytes 8 (unat f))"
| "rfc_enc (VText s) = map_option (\<lambda>h. h @ bytes_of_string s) (sized_head 3 (length s))"
| "rfc_enc (VBool t) = Some [head_byte 7 (if t then 21 else 20)]"
| "rfc_enc VNull = Some [head_byte 7 22]"
| "rfc_enc (VTag t v) = map_option (\<lambda>b. rfc_head 6 (unat t) @ b) (rfc_enc v)"
| "rfc_enc (VArray vs) =
     (case (sized_head 4 (length vs), collect_options (map rfc_enc vs)) of
        (Some h, Some bs) \<Rightarrow> Some (h @ concat bs) | _ \<Rightarrow> None)"
| "rfc_enc (VMap es) =
     (case (sized_head 5 (length es), collect_options (map (\<lambda>e. rfc_enc (fst e)) es),
            collect_options (map (\<lambda>e. rfc_enc (snd e)) es)) of
        (Some h, Some ks, Some vs) \<Rightarrow> Some (h @ concat (map (\<lambda>(k, v). k @ v) (zip ks vs))) | _ \<Rightarrow> None)"

section \<open>Decoding\<close>

fun from_be :: "nat \<Rightarrow> bytes \<Rightarrow> nat" where
  "from_be acc [] = acc"
| "from_be acc (b # bs) = from_be (256 * acc + unat b) bs"

definition take_bytes :: "nat \<Rightarrow> bytes \<Rightarrow> (bytes \<times> bytes) option" where
  "take_bytes n bs = (if n \<le> length bs then Some (take n bs, drop n bs) else None)"

definition parse_head :: "bytes \<Rightarrow> (nat \<times> nat \<times> bytes) option" where
  "parse_head bs =
     (case bs of [] \<Rightarrow> None
      | b # rest \<Rightarrow>
          let m = unat b div 32; k = unat b mod 32 in
          if k < 24 then Some (m, k, rest)
          else if k < 28 then
            map_option (\<lambda>(x, r). (m, from_be 0 x, r)) (take_bytes (2 ^ (k - 24)) rest)
          else None)"

fun dec_many :: "(bytes \<Rightarrow> ('a \<times> bytes) option) \<Rightarrow> nat \<Rightarrow> bytes \<Rightarrow> ('a list \<times> bytes) option" where
  "dec_many p 0 bs = Some ([], bs)"
| "dec_many p (Suc n) bs =
     (case p bs of None \<Rightarrow> None
      | Some (x, r) \<Rightarrow> map_option (\<lambda>(xs, r'). (x # xs, r')) (dec_many p n r))"

definition dec_pair :: "(bytes \<Rightarrow> ('a \<times> bytes) option) \<Rightarrow> bytes \<Rightarrow> (('a \<times> 'a) \<times> bytes) option" where
  "dec_pair p bs =
     (case p bs of None \<Rightarrow> None
      | Some (x, r) \<Rightarrow> map_option (\<lambda>(y, r'). ((x, y), r')) (p r))"

definition string_of_bytes :: "bytes \<Rightarrow> string" where
  "string_of_bytes b = map (\<lambda>w. char_of (unat w)) b"

fun rfc_dec :: "nat \<Rightarrow> bytes \<Rightarrow> (value \<times> bytes) option" where
  "rfc_dec 0 bs = None"
| "rfc_dec (Suc d) bs =
     (case parse_head bs of
        None \<Rightarrow> None
      | Some (m, n, r) \<Rightarrow>
          if m = 0 then Some (VInteger (int n), r)
          else if m = 1 then Some (VInteger (- 1 - int n), r)
          else if m = 2 then map_option (\<lambda>(b, r'). (VBytes b, r')) (take_bytes n r)
          else if m = 3 then
            (case take_bytes n r of None \<Rightarrow> None
             | Some (b, r') \<Rightarrow>
                 if utf8 (string_of_bytes b) then Some (VText (string_of_bytes b), r') else None)
          else if m = 4 then map_option (\<lambda>(vs, r'). (VArray vs, r')) (dec_many (rfc_dec d) n r)
          else if m = 5 then
            map_option (\<lambda>(es, r'). (VMap es, r')) (dec_many (dec_pair (rfc_dec d)) n r)
          else if m = 6 then map_option (\<lambda>(v, r'). (VTag (word_of_nat n) v, r')) (rfc_dec d r)
          else if n = 20 then Some (VBool False, r)
          else if n = 21 then Some (VBool True, r)
          else if n = 22 then Some (VNull, r)
          else None)"

definition text_entry :: "value \<times> value \<Rightarrow> (string \<times> value) option" where
  "text_entry e = (case fst e of VText k \<Rightarrow> Some (k, snd e) | _ \<Rightarrow> None)"

definition rfc_cbor :: cbor where
  "rfc_cbor =
     \<lparr>into_writer = rfc_enc,
      from_reader = (\<lambda>bs. map_option fst (rfc_dec 64 bs)),
      de_fields = (\<lambda>v. case v of VMap es \<Rightarrow> collect_options (map text_entry es) | _ \<Rightarrow> None),
      de_enum = (\<lambda>v. case v of VText t \<Rightarrow> Some (t, None)
        | VMap es \<Rightarrow> (case es of [(VText t, b)] \<Rightarrow> Some (t, Some b) | _ \<Rightarrow> None) | _ \<Rightarrow> None),
      de_unit = (\<lambda>c. c = None),
      de_seq = (\<lambda>v. case v of VArray vs \<Rightarrow> Some vs | _ \<Rightarrow> None),
      de_bytes = (\<lambda>v. case v of VBytes b \<Rightarrow> Some b | _ \<Rightarrow> None),
      de_text = (\<lambda>v. case v of VText s \<Rightarrow> Some s | _ \<Rightarrow> None),
      de_int = (\<lambda>v. case v of VInteger i \<Rightarrow> Some i | _ \<Rightarrow> None),
      de_bool = (\<lambda>v. case v of VBool t \<Rightarrow> Some t | _ \<Rightarrow> None),
      de_null = (\<lambda>v. v = VNull)\<rparr>"

section \<open>Heads\<close>

lemma length_be_bytes_n [simp]: "length (be_bytes k n) = k"
  by (induction k arbitrary: n) auto

lemma from_be_snoc: "from_be acc (xs @ [b]) = 256 * from_be acc xs + unat b"
  by (induction xs arbitrary: acc) auto

lemma from_be_be_bytes: "n < 256 ^ k \<Longrightarrow> from_be acc (be_bytes k n) = acc * 256 ^ k + n"
proof (induction k arbitrary: n)
  case (Suc k)
  have "n div 256 < 256 ^ k"
    using Suc.prems by (simp add: less_mult_imp_div_less mult.commute)
  then have "from_be acc (be_bytes k (n div 256)) = acc * 256 ^ k + n div 256"
    by (rule Suc.IH)
  then show ?case
    by (simp add: from_be_snoc unat_of_nat algebra_simps)
qed simp

lemma unat_head_byte: "m < 8 \<Longrightarrow> k < 32 \<Longrightarrow> unat (head_byte m k) = 32 * m + k"
  unfolding head_byte_def by (subst unat_of_nat) simp

lemma take_bytes_append [simp]: "length xs = n \<Longrightarrow> take_bytes n (xs @ ys) = Some (xs, ys)"
  by (simp add: take_bytes_def)

lemma parse_rfc_head:
  assumes "m < 8" and "n < 2 ^ 64"
  shows "parse_head (rfc_head m n @ r) = Some (m, n, r)"
proof -
  have d: "unat (head_byte m k) div 32 = m" "unat (head_byte m k) mod 32 = k" if "k < 32" for k
    using assms(1) that by (simp_all add: unat_head_byte)
  show ?thesis
    using assms(2) from_be_be_bytes [of n 1 0] from_be_be_bytes [of n 2 0] from_be_be_bytes [of n 4 0]
      from_be_be_bytes [of n 8 0] d
    by (simp add: rfc_head_def parse_head_def Let_def del: be_bytes.simps)
qed

lemma length_rfc_head: "length (rfc_head m n) = head_size n"
  by (simp add: rfc_head_def head_size_def del: be_bytes.simps)

lemma sized_head_Some: "sized_head m n = Some h \<longleftrightarrow> n < 2 ^ 64 \<and> h = rfc_head m n"
  by (auto simp: sized_head_def)

lemma string_of_bytes_of_string [simp]: "string_of_bytes (bytes_of_string s) = s"
proof -
  have "char_of (unat (word_of_nat (of_char c) :: u8)) = c" for c :: char
    by (simp add: unat_of_nat)
  then show ?thesis
    by (simp add: string_of_bytes_def bytes_of_string_def comp_def map_idI)
qed

section \<open>Round trip\<close>

lemma dec_many_concat:
  assumes "\<And>x r. x \<in> set xs \<Longrightarrow> p (f x @ r) = Some (x, r)"
  shows "dec_many p (length xs) (concat (map f xs) @ r) = Some (xs, r)"
  using assms by (induction xs) auto

lemma collect_map_Some:
  "collect_options (map f xs) = Some ys \<Longrightarrow>
   ys = map (\<lambda>x. the (f x)) xs \<and> (\<forall>x\<in>set xs. f x = Some (the (f x)))"
proof (induction xs arbitrary: ys)
  case (Cons x xs)
  then show ?case by (cases "f x") auto
qed simp

lemma concat_zip_map:
  "map (\<lambda>(k, v). k @ v) (zip (map f es) (map g es)) = map (\<lambda>e. f e @ g e) es"
  by (induction es) auto

lemma rfc_dec_enc:
  "rfc_enc v = Some b \<Longrightarrow> wf_value n v \<Longrightarrow> rfc_dec n (b @ r) = Some (v, r)"
proof (induction n v arbitrary: b r rule: wf_value.induct)
  case (2 n i)
  then show ?case by (auto simp: sized_head_Some parse_rfc_head split: if_splits)
next
  case (3 n b')
  then show ?case by (auto simp: sized_head_Some parse_rfc_head)
next
  case (5 n s)
  then show ?case by (auto simp: sized_head_Some parse_rfc_head)
next
  case (6 n t)
  then show ?case by (auto simp: parse_head_def unat_head_byte)
next
  case (7 n)
  then show ?case by (auto simp: parse_head_def unat_head_byte)
next
  case (8 n t v)
  have "unat t < 2 ^ 64"
    using unsigned_less [of t] by simp
  with 8 show ?case by (auto simp: parse_rfc_head)
next
  case (9 n vs)
  from "9.prems"(1) obtain bs where
    len: "length vs < 2 ^ 64" and bs: "collect_options (map rfc_enc vs) = Some bs"
    and b: "b = rfc_head 4 (length vs) @ concat bs"
    by (auto simp: sized_head_Some split: option.splits)
  note c = collect_map_Some [OF bs]
  have "dec_many (rfc_dec n) (length vs) (concat (map (\<lambda>x. the (rfc_enc x)) vs) @ r) = Some (vs, r)"
    using 9 c by (intro dec_many_concat) (auto simp: list_all_iff)
  then show ?case using len b c by (simp add: parse_rfc_head)
next
  case (10 n es)
  from "10.prems"(1) obtain ks vs where
    len: "length es < 2 ^ 64"
    and ks: "collect_options (map (\<lambda>e. rfc_enc (fst e)) es) = Some ks"
    and vs: "collect_options (map (\<lambda>e. rfc_enc (snd e)) es) = Some vs"
    and b: "b = rfc_head 5 (length es) @ concat (map (\<lambda>(k, v). k @ v) (zip ks vs))"
    by (auto simp: sized_head_Some split: option.splits)
  note k = collect_map_Some [OF ks] and v = collect_map_Some [OF vs]
  let ?f = "\<lambda>e. the (rfc_enc (fst e)) @ the (rfc_enc (snd e))"
  have z: "map (\<lambda>(k, v). k @ v) (zip ks vs) = map ?f es"
    using k v by (simp add: concat_zip_map)
  have "dec_many (dec_pair (rfc_dec n)) (length es) (concat (map ?f es) @ r) = Some (es, r)"
    using 10 k v by (intro dec_many_concat) (auto simp: list_all_iff dec_pair_def)
  then show ?case using len b z by (simp add: parse_rfc_head)
qed auto

section \<open>Size and totality\<close>

lemma rfc_enc_size: "rfc_enc v = Some b \<Longrightarrow> wf_value n v \<Longrightarrow> length b = cbor_size v"
proof (induction n v arbitrary: b rule: wf_value.induct)
  case (9 n vs)
  from "9.prems"(1) obtain bs where
    bs: "collect_options (map rfc_enc vs) = Some bs"
    and b: "b = rfc_head 4 (length vs) @ concat bs"
    by (auto simp: sized_head_Some split: option.splits)
  note c = collect_map_Some [OF bs]
  have "map length bs = map cbor_size vs"
    using 9 c by (auto simp: list_all_iff)
  then show ?case by (simp add: b length_rfc_head length_concat)
next
  case (10 n es)
  from "10.prems"(1) obtain ks vs where
    ks: "collect_options (map (\<lambda>e. rfc_enc (fst e)) es) = Some ks"
    and vs: "collect_options (map (\<lambda>e. rfc_enc (snd e)) es) = Some vs"
    and b: "b = rfc_head 5 (length es) @ concat (map (\<lambda>(k, v). k @ v) (zip ks vs))"
    by (auto simp: sized_head_Some split: option.splits)
  note k = collect_map_Some [OF ks] and v = collect_map_Some [OF vs]
  have z: "map (\<lambda>(k, v). k @ v) (zip ks vs) =
      map (\<lambda>e. the (rfc_enc (fst e)) @ the (rfc_enc (snd e))) es"
    using k v by (simp add: concat_zip_map)
  have "map (\<lambda>e. length (the (rfc_enc (fst e)) @ the (rfc_enc (snd e)))) es =
      map (\<lambda>e. cbor_size (fst e) + cbor_size (snd e)) es"
    using 10 k v by (auto simp: list_all_iff)
  then have "length (concat (map (\<lambda>e. the (rfc_enc (fst e)) @ the (rfc_enc (snd e))) es)) =
      sum_list (map (\<lambda>e. cbor_size (fst e) + cbor_size (snd e)) es)"
    by (simp only: length_concat map_map comp_def)
  then show ?case by (simp add: b z length_rfc_head)
qed (auto simp: sized_head_Some length_rfc_head split: if_splits)

lemma collect_options_total: "\<forall>x\<in>set xs. f x \<noteq> None \<Longrightarrow> collect_options (map f xs) \<noteq> None"
  by (induction xs) auto

lemma sum_list_member_le: "x \<in> set xs \<Longrightarrow> f x \<le> sum_list (map f xs)" for f :: "'a \<Rightarrow> nat"
  by (induction xs) auto

lemma length_le_sum_list: "\<forall>x\<in>set xs. 0 < f x \<Longrightarrow> length xs \<le> sum_list (map f xs)" for f :: "'a \<Rightarrow> nat"
proof (induction xs)
  case (Cons x xs)
  then have "length xs \<le> sum_list (map f xs)" and "0 < f x" by auto
  then show ?case by simp
qed simp

lemma cbor_size_pos: "0 < cbor_size v"
  by (cases v) (auto simp: head_size_def)

lemma rfc_enc_total: "wf_value n v \<Longrightarrow> cbor_size v < 2 ^ 64 \<Longrightarrow> rfc_enc v \<noteq> None"
proof (induction n v rule: wf_value.induct)
  case (9 n vs)
  have "cbor_size v < 2 ^ 64" if "v \<in> set vs" for v
    using sum_list_member_le [OF that, of cbor_size] "9.prems"(2) by simp
  then have "collect_options (map rfc_enc vs) \<noteq> None"
    using 9 by (intro collect_options_total) (auto simp: list_all_iff)
  moreover have "length vs < 2 ^ 64"
    using length_le_sum_list [of vs cbor_size] "9.prems"(2) by (simp add: cbor_size_pos)
  ultimately show ?case by (auto simp: sized_head_def)
next
  case (10 n es)
  let ?s = "\<lambda>e. cbor_size (fst e) + cbor_size (snd e)"
  have sz: "cbor_size (fst e) < 2 ^ 64" "cbor_size (snd e) < 2 ^ 64" if "e \<in> set es" for e
    using sum_list_member_le [OF that, of ?s] "10.prems"(2) by simp_all
  then have "\<forall>e\<in>set es. rfc_enc (fst e) \<noteq> None \<and> rfc_enc (snd e) \<noteq> None"
    using "10.IH" "10.prems"(1) by (simp add: list_all_iff)
  then have "collect_options (map (\<lambda>e. rfc_enc (fst e)) es) \<noteq> None"
      "collect_options (map (\<lambda>e. rfc_enc (snd e)) es) \<noteq> None"
    by (auto simp del: not_None_eq intro!: collect_options_total)
  moreover have "length es < 2 ^ 64"
    using length_le_sum_list [of es ?s] "10.prems"(2) by (simp add: cbor_size_pos)
  ultimately show ?case by (auto simp: sized_head_def)
qed (auto simp: sized_head_def)

lemma text_entry_struct: "collect_options (map text_entry (map (\<lambda>(k, v). (VText k, v)) fs)) = Some fs"
  by (induction fs) (auto simp: text_entry_def)

interpretation rfc: cbor_codec rfc_cbor
proof unfold_locales
  show "from_reader rfc_cbor b = Some v"
    if "into_writer rfc_cbor v = Some b" "wf_value 16 v" for v b
    using that rfc_dec_enc [of v b 64 "[]"] wf_value_mono [of 16 v 64] by (simp add: rfc_cbor_def)
  show "length b = cbor_size v" if "into_writer rfc_cbor v = Some b" "wf_value 16 v" for v b
    using that rfc_enc_size by (simp add: rfc_cbor_def)
  show "into_writer rfc_cbor v \<noteq> None" if "wf_value 16 v" "cbor_size v < 2 ^ 64" for v
    using that rfc_enc_total by (simp add: rfc_cbor_def)
  show "de_fields rfc_cbor (struct fs) = Some fs" for fs
    using text_entry_struct [of fs] by (simp add: rfc_cbor_def struct_def)
qed (auto simp: rfc_cbor_def unit_variant_def struct_variant_def)

end
