(* ===== verification/Signed.thy ===== *)
theory Signed
  imports Rfc8949
begin

text \<open>
  \<open>core/crates/arveil-core/src/signed.rs\<close>: the signed-object envelope of every object the
  program signs, over the canonical encoding of theory \<open>Cbor\<close>.

  The crates \<open>ed25519_dalek\<close> and \<open>sha2\<close> are the record \<open>crypto\<close>; \<open>crypto_ok\<close> states what the
  sources rely on: a signature is 64 bytes and verifies under the key's public half, a
  public key and a digest are 32 bytes. Nothing is assumed about forgery or collisions:
  where a property depends on two digests being different, that is a hypothesis of it.

  The properties: canonical bytes do not depend on the order of map entries, what
  \<open>sign\<close> produces \<open>verify\<close> accepts, what \<open>verify\<close> accepts was checked over exactly the
  context and the body it returns, and the bytes covered by a signature determine the
  context and the body.
\<close>

unbundle bit_operations_syntax

section \<open>Definitions\<close>

record crypto =
  ed_sign :: "bytes \<Rightarrow> bytes \<Rightarrow> bytes"
  ed_verify_strict :: "bytes \<Rightarrow> bytes \<Rightarrow> bytes \<Rightarrow> bool"
  ed_public :: "bytes \<Rightarrow> bytes"
  ed_point :: "bytes \<Rightarrow> bool"
  sha256 :: "bytes \<Rightarrow> bytes"

definition crypto_ok :: "crypto \<Rightarrow> bool" where
  "crypto_ok cr \<longleftrightarrow>
     (\<forall>k m. length (ed_sign cr k m) = 64) \<and>
     (\<forall>k m. ed_verify_strict cr (ed_public cr k) m (ed_sign cr k m)) \<and>
     (\<forall>k. length (ed_public cr k) = 32 \<and> ed_point cr (ed_public cr k)) \<and>
     (\<forall>x. length (sha256 cr x) = 32)"

datatype signed_error =
    SignedEncode
  | SignedDecode "string option"
  | WrongContext string string
  | BadSignature

record signed_object =
  so_context :: string
  so_body :: bytes
  so_signature :: bytes

definition signed_object_to_value :: "signed_object \<Rightarrow> value" where
  "signed_object_to_value so =
     struct [(''context'', VText (so_context so)), (''body'', VBytes (so_body so)),
             (''signature'', VBytes (so_signature so))]"

definition signed_object_from_value :: "cbor \<Rightarrow> value \<Rightarrow> signed_object option" where
  "signed_object_from_value cb v =
     do { fs \<leftarrow> de_fields cb v;
          c \<leftarrow> get_field (de_text cb) fs ''context'';
          b \<leftarrow> get_field (de_bytes cb) fs ''body'';
          s \<leftarrow> get_field (de_bytes cb) fs ''signature'';
          Some \<lparr>so_context = c, so_body = b, so_signature = s\<rparr> }"

definition signing_input :: "string \<Rightarrow> bytes \<Rightarrow> bytes" where
  "signing_input context body =
     u16_to_be_bytes (word_of_nat (length context)) @ bytes_of_string context @ body"

definition signed_canonical :: "cbor \<Rightarrow> value \<Rightarrow> signed_error + bytes" where
  "signed_canonical cb v = ok_or (canonical cb v) SignedEncode"

definition sign :: "cbor \<Rightarrow> crypto \<Rightarrow> string \<Rightarrow> bytes \<Rightarrow> bytes \<Rightarrow> signed_error + bytes" where
  "sign cb cr context body key =
     (let signature = ed_sign cr key (signing_input context body) in
      signed_canonical cb (signed_object_to_value
        \<lparr>so_context = context, so_body = body, so_signature = signature\<rparr>))"

definition sign_value :: "cbor \<Rightarrow> crypto \<Rightarrow> string \<Rightarrow> value \<Rightarrow> bytes \<Rightarrow> signed_error + bytes" where
  "sign_value cb cr context v key =
     and_then (signed_canonical cb v) (\<lambda>body. sign cb cr context body key)"

text \<open>\<open>ciborium::from_reader\<close> at a derived type: the item, then the type's visitor.\<close>

definition decode_as :: "cbor \<Rightarrow> (value \<Rightarrow> 'a option) \<Rightarrow> bytes \<Rightarrow> 'a option" where
  "decode_as cb d bs = Option.bind (from_reader cb bs) d"

definition peek :: "cbor \<Rightarrow> bytes \<Rightarrow> signed_error + signed_object" where
  "peek cb bs = ok_or (decode_as cb (signed_object_from_value cb) bs) (SignedDecode None)"

definition verify :: "cbor \<Rightarrow> crypto \<Rightarrow> bytes \<Rightarrow> string \<Rightarrow> bytes \<Rightarrow> signed_error + bytes" where
  "verify cb cr sobj context key =
     and_then (ok_or (decode_as cb (signed_object_from_value cb) sobj) (SignedDecode None)) (\<lambda>so.
     if so_context so \<noteq> context then Inl (WrongContext context (so_context so))
     else if length (so_signature so) \<noteq> 64 then Inl BadSignature
     else if \<not> ed_verify_strict cr key (signing_input (so_context so) (so_body so)) (so_signature so)
     then Inl BadSignature
     else Inr (so_body so))"

definition verify_value ::
  "cbor \<Rightarrow> crypto \<Rightarrow> (value \<Rightarrow> 'a option) \<Rightarrow> bytes \<Rightarrow> string \<Rightarrow> bytes \<Rightarrow> signed_error + 'a" where
  "verify_value cb cr d sobj context key =
     and_then (verify cb cr sobj context key) (\<lambda>body.
     ok_or (decode_as cb d body) (SignedDecode None))"

section \<open>A concrete signature scheme for witnesses\<close>

text \<open>Not a secure one: it only shows that \<open>crypto_ok\<close> can hold. The public key is the seed
  and the signature repeats the key and the start of the message.\<close>

definition fit :: "nat \<Rightarrow> bytes \<Rightarrow> bytes" where
  "fit n b = take n (b @ replicate n 0)"

definition demo_crypto :: crypto where
  "demo_crypto =
     \<lparr>ed_sign = (\<lambda>k m. fit 32 k @ fit 32 m),
      ed_verify_strict = (\<lambda>pk m s. s = pk @ fit 32 m),
      ed_public = fit 32,
      ed_point = (\<lambda>_. True),
      sha256 = (\<lambda>x. fit 32 (rev x))\<rparr>"

lemma length_fit [simp]: "length (fit n b) = n"
  by (simp add: fit_def)

lemma demo_crypto_ok: "crypto_ok demo_crypto"
  by (simp add: crypto_ok_def demo_crypto_def)

section \<open>Decoding what was encoded\<close>

context cbor_codec begin

lemma encoder_size:
  assumes "wf_value 16 v" and "cbor_size v < 2 ^ 64"
  obtains b where "signed_canonical cb v = Inr b" and "length b = cbor_size v"
    and "from_reader cb b = Some (sort_maps cb v)"
proof -
  obtain b where b: "canonical cb v = Some b"
    using encodes [of "sort_maps cb v"] assms by (auto simp: canonical_def)
  show thesis
  proof (rule that [of b])
    show "signed_canonical cb v = Inr b"
      by (simp add: signed_canonical_def b)
    show "length b = cbor_size v"
      using encoded_size b assms(1) by (simp add: canonical_def)
    show "from_reader cb b = Some (sort_maps cb v)"
      using canonical_decodes b assms(1) by simp
  qed
qed

lemma signed_object_roundtrip:
  "signed_object_from_value cb (sort_maps cb (signed_object_to_value so)) = Some so"
proof -
  obtain gs where "de_fields cb (sort_maps cb (signed_object_to_value so)) = Some gs"
    and "\<And>k. field gs k = map_option (sort_maps cb)
      (field [(''context'', VText (so_context so)), (''body'', VBytes (so_body so)),
             (''signature'', VBytes (so_signature so))] k)"
    unfolding signed_object_to_value_def by (rule de_fields_sorted_struct) blast
  then show ?thesis
    by (simp add: signed_object_from_value_def get_field_def field_def de_text_text de_bytes_bytes)
qed

lemma wf_signed_object: "utf8 (so_context so) \<Longrightarrow> wf_value 16 (signed_object_to_value so)"
  by (simp add: signed_object_to_value_def struct_def wf_value_numeral ascii_utf8 ascii_def)

lemma sign_decodes:
  assumes "sign cb cr context body key = Inr b" and "utf8 context"
  shows "decode_as cb (signed_object_from_value cb) b =
    Some \<lparr>so_context = context, so_body = body,
          so_signature = ed_sign cr key (signing_input context body)\<rparr>"
proof -
  define so where "so = \<lparr>so_context = context, so_body = body,
    so_signature = ed_sign cr key (signing_input context body)\<rparr>"
  have "canonical cb (signed_object_to_value so) = Some b"
    using assms(1) by (simp add: sign_def signed_canonical_def so_def ok_or_eq_Inr_iff Let_def)
  then have "from_reader cb b = Some (sort_maps cb (signed_object_to_value so))"
    using assms(2) by (intro canonical_decodes) (simp_all add: wf_signed_object so_def)
  then show ?thesis
    by (simp add: decode_as_def signed_object_roundtrip so_def [symmetric])
qed

lemma verify_sign:
  assumes "crypto_ok cr" and "sign cb cr context body key = Inr b" and "utf8 context"
  shows "verify cb cr b context (ed_public cr key) = Inr body"
  using assms(1) sign_decodes [OF assms(2,3)]
  by (simp add: verify_def crypto_ok_def)

text \<open>Values with equal entries in another order have the same canonical form.\<close>

end

definition struct_key :: "value \<Rightarrow> bool" where
  "struct_key k = (case k of VText s \<Rightarrow> utf8 s \<and> length s < 65536 | _ \<Rightarrow> False)"

inductive same_up_to_order :: "value \<Rightarrow> value \<Rightarrow> bool" where
  refl: "same_up_to_order v v"
| trans: "same_up_to_order u v \<Longrightarrow> same_up_to_order v w \<Longrightarrow> same_up_to_order u w"
| in_tag: "same_up_to_order v w \<Longrightarrow> same_up_to_order (VTag t v) (VTag t w)"
| in_array: "same_up_to_order v w \<Longrightarrow>
    same_up_to_order (VArray (us @ v # ws)) (VArray (us @ w # ws))"
| in_entry: "same_up_to_order v w \<Longrightarrow>
    same_up_to_order (VMap (es @ (k, v) # fs)) (VMap (es @ (k, w) # fs))"
| reorder: "mset es = mset fs \<Longrightarrow> distinct (map fst es) \<Longrightarrow> list_all struct_key (map fst es) \<Longrightarrow>
    same_up_to_order (VMap es) (VMap fs)"

lemma sort_entries_perm:
  assumes "mset es = mset fs" and "inj_on (\<lambda>e. encoded cb (fst e)) (set es)"
  shows "sort_entries cb es = sort_entries cb fs"
proof -
  let ?k = "\<lambda>(k, _ :: value). let e = encoded cb k in (length e, e)"
  have "inj_on ?k (set es)"
    using assms(2) by (fastforce simp: inj_on_def Let_def)
  then have "sort_key ?k es = sort_key ?k fs"
    using assms(1) by (intro sort_key_inj_key_eq) auto
  then show ?thesis by (simp add: sort_entries_def)
qed

context cbor_codec begin

lemma struct_key_wf: "struct_key k \<Longrightarrow> wf_value 16 k \<and> cbor_size k < 2 ^ 64"
  by (cases k) (auto simp: struct_key_def wf_value_numeral head_size_def)

lemma encoded_inj:
  assumes "struct_key k" and "struct_key l" and "encoded cb k = encoded cb l"
  shows "k = l"
proof -
  have some: "into_writer cb x = Some (encoded cb x)" if "struct_key x" for x
    using encodes [of x] struct_key_wf [OF that] by (auto simp: encoded_def)
  have "from_reader cb (encoded cb k) = Some k" "from_reader cb (encoded cb l) = Some l"
    using roundtrip some struct_key_wf assms(1,2) by metis+
  then have "Some k = Some l" by (simp only: assms(3))
  then show ?thesis by simp
qed

lemma sort_maps_same_up_to_order: "same_up_to_order v w \<Longrightarrow> sort_maps cb v = sort_maps cb w"
proof (induction rule: same_up_to_order.induct)
  case (reorder es fs)
  let ?m = "\<lambda>e. (fst e, sort_maps cb (snd e))"
  have keys: "struct_key (fst e)" if "e \<in> set es" for e
    using reorder that by (auto simp: list_all_iff)
  have "inj_on (\<lambda>e. encoded cb (fst e)) (set (map ?m es))"
  proof (rule inj_onI)
    fix x y
    assume x: "x \<in> set (map ?m es)" and y: "y \<in> set (map ?m es)"
      and eq: "encoded cb (fst x) = encoded cb (fst y)"
    from x y obtain a b where a: "a \<in> set es" "x = ?m a" and b: "b \<in> set es" "y = ?m b"
      by auto
    have "fst a = fst b"
      using eq encoded_inj keys a b by simp
    then have "a = b"
      using a(1) b(1) \<open>distinct (map fst es)\<close> by (metis distinct_map inj_onD)
    then show "x = y" using a b by simp
  qed
  then have "sort_entries cb (map ?m es) = sort_entries cb (map ?m fs)"
    using reorder.hyps(1) by (intro sort_entries_perm) simp
  then show ?case by simp
qed auto

lemma canonical_same_up_to_order: "same_up_to_order v w \<Longrightarrow> canonical cb v = canonical cb w"
  by (simp add: canonical_def sort_maps_same_up_to_order)

end

lemma u16_be_inj:
  assumes "u16_to_be_bytes (word_of_nat m) = u16_to_be_bytes (word_of_nat n)"
    and "m < 65536" and "n < 65536"
  shows "m = n"
proof -
  have split: "w = push_bit 8 (ucast (ucast (drop_bit 8 w) :: u8)) OR ucast (ucast w :: u8)" for w :: u16
    by (rule bit_word_eqI) (auto simp: bit_simps)
  have "(word_of_nat m :: u16) = word_of_nat n"
    using assms(1) split [of "word_of_nat m"] split [of "word_of_nat n"]
    by (simp add: u16_to_be_bytes_def)
  then have "unat (word_of_nat m :: u16) = unat (word_of_nat n :: u16)"
    by simp
  then show ?thesis
    using assms(2,3) by (simp add: unat_of_nat)
qed

section \<open>Properties\<close>

text \<open>Canonical bytes are independent of the order in which map entries are given, at
  every depth: the two implementations sign and hash the same bytes for the same object.\<close>

theorem canonical_order_independent:
  assumes "cbor_codec cb" and "same_up_to_order v w"
  shows "canonical cb v = canonical cb w"
  using assms by (rule cbor_codec.canonical_same_up_to_order)

theorem canonical_order_independent_witness:
  "same_up_to_order (struct [(''b'', VNull), (''a'', VBool True)]) (struct [(''a'', VBool True), (''b'', VNull)]) \<and>
   canonical rfc_cbor (struct [(''b'', VNull), (''a'', VBool True)]) =
   canonical rfc_cbor (struct [(''a'', VBool True), (''b'', VNull)])"
proof -
  have h: "same_up_to_order (struct [(''b'', VNull), (''a'', VBool True)])
      (struct [(''a'', VBool True), (''b'', VNull)])"
    unfolding struct_def
    by (rule same_up_to_order.reorder) (simp_all add: struct_key_def ascii_utf8 ascii_def add_mset_commute)
  show ?thesis
    using h canonical_order_independent [OF rfc.cbor_codec_axioms h] by blast
qed

text \<open>What \<open>sign\<close> produces under a context, \<open>verify\<close> accepts under that context and the
  signer's public key, and returns the signed body.\<close>

theorem sign_then_verify:
  assumes "cbor_codec cb" and "crypto_ok cr" and "utf8 context"
    and "sign cb cr context body key = Inr sobj"
  shows "verify cb cr sobj context (ed_public cr key) = Inr body"
  using cbor_codec.verify_sign [OF assms(1,2,4,3)] .

theorem sign_then_verify_witness:
  "\<exists>sobj. sign rfc_cbor demo_crypto ''ctx'' [1, 2] [9] = Inr sobj \<and>
     verify rfc_cbor demo_crypto sobj ''ctx'' (ed_public demo_crypto [9]) = Inr [1, 2]"
proof -
  have u: "utf8 ''ctx''"
    by (simp add: ascii_utf8 ascii_def)
  let ?so = "\<lparr>so_context = ''ctx'', so_body = [1, 2],
    so_signature = ed_sign demo_crypto [9] (signing_input ''ctx'' [1, 2])\<rparr>"
  have "cbor_size (signed_object_to_value ?so) < 2 ^ 64"
    by (simp add: signed_object_to_value_def struct_def head_size_def demo_crypto_def)
  then have "canonical rfc_cbor (signed_object_to_value ?so) \<noteq> None"
    unfolding canonical_def
    by (intro rfc.encodes) (simp_all only: wf_value_sort_maps cbor_size_sort_maps rfc.wf_signed_object u
        signed_object.simps)
  then obtain sobj where s: "sign rfc_cbor demo_crypto ''ctx'' [1, 2] [9] = Inr sobj"
    by (auto simp: sign_def signed_canonical_def Let_def)
  show ?thesis
    using s sign_then_verify [OF rfc.cbor_codec_axioms demo_crypto_ok u s] by blast
qed

text \<open>C4. What \<open>verify\<close> accepts is authentic and bound to its context: the returned body is
  the one the envelope carries, its 64-byte signature verified over exactly the expected
  context and that body, and the bytes so covered determine both.\<close>

theorem verify_sound:
  assumes "verify cb cr sobj context key = Inr body"
  shows "\<exists>so. decode_as cb (signed_object_from_value cb) sobj = Some so \<and>
      so_context so = context \<and> so_body so = body \<and> length (so_signature so) = 64 \<and>
      ed_verify_strict cr key (signing_input context body) (so_signature so) \<and>
      (\<forall>c b. length context < 65536 \<and> length c < 65536 \<and>
         signing_input c b = signing_input context body \<longrightarrow> c = context \<and> b = body)"
proof -
  have inj: "c = context \<and> b = body"
    if "length context < 65536" "length c < 65536" "signing_input c b = signing_input context body" for c b
  proof -
    have "u16_to_be_bytes (word_of_nat (length c)) = u16_to_be_bytes (word_of_nat (length context))"
      and rest: "bytes_of_string c @ b = bytes_of_string context @ body"
      using that(3) unfolding signing_input_def by simp_all
    then have "length c = length context"
      using u16_be_inj that(1,2) by blast
    then show ?thesis
      using rest inj_bytes_of_string by (simp add: append_eq_append_conv)
  qed
  show ?thesis
    using assms inj
    by (auto simp: verify_def result_simps split: if_splits)
qed

theorem verify_sound_witness:
  "\<exists>sobj so. verify rfc_cbor demo_crypto sobj ''ctx'' (ed_public demo_crypto [9]) = Inr [1, 2] \<and>
     decode_as rfc_cbor (signed_object_from_value rfc_cbor) sobj = Some so \<and> so_body so = [1, 2]"
proof -
  let ?so = "\<lparr>so_context = ''ctx'', so_body = [1, 2],
    so_signature = ed_sign demo_crypto [9] (signing_input ''ctx'' [1, 2])\<rparr>"
  have u: "utf8 ''ctx''"
    by (simp add: ascii_utf8 ascii_def)
  have "cbor_size (signed_object_to_value ?so) < 2 ^ 64"
    by (simp add: signed_object_to_value_def struct_def head_size_def demo_crypto_def)
  then have "canonical rfc_cbor (signed_object_to_value ?so) \<noteq> None"
    unfolding canonical_def
    by (intro rfc.encodes) (simp_all only: wf_value_sort_maps cbor_size_sort_maps rfc.wf_signed_object u
        signed_object.simps)
  then obtain sobj where s: "sign rfc_cbor demo_crypto ''ctx'' [1, 2] [9] = Inr sobj"
    by (auto simp: sign_def signed_canonical_def Let_def)
  note v = rfc.verify_sign [OF demo_crypto_ok s u]
  show ?thesis
    using v verify_sound [OF v] by blast
qed

end
