(* ===== verification/Codec.thy ===== *)
theory Codec
  imports Signed
begin

text \<open>
  \<open>core/crates/arveil-core/src/channel/codec.rs\<close>: the frames exchanged with the relay and
  their CBOR encoding. The catalogue of payloads is the datatype \<open>payload\<close>, one constructor
  per variant with its fields in order; \<open>payload_variant\<close> gives the external tag and the named
  fields that the derived serializer writes, \<open>payload_units\<close> and \<open>payload_decode\<close> what the
  derived deserializer reads back.

  \<open>encode\<close> refuses frames over one mebibyte, \<open>encode_padded\<close> searches the shortest \<open>pad\<close> field
  that reaches a size, \<open>decode\<close> refuses an oversized input before parsing. The search loop is
  a \<open>partial_function\<close>: that it always ends is the lemma \<open>padded_loop_ends\<close>. Shown: decoding
  inverts both encoders, the padding reaches the size and is the shortest that does, and
  every frame of a watch session has one and the same length.
\<close>

section \<open>Definitions\<close>

definition MAX_FRAME_BYTES :: nat where
  "MAX_FRAME_BYTES = 1024 * 1024"

definition WATCH_FRAME_BYTES :: nat where
  "WATCH_FRAME_BYTES = 256"

datatype codec_error = CodecTooLarge nat | CodecEncode | CodecDecode

record invitation_record =
  ir_sequence :: u64
  ir_id :: bytes
  ir_created_at :: u64
  ir_expires_at :: u64
  ir_state :: string
  ir_claimed_identity :: bytes
  ir_claimed_at :: u64

definition invitation_record_fields :: "invitation_record \<Rightarrow> (string \<times> value) list" where
  "invitation_record_fields r =
     [(''sequence'', v_uint (ir_sequence r)), (''id'', VBytes (ir_id r)),
      (''created_at'', v_uint (ir_created_at r)), (''expires_at'', v_uint (ir_expires_at r)),
      (''state'', VText (ir_state r)), (''claimed_identity'', VBytes (ir_claimed_identity r)),
      (''claimed_at'', v_uint (ir_claimed_at r))]"

definition invitation_record_to_value :: "invitation_record \<Rightarrow> value" where
  "invitation_record_to_value r = struct (invitation_record_fields r)"

definition invitation_record_from_value :: "cbor \<Rightarrow> value \<Rightarrow> invitation_record option" where
  "invitation_record_from_value cb v =
     do { fs \<leftarrow> de_fields cb v;
          a \<leftarrow> get_field (de_u64 cb) fs ''sequence'';
          b \<leftarrow> get_field (de_bytes cb) fs ''id'';
          c \<leftarrow> get_field (de_u64 cb) fs ''created_at'';
          d \<leftarrow> get_field (de_u64 cb) fs ''expires_at'';
          e \<leftarrow> get_field (de_text cb) fs ''state'';
          f \<leftarrow> get_field (de_bytes cb) fs ''claimed_identity'';
          g \<leftarrow> get_field (de_u64 cb) fs ''claimed_at'';
          Some \<lparr>ir_sequence = a, ir_id = b, ir_created_at = c, ir_expires_at = d, ir_state = e,
                ir_claimed_identity = f, ir_claimed_at = g\<rparr> }"

record envelope_item =
  ei_seq :: u64
  ei_delivery_id :: bytes
  ei_hpke_enc :: bytes
  ei_ciphertext :: bytes

definition envelope_item_fields :: "envelope_item \<Rightarrow> (string \<times> value) list" where
  "envelope_item_fields r =
     [(''seq'', v_uint (ei_seq r)), (''delivery_id'', VBytes (ei_delivery_id r)),
      (''hpke_enc'', VBytes (ei_hpke_enc r)), (''ciphertext'', VBytes (ei_ciphertext r))]"

definition envelope_item_to_value :: "envelope_item \<Rightarrow> value" where
  "envelope_item_to_value r = struct (envelope_item_fields r)"

definition envelope_item_from_value :: "cbor \<Rightarrow> value \<Rightarrow> envelope_item option" where
  "envelope_item_from_value cb v =
     do { fs \<leftarrow> de_fields cb v;
          a \<leftarrow> get_field (de_u64 cb) fs ''seq'';
          b \<leftarrow> get_field (de_bytes cb) fs ''delivery_id'';
          c \<leftarrow> get_field (de_bytes cb) fs ''hpke_enc'';
          d \<leftarrow> get_field (de_bytes cb) fs ''ciphertext'';
          Some \<lparr>ei_seq = a, ei_delivery_id = b, ei_hpke_enc = c, ei_ciphertext = d\<rparr> }"

datatype (plugins only: code size) payload =
    InvitePolicyGet
  | InvitePolicy bool u64 u64
  | InviteCreate bytes bytes u64
  | InviteList u64 u16
  | InviteGet bytes
  | InviteRevoke bytes
  | InviteAccept bytes
  | Invitation invitation_record
  | Invitations "invitation_record list" u64
  | KeyPackagesClaimOnce bytes bytes bytes
  | Ping
  | Pong
  | WatchKeySet bytes
  | MailboxWatch
  | MailboxWakeup
  | EndpointListGet
  | EndpointList bytes
  | InviteRedeem bytes bytes bytes
  | InviteRedeemed bytes
  | CredentialPut bytes
  | ManifestPut bytes
  | NotifyHintSet string
  | BlobResume bytes
  | BlobOffset u64
  | PairBegin
  | PairStarted bytes bytes u64
  | PairPut bytes bytes string bytes
  | PairGet bytes bytes string
  | PairFetched bytes
  | RecoverIdentity bytes bytes
  | Recovered bytes u64
  | ManifestGet bytes
  | ManifestLatest bytes
  | CredentialGet bytes bytes
  | CredentialFound bytes
  | KeyPackagesPublish "bytes list"
  | KeyPackagesStatus
  | KeyPackagesAvailable u32
  | KeyPackagesClaim bytes bytes
  | KeyPackageClaimed bytes
  | MailboxCreate bytes bytes bytes
  | MailboxCreated bytes bytes bytes
  | EnvelopePut bytes bytes bytes u64 bytes bytes
  | EnvelopeAccepted u64
  | EnvelopeFetch bytes bytes u64 u16
  | Envelopes "envelope_item list" u64
  | EnvelopeAck bytes bytes "bytes list"
  | BlobUploadBegin u64
  | BlobUploadStarted bytes bytes
  | BlobChunk bytes u64 bytes
  | BlobCommit bytes bytes u64
  | BlobCommitted u64
  | BlobFetch bytes bytes u64 u32
  | BlobData u64 bytes
  | Ack
  | Error u16 string

primrec payload_variant :: "payload \<Rightarrow> string \<times> (string \<times> value) list option" where
  "payload_variant InvitePolicyGet = (''InvitePolicyGet'', None)"
| "payload_variant (InvitePolicy a b c) = (''InvitePolicy'', Some
     [(''can_invite'', VBool a), (''server_time'', v_uint b), (''ttl'', v_uint c)])"
| "payload_variant (InviteCreate a b c) = (''InviteCreate'', Some
     [(''request_key'', VBytes a), (''token_hash'', VBytes b), (''ttl'', v_uint c)])"
| "payload_variant (InviteList a b) = (''InviteList'', Some
     [(''cursor'', v_uint a), (''limit'', v_uint b)])"
| "payload_variant (InviteGet a) = (''InviteGet'', Some
     [(''invitation_id'', VBytes a)])"
| "payload_variant (InviteRevoke a) = (''InviteRevoke'', Some
     [(''invitation_id'', VBytes a)])"
| "payload_variant (InviteAccept a) = (''InviteAccept'', Some
     [(''token'', VBytes a)])"
| "payload_variant (Invitation a) = (''Invitation'', Some
     [(''invitation'', invitation_record_to_value a)])"
| "payload_variant (Invitations a b) = (''Invitations'', Some
     [(''invitations'', VArray (map invitation_record_to_value a)), (''next_cursor'', v_uint b)])"
| "payload_variant (KeyPackagesClaimOnce a b c) = (''KeyPackagesClaimOnce'', Some
     [(''request_key'', VBytes a), (''identity_id'', VBytes b), (''device_id'', VBytes c)])"
| "payload_variant Ping = (''Ping'', None)"
| "payload_variant Pong = (''Pong'', None)"
| "payload_variant (WatchKeySet a) = (''WatchKeySet'', Some
     [(''key'', VBytes a)])"
| "payload_variant MailboxWatch = (''MailboxWatch'', None)"
| "payload_variant MailboxWakeup = (''MailboxWakeup'', None)"
| "payload_variant EndpointListGet = (''EndpointListGet'', None)"
| "payload_variant (EndpointList a) = (''EndpointList'', Some
     [(''signed'', VBytes a)])"
| "payload_variant (InviteRedeem a b c) = (''InviteRedeem'', Some
     [(''token'', VBytes a), (''credential'', VBytes b), (''manifest'', VBytes c)])"
| "payload_variant (InviteRedeemed a) = (''InviteRedeemed'', Some
     [(''identity_id'', VBytes a)])"
| "payload_variant (CredentialPut a) = (''CredentialPut'', Some
     [(''credential'', VBytes a)])"
| "payload_variant (ManifestPut a) = (''ManifestPut'', Some
     [(''manifest'', VBytes a)])"
| "payload_variant (NotifyHintSet a) = (''NotifyHintSet'', Some
     [(''url'', VText a)])"
| "payload_variant (BlobResume a) = (''BlobResume'', Some
     [(''blob_id'', VBytes a)])"
| "payload_variant (BlobOffset a) = (''BlobOffset'', Some
     [(''offset'', v_uint a)])"
| "payload_variant PairBegin = (''PairBegin'', None)"
| "payload_variant (PairStarted a b c) = (''PairStarted'', Some
     [(''pair_id'', VBytes a), (''capability'', VBytes b), (''expires_at'', v_uint c)])"
| "payload_variant (PairPut a b c d) = (''PairPut'', Some
     [(''pair_id'', VBytes a), (''capability'', VBytes b), (''slot'', VText c),
      (''data'', VBytes d)])"
| "payload_variant (PairGet a b c) = (''PairGet'', Some
     [(''pair_id'', VBytes a), (''capability'', VBytes b), (''slot'', VText c)])"
| "payload_variant (PairFetched a) = (''PairFetched'', Some
     [(''data'', VBytes a)])"
| "payload_variant (RecoverIdentity a b) = (''RecoverIdentity'', Some
     [(''credential'', VBytes a), (''manifest'', VBytes b)])"
| "payload_variant (Recovered a b) = (''Recovered'', Some
     [(''identity_id'', VBytes a), (''previous_sequence'', v_uint b)])"
| "payload_variant (ManifestGet a) = (''ManifestGet'', Some
     [(''identity_id'', VBytes a)])"
| "payload_variant (ManifestLatest a) = (''ManifestLatest'', Some
     [(''manifest'', VBytes a)])"
| "payload_variant (CredentialGet a b) = (''CredentialGet'', Some
     [(''identity_id'', VBytes a), (''credential_hash'', VBytes b)])"
| "payload_variant (CredentialFound a) = (''CredentialFound'', Some
     [(''credential'', VBytes a)])"
| "payload_variant (KeyPackagesPublish a) = (''KeyPackagesPublish'', Some
     [(''key_packages'', VArray (map VBytes a))])"
| "payload_variant KeyPackagesStatus = (''KeyPackagesStatus'', None)"
| "payload_variant (KeyPackagesAvailable a) = (''KeyPackagesAvailable'', Some
     [(''count'', v_uint a)])"
| "payload_variant (KeyPackagesClaim a b) = (''KeyPackagesClaim'', Some
     [(''identity_id'', VBytes a), (''device_id'', VBytes b)])"
| "payload_variant (KeyPackageClaimed a) = (''KeyPackageClaimed'', Some
     [(''key_package'', VBytes a)])"
| "payload_variant (MailboxCreate a b c) = (''MailboxCreate'', Some
     [(''request_key'', VBytes a), (''read_capability'', VBytes b),
      (''write_capability'', VBytes c)])"
| "payload_variant (MailboxCreated a b c) = (''MailboxCreated'', Some
     [(''mailbox_id'', VBytes a), (''read_capability'', VBytes b),
      (''write_capability'', VBytes c)])"
| "payload_variant (EnvelopePut a b c d e f) = (''EnvelopePut'', Some
     [(''mailbox_id'', VBytes a), (''write_capability'', VBytes b), (''delivery_id'', VBytes c),
      (''requested_expiry'', v_uint d), (''hpke_enc'', VBytes e), (''ciphertext'', VBytes f)])"
| "payload_variant (EnvelopeAccepted a) = (''EnvelopeAccepted'', Some
     [(''effective_expiry'', v_uint a)])"
| "payload_variant (EnvelopeFetch a b c d) = (''EnvelopeFetch'', Some
     [(''mailbox_id'', VBytes a), (''read_capability'', VBytes b), (''cursor'', v_uint c),
      (''limit'', v_uint d)])"
| "payload_variant (Envelopes a b) = (''Envelopes'', Some
     [(''items'', VArray (map envelope_item_to_value a)), (''next_cursor'', v_uint b)])"
| "payload_variant (EnvelopeAck a b c) = (''EnvelopeAck'', Some
     [(''mailbox_id'', VBytes a), (''read_capability'', VBytes b),
      (''delivery_ids'', VArray (map VBytes c))])"
| "payload_variant (BlobUploadBegin a) = (''BlobUploadBegin'', Some
     [(''size'', v_uint a)])"
| "payload_variant (BlobUploadStarted a b) = (''BlobUploadStarted'', Some
     [(''blob_id'', VBytes a), (''read_capability'', VBytes b)])"
| "payload_variant (BlobChunk a b c) = (''BlobChunk'', Some
     [(''blob_id'', VBytes a), (''offset'', v_uint b), (''data'', VBytes c)])"
| "payload_variant (BlobCommit a b c) = (''BlobCommit'', Some
     [(''blob_id'', VBytes a), (''ciphertext_hash'', VBytes b), (''requested_expiry'', v_uint c)])"
| "payload_variant (BlobCommitted a) = (''BlobCommitted'', Some
     [(''effective_expiry'', v_uint a)])"
| "payload_variant (BlobFetch a b c d) = (''BlobFetch'', Some
     [(''blob_id'', VBytes a), (''read_capability'', VBytes b), (''offset'', v_uint c),
      (''length'', v_uint d)])"
| "payload_variant (BlobData a b) = (''BlobData'', Some
     [(''total_size'', v_uint a), (''data'', VBytes b)])"
| "payload_variant Ack = (''Ack'', None)"
| "payload_variant (Error a b) = (''Error'', Some
     [(''code'', v_uint a), (''message'', VText b)])"

definition payload_units :: "(string \<times> payload) list" where
  "payload_units =
     [(''InvitePolicyGet'', InvitePolicyGet), (''Ping'', Ping), (''Pong'', Pong),
      (''MailboxWatch'', MailboxWatch), (''MailboxWakeup'', MailboxWakeup),
      (''EndpointListGet'', EndpointListGet), (''PairBegin'', PairBegin),
      (''KeyPackagesStatus'', KeyPackagesStatus), (''Ack'', Ack)]"

definition payload_decode ::
  "cbor \<Rightarrow> string \<Rightarrow> (string \<times> value) list \<Rightarrow> payload option" where
  "payload_decode cb tag fs =
     (if tag = ''InvitePolicy'' then do {
        a \<leftarrow> get_field (de_bool cb) fs ''can_invite'';
        b \<leftarrow> get_field (de_u64 cb) fs ''server_time'';
        c \<leftarrow> get_field (de_u64 cb) fs ''ttl''; Some (InvitePolicy a b c) }
      else if tag = ''InviteCreate'' then do {
        a \<leftarrow> get_field (de_bytes cb) fs ''request_key'';
        b \<leftarrow> get_field (de_bytes cb) fs ''token_hash'';
        c \<leftarrow> get_field (de_u64 cb) fs ''ttl''; Some (InviteCreate a b c) }
      else if tag = ''InviteList'' then do {
        a \<leftarrow> get_field (de_u64 cb) fs ''cursor''; b \<leftarrow> get_field (de_u16 cb) fs ''limit'';
        Some (InviteList a b) }
      else if tag = ''InviteGet'' then do {
        a \<leftarrow> get_field (de_bytes cb) fs ''invitation_id''; Some (InviteGet a) }
      else if tag = ''InviteRevoke'' then do {
        a \<leftarrow> get_field (de_bytes cb) fs ''invitation_id''; Some (InviteRevoke a) }
      else if tag = ''InviteAccept'' then do {
        a \<leftarrow> get_field (de_bytes cb) fs ''token''; Some (InviteAccept a) }
      else if tag = ''Invitation'' then do {
        a \<leftarrow> get_field (invitation_record_from_value cb) fs ''invitation''; Some (Invitation a) }
      else if tag = ''Invitations'' then do {
        a \<leftarrow> get_field (de_list cb (invitation_record_from_value cb)) fs ''invitations'';
        b \<leftarrow> get_field (de_u64 cb) fs ''next_cursor''; Some (Invitations a b) }
      else if tag = ''KeyPackagesClaimOnce'' then do {
        a \<leftarrow> get_field (de_bytes cb) fs ''request_key'';
        b \<leftarrow> get_field (de_bytes cb) fs ''identity_id'';
        c \<leftarrow> get_field (de_bytes cb) fs ''device_id''; Some (KeyPackagesClaimOnce a b c) }
      else if tag = ''WatchKeySet'' then do {
        a \<leftarrow> get_field (de_bytes cb) fs ''key''; Some (WatchKeySet a) }
      else if tag = ''EndpointList'' then do {
        a \<leftarrow> get_field (de_bytes cb) fs ''signed''; Some (EndpointList a) }
      else if tag = ''InviteRedeem'' then do {
        a \<leftarrow> get_field (de_bytes cb) fs ''token'';
        b \<leftarrow> get_field (de_bytes cb) fs ''credential'';
        c \<leftarrow> get_field (de_bytes cb) fs ''manifest''; Some (InviteRedeem a b c) }
      else if tag = ''InviteRedeemed'' then do {
        a \<leftarrow> get_field (de_bytes cb) fs ''identity_id''; Some (InviteRedeemed a) }
      else if tag = ''CredentialPut'' then do {
        a \<leftarrow> get_field (de_bytes cb) fs ''credential''; Some (CredentialPut a) }
      else if tag = ''ManifestPut'' then do {
        a \<leftarrow> get_field (de_bytes cb) fs ''manifest''; Some (ManifestPut a) }
      else if tag = ''NotifyHintSet'' then do {
        a \<leftarrow> get_field (de_text cb) fs ''url''; Some (NotifyHintSet a) }
      else if tag = ''BlobResume'' then do {
        a \<leftarrow> get_field (de_bytes cb) fs ''blob_id''; Some (BlobResume a) }
      else if tag = ''BlobOffset'' then do {
        a \<leftarrow> get_field (de_u64 cb) fs ''offset''; Some (BlobOffset a) }
      else if tag = ''PairStarted'' then do {
        a \<leftarrow> get_field (de_bytes cb) fs ''pair_id'';
        b \<leftarrow> get_field (de_bytes cb) fs ''capability'';
        c \<leftarrow> get_field (de_u64 cb) fs ''expires_at''; Some (PairStarted a b c) }
      else if tag = ''PairPut'' then do {
        a \<leftarrow> get_field (de_bytes cb) fs ''pair_id'';
        b \<leftarrow> get_field (de_bytes cb) fs ''capability'';
        c \<leftarrow> get_field (de_text cb) fs ''slot''; d \<leftarrow> get_field (de_bytes cb) fs ''data'';
        Some (PairPut a b c d) }
      else if tag = ''PairGet'' then do {
        a \<leftarrow> get_field (de_bytes cb) fs ''pair_id'';
        b \<leftarrow> get_field (de_bytes cb) fs ''capability'';
        c \<leftarrow> get_field (de_text cb) fs ''slot''; Some (PairGet a b c) }
      else if tag = ''PairFetched'' then do {
        a \<leftarrow> get_field (de_bytes cb) fs ''data''; Some (PairFetched a) }
      else if tag = ''RecoverIdentity'' then do {
        a \<leftarrow> get_field (de_bytes cb) fs ''credential'';
        b \<leftarrow> get_field (de_bytes cb) fs ''manifest''; Some (RecoverIdentity a b) }
      else if tag = ''Recovered'' then do {
        a \<leftarrow> get_field (de_bytes cb) fs ''identity_id'';
        b \<leftarrow> get_field (de_u64 cb) fs ''previous_sequence''; Some (Recovered a b) }
      else if tag = ''ManifestGet'' then do {
        a \<leftarrow> get_field (de_bytes cb) fs ''identity_id''; Some (ManifestGet a) }
      else if tag = ''ManifestLatest'' then do {
        a \<leftarrow> get_field (de_bytes cb) fs ''manifest''; Some (ManifestLatest a) }
      else if tag = ''CredentialGet'' then do {
        a \<leftarrow> get_field (de_bytes cb) fs ''identity_id'';
        b \<leftarrow> get_field (de_bytes cb) fs ''credential_hash''; Some (CredentialGet a b) }
      else if tag = ''CredentialFound'' then do {
        a \<leftarrow> get_field (de_bytes cb) fs ''credential''; Some (CredentialFound a) }
      else if tag = ''KeyPackagesPublish'' then do {
        a \<leftarrow> get_field (de_list cb (de_bytes cb)) fs ''key_packages''; Some (KeyPackagesPublish a) }
      else if tag = ''KeyPackagesAvailable'' then do {
        a \<leftarrow> get_field (de_u32 cb) fs ''count''; Some (KeyPackagesAvailable a) }
      else if tag = ''KeyPackagesClaim'' then do {
        a \<leftarrow> get_field (de_bytes cb) fs ''identity_id'';
        b \<leftarrow> get_field (de_bytes cb) fs ''device_id''; Some (KeyPackagesClaim a b) }
      else if tag = ''KeyPackageClaimed'' then do {
        a \<leftarrow> get_field (de_bytes cb) fs ''key_package''; Some (KeyPackageClaimed a) }
      else if tag = ''MailboxCreate'' then do {
        a \<leftarrow> get_field (de_bytes cb) fs ''request_key'';
        b \<leftarrow> get_field (de_bytes cb) fs ''read_capability'';
        c \<leftarrow> get_field (de_bytes cb) fs ''write_capability''; Some (MailboxCreate a b c) }
      else if tag = ''MailboxCreated'' then do {
        a \<leftarrow> get_field (de_bytes cb) fs ''mailbox_id'';
        b \<leftarrow> get_field (de_bytes cb) fs ''read_capability'';
        c \<leftarrow> get_field (de_bytes cb) fs ''write_capability''; Some (MailboxCreated a b c) }
      else if tag = ''EnvelopePut'' then do {
        a \<leftarrow> get_field (de_bytes cb) fs ''mailbox_id'';
        b \<leftarrow> get_field (de_bytes cb) fs ''write_capability'';
        c \<leftarrow> get_field (de_bytes cb) fs ''delivery_id'';
        d \<leftarrow> get_field (de_u64 cb) fs ''requested_expiry'';
        e \<leftarrow> get_field (de_bytes cb) fs ''hpke_enc'';
        f \<leftarrow> get_field (de_bytes cb) fs ''ciphertext''; Some (EnvelopePut a b c d e f) }
      else if tag = ''EnvelopeAccepted'' then do {
        a \<leftarrow> get_field (de_u64 cb) fs ''effective_expiry''; Some (EnvelopeAccepted a) }
      else if tag = ''EnvelopeFetch'' then do {
        a \<leftarrow> get_field (de_bytes cb) fs ''mailbox_id'';
        b \<leftarrow> get_field (de_bytes cb) fs ''read_capability'';
        c \<leftarrow> get_field (de_u64 cb) fs ''cursor''; d \<leftarrow> get_field (de_u16 cb) fs ''limit'';
        Some (EnvelopeFetch a b c d) }
      else if tag = ''Envelopes'' then do {
        a \<leftarrow> get_field (de_list cb (envelope_item_from_value cb)) fs ''items'';
        b \<leftarrow> get_field (de_u64 cb) fs ''next_cursor''; Some (Envelopes a b) }
      else if tag = ''EnvelopeAck'' then do {
        a \<leftarrow> get_field (de_bytes cb) fs ''mailbox_id'';
        b \<leftarrow> get_field (de_bytes cb) fs ''read_capability'';
        c \<leftarrow> get_field (de_list cb (de_bytes cb)) fs ''delivery_ids''; Some (EnvelopeAck a b c) }
      else if tag = ''BlobUploadBegin'' then do {
        a \<leftarrow> get_field (de_u64 cb) fs ''size''; Some (BlobUploadBegin a) }
      else if tag = ''BlobUploadStarted'' then do {
        a \<leftarrow> get_field (de_bytes cb) fs ''blob_id'';
        b \<leftarrow> get_field (de_bytes cb) fs ''read_capability''; Some (BlobUploadStarted a b) }
      else if tag = ''BlobChunk'' then do {
        a \<leftarrow> get_field (de_bytes cb) fs ''blob_id'';
        b \<leftarrow> get_field (de_u64 cb) fs ''offset'';
        c \<leftarrow> get_field (de_bytes cb) fs ''data''; Some (BlobChunk a b c) }
      else if tag = ''BlobCommit'' then do {
        a \<leftarrow> get_field (de_bytes cb) fs ''blob_id'';
        b \<leftarrow> get_field (de_bytes cb) fs ''ciphertext_hash'';
        c \<leftarrow> get_field (de_u64 cb) fs ''requested_expiry''; Some (BlobCommit a b c) }
      else if tag = ''BlobCommitted'' then do {
        a \<leftarrow> get_field (de_u64 cb) fs ''effective_expiry''; Some (BlobCommitted a) }
      else if tag = ''BlobFetch'' then do {
        a \<leftarrow> get_field (de_bytes cb) fs ''blob_id'';
        b \<leftarrow> get_field (de_bytes cb) fs ''read_capability'';
        c \<leftarrow> get_field (de_u64 cb) fs ''offset'';
        d \<leftarrow> get_field (de_u32 cb) fs ''length''; Some (BlobFetch a b c d) }
      else if tag = ''BlobData'' then do {
        a \<leftarrow> get_field (de_u64 cb) fs ''total_size'';
        b \<leftarrow> get_field (de_bytes cb) fs ''data''; Some (BlobData a b) }
      else if tag = ''Error'' then do {
        a \<leftarrow> get_field (de_u16 cb) fs ''code'';
        b \<leftarrow> get_field (de_text cb) fs ''message''; Some (Error a b) }
      else None)"

definition payload_to_value :: "payload \<Rightarrow> value" where
  "payload_to_value p =
     (case payload_variant p of
        (tag, None) \<Rightarrow> unit_variant tag
      | (tag, Some fs) \<Rightarrow> struct_variant tag (struct fs))"

definition payload_from_value :: "cbor \<Rightarrow> value \<Rightarrow> payload option" where
  "payload_from_value cb v =
     do { (tag, content) \<leftarrow> de_enum cb v;
          case map_of payload_units tag of
            Some p \<Rightarrow> if de_unit cb content then Some p else None
          | None \<Rightarrow>
              do { body \<leftarrow> content;
                   fs \<leftarrow> de_fields cb body;
                   payload_decode cb tag fs } }"

record frame =
  f_id :: u64
  f_payload :: payload

definition frame_fields :: "frame \<Rightarrow> (string \<times> value) list" where
  "frame_fields f = [(''id'', v_uint (f_id f)), (''payload'', payload_to_value (f_payload f))]"

definition frame_from_value :: "cbor \<Rightarrow> value \<Rightarrow> frame option" where
  "frame_from_value cb v =
     do { fs \<leftarrow> de_fields cb v;
          i \<leftarrow> get_field (de_u64 cb) fs ''id'';
          p \<leftarrow> get_field (payload_from_value cb) fs ''payload'';
          Some \<lparr>f_id = i, f_payload = p\<rparr> }"

definition encode :: "cbor \<Rightarrow> frame \<Rightarrow> codec_error + bytes" where
  "encode cb f =
     and_then (map_err (\<lambda>_. CodecEncode) (signed_canonical cb (struct (frame_fields f)))) (\<lambda>out.
     if length out > MAX_FRAME_BYTES then Inl (CodecTooLarge (length out)) else Inr out)"

definition padded_frame_fields :: "frame \<Rightarrow> bytes \<Rightarrow> (string \<times> value) list" where
  "padded_frame_fields f pad = frame_fields f @ [(''pad'', VBytes pad)]"

partial_function (option) encode_padded_loop ::
  "cbor \<Rightarrow> frame \<Rightarrow> nat \<Rightarrow> nat \<Rightarrow> (codec_error + bytes) option" where
  "encode_padded_loop cb f sz n =
     (case signed_canonical cb (struct (padded_frame_fields f (replicate n 0))) of
        Inl _ \<Rightarrow> Some (Inl CodecEncode)
      | Inr padded \<Rightarrow>
          if length padded > MAX_FRAME_BYTES then Some (Inl (CodecTooLarge (length padded)))
          else if length padded \<ge> sz then Some (Inr padded)
          else encode_padded_loop cb f sz (n + 1))"

definition encode_padded :: "cbor \<Rightarrow> frame \<Rightarrow> nat \<Rightarrow> (codec_error + bytes) option" where
  "encode_padded cb f sz =
     (case encode cb f of
        Inl e \<Rightarrow> Some (Inl e)
      | Inr plain \<Rightarrow>
          if length plain \<ge> sz then Some (Inr plain)
          else encode_padded_loop cb f sz (sz - (length plain + 7)))"

definition decode :: "cbor \<Rightarrow> bytes \<Rightarrow> codec_error + frame" where
  "decode cb bs =
     (if length bs > MAX_FRAME_BYTES then Inl (CodecTooLarge (length bs))
      else ok_or (decode_as cb (frame_from_value cb) bs) CodecDecode)"

context cbor_codec begin

lemma invitation_record_roundtrip:
  "invitation_record_from_value cb (sort_maps cb (invitation_record_to_value r)) = Some r"
  unfolding invitation_record_from_value_def invitation_record_to_value_def
  by (rule sorted_struct_cases [of "invitation_record_fields r"])
    (simp add: sorted_field invitation_record_fields_def wire_simps)

lemma envelope_item_roundtrip:
  "envelope_item_from_value cb (sort_maps cb (envelope_item_to_value r)) = Some r"
  unfolding envelope_item_from_value_def envelope_item_to_value_def
  by (rule sorted_struct_cases [of "envelope_item_fields r"])
    (simp add: sorted_field envelope_item_fields_def wire_simps)

lemmas payload_items =
  invitation_record_roundtrip
  sorted_list_roundtrip [of "invitation_record_from_value cb", OF invitation_record_roundtrip]
  sorted_list_roundtrip [of "envelope_item_from_value cb", OF envelope_item_roundtrip]
  sorted_list_roundtrip [of "de_bytes cb" VBytes, simplified, OF de_bytes_bytes]

lemma payload_decode_roundtrip:
  assumes "(tag, Some fs) = payload_variant p"
    and "\<And>k. field gs k = map_option (sort_maps cb) (field fs k)"
  shows "payload_decode cb tag gs = Some p"
  using assms(1)
  by (cases p) (simp_all add: payload_decode_def sorted_field [OF assms(2)] wire_simps payload_items
      split del: if_split)

lemma payload_unit_roundtrip:
  "(tag, None) = payload_variant p \<Longrightarrow> map_of payload_units tag = Some p"
  by (cases p) (simp_all add: payload_units_def)

lemma payload_struct_tag:
  "(tag, Some fs) = payload_variant p \<Longrightarrow> map_of payload_units tag = None"
  by (cases p) (auto simp: payload_units_def)

lemma payload_roundtrip: "payload_from_value cb (sort_maps cb (payload_to_value p)) = Some p"
proof -
  obtain tag c where v: "payload_variant p = (tag, c)"
    by (cases "payload_variant p")
  show ?thesis
  proof (cases c)
    case None
    then show ?thesis
      using v payload_unit_roundtrip [of tag p]
      by (simp add: payload_from_value_def payload_to_value_def de_enum_unit de_unit_none)
  next
    case (Some fs)
    obtain gs where gs: "de_fields cb (sort_maps cb (struct fs)) = Some gs"
      and f: "\<And>k. field gs k = map_option (sort_maps cb) (field fs k)"
      by (rule sorted_struct_cases) blast
    show ?thesis
      using v Some gs payload_struct_tag [of tag fs p] payload_decode_roundtrip [of tag fs p gs] f
      by (simp add: payload_from_value_def payload_to_value_def de_enum_struct)
  qed
qed

text \<open>Both the plain and the padded form decode to the frame: other fields are ignored.\<close>

lemma frame_roundtrip:
  assumes "''id'' \<notin> fst ` set extra" and "''payload'' \<notin> fst ` set extra"
  shows "frame_from_value cb (sort_maps cb (struct (frame_fields f @ extra))) = Some f"
  unfolding frame_from_value_def
  by (rule sorted_struct_cases [of "frame_fields f @ extra"])
    (simp add: sorted_field frame_fields_def wire_simps payload_roundtrip assms)

end

definition wf_payload :: "payload \<Rightarrow> bool" where
  "wf_payload p =
     (case p of
        Invitation r \<Rightarrow> utf8 (ir_state r)
      | Invitations rs _ \<Rightarrow> list_all (\<lambda>r. utf8 (ir_state r)) rs
      | NotifyHintSet url \<Rightarrow> utf8 url
      | PairPut _ _ slot _ \<Rightarrow> utf8 slot
      | PairGet _ _ slot \<Rightarrow> utf8 slot
      | Error _ message \<Rightarrow> utf8 message
      | _ \<Rightarrow> True)"

lemma wf_items:
  "utf8 (ir_state r) \<Longrightarrow> wf_value 11 (invitation_record_to_value r)"
  "utf8 (ir_state r) \<Longrightarrow> wf_value 10 (invitation_record_to_value r)"
  "wf_value 10 (envelope_item_to_value i)"
  by (simp_all add: invitation_record_to_value_def invitation_record_fields_def
      envelope_item_to_value_def envelope_item_fields_def struct_def wf_value_numeral
      wf_v_uint_numeral ascii_utf8 ascii_def)

lemma wf_payload_fields:
  "(tag, Some fs) = payload_variant p \<Longrightarrow> wf_payload p \<Longrightarrow>
     list_all (\<lambda>e. ascii (fst e) \<and> wf_value 11 (snd e)) fs"
  by (cases p) (auto simp: wf_payload_def wf_items list_all_iff wf_value_numeral ascii_def wf_v_uint_numeral)


lemma payload_tag_ascii: "ascii (fst (payload_variant p))"
  by (cases p) (simp_all add: ascii_def)

lemma wf_payload_to_value: "wf_payload p \<Longrightarrow> wf_value 13 (payload_to_value p)"
proof (cases "payload_variant p")
  case (Pair tag c)
  assume "wf_payload p"
  then have "list_all (\<lambda>e. ascii (fst e) \<and> wf_value 11 (snd e)) (case c of None \<Rightarrow> [] | Some fs \<Rightarrow> fs)"
    using wf_payload_fields [of tag _ p] Pair by (auto split: option.splits)
  moreover have "ascii tag"
    using payload_tag_ascii [of p] Pair by simp
  ultimately show ?thesis
    using Pair by (auto simp: payload_to_value_def unit_variant_def struct_variant_def struct_def
        wf_value_numeral ascii_utf8 list_all_iff split: option.splits)
qed

lemma wf_frame:
  "wf_payload (f_payload f) \<Longrightarrow> wf_value 16 (struct (frame_fields f))"
  "wf_payload (f_payload f) \<Longrightarrow> wf_value 16 (struct (padded_frame_fields f pad))"
  using wf_payload_to_value [of "f_payload f"] wf_value_mono [of 13 "payload_to_value (f_payload f)" 15]
  by (simp_all add: struct_def frame_fields_def padded_frame_fields_def wf_value_numeral
      wf_v_uint_numeral ascii_utf8 ascii_def)

definition frame_size :: "frame \<Rightarrow> nat" where
  "frame_size f = cbor_size (struct (frame_fields f))"

text \<open>The pad field costs four bytes for its key, its head and its bytes.\<close>

definition padded_size :: "frame \<Rightarrow> nat \<Rightarrow> nat" where
  "padded_size f n = frame_size f + 4 + head_size n + n"

lemma cbor_size_padded: "cbor_size (struct (padded_frame_fields f (replicate n 0))) = padded_size f n"
  by (simp add: padded_size_def frame_size_def struct_def padded_frame_fields_def frame_fields_def head_size_def)

lemma padded_size_mono: "m \<le> n \<Longrightarrow> padded_size f m \<le> padded_size f n"
  by (simp add: padded_size_def head_size_def)

lemma padded_size_Suc: "padded_size f n < padded_size f (Suc n)"
  by (simp add: padded_size_def head_size_def)

lemma padded_over:
  assumes "m = sz - (frame_size f + 7) \<or> 0 < m \<and> padded_size f (m - 1) < sz" and "frame_size f < sz" and "sz \<le> MAX_FRAME_BYTES"
  shows "padded_size f m \<le> sz + 4"
  using assms by (auto simp: padded_size_def head_size_def MAX_FRAME_BYTES_def split: if_splits)

context cbor_codec begin

lemma encode_cases:
  assumes "wf_payload (f_payload f)" and "encode cb f = Inr b"
  shows "length b = frame_size f" and "length b \<le> MAX_FRAME_BYTES" and "decode cb b = Inr f"
proof -
  have c: "canonical cb (struct (frame_fields f)) = Some b" and l: "length b \<le> MAX_FRAME_BYTES"
    using assms(2) by (auto simp: encode_def signed_canonical_def result_simps split: if_splits)
  have wf: "wf_value 16 (struct (frame_fields f))"
    using wf_frame(1) assms(1) .
  show "length b = frame_size f"
    using encoded_size c wf unfolding canonical_def frame_size_def by fastforce
  show "length b \<le> MAX_FRAME_BYTES" by (rule l)
  have "from_reader cb b = Some (sort_maps cb (struct (frame_fields f)))"
    using canonical_decodes c wf by simp
  then show "decode cb b = Inr f"
    using frame_roundtrip [of "[]" f] l by (simp add: decode_def decode_as_def)
qed

lemma padded_step:
  assumes "wf_payload (f_payload f)"
    and "signed_canonical cb (struct (padded_frame_fields f (replicate n 0))) = Inr b"
  shows "length b = padded_size f n"
    and "length b \<le> MAX_FRAME_BYTES \<Longrightarrow> decode cb b = Inr f"
proof -
  let ?v = "struct (padded_frame_fields f (replicate n 0))"
  have c: "canonical cb ?v = Some b"
    using assms(2) by (simp add: signed_canonical_def ok_or_eq_Inr_iff)
  have wf: "wf_value 16 ?v"
    using wf_frame(2) assms(1) .
  show "length b = padded_size f n"
    using encoded_size [of "sort_maps cb ?v" b] c wf
    by (simp add: canonical_def cbor_size_padded)
  have "from_reader cb b = Some (sort_maps cb ?v)"
    using canonical_decodes c wf by simp
  then show "length b \<le> MAX_FRAME_BYTES \<Longrightarrow> decode cb b = Inr f"
    using frame_roundtrip [of "[(''pad'', VBytes (replicate n 0))]" f]
    by (simp add: decode_def decode_as_def padded_frame_fields_def)
qed

text \<open>The search ends: each round is at least one byte longer and the frame limit stops it.\<close>

lemma padded_loop_result:
  assumes "wf_payload (f_payload f)"
  shows "\<exists>r m. encode_padded_loop cb f sz n = Some r \<and> n \<le> m \<and> (\<forall>k. n \<le> k \<and> k < m \<longrightarrow> padded_size f k < sz) \<and>
    (case r of
       Inl e \<Rightarrow> MAX_FRAME_BYTES < padded_size f m
     | Inr b \<Rightarrow> length b = padded_size f m \<and> sz \<le> padded_size f m \<and> length b \<le> MAX_FRAME_BYTES \<and> decode cb b = Inr f)"
proof (induction "MAX_FRAME_BYTES - n" arbitrary: n rule: less_induct)
  case less
  show ?case
  proof (cases "signed_canonical cb (struct (padded_frame_fields f (replicate n 0)))")
    case (Inl e)
    then have "\<not> cbor_size (struct (padded_frame_fields f (replicate n 0))) < 2 ^ 64"
      using encoder_size [OF wf_frame(2) [OF assms]] by (metis sum.distinct(1))
    then have "MAX_FRAME_BYTES < padded_size f n"
      by (simp add: cbor_size_padded MAX_FRAME_BYTES_def)
    with Inl show ?thesis
      by (subst encode_padded_loop.simps) (auto intro: exI [of _ n])
  next
    case (Inr b)
    note len = padded_step(1) [OF assms Inr] and dec = padded_step(2) [OF assms Inr]
    show ?thesis
    proof (cases "length b \<le> MAX_FRAME_BYTES \<and> length b < sz")
      case True
      then have lt: "MAX_FRAME_BYTES - (n + 1) < MAX_FRAME_BYTES - n"
        using len by (simp add: padded_size_def) linarith
      have step: "encode_padded_loop cb f sz n = encode_padded_loop cb f sz (n + 1)"
        using Inr True by (subst encode_padded_loop.simps) simp
      obtain r m where m: "encode_padded_loop cb f sz (n + 1) = Some r" "n + 1 \<le> m" "\<forall>k. n + 1 \<le> k \<and> k < m \<longrightarrow> padded_size f k < sz"
        and res: "case r of Inl e \<Rightarrow> MAX_FRAME_BYTES < padded_size f m
          | Inr b \<Rightarrow> length b = padded_size f m \<and> sz \<le> padded_size f m \<and> length b \<le> MAX_FRAME_BYTES \<and> decode cb b = Inr f"
        using less [OF lt] by (elim exE conjE)
      have "padded_size f k < sz" if "n \<le> k" "k < m" for k
        using that m(3) True len by (cases "k = n") auto
      moreover have "n \<le> m"
        using m(2) by simp
      ultimately show ?thesis
        unfolding step using m(1) res by blast
    next
      case False
      then show ?thesis
        using Inr len dec by (subst encode_padded_loop.simps) (auto intro: exI [of _ n])
    qed
  qed
qed

lemma encode_ok:
  assumes "wf_payload (f_payload f)" and "frame_size f \<le> MAX_FRAME_BYTES"
  obtains b where "encode cb f = Inr b"
proof -
  have "cbor_size (struct (frame_fields f)) < 2 ^ 64"
    using assms(2) by (simp add: frame_size_def MAX_FRAME_BYTES_def)
  then obtain b where "signed_canonical cb (struct (frame_fields f)) = Inr b" "length b = frame_size f"
    using encoder_size [OF wf_frame(1) [OF assms(1)]] unfolding frame_size_def by metis
  then show thesis
    using assms(2) that by (simp add: encode_def)
qed

lemma encode_padded_result:
  assumes wf: "wf_payload (f_payload f)"
  shows "\<exists>r. encode_padded cb f sz = Some r \<and>
    (case r of
       Inl e \<Rightarrow> MAX_FRAME_BYTES < max (frame_size f) (sz + 4)
     | Inr b \<Rightarrow> decode cb b = Inr f \<and> length b \<le> MAX_FRAME_BYTES \<and>
         (if sz \<le> frame_size f then encode cb f = Inr b
          else sz \<le> length b \<and> length b \<le> sz + 4 \<and> (\<exists>m. length b = padded_size f m)))"
proof (cases "encode cb f")
  case (Inl e)
  then have "MAX_FRAME_BYTES < frame_size f"
    using encode_ok [OF wf] by (metis not_le_imp_less sum.distinct(1))
  with Inl show ?thesis
    by (simp add: encode_padded_def)
next
  case (Inr plain)
  note plain = encode_cases [OF wf Inr]
  show ?thesis
  proof (cases "sz \<le> frame_size f")
    case True
    then show ?thesis
      using Inr plain by (simp add: encode_padded_def)
  next
    case False
    let ?n = "sz - (frame_size f + 7)"
    obtain r m where loop: "encode_padded_loop cb f sz ?n = Some r" "?n \<le> m" "\<forall>k. ?n \<le> k \<and> k < m \<longrightarrow> padded_size f k < sz"
      and res: "case r of Inl e \<Rightarrow> MAX_FRAME_BYTES < padded_size f m
       | Inr b \<Rightarrow> length b = padded_size f m \<and> sz \<le> padded_size f m \<and> length b \<le> MAX_FRAME_BYTES \<and> decode cb b = Inr f"
      using padded_loop_result [OF wf, of sz ?n] by (elim exE conjE)
    have "m = ?n \<or> 0 < m \<and> padded_size f (m - 1) < sz"
      using loop(2,3) by (cases "m = ?n") auto
    then have "padded_size f m \<le> sz + 4" if "sz \<le> MAX_FRAME_BYTES"
      using padded_over False that by simp
    then show ?thesis
      using Inr plain(1) False loop(1) res by (cases r; cases "sz \<le> MAX_FRAME_BYTES") (auto simp: encode_padded_def)
  qed
qed

lemma encode_padded_total: "wf_payload (f_payload f) \<Longrightarrow> \<exists>r. encode_padded cb f sz = Some r"
  using encode_padded_result by blast

text \<open>Below 64 KiB the search starts at or below the shortest padding.\<close>

lemma padded_start:
  "sz \<le> 65536 \<Longrightarrow> k < sz - (frame_size f + 7) \<Longrightarrow> padded_size f k < sz"
  by (auto simp: padded_size_def head_size_def)

lemma encode_padded_shortest:
  assumes wf: "wf_payload (f_payload f)" and e: "encode_padded cb f sz = Some (Inr b)"
    and small: "sz \<le> 65536" and pads: "frame_size f < sz"
  shows "\<exists>m. length b = padded_size f m \<and> (\<forall>k. sz \<le> padded_size f k \<longrightarrow> m \<le> k)"
proof (cases "encode cb f")
  case (Inr plain)
  let ?n = "sz - (frame_size f + 7)"
  have "encode_padded_loop cb f sz ?n = Some (Inr b)"
    using e Inr pads encode_cases(1) [OF wf Inr] by (simp add: encode_padded_def)
  then obtain m where m: "length b = padded_size f m" "\<forall>k. ?n \<le> k \<and> k < m \<longrightarrow> padded_size f k < sz"
    using padded_loop_result [OF wf, of sz ?n] by auto
  have "m \<le> k" if "sz \<le> padded_size f k" for k
  proof (rule ccontr)
    assume "\<not> m \<le> k"
    then have "padded_size f k < sz"
      using m(2) padded_start [OF small, of k f] by (cases "?n \<le> k") auto
    with that show False by simp
  qed
  with m(1) show ?thesis by blast
qed (use e in \<open>simp add: encode_padded_def\<close>)

lemma encode_padded_watch:
  assumes wf: "wf_payload (f_payload f)" and small: "frame_size f \<le> 225"
  shows "\<exists>b. encode_padded cb f WATCH_FRAME_BYTES = Some (Inr b) \<and> length b = WATCH_FRAME_BYTES \<and>
    decode cb b = Inr f"
proof -
  have "frame_size f \<le> MAX_FRAME_BYTES"
    using small by (simp add: MAX_FRAME_BYTES_def)
  then obtain plain where p: "encode cb f = Inr plain"
    by (rule encode_ok [OF wf])
  let ?n = "256 - (frame_size f + 7)"
  have s: "padded_size f ?n = 255" "padded_size f (?n + 1) = 256"
    using small by (auto simp: padded_size_def head_size_def)
  have ok: "\<exists>b. signed_canonical cb (struct (padded_frame_fields f (replicate n 0))) = Inr b"
    if "padded_size f n \<le> 256" for n
  proof -
    have "cbor_size (struct (padded_frame_fields f (replicate n 0))) < 2 ^ 64"
      using that by (simp add: cbor_size_padded)
    then show ?thesis
      using encoder_size [OF wf_frame(2) [OF wf]] by metis
  qed
  obtain b0 where b0: "signed_canonical cb (struct (padded_frame_fields f (replicate ?n 0))) = Inr b0"
    using ok [of ?n] s(1) by auto
  obtain b1 where b1: "signed_canonical cb (struct (padded_frame_fields f (replicate (?n + 1) 0))) = Inr b1"
    using ok [of "?n + 1"] s(2) by auto
  have l: "length b0 = 255" "length b1 = 256" and d: "decode cb b1 = Inr f"
    using padded_step [OF wf b0] padded_step [OF wf b1] s by (simp_all add: MAX_FRAME_BYTES_def)
  have "encode_padded_loop cb f 256 ?n = encode_padded_loop cb f 256 (?n + 1)"
    using b0 l by (subst encode_padded_loop.simps) (simp add: MAX_FRAME_BYTES_def)
  also have "\<dots> = Some (Inr b1)"
    using b1 l by (subst encode_padded_loop.simps) (simp add: MAX_FRAME_BYTES_def)
  finally show ?thesis
    using p small l d encode_cases(1) [OF wf p] by (simp add: encode_padded_def WATCH_FRAME_BYTES_def)
qed

end

text \<open>The frames a watch session carries in either direction.\<close>

definition watch_payload :: "payload \<Rightarrow> bool" where
  "watch_payload p \<longleftrightarrow> p \<in> {Ping, Pong, MailboxWatch, MailboxWakeup, Ack}"

lemma watch_frame_small: "watch_payload (f_payload f) \<Longrightarrow> frame_size f \<le> 225"
  by (auto simp: watch_payload_def frame_size_def struct_def frame_fields_def payload_to_value_def
      unit_variant_def v_uint_def head_size_def)

lemma watch_payload_wf: "watch_payload p \<Longrightarrow> wf_payload p"
  by (auto simp: watch_payload_def wf_payload_def)

section \<open>Properties\<close>

text \<open>A frame that \<open>encode\<close> accepts is at most \<open>MAX_FRAME_BYTES\<close> long and decodes to
  itself, whatever its payload; and a frame of that size or less is accepted.\<close>

theorem encode_decode:
  assumes "cbor_codec cb" and "wf_payload (f_payload f)"
  shows "(\<forall>b. encode cb f = Inr b \<longrightarrow> length b \<le> MAX_FRAME_BYTES \<and> decode cb b = Inr f) \<and>
    (frame_size f \<le> MAX_FRAME_BYTES \<longrightarrow> (\<exists>b. encode cb f = Inr b))"
  using cbor_codec.encode_cases [OF assms] cbor_codec.encode_ok [OF assms] by metis

theorem encode_decode_witness:
  "wf_payload (PairGet [1] [2] ''a'') \<and>
   (\<exists>b. encode rfc_cbor \<lparr>f_id = 7, f_payload = PairGet [1] [2] ''a''\<rparr> = Inr b \<and>
      decode rfc_cbor b = Inr \<lparr>f_id = 7, f_payload = PairGet [1] [2] ''a''\<rparr>)"
proof -
  let ?f = "\<lparr>f_id = 7, f_payload = PairGet [1] [2] ''a''\<rparr>"
  have wf: "wf_payload (f_payload ?f)"
    by (simp add: wf_payload_def ascii_utf8 ascii_def)
  have "frame_size ?f \<le> MAX_FRAME_BYTES"
    by (simp add: frame_size_def struct_def frame_fields_def payload_to_value_def struct_variant_def
        v_uint_def head_size_def MAX_FRAME_BYTES_def)
  then show ?thesis
    using encode_decode [OF rfc.cbor_codec_axioms wf] wf by auto
qed

text \<open>C3. Padding always ends. It fails only when the frame, or the size and four bytes, are over the frame limit. What it
  produces decodes to the same frame; a frame that already has the size is left as it is, and any other ends between the
  size and four bytes more. For sizes up to 64 KiB no padding that reaches the size is shorter; for larger sizes that is
  not so (\<open>encode_padded_overshoots\<close>).\<close>

theorem encode_padded_correct:
  assumes "cbor_codec cb" and "wf_payload (f_payload f)"
  shows "\<exists>r. encode_padded cb f sz = Some r \<and>
    (case r of
       Inl e \<Rightarrow> MAX_FRAME_BYTES < max (frame_size f) (sz + 4)
     | Inr b \<Rightarrow> decode cb b = Inr f \<and> length b \<le> MAX_FRAME_BYTES \<and>
         (if sz \<le> frame_size f then encode cb f = Inr b
          else sz \<le> length b \<and> length b \<le> sz + 4 \<and> (\<exists>m. length b = padded_size f m) \<and>
            (sz \<le> 65536 \<longrightarrow> (\<forall>k. sz \<le> padded_size f k \<longrightarrow> length b \<le> padded_size f k))))"
proof -
  obtain r where r: "encode_padded cb f sz = Some r" "case r of
       Inl e \<Rightarrow> MAX_FRAME_BYTES < max (frame_size f) (sz + 4)
     | Inr b \<Rightarrow> decode cb b = Inr f \<and> length b \<le> MAX_FRAME_BYTES \<and>
         (if sz \<le> frame_size f then encode cb f = Inr b
          else sz \<le> length b \<and> length b \<le> sz + 4 \<and> (\<exists>m. length b = padded_size f m))"
    using cbor_codec.encode_padded_result [OF assms] by blast
  have "length b \<le> padded_size f k" if "r = Inr b" "sz \<le> 65536" "\<not> sz \<le> frame_size f" "sz \<le> padded_size f k" for b k
    using cbor_codec.encode_padded_shortest [OF assms, of sz b] r(1) that padded_size_mono by fastforce
  with r show ?thesis
    by (cases r) auto
qed

theorem encode_padded_correct_witness:
  "\<exists>b. encode_padded rfc_cbor \<lparr>f_id = 7, f_payload = Ping\<rparr> 100 = Some (Inr b) \<and> length b = 100 \<and>
     decode rfc_cbor b = Inr \<lparr>f_id = 7, f_payload = Ping\<rparr>"
proof -
  let ?f = "\<lparr>f_id = 7, f_payload = Ping\<rparr>"
  have wf: "wf_payload (f_payload ?f)"
    by (simp add: wf_payload_def)
  have size: "frame_size ?f = 18" "padded_size ?f 76 = 100"
    by (simp_all add: padded_size_def frame_size_def struct_def frame_fields_def payload_to_value_def unit_variant_def v_uint_def head_size_def)
  obtain r where r: "encode_padded rfc_cbor ?f 100 = Some r" "case r of
       Inl e \<Rightarrow> MAX_FRAME_BYTES < max (frame_size ?f) (100 + 4)
     | Inr b \<Rightarrow> decode rfc_cbor b = Inr ?f \<and> length b \<le> MAX_FRAME_BYTES \<and>
         (if 100 \<le> frame_size ?f then encode rfc_cbor ?f = Inr b
          else 100 \<le> length b \<and> length b \<le> 100 + 4 \<and> (\<exists>m. length b = padded_size ?f m) \<and>
            (100 \<le> (65536 :: nat) \<longrightarrow> (\<forall>k. 100 \<le> padded_size ?f k \<longrightarrow> length b \<le> padded_size ?f k)))"
    using encode_padded_correct [OF rfc.cbor_codec_axioms wf, of 100] by blast
  have "length b = 100" if "r = Inr b" for b
    using r(2) size that by (auto dest!: spec [of _ 76])
  then show ?thesis
    using r size by (cases r) (auto simp: MAX_FRAME_BYTES_def)
qed

text \<open>Beyond 64 KiB the search starts too far: the comment in the code counts a header of at most three bytes for the
  padding, which takes five there.\<close>

lemma encode_padded_overshoots:
  assumes "cbor_codec cb"
  shows "(\<exists>b. encode_padded cb \<lparr>f_id = 7, f_payload = Ping\<rparr> 100000 = Some (Inr b) \<and> length b = 100002) \<and>
    padded_size \<lparr>f_id = 7, f_payload = Ping\<rparr> 99973 = 100000"
proof -
  let ?f = "\<lparr>f_id = 7, f_payload = Ping\<rparr>"
  have size: "frame_size ?f = 18"
    by (simp add: frame_size_def struct_def frame_fields_def payload_to_value_def unit_variant_def v_uint_def head_size_def)
  have wf: "wf_payload (f_payload ?f)"
    by (simp add: wf_payload_def)
  obtain plain where plain: "encode cb ?f = Inr plain"
    using cbor_codec.encode_ok [OF assms wf] size by (auto simp: MAX_FRAME_BYTES_def)
  obtain r m where loop: "encode_padded_loop cb ?f 100000 99975 = Some r" "99975 \<le> m" "\<forall>k. 99975 \<le> k \<and> k < m \<longrightarrow> padded_size ?f k < 100000"
    and res: "case r of Inl e \<Rightarrow> MAX_FRAME_BYTES < padded_size ?f m
       | Inr b \<Rightarrow> length b = padded_size ?f m \<and> 100000 \<le> padded_size ?f m \<and> length b \<le> MAX_FRAME_BYTES \<and> decode cb b = Inr ?f"
    using cbor_codec.padded_loop_result [OF assms wf, of 100000 99975] by (elim exE conjE)
  have p: "padded_size ?f 99975 = 100002" "padded_size ?f 99973 = 100000"
    using size by (simp_all add: padded_size_def head_size_def)
  then have "m = 99975"
    using loop(2) loop(3) [rule_format, of 99975] by (cases "m = 99975") auto
  then show ?thesis
    using loop(1) res plain p cbor_codec.encode_cases(1) [OF assms wf plain] size
    by (cases r) (auto simp: encode_padded_def MAX_FRAME_BYTES_def)
qed
text \<open>Every frame of a watch session, keepalive, subscription, acknowledgement or notice,
  under any request id, is padded to exactly \<open>WATCH_FRAME_BYTES\<close> bytes: an observer of the
  carrier cannot tell them apart by length, and they still decode.\<close>

theorem watch_frames_uniform:
  assumes "cbor_codec cb" and "watch_payload p"
  shows "\<exists>b. encode_padded cb \<lparr>f_id = i, f_payload = p\<rparr> WATCH_FRAME_BYTES = Some (Inr b) \<and>
    length b = WATCH_FRAME_BYTES \<and> decode cb b = Inr \<lparr>f_id = i, f_payload = p\<rparr>"
  using cbor_codec.encode_padded_watch [OF assms(1), of "\<lparr>f_id = i, f_payload = p\<rparr>"]
    watch_payload_wf [OF assms(2)] watch_frame_small [of "\<lparr>f_id = i, f_payload = p\<rparr>"] assms(2)
  by simp

theorem watch_frames_uniform_witness:
  "watch_payload MailboxWakeup \<and>
   (\<exists>b. encode_padded rfc_cbor \<lparr>f_id = 0, f_payload = MailboxWakeup\<rparr> WATCH_FRAME_BYTES = Some (Inr b) \<and>
      length b = WATCH_FRAME_BYTES)"
proof -
  have w: "watch_payload MailboxWakeup"
    by (simp add: watch_payload_def)
  show ?thesis
    using watch_frames_uniform [OF rfc.cbor_codec_axioms w, of 0] w by blast
qed

end
