(* ===== verification/Fragment.thy ===== *)
theory Fragment
  imports Prelude
begin

text \<open>
  \<open>core/crates/arveil-core/src/channel/fragment.rs\<close>: frames are cut into fragments
  \<open>flags || data\<close> that fit one Noise payload, and put together again in a bounded buffer.

  \<open>fragments\<close> and the operations of \<open>Reassembler\<close> are translated one to one. The
  lemmas show that every fragment fits one Noise payload, that pushing the fragments of
  a frame in order yields exactly that frame and leaves the buffer empty, and that the
  buffer never exceeds its limit whatever the peer sends.
\<close>

unbundle bit_operations_syntax

section \<open>Definitions\<close>

definition MAX_NOISE_MESSAGE :: nat where
  "MAX_NOISE_MESSAGE = 65535"

definition MAX_NOISE_PAYLOAD :: nat where
  "MAX_NOISE_PAYLOAD = MAX_NOISE_MESSAGE - 16"

definition FLAG_LAST :: u8 where
  "FLAG_LAST = 1"

definition FRAGMENT_DATA :: nat where
  "FRAGMENT_DATA = MAX_NOISE_PAYLOAD - 1"

datatype fragment_error =
    EmptyFragment
  | UnknownFlags u8
  | FragmentTooLarge nat

definition fragments :: "bytes \<Rightarrow> bytes list" where
  "fragments bytes =
     (let cs = (if bytes = [] then [[]] else chunks FRAGMENT_DATA bytes);
          last = length cs - 1
      in map (\<lambda>(i, chunk). (if i = last then FLAG_LAST else 0) # chunk) (enumerate 0 cs))"

record reassembler =
  r_limit :: nat
  r_buffer :: bytes

definition reassembler_new :: "nat \<Rightarrow> reassembler" where
  "reassembler_new limit = \<lparr>r_limit = limit, r_buffer = []\<rparr>"

definition reassembler_push :: "bytes \<Rightarrow> (reassembler, fragment_error, bytes option) op" where
  "reassembler_push fragment s =
     (case fragment of
        [] \<Rightarrow> (Inl EmptyFragment, s)
      | flags # data \<Rightarrow>
          if flags AND NOT FLAG_LAST \<noteq> 0 then (Inl (UnknownFlags flags), s)
          else if length (r_buffer s) + length data > r_limit s
          then (Inl (FragmentTooLarge (r_limit s)), s\<lparr>r_buffer := []\<rparr>)
          else let buffer = r_buffer s @ data in
            if flags AND FLAG_LAST \<noteq> 0 then (Inr (Some buffer), s\<lparr>r_buffer := []\<rparr>)
            else (Inr None, s\<lparr>r_buffer := buffer\<rparr>))"

definition is_mid_frame :: "reassembler \<Rightarrow> bool" where
  "is_mid_frame s \<longleftrightarrow> r_buffer s \<noteq> []"

text \<open>Pushing the fragments of a stream one after the other, collecting complete frames.\<close>

fun push_all :: "bytes list \<Rightarrow> (reassembler, fragment_error, bytes list) op" where
  "push_all [] s = (Inr [], s)"
| "push_all (f # fs) s =
     (case reassembler_push f s of
        (Inl e, s') \<Rightarrow> (Inl e, s')
      | (Inr out, s') \<Rightarrow>
          (case push_all fs s' of
             (Inl e, s'') \<Rightarrow> (Inl e, s'')
           | (Inr frames, s'') \<Rightarrow>
               (Inr ((case out of None \<Rightarrow> [] | Some b \<Rightarrow> [b]) @ frames), s'')))"

definition buffer_bounded :: "reassembler \<Rightarrow> bool" where
  "buffer_bounded s \<longleftrightarrow> length (r_buffer s) \<le> r_limit s"

section \<open>Fragmentation\<close>

lemma fragment_constants [simp]: "MAX_NOISE_PAYLOAD = 65519" "FRAGMENT_DATA = 65518"
  by (simp_all add: MAX_NOISE_PAYLOAD_def FRAGMENT_DATA_def MAX_NOISE_MESSAGE_def)

text \<open>All fragments but the last carry no flag; the last one carries \<open>FLAG_LAST\<close>.\<close>

lemma fragments_flags:
  assumes "cs \<noteq> []"
  shows "map (\<lambda>(i, chunk). (if i = length cs - 1 then FLAG_LAST else 0) # chunk) (enumerate 0 cs) =
     map ((#) 0) (butlast cs) @ [FLAG_LAST # last cs]"
proof -
  obtain bs b where cs: "cs = bs @ [b]"
    using assms by (metis append_butlast_last_id)
  have "map (\<lambda>(i, chunk). (if i = length cs - 1 then FLAG_LAST else 0) # chunk) (enumerate 0 bs) =
      map ((#) 0) bs"
    by (rule nth_equalityI) (auto simp: cs nth_enumerate_eq)
  then show ?thesis
    by (simp add: cs enumerate_append_eq)
qed

lemma fragments_eq:
  "fragments bytes =
     (let cs = (if bytes = [] then [[]] else chunks FRAGMENT_DATA bytes)
      in map ((#) 0) (butlast cs) @ [FLAG_LAST # last cs])"
proof -
  have "(if bytes = [] then [[]] else chunks FRAGMENT_DATA bytes) \<noteq> []"
    by simp
  from fragments_flags [OF this] show ?thesis
    unfolding fragments_def Let_def .
qed

section \<open>Reassembly\<close>

lemma flag_bits [simp]:
  "(0 :: u8) AND NOT FLAG_LAST = 0" "FLAG_LAST AND NOT FLAG_LAST = 0"
  "(0 :: u8) AND FLAG_LAST = 0" "FLAG_LAST AND FLAG_LAST \<noteq> 0"
  by (simp_all add: FLAG_LAST_def)

lemma push_middle:
  "length (r_buffer s) + length data \<le> r_limit s \<Longrightarrow>
   reassembler_push (0 # data) s = (Inr None, s\<lparr>r_buffer := r_buffer s @ data\<rparr>)"
  by (simp add: reassembler_push_def)

lemma push_last:
  "length (r_buffer s) + length data \<le> r_limit s \<Longrightarrow>
   reassembler_push (FLAG_LAST # data) s = (Inr (Some (r_buffer s @ data)), s\<lparr>r_buffer := []\<rparr>)"
  by (simp add: reassembler_push_def FLAG_LAST_def)

lemma push_all_chunks:
  assumes "length (r_buffer s) + length (concat cs) + length l \<le> r_limit s"
  shows "push_all (map ((#) 0) cs @ [FLAG_LAST # l]) s =
     (Inr [r_buffer s @ concat cs @ l], s\<lparr>r_buffer := []\<rparr>)"
  using assms
proof (induction cs arbitrary: s)
  case Nil
  then show ?case by (simp add: push_last)
next
  case (Cons c cs)
  then show ?case by (simp add: push_middle)
qed

lemma push_keeps_limit: "r_limit (snd (reassembler_push f s)) = r_limit s"
  by (simp add: reassembler_push_def Let_def split: list.splits)

lemma push_keeps_bound: "buffer_bounded s \<Longrightarrow> buffer_bounded (snd (reassembler_push f s))"
  by (auto simp: reassembler_push_def buffer_bounded_def Let_def split: list.splits)

lemma push_all_append:
  "push_all fs s = (Inr xs, t) \<Longrightarrow> push_all gs t = (Inr ys, u) \<Longrightarrow>
   push_all (fs @ gs) s = (Inr (xs @ ys), u)"
proof (induction fs arbitrary: s xs)
  case (Cons f fs)
  then show ?case
    by (auto split: prod.splits sum.splits)
qed auto

lemma push_all_fragments:
  assumes "r_buffer s = []" and "length bytes \<le> r_limit s"
  shows "push_all (fragments bytes) s = (Inr [bytes], s)"
proof -
  define cs where "cs = (if bytes = [] then [[]] else chunks FRAGMENT_DATA bytes)"
  have ne: "cs \<noteq> []" and conc: "concat cs = bytes"
    by (simp_all add: cs_def)
  have split: "concat (butlast cs) @ last cs = bytes"
    using ne conc by (metis append_butlast_last_id concat_append concat.simps append_Nil2)
  then have "length (concat (butlast cs)) + length (last cs) \<le> r_limit s"
    using assms(2) by (metis length_append)
  then have "push_all (map ((#) 0) (butlast cs) @ [FLAG_LAST # last cs]) s =
      (Inr [r_buffer s @ concat (butlast cs) @ last cs], s\<lparr>r_buffer := []\<rparr>)"
    using assms(1) by (intro push_all_chunks) simp
  then show ?thesis
    using assms(1) split by (simp add: fragments_eq cs_def Let_def)
qed

lemma fragments_fit:
  "fragments bytes \<noteq> [] \<and>
   list_all (\<lambda>f. f \<noteq> [] \<and> length f \<le> MAX_NOISE_PAYLOAD \<and> hd f AND NOT FLAG_LAST = 0) (fragments bytes)"
proof -
  define cs where "cs = (if bytes = [] then [[]] else chunks FRAGMENT_DATA bytes)"
  have small: "length c \<le> FRAGMENT_DATA" if "c \<in> set cs" for c
    using that chunks_length_le [of FRAGMENT_DATA c bytes]
    by (auto simp: cs_def split: if_splits)
  have "last cs \<in> set cs"
    by (rule last_in_set) (simp add: cs_def)
  then show ?thesis
    using small by (auto simp: fragments_eq Let_def cs_def [symmetric] list_all_iff dest: in_set_butlastD)
qed

section \<open>Properties\<close>

text \<open>Every fragment of a frame fits one Noise payload, at least one is produced, and
  every fragment is accepted by the flag check of the receiver.\<close>

theorem fragments_fit_noise:
  "fragments bytes \<noteq> [] \<and>
   list_all (\<lambda>f. f \<noteq> [] \<and> length f \<le> MAX_NOISE_PAYLOAD \<and> hd f AND NOT FLAG_LAST = 0) (fragments bytes)"
  by (rule fragments_fit)

text \<open>C2. Reassembly undoes fragmentation: a receiver between frames that is given the
  fragments of any frames within its limit, back to back, yields exactly those frames in
  order and ends between frames again.\<close>

theorem reassemble_fragments:
  assumes "r_buffer s = []" and "list_all (\<lambda>f. length f \<le> r_limit s) frames"
  shows "push_all (concat (map fragments frames)) s = (Inr frames, s)"
  using assms(2)
proof (induction frames)
  case (Cons f fs)
  then have "push_all (fragments f) s = (Inr [f], s)"
    by (intro push_all_fragments assms) simp
  moreover have "push_all (concat (map fragments fs)) s = (Inr fs, s)"
    using Cons by simp
  ultimately show ?case
    by (simp add: push_all_append)
qed simp

theorem reassemble_fragments_witness:
  "r_buffer (reassembler_new 10) = [] \<and>
   list_all (\<lambda>f. length f \<le> r_limit (reassembler_new 10)) [[1, 2, 3], []] \<and>
   push_all (concat (map fragments [[1, 2, 3], []])) (reassembler_new 10) =
     (Inr [[1, 2, 3], []], reassembler_new 10)"
proof -
  have h: "r_buffer (reassembler_new 10) = []"
    "list_all (\<lambda>f. length f \<le> r_limit (reassembler_new 10)) [[1, 2, 3], []]"
    by (simp_all add: reassembler_new_def)
  show ?thesis
    using h reassemble_fragments [OF h] by blast
qed

text \<open>The reassembly buffer is bounded whatever the peer sends: every sequence of
  fragments, well formed or not, leaves at most \<open>limit\<close> bytes in it, and every frame handed
  on is at most \<open>limit\<close> bytes long.\<close>

theorem reassembler_bounded:
  assumes "buffer_bounded s"
  shows "buffer_bounded (snd (push_all fs s)) \<and>
    (case fst (push_all fs s) of Inl _ \<Rightarrow> True | Inr frames \<Rightarrow> list_all (\<lambda>f. length f \<le> r_limit s) frames)"
  using assms
proof (induction fs arbitrary: s)
  case (Cons f fs)
  obtain r t where push: "reassembler_push f s = (r, t)"
    by fastforce
  have t: "buffer_bounded t" "r_limit t = r_limit s"
    using push_keeps_bound [OF Cons.prems, of f] push_keeps_limit [of f s] by (simp_all add: push)
  have out: "length b \<le> r_limit s" if "r = Inr (Some b)" for b
    using push that by (auto simp: reassembler_push_def Let_def split: list.splits if_splits)
  show ?case
    using Cons.IH [OF t(1)] Cons.prems out
    by (cases r) (auto simp: push t split: prod.splits sum.splits option.splits)
qed simp

theorem reassembler_bounded_witness:
  "buffer_bounded (reassembler_new 2) \<and>
   buffer_bounded (snd (push_all [[0, 7], [1, 8, 9]] (reassembler_new 2))) \<and>
   fst (push_all [[0, 7], [1, 8, 9]] (reassembler_new 2)) = Inl (FragmentTooLarge 2)"
proof -
  have h: "buffer_bounded (reassembler_new 2)"
    by (simp add: buffer_bounded_def reassembler_new_def)
  have e: "fst (push_all [[0, 7], [1, 8, 9]] (reassembler_new 2)) = Inl (FragmentTooLarge 2)"
    by (simp add: reassembler_push_def reassembler_new_def FLAG_LAST_def)
  show ?thesis
    using h e reassembler_bounded [OF h, of "[[0, 7], [1, 8, 9]]"] by simp
qed

end
