(* ===== verification/Channel.thy ===== *)
theory Channel
  imports Codec Fragment
begin

text \<open>
  \<open>core/crates/arveil-core/src/channel/noise.rs\<close> and \<open>channel/mod.rs\<close>: the Noise session and
  the channel that composes it with the frame codec and the fragmentation.

  The crate \<open>snow\<close> is the record \<open>snow\<close>, an argument of every definition that uses it: the
  handshake states, the transport states and their read and write operations, each with the
  state it leaves behind. \<open>transport_ok\<close> is what its documentation promises of the two ends
  of a session: a message sealed at one end opens at the other to the same payload as long
  as messages are opened in the order they were sealed and the nonce is not used up (the
  number in \<open>link\<close> is how many more messages may be sent).

  Shown: frames sealed in sequence and opened in order arrive unchanged and in order, every
  carrier message fits one Noise message, and both ends are ready for the next frame.
\<close>

section \<open>The Noise session\<close>

record ('h, 't) snow =
  build_initiator :: "bytes \<Rightarrow> bytes \<Rightarrow> bytes \<Rightarrow> 'h option"
  build_responder :: "bytes \<Rightarrow> bytes \<Rightarrow> 'h option"
  hs_write :: "'h \<Rightarrow> bytes \<Rightarrow> bytes option \<times> 'h"
  hs_read :: "'h \<Rightarrow> bytes \<Rightarrow> bytes option \<times> 'h"
  hs_remote_static :: "'h \<Rightarrow> bytes option"
  hs_hash :: "'h \<Rightarrow> bytes"
  into_transport_mode :: "'h \<Rightarrow> 't option"
  tr_write :: "'t \<Rightarrow> bytes \<Rightarrow> bytes option \<times> 't"
  tr_read :: "'t \<Rightarrow> bytes \<Rightarrow> bytes option \<times> 't"
  tr_remote_static :: "'t \<Rightarrow> bytes option"

datatype noise_error = Snow | PayloadTooLarge nat | UnexpectedHandshakePayload

definition prologue :: "bytes \<Rightarrow> bytes" where
  "prologue realm_id = bytes_of_string ''arveil/0/'' @ realm_id"

record static_keypair =
  kp_private :: bytes
  kp_public :: bytes

record 't transport =
  t_state :: 't
  t_handshake_hash :: bytes

definition initiator_new ::
  "('h, 't) snow \<Rightarrow> static_keypair \<Rightarrow> bytes \<Rightarrow> bytes \<Rightarrow> noise_error + 'h" where
  "initiator_new sn local remote_static_public pro =
     ok_or (build_initiator sn (kp_private local) remote_static_public pro) Snow"

definition write_message_1 :: "('h, 't) snow \<Rightarrow> ('h, noise_error, bytes) op" where
  "write_message_1 sn h = (case hs_write sn h [] of (r, h') \<Rightarrow> (ok_or r Snow, h'))"

definition write_message_1_payload :: "('h, 't) snow \<Rightarrow> bytes \<Rightarrow> ('h, noise_error, bytes) op" where
  "write_message_1_payload sn payload h =
     (if length payload > MAX_NOISE_PAYLOAD then (Inl (PayloadTooLarge (length payload)), h)
      else case hs_write sn h payload of (r, h') \<Rightarrow> (ok_or r Snow, h'))"

definition into_transport :: "('h, 't) snow \<Rightarrow> 'h \<Rightarrow> noise_error + 't transport" where
  "into_transport sn h =
     (let handshake_hash = hs_hash sn h in
      and_then (ok_or (into_transport_mode sn h) Snow) (\<lambda>t.
      Inr \<lparr>t_state = t, t_handshake_hash = handshake_hash\<rparr>))"

definition read_message_2_payload ::
  "('h, 't) snow \<Rightarrow> 'h \<Rightarrow> bytes \<Rightarrow> noise_error + bytes \<times> 't transport" where
  "read_message_2_payload sn h message =
     (case hs_read sn h message of
        (None, _) \<Rightarrow> Inl Snow
      | (Some buf, h') \<Rightarrow> and_then (into_transport sn h') (\<lambda>t. Inr (buf, t)))"

definition read_message_2 :: "('h, 't) snow \<Rightarrow> 'h \<Rightarrow> bytes \<Rightarrow> noise_error + 't transport" where
  "read_message_2 sn h message =
     (case hs_read sn h message of
        (None, _) \<Rightarrow> Inl Snow
      | (Some buf, h') \<Rightarrow>
          if length buf \<noteq> 0 then Inl UnexpectedHandshakePayload else into_transport sn h')"

definition responder_new :: "('h, 't) snow \<Rightarrow> static_keypair \<Rightarrow> bytes \<Rightarrow> noise_error + 'h" where
  "responder_new sn local pro = ok_or (build_responder sn (kp_private local) pro) Snow"

text \<open>Message 1 names the initiator's key: \<open>None\<close> is the panic of \<open>expect\<close>.\<close>

definition read_message_1 :: "('h, 't) snow \<Rightarrow> bytes \<Rightarrow> ('h, noise_error, bytes option) op" where
  "read_message_1 sn message h =
     (case hs_read sn h message of
        (None, h') \<Rightarrow> (Inl Snow, h')
      | (Some buf, h') \<Rightarrow>
          if length buf \<noteq> 0 then (Inl UnexpectedHandshakePayload, h')
          else (Inr (hs_remote_static sn h'), h'))"

definition read_message_1_payload ::
  "('h, 't) snow \<Rightarrow> bytes \<Rightarrow> ('h, noise_error, (bytes \<times> bytes) option) op" where
  "read_message_1_payload sn message h =
     (case hs_read sn h message of
        (None, h') \<Rightarrow> (Inl Snow, h')
      | (Some buf, h') \<Rightarrow> (Inr (map_option (\<lambda>remote. (remote, buf)) (hs_remote_static sn h')), h'))"

definition write_message_2_payload ::
  "('h, 't) snow \<Rightarrow> 'h \<Rightarrow> bytes \<Rightarrow> noise_error + bytes \<times> 't transport" where
  "write_message_2_payload sn h payload =
     (if length payload > MAX_NOISE_PAYLOAD then Inl (PayloadTooLarge (length payload))
      else case hs_write sn h payload of
        (None, _) \<Rightarrow> Inl Snow
      | (Some buf, h') \<Rightarrow> and_then (into_transport sn h') (\<lambda>t. Inr (buf, t)))"

definition write_message_2 :: "('h, 't) snow \<Rightarrow> 'h \<Rightarrow> noise_error + bytes \<times> 't transport" where
  "write_message_2 sn h = write_message_2_payload sn h []"

definition transport_remote_static :: "('h, 't) snow \<Rightarrow> 't transport \<Rightarrow> bytes option" where
  "transport_remote_static sn t = tr_remote_static sn (t_state t)"

definition transport_seal :: "('h, 't) snow \<Rightarrow> bytes \<Rightarrow> ('t transport, noise_error, bytes) op" where
  "transport_seal sn payload t =
     (if length payload > MAX_NOISE_PAYLOAD then (Inl (PayloadTooLarge (length payload)), t)
      else case tr_write sn (t_state t) payload of (r, s) \<Rightarrow> (ok_or r Snow, t\<lparr>t_state := s\<rparr>))"

definition transport_open :: "('h, 't) snow \<Rightarrow> bytes \<Rightarrow> ('t transport, noise_error, bytes) op" where
  "transport_open sn message t =
     (if length message > MAX_NOISE_MESSAGE then (Inl (PayloadTooLarge (length message)), t)
      else case tr_read sn (t_state t) message of (r, s) \<Rightarrow> (ok_or r Snow, t\<lparr>t_state := s\<rparr>))"

section \<open>The channel\<close>

datatype channel_error = ChNoise noise_error | ChFragment fragment_error | ChCodec codec_error

record 't channel =
  ch_transport :: "'t transport"
  ch_reassembler :: reassembler

definition channel_new :: "'t transport \<Rightarrow> 't channel" where
  "channel_new t = \<lparr>ch_transport = t, ch_reassembler = reassembler_new MAX_FRAME_BYTES\<rparr>"

definition channel_remote_static :: "('h, 't) snow \<Rightarrow> 't channel \<Rightarrow> bytes option" where
  "channel_remote_static sn c = transport_remote_static sn (ch_transport c)"

text \<open>The two components of the channel, as operations on the whole of it.\<close>

definition on_transport ::
  "('t transport, noise_error, 'a) op \<Rightarrow> ('t channel, channel_error, 'a) op" where
  "on_transport m c =
     (case m (ch_transport c) of (r, t) \<Rightarrow> (map_err ChNoise r, c\<lparr>ch_transport := t\<rparr>))"

definition on_reassembler ::
  "(reassembler, fragment_error, 'a) op \<Rightarrow> ('t channel, channel_error, 'a) op" where
  "on_reassembler m c =
     (case m (ch_reassembler c) of (r, s) \<Rightarrow> (map_err ChFragment r, c\<lparr>ch_reassembler := s\<rparr>))"

fun seal_each :: "('h, 't) snow \<Rightarrow> bytes list \<Rightarrow> ('t channel, channel_error, bytes list) op" where
  "seal_each sn [] = op_return []"
| "seal_each sn (f # fs) =
     op_then (on_transport (transport_seal sn f)) (\<lambda>m.
     op_then (seal_each sn fs) (\<lambda>ms. op_return (m # ms)))"

definition seal_bytes :: "('h, 't) snow \<Rightarrow> bytes \<Rightarrow> ('t channel, channel_error, bytes list) op" where
  "seal_bytes sn bs = seal_each sn (fragments bs)"

definition channel_seal ::
  "cbor \<Rightarrow> ('h, 't) snow \<Rightarrow> frame \<Rightarrow> ('t channel, channel_error, bytes list) op" where
  "channel_seal cb sn f =
     op_then (op_lift (map_err ChCodec (encode cb f))) (\<lambda>bs. seal_bytes sn bs)"

text \<open>\<open>None\<close> where the padding search would not end.\<close>

definition channel_seal_padded ::
  "cbor \<Rightarrow> ('h, 't) snow \<Rightarrow> frame \<Rightarrow> nat \<Rightarrow> 't channel \<Rightarrow>
     ((channel_error + bytes list) \<times> 't channel) option" where
  "channel_seal_padded cb sn f sz c =
     map_option (\<lambda>r. op_then (op_lift (map_err ChCodec r)) (\<lambda>bs. seal_bytes sn bs) c)
       (encode_padded cb f sz)"

definition channel_open ::
  "cbor \<Rightarrow> ('h, 't) snow \<Rightarrow> bytes \<Rightarrow> ('t channel, channel_error, frame option) op" where
  "channel_open cb sn message =
     op_then (on_transport (transport_open sn message)) (\<lambda>fragment.
     op_then (on_reassembler (reassembler_push fragment)) (\<lambda>out.
     case out of
       Some bs \<Rightarrow> op_lift (and_then (map_err ChCodec (decode cb bs)) (\<lambda>f. Inr (Some f)))
     | None \<Rightarrow> op_return None))"

text \<open>A session: frames sealed one after the other, carrier messages opened in order.\<close>

fun seal_frames ::
  "cbor \<Rightarrow> ('h, 't) snow \<Rightarrow> frame list \<Rightarrow> ('t channel, channel_error, bytes list) op" where
  "seal_frames cb sn [] = op_return []"
| "seal_frames cb sn (f # fs) =
     op_then (channel_seal cb sn f) (\<lambda>ms.
     op_then (seal_frames cb sn fs) (\<lambda>ns. op_return (ms @ ns)))"

fun open_messages ::
  "cbor \<Rightarrow> ('h, 't) snow \<Rightarrow> bytes list \<Rightarrow> ('t channel, channel_error, frame list) op" where
  "open_messages cb sn [] = op_return []"
| "open_messages cb sn (m # ms) =
     op_then (channel_open cb sn m) (\<lambda>out.
     op_then (open_messages cb sn ms) (\<lambda>fs.
     op_return ((case out of None \<Rightarrow> [] | Some f \<Rightarrow> [f]) @ fs)))"

definition transport_ok :: "('h, 't) snow \<Rightarrow> (nat \<Rightarrow> 't \<Rightarrow> 't \<Rightarrow> bool) \<Rightarrow> bool" where
  "transport_ok sn link \<longleftrightarrow>
     (\<forall>n a b p. link (Suc n) a b \<and> length p \<le> MAX_NOISE_PAYLOAD \<longrightarrow>
       (\<exists>m a' b'. tr_write sn a p = (Some m, a') \<and> length m = length p + 16 \<and>
          tr_read sn b m = (Some p, b') \<and> link n a' b'))"

section \<open>Delivery\<close>

lemma seal_step:
  assumes "transport_ok sn link" and "link (Suc n) (t_state (ch_transport A)) (t_state (ch_transport B))"
    and "length p \<le> MAX_NOISE_PAYLOAD"
  obtains m a b where "on_transport (transport_seal sn p) A = (Inr m, A\<lparr>ch_transport := a\<rparr>)"
    and "on_transport (transport_open sn m) B = (Inr p, B\<lparr>ch_transport := b\<rparr>)"
    and "link n (t_state a) (t_state b)" and "length m \<le> MAX_NOISE_MESSAGE"
proof -
  obtain m a b where w: "tr_write sn (t_state (ch_transport A)) p = (Some m, a)"
    and l: "length m = length p + 16" and r: "tr_read sn (t_state (ch_transport B)) m = (Some p, b)"
    and k: "link n a b"
    using assms unfolding transport_ok_def by meson
  have m: "length m \<le> MAX_NOISE_MESSAGE"
    using l assms(3) by (simp add: MAX_NOISE_MESSAGE_def)
  show thesis
  proof (rule that)
    show "on_transport (transport_seal sn p) A = (Inr m, A\<lparr>ch_transport := (ch_transport A)\<lparr>t_state := a\<rparr>\<rparr>)"
      using w assms(3) by (simp add: on_transport_def transport_seal_def)
    show "on_transport (transport_open sn m) B = (Inr p, B\<lparr>ch_transport := (ch_transport B)\<lparr>t_state := b\<rparr>\<rparr>)"
      using r m by (simp add: on_transport_def transport_open_def)
  qed (use k m in simp_all)
qed

lemma push_all_Cons_Inr:
  "push_all (f # fs) s = (Inr outs, u) \<longleftrightarrow>
     (\<exists>out t rest. reassembler_push f s = (Inr out, t) \<and> push_all fs t = (Inr rest, u) \<and>
        outs = (case out of None \<Rightarrow> [] | Some b \<Rightarrow> [b]) @ rest)"
  by (auto split: prod.splits sum.splits)

lemma sealed_messages_open:
  assumes "transport_ok sn link"
    and "link (n + length frs) (t_state (ch_transport A)) (t_state (ch_transport B))"
    and "list_all (\<lambda>p. length p \<le> MAX_NOISE_PAYLOAD) frs"
    and "push_all frs (ch_reassembler B) = (Inr outs, R)" and "map (decode cb) outs = map Inr fs"
  shows "\<exists>ms A' B'. seal_each sn frs A = (Inr ms, A') \<and> open_messages cb sn ms B = (Inr fs, B') \<and>
    link n (t_state (ch_transport A')) (t_state (ch_transport B')) \<and> ch_reassembler B' = R \<and>
    list_all (\<lambda>m. length m \<le> MAX_NOISE_MESSAGE) ms"
  using assms(2-)
proof (induction frs arbitrary: A B outs fs)
  case (Cons p frs)
  obtain out t rest where push: "reassembler_push p (ch_reassembler B) = (Inr out, t)"
    and rest: "push_all frs t = (Inr rest, R)"
    and outs: "outs = (case out of None \<Rightarrow> [] | Some b \<Rightarrow> [b]) @ rest"
    using Cons.prems(3) by (auto simp only: push_all_Cons_Inr)
  define hd_fs where "hd_fs = take (length fs - length rest) fs"
  define tl_fs where "tl_fs = drop (length fs - length rest) fs"
  have len: "length fs = length outs"
    using Cons.prems(4) by (metis length_map)
  have tl: "map (decode cb) rest = map Inr tl_fs"
    using Cons.prems(4) len by (simp add: outs tl_fs_def drop_map [symmetric] flip: Cons.prems(4))
  have hd: "map (decode cb) (case out of None \<Rightarrow> [] | Some b \<Rightarrow> [b]) = map Inr hd_fs"
    using Cons.prems(4) len by (simp add: outs hd_fs_def take_map [symmetric] flip: Cons.prems(4))
  obtain m a b where s: "on_transport (transport_seal sn p) A = (Inr m, A\<lparr>ch_transport := a\<rparr>)"
    "on_transport (transport_open sn m) B = (Inr p, B\<lparr>ch_transport := b\<rparr>)"
    "link (n + length frs) (t_state a) (t_state b)" "length m \<le> MAX_NOISE_MESSAGE"
    using seal_step [OF assms(1), of "n + length frs" A B p] Cons.prems(1,2) by auto
  let ?A = "A\<lparr>ch_transport := a\<rparr>" and ?B = "B\<lparr>ch_transport := b, ch_reassembler := t\<rparr>"
  have o: "\<exists>r. channel_open cb sn m B = (Inr r, ?B) \<and> (case r of None \<Rightarrow> [] | Some f \<Rightarrow> [f]) = hd_fs"
    using s(2) push hd
    by (cases out) (auto simp: channel_open_def op_then_def on_reassembler_def map_eq_Cons_conv)
  have "\<exists>ms A' B'. seal_each sn frs ?A = (Inr ms, A') \<and> open_messages cb sn ms ?B = (Inr tl_fs, B') \<and>
    link n (t_state (ch_transport A')) (t_state (ch_transport B')) \<and> ch_reassembler B' = R \<and>
    list_all (\<lambda>m. length m \<le> MAX_NOISE_MESSAGE) ms"
    by (rule Cons.IH [OF _ _ _ tl]) (use s(3) Cons.prems(2) rest in simp_all)
  moreover have "hd_fs @ tl_fs = fs" by (simp add: hd_fs_def tl_fs_def)
  ultimately show ?case
    using s(1,4) o by (fastforce simp: op_then_def)
qed auto

lemma open_messages_append:
  "open_messages cb sn ms B = (Inr fs, C) \<Longrightarrow> open_messages cb sn ns C = (Inr gs, D) \<Longrightarrow>
   open_messages cb sn (ms @ ns) B = (Inr (fs @ gs), D)"
proof (induction ms arbitrary: B fs)
  case (Cons m ms)
  then show ?case by (fastforce simp: op_simps)
qed auto

text \<open>The carrier messages a sequence of frames takes.\<close>

definition messages_needed :: "bytes list \<Rightarrow> nat" where
  "messages_needed encoded_frames = sum_list (map (\<lambda>bs. length (fragments bs)) encoded_frames)"

lemma channel_delivers_one:
  assumes cb: "cbor_codec cb" and tr: "transport_ok sn link" and wf: "wf_payload (f_payload f)"
    and enc: "encode cb f = Inr bs"
    and lk: "link (n + length (fragments bs)) (t_state (ch_transport A)) (t_state (ch_transport B))"
    and fresh: "ch_reassembler B = reassembler_new MAX_FRAME_BYTES"
  shows "\<exists>ms A' B'. channel_seal cb sn f A = (Inr ms, A') \<and> open_messages cb sn ms B = (Inr [f], B') \<and>
    link n (t_state (ch_transport A')) (t_state (ch_transport B')) \<and>
    ch_reassembler B' = reassembler_new MAX_FRAME_BYTES \<and>
    list_all (\<lambda>m. length m \<le> MAX_NOISE_MESSAGE) ms"
proof -
  note e = cbor_codec.encode_cases [OF cb wf enc]
  have "push_all (fragments bs) (ch_reassembler B) = (Inr [bs], reassembler_new MAX_FRAME_BYTES)"
    using push_all_fragments [of "reassembler_new MAX_FRAME_BYTES" bs] e(2)
    by (simp add: fresh reassembler_new_def)
  moreover have "list_all (\<lambda>p. length p \<le> MAX_NOISE_PAYLOAD) (fragments bs)"
    using fragments_fit [of bs] by (simp add: list_all_iff)
  ultimately have "\<exists>ms A' B'. seal_each sn (fragments bs) A = (Inr ms, A') \<and>
      open_messages cb sn ms B = (Inr [f], B') \<and>
      link n (t_state (ch_transport A')) (t_state (ch_transport B')) \<and>
      ch_reassembler B' = reassembler_new MAX_FRAME_BYTES \<and>
      list_all (\<lambda>m. length m \<le> MAX_NOISE_MESSAGE) ms"
    using sealed_messages_open [OF tr lk, where cb = cb and fs = "[f]" and outs = "[bs]"
      and R = "reassembler_new MAX_FRAME_BYTES"] e(3) by simp
  then show ?thesis
    using enc by (simp add: channel_seal_def seal_bytes_def op_then_def)
qed

lemma frames_delivered:
  assumes "cbor_codec cb" and "transport_ok sn link"
    and "list_all (\<lambda>f. wf_payload (f_payload f)) fs"
    and "list_all2 (\<lambda>f bs. encode cb f = Inr bs) fs bss"
    and "link (n + messages_needed bss) (t_state (ch_transport A)) (t_state (ch_transport B))"
    and "ch_reassembler B = reassembler_new MAX_FRAME_BYTES"
  shows "\<exists>ms A' B'. seal_frames cb sn fs A = (Inr ms, A') \<and> open_messages cb sn ms B = (Inr fs, B') \<and>
    link n (t_state (ch_transport A')) (t_state (ch_transport B')) \<and>
    ch_reassembler B' = reassembler_new MAX_FRAME_BYTES \<and>
    list_all (\<lambda>m. length m \<le> MAX_NOISE_MESSAGE) ms"
  using assms(3-)
proof (induction fs arbitrary: bss A B)
  case Nil
  then show ?case by (simp add: messages_needed_def)
next
  case (Cons f fs)
  then obtain bs rest where bss: "bss = bs # rest" and enc: "encode cb f = Inr bs"
    and encs: "list_all2 (\<lambda>f bs. encode cb f = Inr bs) fs rest"
    by (auto simp: list_all2_Cons1)
  have wf: "wf_payload (f_payload f)" "list_all (\<lambda>f. wf_payload (f_payload f)) fs"
    using Cons.prems(1) by simp_all
  have lk: "link ((n + messages_needed rest) + length (fragments bs))
      (t_state (ch_transport A)) (t_state (ch_transport B))"
    using Cons.prems(3) by (simp add: bss messages_needed_def algebra_simps)
  obtain ms A1 B1 where one: "channel_seal cb sn f A = (Inr ms, A1)" "open_messages cb sn ms B = (Inr [f], B1)"
    "link (n + messages_needed rest) (t_state (ch_transport A1)) (t_state (ch_transport B1))"
    "ch_reassembler B1 = reassembler_new MAX_FRAME_BYTES" "list_all (\<lambda>m. length m \<le> MAX_NOISE_MESSAGE) ms"
    using channel_delivers_one [OF assms(1,2) wf(1) enc lk Cons.prems(4)] by blast
  obtain ns A2 B2 where more: "seal_frames cb sn fs A1 = (Inr ns, A2)" "open_messages cb sn ns B1 = (Inr fs, B2)"
    "link n (t_state (ch_transport A2)) (t_state (ch_transport B2))"
    "ch_reassembler B2 = reassembler_new MAX_FRAME_BYTES" "list_all (\<lambda>m. length m \<le> MAX_NOISE_MESSAGE) ns"
    using Cons.IH [OF wf(2) encs one(3,4)] by blast
  then show ?case
    using one open_messages_append [OF one(2) more(2)] by (simp add: op_then_def)
qed

section \<open>Properties\<close>

text \<open>C1. A session delivers: the carrier messages of frames sealed one after the other,
  opened in order at the other end, yield exactly those frames in order; every message fits
  one Noise message; afterwards the ends are still linked and the receiver is between frames.\<close>

theorem channel_delivers:
  assumes "cbor_codec cb" and "transport_ok sn link"
    and "list_all (\<lambda>f. wf_payload (f_payload f)) fs"
    and "list_all2 (\<lambda>f bs. encode cb f = Inr bs) fs bss"
    and "link (n + messages_needed bss) (t_state (ch_transport A)) (t_state (ch_transport B))"
    and "ch_reassembler B = reassembler_new MAX_FRAME_BYTES"
  shows "\<exists>ms A' B'. seal_frames cb sn fs A = (Inr ms, A') \<and> open_messages cb sn ms B = (Inr fs, B') \<and>
    link n (t_state (ch_transport A')) (t_state (ch_transport B')) \<and>
    ch_reassembler B' = reassembler_new MAX_FRAME_BYTES \<and>
    list_all (\<lambda>m. length m \<le> MAX_NOISE_MESSAGE) ms"
  by (rule frames_delivered [OF assms])

text \<open>A transport for the witness: the nonce counts up to a bound, the tag is sixteen zeros.\<close>

definition demo_snow :: "(unit, nat) snow" where
  "demo_snow =
     \<lparr>build_initiator = (\<lambda>_ _ _. None), build_responder = (\<lambda>_ _. None),
      hs_write = (\<lambda>h _. (None, h)), hs_read = (\<lambda>h _. (None, h)), hs_remote_static = (\<lambda>_. None),
      hs_hash = (\<lambda>_. []), into_transport_mode = (\<lambda>_. None),
      tr_write = (\<lambda>n p. if n = 0 then (None, n) else (Some (p @ replicate 16 0), n - 1)),
      tr_read = (\<lambda>n m. if n = 0 then (None, n) else (Some (take (length m - 16) m), n - 1)),
      tr_remote_static = (\<lambda>_. None)\<rparr>"

lemma demo_transport_ok: "transport_ok demo_snow (\<lambda>n a b. n = a \<and> a = b)"
  by (simp add: transport_ok_def demo_snow_def)

theorem channel_delivers_witness:
  "let fs = [\<lparr>f_id = 1, f_payload = Ping\<rparr>];
       c = channel_new \<lparr>t_state = 1, t_handshake_hash = []\<rparr>
   in \<exists>ms A B. seal_frames rfc_cbor demo_snow fs c = (Inr ms, A) \<and>
        open_messages rfc_cbor demo_snow ms c = (Inr fs, B)"
proof -
  let ?f = "\<lparr>f_id = 1, f_payload = Ping\<rparr>"
  let ?c = "channel_new \<lparr>t_state = 1, t_handshake_hash = []\<rparr>"
  have wf: "wf_payload (f_payload ?f)"
    by (simp add: wf_payload_def)
  have small: "frame_size ?f \<le> 225"
    by (rule watch_frame_small) (simp add: watch_payload_def)
  then have "frame_size ?f \<le> MAX_FRAME_BYTES"
    by (simp add: MAX_FRAME_BYTES_def)
  then obtain bs where e: "encode rfc_cbor ?f = Inr bs"
    by (rule rfc.encode_ok [OF wf])
  have "length bs \<le> 225"
    using rfc.encode_cases(1) [OF wf e] small by simp
  then have "length (fragments bs) = 1"
    by (simp add: fragments_eq chunks.simps)
  then have n: "0 + messages_needed [bs] = 1"
    by (simp add: messages_needed_def)
  show ?thesis
    using channel_delivers [OF rfc.cbor_codec_axioms demo_transport_ok, where fs = "[?f]" and bss = "[bs]"
        and n = 0 and A = ?c and B = ?c] wf e n
    by (simp add: channel_new_def Let_def) blast
qed

end
