(* ===== verification/Envelope.thy ===== *)
theory Envelope
  imports Signed
begin

text \<open>
  \<open>core/crates/arveil-core/src/envelope.rs\<close>: the envelope one recipient device gets, padded
  to one of six sizes and sealed with HPKE under the delivery it belongs to.

  The HPKE suite of the crate \<open>hpke_rs\<close> is the record \<open>hpke\<close> (the randomness of a seal is an
  argument); \<open>hpke_ok\<close> is the correctness of RFC 9180: what is sealed to a public key opens
  with the private key under the same \<open>info\<close> and \<open>aad\<close>, and AES-128-GCM adds 16 bytes.

  Shown: exactly which payloads \<open>pad\<close> can bring to a bucket boundary and that those come back
  unchanged, that a sealed envelope has one of six lengths, and that the associated data
  determine realm, mailbox and delivery.
\<close>

section \<open>Definitions\<close>

definition ENVELOPE_VERSION :: u8 where "ENVELOPE_VERSION = 1"
definition ENVELOPE_INFO :: bytes where "ENVELOPE_INFO = bytes_of_string ''arveil/envelope/v1''"
definition KIND_MLS :: u8 where "KIND_MLS = 1"
definition KIND_DEVICE_LINK :: u8 where "KIND_DEVICE_LINK = 2"
definition KIND_HISTORY :: u8 where "KIND_HISTORY = 3"
definition BUCKETS :: "nat list" where "BUCKETS = [256, 1024, 4096, 16384, 65536, 262144]"

datatype envelope_error =
    EnvTooLarge nat
  | EnvEncode "string option"
  | EnvDecode
  | EnvHpke
  | EnvUnsupportedVersion u8

record hpke =
  hpke_seal :: "bytes \<Rightarrow> bytes \<Rightarrow> bytes \<Rightarrow> bytes \<Rightarrow> bytes \<Rightarrow> (bytes \<times> bytes) option"
  hpke_open :: "bytes \<Rightarrow> bytes \<Rightarrow> bytes \<Rightarrow> bytes \<Rightarrow> bytes \<Rightarrow> bytes option"
  hpke_public :: "bytes \<Rightarrow> bytes"

definition hpke_ok :: "hpke \<Rightarrow> bool" where
  "hpke_ok hp \<longleftrightarrow>
     (\<forall>seed sk info aad pt enc ct. hpke_seal hp seed (hpke_public hp sk) info aad pt = Some (enc, ct) \<longrightarrow>
        hpke_open hp enc sk info aad ct = Some pt \<and> length ct = length pt + 16)"

record envelope_context =
  ec_version :: u8
  ec_realm_id :: bytes
  ec_mailbox_id :: bytes
  ec_delivery_id :: bytes

definition envelope_context_new :: "bytes \<Rightarrow> bytes \<Rightarrow> bytes \<Rightarrow> envelope_context" where
  "envelope_context_new realm mailbox delivery =
     \<lparr>ec_version = ENVELOPE_VERSION, ec_realm_id = realm, ec_mailbox_id = mailbox,
      ec_delivery_id = delivery\<rparr>"

definition envelope_context_fields :: "envelope_context \<Rightarrow> (string \<times> value) list" where
  "envelope_context_fields c =
     [(''version'', v_uint (ec_version c)), (''realm_id'', VBytes (ec_realm_id c)),
      (''mailbox_id'', VBytes (ec_mailbox_id c)), (''delivery_id'', VBytes (ec_delivery_id c))]"

definition aad :: "cbor \<Rightarrow> envelope_context \<Rightarrow> envelope_error + bytes" where
  "aad cb c = map_err (\<lambda>_. EnvEncode None) (signed_canonical cb (struct (envelope_context_fields c)))"

record inner_payload =
  ip_version :: u8
  ip_kind :: u8
  ip_payload :: bytes
  ip_padding :: bytes

definition inner_payload_fields :: "inner_payload \<Rightarrow> (string \<times> value) list" where
  "inner_payload_fields p =
     [(''version'', v_uint (ip_version p)), (''kind'', v_uint (ip_kind p)),
      (''payload'', VBytes (ip_payload p)), (''padding'', VBytes (ip_padding p))]"

definition inner_payload_from_value :: "cbor \<Rightarrow> value \<Rightarrow> inner_payload option" where
  "inner_payload_from_value cb v =
     do { fs \<leftarrow> de_fields cb v;
          a \<leftarrow> get_field (de_u8 cb) fs ''version'';
          b \<leftarrow> get_field (de_u8 cb) fs ''kind'';
          c \<leftarrow> get_field (de_bytes cb) fs ''payload'';
          d \<leftarrow> get_field (de_bytes cb) fs ''padding'';
          Some \<lparr>ip_version = a, ip_kind = b, ip_payload = c, ip_padding = d\<rparr> }"

record sealed =
  s_enc :: bytes
  s_ciphertext :: bytes

definition bucket_for :: "nat \<Rightarrow> envelope_error + nat" where
  "bucket_for encoded_len = ok_or (find (\<lambda>b. b \<ge> encoded_len) BUCKETS) (EnvTooLarge encoded_len)"

definition inner_padding_overhead :: "nat \<Rightarrow> nat" where
  "inner_padding_overhead len =
     (if len \<le> 23 then 0 else if len \<le> 255 then 1 else if len \<le> 65535 then 2 else 4)"

definition encode_inner :: "cbor \<Rightarrow> inner_payload \<Rightarrow> envelope_error + bytes" where
  "encode_inner cb inner = map_err (\<lambda>_. EnvEncode None) (signed_canonical cb (struct (inner_payload_fields inner)))"

text \<open>The first argument counts the rounds left; the loop of the source runs four.\<close>

fun pad_loop :: "nat \<Rightarrow> cbor \<Rightarrow> inner_payload \<Rightarrow> nat \<Rightarrow> nat \<Rightarrow> envelope_error + bytes" where
  "pad_loop 0 cb inner target pad_len = Inl (EnvEncode (Some ''padding did not converge''))"
| "pad_loop (Suc n) cb inner target pad_len =
     (let inner = inner\<lparr>ip_padding := replicate (pad_len - inner_padding_overhead pad_len) 0\<rparr> in
      and_then (encode_inner cb inner) (\<lambda>encoded.
      if length encoded = target then Inr encoded
      else pad_loop n cb inner target (pad_len + target - length encoded)))"

definition pad :: "cbor \<Rightarrow> u8 \<Rightarrow> bytes \<Rightarrow> envelope_error + bytes" where
  "pad cb kind payload =
     (let inner = \<lparr>ip_version = ENVELOPE_VERSION, ip_kind = kind, ip_payload = payload, ip_padding = []\<rparr> in
      and_then (encode_inner cb inner) (\<lambda>base.
      and_then (bucket_for (length base)) (\<lambda>target.
      pad_loop 4 cb inner target (target - length base))))"

definition envelope_seal ::
  "cbor \<Rightarrow> hpke \<Rightarrow> bytes \<Rightarrow> bytes \<Rightarrow> envelope_context \<Rightarrow> u8 \<Rightarrow> bytes \<Rightarrow> envelope_error + sealed" where
  "envelope_seal cb hp seed recipient_public ctx kind payload =
     and_then (pad cb kind payload) (\<lambda>plaintext.
     and_then (aad cb ctx) (\<lambda>a.
     and_then (ok_or (hpke_seal hp seed recipient_public ENVELOPE_INFO a plaintext) EnvHpke) (\<lambda>(enc, ct).
     Inr \<lparr>s_enc = enc, s_ciphertext = ct\<rparr>)))"

definition envelope_open ::
  "cbor \<Rightarrow> hpke \<Rightarrow> bytes \<Rightarrow> envelope_context \<Rightarrow> sealed \<Rightarrow> envelope_error + inner_payload" where
  "envelope_open cb hp recipient_private ctx sl =
     and_then (aad cb ctx) (\<lambda>a.
     and_then (ok_or (hpke_open hp (s_enc sl) recipient_private ENVELOPE_INFO a (s_ciphertext sl)) EnvHpke) (\<lambda>plaintext.
     and_then (ok_or (decode_as cb (inner_payload_from_value cb) plaintext) EnvDecode) (\<lambda>inner.
     if ip_version inner \<noteq> ENVELOPE_VERSION then Inl (EnvUnsupportedVersion (ip_version inner))
     else Inr inner)))"

section \<open>The padding loop\<close>

lemma bucket_for_cases:
  "n \<le> 262144 \<Longrightarrow> \<exists>b. bucket_for n = Inr b \<and> b \<in> set BUCKETS \<and> n \<le> b \<and> (\<forall>c \<in> set BUCKETS. n \<le> c \<longrightarrow> b \<le> c)"
  "n > 262144 \<Longrightarrow> bucket_for n = Inl (EnvTooLarge n)"
  by (auto simp: bucket_for_def BUCKETS_def)

text \<open>The payload before it is padded.\<close>

definition bare :: "u8 \<Rightarrow> bytes \<Rightarrow> inner_payload" where
  "bare kind payload = \<lparr>ip_version = ENVELOPE_VERSION, ip_kind = kind, ip_payload = payload, ip_padding = []\<rparr>"

text \<open>The encoded length without padding, and with \<open>n\<close> bytes of it.\<close>

definition inner_size :: "inner_payload \<Rightarrow> nat" where
  "inner_size p = cbor_size (struct (inner_payload_fields (p\<lparr>ip_padding := []\<rparr>)))"

lemma inner_size_update [simp]: "inner_size (p\<lparr>ip_padding := d\<rparr>) = inner_size p"
  by (simp add: inner_size_def)

lemma cbor_size_inner:
  "cbor_size (struct (inner_payload_fields (p\<lparr>ip_padding := replicate n 0\<rparr>))) =
   inner_size p + (head_size n - 1) + n"
  by (simp add: inner_size_def inner_payload_fields_def struct_def head_size_def)

lemma wf_inner: "wf_value 16 (struct (inner_payload_fields p))"
  by (simp add: inner_payload_fields_def struct_def wf_value_numeral wf_v_uint_numeral ascii_utf8 ascii_def)

text \<open>Gaps to the bucket boundary that no length of padding fills: at 24, 257 and 65538 bytes
  the header of the padding grows by more than the one byte that is missing.\<close>

definition unfillable :: "nat set" where
  "unfillable = {24, 257, 65538, 65539}"

context cbor_codec begin

lemma inner_payload_roundtrip:
  "inner_payload_from_value cb (sort_maps cb (struct (inner_payload_fields p))) = Some p"
  unfolding inner_payload_from_value_def
  by (rule sorted_struct_cases [of "inner_payload_fields p"])
    (simp add: sorted_field inner_payload_fields_def wire_simps)

lemma encode_inner_ok:
  assumes "cbor_size (struct (inner_payload_fields p)) < 2 ^ 64"
  obtains b where "encode_inner cb p = Inr b" and "length b = cbor_size (struct (inner_payload_fields p))"
    and "decode_as cb (inner_payload_from_value cb) b = Some p"
proof -
  obtain b where "signed_canonical cb (struct (inner_payload_fields p)) = Inr b"
    "length b = cbor_size (struct (inner_payload_fields p))"
    "from_reader cb b = Some (sort_maps cb (struct (inner_payload_fields p)))"
    by (rule encoder_size [OF wf_inner assms])
  then show thesis
    by (intro that [of b]) (simp_all add: encode_inner_def decode_as_def inner_payload_roundtrip)
qed

lemma encode_inner_padded:
  assumes "inner_size p + n < 2 ^ 32"
  obtains b where "encode_inner cb (p\<lparr>ip_padding := replicate n 0\<rparr>) = Inr b"
    and "length b = inner_size p + (head_size n - 1) + n"
    and "decode_as cb (inner_payload_from_value cb) b = Some (p\<lparr>ip_padding := replicate n 0\<rparr>)"
proof -
  have "cbor_size (struct (inner_payload_fields (p\<lparr>ip_padding := replicate n 0\<rparr>))) < 2 ^ 64"
    using assms unfolding cbor_size_inner by (simp add: head_size_def)
  then show thesis
    by (rule encode_inner_ok) (use that in \<open>simp add: cbor_size_inner\<close>)
qed

lemma pad_step:
  assumes g: "inner_size p + l < 2 ^ 32"
    and n: "n = l - inner_padding_overhead l" and e: "e = inner_size p + (head_size n - 1) + n"
  shows "e = target \<Longrightarrow> \<exists>b. pad_loop (Suc k) cb p target l = Inr b \<and> length b = target \<and>
      decode_as cb (inner_payload_from_value cb) b = Some (p\<lparr>ip_padding := replicate n 0\<rparr>)"
    and "e \<noteq> target \<Longrightarrow> pad_loop (Suc k) cb p target l =
      pad_loop k cb (p\<lparr>ip_padding := replicate n 0\<rparr>) target (l + target - e)"
proof -
  have "inner_size p + n < 2 ^ 32" using g n by linarith
  then obtain b where b: "encode_inner cb (p\<lparr>ip_padding := replicate n 0\<rparr>) = Inr b" "length b = e"
    "decode_as cb (inner_payload_from_value cb) b = Some (p\<lparr>ip_padding := replicate n 0\<rparr>)"
    unfolding e by (rule encode_inner_padded)
  show "e = target \<Longrightarrow> \<exists>b. pad_loop (Suc k) cb p target l = Inr b \<and> length b = target \<and>
      decode_as cb (inner_payload_from_value cb) b = Some (p\<lparr>ip_padding := replicate n 0\<rparr>)"
    using b n by (simp add: Let_def)
  show "e \<noteq> target \<Longrightarrow> pad_loop (Suc k) cb p target l =
      pad_loop k cb (p\<lparr>ip_padding := replicate n 0\<rparr>) target (l + target - e)"
    using b n by (simp add: Let_def)
qed

end

text \<open>What one round makes of a padding budget \<open>l\<close>: the bytes it adds to the empty encoding.\<close>

definition filled :: "nat \<Rightarrow> nat" where
  "filled l = (let n = l - inner_padding_overhead l in (head_size n - 1) + n)"

lemma filled_exact:
  "l \<le> 23 \<Longrightarrow> filled l = l"
  "25 \<le> l \<Longrightarrow> l \<le> 255 \<Longrightarrow> filled l = l"
  "258 \<le> l \<Longrightarrow> l \<le> 65535 \<Longrightarrow> filled l = l"
  "65540 \<le> l \<Longrightarrow> l < 2 ^ 32 \<Longrightarrow> filled l = l"
  by (auto simp: filled_def inner_padding_overhead_def head_size_def Let_def)

lemma filled_boundary:
  "filled 24 = 23" "filled 256 = 255" "filled 257 = 256"
  "filled 65536 = 65534" "filled 65537 = 65535" "filled 65538 = 65536" "filled 65539 = 65537"
  by (simp_all add: filled_def inner_padding_overhead_def head_size_def Let_def)

context cbor_codec begin

lemma pad_round_done:
  assumes "target = inner_size p + g" "target < 2 ^ 30" "l < 2 ^ 31" "filled l = g"
  shows "\<exists>b n. pad_loop (Suc k) cb p target l = Inr b \<and> length b = target \<and>
      decode_as cb (inner_payload_from_value cb) b = Some (p\<lparr>ip_padding := replicate n 0\<rparr>)"
  using pad_step(1) [of p l "l - inner_padding_overhead l" _ target k] assms
  by (fastforce simp: filled_def Let_def)

lemma pad_round_again:
  assumes "target = inner_size p + g" "target < 2 ^ 30" "l < 2 ^ 31" "filled l = f" "f \<noteq> g" "l + g = m + f"
  shows "\<exists>n. pad_loop (Suc k) cb p target l = pad_loop k cb (p\<lparr>ip_padding := replicate n 0\<rparr>) target m"
proof -
  let ?n = "l - inner_padding_overhead l"
  have "inner_size p + (head_size ?n - 1) + ?n = inner_size p + f"
    using assms(4) by (simp add: filled_def Let_def)
  then have "pad_loop (Suc k) cb p target l =
      pad_loop k cb (p\<lparr>ip_padding := replicate ?n 0\<rparr>) target (l + target - (inner_size p + f))"
    using pad_step(2) [of p l ?n "inner_size p + f" target k] assms(1-3,5) by simp
  moreover have "l + target - (inner_size p + f) = m"
    using assms(1,6) by simp
  ultimately show ?thesis by auto
qed

lemma pad_fills:
  assumes g: "target = inner_size p + g" "target < 2 ^ 30" and ok: "g \<notin> unfillable"
  shows "\<exists>b n. pad_loop (Suc (Suc k)) cb p target g = Inr b \<and> length b = target \<and>
      decode_as cb (inner_payload_from_value cb) b = Some (p\<lparr>ip_padding := replicate n 0\<rparr>)"
proof -
  have small: "g < 2 ^ 31" using g by simp
  have two: ?thesis if m: "filled g = f" "f \<noteq> g" "g + g = m + f" "filled m = g" "m < 2 ^ 31" for f m
  proof -
    obtain n where n: "pad_loop (Suc (Suc k)) cb p target g =
        pad_loop (Suc k) cb (p\<lparr>ip_padding := replicate n 0\<rparr>) target m"
      using pad_round_again [OF g small m(1-3)] by blast
    then show ?thesis
      using pad_round_done [of target "p\<lparr>ip_padding := replicate n 0\<rparr>" g m k] g m(4,5) by simp
  qed
  consider "g \<le> 23" | "25 \<le> g" "g \<le> 255" | "g = 256" | "258 \<le> g" "g \<le> 65535" | "g = 65536" | "g = 65537"
    | "65540 \<le> g"
    using ok unfolding unfillable_def by (simp, linarith)
  then show ?thesis
  proof cases
    case 3
    then show ?thesis using two [of 255 257] by (simp add: filled_boundary)
  next
    case 5
    then show ?thesis using two [of 65534 65538] by (simp add: filled_boundary)
  next
    case 6
    then show ?thesis using two [of 65535 65539] by (simp add: filled_boundary)
  qed (use pad_round_done [OF g small, of "Suc k"] filled_exact small in auto)
qed

text \<open>On the unfillable gaps the budget alternates between two values and never hits.\<close>

lemma pad_stuck:
  assumes "target = inner_size p + g" "target < 2 ^ 30" "g \<in> unfillable"
  shows "pad_loop 4 cb p target g = Inl (EnvEncode (Some ''padding did not converge''))"
proof -
  define m where "m = (if g = 24 then 25 else if g = 257 then 258 else g + 2)"
  have f: "filled g \<noteq> g" "g + g = m + filled g" "filled m \<noteq> g" "m + g = g + filled m" "m < 2 ^ 31"
    and small: "g < 2 ^ 31"
    using assms(3) filled_exact [of m] by (auto simp: unfillable_def m_def filled_boundary)
  have up: "\<exists>n. pad_loop (Suc k) cb q target g = pad_loop k cb (q\<lparr>ip_padding := replicate n 0\<rparr>) target m"
    if "inner_size q = inner_size p" for q k
    using pad_round_again [of target q g g "filled g" m k] assms(1,2) small f(1,2) that by simp
  have down: "\<exists>n. pad_loop (Suc k) cb q target m = pad_loop k cb (q\<lparr>ip_padding := replicate n 0\<rparr>) target g"
    if "inner_size q = inner_size p" for q k
    using pad_round_again [of target q g m "filled m" g k] assms(1,2) f(3-5) that by simp
  have two: "\<exists>n. pad_loop (Suc (Suc k)) cb q target g = pad_loop k cb (q\<lparr>ip_padding := replicate n 0\<rparr>) target g"
    if same: "inner_size q = inner_size p" for q k
  proof -
    obtain n where "pad_loop (Suc (Suc k)) cb q target g = pad_loop (Suc k) cb (q\<lparr>ip_padding := replicate n 0\<rparr>) target m"
      using up [OF same] by blast
    then show ?thesis
      using down [of "q\<lparr>ip_padding := replicate n 0\<rparr>" k] same by auto
  qed
  obtain n where n: "pad_loop (Suc (Suc 2)) cb p target g = pad_loop 2 cb (p\<lparr>ip_padding := replicate n 0\<rparr>) target g"
    using two by blast
  have "\<exists>n'. pad_loop (Suc (Suc 0)) cb (p\<lparr>ip_padding := replicate n 0\<rparr>) target g =
      pad_loop 0 cb (p\<lparr>ip_padding := replicate n' 0\<rparr>) target g"
    using two [of "p\<lparr>ip_padding := replicate n 0\<rparr>" 0] by simp
  then show ?thesis
    using n by (simp add: numeral_eq_Suc del: pad_loop.simps(2))
qed

lemma pad_unfold:
  assumes "inner_size (bare kind payload) < 2 ^ 32"
  shows "pad cb kind payload =
    and_then (bucket_for (inner_size (bare kind payload))) (\<lambda>target.
      pad_loop 4 cb (bare kind payload) target (target - inner_size (bare kind payload)))"
proof -
  have "cbor_size (struct (inner_payload_fields (bare kind payload))) = inner_size (bare kind payload)"
    by (simp add: inner_size_def bare_def)
  moreover have "inner_size (bare kind payload) < 2 ^ 64" using assms by simp
  ultimately obtain b where "encode_inner cb (bare kind payload) = Inr b" "length b = inner_size (bare kind payload)"
    using encode_inner_ok [of "bare kind payload"] by metis
  then show ?thesis
    by (simp add: pad_def bare_def Let_def)
qed

lemma pad_cases:
  assumes "inner_size (bare kind payload) < 2 ^ 32"
  shows "if inner_size (bare kind payload) > 262144
    then pad cb kind payload = Inl (EnvTooLarge (inner_size (bare kind payload)))
    else \<exists>target \<in> set BUCKETS. inner_size (bare kind payload) \<le> target \<and>
      (\<forall>c \<in> set BUCKETS. inner_size (bare kind payload) \<le> c \<longrightarrow> target \<le> c) \<and>
      (if target - inner_size (bare kind payload) \<in> unfillable
       then pad cb kind payload = Inl (EnvEncode (Some ''padding did not converge''))
       else \<exists>b n. pad cb kind payload = Inr b \<and> length b = target \<and>
         decode_as cb (inner_payload_from_value cb) b = Some ((bare kind payload)\<lparr>ip_padding := replicate n 0\<rparr>))"
proof -
  let ?p = "bare kind payload"
  note unfold = pad_unfold [OF assms]
  show ?thesis
  proof (cases "inner_size ?p > 262144")
    case True
    then show ?thesis by (simp add: unfold bucket_for_cases(2))
  next
    case False
    then obtain target where t: "bucket_for (inner_size ?p) = Inr target" "target \<in> set BUCKETS"
      "inner_size ?p \<le> target" "\<forall>c \<in> set BUCKETS. inner_size ?p \<le> c \<longrightarrow> target \<le> c"
      using bucket_for_cases(1) [of "inner_size ?p"] by auto
    have small: "target < 2 ^ 30" using t(2) by (auto simp: BUCKETS_def)
    have g: "target = inner_size ?p + (target - inner_size ?p)" using t(3) by simp
    have pl: "pad cb kind payload = pad_loop 4 cb ?p target (target - inner_size ?p)"
      by (simp only: unfold t(1) and_then_Inr)
    have four: "4 = Suc (Suc 2)" by simp
    show ?thesis
      using False t(2-4) pad_stuck [OF g small] pad_fills [OF g small, of 2] unfolding pl four by auto
  qed
qed

lemma pad_ok:
  assumes "pad cb kind payload = Inr b" and "inner_size (bare kind payload) < 2 ^ 32"
  shows "length b \<in> set BUCKETS"
    and "\<exists>n. decode_as cb (inner_payload_from_value cb) b = Some ((bare kind payload)\<lparr>ip_padding := replicate n 0\<rparr>)"
  using pad_cases [OF assms(2)] assms(1) by (auto split: if_splits)

lemma envelope_context_inj:
  assumes "aad cb c = Inr a" and "aad cb d = Inr a"
  shows "c = d"
proof -
  let ?v = "\<lambda>c. struct (envelope_context_fields c)"
  have wf: "wf_value 16 (?v c)" for c
    by (simp add: envelope_context_fields_def struct_def wf_value_numeral wf_v_uint_numeral ascii_utf8 ascii_def)
  have "canonical cb (?v c) = Some a" "canonical cb (?v d) = Some a"
    using assms by (simp_all add: aad_def signed_canonical_def result_simps)
  then have "from_reader cb a = Some (sort_maps cb (?v c))" "from_reader cb a = Some (sort_maps cb (?v d))"
    using canonical_decodes wf wf_value_sort_maps by metis+
  then have same: "sort_maps cb (?v c) = sort_maps cb (?v d)" by simp
  define rd where "rd v = do { fs \<leftarrow> de_fields cb v;
       x \<leftarrow> get_field (de_u8 cb) fs ''version''; y \<leftarrow> get_field (de_bytes cb) fs ''realm_id'';
       z \<leftarrow> get_field (de_bytes cb) fs ''mailbox_id''; w \<leftarrow> get_field (de_bytes cb) fs ''delivery_id'';
       Some \<lparr>ec_version = x, ec_realm_id = y, ec_mailbox_id = z, ec_delivery_id = w\<rparr> }" for v
  have "rd (sort_maps cb (?v c)) = Some c" for c
    unfolding rd_def
    by (rule sorted_struct_cases [of "envelope_context_fields c"])
      (simp add: sorted_field envelope_context_fields_def wire_simps)
  then show ?thesis
    using same by (metis option.inject)
qed

end

lemma seal_open:
  assumes cb: "cbor_codec cb" and hp: "hpke_ok hp" and small: "inner_size (bare kind payload) < 2 ^ 32"
    and s: "envelope_seal cb hp seed (hpke_public hp sk) ctx kind payload = Inr sl"
  shows "\<exists>n. envelope_open cb hp sk ctx sl = Inr ((bare kind payload)\<lparr>ip_padding := replicate n 0\<rparr>)"
    and "length (s_ciphertext sl) - 16 \<in> set BUCKETS"
proof -
  obtain b a where b: "pad cb kind payload = Inr b" and a: "aad cb ctx = Inr a"
    and h: "hpke_seal hp seed (hpke_public hp sk) ENVELOPE_INFO a b = Some (s_enc sl, s_ciphertext sl)"
    using s by (auto simp: envelope_seal_def result_simps split: prod.splits)
  have o: "hpke_open hp (s_enc sl) sk ENVELOPE_INFO a (s_ciphertext sl) = Some b"
    "length (s_ciphertext sl) = length b + 16"
    using hp h unfolding hpke_ok_def by blast+
  note p = cbor_codec.pad_ok [OF cb b small]
  show "\<exists>n. envelope_open cb hp sk ctx sl = Inr ((bare kind payload)\<lparr>ip_padding := replicate n 0\<rparr>)"
    using p(2) a o(1) by (auto simp: envelope_open_def bare_def)
  show "length (s_ciphertext sl) - 16 \<in> set BUCKETS"
    using p(1) o(2) by simp
qed

section \<open>Properties\<close>

text \<open>What \<open>pad\<close> does with every payload: one that fits no bucket is refused; one whose
  encoding is 24, 257, 65538 or 65539 bytes short of its bucket is refused because no padding
  has exactly that encoded length; every other one becomes exactly as long as the smallest
  bucket that holds it and decodes to the same kind and payload.\<close>

theorem pad_correct:
  assumes "cbor_codec cb" and "inner_size (bare kind payload) < 2 ^ 32"
  shows "if inner_size (bare kind payload) > 262144
    then pad cb kind payload = Inl (EnvTooLarge (inner_size (bare kind payload)))
    else \<exists>target \<in> set BUCKETS. inner_size (bare kind payload) \<le> target \<and>
      (\<forall>c \<in> set BUCKETS. inner_size (bare kind payload) \<le> c \<longrightarrow> target \<le> c) \<and>
      (if target - inner_size (bare kind payload) \<in> unfillable
       then pad cb kind payload = Inl (EnvEncode (Some ''padding did not converge''))
       else \<exists>b n. pad cb kind payload = Inr b \<and> length b = target \<and>
         decode_as cb (inner_payload_from_value cb) b = Some ((bare kind payload)\<lparr>ip_padding := replicate n 0\<rparr>))"
  using assms by (rule cbor_codec.pad_cases)

lemma inner_size_small:
  "unat kind < 24 \<Longrightarrow> inner_size (bare kind payload) = 33 + head_size (length payload) + length payload"
  by (simp add: inner_size_def bare_def inner_payload_fields_def struct_def v_uint_def ENVELOPE_VERSION_def
      head_size_def nat_uint_eq)

theorem pad_correct_witness:
  "inner_size (bare 1 [7, 8]) < 2 ^ 32 \<and> (\<exists>b. pad rfc_cbor 1 [7, 8] = Inr b \<and> length b = 256)"
proof -
  have s: "inner_size (bare 1 [7, 8]) = 36"
    by (simp add: inner_size_small head_size_def)
  show ?thesis
    using pad_correct [OF rfc.cbor_codec_axioms, of 1 "[7, 8]"] s
    by (auto simp: BUCKETS_def unfillable_def split: if_splits)
qed

text \<open>C7. A payload of 197 bytes of any kind below 24, whatever its contents, cannot be sealed:
  its encoding is 24 bytes short of the first bucket, and \<open>pad\<close> reports that it did not
  converge instead of using the next bucket.\<close>

theorem payload_197_refused:
  assumes "cbor_codec cb" and "unat kind < 24" and "length payload = 197"
  shows "envelope_seal cb hp seed recipient ctx kind payload =
    Inl (EnvEncode (Some ''padding did not converge''))"
proof -
  have s: "inner_size (bare kind payload) = 232"
    using assms(2,3) by (simp add: inner_size_small head_size_def)
  have "pad cb kind payload = Inl (EnvEncode (Some ''padding did not converge''))"
    using cbor_codec.pad_cases [OF assms(1), of kind payload] s
    by (auto simp: BUCKETS_def unfillable_def split: if_splits)
  then show ?thesis by (simp add: envelope_seal_def)
qed

text \<open>C8. A sealed envelope opens, with the recipient's private key and under the same context,
  to the kind and payload that were sealed; its ciphertext has one of six lengths; and the
  associated data it is bound to determine version, realm, mailbox and delivery.\<close>

theorem envelope_seal_open:
  assumes "cbor_codec cb" and "hpke_ok hp" and "inner_size (bare kind payload) < 2 ^ 32"
    and "envelope_seal cb hp seed (hpke_public hp sk) ctx kind payload = Inr sl"
  shows "\<exists>inner. envelope_open cb hp sk ctx sl = Inr inner \<and> ip_kind inner = kind \<and>
      ip_payload inner = payload \<and> length (s_ciphertext sl) - 16 \<in> set BUCKETS \<and>
      (\<forall>ctx'. aad cb ctx' = aad cb ctx \<longrightarrow> ctx' = ctx)"
proof -
  obtain a where a: "aad cb ctx = Inr a"
    using assms(4) by (auto simp: envelope_seal_def result_simps)
  have inj: "ctx' = ctx" if "aad cb ctx' = aad cb ctx" for ctx'
    using cbor_codec.envelope_context_inj [OF assms(1)] a that by auto
  obtain n where "envelope_open cb hp sk ctx sl = Inr ((bare kind payload)\<lparr>ip_padding := replicate n 0\<rparr>)"
    using seal_open(1) [OF assms] by blast
  then show ?thesis
    using seal_open(2) [OF assms] inj by (auto simp: bare_def)
qed

text \<open>A sealing scheme for the witness, with no secrecy: it appends a fixed tag.\<close>

definition demo_hpke :: hpke where
  "demo_hpke =
     \<lparr>hpke_seal = (\<lambda>seed pk info a pt. Some (seed, pt @ replicate 16 0)),
      hpke_open = (\<lambda>enc sk info a ct. Some (take (length ct - 16) ct)),
      hpke_public = id\<rparr>"

lemma demo_hpke_ok: "hpke_ok demo_hpke"
  by (auto simp: hpke_ok_def demo_hpke_def)

theorem payload_197_refused_witness:
  "length (replicate 197 (0 :: u8)) = 197 \<and>
   envelope_seal rfc_cbor demo_hpke [] [1] (envelope_context_new [2] [3] [4]) 1 (replicate 197 0) =
     Inl (EnvEncode (Some ''padding did not converge''))"
  using payload_197_refused [OF rfc.cbor_codec_axioms, of 1 "replicate 197 0"] by simp

theorem envelope_seal_open_witness:
  "\<exists>sl inner. envelope_seal rfc_cbor demo_hpke [] (hpke_public demo_hpke [1])
       (envelope_context_new [2] [3] [4]) 1 [7, 8] = Inr sl \<and>
     envelope_open rfc_cbor demo_hpke [1] (envelope_context_new [2] [3] [4]) sl = Inr inner \<and>
     ip_payload inner = [7, 8]"
proof -
  let ?c = "envelope_context_new [2] [3] [4]"
  have s: "inner_size (bare 1 [7, 8]) = 36"
    by (simp add: inner_size_small head_size_def)
  then have small: "inner_size (bare 1 [7, 8]) < 2 ^ 32" by simp
  obtain b where b: "pad rfc_cbor 1 [7, 8] = Inr b"
    using rfc.pad_cases [OF small] s by (auto simp: BUCKETS_def unfillable_def split: if_splits)
  have "cbor_size (struct (envelope_context_fields ?c)) < 2 ^ 64"
    by (simp add: envelope_context_new_def envelope_context_fields_def struct_def v_uint_def head_size_def
        ENVELOPE_VERSION_def)
  moreover have "wf_value 16 (struct (envelope_context_fields ?c))"
    by (simp add: envelope_context_fields_def struct_def wf_value_numeral wf_v_uint_numeral ascii_utf8 ascii_def)
  ultimately obtain a where a: "aad rfc_cbor ?c = Inr a"
    using rfc.encoder_size unfolding aad_def by (metis map_err_Inr)
  have "\<exists>sl. envelope_seal rfc_cbor demo_hpke [] (hpke_public demo_hpke [1]) ?c 1 [7, 8] = Inr sl"
    by (simp add: envelope_seal_def b a demo_hpke_def)
  then show ?thesis
    using envelope_seal_open [OF rfc.cbor_codec_axioms demo_hpke_ok small] by blast
qed

end
