(* ===== verification/Text.thy ===== *)
theory Text
  imports Signed
begin

text \<open>
  What the sources use of Rust's \<open>str\<close> and of the crate \<open>hex\<close>.

  A \<open>String\<close> is the list of its UTF-8 bytes; \<open>chars\<close> groups them into characters, so that
  \<open>trim\<close>, \<open>is_control\<close> and \<open>is_whitespace\<close> work on characters as they do in Rust. \<open>split_on\<close>
  is \<open>str::split\<close> with one ASCII separator, \<open>decimal\<close> and \<open>zero_pad\<close> are the integer formats.

  The crate \<open>hex\<close> is the record \<open>hex\<close>; \<open>hex_ok\<close> is what its documentation promises: decoding
  inverts encoding, and an encoding consists of lower-case hexadecimal digits. \<open>base16\<close> is an
  instance of it for the witnesses.
\<close>

section \<open>Characters\<close>

definition char_code :: "char \<Rightarrow> nat" where
  "char_code c = of_char c"

definition char_len :: "char \<Rightarrow> nat" where
  "char_len c = (let n = char_code c in if n < 128 then 1 else if n < 224 then 2 else if n < 240 then 3 else 4)"

function chars :: "string \<Rightarrow> string list" where
  "chars [] = []"
| "chars (a # s) = (a # take (char_len a - 1) s) # chars (drop (char_len a - 1) s)"
  by pat_completeness auto
termination
  by (relation "measure length") auto

definition is_control :: "string \<Rightarrow> bool" where
  "is_control ch =
     (case map char_code ch of
        [a] \<Rightarrow> a < 32 \<or> a = 127
      | [a, b] \<Rightarrow> a = 194 \<and> b < 160
      | _ \<Rightarrow> False)"

text \<open>The Unicode property White_Space.\<close>

definition is_whitespace :: "string \<Rightarrow> bool" where
  "is_whitespace ch =
     (case map char_code ch of
        [a] \<Rightarrow> (9 \<le> a \<and> a \<le> 13) \<or> a = 32
      | [a, b] \<Rightarrow> a = 194 \<and> (b = 133 \<or> b = 160)
      | [a, b, c] \<Rightarrow>
          (a = 225 \<and> b = 154 \<and> c = 128) \<or>
          (a = 226 \<and> b = 128 \<and> (c \<le> 138 \<or> c = 168 \<or> c = 169 \<or> c = 175)) \<or>
          (a = 226 \<and> b = 129 \<and> c = 159) \<or>
          (a = 227 \<and> b = 128 \<and> c = 128)
      | _ \<Rightarrow> False)"

definition trim :: "string \<Rightarrow> string" where
  "trim s = concat (rev (dropWhile is_whitespace (rev (dropWhile is_whitespace (chars s)))))"

fun split_on :: "char \<Rightarrow> string \<Rightarrow> string list" where
  "split_on c [] = [[]]"
| "split_on c (x # s) =
     (if x = c then [] # split_on c s
      else case split_on c s of [] \<Rightarrow> [[x]] | p # ps \<Rightarrow> (x # p) # ps)"

fun join_with :: "string \<Rightarrow> string list \<Rightarrow> string" where
  "join_with sep [] = []"
| "join_with sep [p] = p"
| "join_with sep (p # q # ps) = p @ sep @ join_with sep (q # ps)"

section \<open>Numbers\<close>

definition digit :: "nat \<Rightarrow> char" where
  "digit n = char_of (48 + n)"

function decimal :: "nat \<Rightarrow> string" where
  "decimal n = (if n < 10 then [digit n] else decimal (n div 10) @ [digit (n mod 10)])"
  by pat_completeness auto
termination
  by (relation "measure id") auto

declare decimal.simps [simp del]

text \<open>The format \<open>{:0w}\<close>.\<close>

definition zero_pad :: "nat \<Rightarrow> string \<Rightarrow> string" where
  "zero_pad w s = replicate (w - length s) (CHR ''0'') @ s"

section \<open>Hexadecimal\<close>

record hex =
  hex_encode :: "bytes \<Rightarrow> string"
  hex_decode :: "string \<Rightarrow> bytes option"

definition hex_char :: "char \<Rightarrow> bool" where
  "hex_char c \<longleftrightarrow> (48 \<le> char_code c \<and> char_code c \<le> 57) \<or> (97 \<le> char_code c \<and> char_code c \<le> 102)"

definition hex_ok :: "hex \<Rightarrow> bool" where
  "hex_ok hx \<longleftrightarrow>
     (\<forall>b. hex_decode hx (hex_encode hx b) = Some b \<and> list_all hex_char (hex_encode hx b) \<and>
          length (hex_encode hx b) = 2 * length b)"

definition nibble :: "nat \<Rightarrow> char" where
  "nibble n = char_of (if n < 10 then 48 + n else 87 + n)"

definition unnibble :: "char \<Rightarrow> nat option" where
  "unnibble c =
     (let n = char_code c in
      if 48 \<le> n \<and> n \<le> 57 then Some (n - 48) else if 97 \<le> n \<and> n \<le> 102 then Some (n - 87)
      else if 65 \<le> n \<and> n \<le> 70 then Some (n - 55) else None)"

fun base16_decode :: "string \<Rightarrow> bytes option" where
  "base16_decode [] = Some []"
| "base16_decode [c] = None"
| "base16_decode (c # d # s) =
     (case (unnibble c, unnibble d, base16_decode s) of
        (Some a, Some b, Some r) \<Rightarrow> Some (word_of_nat (16 * a + b) # r)
      | _ \<Rightarrow> None)"

definition base16 :: hex where
  "base16 = \<lparr>hex_encode = (\<lambda>b. concat (map (\<lambda>w. [nibble (unat w div 16), nibble (unat w mod 16)]) b)),
             hex_decode = base16_decode\<rparr>"

section \<open>Lemmas\<close>

lemma concat_chars [simp]: "concat (chars s) = s"
proof (induction s rule: chars.induct)
  case (2 a s)
  then show ?case by simp
qed simp

lemma chars_ascii: "ascii s \<Longrightarrow> chars s = map (\<lambda>c. [c]) s"
proof (induction s rule: chars.induct)
  case (2 a s)
  then have "char_len a = 1"
    by (simp add: ascii_def char_len_def char_code_def)
  then show ?case
    using 2 by (simp add: ascii_def)
qed simp

lemma trim_ascii_id:
  assumes "ascii s" and "s = [] \<or> \<not> is_whitespace [hd s] \<and> \<not> is_whitespace [last s]"
  shows "trim s = s"
proof (cases "s = []")
  case False
  have start: "dropWhile is_whitespace (map (\<lambda>c. [c]) s) = map (\<lambda>c. [c]) s"
    using assms(2) False by (cases s) auto
  have "dropWhile is_whitespace (rev (map (\<lambda>c. [c]) s)) = rev (map (\<lambda>c. [c]) s)"
  proof -
    obtain t where "s = t @ [last s]"
      using False by (metis append_butlast_last_id)
    then obtain u x where "s = u @ [x]" "\<not> is_whitespace [x]"
      using assms(2) False by blast
    then show ?thesis by simp
  qed
  then show ?thesis
    unfolding trim_def chars_ascii [OF assms(1)] start by simp
qed (simp add: trim_def)

lemma split_on_ne [simp]: "split_on c s \<noteq> []"
  by (induction s) (auto split: list.splits)

lemma split_on_append: "c \<notin> set p \<Longrightarrow> split_on c (p @ c # s) = p # split_on c s"
  by (induction p) auto

lemma split_on_piece: "c \<notin> set p \<Longrightarrow> split_on c p = [p]"
  by (induction p) auto

lemma split_on_join:
  "ps \<noteq> [] \<Longrightarrow> list_all (\<lambda>p. c \<notin> set p) ps \<Longrightarrow> split_on c (join_with [c] ps) = ps"
  by (induction "[c]" ps rule: join_with.induct) (auto simp: split_on_append split_on_piece)

lemma join_split: "join_with [c] (split_on c s) = s"
proof (induction s)
  case (Cons x s)
  obtain p ps where p: "split_on c s = p # ps" by (cases "split_on c s") auto
  then show ?case using Cons by (cases ps) auto
qed simp

lemma char_code_char_of: "n < 256 \<Longrightarrow> char_code (char_of n) = n"
  by (simp add: char_code_def)

lemma nibble_props: "n < 16 \<Longrightarrow> unnibble (nibble n) = Some n" "n < 16 \<Longrightarrow> hex_char (nibble n)"
  by (auto simp: unnibble_def nibble_def hex_char_def char_code_char_of)

lemma base16_ok: "hex_ok base16"
proof -
  have n: "unat w div 16 < 16" "unat w mod 16 < 16" for w :: u8
    using unsigned_less [of w, where ?'a = nat] by auto
  have "base16_decode (concat (map (\<lambda>w. [nibble (unat w div 16), nibble (unat w mod 16)]) b)) = Some b" for b :: bytes
    by (induction b) (simp_all add: nibble_props n)
  moreover have "list_all hex_char (concat (map (\<lambda>w. [nibble (unat w div 16), nibble (unat w mod 16)]) b))" for b :: bytes
    by (induction b) (simp_all add: nibble_props n)
  moreover have "length (concat (map (\<lambda>w. [nibble (unat w div 16), nibble (unat w mod 16)]) b)) = 2 * length b" for b :: bytes
    by (induction b) simp_all
  ultimately show ?thesis
    by (simp add: hex_ok_def base16_def)
qed

lemma hex_chars:
  assumes "hex_char c"
  shows "char_code c < 128" and "\<not> is_whitespace [c]" and "c \<noteq> CHR '':''"
proof -
  have "char_code (CHR '':'') = 58" by (simp add: char_code_def)
  then show "char_code c < 128" "\<not> is_whitespace [c]" "c \<noteq> CHR '':''"
    using assms by (auto simp: hex_char_def is_whitespace_def)
qed

end
