(* ===== verification/Identity.thy ===== *)
theory Identity
  imports Signed
begin

text \<open>
  \<open>core/crates/arveil-core/src/identity/mod.rs\<close> and \<open>channel/endpoints.rs\<close>: the objects signed by
  a person's root key, device credentials and the chained device manifest, and the endpoint
  list signed by a realm.

  A \<open>VerifyingKey\<close> is its 32 bytes, a \<open>SigningKey\<close> its seed; random bytes, which the sources
  take from the operating system, are arguments. Shown: what is issued is accepted and read
  back unchanged; what is accepted was signed by the right root under the right context; the
  sequence a client remembers never goes back and never forks; a claimed device is believed
  only when credential and manifest of the same root agree on it; an endpoint list is accepted
  only when it advances.
\<close>

section \<open>Constants and errors\<close>

definition CREDENTIAL_CONTEXT :: string where "CREDENTIAL_CONTEXT = ''arveil/device-credential/v1''"
definition MANIFEST_CONTEXT :: string where "MANIFEST_CONTEXT = ''arveil/device-manifest/v1''"
definition IDENTITY_ID_CONTEXT :: string where "IDENTITY_ID_CONTEXT = ''arveil/identity-id/v1''"
definition CREDENTIAL_HASH_CONTEXT :: string where "CREDENTIAL_HASH_CONTEXT = ''arveil/credential-hash/v1''"
definition MANIFEST_HASH_CONTEXT :: string where "MANIFEST_HASH_CONTEXT = ''arveil/manifest-hash/v1''"
definition CREDENTIAL_VERSION :: u8 where "CREDENTIAL_VERSION = 1"
definition MANIFEST_VERSION :: u8 where "MANIFEST_VERSION = 1"
definition USE_MLS_LEAF :: u8 where "USE_MLS_LEAF = 1"
definition USE_TRANSPORT :: u8 where "USE_TRANSPORT = 2"
definition USE_ENVELOPE :: u8 where "USE_ENVELOPE = 4"

datatype identity_error =
    IdSigned signed_error
  | RandomUnavailable
  | UnsupportedVersion u8
  | RootMismatch
  | NotValidAt u64
  | IdentityMismatch
  | ManifestRollback u64 u64
  | ManifestConflict u64
  | ChainBroken
  | BindingMismatch string
  | NotActive

definition id_hash :: "crypto \<Rightarrow> string \<Rightarrow> bytes \<Rightarrow> bytes" where
  "id_hash cr context data = sha256 cr (bytes_of_string context @ data)"

definition identity_id :: "crypto \<Rightarrow> bytes \<Rightarrow> bytes" where
  "identity_id cr root_public = id_hash cr IDENTITY_ID_CONTEXT root_public"

definition credential_hash :: "crypto \<Rightarrow> bytes \<Rightarrow> bytes" where
  "credential_hash cr signed_credential = id_hash cr CREDENTIAL_HASH_CONTEXT signed_credential"

definition manifest_hash :: "crypto \<Rightarrow> bytes \<Rightarrow> bytes" where
  "manifest_hash cr signed_manifest = id_hash cr MANIFEST_HASH_CONTEXT signed_manifest"

section \<open>Data\<close>

record validity =
  not_before :: u64
  not_after :: u64

definition validity_fields :: "validity \<Rightarrow> (string \<times> value) list" where
  "validity_fields v = [(''not_before'', v_uint (not_before v)), (''not_after'', v_uint (not_after v))]"

definition validity_from_value :: "cbor \<Rightarrow> value \<Rightarrow> validity option" where
  "validity_from_value cb v =
     do { fs \<leftarrow> de_fields cb v;
          a \<leftarrow> get_field (de_u64 cb) fs ''not_before'';
          b \<leftarrow> get_field (de_u64 cb) fs ''not_after'';
          Some \<lparr>not_before = a, not_after = b\<rparr> }"

record device_credential =
  dc_version :: u8
  dc_identity_root_public_key :: bytes
  dc_device_id :: bytes
  dc_mls_signature_public_key :: bytes
  dc_transport_noise_public_key :: bytes
  dc_envelope_hpke_public_key :: bytes
  dc_validity :: validity
  dc_allowed_uses :: u8

definition device_credential_fields :: "device_credential \<Rightarrow> (string \<times> value) list" where
  "device_credential_fields c =
     [(''version'', v_uint (dc_version c)),
      (''identity_root_public_key'', VBytes (dc_identity_root_public_key c)),
      (''device_id'', VBytes (dc_device_id c)),
      (''mls_signature_public_key'', VBytes (dc_mls_signature_public_key c)),
      (''transport_noise_public_key'', VBytes (dc_transport_noise_public_key c)),
      (''envelope_hpke_public_key'', VBytes (dc_envelope_hpke_public_key c)),
      (''validity'', struct (validity_fields (dc_validity c))),
      (''allowed_uses'', v_uint (dc_allowed_uses c))]"

definition device_credential_from_value :: "cbor \<Rightarrow> value \<Rightarrow> device_credential option" where
  "device_credential_from_value cb v =
     do { fs \<leftarrow> de_fields cb v;
          a \<leftarrow> get_field (de_u8 cb) fs ''version'';
          b \<leftarrow> get_field (de_bytes cb) fs ''identity_root_public_key'';
          c \<leftarrow> get_field (de_bytes cb) fs ''device_id'';
          d \<leftarrow> get_field (de_bytes cb) fs ''mls_signature_public_key'';
          e \<leftarrow> get_field (de_bytes cb) fs ''transport_noise_public_key'';
          f \<leftarrow> get_field (de_bytes cb) fs ''envelope_hpke_public_key'';
          g \<leftarrow> get_field (validity_from_value cb) fs ''validity'';
          h \<leftarrow> get_field (de_u8 cb) fs ''allowed_uses'';
          Some \<lparr>dc_version = a, dc_identity_root_public_key = b, dc_device_id = c,
                dc_mls_signature_public_key = d, dc_transport_noise_public_key = e,
                dc_envelope_hpke_public_key = f, dc_validity = g, dc_allowed_uses = h\<rparr> }"

record device_manifest =
  dm_version :: u8
  dm_identity_id :: bytes
  dm_manifest_sequence :: u64
  dm_previous_manifest_hash :: bytes
  dm_active_credential_hashes :: "bytes list"
  dm_revoked_credential_hashes :: "bytes list"

definition device_manifest_fields :: "device_manifest \<Rightarrow> (string \<times> value) list" where
  "device_manifest_fields m =
     [(''version'', v_uint (dm_version m)),
      (''identity_id'', VBytes (dm_identity_id m)),
      (''manifest_sequence'', v_uint (dm_manifest_sequence m)),
      (''previous_manifest_hash'', VBytes (dm_previous_manifest_hash m)),
      (''active_credential_hashes'', VArray (map VBytes (dm_active_credential_hashes m))),
      (''revoked_credential_hashes'', VArray (map VBytes (dm_revoked_credential_hashes m)))]"

definition device_manifest_from_value :: "cbor \<Rightarrow> value \<Rightarrow> device_manifest option" where
  "device_manifest_from_value cb v =
     do { fs \<leftarrow> de_fields cb v;
          a \<leftarrow> get_field (de_u8 cb) fs ''version'';
          b \<leftarrow> get_field (de_bytes cb) fs ''identity_id'';
          c \<leftarrow> get_field (de_u64 cb) fs ''manifest_sequence'';
          d \<leftarrow> get_field (de_bytes cb) fs ''previous_manifest_hash'';
          e \<leftarrow> get_field (de_list cb (de_bytes cb)) fs ''active_credential_hashes'';
          f \<leftarrow> get_field (de_list cb (de_bytes cb)) fs ''revoked_credential_hashes'';
          Some \<lparr>dm_version = a, dm_identity_id = b, dm_manifest_sequence = c,
                dm_previous_manifest_hash = d, dm_active_credential_hashes = e,
                dm_revoked_credential_hashes = f\<rparr> }"

record device_public_keys =
  dp_device_id :: bytes
  dp_mls_signature_public_key :: bytes
  dp_transport_noise_public_key :: bytes
  dp_envelope_hpke_public_key :: bytes

text \<open>The keypairs are private and public halves.\<close>

record device_keys =
  dk_device_id :: bytes
  dk_transport_noise :: "bytes \<times> bytes"
  dk_envelope_hpke :: "bytes \<times> bytes"
  dk_mls_signing_public_key :: bytes

definition device_keys_public :: "device_keys \<Rightarrow> device_public_keys" where
  "device_keys_public k =
     \<lparr>dp_device_id = dk_device_id k, dp_mls_signature_public_key = dk_mls_signing_public_key k,
      dp_transport_noise_public_key = snd (dk_transport_noise k),
      dp_envelope_hpke_public_key = snd (dk_envelope_hpke k)\<rparr>"

section \<open>Credentials\<close>

definition issue_credential ::
  "cbor \<Rightarrow> crypto \<Rightarrow> bytes \<Rightarrow> device_public_keys \<Rightarrow> validity \<Rightarrow> u8 \<Rightarrow> identity_error + bytes" where
  "issue_credential cb cr root device window uses =
     (let body = \<lparr>dc_version = CREDENTIAL_VERSION,
                  dc_identity_root_public_key = ed_public cr root,
                  dc_device_id = dp_device_id device,
                  dc_mls_signature_public_key = dp_mls_signature_public_key device,
                  dc_transport_noise_public_key = dp_transport_noise_public_key device,
                  dc_envelope_hpke_public_key = dp_envelope_hpke_public_key device,
                  dc_validity = window, dc_allowed_uses = uses\<rparr>
      in map_err IdSigned (sign_value cb cr CREDENTIAL_CONTEXT (struct (device_credential_fields body)) root))"

record verified_credential =
  vc_credential :: device_credential
  vc_root :: bytes
  vc_hash :: bytes

definition verify_credential ::
  "cbor \<Rightarrow> crypto \<Rightarrow> bytes \<Rightarrow> bytes option \<Rightarrow> u64 \<Rightarrow> identity_error + verified_credential" where
  "verify_credential cb cr signed_credential expected_root now =
     and_then (map_err IdSigned (peek cb signed_credential)) (\<lambda>so.
     and_then (ok_or (decode_as cb (device_credential_from_value cb) (so_body so))
                 (IdSigned (SignedDecode None))) (\<lambda>body.
     if dc_version body \<noteq> CREDENTIAL_VERSION then Inl (UnsupportedVersion (dc_version body))
     else if length (dc_identity_root_public_key body) \<noteq> 32
     then Inl (IdSigned (SignedDecode (Some ''root key length'')))
     else if \<not> ed_point cr (dc_identity_root_public_key body)
     then Inl (IdSigned (SignedDecode (Some ''root key'')))
     else let root = dc_identity_root_public_key body in
       if (case expected_root of Some expected \<Rightarrow> expected \<noteq> root | None \<Rightarrow> False) then Inl RootMismatch
       else and_then (map_err IdSigned (verify cb cr signed_credential CREDENTIAL_CONTEXT root)) (\<lambda>_.
       if now < not_before (dc_validity body) \<or> now > not_after (dc_validity body)
       then Inl (NotValidAt now)
       else Inr \<lparr>vc_credential = body, vc_root = root, vc_hash = credential_hash cr signed_credential\<rparr>)))"

section \<open>Manifests\<close>

record manifest_state =
  ms_sequence :: u64
  ms_hash :: bytes

definition manifest_identity_unverified :: "cbor \<Rightarrow> bytes \<Rightarrow> bytes option" where
  "manifest_identity_unverified cb signed_manifest =
     do { so \<leftarrow> result_ok (peek cb signed_manifest);
          body \<leftarrow> decode_as cb (device_manifest_from_value cb) (so_body so);
          Some (dm_identity_id body) }"

definition issue_manifest ::
  "cbor \<Rightarrow> crypto \<Rightarrow> bytes \<Rightarrow> manifest_state option \<Rightarrow> bytes list \<Rightarrow> bytes list \<Rightarrow> identity_error + bytes" where
  "issue_manifest cb cr root previous active revoked =
     (let body = \<lparr>dm_version = MANIFEST_VERSION,
                  dm_identity_id = identity_id cr (ed_public cr root),
                  dm_manifest_sequence = (case previous of None \<Rightarrow> 1 | Some p \<Rightarrow> ms_sequence p + 1),
                  dm_previous_manifest_hash = (case previous of None \<Rightarrow> [] | Some p \<Rightarrow> ms_hash p),
                  dm_active_credential_hashes = active,
                  dm_revoked_credential_hashes = revoked\<rparr>
      in map_err IdSigned (sign_value cb cr MANIFEST_CONTEXT (struct (device_manifest_fields body)) root))"

definition accept_manifest ::
  "cbor \<Rightarrow> crypto \<Rightarrow> bytes \<Rightarrow> bytes \<Rightarrow> manifest_state option \<Rightarrow>
     identity_error + device_manifest \<times> manifest_state" where
  "accept_manifest cb cr signed_manifest root known =
     and_then (map_err IdSigned
       (verify_value cb cr (device_manifest_from_value cb) signed_manifest MANIFEST_CONTEXT root)) (\<lambda>body.
     if dm_version body \<noteq> MANIFEST_VERSION then Inl (UnsupportedVersion (dm_version body))
     else if dm_identity_id body \<noteq> identity_id cr root then Inl IdentityMismatch
     else let hash = manifest_hash cr signed_manifest;
              state = \<lparr>ms_sequence = dm_manifest_sequence body, ms_hash = hash\<rparr> in
       case known of
         None \<Rightarrow> Inr (body, state)
       | Some k \<Rightarrow>
           if dm_manifest_sequence body = ms_sequence k then
             if hash = ms_hash k then Inr (body, \<lparr>ms_sequence = ms_sequence k, ms_hash = hash\<rparr>)
             else Inl (ManifestConflict (ms_sequence k))
           else if dm_manifest_sequence body < ms_sequence k
           then Inl (ManifestRollback (dm_manifest_sequence body) (ms_sequence k))
           else if dm_manifest_sequence body = ms_sequence k + 1 \<and>
                   dm_previous_manifest_hash body \<noteq> ms_hash k
           then Inl ChainBroken
           else Inr (body, state))"

record claimed_device =
  cd_root :: bytes
  cd_device_id :: bytes
  cd_credential_hash :: bytes
  cd_envelope_hpke_public_key :: bytes

definition verify_claimed_device ::
  "cbor \<Rightarrow> crypto \<Rightarrow> claimed_device \<Rightarrow> bytes \<Rightarrow> bytes \<Rightarrow> u64 \<Rightarrow> identity_error + device_credential" where
  "verify_claimed_device cb cr claimed signed_credential signed_manifest now =
     and_then (verify_credential cb cr signed_credential (Some (cd_root claimed)) now) (\<lambda>verified.
     if vc_hash verified \<noteq> cd_credential_hash claimed then Inl (BindingMismatch ''credential hash'')
     else let c = vc_credential verified in
     if dc_device_id c \<noteq> cd_device_id claimed then Inl (BindingMismatch ''device'')
     else if dc_envelope_hpke_public_key c \<noteq> cd_envelope_hpke_public_key claimed
     then Inl (BindingMismatch ''envelope key'')
     else if dc_allowed_uses c AND (USE_MLS_LEAF OR USE_ENVELOPE) \<noteq> (USE_MLS_LEAF OR USE_ENVELOPE)
     then Inl (BindingMismatch ''use'')
     else and_then (accept_manifest cb cr signed_manifest (cd_root claimed) None) (\<lambda>(manifest, _).
     if \<not> list_ex (\<lambda>h. h = vc_hash verified) (dm_active_credential_hashes manifest) then Inl NotActive
     else Inr c))"

section \<open>Endpoint lists\<close>

definition ENDPOINT_CONTEXT :: string where "ENDPOINT_CONTEXT = ''arveil/endpoint-list/v1''"
definition ENDPOINT_VERSION :: u8 where "ENDPOINT_VERSION = 1"
definition REALM_ID_CONTEXT :: string where "REALM_ID_CONTEXT = ''arveil/realm-id/v1''"

datatype endpoint_list_error =
    ElDecode
  | ElWrongContext string
  | ElBadSignature
  | ElUnsupportedVersion u8
  | ElRealmMismatch
  | ElRollback u64 u64
  | ElEmpty

record endpoint =
  e_kind :: string
  e_url :: string
  e_priority :: u8

definition endpoint_fields :: "endpoint \<Rightarrow> (string \<times> value) list" where
  "endpoint_fields e =
     [(''kind'', VText (e_kind e)), (''url'', VText (e_url e)), (''priority'', v_uint (e_priority e))]"

definition endpoint_from_value :: "cbor \<Rightarrow> value \<Rightarrow> endpoint option" where
  "endpoint_from_value cb v =
     do { fs \<leftarrow> de_fields cb v;
          a \<leftarrow> get_field (de_text cb) fs ''kind'';
          b \<leftarrow> get_field (de_text cb) fs ''url'';
          c \<leftarrow> get_field (de_u8 cb) fs ''priority'';
          Some \<lparr>e_kind = a, e_url = b, e_priority = c\<rparr> }"

record realm_endpoint_list =
  el_version :: u8
  el_realm_id :: bytes
  el_sequence :: u64
  el_realm_noise_public_key :: bytes
  el_endpoints :: "endpoint list"

definition realm_endpoint_list_fields :: "realm_endpoint_list \<Rightarrow> (string \<times> value) list" where
  "realm_endpoint_list_fields l =
     [(''version'', v_uint (el_version l)), (''realm_id'', VBytes (el_realm_id l)),
      (''sequence'', v_uint (el_sequence l)),
      (''realm_noise_public_key'', VBytes (el_realm_noise_public_key l)),
      (''endpoints'', VArray (map (\<lambda>e. struct (endpoint_fields e)) (el_endpoints l)))]"

definition realm_endpoint_list_from_value :: "cbor \<Rightarrow> value \<Rightarrow> realm_endpoint_list option" where
  "realm_endpoint_list_from_value cb v =
     do { fs \<leftarrow> de_fields cb v;
          a \<leftarrow> get_field (de_u8 cb) fs ''version'';
          b \<leftarrow> get_field (de_bytes cb) fs ''realm_id'';
          c \<leftarrow> get_field (de_u64 cb) fs ''sequence'';
          d \<leftarrow> get_field (de_bytes cb) fs ''realm_noise_public_key'';
          e \<leftarrow> get_field (de_list cb (endpoint_from_value cb)) fs ''endpoints'';
          Some \<lparr>el_version = a, el_realm_id = b, el_sequence = c, el_realm_noise_public_key = d,
                el_endpoints = e\<rparr> }"

definition realm_id :: "crypto \<Rightarrow> bytes \<Rightarrow> bytes" where
  "realm_id cr realm_signing_key = sha256 cr (bytes_of_string REALM_ID_CONTEXT @ realm_signing_key)"

definition endpoint_list_verify ::
  "cbor \<Rightarrow> crypto \<Rightarrow> bytes \<Rightarrow> bytes \<Rightarrow> bytes \<Rightarrow> u64 option \<Rightarrow> endpoint_list_error + realm_endpoint_list" where
  "endpoint_list_verify cb cr sobj realm_signing_key expected_realm_id known_sequence =
     and_then (map_err (\<lambda>e. case e of WrongContext _ got \<Rightarrow> ElWrongContext got
                          | BadSignature \<Rightarrow> ElBadSignature | _ \<Rightarrow> ElDecode)
       (verify_value cb cr (realm_endpoint_list_from_value cb) sobj ENDPOINT_CONTEXT realm_signing_key)) (\<lambda>l.
     if el_version l \<noteq> ENDPOINT_VERSION then Inl (ElUnsupportedVersion (el_version l))
     else if el_realm_id l \<noteq> expected_realm_id then Inl ElRealmMismatch
     else case known_sequence of
       Some known \<Rightarrow>
         if el_sequence l \<le> known then Inl (ElRollback (el_sequence l) known)
         else if el_endpoints l = [] then Inl ElEmpty else Inr l
     | None \<Rightarrow> if el_endpoints l = [] then Inl ElEmpty else Inr l)"

section \<open>Decoding what was signed\<close>

lemmas identity_constants = CREDENTIAL_CONTEXT_def MANIFEST_CONTEXT_def CREDENTIAL_VERSION_def
  MANIFEST_VERSION_def ENDPOINT_CONTEXT_def ENDPOINT_VERSION_def

lemma contexts_utf8: "utf8 CREDENTIAL_CONTEXT" "utf8 MANIFEST_CONTEXT" "utf8 ENDPOINT_CONTEXT"
  by (simp_all add: identity_constants ascii_utf8 ascii_def)

context cbor_codec begin

lemma byte_list_roundtrip: "de_list cb (de_bytes cb) (VArray (map (sort_maps cb \<circ> VBytes) xs)) = Some xs"
  by (rule sorted_list_roundtrip) (simp add: de_bytes_bytes)

lemma validity_roundtrip: "validity_from_value cb (sort_maps cb (struct (validity_fields v))) = Some v"
  unfolding validity_from_value_def
  by (rule sorted_struct_cases [of "validity_fields v"])
    (simp add: sorted_field validity_fields_def wire_simps)

lemma device_credential_roundtrip:
  "device_credential_from_value cb (sort_maps cb (struct (device_credential_fields c))) = Some c"
  unfolding device_credential_from_value_def
  by (rule sorted_struct_cases [of "device_credential_fields c"])
    (simp add: sorted_field device_credential_fields_def wire_simps validity_roundtrip)

lemma device_manifest_roundtrip:
  "device_manifest_from_value cb (sort_maps cb (struct (device_manifest_fields m))) = Some m"
  unfolding device_manifest_from_value_def
  by (rule sorted_struct_cases [of "device_manifest_fields m"])
    (simp add: sorted_field device_manifest_fields_def wire_simps byte_list_roundtrip)

lemma sign_value_decodes:
  assumes cr: "crypto_ok cr" and s: "sign_value cb cr context v key = Inr b" and wf: "wf_value 16 v"
    and u: "utf8 context" and d: "d (sort_maps cb v) = Some x"
  obtains so where "peek cb b = Inr so" and "decode_as cb d (so_body so) = Some x"
    and "verify cb cr b context (ed_public cr key) = Inr (so_body so)"
    and "verify_value cb cr d b context (ed_public cr key) = Inr x"
proof -
  obtain body where body: "canonical cb v = Some body" and sg: "sign cb cr context body key = Inr b"
    using s by (auto simp: sign_value_def signed_canonical_def result_simps)
  let ?so = "\<lparr>so_context = context, so_body = body, so_signature = ed_sign cr key (signing_input context body)\<rparr>"
  have dec: "decode_as cb d body = Some x"
    using canonical_decodes [OF body] wf d by (simp add: decode_as_def)
  have v: "verify cb cr b context (ed_public cr key) = Inr body"
    using verify_sign [OF cr sg u] .
  show thesis
    by (rule that [of ?so]) (simp_all add: peek_def sign_decodes [OF sg u] dec v verify_value_def)
qed

lemma sign_value_ok:
  assumes cr: "crypto_ok cr" and wf: "wf_value 16 v" and sz: "cbor_size v < 2 ^ 32"
    and u: "utf8 context" and c: "length context < 65536"
  shows "\<exists>b. sign_value cb cr context v key = Inr b"
proof -
  have "cbor_size v < 2 ^ 64" using sz by simp
  then obtain body where body: "signed_canonical cb v = Inr body" "length body = cbor_size v"
    by (rule encoder_size [OF wf])
  let ?so = "\<lparr>so_context = context, so_body = body, so_signature = ed_sign cr key (signing_input context body)\<rparr>"
  have "length (so_signature ?so) = 64"
    using cr by (simp add: crypto_ok_def)
  then have "cbor_size (signed_object_to_value ?so) < 2 ^ 64"
    using body(2) sz c by (simp add: signed_object_to_value_def struct_def head_size_def)
  then obtain b where "signed_canonical cb (signed_object_to_value ?so) = Inr b"
    using encoder_size [OF wf_signed_object [of ?so]] u by auto
  then show ?thesis
    by (simp add: sign_value_def sign_def body)
qed

lemma endpoint_roundtrip: "endpoint_from_value cb (sort_maps cb (struct (endpoint_fields e))) = Some e"
  unfolding endpoint_from_value_def
  by (rule sorted_struct_cases [of "endpoint_fields e"])
    (simp add: sorted_field endpoint_fields_def wire_simps)

lemma endpoint_list_roundtrip:
  "realm_endpoint_list_from_value cb (sort_maps cb (struct (realm_endpoint_list_fields l))) = Some l"
  unfolding realm_endpoint_list_from_value_def
  by (rule sorted_struct_cases [of "realm_endpoint_list_fields l"])
    (simp add: sorted_field realm_endpoint_list_fields_def wire_simps
      sorted_list_roundtrip [of "endpoint_from_value cb", OF endpoint_roundtrip])

end

lemma wf_credential: "wf_value 16 (struct (device_credential_fields c))"
  by (simp add: device_credential_fields_def validity_fields_def struct_def wf_value_numeral
      wf_v_uint_numeral ascii_utf8 ascii_def)

lemma wf_manifest: "wf_value 16 (struct (device_manifest_fields m))"
  by (simp add: device_manifest_fields_def struct_def wf_value_numeral
      wf_v_uint_numeral ascii_utf8 ascii_def list_all_iff)

text \<open>The credential body \<open>issue_credential\<close> signs, and the manifest body.\<close>

definition credential_for :: "crypto \<Rightarrow> bytes \<Rightarrow> device_public_keys \<Rightarrow> validity \<Rightarrow> u8 \<Rightarrow> device_credential" where
  "credential_for cr root device window uses =
     \<lparr>dc_version = 1, dc_identity_root_public_key = ed_public cr root,
      dc_device_id = dp_device_id device,
      dc_mls_signature_public_key = dp_mls_signature_public_key device,
      dc_transport_noise_public_key = dp_transport_noise_public_key device,
      dc_envelope_hpke_public_key = dp_envelope_hpke_public_key device,
      dc_validity = window, dc_allowed_uses = uses\<rparr>"

lemma issue_verify:
  assumes cb: "cbor_codec cb" and cr: "crypto_ok cr"
    and i: "issue_credential cb cr root device window uses = Inr sc"
    and e: "expected = None \<or> expected = Some (ed_public cr root)"
  shows "verify_credential cb cr sc expected now =
    (if now < not_before window \<or> now > not_after window then Inl (NotValidAt now)
     else Inr \<lparr>vc_credential = credential_for cr root device window uses, vc_root = ed_public cr root,
              vc_hash = credential_hash cr sc\<rparr>)"
proof -
  let ?c = "credential_for cr root device window uses"
  have "sign_value cb cr CREDENTIAL_CONTEXT (struct (device_credential_fields ?c)) root = Inr sc"
    using i by (simp add: issue_credential_def credential_for_def CREDENTIAL_VERSION_def Let_def map_err_eq_Inr_iff)
  then obtain so where so: "peek cb sc = Inr so"
      "decode_as cb (device_credential_from_value cb) (so_body so) = Some ?c"
      "verify cb cr sc CREDENTIAL_CONTEXT (ed_public cr root) = Inr (so_body so)"
    by (rule cbor_codec.sign_value_decodes [OF cb cr _ wf_credential contexts_utf8(1),
          where d = "device_credential_from_value cb", OF _ cbor_codec.device_credential_roundtrip [OF cb]])
  have k: "length (ed_public cr root) = 32" "ed_point cr (ed_public cr root)"
    using cr by (simp_all add: crypto_ok_def)
  show ?thesis
    using so k e by (auto simp: verify_credential_def credential_for_def CREDENTIAL_VERSION_def Let_def)
qed

lemma verify_credential_cases:
  assumes "verify_credential cb cr sc expected now = Inr v"
  shows "\<exists>body. verify cb cr sc CREDENTIAL_CONTEXT (vc_root v) = Inr body \<and>
      decode_as cb (device_credential_from_value cb) body = Some (vc_credential v)"
    and "expected = Some r \<Longrightarrow> vc_root v = r"
    and "vc_hash v = credential_hash cr sc"
    and "dc_identity_root_public_key (vc_credential v) = vc_root v"
    and "not_before (dc_validity (vc_credential v)) \<le> now \<and> now \<le> not_after (dc_validity (vc_credential v))"
proof -
  obtain so c where so: "peek cb sc = Inr so"
      "decode_as cb (device_credential_from_value cb) (so_body so) = Some c"
    and rest: "\<exists>b. verify cb cr sc CREDENTIAL_CONTEXT (dc_identity_root_public_key c) = Inr b"
      "\<not> (case expected of None \<Rightarrow> False | Some x \<Rightarrow> x \<noteq> dc_identity_root_public_key c)"
      "\<not> (now < not_before (dc_validity c) \<or> now > not_after (dc_validity c))"
      "v = \<lparr>vc_credential = c, vc_root = dc_identity_root_public_key c, vc_hash = credential_hash cr sc\<rparr>"
    using assms unfolding verify_credential_def
    by (auto simp: result_simps Let_def split: if_splits)
  obtain b where b: "verify cb cr sc CREDENTIAL_CONTEXT (dc_identity_root_public_key c) = Inr b"
    using rest(1) by blast
  then have "b = so_body so"
    using so(1) by (auto simp: verify_def peek_def result_simps split: if_splits)
  then show "\<exists>body. verify cb cr sc CREDENTIAL_CONTEXT (vc_root v) = Inr body \<and>
      decode_as cb (device_credential_from_value cb) body = Some (vc_credential v)"
    using b so(2) rest(4) by auto
  show "expected = Some r \<Longrightarrow> vc_root v = r"
    using rest(2,4) by simp
qed (use assms in \<open>auto simp: verify_credential_def result_simps Let_def not_less split: if_splits\<close>)

lemma accept_manifest_cases:
  assumes "accept_manifest cb cr sm root known = Inr (m, st)"
  shows "verify_value cb cr (device_manifest_from_value cb) sm MANIFEST_CONTEXT root = Inr m"
    and "dm_identity_id m = identity_id cr root" and "dm_version m = MANIFEST_VERSION"
    and "ms_sequence st = dm_manifest_sequence m" and "ms_hash st = manifest_hash cr sm"
    and "known = Some k \<Longrightarrow> ms_sequence k \<le> ms_sequence st"
    and "known = Some k \<Longrightarrow> ms_sequence k = ms_sequence st \<Longrightarrow> st = k"
    and "known = Some k \<Longrightarrow> ms_sequence st = ms_sequence k + 1 \<Longrightarrow>
      ms_sequence k \<noteq> ms_sequence st \<Longrightarrow> dm_previous_manifest_hash m = ms_hash k"
  using assms
  by (cases k; cases st; auto simp: accept_manifest_def result_simps Let_def not_less
      split: if_splits option.splits)+

lemma issue_accept:
  assumes cb: "cbor_codec cb" and cr: "crypto_ok cr"
    and i: "issue_manifest cb cr root known active revoked = Inr sm"
    and room: "\<And>k. known = Some k \<Longrightarrow> ms_sequence k \<noteq> - 1"
  obtains m st where "accept_manifest cb cr sm (ed_public cr root) known = Inr (m, st)"
    and "accept_manifest cb cr sm (ed_public cr root) (Some st) = Inr (m, st)"
    and "dm_active_credential_hashes m = active" and "dm_revoked_credential_hashes m = revoked"
    and "ms_sequence st = (case known of None \<Rightarrow> 1 | Some k \<Rightarrow> ms_sequence k + 1)"
proof -
  let ?m = "\<lparr>dm_version = MANIFEST_VERSION, dm_identity_id = identity_id cr (ed_public cr root),
    dm_manifest_sequence = (case known of None \<Rightarrow> 1 | Some p \<Rightarrow> ms_sequence p + 1),
    dm_previous_manifest_hash = (case known of None \<Rightarrow> [] | Some p \<Rightarrow> ms_hash p),
    dm_active_credential_hashes = active, dm_revoked_credential_hashes = revoked\<rparr>"
  let ?st = "\<lparr>ms_sequence = dm_manifest_sequence ?m, ms_hash = manifest_hash cr sm\<rparr>"
  have "sign_value cb cr MANIFEST_CONTEXT (struct (device_manifest_fields ?m)) root = Inr sm"
    using i by (simp add: issue_manifest_def Let_def map_err_eq_Inr_iff)
  then have v: "verify_value cb cr (device_manifest_from_value cb) sm MANIFEST_CONTEXT (ed_public cr root) = Inr ?m"
    by (rule cbor_codec.sign_value_decodes [OF cb cr _ wf_manifest contexts_utf8(2),
          where d = "device_manifest_from_value cb", OF _ cbor_codec.device_manifest_roundtrip [OF cb]])
  have up: "\<not> ms_sequence k + 1 < ms_sequence k \<and> ms_sequence k + 1 \<noteq> ms_sequence k" if "known = Some k" for k
  proof -
    have "1 + ms_sequence k \<noteq> 0"
      using room [OF that] by (metis add.commute eq_neg_iff_add_eq_0)
    then have "ms_sequence k < ms_sequence k + 1"
      by (simp add: word_less_nat_alt unatSuc add.commute)
    then show ?thesis by auto
  qed
  show thesis
    by (rule that [of ?m ?st])
      (use v up in \<open>auto simp: accept_manifest_def MANIFEST_VERSION_def split: option.splits\<close>)
qed

text \<open>What a client remembers after it was given manifests in some order: those it refuses
  change nothing.\<close>

fun manifest_run ::
  "cbor \<Rightarrow> crypto \<Rightarrow> bytes \<Rightarrow> manifest_state option \<Rightarrow> bytes list \<Rightarrow> manifest_state option" where
  "manifest_run cb cr root known [] = known"
| "manifest_run cb cr root known (sm # sms) =
     manifest_run cb cr root
       (case accept_manifest cb cr sm root known of Inl _ \<Rightarrow> known | Inr (_, st) \<Rightarrow> Some st) sms"

lemma manifest_run_mono:
  "known = Some k \<Longrightarrow> \<exists>st. manifest_run cb cr root known sms = Some st \<and>
     ms_sequence k \<le> ms_sequence st \<and> (ms_sequence k = ms_sequence st \<longrightarrow> st = k)"
proof (induction sms arbitrary: known k)
  case (Cons sm sms)
  show ?case
  proof (cases "accept_manifest cb cr sm root known")
    case (Inl e)
    then show ?thesis using Cons by simp
  next
    case (Inr p)
    obtain m st where p: "p = (m, st)" by fastforce
    note a = accept_manifest_cases [OF Inr [unfolded p]]
    obtain st' where s: "manifest_run cb cr root (Some st) sms = Some st'"
      "ms_sequence st \<le> ms_sequence st'" "ms_sequence st = ms_sequence st' \<longrightarrow> st' = st"
      using Cons.IH by blast
    have "st' = k" if "ms_sequence k = ms_sequence st'"
      using that a(6,7) [OF Cons.prems] s(2,3) by (metis order_antisym)
    then show ?thesis
      using s Inr p a(6) [OF Cons.prems] by auto
  qed
qed simp

lemma manifest_run_append:
  "manifest_run cb cr root known (xs @ ys) = manifest_run cb cr root (manifest_run cb cr root known xs) ys"
  by (induction xs arbitrary: known) auto

section \<open>A concrete identity for witnesses\<close>

definition demo_device :: device_public_keys where
  "demo_device = \<lparr>dp_device_id = [1], dp_mls_signature_public_key = [2],
     dp_transport_noise_public_key = [3], dp_envelope_hpke_public_key = [4]\<rparr>"

definition demo_window :: validity where
  "demo_window = \<lparr>not_before = 10, not_after = 20\<rparr>"

lemma demo_credential_issued:
  "\<exists>sc. issue_credential rfc_cbor demo_crypto [9] demo_device demo_window 7 = Inr sc"
proof -
  let ?c = "credential_for demo_crypto [9] demo_device demo_window 7"
  have "cbor_size (struct (device_credential_fields ?c)) < 2 ^ 32"
    by (simp add: credential_for_def device_credential_fields_def validity_fields_def struct_def v_uint_def
        head_size_def demo_crypto_def demo_device_def demo_window_def)
  then have "\<exists>b. sign_value rfc_cbor demo_crypto CREDENTIAL_CONTEXT (struct (device_credential_fields ?c)) [9] = Inr b"
    by (rule rfc.sign_value_ok [OF demo_crypto_ok wf_credential _ contexts_utf8(1)])
      (simp add: CREDENTIAL_CONTEXT_def)
  then show ?thesis
    by (simp add: issue_credential_def credential_for_def CREDENTIAL_VERSION_def map_err_eq_Inr_iff)
qed

lemma demo_manifest_issued:
  assumes "length h = 32"
  shows "\<exists>sm. issue_manifest rfc_cbor demo_crypto [9] None [h] [] = Inr sm"
proof -
  let ?m = "\<lparr>dm_version = MANIFEST_VERSION, dm_identity_id = identity_id demo_crypto (ed_public demo_crypto [9]),
    dm_manifest_sequence = 1, dm_previous_manifest_hash = [],
    dm_active_credential_hashes = [h], dm_revoked_credential_hashes = []\<rparr>"
  have "cbor_size (struct (device_manifest_fields ?m)) < 2 ^ 32"
    using assms by (simp add: device_manifest_fields_def struct_def v_uint_def head_size_def
        identity_id_def id_hash_def demo_crypto_def MANIFEST_VERSION_def)
  then have "\<exists>b. sign_value rfc_cbor demo_crypto MANIFEST_CONTEXT (struct (device_manifest_fields ?m)) [9] = Inr b"
    by (rule rfc.sign_value_ok [OF demo_crypto_ok wf_manifest _ contexts_utf8(2)])
      (simp add: MANIFEST_CONTEXT_def)
  then show ?thesis
    by (simp add: issue_manifest_def map_err_eq_Inr_iff)
qed

lemma length_demo_hash [simp]: "length (id_hash demo_crypto c d) = 32"
  by (simp add: id_hash_def demo_crypto_def)

lemma demo_claim_verifies:
  "\<exists>claimed sc sm c. verify_claimed_device rfc_cbor demo_crypto claimed sc sm 15 = Inr c"
proof -
  obtain sc where sc: "issue_credential rfc_cbor demo_crypto [9] demo_device demo_window 7 = Inr sc"
    using demo_credential_issued by blast
  obtain sm where sm: "issue_manifest rfc_cbor demo_crypto [9] None [credential_hash demo_crypto sc] [] = Inr sm"
    using demo_manifest_issued [of "credential_hash demo_crypto sc"] by (auto simp: credential_hash_def)
  obtain m st where acc: "accept_manifest rfc_cbor demo_crypto sm (ed_public demo_crypto [9]) None = Inr (m, st)"
    "dm_active_credential_hashes m = [credential_hash demo_crypto sc]"
    by (rule issue_accept [OF rfc.cbor_codec_axioms demo_crypto_ok sm]) auto
  let ?cl = "\<lparr>cd_root = ed_public demo_crypto [9], cd_device_id = [1],
    cd_credential_hash = credential_hash demo_crypto sc, cd_envelope_hpke_public_key = [4]\<rparr>"
  have "verify_claimed_device rfc_cbor demo_crypto ?cl sc sm 15 =
      Inr (credential_for demo_crypto [9] demo_device demo_window 7)"
    using issue_verify [OF rfc.cbor_codec_axioms demo_crypto_ok sc, of "Some (ed_public demo_crypto [9])" 15] acc
    by (simp add: verify_claimed_device_def demo_window_def credential_for_def demo_device_def
        USE_MLS_LEAF_def USE_ENVELOPE_def)
  then show ?thesis by blast
qed

lemma demo_endpoint_list_verifies:
  "\<exists>s l. endpoint_list_verify rfc_cbor demo_crypto s (ed_public demo_crypto [9]) [7] (Some 0) = Inr l"
proof -
  let ?l = "\<lparr>el_version = 1, el_realm_id = [7], el_sequence = 2, el_realm_noise_public_key = [],
    el_endpoints = [\<lparr>e_kind = ''lan'', e_url = ''ws'', e_priority = 0\<rparr>]\<rparr>"
  let ?v = "struct (realm_endpoint_list_fields ?l)"
  have wf: "wf_value 16 ?v"
    by (simp add: realm_endpoint_list_fields_def endpoint_fields_def struct_def wf_value_numeral
        wf_v_uint_numeral ascii_utf8 ascii_def)
  have "cbor_size ?v < 2 ^ 32"
    by (simp add: realm_endpoint_list_fields_def endpoint_fields_def struct_def v_uint_def head_size_def)
  then obtain s where s: "sign_value rfc_cbor demo_crypto ENDPOINT_CONTEXT ?v [9] = Inr s"
    using rfc.sign_value_ok [OF demo_crypto_ok wf _ contexts_utf8(3)] by (auto simp: ENDPOINT_CONTEXT_def)
  have "verify_value rfc_cbor demo_crypto (realm_endpoint_list_from_value rfc_cbor) s ENDPOINT_CONTEXT
      (ed_public demo_crypto [9]) = Inr ?l"
    by (rule rfc.sign_value_decodes [OF demo_crypto_ok s wf contexts_utf8(3),
          where d = "realm_endpoint_list_from_value rfc_cbor", OF rfc.endpoint_list_roundtrip])
  then have "endpoint_list_verify rfc_cbor demo_crypto s (ed_public demo_crypto [9]) [7] (Some 0) = Inr ?l"
    by (simp add: endpoint_list_verify_def ENDPOINT_VERSION_def)
  then show ?thesis by blast
qed

section \<open>Properties\<close>

text \<open>A credential that \<open>issue_credential\<close> signs is accepted by \<open>verify_credential\<close>, whether or
  not the verifier already knows the root, exactly inside its validity window, and names the
  device keys it was issued for; outside the window it is refused as not valid.\<close>

theorem issued_credential_verifies:
  assumes "cbor_codec cb" and "crypto_ok cr"
    and "issue_credential cb cr root device window uses = Inr sc"
    and "expected = None \<or> expected = Some (ed_public cr root)"
  shows "verify_credential cb cr sc expected now =
    (if now < not_before window \<or> now > not_after window then Inl (NotValidAt now)
     else Inr \<lparr>vc_credential = credential_for cr root device window uses, vc_root = ed_public cr root,
              vc_hash = credential_hash cr sc\<rparr>)"
  using assms by (rule issue_verify)

theorem issued_credential_verifies_witness:
  "\<exists>sc. issue_credential rfc_cbor demo_crypto [9] demo_device demo_window 7 = Inr sc \<and>
     verify_credential rfc_cbor demo_crypto sc None 21 = Inl (NotValidAt 21)"
proof -
  obtain sc where sc: "issue_credential rfc_cbor demo_crypto [9] demo_device demo_window 7 = Inr sc"
    using demo_credential_issued by blast
  show ?thesis
    using sc issued_credential_verifies [OF rfc.cbor_codec_axioms demo_crypto_ok sc, of None 21]
    by (simp add: demo_window_def)
qed

text \<open>The manifest the root issues next is accepted by every client that is up to date
  with the previous one, carries the lists it was issued with, advances the sequence by one,
  and being seen again changes nothing.\<close>

theorem issued_manifest_accepted:
  assumes "cbor_codec cb" and "crypto_ok cr"
    and "issue_manifest cb cr root known active revoked = Inr sm"
    and "\<forall>k. known = Some k \<longrightarrow> ms_sequence k \<noteq> - 1"
  shows "\<exists>m st. accept_manifest cb cr sm (ed_public cr root) known = Inr (m, st) \<and>
    accept_manifest cb cr sm (ed_public cr root) (Some st) = Inr (m, st) \<and>
    dm_active_credential_hashes m = active \<and> dm_revoked_credential_hashes m = revoked \<and>
    ms_sequence st = (case known of None \<Rightarrow> 1 | Some k \<Rightarrow> ms_sequence k + 1)"
  using issue_accept [OF assms(1-3)] assms(4) by metis

theorem issued_manifest_accepted_witness:
  "\<exists>sm m st. issue_manifest rfc_cbor demo_crypto [9] None [replicate 32 0] [] = Inr sm \<and>
     accept_manifest rfc_cbor demo_crypto sm (ed_public demo_crypto [9]) None = Inr (m, st) \<and>
     ms_sequence st = 1"
proof -
  obtain sm where sm: "issue_manifest rfc_cbor demo_crypto [9] None [replicate 32 0] [] = Inr sm"
    using demo_manifest_issued [of "replicate 32 0"] by auto
  show ?thesis
    using sm issued_manifest_accepted [OF rfc.cbor_codec_axioms demo_crypto_ok sm] by fastforce
qed

text \<open>C5. Whatever manifests a realm or a contact hands over, in whatever order, the state a
  client remembers never goes back to a lower sequence and never changes to a different
  manifest of the same sequence.\<close>

theorem manifest_state_never_rolls_back:
  assumes "manifest_run cb cr root known xs = Some before"
  shows "\<exists>after. manifest_run cb cr root known (xs @ ys) = Some after \<and>
    ms_sequence before \<le> ms_sequence after \<and> (ms_sequence before = ms_sequence after \<longrightarrow> after = before)"
  using manifest_run_mono [OF assms, of cb cr root ys] by (simp add: manifest_run_append assms)

theorem manifest_state_never_rolls_back_witness:
  "\<exists>sm st. manifest_run rfc_cbor demo_crypto (ed_public demo_crypto [9]) None ([sm] @ [[0], sm]) = Some st \<and>
     1 \<le> ms_sequence st"
proof -
  obtain sm where sm: "issue_manifest rfc_cbor demo_crypto [9] None [replicate 32 0] [] = Inr sm"
    using demo_manifest_issued [of "replicate 32 0"] by auto
  obtain m st where "accept_manifest rfc_cbor demo_crypto sm (ed_public demo_crypto [9]) None = Inr (m, st)"
    and seq: "ms_sequence st = 1"
    by (rule issue_accept [OF rfc.cbor_codec_axioms demo_crypto_ok sm]) auto
  then have "manifest_run rfc_cbor demo_crypto (ed_public demo_crypto [9]) None [sm] = Some st"
    by simp
  from manifest_state_never_rolls_back [OF this, of "[[0], sm]"] show ?thesis
    using seq by auto
qed

text \<open>C6. A claimed device is believed only when one root vouches for all of it: the accepted
  credential was signed by the claimed root, hashes to the claimed hash, names the claimed
  device and envelope key, allows both uses and is inside its window, and a manifest signed by
  the same root lists that hash as active. A second signed credential accepted for the same
  claim has the same bytes or is a collision of the hash.\<close>

theorem claimed_device_sound:
  assumes "verify_claimed_device cb cr claimed sc sm now = Inr c"
  shows "(\<exists>body. verify cb cr sc CREDENTIAL_CONTEXT (cd_root claimed) = Inr body \<and>
           decode_as cb (device_credential_from_value cb) body = Some c) \<and>
    credential_hash cr sc = cd_credential_hash claimed \<and>
    dc_device_id c = cd_device_id claimed \<and>
    dc_envelope_hpke_public_key c = cd_envelope_hpke_public_key claimed \<and>
    dc_allowed_uses c AND 5 = 5 \<and>
    not_before (dc_validity c) \<le> now \<and> now \<le> not_after (dc_validity c) \<and>
    (\<exists>m. verify_value cb cr (device_manifest_from_value cb) sm MANIFEST_CONTEXT (cd_root claimed) = Inr m \<and>
       dm_identity_id m = identity_id cr (cd_root claimed) \<and>
       cd_credential_hash claimed \<in> set (dm_active_credential_hashes m)) \<and>
    (\<forall>sc' sm' now' c'. verify_claimed_device cb cr claimed sc' sm' now' = Inr c' \<longrightarrow>
       id_hash cr CREDENTIAL_HASH_CONTEXT sc' = id_hash cr CREDENTIAL_HASH_CONTEXT sc)"
proof -
  have hash: "credential_hash cr s = cd_credential_hash claimed"
    if "verify_claimed_device cb cr claimed s t n = Inr d" for s t n d
    using that verify_credential_cases(3)
    by (fastforce simp: verify_claimed_device_def result_simps Let_def split: if_splits prod.splits)
  obtain v where v: "verify_credential cb cr sc (Some (cd_root claimed)) now = Inr v" and c: "c = vc_credential v"
    and fields: "dc_device_id c = cd_device_id claimed"
      "dc_envelope_hpke_public_key c = cd_envelope_hpke_public_key claimed"
      "dc_allowed_uses c AND (USE_MLS_LEAF OR USE_ENVELOPE) = (USE_MLS_LEAF OR USE_ENVELOPE)"
    and m: "\<exists>m st. accept_manifest cb cr sm (cd_root claimed) None = Inr (m, st) \<and>
      vc_hash v \<in> set (dm_active_credential_hashes m)"
    using assms by (auto simp: verify_claimed_device_def result_simps Let_def list_ex_iff split: if_splits prod.splits)
  note vc = verify_credential_cases [OF v]
  have uses: "dc_allowed_uses c AND 5 = 5"
    using fields(3) by (simp add: USE_MLS_LEAF_def USE_ENVELOPE_def)
  obtain m st where acc: "accept_manifest cb cr sm (cd_root claimed) None = Inr (m, st)"
    "vc_hash v \<in> set (dm_active_credential_hashes m)"
    using m by blast
  have h: "vc_hash v = cd_credential_hash claimed"
    using vc(3) hash [OF assms] by simp
  show ?thesis
    using vc(1,2,5) fields(1,2) uses h hash [OF assms] hash accept_manifest_cases(1,2) [OF acc(1)] acc(2)
    by (fastforce simp: c credential_hash_def)
qed

theorem claimed_device_sound_witness:
  "\<exists>claimed sc sm c. verify_claimed_device rfc_cbor demo_crypto claimed sc sm 15 = Inr c \<and>
     credential_hash demo_crypto sc = cd_credential_hash claimed"
  using demo_claim_verifies claimed_device_sound by blast

text \<open>An endpoint list is accepted only when the realm's key signed it for this realm, in a
  supported version, with at least one endpoint, and with a sequence above the highest one
  accepted so far.\<close>

theorem endpoint_list_sound:
  assumes "endpoint_list_verify cb cr sobj key expected known = Inr l"
  shows "verify_value cb cr (realm_endpoint_list_from_value cb) sobj ENDPOINT_CONTEXT key = Inr l \<and>
    el_version l = ENDPOINT_VERSION \<and> el_realm_id l = expected \<and> el_endpoints l \<noteq> [] \<and>
    (\<forall>k. known = Some k \<longrightarrow> k < el_sequence l) \<and>
    (\<exists>e. endpoint_list_verify cb cr sobj key expected (Some (el_sequence l)) = Inl e)"
  using assms by (auto simp: endpoint_list_verify_def result_simps not_le split: if_splits option.splits)

theorem endpoint_list_sound_witness:
  "\<exists>s l. endpoint_list_verify rfc_cbor demo_crypto s (ed_public demo_crypto [9]) [7] (Some 0) = Inr l \<and>
     0 < el_sequence l"
  using demo_endpoint_list_verifies endpoint_list_sound by blast

end
