(* ===== verification/Pairing.thy ===== *)
theory Pairing
  imports Text Identity
begin

text \<open>
  \<open>core/crates/arveil-core/src/pairing.rs\<close>: the pairing code a new device shows, the number
  both screens compare, and the messages of a link.

  Shown: a printed code parses back to itself, a parsed code is for the right realm exactly
  when \<open>check_realm\<close> accepts it, the compared number is two groups of four digits that
  determine the 26-bit value taken from the transcript hash, and the link messages survive
  their encoding.
\<close>

section \<open>Definitions\<close>

definition CODE_PREFIX :: string where "CODE_PREFIX = ''arveil-pair:v1''"
definition SLOT_HANDSHAKE_1 :: string where "SLOT_HANDSHAKE_1 = ''a''"
definition SLOT_HANDSHAKE_2 :: string where "SLOT_HANDSHAKE_2 = ''b''"
definition SLOT_GRANT :: string where "SLOT_GRANT = ''c''"
definition MAX_DESCRIPTION_BYTES :: nat where "MAX_DESCRIPTION_BYTES = 64"

datatype pairing_error = NotACode | BadField string | WrongRealm string string

record pairing_code =
  pc_realm_id :: bytes
  pc_pair_id :: bytes
  pc_capability :: bytes
  pc_static_public :: bytes

definition to_string_code :: "hex \<Rightarrow> pairing_code \<Rightarrow> string" where
  "to_string_code hx c =
     CODE_PREFIX @ '':'' @ hex_encode hx (pc_realm_id c) @ '':'' @ hex_encode hx (pc_pair_id c) @
     '':'' @ hex_encode hx (pc_capability c) @ '':'' @ hex_encode hx (pc_static_public c)"

definition pairing_code_parse :: "hex \<Rightarrow> string \<Rightarrow> pairing_error + pairing_code" where
  "pairing_code_parse hx s =
     (let parts = split_on (CHR '':'') (trim s);
          field = (\<lambda>i name. ok_or (hex_decode hx (parts ! i)) (BadField name)) in
      if length parts \<noteq> 6 \<or> parts ! 0 \<noteq> ''arveil-pair'' \<or> parts ! 1 \<noteq> ''v1'' then Inl NotACode
      else and_then (field 2 ''realm id'') (\<lambda>a.
           and_then (field 3 ''pair id'') (\<lambda>b.
           and_then (field 4 ''capability'') (\<lambda>c.
           and_then (field 5 ''static key'') (\<lambda>d.
           Inr \<lparr>pc_realm_id = a, pc_pair_id = b, pc_capability = c, pc_static_public = d\<rparr>)))))"

definition check_realm :: "hex \<Rightarrow> pairing_code \<Rightarrow> bytes \<Rightarrow> pairing_error + unit" where
  "check_realm hx c known =
     (if pc_realm_id c \<noteq> known then Inl (WrongRealm (hex_encode hx (pc_realm_id c)) (hex_encode hx known))
      else Inr ())"

definition sas_number :: "crypto \<Rightarrow> bytes \<Rightarrow> u32" where
  "sas_number cr handshake_hash =
     (let d = sha256 cr (bytes_of_string ''arveil/pair-sas/v1'' @ handshake_hash) in
      u32_from_be_bytes (d ! 0) (d ! 1) (d ! 2) (d ! 3) mod 100000000)"

definition short_authentication_string :: "crypto \<Rightarrow> bytes \<Rightarrow> string" where
  "short_authentication_string cr handshake_hash =
     (let n = sas_number cr handshake_hash in
      zero_pad 4 (decimal (unat (n div 10000))) @ ''-'' @ zero_pad 4 (decimal (unat (n mod 10000))))"

record paired_device_keys =
  pk_device_id :: bytes
  pk_mls_signature_public_key :: bytes
  pk_transport_noise_public_key :: bytes
  pk_envelope_hpke_public_key :: bytes

definition paired_keys_of :: "device_public_keys \<Rightarrow> paired_device_keys" where
  "paired_keys_of d =
     \<lparr>pk_device_id = dp_device_id d, pk_mls_signature_public_key = dp_mls_signature_public_key d,
      pk_transport_noise_public_key = dp_transport_noise_public_key d,
      pk_envelope_hpke_public_key = dp_envelope_hpke_public_key d\<rparr>"

definition public_keys_of :: "paired_device_keys \<Rightarrow> device_public_keys" where
  "public_keys_of p =
     \<lparr>dp_device_id = pk_device_id p, dp_mls_signature_public_key = pk_mls_signature_public_key p,
      dp_transport_noise_public_key = pk_transport_noise_public_key p,
      dp_envelope_hpke_public_key = pk_envelope_hpke_public_key p\<rparr>"

definition paired_device_keys_fields :: "paired_device_keys \<Rightarrow> (string \<times> value) list" where
  "paired_device_keys_fields k =
     [(''device_id'', VBytes (pk_device_id k)),
      (''mls_signature_public_key'', VBytes (pk_mls_signature_public_key k)),
      (''transport_noise_public_key'', VBytes (pk_transport_noise_public_key k)),
      (''envelope_hpke_public_key'', VBytes (pk_envelope_hpke_public_key k))]"

definition paired_device_keys_from_value :: "cbor \<Rightarrow> value \<Rightarrow> paired_device_keys option" where
  "paired_device_keys_from_value cb v =
     do { fs \<leftarrow> de_fields cb v;
          a \<leftarrow> get_field (de_bytes cb) fs ''device_id'';
          b \<leftarrow> get_field (de_bytes cb) fs ''mls_signature_public_key'';
          c \<leftarrow> get_field (de_bytes cb) fs ''transport_noise_public_key'';
          d \<leftarrow> get_field (de_bytes cb) fs ''envelope_hpke_public_key'';
          Some \<lparr>pk_device_id = a, pk_mls_signature_public_key = b, pk_transport_noise_public_key = c,
                pk_envelope_hpke_public_key = d\<rparr> }"

record pairing_grant =
  pg_credential :: bytes
  pg_manifest :: bytes
  pg_root_public :: bytes

definition pairing_grant_fields :: "pairing_grant \<Rightarrow> (string \<times> value) list" where
  "pairing_grant_fields g =
     [(''credential'', VBytes (pg_credential g)), (''manifest'', VBytes (pg_manifest g)),
      (''root_public'', VBytes (pg_root_public g))]"

definition pairing_grant_from_value :: "cbor \<Rightarrow> value \<Rightarrow> pairing_grant option" where
  "pairing_grant_from_value cb v =
     do { fs \<leftarrow> de_fields cb v;
          a \<leftarrow> get_field (de_bytes cb) fs ''credential'';
          b \<leftarrow> get_field (de_bytes cb) fs ''manifest'';
          c \<leftarrow> get_field (de_bytes cb) fs ''root_public'';
          Some \<lparr>pg_credential = a, pg_manifest = b, pg_root_public = c\<rparr> }"

record link_hello =
  lh_keys :: paired_device_keys
  lh_description :: "string option"

definition link_hello_fields :: "link_hello \<Rightarrow> (string \<times> value) list" where
  "link_hello_fields h =
     (''keys'', struct (paired_device_keys_fields (lh_keys h))) #
     (case lh_description h of None \<Rightarrow> [] | Some d \<Rightarrow> [(''description'', VText d)])"

definition link_hello_from_value :: "cbor \<Rightarrow> value \<Rightarrow> link_hello option" where
  "link_hello_from_value cb v =
     do { fs \<leftarrow> de_fields cb v;
          a \<leftarrow> get_field (paired_device_keys_from_value cb) fs ''keys'';
          b \<leftarrow> get_default None (de_option cb (de_text cb)) fs ''description'';
          Some \<lparr>lh_keys = a, lh_description = b\<rparr> }"

datatype link_answer = Granted pairing_grant | Declined

definition link_answer_to_value :: "link_answer \<Rightarrow> value" where
  "link_answer_to_value a =
     (case a of Granted g \<Rightarrow> struct_variant ''Granted'' (struct (pairing_grant_fields g))
      | Declined \<Rightarrow> unit_variant ''Declined'')"

definition link_answer_from_value :: "cbor \<Rightarrow> value \<Rightarrow> link_answer option" where
  "link_answer_from_value cb v =
     do { (tag, content) \<leftarrow> de_enum cb v;
          if tag = ''Granted'' then do { body \<leftarrow> content; g \<leftarrow> pairing_grant_from_value cb body; Some (Granted g) }
          else if tag = ''Declined'' then if de_unit cb content then Some Declined else None
          else None }"

section \<open>Lemmas\<close>

lemma to_string_code_join:
  "to_string_code hx c = join_with '':''
     [''arveil-pair'', ''v1'', hex_encode hx (pc_realm_id c), hex_encode hx (pc_pair_id c),
      hex_encode hx (pc_capability c), hex_encode hx (pc_static_public c)]"
  by (simp add: to_string_code_def CODE_PREFIX_def)

lemma hex_string:
  assumes "hex_ok hx"
  shows "ascii (hex_encode hx b)" and "CHR '':'' \<notin> set (hex_encode hx b)"
    and "hex_encode hx b = [] \<or> \<not> is_whitespace [last (hex_encode hx b)]"
proof -
  have h: "hex_char c" if "c \<in> set (hex_encode hx b)" for c
    using assms that by (auto simp: hex_ok_def list_all_iff)
  show "ascii (hex_encode hx b)"
    using h hex_chars(1) by (auto simp: ascii_def list_all_iff char_code_def)
  show "CHR '':'' \<notin> set (hex_encode hx b)"
    using h hex_chars(3) by blast
  show "hex_encode hx b = [] \<or> \<not> is_whitespace [last (hex_encode hx b)]"
    using h hex_chars(2) last_in_set by blast
qed

lemma to_string_code_trim:
  assumes "hex_ok hx"
  shows "trim (to_string_code hx c) = to_string_code hx c"
proof (rule trim_ascii_id)
  show "ascii (to_string_code hx c)"
    using hex_string(1) [OF assms] by (simp add: to_string_code_def CODE_PREFIX_def ascii_def)
  have "\<not> is_whitespace [last (to_string_code hx c)]"
    using hex_string(3) [OF assms, of "pc_static_public c"]
    by (auto simp: to_string_code_def CODE_PREFIX_def is_whitespace_def char_code_def)
  moreover have "\<not> is_whitespace [hd (to_string_code hx c)]"
    by (simp add: to_string_code_def CODE_PREFIX_def is_whitespace_def char_code_def)
  ultimately show "to_string_code hx c = [] \<or>
      \<not> is_whitespace [hd (to_string_code hx c)] \<and> \<not> is_whitespace [last (to_string_code hx c)]"
    by blast
qed

lemma code_roundtrip: "hex_ok hx \<Longrightarrow> pairing_code_parse hx (to_string_code hx c) = Inr c"
proof -
  assume ok: "hex_ok hx"
  have "split_on (CHR '':'') (to_string_code hx c) =
     [''arveil-pair'', ''v1'', hex_encode hx (pc_realm_id c), hex_encode hx (pc_pair_id c),
      hex_encode hx (pc_capability c), hex_encode hx (pc_static_public c)]"
    unfolding to_string_code_join
    by (rule split_on_join) (use hex_string(2) [OF ok] in simp_all)
  then show ?thesis
    using ok unfolding pairing_code_parse_def to_string_code_trim [OF ok]
    by (simp add: hex_ok_def)
qed

lemma length_decimal: "n < 10 ^ Suc k \<Longrightarrow> length (decimal n) \<le> Suc k"
proof (induction k arbitrary: n)
  case 0
  then show ?case by (subst decimal.simps) simp
next
  case (Suc k)
  have "n div 10 < 10 ^ Suc k" using Suc.prems by auto
  then show ?case using Suc.IH by (subst decimal.simps) simp
qed

lemma decimal_digits: "c \<in> set (decimal n) \<Longrightarrow> 48 \<le> char_code c \<and> char_code c \<le> 57"
proof (induction n rule: decimal.induct)
  case (1 n)
  show ?case
  proof (cases "n < 10")
    case True
    then show ?thesis using 1(2) by (subst (asm) decimal.simps) (simp add: digit_def char_code_char_of)
  next
    case False
    then have "c \<in> set (decimal (n div 10)) \<or> c = digit (n mod 10)"
      using 1(2) by (subst (asm) decimal.simps) auto
    moreover have "char_code (digit (n mod 10)) = 48 + n mod 10"
      by (simp add: digit_def char_code_char_of)
    ultimately show ?thesis using 1(1) False by auto
  qed
qed

text \<open>The value of a string of digits.\<close>

definition digits_value :: "string \<Rightarrow> nat" where
  "digits_value s = foldl (\<lambda>a c. 10 * a + (char_code c - 48)) 0 s"

lemma digits_value_decimal: "digits_value (decimal n) = n"
proof (induction n rule: decimal.induct)
  case (1 n)
  show ?case
  proof (cases "n < 10")
    case True
    then show ?thesis by (subst decimal.simps) (simp add: digits_value_def digit_def char_code_char_of)
  next
    case False
    then have "digits_value (decimal (n div 10)) = n div 10" using 1 by simp
    then show ?thesis
      using False by (subst decimal.simps) (simp add: digits_value_def digit_def char_code_char_of)
  qed
qed

lemma foldl_zeros: "foldl (\<lambda>a c. 10 * a + (char_code c - 48)) 0 (replicate k (CHR ''0'')) = 0"
  by (induction k) (simp_all add: char_code_def)

lemma digits_value_zero_pad: "digits_value (zero_pad w (decimal n)) = n"
  using digits_value_decimal [of n] by (simp add: digits_value_def zero_pad_def foldl_zeros)

lemma group_shape:
  assumes "n < 10000"
  shows "length (zero_pad 4 (decimal n)) = 4"
    and "list_all (\<lambda>c. 48 \<le> char_code c \<and> char_code c \<le> 57) (zero_pad 4 (decimal n))"
proof -
  show "length (zero_pad 4 (decimal n)) = 4"
    using length_decimal [of n 3] assms by (simp add: zero_pad_def)
  show "list_all (\<lambda>c. 48 \<le> char_code c \<and> char_code c \<le> 57) (zero_pad 4 (decimal n))"
    using decimal_digits [of _ n] by (auto simp: zero_pad_def list_all_iff char_code_def)
qed

context cbor_codec begin

lemma paired_device_keys_roundtrip:
  "paired_device_keys_from_value cb (sort_maps cb (struct (paired_device_keys_fields k))) = Some k"
  unfolding paired_device_keys_from_value_def
  by (rule sorted_struct_cases [of "paired_device_keys_fields k"])
    (simp add: sorted_field paired_device_keys_fields_def wire_simps)

lemma pairing_grant_roundtrip:
  "pairing_grant_from_value cb (sort_maps cb (struct (pairing_grant_fields g))) = Some g"
  unfolding pairing_grant_from_value_def
  by (rule sorted_struct_cases [of "pairing_grant_fields g"])
    (simp add: sorted_field pairing_grant_fields_def wire_simps)

lemma link_answer_roundtrip: "link_answer_from_value cb (sort_maps cb (link_answer_to_value a)) = Some a"
  by (cases a) (simp_all add: link_answer_from_value_def link_answer_to_value_def de_enum_struct de_enum_unit
      de_unit_none pairing_grant_roundtrip)

lemma link_hello_roundtrip: "link_hello_from_value cb (sort_maps cb (struct (link_hello_fields h))) = Some h"
proof -
  obtain gs where d: "de_fields cb (sort_maps cb (struct (link_hello_fields h))) = Some gs"
    and f: "\<And>k. field gs k = map_option (sort_maps cb) (field (link_hello_fields h) k)"
    and o: "\<And>k. opt_field gs k = map_option (map_option (sort_maps cb)) (opt_field (link_hello_fields h) k)"
    using de_fields_sorted_struct [of "link_hello_fields h"] by blast
  have "get_default None (de_option cb (de_text cb)) gs ''description'' = Some (lh_description h)"
    by (cases "lh_description h") (simp_all add: sorted_default [OF o] link_hello_fields_def wire_simps)
  moreover have "get_field (paired_device_keys_from_value cb) gs ''keys'' = Some (lh_keys h)"
    by (cases "lh_description h")
      (simp_all add: sorted_field [OF f] link_hello_fields_def wire_simps paired_device_keys_roundtrip)
  ultimately show ?thesis
    by (simp add: link_hello_from_value_def d)
qed

end

section \<open>Properties\<close>

text \<open>A pairing code survives printing and parsing, and \<open>check_realm\<close> lets it through for
  exactly one realm.\<close>

theorem pairing_code_roundtrip:
  assumes "hex_ok hx"
  shows "pairing_code_parse hx (to_string_code hx c) = Inr c \<and>
    (check_realm hx c known = Inr () \<longleftrightarrow> known = pc_realm_id c)"
  using code_roundtrip [OF assms] by (auto simp: check_realm_def)

theorem pairing_code_roundtrip_witness:
  "hex_ok base16 \<and>
   (let c = \<lparr>pc_realm_id = [1, 171], pc_pair_id = [], pc_capability = [3], pc_static_public = [255]\<rparr> in
    pairing_code_parse base16 (to_string_code base16 c) = Inr c)"
  using base16_ok pairing_code_roundtrip [OF base16_ok,
      of "\<lparr>pc_realm_id = [1, 171], pc_pair_id = [], pc_capability = [3], pc_static_public = [255]\<rparr>"]
  by (simp add: Let_def)

text \<open>The number both screens show is two groups of four decimal digits, and the digits are
  exactly the value the transcript hash gives: equal numbers mean equal values below
  100000000.\<close>

theorem sas_shape:
  "\<exists>a b. short_authentication_string cr hh = a @ ''-'' @ b \<and> length a = 4 \<and> length b = 4 \<and>
     list_all (\<lambda>c. 48 \<le> char_code c \<and> char_code c \<le> 57) (a @ b) \<and>
     digits_value a * 10000 + digits_value b = unat (sas_number cr hh) \<and>
     unat (sas_number cr hh) < 100000000"
proof -
  let ?n = "sas_number cr hh"
  have lt: "unat ?n < 100000000"
    by (simp add: sas_number_def unat_mod Let_def)
  have d: "unat (?n div 10000) = unat ?n div 10000" and m: "unat (?n mod 10000) = unat ?n mod 10000"
    by (simp_all add: unat_div unat_mod)
  have "unat (?n div 10000) < 10000" "unat (?n mod 10000) < 10000"
    using lt by (simp_all add: d m)
  note g = this [THEN group_shape(1)] this [THEN group_shape(2)]
  have "digits_value (zero_pad 4 (decimal (unat (?n div 10000)))) * 10000 +
      digits_value (zero_pad 4 (decimal (unat (?n mod 10000)))) = unat ?n"
    by (simp add: digits_value_zero_pad d m)
  then show ?thesis
    using g lt by (intro exI conjI) (simp_all add: short_authentication_string_def Let_def)
qed

text \<open>The messages of a link decode to what was encoded: the hello with and without a
  description, and both answers.\<close>

theorem link_messages_roundtrip:
  assumes "cbor_codec cb"
  shows "link_hello_from_value cb (sort_maps cb (struct (link_hello_fields h))) = Some h \<and>
    link_answer_from_value cb (sort_maps cb (link_answer_to_value a)) = Some a \<and>
    public_keys_of (paired_keys_of d) = d"
  using cbor_codec.link_hello_roundtrip [OF assms] cbor_codec.link_answer_roundtrip [OF assms]
  by (simp add: public_keys_of_def paired_keys_of_def)

theorem link_messages_roundtrip_witness:
  "cbor_codec rfc_cbor \<and>
   link_answer_from_value rfc_cbor (sort_maps rfc_cbor (link_answer_to_value Declined)) = Some Declined"
  using rfc.cbor_codec_axioms link_messages_roundtrip [OF rfc.cbor_codec_axioms] by blast

end
