(* ===== verification/Attachments.thy ===== *)
theory Attachments
  imports Text
begin

text \<open>
  \<open>core/crates/arveil-core/src/attachments.rs\<close>: whole-file encryption, the descriptor that
  travels inside MLS, and the file name a received file is written under.

  AES-256-GCM of the crate \<open>aes_gcm\<close> is the record \<open>aead\<close>; \<open>aead_ok\<close> is its correctness: what
  is encrypted under a key, nonce and associated data decrypts to the same message, and the
  tag takes 16 bytes. Key and nonce, which \<open>encrypt\<close> draws at random, are arguments.

  Shown: an encrypted file decrypts with its descriptor and the descriptor survives its
  encoding, nothing is decrypted whose hash is not the descriptor's, and what a file name is
  reduced to before it touches a directory.
\<close>

section \<open>Definitions\<close>

definition ATTACHMENT_VERSION :: u8 where "ATTACHMENT_VERSION = 1"
definition MAX_FILE_BYTES :: nat where "MAX_FILE_BYTES = 25 * 1024 * 1024"
definition FILE_AAD :: bytes where "FILE_AAD = bytes_of_string ''arveil/file/v1''"

datatype attachment_error =
    FileTooLarge nat
  | AttRandom
  | AttEncrypt
  | HashMismatch
  | AttAuthentication
  | AttDescriptor "u8 option"

record aead =
  aead_encrypt :: "bytes \<Rightarrow> bytes \<Rightarrow> bytes \<Rightarrow> bytes \<Rightarrow> bytes option"
  aead_decrypt :: "bytes \<Rightarrow> bytes \<Rightarrow> bytes \<Rightarrow> bytes \<Rightarrow> bytes option"

definition aead_ok :: "aead \<Rightarrow> bool" where
  "aead_ok ae \<longleftrightarrow>
     (\<forall>k n a m. length k = 32 \<and> length n = 12 \<and> length m \<le> MAX_FILE_BYTES \<longrightarrow>
        (\<exists>c. aead_encrypt ae k n a m = Some c \<and> aead_decrypt ae k n a c = Some m \<and>
             length c = length m + 16))"

record file_descriptor =
  fd_version :: u8
  fd_blob_id :: bytes
  fd_read_capability :: bytes
  fd_file_key :: bytes
  fd_nonce :: bytes
  fd_ciphertext_hash :: bytes
  fd_size :: u64
  fd_name :: string
  fd_mime :: string

definition file_descriptor_fields :: "file_descriptor \<Rightarrow> (string \<times> value) list" where
  "file_descriptor_fields d =
     [(''version'', v_uint (fd_version d)), (''blob_id'', VBytes (fd_blob_id d)),
      (''read_capability'', VBytes (fd_read_capability d)), (''file_key'', VBytes (fd_file_key d)),
      (''nonce'', VBytes (fd_nonce d)), (''ciphertext_hash'', VBytes (fd_ciphertext_hash d)),
      (''size'', v_uint (fd_size d)), (''name'', VText (fd_name d)), (''mime'', VText (fd_mime d))]"

definition file_descriptor_from_value :: "cbor \<Rightarrow> value \<Rightarrow> file_descriptor option" where
  "file_descriptor_from_value cb v =
     do { fs \<leftarrow> de_fields cb v;
          a \<leftarrow> get_field (de_u8 cb) fs ''version'';
          b \<leftarrow> get_field (de_bytes cb) fs ''blob_id'';
          c \<leftarrow> get_field (de_bytes cb) fs ''read_capability'';
          d \<leftarrow> get_field (de_bytes cb) fs ''file_key'';
          e \<leftarrow> get_field (de_bytes cb) fs ''nonce'';
          f \<leftarrow> get_field (de_bytes cb) fs ''ciphertext_hash'';
          g \<leftarrow> get_field (de_u64 cb) fs ''size'';
          h \<leftarrow> get_field (de_text cb) fs ''name'';
          i \<leftarrow> get_field (de_text cb) fs ''mime'';
          Some \<lparr>fd_version = a, fd_blob_id = b, fd_read_capability = c, fd_file_key = d, fd_nonce = e,
                fd_ciphertext_hash = f, fd_size = g, fd_name = h, fd_mime = i\<rparr> }"

definition descriptor_encode :: "cbor \<Rightarrow> file_descriptor \<Rightarrow> attachment_error + bytes" where
  "descriptor_encode cb d =
     map_err (\<lambda>_. AttDescriptor None) (signed_canonical cb (struct (file_descriptor_fields d)))"

definition descriptor_decode :: "cbor \<Rightarrow> bytes \<Rightarrow> attachment_error + file_descriptor" where
  "descriptor_decode cb bs =
     and_then (ok_or (decode_as cb (file_descriptor_from_value cb) bs) (AttDescriptor None)) (\<lambda>d.
     if fd_version d \<noteq> ATTACHMENT_VERSION then Inl (AttDescriptor (Some (fd_version d))) else Inr d)"

text \<open>The last piece between separators, which is what \<open>rsplit\<close> yields first.\<close>

definition is_separator :: "char \<Rightarrow> bool" where
  "is_separator c \<longleftrightarrow> c = CHR ''/'' \<or> char_code c = 92"

definition base_name :: "string \<Rightarrow> string" where
  "base_name s = rev (takeWhile (\<lambda>c. \<not> is_separator c) (rev s))"

definition safe_name :: "file_descriptor \<Rightarrow> string" where
  "safe_name d =
     (let base = concat (take 120 (filter (\<lambda>c. \<not> is_control c)
                   (chars (dropWhile (\<lambda>c. c = CHR ''.'') (base_name (fd_name d))))))
      in if base = [] then ''file'' else base)"

record encrypted =
  en_file_key :: bytes
  en_nonce :: bytes
  en_ciphertext :: bytes
  en_ciphertext_hash :: bytes

definition encrypt_with :: "crypto \<Rightarrow> aead \<Rightarrow> bytes \<Rightarrow> bytes \<Rightarrow> bytes \<Rightarrow> attachment_error + encrypted" where
  "encrypt_with cr ae file_key nonce plaintext =
     (if length plaintext > MAX_FILE_BYTES then Inl (FileTooLarge (length plaintext))
      else if length nonce \<noteq> 12 then Inl AttEncrypt
      else if length file_key \<noteq> 32 then Inl AttEncrypt
      else and_then (ok_or (aead_encrypt ae file_key nonce FILE_AAD plaintext) AttEncrypt) (\<lambda>ciphertext.
        Inr \<lparr>en_file_key = file_key, en_nonce = nonce, en_ciphertext = ciphertext,
             en_ciphertext_hash = sha256 cr ciphertext\<rparr>))"

text \<open>The two draws of the source: \<open>None\<close> is a failing source of randomness.\<close>

definition encrypt :: "crypto \<Rightarrow> aead \<Rightarrow> bytes option \<Rightarrow> bytes option \<Rightarrow> bytes \<Rightarrow> attachment_error + encrypted" where
  "encrypt cr ae key_draw nonce_draw plaintext =
     and_then (ok_or key_draw AttRandom) (\<lambda>file_key.
     and_then (ok_or nonce_draw AttRandom) (\<lambda>nonce.
     encrypt_with cr ae file_key nonce plaintext))"

definition decrypt :: "crypto \<Rightarrow> aead \<Rightarrow> file_descriptor \<Rightarrow> bytes \<Rightarrow> attachment_error + bytes" where
  "decrypt cr ae d ciphertext =
     (if sha256 cr ciphertext \<noteq> fd_ciphertext_hash d then Inl HashMismatch
      else if length (fd_file_key d) \<noteq> 32 then Inl AttAuthentication
      else if length (fd_nonce d) \<noteq> 12 then Inl AttAuthentication
      else ok_or (aead_decrypt ae (fd_file_key d) (fd_nonce d) FILE_AAD ciphertext) AttAuthentication)"

section \<open>Lemmas\<close>

context cbor_codec begin

lemma file_descriptor_roundtrip:
  "file_descriptor_from_value cb (sort_maps cb (struct (file_descriptor_fields d))) = Some d"
  unfolding file_descriptor_from_value_def
  by (rule sorted_struct_cases [of "file_descriptor_fields d"])
    (simp add: sorted_field file_descriptor_fields_def wire_simps)

lemma descriptor_decodes:
  assumes "descriptor_encode cb d = Inr b" and "utf8 (fd_name d)" and "utf8 (fd_mime d)"
    and "fd_version d = ATTACHMENT_VERSION"
  shows "descriptor_decode cb b = Inr d"
proof -
  have wf: "wf_value 16 (struct (file_descriptor_fields d))"
    using assms(2,3) by (simp add: file_descriptor_fields_def struct_def wf_value_numeral wf_v_uint_numeral
        ascii_utf8 ascii_def)
  have "canonical cb (struct (file_descriptor_fields d)) = Some b"
    using assms(1) by (auto simp: descriptor_encode_def signed_canonical_def result_simps)
  then have "from_reader cb b = Some (sort_maps cb (struct (file_descriptor_fields d)))"
    using wf by (simp add: canonical_decodes)
  then show ?thesis
    using assms(4) by (simp add: descriptor_decode_def decode_as_def file_descriptor_roundtrip)
qed

end

lemma encrypt_decrypt:
  assumes "aead_ok ae" and "encrypt_with cr ae k n m = Inr e"
  shows "\<lbrakk>fd_file_key d = en_file_key e; fd_nonce d = en_nonce e;
      fd_ciphertext_hash d = en_ciphertext_hash e\<rbrakk> \<Longrightarrow> decrypt cr ae d (en_ciphertext e) = Inr m"
proof -
  have l: "length k = 32" "length n = 12" "length m \<le> MAX_FILE_BYTES"
    and c: "aead_encrypt ae k n FILE_AAD m = Some (en_ciphertext e)"
    and e: "en_file_key e = k" "en_nonce e = n" "en_ciphertext_hash e = sha256 cr (en_ciphertext e)"
    using assms(2) by (auto simp: encrypt_with_def result_simps split: if_splits)
  have "aead_decrypt ae k n FILE_AAD (en_ciphertext e) = Some m"
    using assms(1) l c unfolding aead_ok_def by (metis option.inject)
  then show "\<lbrakk>fd_file_key d = en_file_key e; fd_nonce d = en_nonce e;
      fd_ciphertext_hash d = en_ciphertext_hash e\<rbrakk> \<Longrightarrow> decrypt cr ae d (en_ciphertext e) = Inr m"
    by (simp add: decrypt_def e l)
qed

lemma set_base_name: "c \<in> set (base_name s) \<Longrightarrow> \<not> is_separator c"
  by (auto simp: base_name_def dest: set_takeWhileD)

lemma set_chars_concat: "g \<in> set (chars s) \<Longrightarrow> set g \<subseteq> set s"
  by (metis concat_chars UN_I set_concat subsetI)

lemma chars_nonempty: "g \<in> set (chars s) \<Longrightarrow> g \<noteq> []"
  by (induction s rule: chars.induct) auto

lemma chars_hd: "s \<noteq> [] \<Longrightarrow> \<exists>g gs. chars s = g # gs \<and> hd g = hd s"
  by (cases s) auto

text \<open>The characters a safe name is made of, when anything is left.\<close>

definition name_chars :: "file_descriptor \<Rightarrow> string list" where
  "name_chars d = take 120 (filter (\<lambda>c. \<not> is_control c)
     (chars (dropWhile (\<lambda>c. c = CHR ''.'') (base_name (fd_name d)))))"

lemma name_chars_concat: "concat (name_chars d) = [] \<longleftrightarrow> name_chars d = []"
proof -
  have "g \<noteq> []" if "g \<in> set (name_chars d)" for g
    using that chars_nonempty [of "[]"] by (auto simp: name_chars_def dest!: in_set_takeD)
  then show ?thesis
    by (cases "name_chars d") auto
qed

lemma safe_name_alt: "safe_name d = (if name_chars d = [] then ''file'' else concat (name_chars d))"
  unfolding safe_name_def name_chars_def [symmetric] Let_def by (simp only: name_chars_concat)

lemma name_chars_no_separator: "g \<in> set (name_chars d) \<Longrightarrow> c \<in> set g \<Longrightarrow> \<not> is_separator c"
proof -
  let ?s = "dropWhile (\<lambda>c. c = CHR ''.'') (base_name (fd_name d))"
  assume "g \<in> set (name_chars d)" and c: "c \<in> set g"
  then have "g \<in> set (chars ?s)"
    by (auto simp: name_chars_def dest: in_set_takeD)
  then have "c \<in> set (base_name (fd_name d))"
    using set_chars_concat c set_dropWhileD by fast
  then show ?thesis by (rule set_base_name)
qed

lemma name_chars_no_dot:
  assumes "\<forall>g \<in> set (chars (dropWhile (\<lambda>c. c = CHR ''.'') (base_name (fd_name d)))). \<not> is_control g"
    and "name_chars d \<noteq> []"
  shows "hd (concat (name_chars d)) \<noteq> CHR ''.''"
proof -
  define s where "s = dropWhile (\<lambda>c. c = CHR ''.'') (base_name (fd_name d))"
  have n: "name_chars d = take 120 (chars s)"
    using assms(1) by (simp add: name_chars_def s_def [symmetric] filter_True)
  then have "s \<noteq> []" using assms(2) by auto
  then obtain g gs where g: "chars s = g # gs" "hd g = hd s" "g \<noteq> []"
    using chars_hd chars_nonempty by (metis list.set_intros(1))
  moreover have "hd s \<noteq> CHR ''.''"
    using \<open>s \<noteq> []\<close> hd_dropWhile unfolding s_def by blast
  ultimately show ?thesis
    by (simp add: n)
qed

text \<open>A cipher for the witnesses, with no secrecy: the message and a tag made of the key.\<close>

definition demo_aead :: aead where
  "demo_aead =
     \<lparr>aead_encrypt = (\<lambda>k n a m. Some (m @ fit 16 k)),
      aead_decrypt = (\<lambda>k n a c. if length c < 16 \<or> drop (length c - 16) c \<noteq> fit 16 k then None
                              else Some (take (length c - 16) c))\<rparr>"

lemma demo_aead_ok: "aead_ok demo_aead"
  by (simp add: aead_ok_def demo_aead_def)

definition demo_descriptor :: file_descriptor where
  "demo_descriptor =
     \<lparr>fd_version = 1, fd_blob_id = [1], fd_read_capability = [2], fd_file_key = replicate 32 0,
      fd_nonce = replicate 12 0, fd_ciphertext_hash = fit 32 (rev ([7] @ fit 16 (replicate 32 0))), fd_size = 1,
      fd_name = ''a.txt'', fd_mime = ''text''\<rparr>"

section \<open>Properties\<close>

text \<open>A file within the limit that is encrypted with a 32-byte key and a 12-byte nonce
  decrypts to itself with any descriptor that carries the key, the nonce and the hash, and
  that descriptor survives its own encoding.\<close>

theorem attachment_roundtrip:
  assumes "cbor_codec cb" and "aead_ok ae"
    and "length k = 32" and "length n = 12" and "length m \<le> MAX_FILE_BYTES"
    and "utf8 (fd_name d)" and "utf8 (fd_mime d)" and "fd_version d = ATTACHMENT_VERSION"
  shows "\<exists>e. encrypt_with cr ae k n m = Inr e \<and>
    (let d' = d\<lparr>fd_file_key := en_file_key e, fd_nonce := en_nonce e, fd_ciphertext_hash := en_ciphertext_hash e\<rparr> in
     decrypt cr ae d' (en_ciphertext e) = Inr m \<and>
     (\<forall>b. descriptor_encode cb d' = Inr b \<longrightarrow> descriptor_decode cb b = Inr d'))"
proof -
  obtain c where c: "aead_encrypt ae k n FILE_AAD m = Some c"
    using assms(2-5) unfolding aead_ok_def by blast
  define e where "e = \<lparr>en_file_key = k, en_nonce = n, en_ciphertext = c, en_ciphertext_hash = sha256 cr c\<rparr>"
  have e: "encrypt_with cr ae k n m = Inr e"
    using assms(3-5) c by (simp add: encrypt_with_def e_def)
  show ?thesis
    using e encrypt_decrypt [OF assms(2) e] cbor_codec.descriptor_decodes [OF assms(1)] assms(6-8)
    by (simp add: Let_def)
qed

theorem attachment_roundtrip_witness:
  "aead_ok demo_aead \<and>
   (\<exists>e. encrypt_with demo_crypto demo_aead (replicate 32 0) (replicate 12 0) [7] = Inr e)"
proof -
  have u: "utf8 (fd_name demo_descriptor)" "utf8 (fd_mime demo_descriptor)"
    by (simp_all add: demo_descriptor_def ascii_utf8 ascii_def)
  have v: "fd_version demo_descriptor = ATTACHMENT_VERSION"
    by (simp add: demo_descriptor_def ATTACHMENT_VERSION_def)
  have l: "length (replicate 32 (0 :: u8)) = 32" "length (replicate 12 (0 :: u8)) = 12"
    "length [7 :: u8] \<le> MAX_FILE_BYTES"
    by (simp_all add: MAX_FILE_BYTES_def)
  show ?thesis
    using attachment_roundtrip [OF rfc.cbor_codec_axioms demo_aead_ok l u v, of demo_crypto] demo_aead_ok by blast
qed

text \<open>Nothing is decrypted but what the descriptor names: a ciphertext that decrypts has the
  descriptor's hash and passed authentication under the descriptor's key and nonce; any other
  accepted ciphertext has the same hash.\<close>

theorem decrypt_checks_hash:
  assumes "decrypt cr ae d c = Inr m"
  shows "sha256 cr c = fd_ciphertext_hash d \<and>
    aead_decrypt ae (fd_file_key d) (fd_nonce d) FILE_AAD c = Some m \<and>
    (\<forall>c' m'. decrypt cr ae d c' = Inr m' \<longrightarrow> sha256 cr c' = sha256 cr c)"
  using assms by (auto simp: decrypt_def result_simps split: if_splits)

theorem decrypt_checks_hash_witness:
  "decrypt demo_crypto demo_aead demo_descriptor ([7] @ fit 16 (replicate 32 0)) = Inr [7] \<and>
   sha256 demo_crypto ([7] @ fit 16 (replicate 32 0)) = fd_ciphertext_hash demo_descriptor"
proof -
  have d: "decrypt demo_crypto demo_aead demo_descriptor ([7] @ fit 16 (replicate 32 0)) = Inr [7]"
    by (simp add: decrypt_def demo_crypto_def demo_aead_def demo_descriptor_def)
  show ?thesis
    using d decrypt_checks_hash [OF d] by blast
qed

text \<open>The name a received file is stored under is never empty, contains no path separator,
  is at most 120 characters long, none of them a control character, and does not start with a
  dot when the base name contains no control character.\<close>

theorem safe_name_safe:
  "safe_name d \<noteq> [] \<and> (\<forall>c \<in> set (safe_name d). \<not> is_separator c) \<and>
   (\<exists>gs. safe_name d = concat gs \<and> length gs \<le> 120 \<and> list_all (\<lambda>g. \<not> is_control g) gs) \<and>
   ((\<forall>g \<in> set (chars (dropWhile (\<lambda>c. c = CHR ''.'') (base_name (fd_name d)))). \<not> is_control g) \<longrightarrow>
     hd (safe_name d) \<noteq> CHR ''.'')"
proof (cases "name_chars d = []")
  case True
  have f: "\<forall>c \<in> set ''file''. \<not> is_separator c"
    by (simp add: is_separator_def char_code_def)
  have "''file'' = concat [''f'', ''i'', ''l'', ''e''] \<and> list_all (\<lambda>g. \<not> is_control g) [''f'', ''i'', ''l'', ''e'']"
    by (simp add: is_control_def char_code_def)
  then have "\<exists>gs. ''file'' = concat gs \<and> length gs \<le> 120 \<and> list_all (\<lambda>g. \<not> is_control g) gs"
    by (intro exI [of _ "[''f'', ''i'', ''l'', ''e'']"]) simp
  then show ?thesis using True f by (simp add: safe_name_alt)
next
  case False
  then have ne: "concat (name_chars d) \<noteq> []"
    by (simp only: name_chars_concat simp_thms)
  have "list_all (\<lambda>g. \<not> is_control g) (name_chars d)"
    by (auto simp: name_chars_def list_all_iff dest: in_set_takeD)
  moreover have "length (name_chars d) \<le> 120"
    by (simp add: name_chars_def)
  ultimately have "\<exists>gs. safe_name d = concat gs \<and> length gs \<le> 120 \<and> list_all (\<lambda>g. \<not> is_control g) gs"
    using False by (auto simp: safe_name_alt)
  moreover have "safe_name d = concat (name_chars d)"
    using False by (simp only: safe_name_alt if_False)
  moreover have "\<forall>c \<in> set (concat (name_chars d)). \<not> is_separator c"
    using name_chars_no_separator by auto
  ultimately show ?thesis
    using ne name_chars_no_dot [OF _ False] by metis
qed

text \<open>A control character in front hides a leading dot from the check: the name made of one
  control character and two dots is stored as two dots, the parent directory.\<close>

theorem safe_name_control_dots:
  "safe_name (d\<lparr>fd_name := [CHR 0x01, CHR ''.'', CHR ''.'']\<rparr>) = ''..''"
  by (simp add: safe_name_def base_name_def is_separator_def char_code_def char_len_def is_control_def Let_def)

theorem safe_name_safe_witness:
  "hd (safe_name (demo_descriptor\<lparr>fd_name := ''../.x''\<rparr>)) \<noteq> CHR ''.''"
  using safe_name_safe [of "demo_descriptor\<lparr>fd_name := ''../.x''\<rparr>"]
  by (simp add: base_name_def is_separator_def char_code_def char_len_def is_control_def)

end
