(* ===== verification/Storage.thy ===== *)
theory Storage
  imports Text
begin

text \<open>
  \<open>core/crates/arveil-core/src/storage.rs\<close> and the migration runner of \<open>schema.rs\<close>: one SQLite
  connection, its transactions, and how a profile is opened and brought up to date.

  SQLite and SQLCipher are not part of the repository. A connection is the committed database
  and, inside a transaction, the working copy; \<open>sql_env\<close> says how the statements that can
  fail for reasons outside the program turn out (getting the write lock, committing) and what
  other connections committed before the lock was granted. A failed COMMIT may leave the
  transaction open, as SQLite documents for a busy database. A closure that panics is a
  value of \<open>outcome\<close>.

  \<open>transactionally\<close> is the view the rest of the development takes of \<open>unit_of_work\<close>: all of an
  operation or nothing.
\<close>

section \<open>Connections and transactions\<close>

record 'd conn =
  c_db :: 'd
  c_work :: "'d option"

datatype commit_result = Committed | CommitFailedOpen | CommitFailedRolledBack

record 'd sql_env =
  env_begin :: bool
  env_others :: "'d \<Rightarrow> 'd"
  env_commit :: commit_result

datatype ('e, 'a) outcome = Returned "'e + 'a" | Panicked

definition begin_immediate :: "'d sql_env \<Rightarrow> 'd conn \<Rightarrow> 'd conn option" where
  "begin_immediate env c =
     (if env_begin env \<and> c_work c = None
      then Some (c\<lparr>c_db := env_others env (c_db c), c_work := Some (env_others env (c_db c))\<rparr>)
      else None)"

definition rollback :: "'d conn \<Rightarrow> 'd conn" where
  "rollback c = c\<lparr>c_work := None\<rparr>"

definition commit :: "'d sql_env \<Rightarrow> 'd conn \<Rightarrow> bool \<times> 'd conn" where
  "commit env c =
     (case env_commit env of
        Committed \<Rightarrow> (True, (case c_work c of None \<Rightarrow> c | Some d \<Rightarrow> c\<lparr>c_db := d, c_work := None\<rparr>))
      | CommitFailedOpen \<Rightarrow> (False, c)
      | CommitFailedRolledBack \<Rightarrow> (False, rollback c))"

text \<open>Statements run on the working copy inside a transaction, on the database outside.\<close>

definition on_data :: "('d \<Rightarrow> 'r \<times> 'd) \<Rightarrow> 'd conn \<Rightarrow> 'r \<times> 'd conn" where
  "on_data f c =
     (case c_work c of
        None \<Rightarrow> (case f (c_db c) of (r, d) \<Rightarrow> (r, c\<lparr>c_db := d\<rparr>))
      | Some w \<Rightarrow> (case f w of (r, d) \<Rightarrow> (r, c\<lparr>c_work := Some d\<rparr>)))"

definition unit_of_work ::
  "'e \<Rightarrow> 'd sql_env \<Rightarrow> ('d \<Rightarrow> ('e, 'a) outcome \<times> 'd) \<Rightarrow> 'd conn \<Rightarrow> ('e, 'a) outcome \<times> 'd conn" where
  "unit_of_work sqlite_error env f c =
     (case begin_immediate env c of
        None \<Rightarrow> (Returned (Inl sqlite_error), c)
      | Some c1 \<Rightarrow>
          (case on_data f c1 of
             (Returned (Inr v), c2) \<Rightarrow>
               (case commit env c2 of
                  (True, c3) \<Rightarrow> (Returned (Inr v), c3)
                | (False, c3) \<Rightarrow> (Returned (Inl sqlite_error), c3))
           | (Returned (Inl e), c2) \<Rightarrow> (Returned (Inl e), rollback c2)
           | (Panicked, c2) \<Rightarrow> (Panicked, rollback c2)))"

definition transactionally :: "('d, 'e, 'a) op \<Rightarrow> ('d, 'e, 'a) op" where
  "transactionally m s = (case m s of (Inr a, t) \<Rightarrow> (Inr a, t) | (Inl e, _) \<Rightarrow> (Inl e, s))"

section \<open>Opening a profile\<close>

datatype storage_error =
    Sqlite
  | BadKey
  | WrongKey
  | NoSqlcipher
  | SqliteTooOld
  | SchemaTooNew nat nat
  | UnsupportedSchema string string

definition MIN_SQLITE_VERSION_NUMBER :: int where "MIN_SQLITE_VERSION_NUMBER = 3051003"

text \<open>What the library and the file answer: the cipher version, whether the key pragma runs,
  and whether the first read succeeds after it.\<close>

record cipher =
  cipher_version :: "string option"
  key_pragma :: "string \<Rightarrow> bool"
  first_read :: "string \<Rightarrow> bool"

definition is_ascii_hexdigit :: "char \<Rightarrow> bool" where
  "is_ascii_hexdigit c \<longleftrightarrow> hex_char c \<or> (65 \<le> char_code c \<and> char_code c \<le> 70)"

definition unlock :: "cipher \<Rightarrow> string \<Rightarrow> storage_error + unit" where
  "unlock ci key =
     (let key = trim key in
      if length key \<noteq> 64 \<or> \<not> list_all is_ascii_hexdigit key then Inl BadKey
      else if (case cipher_version ci of None \<Rightarrow> True | Some v \<Rightarrow> v = []) then Inl NoSqlcipher
      else if \<not> key_pragma ci key then Inl Sqlite
      else if \<not> first_read ci key then Inl WrongKey
      else Inr ())"

text \<open>A profile: the version it records and its contents.\<close>

record 'd profile =
  p_user_version :: int
  p_content :: 'd

definition schema_version :: "'d profile \<Rightarrow> storage_error + nat" where
  "schema_version p =
     (if 0 \<le> p_user_version p \<and> p_user_version p < 2 ^ 32 then Inr (nat (p_user_version p))
      else Inl (UnsupportedSchema ''user_version'' ''negative schema version''))"

record 'd migration =
  mg_version :: nat
  mg_apply :: "('d, storage_error, unit) op"

definition migration_step :: "'d migration \<Rightarrow> ('d profile, storage_error, unit) op" where
  "migration_step mg p =
     (case schema_version p of
        Inl e \<Rightarrow> (Inl e, p)
      | Inr current \<Rightarrow>
          if current \<ge> mg_version mg then (Inr (), p)
          else (case mg_apply mg (p_content p) of
                  (Inl e, d) \<Rightarrow> (Inl e, p\<lparr>p_content := d\<rparr>)
                | (Inr _, d) \<Rightarrow> (Inr (), p\<lparr>p_content := d, p_user_version := int (mg_version mg)\<rparr>)))"

fun migrate_steps ::
  "(nat \<Rightarrow> 'd profile sql_env) \<Rightarrow> nat \<Rightarrow> 'd migration list \<Rightarrow> ('d profile conn, storage_error, unit) op" where
  "migrate_steps env i [] c = (Inr (), c)"
| "migrate_steps env i (mg # mgs) c =
     (case begin_immediate (env i) c of
        None \<Rightarrow> (Inl Sqlite, c)
      | Some c1 \<Rightarrow>
          (case on_data (migration_step mg) c1 of
             (Inr _, c2) \<Rightarrow>
               (case commit (env i) c2 of
                  (True, c3) \<Rightarrow> migrate_steps env (Suc i) mgs c3
                | (False, c3) \<Rightarrow> (Inl Sqlite, c3))
           | (Inl e, c2) \<Rightarrow> (Inl e, rollback c2)))"

definition migrate_with ::
  "(nat \<Rightarrow> 'd profile sql_env) \<Rightarrow> 'd migration list \<Rightarrow> ('d profile conn, storage_error, unit) op" where
  "migrate_with env migrations c =
     (let supported = (if migrations = [] then 0 else mg_version (last migrations)) in
      case on_data (\<lambda>p. (schema_version p, p)) c of
        (Inl e, c) \<Rightarrow> (Inl e, c)
      | (Inr found, c) \<Rightarrow>
          if found > supported then (Inl (SchemaTooNew found supported), c)
          else migrate_steps env 0 (filter (\<lambda>mg. mg_version mg > found) migrations) c)"

text \<open>\<open>init\<close>: the version number of the library, whether the pragmas succeed, and the migrations.\<close>

definition init ::
  "int \<Rightarrow> bool \<Rightarrow> bool \<Rightarrow> (nat \<Rightarrow> 'd profile sql_env) \<Rightarrow> 'd migration list \<Rightarrow> nat \<Rightarrow>
     ('d profile conn, storage_error, unit) op" where
  "init version_number durable pragmas_ok env migrations PROFILE_SCHEMA_VERSION c =
     (if version_number < MIN_SQLITE_VERSION_NUMBER then (Inl SqliteTooOld, c)
      else case schema_version (c_db c) of
        Inl e \<Rightarrow> (Inl e, c)
      | Inr found \<Rightarrow>
          if found > PROFILE_SCHEMA_VERSION then (Inl (SchemaTooNew found PROFILE_SCHEMA_VERSION), c)
          else if durable \<and> \<not> pragmas_ok then (Inl Sqlite, c)
          else migrate_with env migrations c)"

definition open_file_keyed ::
  "cipher \<Rightarrow> string option \<Rightarrow> int \<Rightarrow> bool \<Rightarrow> (nat \<Rightarrow> 'd profile sql_env) \<Rightarrow> 'd migration list \<Rightarrow> nat \<Rightarrow>
     ('d profile conn, storage_error, unit) op" where
  "open_file_keyed ci key version_number pragmas_ok env migrations psv c =
     (case key of
        None \<Rightarrow> init version_number True pragmas_ok env migrations psv c
      | Some k \<Rightarrow>
          (case unlock ci k of
             Inl e \<Rightarrow> (Inl e, c)
           | Inr _ \<Rightarrow> init version_number True pragmas_ok env migrations psv c))"

section \<open>Transactions\<close>

text \<open>An environment in which SQLite does what it is asked and nobody else writes.\<close>

definition calm :: "'d sql_env" where
  "calm = \<lparr>env_begin = True, env_others = id, env_commit = Committed\<rparr>"

text \<open>An operation as the closure of a unit of work.\<close>

definition as_closure :: "('d, 'e, 'a) op \<Rightarrow> 'd \<Rightarrow> ('e, 'a) outcome \<times> 'd" where
  "as_closure m d = (case m d of (r, d') \<Rightarrow> (Returned r, d'))"

lemma transactionally_simps [op_simps]:
  "transactionally m s = (Inr a, t) \<longleftrightarrow> m s = (Inr a, t)"
  "transactionally m s = (Inl e, t) \<longleftrightarrow> t = s \<and> (\<exists>u. m s = (Inl e, u))"
  by (auto simp: transactionally_def split: prod.splits sum.splits)

lemma op_keeps_transactionally: "op_keeps P m \<Longrightarrow> op_keeps P (transactionally m)"
  by (auto simp: op_keeps_def transactionally_def split: prod.splits sum.splits)

lemma on_data_working: "c_work c = Some w \<Longrightarrow> on_data f c = (fst (f w), c\<lparr>c_work := Some (snd (f w))\<rparr>)"
  by (simp add: on_data_def split: prod.splits)

lemma begin_cases:
  "begin_immediate env c = Some c1 \<Longrightarrow>
     c_work c = None \<and> c_db c1 = env_others env (c_db c) \<and> c_work c1 = Some (env_others env (c_db c))"
  by (auto simp: begin_immediate_def split: if_splits)

section \<open>Migrations\<close>

text \<open>Migrations numbered one after the other from \<open>k + 1\<close>.\<close>

definition numbered_from :: "nat \<Rightarrow> 'd migration list \<Rightarrow> bool" where
  "numbered_from k mgs \<longleftrightarrow> map mg_version mgs = [Suc k..<Suc k + length mgs]"

text \<open>The contents after applying migrations one after the other, as long as they succeed.\<close>

fun apply_all :: "'d migration list \<Rightarrow> 'd \<Rightarrow> 'd option" where
  "apply_all [] d = Some d"
| "apply_all (mg # mgs) d = (case mg_apply mg d of (Inl _, _) \<Rightarrow> None | (Inr _, d') \<Rightarrow> apply_all mgs d')"

definition no_interference :: "(nat \<Rightarrow> 'd sql_env) \<Rightarrow> bool" where
  "no_interference env \<longleftrightarrow> (\<forall>i. env_others (env i) = id)"

text \<open>Other connections of this and of older builds: whatever they write, they never record an older version.\<close>

definition others_forward :: "(nat \<Rightarrow> 'd profile sql_env) \<Rightarrow> bool" where
  "others_forward env \<longleftrightarrow> (\<forall>i p. p_user_version p \<le> p_user_version (env_others (env i) p))"

text \<open>How the contents of a profile may change while it is migrated: another connection writes, or the migration that
  follows the recorded version runs, once and together with its version.\<close>

inductive profile_step :: "'d migration list \<Rightarrow> (nat \<Rightarrow> 'd profile sql_env) \<Rightarrow> 'd profile \<Rightarrow> 'd profile \<Rightarrow> bool"
  for mgs env where
  others_write: "profile_step mgs env p (env_others (env i) p)"
| migrated: "mg \<in> set mgs \<Longrightarrow> int (mg_version mg) = p_user_version p + 1 \<Longrightarrow> mg_apply mg (p_content p) = (Inr u, d) \<Longrightarrow>
    profile_step mgs env p (p\<lparr>p_content := d, p_user_version := p_user_version p + 1\<rparr>)"

lemma numbered_from_Cons:
  "numbered_from k (mg # mgs) \<longleftrightarrow> mg_version mg = Suc k \<and> numbered_from (Suc k) mgs"
  by (auto simp: numbered_from_def upt_rec [of "Suc k"] simp del: upt_Suc)

lemma filter_numbered:
  "numbered_from k mgs \<Longrightarrow> k \<le> found \<Longrightarrow> found \<le> k + length mgs \<Longrightarrow>
   filter (\<lambda>mg. mg_version mg > found) mgs = drop (found - k) mgs"
proof (induction mgs arbitrary: k)
  case (Cons mg mgs)
  show ?case
  proof (cases "found = k")
    case True
    have "\<forall>m \<in> set (mg # mgs). found < mg_version m"
    proof
      fix m assume "m \<in> set (mg # mgs)"
      then have "mg_version m \<in> set (map mg_version (mg # mgs))" by (simp only: set_map imageI)
      then have "mg_version m \<in> {Suc k..<Suc k + length (mg # mgs)}"
        using Cons.prems(1) unfolding numbered_from_def by (metis set_upt)
      then show "found < mg_version m"
        using True by simp
    qed
    then show ?thesis using True by (simp add: filter_True)
  next
    case False
    then show ?thesis
      using Cons.IH [of "Suc k"] Cons.prems by (simp add: numbered_from_Cons Suc_diff_Suc drop_Cons')
  qed
qed simp

lemma filter_numbered0:
  assumes "numbered_from 0 mgs" and "found \<le> length mgs"
  shows "filter (\<lambda>mg. mg_version mg > found) mgs = drop found mgs"
  using filter_numbered [OF assms(1), of found] assms(2) by simp

lemma migrate_steps_progress:
  assumes "no_interference env" and "c_work c = None" and "numbered_from k mgs" and "k + length mgs < 2 ^ 32"
    and "p_user_version (c_db c) = int k"
  shows "\<exists>j \<le> length mgs. \<exists>d. apply_all (take j mgs) (p_content (c_db c)) = Some d \<and>
      (case migrate_steps env i mgs c of (r, c') \<Rightarrow>
         c_db c' = (c_db c)\<lparr>p_user_version := int (k + j), p_content := d\<rparr> \<and>
         (r = Inr () \<longrightarrow> j = length mgs \<and> c_work c' = None))"
  using assms(2-)
proof (induction mgs arbitrary: c k i)
  case Nil
  then show ?case by simp
next
  case (Cons mg mgs)
  have ver: "mg_version mg = Suc k" "numbered_from (Suc k) mgs"
    using Cons.prems(2) by (simp_all add: numbered_from_Cons)
  have sv: "schema_version (c_db c) = Inr k"
    using Cons.prems(3,4) by (simp add: schema_version_def)
  have same: "(c_db c)\<lparr>p_user_version := int k\<rparr> = c_db c"
    by (rule profile.equality) (simp_all add: Cons.prems(4))
  show ?case
  proof (cases "begin_immediate (env i) c")
    case None
    then show ?thesis by (intro exI [of _ 0]) (simp add: same)
  next
    case (Some c1)
    have c1: "c_db c1 = c_db c" "c_work c1 = Some (c_db c)"
      using begin_cases [OF Some] assms(1) by (simp_all add: no_interference_def)
    obtain r d where ap: "mg_apply mg (p_content (c_db c)) = (r, d)" by fastforce
    show ?thesis
    proof (cases r)
      case (Inl e)
      then have "migrate_steps env i (mg # mgs) c = (Inl e, rollback (c1\<lparr>c_work := Some ((c_db c)\<lparr>p_content := d\<rparr>)\<rparr>))"
        using Some ap sv ver(1) by (simp add: on_data_working [OF c1(2)] migration_step_def)
      then show ?thesis using c1 by (intro exI [of _ 0]) (simp add: rollback_def same)
    next
      case (Inr u)
      let ?p = "(c_db c)\<lparr>p_content := d, p_user_version := int (Suc k)\<rparr>"
      let ?c2 = "c1\<lparr>c_work := Some ?p\<rparr>"
      have od: "on_data (migration_step mg) c1 = (Inr (), ?c2)"
        using ap Inr sv ver(1) by (simp add: on_data_working [OF c1(2)] migration_step_def)
      show ?thesis
      proof (cases "env_commit (env i)")
        case Committed
        let ?c3 = "c1\<lparr>c_db := ?p, c_work := None\<rparr>"
        have step: "migrate_steps env i (mg # mgs) c = migrate_steps env (Suc i) mgs ?c3"
          using Some od Committed by (simp add: commit_def)
        have "\<exists>j \<le> length mgs. \<exists>e. apply_all (take j mgs) (p_content (c_db ?c3)) = Some e \<and>
          (case migrate_steps env (Suc i) mgs ?c3 of (r, c') \<Rightarrow>
             c_db c' = (c_db ?c3)\<lparr>p_user_version := int (Suc k + j), p_content := e\<rparr> \<and>
             (r = Inr () \<longrightarrow> j = length mgs \<and> c_work c' = None))"
          by (rule Cons.IH) (use ver(2) Cons.prems(3) in simp_all)
        then obtain j e where "j \<le> length mgs" "apply_all (take j mgs) (p_content (c_db ?c3)) = Some e"
          "case migrate_steps env (Suc i) mgs ?c3 of (r, c') \<Rightarrow>
             c_db c' = (c_db ?c3)\<lparr>p_user_version := int (Suc k + j), p_content := e\<rparr> \<and>
             (r = Inr () \<longrightarrow> j = length mgs \<and> c_work c' = None)"
          by (elim exE conjE)
        then show ?thesis
          unfolding step using ap Inr by (intro exI [of _ "Suc j"]) (auto split: prod.splits)
      next
        case CommitFailedOpen
        then have "migrate_steps env i (mg # mgs) c = (Inl Sqlite, ?c2)"
          using Some od by (simp add: commit_def)
        then show ?thesis using c1 by (intro exI [of _ 0]) (simp add: same)
      next
        case CommitFailedRolledBack
        then have "migrate_steps env i (mg # mgs) c = (Inl Sqlite, rollback ?c2)"
          using Some od by (simp add: commit_def)
        then show ?thesis using c1 by (intro exI [of _ 0]) (simp add: rollback_def same)
      qed
    qed
  qed
qed

lemma migration_step_next:
  assumes "migration_step mg p = (Inr u, q)" and "int (mg_version mg) \<le> p_user_version p + 1" and "mg \<in> set all"
  shows "(profile_step all env)\<^sup>*\<^sup>* p q \<and> int (mg_version mg) \<le> p_user_version q"
proof (cases "int (mg_version mg) \<le> p_user_version p")
  case True
  then show ?thesis
    using assms(1) by (auto simp: migration_step_def schema_version_def split: if_splits prod.splits sum.splits)
next
  case False
  then have v: "int (mg_version mg) = p_user_version p + 1"
    using assms(2) by simp
  then obtain x d where d: "mg_apply mg (p_content p) = (Inr x, d)" "q = p\<lparr>p_content := d, p_user_version := p_user_version p + 1\<rparr>"
    using assms(1) by (auto simp: migration_step_def schema_version_def split: if_splits prod.splits sum.splits)
  then have "profile_step all env p q"
    using profile_step.migrated [OF assms(3) v d(1)] by simp
  then show ?thesis
    using v d(2) by simp
qed

lemma migrate_steps_trace:
  assumes "others_forward env" and "c_work c = None" and "numbered_from k mgs" and "int k \<le> p_user_version (c_db c)"
    and "set mgs \<subseteq> set all" and "migrate_steps env i mgs c = (r, c')"
  shows "(profile_step all env)\<^sup>*\<^sup>* (c_db c) (c_db c') \<and>
    (r = Inr () \<longrightarrow> int (k + length mgs) \<le> p_user_version (c_db c') \<and> c_work c' = None)"
  using assms(2-)
proof (induction mgs arbitrary: c k i)
  case (Cons mg mgs)
  have ver: "mg_version mg = Suc k" "numbered_from (Suc k) mgs" and mg: "mg \<in> set all"
    using Cons.prems(2,4) by (simp_all add: numbered_from_Cons)
  show ?case
  proof (cases "begin_immediate (env i) c")
    case None
    then show ?thesis
      using Cons.prems(5) by auto
  next
    case (Some c1)
    let ?p = "env_others (env i) (c_db c)"
    have c1: "c_db c1 = ?p" "c_work c1 = Some ?p"
      using begin_cases [OF Some] by simp_all
    have others: "(profile_step all env)\<^sup>*\<^sup>* (c_db c) ?p"
      by (blast intro: profile_step.others_write)
    have old: "int k \<le> p_user_version ?p"
      using assms(1) Cons.prems(3) unfolding others_forward_def by (meson order_trans)
    obtain out q where out: "migration_step mg ?p = (out, q)"
      by fastforce
    have od: "on_data (migration_step mg) c1 = (out, c1\<lparr>c_work := Some q\<rparr>)"
      using out by (simp add: on_data_working [OF c1(2)])
    show ?thesis
    proof (cases out)
      case (Inl e)
      then show ?thesis
        using Cons.prems(5) Some od c1 others by (auto simp: rollback_def)
    next
      case (Inr u)
      note next_version = migration_step_next [OF out [unfolded Inr], of all env]
      show ?thesis
      proof (cases "env_commit (env i)")
        case Committed
        let ?c3 = "c1\<lparr>c_db := q, c_work := None\<rparr>"
        have rest: "migrate_steps env (Suc i) mgs ?c3 = (r, c')"
          using Cons.prems(5) Some od Inr Committed by (simp add: commit_def)
        have q: "(profile_step all env)\<^sup>*\<^sup>* (c_db c) q" "int (Suc k) \<le> p_user_version q"
          using next_version others old ver(1) mg by auto
        show ?thesis
          using Cons.IH [OF _ ver(2) _ _ rest] Cons.prems(4) q by auto
      qed (use Cons.prems(5) Some od Inr c1 others in \<open>auto simp: commit_def rollback_def\<close>)
    qed
  qed
qed simp

lemma last_numbered: "numbered_from 0 mgs \<Longrightarrow> (if mgs = [] then 0 else mg_version (last mgs)) = length mgs"
proof (cases "mgs = []")
  case False
  assume n: "numbered_from 0 mgs"
  have "mg_version (last mgs) = last (map mg_version mgs)"
    using False by (simp add: last_map)
  also have "\<dots> = last [Suc 0..<Suc 0 + length mgs]"
    using n by (simp only: numbered_from_def)
  also have "\<dots> = length mgs"
    using False by (cases mgs) simp_all
  finally show ?thesis using False by simp
qed simp

lemma migrate_alone:
  assumes "no_interference env" and "c_work c = None" and "numbered_from 0 mgs" and "length mgs < 2 ^ 32"
    and "schema_version (c_db c) = Inr found" and "found \<le> length mgs" and "migrate_steps env i (drop found mgs) c = (r, c')"
  shows "\<exists>v d. found \<le> v \<and> v \<le> length mgs \<and> apply_all (take (v - found) (drop found mgs)) (p_content (c_db c)) = Some d \<and>
    c_db c' = (c_db c)\<lparr>p_user_version := int v, p_content := d\<rparr> \<and> (r = Inr () \<longrightarrow> v = length mgs \<and> c_work c' = None)"
proof -
  have num: "numbered_from found (drop found mgs)"
    using assms(3,6) by (simp add: numbered_from_def drop_map [symmetric] del: upt_Suc)
  have ver: "p_user_version (c_db c) = int found"
    using assms(5) by (auto simp: schema_version_def split: if_splits)
  have small: "found + length (drop found mgs) < 2 ^ 32"
    using assms(4,6) by simp
  obtain j d where "j \<le> length (drop found mgs)" "apply_all (take j (drop found mgs)) (p_content (c_db c)) = Some d"
    "c_db c' = (c_db c)\<lparr>p_user_version := int (found + j), p_content := d\<rparr>"
    "r = Inr () \<longrightarrow> j = length (drop found mgs) \<and> c_work c' = None"
    using migrate_steps_progress [OF assms(1,2) num small ver, of i] assms(7) by auto
  then show ?thesis
    using assms(6) by (intro exI [of _ "found + j"] exI [of _ d]) auto
qed

section \<open>Properties\<close>

text \<open>C9. A unit of work is all or nothing: on a connection outside any transaction, whatever
  the closure does, it either returns \<open>Ok\<close> and everything it wrote is committed, or nothing of
  it remains, also when it fails, panics, cannot start or cannot commit; and unless the commit
  itself fails and leaves it open, no transaction is open afterwards.\<close>

theorem unit_of_work_atomic:
  assumes "c_work c = None"
  shows "case unit_of_work err env f c of (r, c') \<Rightarrow>
    (case r of
       Returned (Inr v) \<Rightarrow>
         f (env_others env (c_db c)) = (Returned (Inr v), c_db c') \<and> c_work c' = None
     | _ \<Rightarrow> c_db c' = c_db c \<or> c_db c' = env_others env (c_db c)) \<and>
    (env_commit env \<noteq> CommitFailedOpen \<longrightarrow> c_work c' = None)"
proof (cases "begin_immediate env c")
  case None
  then show ?thesis using assms by (simp add: unit_of_work_def)
next
  case (Some c1)
  let ?d = "env_others env (c_db c)"
  have c1: "c_db c1 = ?d" "c_work c1 = Some ?d"
    using begin_cases [OF Some] by simp_all
  obtain r d where f: "f ?d = (r, d)" by fastforce
  then have od: "on_data f c1 = (r, c1\<lparr>c_work := Some d\<rparr>)"
    by (simp add: on_data_working [OF c1(2)])
  show ?thesis
    using Some od f c1
    by (cases r) (auto simp: unit_of_work_def rollback_def commit_def split: sum.splits commit_result.splits)
qed

theorem unit_of_work_atomic_witness:
  "let c = \<lparr>c_db = (7 :: nat), c_work = None\<rparr> in
   unit_of_work () calm (\<lambda>d. (Returned (Inl ()), d + 1)) c = (Returned (Inl () :: unit + unit), c)"
proof -
  let ?c = "\<lparr>c_db = (7 :: nat), c_work = None\<rparr>"
  let ?f = "\<lambda>d :: nat. (Returned (Inl () :: unit + unit), d + 1)"
  have h: "c_work ?c = None" by simp
  have "unit_of_work () calm ?f ?c = (Returned (Inl ()), ?c)"
    by (simp add: unit_of_work_def begin_immediate_def calm_def on_data_def rollback_def)
  then show ?thesis
    using unit_of_work_atomic [OF h, where err = "()" and env = calm and f = ?f] by (simp add: Let_def)
qed

text \<open>C11. A commit that fails because the database is busy leaves the transaction open: the guard
  was forgotten before the commit was tried, so nothing rolls back, and every later unit of
  work on the connection fails to begin.\<close>

theorem failed_commit_leaves_transaction_open:
  assumes "c_work c = None" and "env_begin env" and "env_commit env = CommitFailedOpen"
    and "f (env_others env (c_db c)) = (Returned (Inr v), d)"
  shows "case unit_of_work err env f c of (r, c') \<Rightarrow>
    r = Returned (Inl err) \<and> c_work c' = Some d \<and>
    (\<forall>env' g. unit_of_work err env' g c' = (Returned (Inl err), c'))"
  using assms
  by (auto simp: unit_of_work_def begin_immediate_def on_data_def commit_def)

theorem failed_commit_leaves_transaction_open_witness:
  "let env = \<lparr>env_begin = True, env_others = id, env_commit = CommitFailedOpen\<rparr>;
       c = \<lparr>c_db = (7 :: nat), c_work = None\<rparr>
   in c_work (snd (unit_of_work () env (\<lambda>d. (Returned (Inr ()), d + 1)) c)) = Some 8"
proof -
  let ?env = "\<lparr>env_begin = True, env_others = id, env_commit = CommitFailedOpen\<rparr> :: nat sql_env"
  let ?c = "\<lparr>c_db = (7 :: nat), c_work = None\<rparr>"
  have h: "c_work ?c = None" "env_begin ?env" "env_commit ?env = CommitFailedOpen"
    "(\<lambda>d. (Returned (Inr ()), d + 1)) (env_others ?env (c_db ?c)) = (Returned (Inr ()), 8)"
    by simp_all
  show ?thesis
    using failed_commit_leaves_transaction_open [OF h(1-3), where err = "()" and
        f = "\<lambda>d. (Returned (Inr ()), d + 1)" and v = "()" and d = 8, OF h(4)] by (auto simp: Let_def split: prod.splits)
qed

text \<open>C10. With SQLite doing what it is asked, a unit of work whose closure returns is exactly the
  all-or-nothing view of the closure that the rest of the development uses.\<close>

theorem unit_of_work_refines:
  "unit_of_work err calm (as_closure m) \<lparr>c_db = d, c_work = None\<rparr> =
     (case transactionally m d of (r, d') \<Rightarrow> (Returned r, \<lparr>c_db = d', c_work = None\<rparr>))"
  by (auto simp: unit_of_work_def begin_immediate_def on_data_def commit_def rollback_def calm_def
      as_closure_def transactionally_def split: prod.splits sum.splits)

text \<open>C12. Migrating, while other connections may write or migrate the same profile between the steps, changes the
  profile only by running, on the contents found under the write lock, the one migration that follows the recorded
  version, together with its version: no step runs twice, out of order or half, however it ends. If it succeeds the
  profile is at the newest version or later and no transaction is open. If nobody else writes, the profile ends at some
  version between the one found and the newest with exactly the contents of the migrations up to it. A profile of a newer
  build is refused and not touched. The others are assumed never to record an older version.\<close>

theorem migrate_stepwise:
  assumes "others_forward env" and "c_work c = None" and "numbered_from 0 mgs" and "length mgs < 2 ^ 32"
    and "schema_version (c_db c) = Inr found" and "migrate_with env mgs c = (r, c')"
  shows "if found > length mgs then r = Inl (SchemaTooNew found (length mgs)) \<and> c' = c
    else (profile_step mgs env)\<^sup>*\<^sup>* (c_db c) (c_db c') \<and>
      (r = Inr () \<longrightarrow> int (length mgs) \<le> p_user_version (c_db c') \<and> c_work c' = None) \<and>
      (no_interference env \<longrightarrow> (\<exists>v d. found \<le> v \<and> v \<le> length mgs \<and>
        apply_all (take (v - found) (drop found mgs)) (p_content (c_db c)) = Some d \<and>
        c_db c' = (c_db c)\<lparr>p_user_version := int v, p_content := d\<rparr> \<and> (r = Inr () \<longrightarrow> v = length mgs)))"
proof -
  have od: "on_data (\<lambda>p. (schema_version p, p)) c = (Inr found, c)"
    using assms(2,5) by (simp add: on_data_def)
  show ?thesis
  proof (cases "found > length mgs")
    case True
    then show ?thesis
      using assms(6) by (simp add: migrate_with_def last_numbered [OF assms(3)] od)
  next
    case False
    have run: "migrate_steps env 0 (drop found mgs) c = (r, c')"
      using assms(6) False filter_numbered0 [OF assms(3)] by (simp add: migrate_with_def last_numbered [OF assms(3)] od)
    have num: "numbered_from found (drop found mgs)"
      using assms(3) False by (simp add: numbered_from_def drop_map [symmetric] del: upt_Suc)
    have "int found \<le> p_user_version (c_db c)"
      using assms(5) by (auto simp: schema_version_def split: if_splits)
    then have "(profile_step mgs env)\<^sup>*\<^sup>* (c_db c) (c_db c') \<and>
        (r = Inr () \<longrightarrow> int (length mgs) \<le> p_user_version (c_db c') \<and> c_work c' = None)"
      using migrate_steps_trace [OF assms(1,2) num _ set_drop_subset run] False by simp
    moreover have "no_interference env \<Longrightarrow> \<exists>v d. found \<le> v \<and> v \<le> length mgs \<and>
        apply_all (take (v - found) (drop found mgs)) (p_content (c_db c)) = Some d \<and>
        c_db c' = (c_db c)\<lparr>p_user_version := int v, p_content := d\<rparr> \<and> (r = Inr () \<longrightarrow> v = length mgs)"
      using migrate_alone [OF _ assms(2-5) _ run] False by (meson not_less)
    ultimately show ?thesis
      using False by simp
  qed
qed

theorem migrate_stepwise_witness:
  "let mgs = [\<lparr>mg_version = 1, mg_apply = (\<lambda>d. (Inr (), d + 1))\<rparr>,
              \<lparr>mg_version = 2, mg_apply = (\<lambda>d. (Inr (), d * 10))\<rparr>];
       env = (\<lambda>_. calm\<lparr>env_others := (\<lambda>p. if p_user_version p = 0 then p\<lparr>p_user_version := 1, p_content := p_content p + 1\<rparr> else p)\<rparr>);
       old = \<lparr>p_user_version = 0, p_content = (5 :: nat)\<rparr>; new = \<lparr>p_user_version = 2, p_content = 60\<rparr>
   in migrate_with env mgs \<lparr>c_db = old, c_work = None\<rparr> = (Inr (), \<lparr>c_db = new, c_work = None\<rparr>) \<and>
     (profile_step mgs env)\<^sup>*\<^sup>* old new"
proof -
  let ?mgs = "[\<lparr>mg_version = 1, mg_apply = (\<lambda>d. (Inr (), d + 1))\<rparr>,
              \<lparr>mg_version = 2, mg_apply = (\<lambda>d. (Inr (), d * 10))\<rparr>] :: nat migration list"
  let ?env = "\<lambda>_ :: nat. calm\<lparr>env_others := (\<lambda>p :: nat profile. if p_user_version p = 0
     then p\<lparr>p_user_version := 1, p_content := p_content p + 1\<rparr> else p)\<rparr>"
  let ?c = "\<lparr>c_db = \<lparr>p_user_version = 0, p_content = (5 :: nat)\<rparr>, c_work = None\<rparr>"
  have h: "others_forward ?env" "c_work ?c = None" "numbered_from 0 ?mgs"
    "length ?mgs < 2 ^ 32" "schema_version (c_db ?c) = Inr 0"
    by (simp_all add: others_forward_def numbered_from_def schema_version_def upt_rec)
  have run: "migrate_with ?env ?mgs ?c = (Inr (), \<lparr>c_db = \<lparr>p_user_version = 2, p_content = 60\<rparr>, c_work = None\<rparr>)"
    by (simp add: migrate_with_def on_data_def schema_version_def begin_immediate_def calm_def
        migration_step_def commit_def rollback_def)
  then show ?thesis
    using migrate_stepwise [OF h run] by (simp add: Let_def)
qed
end
