(* ===== verification/Delivery.thy ===== *)
theory Delivery
  imports Signed "HOL-Library.Sublist"
begin

text \<open>
  \<open>core/crates/arveil-core/src/delivery.rs\<close> and \<open>attachment_store.rs\<close>: the durable outbox and
  inbox, the events of the conversations, read markers, and the transfers of attachments.

  The tables of \<open>DELIVERY_SCHEMA\<close> (and \<open>read_markers\<close> of migration 3) are the fields of the record
  \<open>delivery\<close>: a list of rows for a table with row ids, a map for a table whose primary key is
  the whole identity. A row id is one above the largest, as SQLite assigns it. Every SQL
  statement is one definition; a statement fails only by a constraint of the schema, and then
  changes nothing (failures of the disk are the business of the transaction around it, theory
  \<open>Storage\<close>). The clock behind \<open>unixepoch()\<close> is an argument.

  Shown over every sequence of these operations: no envelope, delivery or event is ever lost,
  duplicated or rewritten, the sealed bytes to retransmit never change, a delivery is new at
  most once, cursors and read markers only move forward, and paging through a conversation
  yields every event exactly once.
\<close>

section \<open>Tables\<close>

datatype sql_error = ConstraintViolation | InvalidQuery

record outbox_row =
  ob_id :: int
  ob_mailbox_id :: bytes
  ob_delivery_id :: bytes
  ob_event_id :: "bytes option"
  ob_hpke_enc :: bytes
  ob_ciphertext :: bytes
  ob_state :: string
  ob_attempts :: int
  ob_expires_at :: "int option"
  ob_created_at :: int

record inbox_row =
  ib_mailbox_id :: bytes
  ib_delivery_id :: bytes
  ib_seq :: int
  ib_received_at :: int
  ib_acked :: bool

record event_row =
  ev_id :: int
  ev_group_id :: bytes
  ev_event_id :: bytes
  ev_kind :: string
  ev_body :: bytes
  ev_created_at :: int
  ev_sender_device :: "bytes option"
  ev_sender_identity :: "bytes option"

record transfer_row =
  at_event_id :: bytes
  at_outgoing :: bool
  at_name :: string
  at_size :: int
  at_state :: string
  at_descriptor :: bytes
  at_offset :: int
  at_committed :: bool
  at_expires_at :: "int option"

record chunk_row =
  ac_event_id :: bytes
  ac_offset :: int
  ac_data :: bytes

record delivery =
  outbox :: "outbox_row list"
  inbox :: "inbox_row list"
  mailbox_cursor :: "bytes \<rightharpoonup> int"
  events :: "event_row list"
  read_markers :: "bytes \<rightharpoonup> int"
  attachment_transfers :: "transfer_row list"
  attachment_chunks :: "chunk_row list"

definition delivery_new :: delivery where
  "delivery_new = \<lparr>outbox = [], inbox = [], mailbox_cursor = Map.empty, events = [],
     read_markers = Map.empty, attachment_transfers = [], attachment_chunks = []\<rparr>"

text \<open>The next row id: one above the largest, 1 in an empty table.\<close>

definition next_id :: "int list \<Rightarrow> int" where
  "next_id ids = (if ids = [] then 1 else Max (set ids) + 1)"

section \<open>Outbox\<close>

definition enqueue ::
  "int \<Rightarrow> bytes \<Rightarrow> bytes \<Rightarrow> bytes option \<Rightarrow> bytes \<Rightarrow> bytes \<Rightarrow> (delivery, sql_error, unit) op" where
  "enqueue now mailbox delivery event enc ct s =
     (if \<exists>r \<in> set (outbox s). ob_mailbox_id r = mailbox \<and> ob_delivery_id r = delivery
      then (Inl ConstraintViolation, s)
      else (Inr (), s\<lparr>outbox := outbox s @
        [\<lparr>ob_id = next_id (map ob_id (outbox s)), ob_mailbox_id = mailbox, ob_delivery_id = delivery,
          ob_event_id = event, ob_hpke_enc = enc, ob_ciphertext = ct, ob_state = ''sealed'',
          ob_attempts = 0, ob_expires_at = None, ob_created_at = now\<rparr>]\<rparr>))"

definition update_outbox :: "int \<Rightarrow> (outbox_row \<Rightarrow> outbox_row) \<Rightarrow> delivery \<Rightarrow> delivery" where
  "update_outbox i f s = s\<lparr>outbox := map (\<lambda>r. if ob_id r = i then f r else r) (outbox s)\<rparr>"

definition mark_attempt :: "int \<Rightarrow> (delivery, sql_error, unit) op" where
  "mark_attempt i = op_modify (update_outbox i (\<lambda>r. r\<lparr>ob_attempts := ob_attempts r + 1\<rparr>))"

definition mark_undeliverable :: "int \<Rightarrow> (delivery, sql_error, unit) op" where
  "mark_undeliverable i = op_modify (update_outbox i (\<lambda>r. r\<lparr>ob_state := ''undeliverable''\<rparr>))"

definition mark_accepted :: "int \<Rightarrow> int option \<Rightarrow> (delivery, sql_error, unit) op" where
  "mark_accepted i expires_at =
     op_modify (update_outbox i (\<lambda>r. r\<lparr>ob_state := ''accepted'',
       ob_expires_at := (case expires_at of Some t \<Rightarrow> Some t | None \<Rightarrow> ob_expires_at r)\<rparr>))"

definition pending :: "delivery \<Rightarrow> outbox_row list" where
  "pending s = sort_key ob_id (filter (\<lambda>r. ob_state r = ''sealed'') (outbox s))"

definition notification_counts :: "bytes \<Rightarrow> int \<Rightarrow> delivery \<Rightarrow> nat \<times> nat" where
  "notification_counts event now s =
     (let rows = filter (\<lambda>r. ob_event_id r = Some event) (outbox s) in
      (length (filter (\<lambda>r. ob_state r = ''sealed'') rows),
       length (filter (\<lambda>r. ob_state r = ''undeliverable'' \<or>
         (ob_state r = ''accepted'' \<and> (case ob_expires_at r of Some t \<Rightarrow> t \<le> now | None \<Rightarrow> False))) rows)))"

text \<open>The label of one envelope; the expiry of an accepted one is part of it.\<close>

datatype delivery_label = Queued | ExpiredUnknown | AcceptedUntil int | Accepted | Undeliverable | OtherState string

definition state_label :: "int \<Rightarrow> outbox_row \<Rightarrow> delivery_label" where
  "state_label now r =
     (if ob_state r = ''sealed'' then Queued
      else if ob_state r = ''accepted'' then
        (case ob_expires_at r of
           Some t \<Rightarrow> if t \<le> now then ExpiredUnknown else AcceptedUntil t
         | None \<Rightarrow> Accepted)
      else if ob_state r = ''undeliverable'' then Undeliverable
      else OtherState (ob_state r))"

definition states_for_event :: "bytes \<Rightarrow> int \<Rightarrow> delivery \<Rightarrow> (bytes \<times> delivery_label) list" where
  "states_for_event event now s =
     map (\<lambda>r. (ob_mailbox_id r, state_label now r))
       (sort_key ob_id (filter (\<lambda>r. ob_event_id r = Some event) (outbox s)))"

section \<open>Inbox\<close>

definition record_incoming :: "int \<Rightarrow> bytes \<Rightarrow> bytes \<Rightarrow> int \<Rightarrow> (delivery, sql_error, bool) op" where
  "record_incoming now mailbox delivery sq s =
     (if \<exists>r \<in> set (inbox s). ib_mailbox_id r = mailbox \<and> ib_delivery_id r = delivery then (Inr False, s)
      else (Inr True, s\<lparr>inbox := inbox s @
        [\<lparr>ib_mailbox_id = mailbox, ib_delivery_id = delivery, ib_seq = sq, ib_received_at = now,
          ib_acked = False\<rparr>]\<rparr>))"

definition unacked :: "bytes \<Rightarrow> delivery \<Rightarrow> bytes list" where
  "unacked mailbox s =
     map ib_delivery_id (sort_key ib_seq (filter (\<lambda>r. ib_mailbox_id r = mailbox \<and> \<not> ib_acked r) (inbox s)))"

definition ack_one :: "bytes \<Rightarrow> bytes \<Rightarrow> delivery \<Rightarrow> delivery" where
  "ack_one mailbox d s = s\<lparr>inbox :=
     map (\<lambda>r. if ib_mailbox_id r = mailbox \<and> ib_delivery_id r = d then r\<lparr>ib_acked := True\<rparr> else r) (inbox s)\<rparr>"

definition mark_acked :: "bytes \<Rightarrow> bytes list \<Rightarrow> (delivery, sql_error, unit) op" where
  "mark_acked mailbox delivery_ids = op_for delivery_ids (\<lambda>d. op_modify (ack_one mailbox d))"

definition cursor :: "bytes \<Rightarrow> delivery \<Rightarrow> int" where
  "cursor mailbox s = (case mailbox_cursor s mailbox of Some c \<Rightarrow> c | None \<Rightarrow> 0)"

definition set_cursor :: "bytes \<Rightarrow> int \<Rightarrow> (delivery, sql_error, unit) op" where
  "set_cursor mailbox c =
     op_modify (\<lambda>s. s\<lparr>mailbox_cursor := (mailbox_cursor s)(mailbox \<mapsto>
       (case mailbox_cursor s mailbox of None \<Rightarrow> c | Some old \<Rightarrow> max old c))\<rparr>)"

section \<open>Events\<close>

definition OWN_KINDS :: "string list" where
  "OWN_KINDS = [''sent'', ''sent-file'', ''file-outgoing'']"

definition DEVICES_CHANGED :: string where "DEVICES_CHANGED = ''devices-changed''"
definition NOTICE_KINDS :: "string list" where "NOTICE_KINDS = [DEVICES_CHANGED]"

definition notice_event_id :: "crypto \<Rightarrow> bytes \<Rightarrow> u64 \<Rightarrow> bytes \<Rightarrow> bytes" where
  "notice_event_id cr identity sq grp =
     take 16 (sha256 cr (bytes_of_string ''arveil/devices-changed/v1'' @
       u32_to_be_bytes (word_of_nat (length identity)) @ identity @ u64_to_be_bytes sq @ grp))"

record event_sender =
  es_device_id :: "bytes option"
  es_identity_id :: "bytes option"

definition record_event_by ::
  "int \<Rightarrow> bytes \<Rightarrow> bytes \<Rightarrow> string \<Rightarrow> bytes \<Rightarrow> event_sender option \<Rightarrow> (delivery, sql_error, unit) op" where
  "record_event_by now grp event kind body sender s =
     (if \<exists>e \<in> set (events s). ev_event_id e = event then (Inl ConstraintViolation, s)
      else (Inr (), s\<lparr>events := events s @
        [\<lparr>ev_id = next_id (map ev_id (events s)), ev_group_id = grp, ev_event_id = event, ev_kind = kind,
          ev_body = body, ev_created_at = now, ev_sender_device = Option.bind sender es_device_id,
          ev_sender_identity = Option.bind sender es_identity_id\<rparr>]\<rparr>))"

definition record_event :: "int \<Rightarrow> bytes \<Rightarrow> bytes \<Rightarrow> string \<Rightarrow> bytes \<Rightarrow> (delivery, sql_error, unit) op" where
  "record_event now grp event kind body = record_event_by now grp event kind body None"

definition update_event :: "bytes \<Rightarrow> string \<Rightarrow> bytes \<Rightarrow> (delivery, sql_error, unit) op" where
  "update_event event kind body =
     op_modify (\<lambda>s. s\<lparr>events :=
       map (\<lambda>e. if ev_event_id e = event then e\<lparr>ev_kind := kind, ev_body := body\<rparr> else e) (events s)\<rparr>)"

definition event_count :: "delivery \<Rightarrow> nat" where
  "event_count s = length (events s)"

definition events_of_kind :: "string \<Rightarrow> delivery \<Rightarrow> (bytes \<times> string \<times> bytes) list" where
  "events_of_kind kind s =
     map (\<lambda>e. (ev_event_id e, ev_kind e, ev_body e)) (sort_key ev_id (filter (\<lambda>e. ev_kind e = kind) (events s)))"

definition all_events :: "delivery \<Rightarrow> event_row list" where
  "all_events s = sort_key ev_id (events s)"

definition group_events :: "bytes \<Rightarrow> delivery \<Rightarrow> event_row list" where
  "group_events grp s = sort_key ev_id (filter (\<lambda>e. ev_group_id e = grp) (events s))"

definition events_count :: "bytes \<Rightarrow> delivery \<Rightarrow> nat" where
  "events_count grp s = length (filter (\<lambda>e. ev_group_id e = grp) (events s))"

definition events_page :: "bytes \<Rightarrow> int option \<Rightarrow> nat \<Rightarrow> delivery \<Rightarrow> event_row list" where
  "events_page grp before limit s =
     take limit (rev (sort_key ev_id (filter (\<lambda>e. ev_group_id e = grp \<and>
       (case before of None \<Rightarrow> True | Some b \<Rightarrow> ev_id e < b)) (events s))))"

definition read_cursor :: "bytes \<Rightarrow> delivery \<Rightarrow> int" where
  "read_cursor grp s = (case read_markers s grp of Some c \<Rightarrow> c | None \<Rightarrow> 0)"

definition newest :: "bytes \<Rightarrow> delivery \<Rightarrow> int option" where
  "newest grp s =
     (let ids = map ev_id (filter (\<lambda>e. ev_group_id e = grp) (events s)) in
      if ids = [] then None else Some (Max (set ids)))"

definition mark_read :: "bytes \<Rightarrow> int \<Rightarrow> (delivery, sql_error, int) op" where
  "mark_read grp c s =
     (let s' = (case newest grp s of
                  Some n \<Rightarrow>
                    if c > 0 then s\<lparr>read_markers := (read_markers s)(grp \<mapsto>
                      (case read_markers s grp of None \<Rightarrow> min c n | Some old \<Rightarrow> max old (min c n)))\<rparr>
                    else s
                | None \<Rightarrow> s)
      in (Inr (read_cursor grp s'), s'))"

definition counts_as_unread :: "bytes option \<Rightarrow> event_row \<Rightarrow> bool" where
  "counts_as_unread own e \<longleftrightarrow>
     ev_kind e \<notin> set (OWN_KINDS @ NOTICE_KINDS) \<and>
     (own = None \<or> ev_sender_identity e = None \<or> ev_sender_identity e \<noteq> own)"

definition unread_count :: "bytes \<Rightarrow> bytes option \<Rightarrow> delivery \<Rightarrow> nat" where
  "unread_count grp own s =
     length (filter (\<lambda>e. ev_group_id e = grp \<and> ev_id e > read_cursor grp s \<and> counts_as_unread own e) (events s))"

section \<open>Attachments\<close>

definition integer :: "u64 \<Rightarrow> sql_error + int" where
  "integer v = (if uint v < 2 ^ 63 then Inr (uint v) else Inl InvalidQuery)"

definition uint64 :: "int \<Rightarrow> sql_error + u64" where
  "uint64 v = (if 0 \<le> v then Inr (word_of_int v) else Inl InvalidQuery)"

record attachment_row =
  arow_outgoing :: bool
  arow_name :: string
  arow_size :: u64
  arow_state :: string
  arow_descriptor :: bytes
  arow_offset :: u64
  arow_committed :: bool
  arow_expires_at :: "u64 option"

definition event_lookup :: "bytes \<Rightarrow> bytes \<Rightarrow> delivery \<Rightarrow> (string \<times> bytes) option" where
  "event_lookup grp event s =
     map_option (\<lambda>e. (ev_kind e, ev_body e)) (find (\<lambda>e. ev_group_id e = grp \<and> ev_event_id e = event) (events s))"

definition attachment :: "bytes \<Rightarrow> delivery \<Rightarrow> sql_error + attachment_row option" where
  "attachment event s =
     (case find (\<lambda>t. at_event_id t = event) (attachment_transfers s) of
        None \<Rightarrow> Inr None
      | Some t \<Rightarrow>
          and_then (uint64 (at_size t)) (\<lambda>sz.
          and_then (uint64 (at_offset t)) (\<lambda>off.
          and_then (case at_expires_at t of None \<Rightarrow> Inr None | Some x \<Rightarrow> and_then (uint64 x) (\<lambda>y. Inr (Some y))) (\<lambda>ex.
          Inr (Some \<lparr>arow_outgoing = at_outgoing t, arow_name = at_name t, arow_size = sz, arow_state = at_state t,
                     arow_descriptor = at_descriptor t, arow_offset = off, arow_committed = at_committed t,
                     arow_expires_at = ex\<rparr>)))))"

definition attachment_create :: "bytes \<Rightarrow> attachment_row \<Rightarrow> (delivery, sql_error, unit) op" where
  "attachment_create event row s =
     (case integer (arow_size row) of
        Inl e \<Rightarrow> (Inl e, s)
      | Inr sz \<Rightarrow>
          if (\<exists>t \<in> set (attachment_transfers s). at_event_id t = event) \<or>
             \<not> (\<exists>e \<in> set (events s). ev_event_id e = event) then (Inl ConstraintViolation, s)
          else (Inr (), s\<lparr>attachment_transfers := attachment_transfers s @
            [\<lparr>at_event_id = event, at_outgoing = arow_outgoing row, at_name = arow_name row, at_size = sz,
              at_state = arow_state row, at_descriptor = arow_descriptor row, at_offset = 0,
              at_committed = False, at_expires_at = None\<rparr>]\<rparr>))"

definition update_transfer :: "bytes \<Rightarrow> (transfer_row \<Rightarrow> transfer_row) \<Rightarrow> delivery \<Rightarrow> delivery" where
  "update_transfer event f s =
     s\<lparr>attachment_transfers := map (\<lambda>t. if at_event_id t = event then f t else t) (attachment_transfers s)\<rparr>"

definition attachment_state :: "bytes \<Rightarrow> string \<Rightarrow> (delivery, sql_error, unit) op" where
  "attachment_state event st = op_modify (update_transfer event (\<lambda>t. t\<lparr>at_state := st\<rparr>))"

definition attachment_offset :: "bytes \<Rightarrow> u64 \<Rightarrow> (delivery, sql_error, unit) op" where
  "attachment_offset event off =
     op_then (op_lift (integer off)) (\<lambda>o'. op_modify (update_transfer event (\<lambda>t. t\<lparr>at_offset := o'\<rparr>)))"

definition attachment_descriptor ::
  "bytes \<Rightarrow> bytes \<Rightarrow> u64 option \<Rightarrow> (delivery, sql_error, unit) op" where
  "attachment_descriptor event d expiry =
     op_then (op_lift (case expiry of None \<Rightarrow> Inr None | Some x \<Rightarrow> and_then (integer x) (\<lambda>y. Inr (Some y)))) (\<lambda>ex.
     op_modify (update_transfer event
       (\<lambda>t. t\<lparr>at_descriptor := d, at_committed := (expiry \<noteq> None), at_expires_at := ex\<rparr>)))"

definition attachment_chunk :: "bytes \<Rightarrow> u64 \<Rightarrow> bytes \<Rightarrow> (delivery, sql_error, unit) op" where
  "attachment_chunk event off data s =
     (case integer off of
        Inl e \<Rightarrow> (Inl e, s)
      | Inr o' \<Rightarrow>
          if (\<exists>c \<in> set (attachment_chunks s). ac_event_id c = event \<and> ac_offset c = o') \<or>
             \<not> (\<exists>t \<in> set (attachment_transfers s). at_event_id t = event) then (Inl ConstraintViolation, s)
          else (Inr (), s\<lparr>attachment_chunks := attachment_chunks s @
            [\<lparr>ac_event_id = event, ac_offset = o', ac_data = data\<rparr>]\<rparr>))"

fun join_chunks :: "nat \<Rightarrow> bytes \<Rightarrow> chunk_row list \<Rightarrow> sql_error + bytes" where
  "join_chunks maxlen acc [] = Inr acc"
| "join_chunks maxlen acc (c # cs) =
     and_then (uint64 (ac_offset c)) (\<lambda>off.
     if off \<noteq> word_of_nat (length acc) \<or> length (ac_data c) > maxlen - length acc then Inl InvalidQuery
     else join_chunks maxlen (acc @ ac_data c) cs)"

definition attachment_bytes :: "bytes \<Rightarrow> nat \<Rightarrow> delivery \<Rightarrow> sql_error + bytes" where
  "attachment_bytes event maxlen s =
     join_chunks maxlen [] (sort_key ac_offset (filter (\<lambda>c. ac_event_id c = event) (attachment_chunks s)))"

definition attachment_clear_bytes :: "bytes \<Rightarrow> (delivery, sql_error, unit) op" where
  "attachment_clear_bytes event =
     op_then (op_modify (\<lambda>s. s\<lparr>attachment_chunks := filter (\<lambda>c. ac_event_id c \<noteq> event) (attachment_chunks s)\<rparr>))
       (\<lambda>_. attachment_offset event 0)"

section \<open>Steps, invariant, monotonicity\<close>

inductive delivery_step :: "delivery \<Rightarrow> delivery \<Rightarrow> bool" where
  "enqueue now m d e h c s = (r1, s') \<Longrightarrow> delivery_step s s'"
| "mark_attempt i s = (r1, s') \<Longrightarrow> delivery_step s s'"
| "mark_undeliverable i s = (r1, s') \<Longrightarrow> delivery_step s s'"
| "mark_accepted i x s = (r1, s') \<Longrightarrow> delivery_step s s'"
| "record_incoming now m d sq s = (r2, s') \<Longrightarrow> delivery_step s s'"
| "mark_acked m ds s = (r1, s') \<Longrightarrow> delivery_step s s'"
| "set_cursor m cu s = (r1, s') \<Longrightarrow> delivery_step s s'"
| "record_event_by now g ev k b sender s = (r1, s') \<Longrightarrow> delivery_step s s'"
| "update_event ev k b s = (r1, s') \<Longrightarrow> delivery_step s s'"
| "mark_read g cu s = (r3, s') \<Longrightarrow> delivery_step s s'"
| "attachment_create ev row s = (r1, s') \<Longrightarrow> delivery_step s s'"
| "attachment_state ev st s = (r1, s') \<Longrightarrow> delivery_step s s'"
| "attachment_offset ev off s = (r1, s') \<Longrightarrow> delivery_step s s'"
| "attachment_descriptor ev b x2 s = (r1, s') \<Longrightarrow> delivery_step s s'"
| "attachment_chunk ev off b s = (r1, s') \<Longrightarrow> delivery_step s s'"
| "attachment_clear_bytes ev s = (r1, s') \<Longrightarrow> delivery_step s s'"

definition ob_core :: "outbox_row \<Rightarrow> int \<times> bytes \<times> bytes \<times> bytes option \<times> bytes \<times> bytes \<times> int" where
  "ob_core r = (ob_id r, ob_mailbox_id r, ob_delivery_id r, ob_event_id r, ob_hpke_enc r, ob_ciphertext r,
     ob_created_at r)"

definition ib_core :: "inbox_row \<Rightarrow> bytes \<times> bytes \<times> int \<times> int" where
  "ib_core r = (ib_mailbox_id r, ib_delivery_id r, ib_seq r, ib_received_at r)"

definition ev_core :: "event_row \<Rightarrow> int \<times> bytes \<times> bytes \<times> int \<times> bytes option \<times> bytes option" where
  "ev_core e = (ev_id e, ev_group_id e, ev_event_id e, ev_created_at e, ev_sender_device e, ev_sender_identity e)"

definition map_grows :: "('k \<rightharpoonup> int) \<Rightarrow> ('k \<rightharpoonup> int) \<Rightarrow> bool" where
  "map_grows f g \<longleftrightarrow> (\<forall>k a. f k = Some a \<longrightarrow> (\<exists>b. g k = Some b \<and> a \<le> b))"

text \<open>Rows are only appended; of an existing row only its state, its attempts, its expiry, its
  acknowledgement or an event's kind and body change.\<close>

definition extends :: "delivery \<Rightarrow> delivery \<Rightarrow> bool" where
  "extends s s' \<longleftrightarrow>
     prefix (map ob_core (outbox s)) (map ob_core (outbox s')) \<and>
     prefix (map ib_core (inbox s)) (map ib_core (inbox s')) \<and>
     (\<forall>r \<in> set (inbox s). ib_acked r \<longrightarrow> (\<exists>r' \<in> set (inbox s'). ib_core r' = ib_core r \<and> ib_acked r')) \<and>
     prefix (map ev_core (events s)) (map ev_core (events s')) \<and>
     map_grows (mailbox_cursor s) (mailbox_cursor s') \<and> map_grows (read_markers s) (read_markers s')"

definition delivery_inv :: "delivery \<Rightarrow> bool" where
  "delivery_inv s \<longleftrightarrow>
     distinct (map ob_id (outbox s)) \<and> distinct (map (\<lambda>r. (ob_mailbox_id r, ob_delivery_id r)) (outbox s)) \<and>
     distinct (map (\<lambda>r. (ib_mailbox_id r, ib_delivery_id r)) (inbox s)) \<and>
     distinct (map ev_id (events s)) \<and> distinct (map ev_event_id (events s)) \<and>
     (\<forall>g c. read_markers s g = Some c \<longrightarrow> 0 < c \<and> (\<exists>n. newest g s = Some n \<and> c \<le> n)) \<and>
     (\<forall>e \<in> set (events s). 0 < ev_id e) \<and>
     (\<forall>t \<in> set (attachment_transfers s). at_event_id t \<in> ev_event_id ` set (events s)) \<and>
     (\<forall>c \<in> set (attachment_chunks s). ac_event_id c \<in> at_event_id ` set (attachment_transfers s))"

lemma map_grows_refl [simp]: "map_grows f f"
  by (simp add: map_grows_def)

lemma map_grows_trans: "map_grows f g \<Longrightarrow> map_grows g h \<Longrightarrow> map_grows f h"
  unfolding map_grows_def by (meson order_trans)

lemma map_grows_upd: "(\<And>a. f k = Some a \<Longrightarrow> a \<le> b) \<Longrightarrow> map_grows f (f(k \<mapsto> b))"
  by (simp add: map_grows_def)

lemma extends_refl [simp]: "extends s s"
  by (auto simp: extends_def)

lemma extends_trans: "extends s t \<Longrightarrow> extends t u \<Longrightarrow> extends s u"
  unfolding extends_def using map_grows_trans prefix_order.order_trans by (metis (no_types, lifting))

lemma next_id_fresh: "i \<in> set ids \<Longrightarrow> i < next_id ids"
proof -
  assume i: "i \<in> set ids"
  then have "i \<le> Max (set ids)" by simp
  with i show ?thesis by (auto simp: next_id_def)
qed

lemma map_update_core:
  "(\<And>r. core (f r) = core r) \<Longrightarrow> map core (map (\<lambda>r. if P r then f r else r) xs) = map core xs"
  by simp

lemma update_outbox_core [simp]:
  "(\<And>r. ob_core (f r) = ob_core r) \<Longrightarrow> map ob_core (outbox (update_outbox i f s)) = map ob_core (outbox s)"
  by (simp add: update_outbox_def)

lemma update_outbox_other [simp]:
  "inbox (update_outbox i f s) = inbox s" "mailbox_cursor (update_outbox i f s) = mailbox_cursor s"
  "events (update_outbox i f s) = events s" "read_markers (update_outbox i f s) = read_markers s"
  "attachment_transfers (update_outbox i f s) = attachment_transfers s"
  "attachment_chunks (update_outbox i f s) = attachment_chunks s"
  by (simp_all add: update_outbox_def)

lemma update_outbox_extends: "(\<And>r. ob_core (f r) = ob_core r) \<Longrightarrow> extends s (update_outbox i f s)"
  by (auto simp: extends_def)

lemma mark_acked_fold: "mark_acked m ds s = (Inr (), fold (ack_one m) ds s)"
proof -
  have "op_for ds (\<lambda>d. op_modify (ack_one m d)) s = (Inr (), fold (ack_one m) ds s)"
    by (induction ds arbitrary: s) (simp_all add: op_then_def)
  then show ?thesis by (simp only: mark_acked_def)
qed

lemma extends_inbox:
  assumes "map ib_core xs = map ib_core (inbox s)"
    and "\<And>q. q \<in> set (inbox s) \<Longrightarrow> ib_acked q \<Longrightarrow> \<exists>q' \<in> set xs. ib_core q' = ib_core q \<and> ib_acked q'"
  shows "extends s (s\<lparr>inbox := xs\<rparr>)"
  using assms by (simp add: extends_def)

lemma extends_events: "map ev_core xs = map ev_core (events s) \<Longrightarrow> extends s (s\<lparr>events := xs\<rparr>)"
  by (auto simp: extends_def)

lemma ack_one_extends: "extends s (ack_one m d s)"
proof -
  let ?f = "\<lambda>r. if ib_mailbox_id r = m \<and> ib_delivery_id r = d then r\<lparr>ib_acked := True\<rparr> else r"
  have "map ib_core (map ?f (inbox s)) = map ib_core (inbox s)"
    by (simp add: ib_core_def)
  moreover have "\<exists>q' \<in> set (map ?f (inbox s)). ib_core q' = ib_core q \<and> ib_acked q'"
    if "q \<in> set (inbox s)" "ib_acked q" for q
    using that by (intro bexI [of _ "?f q"]) (simp_all add: ib_core_def)
  ultimately show ?thesis
    unfolding ack_one_def by (rule extends_inbox)
qed

lemma ack_extends: "extends s (fold (ack_one m) ds s)"
  by (induction ds arbitrary: s) (auto intro: extends_trans ack_one_extends)

lemma ack_keeps [simp]:
  "outbox (fold (ack_one m) ds s) = outbox s" "events (fold (ack_one m) ds s) = events s"
  "read_markers (fold (ack_one m) ds s) = read_markers s"
  "attachment_transfers (fold (ack_one m) ds s) = attachment_transfers s"
  "attachment_chunks (fold (ack_one m) ds s) = attachment_chunks s"
  by (induction ds arbitrary: s) (simp_all add: ack_one_def)

lemma mark_read_grows:
  assumes "mark_read g c s = (r, s')"
  shows "s' = s\<lparr>read_markers := read_markers s'\<rparr>" and "map_grows (read_markers s) (read_markers s')"
    and "r = Inr (read_cursor g s')"
  using assms by (auto simp: mark_read_def Let_def intro!: map_grows_upd split: option.splits if_splits)

lemma update_transfer_other [simp]:
  "outbox (update_transfer e f s) = outbox s" "inbox (update_transfer e f s) = inbox s"
  "mailbox_cursor (update_transfer e f s) = mailbox_cursor s" "events (update_transfer e f s) = events s"
  "read_markers (update_transfer e f s) = read_markers s"
  "attachment_chunks (update_transfer e f s) = attachment_chunks s"
  by (simp_all add: update_transfer_def)

lemma attachment_steps_other:
  "attachment_offset e off s = (r, s') \<Longrightarrow> outbox s' = outbox s \<and> inbox s' = inbox s \<and>
     mailbox_cursor s' = mailbox_cursor s \<and> events s' = events s \<and> read_markers s' = read_markers s"
  "attachment_descriptor e b x s = (r, s') \<Longrightarrow> outbox s' = outbox s \<and> inbox s' = inbox s \<and>
     mailbox_cursor s' = mailbox_cursor s \<and> events s' = events s \<and> read_markers s' = read_markers s"
  "attachment_clear_bytes e s = (r, s') \<Longrightarrow> outbox s' = outbox s \<and> inbox s' = inbox s \<and>
     mailbox_cursor s' = mailbox_cursor s \<and> events s' = events s \<and> read_markers s' = read_markers s"
  by (auto simp: attachment_offset_def attachment_descriptor_def attachment_clear_bytes_def op_then_def
      split: sum.splits)

lemma delivery_step_extends: "delivery_step s s' \<Longrightarrow> extends s s'"
proof (induction rule: delivery_step.induct)
  case (1 now m d e h c s r1 s')
  then show ?case by (auto simp: enqueue_def extends_def split: if_splits)
next
  case (2 i s r1 s')
  then show ?case by (auto simp: mark_attempt_def ob_core_def intro!: update_outbox_extends)
next
  case (3 i s r1 s')
  then show ?case by (auto simp: mark_undeliverable_def ob_core_def intro!: update_outbox_extends)
next
  case (4 i x s r1 s')
  then show ?case by (auto simp: mark_accepted_def ob_core_def intro!: update_outbox_extends)
next
  case (5 now m d sq s r2 s')
  then show ?case by (auto simp: record_incoming_def extends_def split: if_splits)
next
  case (6 m ds s r1 s')
  then show ?case using ack_extends by (auto simp: mark_acked_fold)
next
  case (7 m cu s r1 s')
  then show ?case by (auto simp: set_cursor_def extends_def intro!: map_grows_upd split: option.splits)
next
  case (8 now g ev k b sender s r1 s')
  then show ?case by (auto simp: record_event_by_def extends_def split: if_splits)
next
  case (9 ev k b s r1 s')
  then have "s' = s\<lparr>events := map (\<lambda>e. if ev_event_id e = ev then e\<lparr>ev_kind := k, ev_body := b\<rparr> else e) (events s)\<rparr>"
    by (simp add: update_event_def)
  then show ?case
    by (simp only:) (rule extends_events, rule map_update_core, simp add: ev_core_def)
next
  case (10 g cu s r3 s')
  note g = mark_read_grows [OF this]
  have "extends s (s\<lparr>read_markers := read_markers s'\<rparr>)"
    using g(2) by (auto simp: extends_def)
  with g(1) show ?case by simp
next
  case (11 ev row s r1 s')
  then show ?case by (auto simp: attachment_create_def extends_def split: sum.splits if_splits)
next
  case (12 ev st s r1 s')
  then show ?case by (auto simp: attachment_state_def extends_def)
next
  case (13 ev off s r1 s')
  from attachment_steps_other(1) [OF this] show ?case by (simp add: extends_def) blast
next
  case (14 ev b x2 s r1 s')
  from attachment_steps_other(2) [OF this] show ?case by (simp add: extends_def) blast
next
  case (15 ev off b s r1 s')
  then show ?case by (auto simp: attachment_chunk_def extends_def split: sum.splits if_splits)
next
  case (16 ev s r1 s')
  from attachment_steps_other(3) [OF this] show ?case by (simp add: extends_def) blast
qed

lemma delivery_steps_extend: "delivery_step\<^sup>*\<^sup>* s s' \<Longrightarrow> extends s s'"
  by (induction rule: rtranclp_induct) (auto intro: extends_trans delivery_step_extends)

text \<open>The ids of a conversation's events, read off the cores.\<close>

definition group_ids :: "bytes \<Rightarrow> (int \<times> bytes \<times> bytes \<times> int \<times> bytes option \<times> bytes option) set \<Rightarrow> int set" where
  "group_ids g C = fst ` {x \<in> C. fst (snd x) = g}"

lemma newest_alt:
  "newest g s = (let I = group_ids g (ev_core ` set (events s)) in if I = {} then None else Some (Max I))"
proof -
  have "set (map ev_id (filter (\<lambda>e. ev_group_id e = g) (events s))) = group_ids g (ev_core ` set (events s))"
    by (force simp: group_ids_def ev_core_def)
  then show ?thesis
    unfolding newest_def Let_def by (metis set_empty)
qed

lemma newest_mono:
  assumes "prefix (map ev_core (events s)) (map ev_core (events s'))" and "newest g s = Some n"
  shows "\<exists>n'. newest g s' = Some n' \<and> n \<le> n'"
proof -
  let ?I = "\<lambda>s. group_ids g (ev_core ` set (events s))"
  have "ev_core ` set (events s) \<subseteq> ev_core ` set (events s')"
    using set_mono_prefix [OF assms(1)] by simp
  then have sub: "?I s \<subseteq> ?I s'" by (auto simp: group_ids_def)
  have ne: "?I s \<noteq> {}" and n: "n = Max (?I s)"
    using assms(2) by (auto simp: newest_alt Let_def split: if_splits)
  have fin: "finite (?I s')" by (simp add: group_ids_def)
  have "?I s' \<noteq> {}" using ne sub by blast
  then show ?thesis
    using Max_mono [OF sub ne fin] n by (simp add: newest_alt Let_def)
qed

lemma newest_cong: "map ev_core (events s') = map ev_core (events s) \<Longrightarrow> newest g s' = newest g s"
proof -
  assume "map ev_core (events s') = map ev_core (events s)"
  then have "ev_core ` set (events s') = ev_core ` set (events s)"
    by (metis set_map)
  then show ?thesis by (simp add: newest_alt)
qed

lemma map_core_eq:
  assumes "map core xs = map core ys" and "\<And>x. f x = h (core x)"
  shows "map f xs = map f ys"
proof -
  have "f = h \<circ> core" by (rule ext) (simp add: assms(2))
  then show ?thesis using arg_cong [OF assms(1), of "map h"] by simp
qed

lemma delivery_inv_cong:
  assumes ob: "map ob_core (outbox s') = map ob_core (outbox s)" and ib: "map ib_core (inbox s') = map ib_core (inbox s)"
    and ev: "map ev_core (events s') = map ev_core (events s)" and "read_markers s' = read_markers s"
    and at: "map at_event_id (attachment_transfers s') = map at_event_id (attachment_transfers s)"
    and "set (attachment_chunks s') \<subseteq> set (attachment_chunks s)"
    and inv: "delivery_inv s"
  shows "delivery_inv s'"
proof -
  have "map ob_id (outbox s') = map ob_id (outbox s)"
    by (rule map_core_eq [OF ob, of _ fst]) (simp add: ob_core_def)
  moreover have "map (\<lambda>r. (ob_mailbox_id r, ob_delivery_id r)) (outbox s') = map (\<lambda>r. (ob_mailbox_id r, ob_delivery_id r)) (outbox s)"
    by (rule map_core_eq [OF ob, of _ "\<lambda>(_, m, d, _). (m, d)"]) (simp add: ob_core_def)
  moreover have "map (\<lambda>r. (ib_mailbox_id r, ib_delivery_id r)) (inbox s') = map (\<lambda>r. (ib_mailbox_id r, ib_delivery_id r)) (inbox s)"
    by (rule map_core_eq [OF ib, of _ "\<lambda>(m, d, _). (m, d)"]) (simp add: ib_core_def)
  moreover have ids: "map ev_id (events s') = map ev_id (events s)"
    by (rule map_core_eq [OF ev, of _ fst]) (simp add: ev_core_def)
  moreover have eids: "map ev_event_id (events s') = map ev_event_id (events s)"
    by (rule map_core_eq [OF ev, of _ "\<lambda>(_, _, e, _). e"]) (simp add: ev_core_def)
  moreover have "\<forall>i \<in> set (map ev_id (events s')). 0 < i"
    unfolding ids using inv by (simp add: delivery_inv_def)
  then have "\<forall>e \<in> set (events s'). 0 < ev_id e" by simp
  moreover have "ev_event_id ` set (events s') = ev_event_id ` set (events s)"
    "at_event_id ` set (attachment_transfers s') = at_event_id ` set (attachment_transfers s)"
    using arg_cong [OF eids, of set] arg_cong [OF at, of set] by simp_all
  moreover have "\<forall>i \<in> set (map at_event_id (attachment_transfers s')). i \<in> ev_event_id ` set (events s)"
    unfolding at using inv by (simp add: delivery_inv_def)
  then have "\<forall>t \<in> set (attachment_transfers s'). at_event_id t \<in> ev_event_id ` set (events s)" by simp
  ultimately show ?thesis
    using inv assms(4,6) newest_cong [OF ev] unfolding delivery_inv_def by (simp add: subset_iff)
qed

lemma delivery_inv_new: "delivery_inv delivery_new"
  by (simp add: delivery_inv_def delivery_new_def)

lemma next_id_pos: "(\<And>i. i \<in> set ids \<Longrightarrow> 0 < i) \<Longrightarrow> 0 < next_id ids"
proof (cases "ids = []")
  case False
  assume pos: "\<And>i. i \<in> set ids \<Longrightarrow> 0 < i"
  have "Max (set ids) \<in> set ids" using False by simp
  then show ?thesis using pos False by (fastforce simp: next_id_def)
qed (simp add: next_id_def)

lemma next_id_notin: "next_id ids \<notin> set ids"
  using next_id_fresh by blast

lemma newest_pos: "delivery_inv s \<Longrightarrow> newest g s = Some n \<Longrightarrow> 0 < n"
proof -
  assume inv: "delivery_inv s" and n: "newest g s = Some n"
  let ?ids = "map ev_id (filter (\<lambda>e. ev_group_id e = g) (events s))"
  have "?ids \<noteq> []" "n = Max (set ?ids)"
    using n by (auto simp: newest_def Let_def split: if_splits)
  then have "n \<in> set ?ids" by (metis Max_in List.finite_set set_empty)
  then show ?thesis using inv by (auto simp: delivery_inv_def)
qed

lemma enqueue_inv: "enqueue now m d e h c s = (r, s') \<Longrightarrow> delivery_inv s \<Longrightarrow> delivery_inv s'"
  using next_id_notin [of "map ob_id (outbox s)"]
  by (auto simp: enqueue_def delivery_inv_def newest_def split: if_splits)

lemma record_incoming_inv: "record_incoming now m d sq s = (r, s') \<Longrightarrow> delivery_inv s \<Longrightarrow> delivery_inv s'"
  by (auto simp: record_incoming_def delivery_inv_def newest_def split: if_splits)

lemma record_event_inv:
  assumes "record_event_by now g ev k b sender s = (r, s')" and inv: "delivery_inv s"
  shows "delivery_inv s'"
proof (cases "\<exists>e \<in> set (events s). ev_event_id e = ev")
  case True
  then show ?thesis using assms by (simp add: record_event_by_def)
next
  case False
  let ?new = "\<lparr>ev_id = next_id (map ev_id (events s)), ev_group_id = g, ev_event_id = ev, ev_kind = k,
    ev_body = b, ev_created_at = now, ev_sender_device = Option.bind sender es_device_id,
    ev_sender_identity = Option.bind sender es_identity_id\<rparr>"
  have s': "s' = s\<lparr>events := events s @ [?new]\<rparr>"
    using assms(1) False by (auto simp: record_event_by_def)
  have "prefix (map ev_core (events s)) (map ev_core (events s'))"
    by (simp add: s')
  then have marks: "0 < c \<and> (\<exists>n. newest h s' = Some n \<and> c \<le> n)" if "read_markers s h = Some c" for h c
    using inv newest_mono [of s s' h] that unfolding delivery_inv_def by (meson order_trans)
  have "ev_id ?new > 0"
    using next_id_pos [of "map ev_id (events s)"] inv by (auto simp: delivery_inv_def)
  then show ?thesis
    using marks inv False next_id_notin [of "map ev_id (events s)"] unfolding delivery_inv_def s' by auto
qed

lemma mark_read_inv:
  assumes m: "mark_read g c s = (r, s')" and inv: "delivery_inv s"
  shows "delivery_inv s'"
proof (cases "newest g s")
  case None
  then show ?thesis using assms by (simp add: mark_read_def)
next
  case (Some n)
  have pos: "0 < n" using newest_pos [OF inv Some] .
  define v where "v = (case read_markers s g of None \<Rightarrow> min c n | Some old \<Rightarrow> max old (min c n))"
  have s': "s' = (if c > 0 then s\<lparr>read_markers := (read_markers s)(g \<mapsto> v)\<rparr> else s)"
    using m Some by (auto simp: mark_read_def v_def Let_def)
  have old: "0 < a \<and> a \<le> n" if "read_markers s g = Some a" for a
    using inv Some that unfolding delivery_inv_def by fastforce
  have v: "c > 0 \<Longrightarrow> 0 < v \<and> v \<le> n"
    using pos old by (auto simp: v_def split: option.splits)
  have "newest h s' = newest h s" for h
    by (simp add: s' newest_def)
  then show ?thesis
    using inv v Some unfolding delivery_inv_def by (auto simp: s' split: if_splits)
qed

lemma attachment_create_inv: "attachment_create ev row s = (r, s') \<Longrightarrow> delivery_inv s \<Longrightarrow> delivery_inv s'"
  by (auto simp: attachment_create_def delivery_inv_def newest_def split: sum.splits if_splits)

lemma attachment_chunk_inv: "attachment_chunk ev off b s = (r, s') \<Longrightarrow> delivery_inv s \<Longrightarrow> delivery_inv s'"
  by (auto simp: attachment_chunk_def delivery_inv_def newest_def split: sum.splits if_splits)

lemma update_transfer_inv:
  "(\<And>t. at_event_id (f t) = at_event_id t) \<Longrightarrow> delivery_inv s \<Longrightarrow> delivery_inv (update_transfer e f s)"
  by (rule delivery_inv_cong [of _ s]) (auto simp: update_transfer_def)

lemma attachment_updates_inv:
  "attachment_state ev st s = (r, s') \<Longrightarrow> delivery_inv s \<Longrightarrow> delivery_inv s'"
  "attachment_offset ev off s = (r, s') \<Longrightarrow> delivery_inv s \<Longrightarrow> delivery_inv s'"
  "attachment_descriptor ev b x s = (r, s') \<Longrightarrow> delivery_inv s \<Longrightarrow> delivery_inv s'"
  by (auto simp: attachment_state_def attachment_offset_def attachment_descriptor_def op_then_def
      intro!: update_transfer_inv split: sum.splits)

lemma attachment_clear_inv:
  assumes "attachment_clear_bytes ev s = (r, s')" and "delivery_inv s"
  shows "delivery_inv s'"
proof -
  let ?t = "s\<lparr>attachment_chunks := filter (\<lambda>c. ac_event_id c \<noteq> ev) (attachment_chunks s)\<rparr>"
  have "delivery_inv ?t"
    by (rule delivery_inv_cong [OF _ _ _ _ _ _ assms(2)]) auto
  then show ?thesis
    using assms(1) attachment_updates_inv(2) [of ev 0 ?t r s'] by (simp add: attachment_clear_bytes_def op_then_def)
qed

lemma ack_one_inv: "delivery_inv s \<Longrightarrow> delivery_inv (ack_one m d s)"
  by (rule delivery_inv_cong [of _ s]) (auto simp: ack_one_def ib_core_def)

lemma delivery_step_inv: "delivery_step s s' \<Longrightarrow> delivery_inv s \<Longrightarrow> delivery_inv s'"
proof (induction rule: delivery_step.induct)
  case (1 now m d e h c s r1 s')
  then show ?case by (rule enqueue_inv)
next
  case (2 i s r1 s')
  then show ?case
    by (intro delivery_inv_cong [of s' s]) (auto simp: mark_attempt_def ob_core_def update_outbox_def)
next
  case (3 i s r1 s')
  then show ?case
    by (intro delivery_inv_cong [of s' s]) (auto simp: mark_undeliverable_def ob_core_def update_outbox_def)
next
  case (4 i x s r1 s')
  then show ?case
    by (intro delivery_inv_cong [of s' s]) (auto simp: mark_accepted_def ob_core_def update_outbox_def)
next
  case (5 now m d sq s r2 s')
  then show ?case by (rule record_incoming_inv)
next
  case (6 m ds s r1 s')
  have "delivery_inv (fold (ack_one m) ds s)" using 6(2)
    by (induction ds arbitrary: s) (auto intro: ack_one_inv)
  then show ?case using 6(1) by (simp add: mark_acked_fold)
next
  case (7 m cu s r1 s')
  then show ?case by (intro delivery_inv_cong [of s' s]) (auto simp: set_cursor_def)
next
  case (8 now g ev k b sender s r1 s')
  then show ?case by (rule record_event_inv)
next
  case (9 ev k b s r1 s')
  then show ?case
    by (intro delivery_inv_cong [of s' s]) (auto simp: update_event_def ev_core_def)
next
  case (10 g cu s r3 s')
  then show ?case by (rule mark_read_inv)
next
  case (11 ev row s r1 s')
  then show ?case by (rule attachment_create_inv)
next
  case (12 ev st s r1 s')
  then show ?case by (rule attachment_updates_inv)
next
  case (13 ev off s r1 s')
  then show ?case by (rule attachment_updates_inv)
next
  case (14 ev b x2 s r1 s')
  then show ?case by (rule attachment_updates_inv)
next
  case (15 ev off b s r1 s')
  then show ?case by (rule attachment_chunk_inv)
next
  case (16 ev s r1 s')
  then show ?case by (rule attachment_clear_inv)
qed

lemma delivery_reachable_inv: "delivery_step\<^sup>*\<^sup>* delivery_new s \<Longrightarrow> delivery_inv s"
  by (induction rule: rtranclp_induct) (auto intro: delivery_inv_new delivery_step_inv)

section \<open>Reading a conversation page by page\<close>

text \<open>What a reader sees who asks for the newest page and then for the page before the last
  event it got, until a page is empty; the first argument bounds the number of requests.\<close>

fun read_pages :: "nat \<Rightarrow> bytes \<Rightarrow> int option \<Rightarrow> nat \<Rightarrow> delivery \<Rightarrow> event_row list" where
  "read_pages 0 g before limit s = []"
| "read_pages (Suc k) g before limit s =
     (let page = events_page g before limit s in
      if page = [] then [] else page @ read_pages k g (Some (ev_id (last page))) limit s)"

lemma events_page_alt:
  "events_page g before limit s =
     take limit (filter (\<lambda>e. case before of None \<Rightarrow> True | Some b \<Rightarrow> ev_id e < b) (rev (group_events g s)))"
proof -
  have "filter (\<lambda>e. ev_group_id e = g \<and> (case before of None \<Rightarrow> True | Some b \<Rightarrow> ev_id e < b)) (events s) =
      filter (\<lambda>e. case before of None \<Rightarrow> True | Some b \<Rightarrow> ev_id e < b) (filter (\<lambda>e. ev_group_id e = g) (events s))"
    by (simp add: conj_commute)
  then show ?thesis
    unfolding events_page_def group_events_def by (simp add: filter_sort [symmetric] rev_filter [symmetric])
qed

lemma group_events_descending:
  assumes "distinct (map ev_id (events s))"
  shows "sorted_wrt (\<lambda>a b. ev_id b < ev_id a) (rev (group_events g s))"
proof -
  let ?L = "group_events g s"
  have "distinct (map ev_id (filter (\<lambda>e. ev_group_id e = g) (events s)))"
    using assms by (rule distinct_map_filter)
  then have "distinct (map ev_id ?L)"
    unfolding group_events_def distinct_map by (simp add: distinct_sort)
  moreover have "sorted (map ev_id ?L)"
    by (simp add: group_events_def)
  ultimately have "sorted_wrt (<) (map ev_id ?L)"
    by (simp add: strict_sorted_iff)
  then show ?thesis
    by (simp add: sorted_wrt_map sorted_wrt_rev)
qed

lemma filter_below_last:
  assumes "sorted_wrt (\<lambda>a b. ev_id b < ev_id a) (xs @ ys)" and "xs \<noteq> []"
  shows "filter (\<lambda>e. ev_id e < ev_id (last xs)) (xs @ ys) = ys"
proof -
  have "\<not> ev_id e < ev_id (last xs)" if "e \<in> set xs" for e
  proof -
    have "xs = butlast xs @ [last xs]" using assms(2) by simp
    then have "sorted_wrt (\<lambda>a b. ev_id b < ev_id a) (butlast xs @ [last xs])"
      using assms(1) by (metis sorted_wrt_append)
    then have "\<forall>x \<in> set (butlast xs). ev_id (last xs) < ev_id x"
      by (simp add: sorted_wrt_append)
    then show ?thesis
      using that assms(2) by (metis append_butlast_last_id in_set_butlastD less_asym less_irrefl
          list.set_intros(1) rotate1.simps(2) set_ConsD set_rotate1)
  qed
  moreover have "ev_id e < ev_id (last xs)" if "e \<in> set ys" for e
    using assms that by (auto simp: sorted_wrt_append)
  ultimately show ?thesis
    by (simp add: filter_empty_conv filter_id_conv)
qed

lemma read_pages_from:
  assumes d: "distinct (map ev_id (events s))" and l: "0 < limit"
  shows "rev (group_events g s) = xs @ ys \<Longrightarrow> xs \<noteq> [] \<Longrightarrow> length ys \<le> k \<Longrightarrow>
    read_pages k g (Some (ev_id (last xs))) limit s = ys"
proof (induction k arbitrary: xs ys)
  case (Suc k)
  let ?p = "take limit ys"
  have page: "events_page g (Some (ev_id (last xs))) limit s = ?p"
    using filter_below_last [of xs ys] group_events_descending [OF d, of g] Suc.prems
    by (simp add: events_page_alt)
  show ?case
  proof (cases "ys = []")
    case False
    then have ne: "?p \<noteq> []" using l by simp
    have "length (drop limit ys) \<le> k"
      using Suc.prems(3) l by simp
    moreover have "rev (group_events g s) = (xs @ ?p) @ drop limit ys"
      using Suc.prems(1) by simp
    ultimately have "read_pages k g (Some (ev_id (last (xs @ ?p)))) limit s = drop limit ys"
      using Suc.prems(2) by (intro Suc.IH) simp_all
    then show ?thesis using ne page by (simp add: Let_def)
  qed (use page in simp)
qed simp

lemma read_pages_all:
  assumes "distinct (map ev_id (events s))" and "0 < limit" and "length (group_events g s) < k"
  shows "read_pages k g None limit s = rev (group_events g s)"
proof -
  obtain k' where k: "k = Suc k'" using assms(3) by (cases k) auto
  let ?L = "rev (group_events g s)"
  have page: "events_page g None limit s = take limit ?L"
    by (simp add: events_page_alt)
  show ?thesis
  proof (cases "?L = []")
    case False
    then have ne: "take limit ?L \<noteq> []" using assms(2) by simp
    have "read_pages k' g (Some (ev_id (last (take limit ?L)))) limit s = drop limit ?L"
      using assms ne k by (intro read_pages_from) simp_all
    then show ?thesis using k page ne by (simp add: Let_def)
  qed (use k page in simp)
qed

section \<open>Properties\<close>

text \<open>The bytes and the identity of what is in the outbox, the inbox and the events: a later state
  still has every one of them, in the order they came, whatever was done in between.\<close>

text \<open>C13. From an empty profile, any sequence of the outbox, inbox, event and attachment
  operations keeps the ids and the identities of rows unique, keeps every read marker at or
  below the newest event of its conversation, keeps transfers and chunks attached to an event;
  and from any point of such a sequence on nothing recorded is lost, reordered or resealed,
  nothing acknowledged becomes unacknowledged and no cursor moves back.\<close>

theorem delivery_runs:
  assumes "delivery_step\<^sup>*\<^sup>* delivery_new s" and "delivery_step\<^sup>*\<^sup>* s s'"
  shows "delivery_inv s' \<and> extends s s'"
  using delivery_reachable_inv [OF rtranclp_trans [OF assms]] delivery_steps_extend [OF assms(2)] by simp

definition demo_delivery :: delivery where
  "demo_delivery = snd (record_event_by 7 [1] [9] ''received'' [65] None
     (snd (record_event_by 6 [1] [8] ''sent'' [66] None delivery_new)))"

lemma demo_delivery_reachable: "delivery_step\<^sup>*\<^sup>* delivery_new demo_delivery"
  unfolding demo_delivery_def
  by (rule rtranclp.rtrancl_into_rtrancl [OF r_into_rtranclp];
      rule delivery_step.intros(8) [OF prod.collapse [symmetric]])

theorem delivery_runs_witness:
  "delivery_inv (snd (mark_read [1] 5 demo_delivery)) \<and>
   extends demo_delivery (snd (mark_read [1] 5 demo_delivery))"
  by (rule delivery_runs [OF demo_delivery_reachable])
    (rule r_into_rtranclp, rule delivery_step.intros(10) [OF prod.collapse [symmetric]])

text \<open>C14. An envelope is new at most once: once a delivery has been recorded for a mailbox, every
  later recording of the same delivery, after any operations in between, answers that it is a
  duplicate and changes nothing.\<close>

theorem delivery_new_at_most_once:
  assumes "record_incoming now m d sq s = (Inr b, t)" and "delivery_step\<^sup>*\<^sup>* t s'"
  shows "record_incoming now' m d sq' s' = (Inr False, s')"
proof -
  have "\<exists>r \<in> set (inbox t). ib_mailbox_id r = m \<and> ib_delivery_id r = d"
    using assms(1) by (auto simp: record_incoming_def split: if_splits)
  then obtain r where r: "r \<in> set (inbox t)" "ib_mailbox_id r = m" "ib_delivery_id r = d"
    by blast
  have "ib_core r \<in> set (map ib_core (inbox s'))"
    using delivery_steps_extend [OF assms(2)] r(1) set_mono_prefix unfolding extends_def by fastforce
  then obtain r' where "r' \<in> set (inbox s')" "ib_core r' = ib_core r" by auto
  with r have "\<exists>r \<in> set (inbox s'). ib_mailbox_id r = m \<and> ib_delivery_id r = d"
    by (auto simp: ib_core_def)
  then show ?thesis by (simp add: record_incoming_def)
qed

theorem delivery_new_at_most_once_witness:
  "record_incoming 9 [1] [2] 4 (snd (mark_acked [1] [[2]] (snd (record_incoming 7 [1] [2] 3 delivery_new)))) =
     (Inr False, snd (mark_acked [1] [[2]] (snd (record_incoming 7 [1] [2] 3 delivery_new))))"
proof (rule delivery_new_at_most_once)
  show "record_incoming 7 [1] [2] 3 delivery_new = (Inr True, snd (record_incoming 7 [1] [2] 3 delivery_new))"
    by (simp add: record_incoming_def delivery_new_def)
  show "delivery_step\<^sup>*\<^sup>* (snd (record_incoming 7 [1] [2] 3 delivery_new))
     (snd (mark_acked [1] [[2]] (snd (record_incoming 7 [1] [2] 3 delivery_new))))"
    by (rule r_into_rtranclp, rule delivery_step.intros(6) [OF prod.collapse [symmetric]])
qed

lemma newest_in: "newest g s = Some n \<Longrightarrow> \<exists>e \<in> set (events s). ev_group_id e = g \<and> ev_id e = n"
proof -
  let ?ids = "map ev_id (filter (\<lambda>e. ev_group_id e = g) (events s))"
  assume "newest g s = Some n"
  then have ne: "?ids \<noteq> []" and n: "n = Max (set ?ids)"
    by (auto simp: newest_def Let_def split: if_splits)
  from ne have "set ?ids \<noteq> {}" by (simp only: set_empty not_False_eq_True)
  then have "n \<in> set ?ids" unfolding n by (intro Max_in) simp_all
  then show ?thesis by auto
qed

lemma newest_ge: "newest g s = Some n \<Longrightarrow> e \<in> set (events s) \<Longrightarrow> ev_group_id e = g \<Longrightarrow> ev_id e \<le> n"
  by (auto simp: newest_def Let_def split: if_splits)

lemma mark_read_other: "mark_read g c s = (r, s') \<Longrightarrow> h \<noteq> g \<Longrightarrow> read_cursor h s' = read_cursor h s"
  by (auto simp: mark_read_def read_cursor_def Let_def split: option.splits if_splits)

lemma unread_count_antimono:
  assumes "events s' = events s" and "read_cursor g s \<le> read_cursor g s'"
  shows "unread_count g own s' \<le> unread_count g own s"
proof -
  have "filter (\<lambda>e. ev_group_id e = g \<and> ev_id e > read_cursor g s' \<and> counts_as_unread own e) (events s) =
      filter (\<lambda>e. ev_id e > read_cursor g s')
        (filter (\<lambda>e. ev_group_id e = g \<and> ev_id e > read_cursor g s \<and> counts_as_unread own e) (events s))"
    using assms(2) by (auto intro!: filter_cong)
  then show ?thesis
    unfolding unread_count_def by (simp only: assms(1) length_filter_le)
qed

lemma mark_read_cursor:
  assumes "delivery_inv s" and "mark_read g c s = (r, s')"
  shows "read_cursor g s' = (case newest g s of None \<Rightarrow> 0 | Some n \<Rightarrow> max (read_cursor g s) (min c n))"
proof -
  have pos: "0 < n" if "newest g s = Some n" for n
    using newest_in [OF that] assms(1) by (auto simp: delivery_inv_def)
  have "newest g s \<noteq> None \<and> 0 < k" if "read_markers s g = Some k" for k
    using assms(1) that unfolding delivery_inv_def by (metis option.distinct(1))
  with pos assms(2) show ?thesis
    by (fastforce simp: mark_read_def Let_def read_cursor_def split: option.splits if_splits)
qed

lemma mark_read_mono:
  assumes "delivery_inv s" and "mark_read g c s = (r, s')"
  shows "read_cursor h s \<le> read_cursor h s'"
proof (cases "h = g")
  case True
  have "read_cursor g s = 0" if "newest g s = None"
    using assms(1) that by (fastforce simp: delivery_inv_def read_cursor_def split: option.splits)
  with True mark_read_cursor [OF assms] show ?thesis
    by (auto split: option.splits)
qed (use mark_read_other [OF assms(2)] in simp)

lemma unread_count_zero:
  assumes "newest g s = Some n" and "n \<le> read_cursor g s"
  shows "unread_count g own s = 0"
proof -
  have "ev_id e \<le> read_cursor g s" if "e \<in> set (events s)" "ev_group_id e = g" for e
    using newest_ge [OF assms(1) that] assms(2) by simp
  then show ?thesis
    by (fastforce simp: unread_count_def filter_empty_conv)
qed

lemma unread_count_append:
  assumes "events t = events s @ [e]" and "read_markers t = read_markers s" and "ev_group_id e = g"
    and "read_cursor g s < ev_id e" and "counts_as_unread own e"
  shows "unread_count g own t = Suc (unread_count g own s)"
proof -
  have "read_cursor g t = read_cursor g s" using assms(2) by (simp add: read_cursor_def)
  with assms show ?thesis by (simp add: unread_count_def)
qed

lemma read_cursor_below_next:
  assumes "delivery_inv s"
  shows "read_cursor g s < next_id (map ev_id (events s))"
proof -
  have "\<exists>e \<in> set (events s). c \<le> ev_id e" if m: "read_markers s g = Some c" for c
  proof -
    obtain n where n: "newest g s = Some n" "c \<le> n"
      using assms m unfolding delivery_inv_def by blast
    from newest_in [OF n(1)] n(2) show ?thesis by auto
  qed
  moreover have "0 < next_id (map ev_id (events s))"
  proof (cases "events s")
    case (Cons e es)
    then show ?thesis
      using assms next_id_fresh [of "ev_id e" "map ev_id (events s)"] by (auto simp: delivery_inv_def)
  qed (simp add: next_id_def)
  ultimately show ?thesis
    using next_id_fresh [of _ "map ev_id (events s)"]
    by (fastforce simp: read_cursor_def split: option.splits)
qed

lemma mark_read_events: "mark_read g c s = (r, s') \<Longrightarrow> events s' = events s"
  by (auto simp: mark_read_def Let_def split: option.splits if_splits)

text \<open>Reading: marking a conversation read moves its marker to the cursor, never back and never
  past the newest event; no other conversation is touched, no event becomes unread by it,
  marking the newest event leaves nothing unread, and a message of somebody else that is
  recorded afterwards is counted.\<close>

theorem mark_read_correct:
  assumes "delivery_step\<^sup>*\<^sup>* delivery_new s" and "mark_read g c s = (r, s')"
  shows "r = Inr (read_cursor g s') \<and>
    read_cursor g s' = (case newest g s of None \<Rightarrow> 0 | Some n \<Rightarrow> max (read_cursor g s) (min c n)) \<and>
    unread_count h own s' \<le> unread_count h own s \<and>
    (h \<noteq> g \<longrightarrow> unread_count h own s' = unread_count h own s) \<and>
    (\<forall>n. newest g s = Some n \<and> n \<le> c \<longrightarrow> unread_count g own s' = 0) \<and>
    (\<forall>now ev k b sender t. record_event_by now g ev k b sender s' = (Inr (), t) \<and>
       k \<notin> set (OWN_KINDS @ NOTICE_KINDS) \<and> (own = None \<or> Option.bind sender es_identity_id \<noteq> own) \<longrightarrow>
       unread_count g own t = Suc (unread_count g own s'))"
proof (intro conjI impI allI)
  have inv: "delivery_inv s" using assms(1) by (rule delivery_reachable_inv)
  show "r = Inr (read_cursor g s')" using mark_read_grows(3) [OF assms(2)] .
  show cur: "read_cursor g s' = (case newest g s of None \<Rightarrow> 0 | Some n \<Rightarrow> max (read_cursor g s) (min c n))"
    using inv assms(2) by (rule mark_read_cursor)
  show "h \<noteq> g \<Longrightarrow> unread_count h own s' = unread_count h own s"
    using mark_read_other [OF assms(2)] mark_read_events [OF assms(2)] by (simp add: unread_count_def)
  show "unread_count h own s' \<le> unread_count h own s"
    using mark_read_events [OF assms(2)] mark_read_mono [OF inv assms(2)] by (rule unread_count_antimono)
  show "unread_count g own s' = 0" if "newest g s = Some n \<and> n \<le> c" for n
    using that cur mark_read_events [OF assms(2)]
    by (intro unread_count_zero [of g s' n]) (simp_all add: newest_def)
  show "unread_count g own t = Suc (unread_count g own s')"
    if "record_event_by now g ev k b sender s' = (Inr (), t) \<and> k \<notin> set (OWN_KINDS @ NOTICE_KINDS) \<and>
      (own = None \<or> Option.bind sender es_identity_id \<noteq> own)" for now ev k b sender t
    using that read_cursor_below_next [OF mark_read_inv [OF assms(2) inv], of g]
    by (intro unread_count_append) (auto simp: record_event_by_def counts_as_unread_def split: if_splits)
qed

theorem mark_read_correct_witness:
  "read_cursor [1] (snd (mark_read [1] 2 demo_delivery)) = 2 \<and>
   unread_count [1] (Some [4]) demo_delivery = 1 \<and>
   unread_count [1] (Some [4]) (snd (mark_read [1] 2 demo_delivery)) = 0"
proof -
  have demo: "newest [1] demo_delivery = Some 2" "read_cursor [1] demo_delivery = 0"
    "unread_count [1] (Some [4]) demo_delivery = 1"
    by (simp_all add: demo_delivery_def record_event_by_def delivery_new_def newest_def next_id_def
        read_cursor_def unread_count_def counts_as_unread_def OWN_KINDS_def NOTICE_KINDS_def DEVICES_CHANGED_def)
  show ?thesis
    using mark_read_correct [OF demo_delivery_reachable prod.collapse [symmetric], of "[1]" 2 "[1]" "Some [4]"]
      demo by simp
qed

text \<open>Paging: a reader who asks for the newest page of a conversation and then, again and again,
  for the page before the last event it got, reads every event of the conversation exactly once,
  newest first, whatever the page size, and ends.\<close>

theorem paging_complete:
  assumes "delivery_step\<^sup>*\<^sup>* delivery_new s" and "0 < limit" and "events_count g s < k"
  shows "read_pages k g None limit s = rev (group_events g s) \<and> distinct (read_pages k g None limit s) \<and>
    set (read_pages k g None limit s) = {e \<in> set (events s). ev_group_id e = g}"
proof -
  have d: "distinct (map ev_id (events s))"
    using delivery_reachable_inv [OF assms(1)] by (simp add: delivery_inv_def)
  have "read_pages k g None limit s = rev (group_events g s)"
    using d assms(2,3) by (intro read_pages_all) (simp_all add: events_count_def group_events_def)
  moreover have "distinct (events s)" using d by (simp add: distinct_map)
  ultimately show ?thesis by (auto simp: group_events_def)
qed

theorem paging_complete_witness:
  "map ev_event_id (read_pages 3 [1] None 1 demo_delivery) = [[9], [8]]"
proof -
  have "read_pages 3 [1] None 1 demo_delivery = rev (group_events [1] demo_delivery)"
    using paging_complete [OF demo_delivery_reachable, of 1 "[1]" 3]
    by (simp add: demo_delivery_def record_event_by_def delivery_new_def events_count_def)
  then show ?thesis
    by (simp add: demo_delivery_def record_event_by_def delivery_new_def group_events_def next_id_def)
qed

section \<open>Transferred bytes\<close>

text \<open>Chunks that continue each other from an offset.\<close>

fun contiguous :: "nat \<Rightarrow> chunk_row list \<Rightarrow> bool" where
  "contiguous n [] = True"
| "contiguous n (c # cs) = (ac_offset c = int n \<and> contiguous (n + length (ac_data c)) cs)"

lemma join_chunks_iff:
  assumes "length acc \<le> maxlen" and "maxlen < 2 ^ 63" and "\<forall>c \<in> set cs. ac_offset c < 2 ^ 63"
  shows "join_chunks maxlen acc cs = Inr b \<longleftrightarrow>
    contiguous (length acc) cs \<and> b = acc @ concat (map ac_data cs) \<and> length b \<le> maxlen"
  using assms(1,3)
proof (induction cs arbitrary: acc)
  case (Cons c cs)
  have off: "(0 \<le> ac_offset c \<and> (word_of_int (ac_offset c) :: u64) = word_of_nat (length acc)) \<longleftrightarrow>
      ac_offset c = int (length acc)"
  proof
    assume *: "0 \<le> ac_offset c \<and> (word_of_int (ac_offset c) :: u64) = word_of_nat (length acc)"
    have "uint (word_of_int (ac_offset c) :: u64) = ac_offset c"
      using * Cons.prems(2) by (intro word_of_int_inverse [OF HOL.refl]) simp_all
    moreover have "uint (word_of_int (int (length acc)) :: u64) = int (length acc)"
      using Cons.prems(1) assms(2) by (intro word_of_int_inverse [OF HOL.refl]) simp_all
    ultimately show "ac_offset c = int (length acc)"
      using * by (metis of_int_of_nat_eq)
  qed simp
  show ?case
  proof (cases "ac_offset c = int (length acc) \<and> length (ac_data c) \<le> maxlen - length acc")
    case True
    then have "length (acc @ ac_data c) \<le> maxlen" using Cons.prems(1) by auto
    then show ?thesis
      using True Cons.IH [of "acc @ ac_data c"] Cons.prems off by (simp add: uint64_def)
  next
    case False
    then show ?thesis
      using off Cons.prems by (auto simp: uint64_def not_le)
  qed
qed auto

text \<open>The offsets SQLite holds are non-negative 64-bit integers.\<close>

definition chunk_offsets :: "delivery \<Rightarrow> bool" where
  "chunk_offsets s \<longleftrightarrow> (\<forall>c \<in> set (attachment_chunks s). ac_offset c < 2 ^ 63)"

lemma chunk_offsets_step: "delivery_step s s' \<Longrightarrow> chunk_offsets s \<Longrightarrow> chunk_offsets s'"
proof (induction rule: delivery_step.induct)
  case (6 m ds s r1 s')
  then show ?case by (auto simp: mark_acked_fold chunk_offsets_def)
next
  case (10 g cu s r3 s')
  then show ?case by (auto simp: mark_read_def Let_def chunk_offsets_def split: option.splits if_splits)
qed (auto simp: chunk_offsets_def enqueue_def mark_attempt_def mark_undeliverable_def mark_accepted_def
  record_incoming_def set_cursor_def record_event_by_def update_event_def attachment_create_def
  attachment_state_def attachment_offset_def attachment_descriptor_def attachment_chunk_def
  attachment_clear_bytes_def op_then_def integer_def split: if_splits sum.splits)

lemma chunk_offsets_reachable: "delivery_step\<^sup>*\<^sup>* delivery_new s \<Longrightarrow> chunk_offsets s"
proof (induction rule: rtranclp_induct)
  case base
  show ?case by (simp add: chunk_offsets_def delivery_new_def)
qed (rule chunk_offsets_step)

text \<open>The stored bytes of a transfer are returned exactly when its chunks, in offset order, start
  at zero and continue one another without gap or overlap, and fit the limit; then they are the
  chunks' bytes in that order.\<close>

theorem attachment_bytes_exact:
  assumes "delivery_step\<^sup>*\<^sup>* delivery_new s" and "maxlen < 2 ^ 63"
  shows "attachment_bytes ev maxlen s = Inr b \<longleftrightarrow>
    (let cs = sort_key ac_offset (filter (\<lambda>c. ac_event_id c = ev) (attachment_chunks s)) in
     contiguous 0 cs \<and> b = concat (map ac_data cs) \<and> length b \<le> maxlen)"
  using join_chunks_iff [of "[]" maxlen "sort_key ac_offset (filter (\<lambda>c. ac_event_id c = ev) (attachment_chunks s))" b]
    chunk_offsets_reachable [OF assms(1)] assms(2)
  by (simp add: attachment_bytes_def chunk_offsets_def Let_def)

theorem attachment_bytes_exact_witness:
  "attachment_bytes [9] 10 demo_delivery = Inr []"
  using attachment_bytes_exact [OF demo_delivery_reachable, of 10 "[9]" "[]"]
  by (simp add: demo_delivery_def record_event_by_def delivery_new_def)

end
