(* ===== verification/Client_State.thy ===== *)
theory Client_State
  imports Identity Storage Delivery Text
begin

text \<open>
  The tables of \<open>CLIENT_SCHEMA\<close> in \<open>core/crates/arveil-core/src/client.rs\<close>, with the columns that
  the later migrations of \<open>schema.rs\<close> add, as one record \<open>client\<close>: the state that \<open>Client\<close> keeps
  behind its connection. A table with one row (\<open>CHECK (id = 1)\<close>) is an option, a table whose rows
  are only looked up by their key is a map, every other table is the list of its rows in row-id order.

  Integers that Rust casts with \<open>as i64\<close> are stored as \<open>as_i64\<close>, so the order SQLite sorts by is
  the signed one. What Rust draws from the operating system (keys, capabilities, secrets) and from
  \<open>mls-rs\<close> is an argument of the operation that draws it; where drawing may fail the argument is a
  result. A panic (\<open>expect\<close>) is the error \<open>Panic\<close>.
\<close>

section \<open>Errors\<close>

datatype client_error =
    ClSqlite sql_error
  | ClIdentity identity_error
  | ClEndpointList endpoint_list_error
  | IdentityExists
  | NoIdentity
  | NoDevice
  | ClMls
  | KeyPackagePublication
  | NoRoot
  | GrantMismatch
  | GrantManifest
  | InvalidCompletionPhase int
  | DeviceExists
  | UnknownDevice string
  | RevokeSelf
  | RevokedDevice
  | UnknownIdentity
  | ContactRootMismatch string
  | NoSuchContact string
  | NoKitExport
  | Panic

definition hex_of :: "bytes \<Rightarrow> string" where
  "hex_of b = concat (map (\<lambda>w. [nibble (unat w div 16), nibble (unat w mod 16)]) b)"

section \<open>Rows\<close>

record identity_row =
  ir_root_seed :: "bytes option"
  ir_root_public :: bytes
  ir_identity_id :: bytes

record device_row =
  dr_device_id :: bytes
  dr_noise_private :: bytes
  dr_noise_public :: bytes
  dr_hpke_private :: bytes
  dr_hpke_public :: bytes
  dr_mls_signing_secret :: bytes
  dr_mls_signing_public :: bytes
  dr_credential :: bytes
  dr_credential_hash :: bytes

record manifest_row =
  mr_identity_id :: bytes
  mr_sequence :: int
  mr_signed :: bytes
  mr_hash :: bytes

record own_device =
  od_device_id :: bytes
  od_credential_hash :: bytes
  od_revoked :: bool

record revocation =
  rv_device_id :: bytes
  rv_notification_id :: bytes
  rv_relay_published :: bool

record revocation_group =
  rg_device_id :: bytes
  rg_group_id :: bytes
  rg_without_route :: int

record peer_row =
  pr_group_id :: bytes
  pr_device_id :: bytes
  pr_identity :: bytes
  pr_credential_hash :: bytes
  pr_root_public :: bytes
  pr_mailbox :: "bytes option"
  pr_write_cap :: "bytes option"
  pr_hpke :: "bytes option"
  pr_revoked :: bool

record peer_manifest =
  pm_sequence :: int
  pm_hash :: bytes
  pm_active :: "bytes option"

record conversation_row =
  cv_group_id :: bytes
  cv_creator :: bool
  cv_created_at :: int
  cv_request :: "int option"
  cv_request_from :: "bytes option"
  cv_request_card :: "string option"
  cv_request_card_at :: "int option"
  cv_request_name :: "string option"

record contact_row =
  ct_identity_id :: bytes
  ct_root_public :: bytes
  ct_name :: "string option"
  ct_verified :: bool
  ct_verified_at :: "int option"
  ct_first_seen :: int
  ct_accepted :: "int option"
  ct_verified_how :: "string option"

record route_row =
  rt_identity_id :: bytes
  rt_device_id :: bytes
  rt_route :: string

record card_row =
  cr_secret :: bytes
  cr_kind :: string
  cr_created_at :: int
  cr_expires_at :: int
  cr_used_at :: "int option"
  cr_revoked :: bool

record pending_pairing =
  pp_sas :: string
  pp_credential :: bytes
  pp_manifest :: bytes
  pp_root_public :: bytes

record pairing_session_row =
  ps_session_id :: bytes
  ps_code :: string
  ps_expires_at :: int
  ps_sas :: "string option"
  ps_credential :: "bytes option"
  ps_manifest :: "bytes option"
  ps_root_public :: "bytes option"

record link_row =
  lk_credential :: bytes
  lk_manifest :: bytes
  lk_root_public :: bytes
  lk_phase :: int

record recovery_row =
  rc_request_digest :: bytes
  rc_kit_sequence :: int
  rc_previous_sequence :: "int option"
  rc_complete :: bool

record realm_row =
  rl_realm_id :: bytes
  rl_signing_public :: bytes
  rl_noise_public :: bytes
  rl_bootstrap_url :: string
  rl_endpoint_list :: "bytes option"
  rl_endpoint_sequence :: "int option"
  rl_enrolled :: bool

record enrollment_row =
  en_realm_id :: bytes
  en_invite_hash :: bytes
  en_credential_hash :: bytes
  en_phase :: string
  en_updated_at :: int

record mailbox_request =
  mq_request_key :: bytes
  mq_read_capability :: bytes
  mq_write_capability :: bytes

record mailbox_row =
  mb_mailbox_id :: bytes
  mb_read_capability :: bytes
  mb_write_capability :: bytes
  mb_created_at :: int

record pending_upload =
  pu_blob_id :: bytes
  pu_read_capability :: bytes
  pu_file_key :: bytes
  pu_nonce :: bytes
  pu_ciphertext_hash :: bytes
  pu_size :: u64

record kit_row =
  kt_pending_sequence :: "int option"
  kt_pending_at :: "int option"
  kt_saved_sequence :: "int option"
  kt_saved_at :: "int option"

record archived_row =
  ae_group_id :: bytes
  ae_event_id :: bytes
  ae_kind :: string
  ae_body :: bytes
  ae_created_at :: int
  ae_file_name :: "string option"
  ae_sender_identity :: "bytes option"

record invitation_operation =
  io_id :: bytes
  io_direction :: string
  io_link :: string
  io_request_key :: bytes
  io_claim_key :: bytes
  io_secret :: bytes
  io_state :: string
  io_created_at :: int
  io_expires_at :: int
  io_claimant :: bytes
  io_group_id :: bytes
  io_key_package :: bytes
  io_checked_at :: int

record invitation_hello =
  ih_group_id :: bytes
  ih_invitation_id :: bytes
  ih_sender :: bytes
  ih_name :: "string option"

section \<open>The profile\<close>

record client =
  t_identity :: "identity_row option"
  t_device :: "device_row list"
  t_manifest :: "manifest_row list"
  t_identity_devices :: "own_device list"
  t_device_revocations :: "revocation list"
  t_revocation_groups :: "revocation_group list"
  t_conversations :: "conversation_row list"
  t_peers :: "peer_row list"
  t_peer_manifests :: "bytes \<rightharpoonup> peer_manifest"
  t_contacts :: "contact_row list"
  t_contact_routes :: "route_row list"
  t_contact_cards :: "card_row list"
  t_own_card :: "string option option"
  t_pairing_pending :: "pending_pairing option"
  t_pairing_sessions :: "pairing_session_row list"
  t_pairing_completion :: "bytes \<rightharpoonup> int"
  t_link_completion :: "link_row option"
  t_identity_recovery :: "recovery_row option"
  t_realm :: "realm_row list"
  t_enrollment :: "enrollment_row option"
  t_initial_key_packages :: "bytes \<rightharpoonup> bytes option"
  t_replenishment :: "bytes \<rightharpoonup> bytes \<times> u32"
  t_observation :: "bytes \<rightharpoonup> u32 \<times> int"
  t_mailbox_request :: "mailbox_request option"
  t_mailbox_own :: "mailbox_row list"
  t_outgoing_files :: "string \<rightharpoonup> pending_upload"
  t_kit_exports :: "kit_row option"
  t_archived_events :: "archived_row list"
  t_archived_files :: "bytes \<times> bytes \<rightharpoonup> bytes"
  t_invitation_operations :: "invitation_operation list"
  t_invitation_hellos :: "invitation_hello list"

definition client_new :: client where
  "client_new =
     \<lparr>t_identity = None, t_device = [], t_manifest = [], t_identity_devices = [], t_device_revocations = [],
      t_revocation_groups = [], t_conversations = [], t_peers = [], t_peer_manifests = Map.empty,
      t_contacts = [], t_contact_routes = [], t_contact_cards = [], t_own_card = None,
      t_pairing_pending = None, t_pairing_sessions = [], t_pairing_completion = Map.empty,
      t_link_completion = None, t_identity_recovery = None, t_realm = [], t_enrollment = None,
      t_initial_key_packages = Map.empty, t_replenishment = Map.empty, t_observation = Map.empty,
      t_mailbox_request = None, t_mailbox_own = [], t_outgoing_files = Map.empty, t_kit_exports = None,
      t_archived_events = [], t_archived_files = Map.empty, t_invitation_operations = [],
      t_invitation_hellos = []\<rparr>"

type_synonym 'a client_op = "(client, client_error, 'a) op"

text \<open>A query: its result is read off the tables, which stay as they are.\<close>

definition op_query :: "(client \<Rightarrow> client_error + 'a) \<Rightarrow> 'a client_op" where
  "op_query f s = (f s, s)"

lemma op_query_apply [simp, op_simps]: "op_query f s = (f s, s)"
  by (simp add: op_query_def)

lemma op_keeps_query [intro, simp]: "op_keeps P (op_query f)"
  by (simp add: op_keeps_def)

text \<open>\<open>UPDATE t SET \<dots> WHERE P\<close> on a list of rows, and how many rows it changes.\<close>

definition update_rows :: "('r \<Rightarrow> bool) \<Rightarrow> ('r \<Rightarrow> 'r) \<Rightarrow> 'r list \<Rightarrow> 'r list" where
  "update_rows P f rows = map (\<lambda>r. if P r then f r else r) rows"

definition count_rows :: "('r \<Rightarrow> bool) \<Rightarrow> 'r list \<Rightarrow> nat" where
  "count_rows P rows = length (filter P rows)"

text \<open>\<open>INSERT \<dots> ON CONFLICT (key) DO UPDATE\<close>: update the row with the key or append a new one.\<close>

definition upsert_row :: "('r \<Rightarrow> bool) \<Rightarrow> ('r \<Rightarrow> 'r) \<Rightarrow> 'r \<Rightarrow> 'r list \<Rightarrow> 'r list" where
  "upsert_row P f new rows = (if list_ex P rows then update_rows P f rows else rows @ [new])"

lemma set_update_rows: "set (update_rows P f rows) = (\<lambda>r. if P r then f r else r) ` set rows"
  by (simp add: update_rows_def)

lemma map_update_rows [simp]: "(\<And>r. P r \<Longrightarrow> g (f r) = g r) \<Longrightarrow> map g (update_rows P f rows) = map g rows"
  by (simp add: update_rows_def)

lemma length_update_rows [simp]: "length (update_rows P f rows) = length rows"
  by (simp add: update_rows_def)

lemma update_rows_append [simp]: "update_rows P f (xs @ ys) = update_rows P f xs @ update_rows P f ys"
  by (simp add: update_rows_def)

lemma update_rows_id: "(\<And>r. r \<in> set rows \<Longrightarrow> P r \<Longrightarrow> f r = r) \<Longrightarrow> update_rows P f rows = rows"
  unfolding update_rows_def by (rule map_idI) simp

lemma update_rows_member: "r \<in> set rows \<Longrightarrow> (if P r then f r else r) \<in> set (update_rows P f rows)"
  by (auto simp: update_rows_def)

lemma list_ex_key: "list_ex (\<lambda>r. k r = v) rows \<longleftrightarrow> v \<in> k ` set rows"
  by (auto simp: list_ex_iff)

lemma update_rows_Nil [simp]: "update_rows P f [] = []"
  by (simp add: update_rows_def)

lemma update_rows_Cons [simp]: "update_rows P f (r # rs) = (if P r then f r else r) # update_rows P f rs"
  by (simp add: update_rows_def)

section \<open>Reading, failing and growing\<close>

text \<open>An operation that only reads, one that never fails, and one whose failure leaves the tables
  as they were.\<close>

definition op_reads :: "('s, 'e, 'a) op \<Rightarrow> bool" where
  "op_reads m \<longleftrightarrow> (\<forall>s r t. m s = (r, t) \<longrightarrow> t = s)"

definition op_total :: "('s, 'e, 'a) op \<Rightarrow> bool" where
  "op_total m \<longleftrightarrow> (\<forall>s e t. m s \<noteq> (Inl e, t))"

definition op_atomic :: "('s, 'e, 'a) op \<Rightarrow> bool" where
  "op_atomic m \<longleftrightarrow> (\<forall>s e t. m s = (Inl e, t) \<longrightarrow> t = s)"

named_theorems atomic_intros

lemma op_reads_basic [intro, simp]:
  "op_reads (op_return a)" "op_reads (op_fail e)" "op_reads (op_lift r)" "op_reads (op_get g)"
  "op_reads (op_ensure b e)" "op_reads (op_query f)"
  by (simp_all add: op_reads_def)

lemma op_reads_atomic: "op_reads m \<Longrightarrow> op_atomic m"
  by (simp add: op_reads_def op_atomic_def)

lemma op_atomic_basic [intro, simp, atomic_intros]:
  "op_atomic (op_return a)" "op_atomic (op_fail e)" "op_atomic (op_lift r)" "op_atomic (op_get g)"
  "op_atomic (op_ensure b e)" "op_atomic (op_query f)" "op_atomic (op_modify h)"
  by (simp_all add: op_atomic_def)

lemma op_total_basic [intro, simp, atomic_intros]:
  "op_total (op_return a)" "op_total (op_modify h)" "op_total (op_get g)"
  by (simp_all add: op_total_def)

lemma op_atomic_transactionally [intro, simp, atomic_intros]: "op_atomic (transactionally m)"
  by (simp add: op_atomic_def op_simps)

lemma op_atomic_then_reads: "op_reads m \<Longrightarrow> (\<And>a. op_atomic (f a)) \<Longrightarrow> op_atomic (op_then m f)"
  unfolding op_reads_def op_atomic_def by (simp add: op_simps) metis

lemma op_atomic_then_total: "op_atomic m \<Longrightarrow> (\<And>a. op_total (f a)) \<Longrightarrow> op_atomic (op_then m f)"
  unfolding op_total_def op_atomic_def by (simp add: op_simps)

lemma op_total_then [intro]: "op_total m \<Longrightarrow> (\<And>a. op_total (f a)) \<Longrightarrow> op_total (op_then m f)"
  unfolding op_total_def by (simp add: op_simps)

lemma op_atomic_if [intro, atomic_intros]: "op_atomic m \<Longrightarrow> op_atomic n \<Longrightarrow> op_atomic (if b then m else n)"
  by simp

lemma op_total_if [intro]: "op_total m \<Longrightarrow> op_total n \<Longrightarrow> op_total (if b then m else n)"
  by simp

lemma op_atomic_prod [intro, atomic_intros]: "(\<And>a b. op_atomic (f a b)) \<Longrightarrow> op_atomic (case p of (a, b) \<Rightarrow> f a b)"
  by (cases p) simp

lemma op_atomicD: "op_atomic m \<Longrightarrow> m s = (Inl e, s') \<Longrightarrow> s' = s"
  by (simp add: op_atomic_def)

text \<open>A relation between the tables before and after an operation, whether it succeeds or fails.
  The rules hold for every preorder, so they are stated once for all of them.\<close>

definition op_grows :: "('s \<Rightarrow> 's \<Rightarrow> bool) \<Rightarrow> ('s, 'e, 'a) op \<Rightarrow> bool" where
  "op_grows R m \<longleftrightarrow> (\<forall>s. R s (snd (m s)))"

locale table_order =
  fixes R :: "'s \<Rightarrow> 's \<Rightarrow> bool"
  assumes same: "R s s"
    and compose: "R s t \<Longrightarrow> R t u \<Longrightarrow> R s u"
begin

lemma grows_reads: "op_reads m \<Longrightarrow> op_grows R m"
  by (metis op_reads_def op_grows_def prod.collapse same)

lemma grows_basic:
  "op_grows R (op_return a)" "op_grows R (op_fail e)" "op_grows R (op_lift r)" "op_grows R (op_get g)"
  by (simp_all add: op_grows_def same)

lemma grows_modify: "(\<And>s. R s (f s)) \<Longrightarrow> op_grows R (op_modify f)"
  by (simp add: op_grows_def)

lemma grows_then: "op_grows R m \<Longrightarrow> (\<And>a. op_grows R (f a)) \<Longrightarrow> op_grows R (op_then m f)"
  unfolding op_grows_def op_then_def
  by (auto split: prod.splits sum.splits) (metis snd_conv compose)+

lemma grows_transactionally: "op_grows R m \<Longrightarrow> op_grows R (transactionally m)"
  unfolding op_grows_def transactionally_def
  by (auto simp: same split: prod.splits sum.splits) (metis snd_conv)

lemma grows_for: "(\<And>x. x \<in> set xs \<Longrightarrow> op_grows R (f x)) \<Longrightarrow> op_grows R (op_for xs f)"
  by (induction xs) (auto intro: grows_then grows_basic)

lemma grows_if: "op_grows R m \<Longrightarrow> op_grows R n \<Longrightarrow> op_grows R (if b then m else n)"
  by simp

lemma grows_prod: "(\<And>a b. op_grows R (f a b)) \<Longrightarrow> op_grows R (case p of (a, b) \<Rightarrow> f a b)"
  by (cases p) simp

lemma growsD: "op_grows R m \<Longrightarrow> m s = (r, s') \<Longrightarrow> R s s'"
  by (metis op_grows_def snd_conv)

lemma grows_runs:
  assumes "\<And>s s'. step s s' \<Longrightarrow> R s s'" and "step\<^sup>*\<^sup>* s s'"
  shows "R s s'"
  using assms(2) by (induction rule: rtranclp_induct) (auto intro: same compose assms(1))

lemmas grows_intros = grows_then grows_if grows_prod grows_transactionally grows_for grows_modify

end

end
