(* ===== verification/Client_Devices.thy ===== *)
theory Client_Devices
  imports Client_State
begin

text \<open>
  The identity, the devices and the manifests of \<open>core/crates/arveil-core/src/client.rs\<close>, and the
  revocation journal of \<open>device_store.rs\<close>: creating or restoring an identity, enrolling the first
  device, authorizing, linking and revoking devices, and accepting the manifests of this identity and
  of the contacts.

  Shown: manifests only move forward, for this identity and for every contact; a revocation, once
  recorded, is never undone by any operation of this theory, and what the newest manifest revokes is
  marked revoked everywhere; a link is completed only for this device's own keys and repeating it is
  idempotent; and a device that was authorized twice keeps its first credential through a revocation.
\<close>

section \<open>Identity\<close>

definition client_root :: "client \<Rightarrow> client_error + bytes option" where
  "client_root s =
     (case t_identity s of
        None \<Rightarrow> Inr None
      | Some r \<Rightarrow>
          (case ir_root_seed r of
             None \<Rightarrow> Inr None
           | Some seed \<Rightarrow> if length seed = 32 then Inr (Some seed) else Inl Panic))"

definition client_identity_id :: "client \<Rightarrow> bytes option" where
  "client_identity_id s = map_option ir_identity_id (t_identity s)"

definition root_public :: "crypto \<Rightarrow> client \<Rightarrow> client_error + bytes option" where
  "root_public cr s =
     (case t_identity s of
        None \<Rightarrow> Inr None
      | Some r \<Rightarrow>
          if length (ir_root_public r) = 32 \<and> ed_point cr (ir_root_public r)
          then Inr (Some (ir_root_public r)) else Inl Panic)"

definition insert_identity :: "identity_row \<Rightarrow> unit client_op" where
  "insert_identity row s =
     (case t_identity s of
        None \<Rightarrow> (Inr (), s\<lparr>t_identity := Some row\<rparr>)
      | Some _ \<Rightarrow> (Inl (ClSqlite ConstraintViolation), s))"

definition identity_new :: "crypto \<Rightarrow> identity_error + bytes \<Rightarrow> bytes client_op" where
  "identity_new cr gen =
     op_then (op_query client_root) (\<lambda>root.
     if root \<noteq> None then op_fail IdentityExists else
     op_then (op_lift (map_err ClIdentity gen)) (\<lambda>seed.
     op_then (insert_identity \<lparr>ir_root_seed = Some seed, ir_root_public = ed_public cr seed,
                ir_identity_id = identity_id cr (ed_public cr seed)\<rparr>) (\<lambda>_.
     op_return seed)))"

definition device_identity :: "bytes \<Rightarrow> bytes \<Rightarrow> client \<Rightarrow> bytes option" where
  "device_identity grp device s =
     (if t_identity s \<noteq> None \<and>
         ((\<exists>d \<in> set (t_device s). dr_device_id d = device) \<or>
          (\<exists>d \<in> set (t_identity_devices s). od_device_id d = device))
      then client_identity_id s
      else map_option pr_identity (find (\<lambda>p. pr_group_id p = grp \<and> pr_device_id p = device) (t_peers s)))"

section \<open>Devices\<close>

record stored_device =
  sd_keys :: device_keys
  sd_mls_signing_secret :: bytes
  sd_credential :: bytes
  sd_credential_hash :: bytes

definition device :: "client \<Rightarrow> client_error + stored_device option" where
  "device s =
     (case t_device s of
        [] \<Rightarrow> Inr None
      | d # _ \<Rightarrow>
          if length (dr_device_id d) \<noteq> 16 then Inl Panic
          else Inr (Some \<lparr>sd_keys = \<lparr>dk_device_id = dr_device_id d,
                            dk_transport_noise = (dr_noise_private d, dr_noise_public d),
                            dk_envelope_hpke = (dr_hpke_private d, dr_hpke_public d),
                            dk_mls_signing_public_key = dr_mls_signing_public d\<rparr>,
                          sd_mls_signing_secret = dr_mls_signing_secret d,
                          sd_credential = dr_credential d, sd_credential_hash = dr_credential_hash d\<rparr>))"

definition own_devices :: "client \<Rightarrow> own_device list" where
  "own_devices s = t_identity_devices s"

text \<open>What the operating system and the MLS library generate for a new device.\<close>

record device_material =
  gm_device_id :: bytes
  gm_mls_secret :: bytes
  gm_mls_public :: bytes
  gm_noise :: "bytes \<times> bytes"
  gm_hpke :: "bytes \<times> bytes"

definition material_keys :: "device_material \<Rightarrow> device_keys" where
  "material_keys g = \<lparr>dk_device_id = gm_device_id g, dk_transport_noise = gm_noise g,
     dk_envelope_hpke = gm_hpke g, dk_mls_signing_public_key = gm_mls_public g\<rparr>"

definition insert_device :: "device_material \<Rightarrow> bytes \<Rightarrow> bytes \<Rightarrow> unit client_op" where
  "insert_device g credential hash s =
     (if \<exists>d \<in> set (t_device s). dr_device_id d = gm_device_id g then (Inl (ClSqlite ConstraintViolation), s)
      else (Inr (), s\<lparr>t_device := t_device s @
        [\<lparr>dr_device_id = gm_device_id g, dr_noise_private = fst (gm_noise g), dr_noise_public = snd (gm_noise g),
          dr_hpke_private = fst (gm_hpke g), dr_hpke_public = snd (gm_hpke g),
          dr_mls_signing_secret = gm_mls_secret g, dr_mls_signing_public = gm_mls_public g,
          dr_credential = credential, dr_credential_hash = hash\<rparr>]\<rparr>))"

definition insert_own_device :: "bytes \<Rightarrow> bytes \<Rightarrow> unit client_op" where
  "insert_own_device dev hash s =
     (if \<exists>d \<in> set (t_identity_devices s). od_device_id d = dev then (Inl (ClSqlite ConstraintViolation), s)
      else (Inr (), s\<lparr>t_identity_devices := t_identity_devices s @
        [\<lparr>od_device_id = dev, od_credential_hash = hash, od_revoked = False\<rparr>]\<rparr>))"

definition replace_own_device :: "bytes \<Rightarrow> bytes \<Rightarrow> unit client_op" where
  "replace_own_device dev hash =
     op_modify (\<lambda>s. s\<lparr>t_identity_devices := filter (\<lambda>d. od_device_id d \<noteq> dev) (t_identity_devices s) @
       [\<lparr>od_device_id = dev, od_credential_hash = hash, od_revoked = False\<rparr>]\<rparr>)"

definition device_pending_new :: "client_error + device_material \<Rightarrow> stored_device client_op" where
  "device_pending_new gen =
     op_then (op_query device) (\<lambda>d.
     if d \<noteq> None then op_fail DeviceExists else
     op_then (op_lift gen) (\<lambda>g.
     op_then (insert_device g [] []) (\<lambda>_.
     op_return \<lparr>sd_keys = material_keys g, sd_mls_signing_secret = gm_mls_secret g, sd_credential = [],
       sd_credential_hash = []\<rparr>)))"

section \<open>Stored manifests\<close>

text \<open>\<open>ORDER BY sequence DESC LIMIT 1\<close>, by the stored signed integer.\<close>

definition newest_manifest :: "client \<Rightarrow> manifest_row option" where
  "newest_manifest s =
     (let rows = sort_key mr_sequence (t_manifest s) in if rows = [] then None else Some (last rows))"

definition client_manifest_state :: "client \<Rightarrow> manifest_state option" where
  "client_manifest_state s =
     map_option (\<lambda>m. \<lparr>ms_sequence = as_u64 (mr_sequence m), ms_hash = mr_hash m\<rparr>) (newest_manifest s)"

definition latest_manifest :: "client \<Rightarrow> bytes option" where
  "latest_manifest s = map_option mr_signed (newest_manifest s)"

definition latest_manifest_body :: "cbor \<Rightarrow> crypto \<Rightarrow> client \<Rightarrow> client_error + device_manifest option" where
  "latest_manifest_body cb cr s =
     (case latest_manifest s of
        None \<Rightarrow> Inr None
      | Some sm \<Rightarrow>
          and_then (root_public cr s) (\<lambda>r.
          and_then (ok_or r NoIdentity) (\<lambda>root.
          and_then (map_err ClIdentity (accept_manifest cb cr sm root None)) (\<lambda>(body, _).
          Inr (Some body)))))"

definition insert_manifest :: "bytes \<Rightarrow> manifest_state \<Rightarrow> bytes \<Rightarrow> unit client_op" where
  "insert_manifest ident st sm s =
     (if \<exists>m \<in> set (t_manifest s). mr_identity_id m = ident \<and> mr_sequence m = as_i64 (ms_sequence st)
      then (Inl (ClSqlite ConstraintViolation), s)
      else (Inr (), s\<lparr>t_manifest := t_manifest s @
        [\<lparr>mr_identity_id = ident, mr_sequence = as_i64 (ms_sequence st), mr_signed = sm,
          mr_hash = ms_hash st\<rparr>]\<rparr>))"

section \<open>Enrolling, authorizing and restoring\<close>

definition DEFAULT_VALIDITY_SECS :: u64 where "DEFAULT_VALIDITY_SECS = 365 * 24 * 3600"

definition default_validity :: "u64 \<Rightarrow> validity" where
  "default_validity now = \<lparr>not_before = (if now < 300 then 0 else now - 300),
     not_after = now + DEFAULT_VALIDITY_SECS\<rparr>"

definition all_uses :: u8 where
  "all_uses = or (or USE_MLS_LEAF USE_TRANSPORT) USE_ENVELOPE"

definition device_new_in_unit ::
  "cbor \<Rightarrow> crypto \<Rightarrow> u64 \<Rightarrow> client_error + device_material \<Rightarrow> (stored_device \<times> bytes) client_op" where
  "device_new_in_unit cb cr now gen =
     op_then (op_query client_root) (\<lambda>r.
     op_then (op_lift (ok_or r NoIdentity)) (\<lambda>root.
     op_then (op_lift gen) (\<lambda>g.
     op_then (op_lift (map_err ClIdentity (issue_credential cb cr root
       (device_keys_public (material_keys g)) (default_validity now) all_uses))) (\<lambda>credential.
     op_then (op_get client_manifest_state) (\<lambda>previous.
     op_then (op_query (latest_manifest_body cb cr)) (\<lambda>old.
     op_then (op_lift (map_err ClIdentity (issue_manifest cb cr root previous [credential_hash cr credential]
       (case old of None \<Rightarrow> [] | Some b \<Rightarrow> dm_active_credential_hashes b @ dm_revoked_credential_hashes b)))) (\<lambda>manifest.
     op_then (op_lift (map_err ClIdentity (accept_manifest cb cr manifest (ed_public cr root) previous))) (\<lambda>(body, st).
     op_then (insert_device g credential (credential_hash cr credential)) (\<lambda>_.
     op_then (insert_manifest (dm_identity_id body) st manifest) (\<lambda>_.
     op_then (insert_own_device (gm_device_id g) (credential_hash cr credential)) (\<lambda>_.
     op_return (\<lparr>sd_keys = material_keys g, sd_mls_signing_secret = gm_mls_secret g,
       sd_credential = credential, sd_credential_hash = credential_hash cr credential\<rparr>, manifest))))))))))))"

definition device_new ::
  "cbor \<Rightarrow> crypto \<Rightarrow> u64 \<Rightarrow> client_error + device_material \<Rightarrow> (stored_device \<times> bytes) client_op" where
  "device_new cb cr now gen = transactionally (device_new_in_unit cb cr now gen)"

definition device_authorize ::
  "cbor \<Rightarrow> crypto \<Rightarrow> device_public_keys \<Rightarrow> u64 \<Rightarrow> (bytes \<times> bytes) client_op" where
  "device_authorize cb cr public now =
     op_then (op_query client_root) (\<lambda>r.
     op_then (op_lift (ok_or r NoRoot)) (\<lambda>root.
     op_then (op_get own_devices) (\<lambda>devices.
     if list_ex (\<lambda>d. od_device_id d = dp_device_id public \<and> od_revoked d) devices then op_fail RevokedDevice else
     op_then (op_lift (map_err ClIdentity (issue_credential cb cr root public (default_validity now) all_uses))) (\<lambda>credential.
     op_then (op_get client_manifest_state) (\<lambda>previous.
     op_then (op_query (latest_manifest_body cb cr)) (\<lambda>body.
     op_then (op_lift (map_err ClIdentity (issue_manifest cb cr root previous
       ((case body of None \<Rightarrow> [] | Some b \<Rightarrow> dm_active_credential_hashes b) @ [credential_hash cr credential])
       (case body of None \<Rightarrow> [] | Some b \<Rightarrow> dm_revoked_credential_hashes b)))) (\<lambda>manifest.
     op_then (op_lift (map_err ClIdentity (accept_manifest cb cr manifest (ed_public cr root) previous))) (\<lambda>(mbody, st).
     op_then (transactionally
       (op_then (insert_manifest (dm_identity_id mbody) st manifest) (\<lambda>_.
        replace_own_device (dp_device_id public) (credential_hash cr credential)))) (\<lambda>_.
     op_return (credential, manifest))))))))))"

definition identity_restore_in_unit :: "cbor \<Rightarrow> crypto \<Rightarrow> bytes \<Rightarrow> bytes \<Rightarrow> bytes client_op" where
  "identity_restore_in_unit cb cr root_seed manifest =
     op_then (op_get client_identity_id) (\<lambda>known.
     if known \<noteq> None then op_fail IdentityExists
     else if length root_seed \<noteq> 32 then op_fail (ClIdentity RandomUnavailable) else
     op_then (op_lift (map_err ClIdentity (accept_manifest cb cr manifest (ed_public cr root_seed) None))) (\<lambda>(body, st).
     if dm_identity_id body \<noteq> identity_id cr (ed_public cr root_seed) then op_fail UnknownIdentity else
     op_then (insert_identity \<lparr>ir_root_seed = Some root_seed, ir_root_public = ed_public cr root_seed,
                ir_identity_id = identity_id cr (ed_public cr root_seed)\<rparr>) (\<lambda>_.
     op_then (insert_manifest (dm_identity_id body) st manifest) (\<lambda>_.
     op_return (identity_id cr (ed_public cr root_seed))))))"

definition identity_restore :: "cbor \<Rightarrow> crypto \<Rightarrow> bytes \<Rightarrow> bytes \<Rightarrow> bytes client_op" where
  "identity_restore cb cr root_seed manifest = transactionally (identity_restore_in_unit cb cr root_seed manifest)"

section \<open>Revocation\<close>

definition device_revoked :: "bytes \<Rightarrow> client \<Rightarrow> bool" where
  "device_revoked dev s \<longleftrightarrow>
     count_rows (\<lambda>p. pr_device_id p = dev \<and> pr_revoked p) (t_peers s) +
     count_rows (\<lambda>d. od_device_id d = dev \<and> od_revoked d) (t_identity_devices s) > 0"

definition mark_hash_revoked :: "bytes \<Rightarrow> client \<Rightarrow> client" where
  "mark_hash_revoked h s = s\<lparr>
     t_peers := update_rows (\<lambda>p. pr_credential_hash p = h \<and> \<not> pr_revoked p) (\<lambda>p. p\<lparr>pr_revoked := True\<rparr>) (t_peers s),
     t_identity_devices := update_rows (\<lambda>d. od_credential_hash d = h) (\<lambda>d. d\<lparr>od_revoked := True\<rparr>)
       (t_identity_devices s)\<rparr>"

fun peers_mark_revoked :: "bytes list \<Rightarrow> nat client_op" where
  "peers_mark_revoked [] s = (Inr 0, s)"
| "peers_mark_revoked (h # hs) s =
     (case peers_mark_revoked hs (mark_hash_revoked h s) of
        (r, s') \<Rightarrow> (map_sum id (\<lambda>n. count_rows (\<lambda>p. pr_credential_hash p = h \<and> \<not> pr_revoked p) (t_peers s) + n) r, s'))"

definition revocation_start :: "bytes \<Rightarrow> bytes \<Rightarrow> unit client_op" where
  "revocation_start dev marker =
     op_modify (\<lambda>s. if \<exists>r \<in> set (t_device_revocations s). rv_device_id r = dev \<or> rv_notification_id r = marker then s
       else s\<lparr>t_device_revocations := t_device_revocations s @
         [\<lparr>rv_device_id = dev, rv_notification_id = marker, rv_relay_published = False\<rparr>]\<rparr>)"

definition revocations :: "client \<Rightarrow> revocation list" where
  "revocations s = t_device_revocations s"

definition revocation_published :: "bytes \<Rightarrow> unit client_op" where
  "revocation_published dev = op_modify (\<lambda>s. s\<lparr>t_device_revocations :=
     update_rows (\<lambda>r. rv_device_id r = dev) (\<lambda>r. r\<lparr>rv_relay_published := True\<rparr>) (t_device_revocations s)\<rparr>)"

definition revocation_group_queued :: "bytes \<Rightarrow> bytes \<Rightarrow> client \<Rightarrow> bool" where
  "revocation_group_queued dev grp s \<longleftrightarrow>
     list_ex (\<lambda>r. rg_device_id r = dev \<and> rg_group_id r = grp) (t_revocation_groups s)"

definition revocation_group_record :: "bytes \<Rightarrow> bytes \<Rightarrow> u64 \<Rightarrow> unit client_op" where
  "revocation_group_record dev grp without s =
     (if \<not> (\<exists>r \<in> set (t_device_revocations s). rv_device_id r = dev) then (Inl (ClSqlite ConstraintViolation), s)
      else (Inr (), s\<lparr>t_revocation_groups :=
        upsert_row (\<lambda>r. rg_device_id r = dev \<and> rg_group_id r = grp)
          (\<lambda>r. r\<lparr>rg_without_route := rg_without_route r + as_i64 without\<rparr>)
          \<lparr>rg_device_id = dev, rg_group_id = grp, rg_without_route = as_i64 without\<rparr> (t_revocation_groups s)\<rparr>))"

definition revocation_without_route :: "bytes \<Rightarrow> client \<Rightarrow> int" where
  "revocation_without_route dev s =
     sum_list (map rg_without_route (filter (\<lambda>r. rg_device_id r = dev) (t_revocation_groups s)))"

definition revocation_marker :: "bytes \<Rightarrow> bytes" where
  "revocation_marker hash = bytes_of_string ''revocation:'' @ hash"

definition device_revoke_in_unit :: "cbor \<Rightarrow> crypto \<Rightarrow> bytes \<Rightarrow> (bytes \<times> bytes) client_op" where
  "device_revoke_in_unit cb cr dev =
     op_then (op_query client_root) (\<lambda>r.
     op_then (op_lift (ok_or r NoRoot)) (\<lambda>root.
     op_then (op_query device) (\<lambda>m.
     op_then (op_lift (ok_or m NoDevice)) (\<lambda>me.
     if dk_device_id (sd_keys me) = dev then op_fail RevokeSelf else
     op_then (op_get own_devices) (\<lambda>devices.
     op_then (op_lift (ok_or (map_option od_credential_hash (find (\<lambda>d. od_device_id d = dev) devices))
       (UnknownDevice (hex_of dev)))) (\<lambda>hash.
     op_then (op_get client_manifest_state) (\<lambda>previous.
     op_then (op_query (latest_manifest_body cb cr)) (\<lambda>b.
     op_then (op_lift (ok_or b NoIdentity)) (\<lambda>body.
     if hash \<in> set (dm_revoked_credential_hashes body) then
       op_then (peers_mark_revoked [hash]) (\<lambda>_.
       op_then (revocation_start dev (revocation_marker hash)) (\<lambda>_.
       op_then (op_get latest_manifest) (\<lambda>l.
       op_then (op_lift (ok_or l NoIdentity)) (\<lambda>sm. op_return (sm, hash)))))
     else
       op_then (op_lift (map_err ClIdentity (issue_manifest cb cr root previous
         (filter (\<lambda>h. h \<noteq> hash) (dm_active_credential_hashes body))
         (dm_revoked_credential_hashes body @ [hash])))) (\<lambda>manifest.
       op_then (op_lift (map_err ClIdentity (accept_manifest cb cr manifest (ed_public cr root) previous))) (\<lambda>(mbody, st).
       op_then (insert_manifest (dm_identity_id mbody) st manifest) (\<lambda>_.
       op_then (peers_mark_revoked [hash]) (\<lambda>_.
       op_then (revocation_start dev (revocation_marker hash)) (\<lambda>_.
       op_return (manifest, hash)))))))))))))))"

definition device_revoke :: "cbor \<Rightarrow> crypto \<Rightarrow> bytes \<Rightarrow> (bytes \<times> bytes) client_op" where
  "device_revoke cb cr dev = transactionally (device_revoke_in_unit cb cr dev)"

section \<open>Accepting manifests\<close>

definition manifest_accept_own :: "cbor \<Rightarrow> crypto \<Rightarrow> bytes \<Rightarrow> (device_manifest \<times> bool) client_op" where
  "manifest_accept_own cb cr sm =
     op_then (op_query (root_public cr)) (\<lambda>r.
     op_then (op_lift (ok_or r NoIdentity)) (\<lambda>root.
     op_then (op_get client_manifest_state) (\<lambda>known.
     op_then (op_lift (map_err ClIdentity (accept_manifest cb cr sm root known))) (\<lambda>(body, st).
     let new = (map_option ms_sequence known \<noteq> Some (ms_sequence st)) in
     op_then (if new then insert_manifest (dm_identity_id body) st sm else op_return ()) (\<lambda>_.
     op_then (peers_mark_revoked (dm_revoked_credential_hashes body)) (\<lambda>_.
     op_return (body, new)))))))"

record device_change =
  ch_added :: u32
  ch_removed :: u32

definition device_change_is_empty :: "device_change \<Rightarrow> bool" where
  "device_change_is_empty c \<longleftrightarrow> ch_added c = 0 \<and> ch_removed c = 0"

definition device_change_fields :: "device_change \<Rightarrow> (string \<times> value) list" where
  "device_change_fields c = [(''added'', v_uint (ch_added c)), (''removed'', v_uint (ch_removed c))]"

definition device_change_from_value :: "cbor \<Rightarrow> value \<Rightarrow> device_change option" where
  "device_change_from_value cb v =
     do { fs \<leftarrow> de_fields cb v;
          a \<leftarrow> get_field (de_u32 cb) fs ''added'';
          r \<leftarrow> get_field (de_u32 cb) fs ''removed'';
          Some \<lparr>ch_added = a, ch_removed = r\<rparr> }"

definition device_change_encode :: "cbor \<Rightarrow> device_change \<Rightarrow> bytes" where
  "device_change_encode cb c = encoded cb (struct (device_change_fields c))"

definition device_change_decode :: "cbor \<Rightarrow> bytes \<Rightarrow> device_change option" where
  "device_change_decode cb body = decode_as cb (device_change_from_value cb) body"

definition peer_manifest_state :: "bytes \<Rightarrow> client \<Rightarrow> manifest_state option" where
  "peer_manifest_state ident s =
     map_option (\<lambda>m. \<lparr>ms_sequence = as_u64 (pm_sequence m), ms_hash = pm_hash m\<rparr>) (t_peer_manifests s ident)"

definition difference_count :: "bytes list \<Rightarrow> bytes list \<Rightarrow> nat" where
  "difference_count xs ys = length (remdups (filter (\<lambda>x. x \<notin> set ys) xs))"

definition change_between :: "cbor \<Rightarrow> peer_manifest option \<Rightarrow> bytes list \<Rightarrow> device_change" where
  "change_between cb stored active =
     (case Option.bind (Option.bind stored pm_active) (decode_as cb (de_list cb (de_bytes cb))) of
        Some previous \<Rightarrow> \<lparr>ch_added = word_of_nat (difference_count active previous),
                           ch_removed = word_of_nat (difference_count previous active)\<rparr>
      | None \<Rightarrow> \<lparr>ch_added = 0, ch_removed = 0\<rparr>)"

definition peer_root :: "crypto \<Rightarrow> bytes \<Rightarrow> client \<Rightarrow> client_error + bytes" where
  "peer_root cr ident s =
     (case find (\<lambda>p. pr_identity p = ident) (t_peers s) of
        None \<Rightarrow> Inl UnknownIdentity
      | Some p \<Rightarrow>
          if length (pr_root_public p) = 32 \<and> ed_point cr (pr_root_public p) then Inr (pr_root_public p)
          else Inl UnknownIdentity)"

definition peer_manifest_accept ::
  "cbor \<Rightarrow> crypto \<Rightarrow> bytes \<Rightarrow> bytes \<Rightarrow> (device_manifest \<times> bool \<times> device_change) client_op" where
  "peer_manifest_accept cb cr ident sm =
     op_then (op_query (peer_root cr ident)) (\<lambda>root.
     op_then (op_get (peer_manifest_state ident)) (\<lambda>known.
     op_then (op_lift (map_err ClIdentity (accept_manifest cb cr sm root known))) (\<lambda>(body, st).
     let new = (map_option ms_sequence known \<noteq> Some (ms_sequence st)) in
     op_then (op_get (\<lambda>s. if new then change_between cb (t_peer_manifests s ident) (dm_active_credential_hashes body)
                          else \<lparr>ch_added = 0, ch_removed = 0\<rparr>)) (\<lambda>change.
     op_then (if new then op_modify (\<lambda>s. s\<lparr>t_peer_manifests := (t_peer_manifests s)(ident \<mapsto>
                \<lparr>pm_sequence = as_i64 (ms_sequence st), pm_hash = ms_hash st,
                 pm_active = Some (encoded cb (VArray (map VBytes (dm_active_credential_hashes body))))\<rparr>)\<rparr>)
              else op_return ()) (\<lambda>_.
     op_then (peers_mark_revoked (dm_revoked_credential_hashes body)) (\<lambda>_.
     op_return (body, new, change)))))))"

definition groups_with_identity :: "bytes \<Rightarrow> client \<Rightarrow> bytes list" where
  "groups_with_identity ident s = sort (remdups (map pr_group_id (filter (\<lambda>p. pr_identity p = ident) (t_peers s))))"

section \<open>Completing a link\<close>

definition names_device :: "device_credential \<Rightarrow> device_public_keys \<Rightarrow> bool" where
  "names_device c mine \<longleftrightarrow>
     dc_device_id c = dp_device_id mine \<and>
     dc_mls_signature_public_key c = dp_mls_signature_public_key mine \<and>
     dc_transport_noise_public_key c = dp_transport_noise_public_key mine \<and>
     dc_envelope_hpke_public_key c = dp_envelope_hpke_public_key mine"

definition device_link_complete ::
  "cbor \<Rightarrow> crypto \<Rightarrow> bytes \<Rightarrow> bytes \<Rightarrow> bytes \<Rightarrow> u64 \<Rightarrow> bytes client_op" where
  "device_link_complete cb cr credential manifest root now =
     op_then (op_query device) (\<lambda>m.
     op_then (op_lift (ok_or m NoDevice)) (\<lambda>me.
     op_then (op_get client_identity_id) (\<lambda>known.
     if sd_credential me \<noteq> [] \<or> known \<noteq> None then op_fail DeviceExists
     else if length root \<noteq> 32 \<or> \<not> ed_point cr root then op_fail GrantMismatch else
     op_then (op_lift (map_err ClIdentity (verify_credential cb cr credential (Some root) now))) (\<lambda>v.
     if \<not> names_device (vc_credential v) (device_keys_public (sd_keys me)) then op_fail GrantMismatch else
     op_then (op_lift (map_err ClIdentity (accept_manifest cb cr manifest root None))) (\<lambda>(body, st).
     if vc_hash v \<notin> set (dm_active_credential_hashes body) then op_fail GrantManifest else
     op_then (transactionally
       (op_then (insert_identity \<lparr>ir_root_seed = None, ir_root_public = root, ir_identity_id = identity_id cr root\<rparr>) (\<lambda>_.
        op_then (op_modify (\<lambda>s. s\<lparr>t_device := update_rows (\<lambda>d. dr_device_id d = dk_device_id (sd_keys me))
          (\<lambda>d. d\<lparr>dr_credential := credential, dr_credential_hash := vc_hash v\<rparr>) (t_device s)\<rparr>)) (\<lambda>_.
        op_then (insert_manifest (dm_identity_id body) st manifest) (\<lambda>_.
        insert_own_device (dk_device_id (sd_keys me)) (vc_hash v)))))) (\<lambda>_.
     op_return (identity_id cr root)))))))"

definition resume_link ::
  "cbor \<Rightarrow> crypto \<Rightarrow> bytes \<Rightarrow> bytes \<Rightarrow> bytes \<Rightarrow> u64 \<Rightarrow> client \<Rightarrow> client_error + bytes" where
  "resume_link cb cr credential manifest root now s =
     and_then (device s) (\<lambda>m.
     and_then (ok_or m NoDevice) (\<lambda>me.
     and_then (ok_or (client_identity_id s) DeviceExists) (\<lambda>stored_identity.
     and_then (root_public cr s) (\<lambda>r.
     and_then (ok_or r DeviceExists) (\<lambda>stored_root.
     if length root \<noteq> 32 \<or> \<not> ed_point cr root then Inl GrantMismatch else
     and_then (map_err ClIdentity (verify_credential cb cr credential (Some root) now)) (\<lambda>v.
     and_then (map_err ClIdentity (accept_manifest cb cr manifest root None)) (\<lambda>(body, _).
     if names_device (vc_credential v) (device_keys_public (sd_keys me)) \<and>
        vc_hash v \<in> set (dm_active_credential_hashes body) \<and> sd_credential me = credential \<and>
        sd_credential_hash me = vc_hash v \<and> stored_root = root \<and> stored_identity = identity_id cr root
     then Inr stored_identity else Inl DeviceExists)))))))"

definition device_link_complete_idempotent ::
  "cbor \<Rightarrow> crypto \<Rightarrow> bytes \<Rightarrow> bytes \<Rightarrow> bytes \<Rightarrow> u64 \<Rightarrow> bytes client_op" where
  "device_link_complete_idempotent cb cr credential manifest root now s =
     (case device_link_complete cb cr credential manifest root now s of
        (Inl DeviceExists, s') \<Rightarrow> (resume_link cb cr credential manifest root now s', s')
      | r \<Rightarrow> r)"

section \<open>What a failure leaves behind\<close>

lemma insert_atomic [simp, intro]:
  "op_atomic (insert_identity row)" "op_atomic (insert_device g c h)" "op_atomic (insert_own_device d h)"
  "op_atomic (insert_manifest i st sm)" "op_atomic (revocation_group_record d gr n)"
  by (simp_all add: op_atomic_def insert_identity_def insert_device_def insert_own_device_def
      insert_manifest_def revocation_group_record_def split: option.splits)

lemma peers_mark_revoked_fold: "\<exists>n. peers_mark_revoked hs s = (Inr n, fold mark_hash_revoked hs s)"
proof (induction hs arbitrary: s)
  case (Cons h hs)
  obtain n where "peers_mark_revoked hs (mark_hash_revoked h s) = (Inr n, fold mark_hash_revoked hs (mark_hash_revoked h s))"
    using Cons.IH by blast
  then show ?case by simp
qed simp

lemma peers_mark_revoked_state:
  assumes "peers_mark_revoked hs s = (r, s')"
  shows "s' = fold mark_hash_revoked hs s" and "\<exists>n. r = Inr n"
proof -
  obtain n where "peers_mark_revoked hs s = (Inr n, fold mark_hash_revoked hs s)"
    using peers_mark_revoked_fold by blast
  with assms show "s' = fold mark_hash_revoked hs s" and "\<exists>n. r = Inr n" by auto
qed

lemma peers_mark_revoked_total [simp, intro]: "op_total (peers_mark_revoked hs)"
  unfolding op_total_def by (metis peers_mark_revoked_state(2) sum.distinct(1))

lemma revocation_start_total [simp, intro]: "op_total (revocation_start d m)"
  by (simp add: revocation_start_def)

lemma replace_own_device_total [simp, intro]: "op_total (replace_own_device d h)"
  by (simp add: replace_own_device_def)

lemma identity_new_atomic: "op_atomic (identity_new cr gen)"
  unfolding identity_new_def
  by (intro op_atomic_then_reads op_atomic_if op_atomic_then_total op_total_basic op_reads_basic op_atomic_basic insert_atomic)

lemma device_authorize_atomic: "op_atomic (device_authorize cb cr public now)"
  unfolding device_authorize_def
  by (intro op_atomic_then_reads op_atomic_if op_atomic_prod op_atomic_basic op_reads_basic
      op_atomic_then_total [of "transactionally m" for m] op_atomic_transactionally op_total_basic)

lemma device_pending_new_atomic: "op_atomic (device_pending_new gen)"
  unfolding device_pending_new_def
  by (intro op_atomic_then_reads op_atomic_if op_atomic_basic op_reads_basic
      op_atomic_then_total [of "insert_device g c h" for g c h] insert_atomic op_total_basic)

lemma manifest_accept_own_atomic: "op_atomic (manifest_accept_own cb cr sm)"
  unfolding manifest_accept_own_def Let_def
  by (intro op_atomic_then_reads op_atomic_prod op_atomic_basic op_reads_basic
      op_atomic_then_total [of "if b then m else n" for b m n] op_atomic_if insert_atomic op_total_basic
      op_total_then peers_mark_revoked_total)

lemma peer_manifest_accept_atomic: "op_atomic (peer_manifest_accept cb cr ident sm)"
  unfolding peer_manifest_accept_def Let_def
  by (intro op_atomic_then_reads op_atomic_prod op_atomic_basic op_reads_basic
      op_atomic_then_total [of "if b then m else n" for b m n] op_atomic_if op_total_basic
      op_total_then peers_mark_revoked_total)

lemma device_link_complete_atomic: "op_atomic (device_link_complete cb cr c m root now)"
  unfolding device_link_complete_def
  by (intro op_atomic_then_reads op_atomic_if op_atomic_prod op_atomic_basic op_reads_basic
      op_atomic_then_total [of "transactionally m" for m] op_atomic_transactionally op_total_basic)

lemma device_link_complete_idempotent_atomic: "op_atomic (device_link_complete_idempotent cb cr c m root now)"
  unfolding op_atomic_def device_link_complete_idempotent_def
  by (auto split: prod.splits sum.splits client_error.splits dest: op_atomicD [OF device_link_complete_atomic])

lemmas devices_atomic = identity_new_atomic device_authorize_atomic device_pending_new_atomic
  manifest_accept_own_atomic peer_manifest_accept_atomic device_link_complete_atomic
  device_link_complete_idempotent_atomic

section \<open>Trust only grows\<close>

lemma device_revoked_iff:
  "device_revoked dev s \<longleftrightarrow> (\<exists>p \<in> set (t_peers s). pr_device_id p = dev \<and> pr_revoked p) \<or>
     (\<exists>d \<in> set (t_identity_devices s). od_device_id d = dev \<and> od_revoked d)"
  by (auto simp: device_revoked_def count_rows_def filter_empty_conv)

definition peer_manifests_grow :: "client \<Rightarrow> client \<Rightarrow> bool" where
  "peer_manifests_grow s s' \<longleftrightarrow> (\<forall>ident k. peer_manifest_state ident s = Some k \<longrightarrow>
     (\<exists>k'. peer_manifest_state ident s' = Some k' \<and> ms_sequence k \<le> ms_sequence k' \<and>
        (ms_sequence k = ms_sequence k' \<longrightarrow> k = k')))"

definition trust_grows :: "client \<Rightarrow> client \<Rightarrow> bool" where
  "trust_grows s s' \<longleftrightarrow>
     (\<forall>dev. device_revoked dev s \<longrightarrow> device_revoked dev s') \<and>
     prefix (t_manifest s) (t_manifest s') \<and> peer_manifests_grow s s' \<and>
     (t_identity s \<noteq> None \<longrightarrow> t_identity s' = t_identity s)"

lemma peer_manifests_grow_refl [simp]: "peer_manifests_grow s s"
  by (simp add: peer_manifests_grow_def)

lemma peer_manifests_grow_same: "t_peer_manifests s' = t_peer_manifests s \<Longrightarrow> peer_manifests_grow s s'"
  by (auto simp: peer_manifests_grow_def peer_manifest_state_def)

lemma peer_manifests_grow_trans: "peer_manifests_grow s t \<Longrightarrow> peer_manifests_grow t u \<Longrightarrow> peer_manifests_grow s u"
  unfolding peer_manifests_grow_def
proof (intro allI impI)
  fix ident k
  assume st: "\<forall>ident k. peer_manifest_state ident s = Some k \<longrightarrow> (\<exists>k'. peer_manifest_state ident t = Some k' \<and>
      ms_sequence k \<le> ms_sequence k' \<and> (ms_sequence k = ms_sequence k' \<longrightarrow> k = k'))"
    and tu: "\<forall>ident k. peer_manifest_state ident t = Some k \<longrightarrow> (\<exists>k'. peer_manifest_state ident u = Some k' \<and>
      ms_sequence k \<le> ms_sequence k' \<and> (ms_sequence k = ms_sequence k' \<longrightarrow> k = k'))"
    and k: "peer_manifest_state ident s = Some k"
  obtain k' where k': "peer_manifest_state ident t = Some k'" "ms_sequence k \<le> ms_sequence k'"
    "ms_sequence k = ms_sequence k' \<longrightarrow> k = k'" using st k by blast
  obtain k'' where k'': "peer_manifest_state ident u = Some k''" "ms_sequence k' \<le> ms_sequence k''"
    "ms_sequence k' = ms_sequence k'' \<longrightarrow> k' = k''" using tu k'(1) by blast
  have "k = k''" if "ms_sequence k = ms_sequence k''"
  proof -
    have "ms_sequence k = ms_sequence k'" using that k'(2) k''(2) by simp
    with that k'(3) k''(3) show ?thesis by simp
  qed
  with k'' order_trans [OF k'(2) k''(2)]
  show "\<exists>k'. peer_manifest_state ident u = Some k' \<and> ms_sequence k \<le> ms_sequence k' \<and>
      (ms_sequence k = ms_sequence k' \<longrightarrow> k = k')" by blast
qed

interpretation trust: table_order trust_grows
proof
  show "trust_grows s t \<Longrightarrow> trust_grows t u \<Longrightarrow> trust_grows s u" for s t u
    unfolding trust_grows_def using peer_manifests_grow_trans prefix_order.order_trans by (metis (no_types))
qed (simp add: trust_grows_def)

lemma trust_same: "t_peers s' = t_peers s \<Longrightarrow> t_identity_devices s' = t_identity_devices s \<Longrightarrow>
    t_manifest s' = t_manifest s \<Longrightarrow> t_peer_manifests s' = t_peer_manifests s \<Longrightarrow>
    t_identity s' = t_identity s \<Longrightarrow> trust_grows s s'"
  by (simp add: trust_grows_def device_revoked_def peer_manifests_grow_same)

lemma mark_hash_keeps_revoked:
  assumes "device_revoked dev s"
  shows "device_revoked dev (mark_hash_revoked h s)"
  using assms unfolding device_revoked_iff
proof (elim disjE bexE)
  fix p assume p: "p \<in> set (t_peers s)" "pr_device_id p = dev \<and> pr_revoked p"
  then have "p \<in> set (t_peers (mark_hash_revoked h s))"
    using update_rows_member [OF p(1), of "\<lambda>p. pr_credential_hash p = h \<and> \<not> pr_revoked p"]
    by (fastforce simp: mark_hash_revoked_def)
  with p(2) show "(\<exists>p \<in> set (t_peers (mark_hash_revoked h s)). pr_device_id p = dev \<and> pr_revoked p) \<or>
     (\<exists>d \<in> set (t_identity_devices (mark_hash_revoked h s)). od_device_id d = dev \<and> od_revoked d)" by blast
next
  fix d assume d: "d \<in> set (t_identity_devices s)" "od_device_id d = dev \<and> od_revoked d"
  let ?d = "if od_credential_hash d = h then d\<lparr>od_revoked := True\<rparr> else d"
  have "?d \<in> set (t_identity_devices (mark_hash_revoked h s))"
    using update_rows_member [OF d(1), of "\<lambda>d. od_credential_hash d = h" "od_revoked_update (\<lambda>_. True)"]
    by (simp add: mark_hash_revoked_def)
  moreover have "od_device_id ?d = dev \<and> od_revoked ?d" using d(2) by simp
  ultimately show "(\<exists>p \<in> set (t_peers (mark_hash_revoked h s)). pr_device_id p = dev \<and> pr_revoked p) \<or>
     (\<exists>d \<in> set (t_identity_devices (mark_hash_revoked h s)). od_device_id d = dev \<and> od_revoked d)" by blast
qed

lemma trust_mark_hash: "trust_grows s (mark_hash_revoked h s)"
  unfolding trust_grows_def
  by (simp add: mark_hash_keeps_revoked) (simp add: mark_hash_revoked_def peer_manifests_grow_same)

lemma trust_mark_hashes: "trust_grows s (fold mark_hash_revoked hs s)"
  by (induction hs arbitrary: s) (auto intro: trust.same trust.compose trust_mark_hash)

lemma trust_inserts:
  "op_grows trust_grows (insert_identity row)" "op_grows trust_grows (insert_device g c h)"
  "op_grows trust_grows (insert_own_device d h)" "op_grows trust_grows (insert_manifest i st sm)"
  "op_grows trust_grows (peers_mark_revoked hs)" "op_grows trust_grows (revocation_start dv mk)"
  "op_grows trust_grows (revocation_published dv)" "op_grows trust_grows (revocation_group_record dv gr n)"
proof -
  show "op_grows trust_grows (insert_identity row)"
    by (auto simp: op_grows_def insert_identity_def trust_grows_def device_revoked_iff
        intro: peer_manifests_grow_same split: option.splits)
  show "op_grows trust_grows (insert_device g c h)"
    by (auto simp: op_grows_def insert_device_def intro: trust_same trust.same)
  show "op_grows trust_grows (insert_own_device d h)"
    by (auto simp: op_grows_def insert_own_device_def trust_grows_def device_revoked_iff
        intro: peer_manifests_grow_same)
  show "op_grows trust_grows (insert_manifest i st sm)"
    by (auto simp: op_grows_def insert_manifest_def trust_grows_def device_revoked_iff
        intro: peer_manifests_grow_same)
  show "op_grows trust_grows (peers_mark_revoked hs)"
    unfolding op_grows_def by (metis peers_mark_revoked_state(1) prod.collapse trust_mark_hashes)
  show "op_grows trust_grows (revocation_start dv mk)" "op_grows trust_grows (revocation_published dv)"
    "op_grows trust_grows (revocation_group_record dv gr n)"
    by (auto simp: op_grows_def revocation_start_def revocation_published_def revocation_group_record_def
        intro: trust_same trust.same)
qed

lemma device_authorize_effect:
  assumes "device_authorize cb cr public now s = (r, s')"
  shows "s' = s \<or> (\<exists>row. s' = s\<lparr>t_manifest := t_manifest s @ [row],
      t_identity_devices := filter (\<lambda>d. od_device_id d \<noteq> dp_device_id public) (t_identity_devices s) @
        [\<lparr>od_device_id = dp_device_id public, od_credential_hash = credential_hash cr (fst (the (result_ok r))),
          od_revoked = False\<rparr>]\<rparr>) \<and>
     \<not> list_ex (\<lambda>d. od_device_id d = dp_device_id public \<and> od_revoked d) (t_identity_devices s)"
proof (cases r)
  case (Inl e)
  with assms op_atomicD [OF device_authorize_atomic] show ?thesis by blast
next
  case (Inr v)
  with assms show ?thesis
    by (auto simp: device_authorize_def op_simps own_devices_def insert_manifest_def replace_own_device_def
        result_ok_def split: if_splits)
qed

lemma device_authorize_trust: "op_grows trust_grows (device_authorize cb cr public now)"
  unfolding op_grows_def
proof
  fix s
  obtain r s' where e: "device_authorize cb cr public now s = (r, s')" by fastforce
  from device_authorize_effect [OF e] have "trust_grows s s'"
    by (auto simp: trust_grows_def device_revoked_iff list_ex_iff intro: peer_manifests_grow_same)
  with e show "trust_grows s (snd (device_authorize cb cr public now s))" by simp
qed

lemma peer_manifest_accept_effect:
  assumes "peer_manifest_accept cb cr ident sm s = (Inr (body, new, change), s')"
  obtains root st where "peer_root cr ident s = Inr root"
    and "accept_manifest cb cr sm root (peer_manifest_state ident s) = Inr (body, st)"
    and "new \<longleftrightarrow> map_option ms_sequence (peer_manifest_state ident s) \<noteq> Some (ms_sequence st)"
    and "s' = fold mark_hash_revoked (dm_revoked_credential_hashes body)
      (if new then s\<lparr>t_peer_manifests := (t_peer_manifests s)(ident \<mapsto>
         \<lparr>pm_sequence = as_i64 (ms_sequence st), pm_hash = ms_hash st,
          pm_active = Some (encoded cb (VArray (map VBytes (dm_active_credential_hashes body))))\<rparr>)\<rparr> else s)"
    and "change = (if new then change_between cb (t_peer_manifests s ident) (dm_active_credential_hashes body)
      else \<lparr>ch_added = 0, ch_removed = 0\<rparr>)"
proof -
  obtain root where root: "peer_root cr ident s = Inr root"
    using assms by (auto simp: peer_manifest_accept_def op_simps)
  obtain st where st: "accept_manifest cb cr sm root (peer_manifest_state ident s) = Inr (body, st)"
    and rest: "new \<longleftrightarrow> map_option ms_sequence (peer_manifest_state ident s) \<noteq> Some (ms_sequence st)"
    using assms root by (auto simp: peer_manifest_accept_def op_simps map_err_eq_Inr_iff Let_def)
  show thesis
    by (rule that [OF root st rest])
      (use assms root st rest in \<open>auto simp: peer_manifest_accept_def op_simps map_err_eq_Inr_iff Let_def
         split: if_splits dest!: peers_mark_revoked_state(1)\<close>)
qed

lemma peer_manifest_accept_trust: "op_grows trust_grows (peer_manifest_accept cb cr ident sm)"
  unfolding op_grows_def
proof
  fix s
  obtain r s' where e: "peer_manifest_accept cb cr ident sm s = (r, s')" by fastforce
  have "trust_grows s s'"
  proof (cases r)
    case (Inl err)
    with e op_atomicD [OF peer_manifest_accept_atomic] show ?thesis by (metis trust.same)
  next
    case (Inr v)
    obtain body new change where "v = (body, new, change)" by (cases v)
    with e Inr have e': "peer_manifest_accept cb cr ident sm s = (Inr (body, new, change), s')" by simp
    obtain root st where st: "accept_manifest cb cr sm root (peer_manifest_state ident s) = Inr (body, st)"
      and s': "s' = fold mark_hash_revoked (dm_revoked_credential_hashes body)
        (if new then s\<lparr>t_peer_manifests := (t_peer_manifests s)(ident \<mapsto>
           \<lparr>pm_sequence = as_i64 (ms_sequence st), pm_hash = ms_hash st,
            pm_active = Some (encoded cb (VArray (map VBytes (dm_active_credential_hashes body))))\<rparr>)\<rparr> else s)"
      (is "_ = fold _ _ ?u")
      using e' by (elim peer_manifest_accept_effect)
    have "peer_manifests_grow s ?u"
      using accept_manifest_cases(6,7) [OF st]
      by (auto simp: peer_manifests_grow_def peer_manifest_state_def) (metis manifest_state.select_convs(2))
    then have "trust_grows s ?u"
      by (simp add: trust_grows_def device_revoked_def)
    then show ?thesis unfolding s' by (rule trust.compose [OF _ trust_mark_hashes])
  qed
  with e show "trust_grows s (snd (peer_manifest_accept cb cr ident sm s))" by simp
qed

lemma reads_trust: "op_reads m \<Longrightarrow> op_grows trust_grows m"
  by (rule trust.grows_reads)

lemma identity_new_trust: "op_grows trust_grows (identity_new cr gen)"
  unfolding identity_new_def by (intro trust.grows_then trust.grows_if reads_trust op_reads_basic trust_inserts)

lemma device_pending_new_trust: "op_grows trust_grows (device_pending_new gen)"
  unfolding device_pending_new_def
  by (intro trust.grows_then trust.grows_if reads_trust op_reads_basic trust_inserts)

lemma device_new_trust: "op_grows trust_grows (device_new cb cr now gen)"
  unfolding device_new_def device_new_in_unit_def
  by (intro trust.grows_transactionally trust.grows_then trust.grows_prod reads_trust op_reads_basic trust_inserts)

lemma identity_restore_in_unit_trust: "op_grows trust_grows (identity_restore_in_unit cb cr seed sm)"
  unfolding identity_restore_in_unit_def
  by (intro trust.grows_then trust.grows_if trust.grows_prod reads_trust op_reads_basic trust_inserts)

lemma identity_restore_trust: "op_grows trust_grows (identity_restore cb cr seed sm)"
  unfolding identity_restore_def by (intro trust.grows_transactionally identity_restore_in_unit_trust)

lemma device_revoke_trust: "op_grows trust_grows (device_revoke cb cr dev)"
  unfolding device_revoke_def device_revoke_in_unit_def
  by (intro trust.grows_transactionally trust.grows_then trust.grows_if trust.grows_prod reads_trust
      op_reads_basic trust_inserts)

lemma manifest_accept_own_trust: "op_grows trust_grows (manifest_accept_own cb cr sm)"
  unfolding manifest_accept_own_def Let_def
  by (intro trust.grows_then trust.grows_if trust.grows_prod reads_trust op_reads_basic trust_inserts)

lemma device_link_complete_trust: "op_grows trust_grows (device_link_complete cb cr c m root now)"
  unfolding device_link_complete_def
  by (intro trust.grows_transactionally trust.grows_then trust.grows_if trust.grows_prod reads_trust
      op_reads_basic trust_inserts trust.grows_modify trust_same) simp_all

lemma device_link_complete_idempotent_trust:
  "op_grows trust_grows (device_link_complete_idempotent cb cr c m root now)"
  using device_link_complete_trust [of cb cr c m root now]
  unfolding op_grows_def device_link_complete_idempotent_def
  by (auto split: prod.splits sum.splits client_error.splits) (metis snd_conv)+

lemmas devices_trust = identity_new_trust device_pending_new_trust device_new_trust identity_restore_trust
  device_authorize_trust device_revoke_trust manifest_accept_own_trust peer_manifest_accept_trust
  device_link_complete_trust device_link_complete_idempotent_trust trust_inserts

section \<open>The profile is well formed\<close>

definition identity_ok :: "crypto \<Rightarrow> identity_row \<Rightarrow> bool" where
  "identity_ok cr r \<longleftrightarrow>
     length (ir_root_public r) = 32 \<and> ed_point cr (ir_root_public r) \<and>
     ir_identity_id r = identity_id cr (ir_root_public r) \<and>
     (\<forall>seed. ir_root_seed r = Some seed \<longrightarrow> length seed = 32 \<and> ir_root_public r = ed_public cr seed)"

definition profile_ok :: "crypto \<Rightarrow> client \<Rightarrow> bool" where
  "profile_ok cr s \<longleftrightarrow>
     (\<forall>r. t_identity s = Some r \<longrightarrow> identity_ok cr r) \<and>
     (\<forall>d \<in> set (t_device s). length (dr_device_id d) = 16) \<and>
     distinct (map dr_device_id (t_device s)) \<and> distinct (map od_device_id (t_identity_devices s))"

lemma profile_ok_same:
  "profile_ok cr s \<Longrightarrow> t_identity s' = t_identity s \<Longrightarrow> t_device s' = t_device s \<Longrightarrow>
     map od_device_id (t_identity_devices s') = map od_device_id (t_identity_devices s) \<Longrightarrow> profile_ok cr s'"
  by (simp add: profile_ok_def)

lemma insert_keeps:
  "identity_ok cr row \<Longrightarrow> op_keeps (profile_ok cr) (insert_identity row)"
  "length (gm_device_id g) = 16 \<Longrightarrow> op_keeps (profile_ok cr) (insert_device g c h)"
  "op_keeps (profile_ok cr) (insert_own_device d h)" "op_keeps (profile_ok cr) (replace_own_device d h)"
  "op_keeps (profile_ok cr) (insert_manifest i st sm)"
  by (auto simp: op_keeps_def profile_ok_def insert_identity_def insert_device_def insert_own_device_def
      replace_own_device_def insert_manifest_def distinct_map_filter split: option.splits)

lemma mark_hashes_ids:
  "map od_device_id (t_identity_devices (fold mark_hash_revoked hs s)) = map od_device_id (t_identity_devices s)"
  "t_identity (fold mark_hash_revoked hs s) = t_identity s" "t_device (fold mark_hash_revoked hs s) = t_device s"
  "t_manifest (fold mark_hash_revoked hs s) = t_manifest s"
  "t_device_revocations (fold mark_hash_revoked hs s) = t_device_revocations s"
  "map od_credential_hash (t_identity_devices (fold mark_hash_revoked hs s)) = map od_credential_hash (t_identity_devices s)"
  by (induction hs arbitrary: s) (simp_all add: mark_hash_revoked_def)

lemma marks_keep:
  "op_keeps (profile_ok cr) (peers_mark_revoked hs)" "op_keeps (profile_ok cr) (revocation_start d m)"
proof -
  show "op_keeps (profile_ok cr) (peers_mark_revoked hs)"
    unfolding op_keeps_def using peers_mark_revoked_state(1) [of hs] profile_ok_same
    by (metis mark_hashes_ids(1-3) prod.collapse)
  show "op_keeps (profile_ok cr) (revocation_start d m)"
    by (auto simp: revocation_start_def op_keeps_def profile_ok_def)
qed

lemma op_keeps_if: "op_keeps P m \<Longrightarrow> op_keeps P n \<Longrightarrow> op_keeps P (if b then m else n)"
  by simp

lemma op_keeps_prod: "(\<And>a b. op_keeps P (f a b)) \<Longrightarrow> op_keeps P (case p of (a, b) \<Rightarrow> f a b)"
  by (cases p) simp

lemma op_keeps_lift_then:
  "(\<And>a. r = Inr a \<Longrightarrow> op_keeps P (f a)) \<Longrightarrow> op_keeps P (op_then (op_lift r) f)"
  by (cases r) (auto simp: op_keeps_def op_then_def)

lemma op_keeps_query_then:
  assumes "\<And>s a. P s \<Longrightarrow> q s = Inr a \<Longrightarrow> P (snd (f a s))"
  shows "op_keeps P (op_then (op_query q) f)"
  using assms by (auto simp: op_keeps_def op_then_def split: sum.splits)

lemma own_identity_ok: "crypto_ok cr \<Longrightarrow> length seed = 32 \<Longrightarrow>
    identity_ok cr \<lparr>ir_root_seed = Some seed, ir_root_public = ed_public cr seed,
      ir_identity_id = identity_id cr (ed_public cr seed)\<rparr>"
  by (simp add: identity_ok_def crypto_ok_def)

lemma identity_new_keeps:
  assumes "crypto_ok cr" and "\<And>seed. gen = Inr seed \<Longrightarrow> length seed = 32"
  shows "op_keeps (profile_ok cr) (identity_new cr gen)"
  unfolding identity_new_def
  by (intro op_keeps_then op_keeps_if op_keeps_query op_keeps_fail op_keeps_lift_then op_keeps_return insert_keeps
      own_identity_ok assms) (simp add: map_err_eq_Inr_iff)

lemma device_pending_new_keeps:
  assumes "\<And>g. gen = Inr g \<Longrightarrow> length (gm_device_id g) = 16"
  shows "op_keeps (profile_ok cr) (device_pending_new gen)"
  unfolding device_pending_new_def
  by (intro op_keeps_then op_keeps_if op_keeps_query op_keeps_fail op_keeps_lift_then op_keeps_return insert_keeps assms)

lemma device_new_in_unit_keeps:
  assumes "\<And>g. gen = Inr g \<Longrightarrow> length (gm_device_id g) = 16"
  shows "op_keeps (profile_ok cr) (device_new_in_unit cb cr now gen)"
  unfolding device_new_in_unit_def
  by (intro op_keeps_then [OF op_keeps_query] op_keeps_then [OF op_keeps_get]
      op_keeps_then [OF insert_keeps(2)] op_keeps_then [OF insert_keeps(3)] op_keeps_then [OF insert_keeps(5)]
      op_keeps_lift_then op_keeps_prod op_keeps_return assms)

lemma device_new_keeps:
  assumes "\<And>g. gen = Inr g \<Longrightarrow> length (gm_device_id g) = 16"
  shows "op_keeps (profile_ok cr) (device_new cb cr now gen)"
  unfolding device_new_def by (intro op_keeps_transactionally device_new_in_unit_keeps assms)

lemma identity_restore_in_unit_keeps:
  assumes "crypto_ok cr"
  shows "op_keeps (profile_ok cr) (identity_restore_in_unit cb cr seed sm)"
proof (cases "length seed = 32")
  case True
  then show ?thesis
    unfolding identity_restore_in_unit_def
    by (intro op_keeps_then [OF op_keeps_get] op_keeps_then [OF insert_keeps(1) [OF own_identity_ok [OF assms True]]]
        op_keeps_then [OF insert_keeps(5)] op_keeps_lift_then op_keeps_if op_keeps_prod op_keeps_return op_keeps_fail)
next
  case False
  then show ?thesis
    by (auto simp: identity_restore_in_unit_def op_keeps_def op_then_def)
qed

lemma device_authorize_keeps: "op_keeps (profile_ok cr) (device_authorize cb cr public now)"
  unfolding device_authorize_def
  by (intro op_keeps_then op_keeps_if op_keeps_query op_keeps_get op_keeps_fail op_keeps_lift op_keeps_return
      op_keeps_prod op_keeps_transactionally insert_keeps)

lemma device_revoke_keeps: "op_keeps (profile_ok cr) (device_revoke cb cr dev)"
  unfolding device_revoke_def device_revoke_in_unit_def
  by (intro op_keeps_then op_keeps_if op_keeps_query op_keeps_get op_keeps_fail op_keeps_lift op_keeps_return
      op_keeps_prod op_keeps_transactionally insert_keeps marks_keep)

lemma manifest_accept_own_keeps: "op_keeps (profile_ok cr) (manifest_accept_own cb cr sm)"
  unfolding manifest_accept_own_def Let_def
  by (intro op_keeps_then op_keeps_if op_keeps_query op_keeps_get op_keeps_fail op_keeps_lift op_keeps_return
      op_keeps_prod insert_keeps marks_keep)

lemma peer_manifest_accept_keeps: "op_keeps (profile_ok cr) (peer_manifest_accept cb cr ident sm)"
proof -
  have upd: "profile_ok cr s \<Longrightarrow> profile_ok cr (s\<lparr>t_peer_manifests := f (t_peer_manifests s)\<rparr>)" for s f
    by (rule profile_ok_same) simp_all
  show ?thesis
    unfolding peer_manifest_accept_def Let_def
    by (intro op_keeps_then op_keeps_if op_keeps_query op_keeps_get op_keeps_fail op_keeps_lift op_keeps_return
      op_keeps_prod marks_keep op_keeps_modify upd)
qed

lemma device_link_complete_keeps: "op_keeps (profile_ok cr) (device_link_complete cb cr c m root now)"
proof (cases "length root = 32 \<and> ed_point cr root")
  case True
  then have row: "identity_ok cr \<lparr>ir_root_seed = None, ir_root_public = root, ir_identity_id = identity_id cr root\<rparr>"
    by (simp add: identity_ok_def)
  have upd: "profile_ok cr s \<Longrightarrow> profile_ok cr (s\<lparr>t_device := update_rows P
      (\<lambda>d. d\<lparr>dr_credential := x, dr_credential_hash := y\<rparr>) (t_device s)\<rparr>)" for s P x y
    by (auto simp: profile_ok_def set_update_rows)
  show ?thesis
    unfolding device_link_complete_def
    by (intro op_keeps_then op_keeps_if op_keeps_query op_keeps_get op_keeps_fail op_keeps_lift op_keeps_return
      op_keeps_prod op_keeps_transactionally insert_keeps row op_keeps_modify upd)
next
  case False
  then show ?thesis
    by (auto simp: device_link_complete_def op_keeps_def op_then_def split: sum.splits prod.splits)
qed

lemma device_link_complete_idempotent_keeps:
  "op_keeps (profile_ok cr) (device_link_complete_idempotent cb cr c m root now)"
  using device_link_complete_keeps [of cr cb c m root now]
  unfolding op_keeps_def device_link_complete_idempotent_def
  by (auto split: prod.splits sum.splits client_error.splits)

text \<open>On a well-formed profile the reads that may panic do not.\<close>

lemma profile_ok_reads:
  assumes "profile_ok cr s"
  shows "client_root s \<noteq> Inl e" and "root_public cr s \<noteq> Inl e" and "device s \<noteq> Inl e"
  using assms
  by (auto simp: profile_ok_def identity_ok_def client_root_def root_public_def device_def split: option.splits list.splits)

lemma root_public_of_root:
  assumes "profile_ok cr s" and "client_root s = Inr (Some root)"
  shows "root_public cr s = Inr (Some (ed_public cr root))" and "length root = 32"
  using assms
  by (auto simp: profile_ok_def identity_ok_def client_root_def root_public_def split: option.splits if_splits)

section \<open>The newest manifest\<close>

lemma newest_manifest_max:
  assumes "newest_manifest s = Some m"
  shows "m \<in> set (t_manifest s)" and "\<forall>m' \<in> set (t_manifest s). mr_sequence m' \<le> mr_sequence m"
proof -
  let ?rows = "sort_key mr_sequence (t_manifest s)"
  have m: "?rows \<noteq> []" "m = last ?rows"
    using assms by (auto simp: newest_manifest_def Let_def split: if_splits)
  from m have "m \<in> set ?rows" by (metis last_in_set)
  then show "m \<in> set (t_manifest s)" by simp
  have "\<forall>m' \<in> set ?rows. mr_sequence m' \<le> mr_sequence (last ?rows)"
  proof
    fix m' assume "m' \<in> set ?rows"
    then obtain i where i: "i < length ?rows" "m' = ?rows ! i" by (metis in_set_conv_nth)
    have "sorted (map mr_sequence ?rows)" by simp
    then have "map mr_sequence ?rows ! i \<le> map mr_sequence ?rows ! (length ?rows - 1)"
      by (rule sorted_nth_mono) (use i in auto)
    with i m(1) show "mr_sequence m' \<le> mr_sequence (last ?rows)" by (simp add: last_conv_nth)
  qed
  with m(2) show "\<forall>m' \<in> set (t_manifest s). mr_sequence m' \<le> mr_sequence m" by simp
qed

lemma newest_manifest_None: "newest_manifest s = None \<longleftrightarrow> t_manifest s = []"
proof -
  have "sort_key mr_sequence (t_manifest s) = [] \<longleftrightarrow> t_manifest s = []"
    by (metis length_0_conv length_sort)
  then show ?thesis by (simp add: newest_manifest_def Let_def)
qed

lemma newest_manifest_append:
  assumes "t_manifest s' = t_manifest s @ [row]" and "\<forall>m \<in> set (t_manifest s). mr_sequence m < mr_sequence row"
  shows "newest_manifest s' = Some row"
proof -
  obtain m where m: "newest_manifest s' = Some m"
    using assms(1) newest_manifest_None [of s'] by (cases "newest_manifest s'") auto
  have "mr_sequence row \<le> mr_sequence m" "m \<in> set (t_manifest s')"
    using newest_manifest_max [OF m] assms(1) by auto
  with assms have "m = row" by force
  with m show ?thesis by simp
qed

text \<open>Sequences as every real chain has them: far from where the stored integer turns negative.\<close>

definition manifest_room :: "nat \<Rightarrow> client \<Rightarrow> bool" where
  "manifest_room n s \<longleftrightarrow> n < 2 ^ 62 \<and> (\<forall>m \<in> set (t_manifest s). 0 \<le> mr_sequence m \<and> mr_sequence m + int n < 2 ^ 63)"

lemma manifest_room_less: "manifest_room n s \<Longrightarrow> k \<le> n \<Longrightarrow> manifest_room k s"
  by (fastforce simp: manifest_room_def)

lemma next_sequence:
  assumes "manifest_room (Suc n) s" and "client_manifest_state s = Some k"
  shows "\<forall>m \<in> set (t_manifest s). mr_sequence m < as_i64 (ms_sequence k + 1)"
    and "0 \<le> as_i64 (ms_sequence k + 1)" and "as_i64 (ms_sequence k + 1) + int n < 2 ^ 63"
    and "ms_sequence k \<noteq> - 1"
proof -
  obtain m where m: "newest_manifest s = Some m" "ms_sequence k = as_u64 (mr_sequence m)"
    using assms(2) by (auto simp: client_manifest_state_def)
  have b: "0 \<le> mr_sequence m" "mr_sequence m + int (Suc n) < 2 ^ 63"
    using assms(1) newest_manifest_max(1) [OF m(1)] by (auto simp: manifest_room_def)
  have w: "ms_sequence k + 1 = word_of_int (mr_sequence m + 1)"
    by (simp add: m(2) as_u64_def)
  have "uint (ms_sequence k + 1) = mr_sequence m + 1"
    using b by (intro word_of_int_inverse [OF w [symmetric]]) simp_all
  then have u1: "unat (ms_sequence k + 1) = nat (mr_sequence m) + 1"
    using b by (simp add: unat_eq_nat_uint nat_add_distrib)
  then have "unat (ms_sequence k + 1) < 2 ^ 63" using b by simp
  then have i: "as_i64 (ms_sequence k + 1) = mr_sequence m + 1"
    using u1 b by (simp add: as_i64_small)
  show "\<forall>m' \<in> set (t_manifest s). mr_sequence m' < as_i64 (ms_sequence k + 1)"
    using newest_manifest_max(2) [OF m(1)] i by fastforce
  show "0 \<le> as_i64 (ms_sequence k + 1)" "as_i64 (ms_sequence k + 1) + int n < 2 ^ 63" using b i by simp_all
  show "ms_sequence k \<noteq> - 1" using u1 by auto
qed

lemma accept_manifest_first:
  "accept_manifest cb cr sm root known = Inr (b, st) \<Longrightarrow>
     accept_manifest cb cr sm root None = Inr (b, \<lparr>ms_sequence = dm_manifest_sequence b, ms_hash = manifest_hash cr sm\<rparr>)"
  by (auto simp: accept_manifest_def result_simps Let_def split: if_splits option.splits)

text \<open>Issuing the next manifest and storing it makes it the newest one, with the lists it was issued with.\<close>

lemma issue_and_store:
  assumes cb: "cbor_codec cb" and cr: "crypto_ok cr" and ok: "profile_ok cr s"
    and room: "manifest_room (Suc n) s" and root: "client_root s = Inr (Some root)"
    and i: "issue_manifest cb cr root (client_manifest_state s) act rvk = Inr sm"
    and a: "accept_manifest cb cr sm (ed_public cr root) (client_manifest_state s) = Inr (b, st)"
    and ins: "insert_manifest (dm_identity_id b) st sm s = (Inr (), u)"
    and s': "t_manifest s' = t_manifest u" "t_identity s' = t_identity s"
  shows "latest_manifest s' = Some sm" and "latest_manifest_body cb cr s' = Inr (Some b)"
    and "dm_active_credential_hashes b = act" and "dm_revoked_credential_hashes b = rvk"
    and "client_manifest_state s' = Some st" and "manifest_room n s'"
proof -
  obtain b' st' where b': "accept_manifest cb cr sm (ed_public cr root) (client_manifest_state s) = Inr (b', st')"
    "dm_active_credential_hashes b' = act" "dm_revoked_credential_hashes b' = rvk"
    "ms_sequence st' = (case client_manifest_state s of None \<Rightarrow> 1 | Some k \<Rightarrow> ms_sequence k + 1)"
    using next_sequence(4) [OF room] by (rule issue_accept [OF cb cr i])
  with a show "dm_active_credential_hashes b = act" "dm_revoked_credential_hashes b = rvk" by simp_all
  let ?row = "\<lparr>mr_identity_id = dm_identity_id b, mr_sequence = as_i64 (ms_sequence st), mr_signed = sm, mr_hash = ms_hash st\<rparr>"
  have app: "t_manifest s' = t_manifest s @ [?row]"
    using ins s'(1) by (auto simp: insert_manifest_def split: if_splits)
  have up: "(\<forall>m \<in> set (t_manifest s). mr_sequence m < as_i64 (ms_sequence st)) \<and> 0 \<le> as_i64 (ms_sequence st) \<and>
      as_i64 (ms_sequence st) + int n < 2 ^ 63 \<or> t_manifest s = [] \<and> ms_sequence st = 1"
    using next_sequence(1-3) [OF room] a b'(1,4) newest_manifest_None [of s]
    by (cases "client_manifest_state s") (auto simp: client_manifest_state_def)
  then have new: "newest_manifest s' = Some ?row"
    by (intro newest_manifest_append [OF app]) auto
  then show "latest_manifest s' = Some sm" "client_manifest_state s' = Some st"
    by (simp_all add: latest_manifest_def client_manifest_state_def)
  have "root_public cr s' = Inr (Some (ed_public cr root))"
    using root_public_of_root(1) [OF ok root] s'(2) by (simp add: root_public_def)
  then show "latest_manifest_body cb cr s' = Inr (Some b)"
    using new accept_manifest_first [OF a] by (simp add: latest_manifest_body_def latest_manifest_def)
  show "manifest_room n s'"
    using up app room as_i64_small [of "1 :: u64"]
    by (auto simp: manifest_room_def)
qed

definition active_hashes :: "device_manifest option \<Rightarrow> bytes list" where
  "active_hashes b = (case b of None \<Rightarrow> [] | Some m \<Rightarrow> dm_active_credential_hashes m)"

definition revoked_hashes :: "device_manifest option \<Rightarrow> bytes list" where
  "revoked_hashes b = (case b of None \<Rightarrow> [] | Some m \<Rightarrow> dm_revoked_credential_hashes m)"

lemma device_authorize_stores:
  assumes cb: "cbor_codec cb" and cr: "crypto_ok cr" and ok: "profile_ok cr s" and room: "manifest_room (Suc n) s"
    and e: "device_authorize cb cr public now s = (Inr (c, sm), s')"
  obtains old b where "latest_manifest_body cb cr s = Inr old" and "latest_manifest_body cb cr s' = Inr (Some b)"
    and "dm_active_credential_hashes b = active_hashes old @ [credential_hash cr c]"
    and "dm_revoked_credential_hashes b = revoked_hashes old"
    and "manifest_room n s'" and "t_identity s' = t_identity s" and "t_device s' = t_device s"
    and "map_option od_credential_hash (find (\<lambda>d. od_device_id d = dp_device_id public) (t_identity_devices s')) =
      Some (credential_hash cr c)"
proof -
  obtain root old b st u where
    root: "client_root s = Inr (Some root)" and old: "latest_manifest_body cb cr s = Inr old"
    and i: "issue_manifest cb cr root (client_manifest_state s) (active_hashes old @ [credential_hash cr c])
      (revoked_hashes old) = Inr sm"
    and a: "accept_manifest cb cr sm (ed_public cr root) (client_manifest_state s) = Inr (b, st)"
    and ins: "insert_manifest (dm_identity_id b) st sm s = (Inr (), u)"
    and s': "replace_own_device (dp_device_id public) (credential_hash cr c) u = (Inr (), s')"
    using e by (auto simp: device_authorize_def op_simps active_hashes_def revoked_hashes_def ok_or_eq_Inr_iff
        map_err_eq_Inr_iff split: if_splits)
  have u: "t_identity u = t_identity s" "t_device u = t_device s" "t_identity_devices u = t_identity_devices s"
    using ins by (auto simp: insert_manifest_def split: if_splits)
  have st: "t_manifest s' = t_manifest u" "t_identity s' = t_identity s" "t_device s' = t_device s"
    "t_identity_devices s' = filter (\<lambda>d. od_device_id d \<noteq> dp_device_id public) (t_identity_devices s) @
        [\<lparr>od_device_id = dp_device_id public, od_credential_hash = credential_hash cr c, od_revoked = False\<rparr>]"
    using s' u by (auto simp: replace_own_device_def)
  have f: "find (\<lambda>d. od_device_id d = x) (filter (\<lambda>d. od_device_id d \<noteq> x) ds @ [d]) = Some d"
    if "od_device_id d = x" for x d ds
    using that by (induction ds) auto
  have "find (\<lambda>d. od_device_id d = dp_device_id public) (t_identity_devices s') =
      Some \<lparr>od_device_id = dp_device_id public, od_credential_hash = credential_hash cr c, od_revoked = False\<rparr>"
    unfolding st(4) by (rule f) simp
  then show thesis
    by (intro that [OF old]) (use issue_and_store [OF cb cr ok room root i a ins st(1,2)] st(2,3) in simp_all)
qed

lemma latest_manifest_body_cong:
  assumes "t_manifest s' = t_manifest s" and "t_identity s' = t_identity s"
  shows "latest_manifest_body cb cr s' = latest_manifest_body cb cr s"
    and "latest_manifest s' = latest_manifest s" and "client_manifest_state s' = client_manifest_state s"
proof -
  have n: "newest_manifest s' = newest_manifest s" "root_public cr s' = root_public cr s"
    using assms by (simp_all add: newest_manifest_def root_public_def)
  then show "latest_manifest s' = latest_manifest s" "client_manifest_state s' = client_manifest_state s"
    by (simp_all add: latest_manifest_def client_manifest_state_def)
  with n show "latest_manifest_body cb cr s' = latest_manifest_body cb cr s"
    by (simp add: latest_manifest_body_def split: option.split)
qed

lemma device_revoke_cases:
  assumes e: "device_revoke cb cr dev s = (Inr (sm, h), s')"
  obtains root b me where "client_root s = Inr (Some root)" and "latest_manifest_body cb cr s = Inr (Some b)"
    and "device s = Inr (Some me)" and "dk_device_id (sd_keys me) \<noteq> dev"
    and "map_option od_credential_hash (find (\<lambda>d. od_device_id d = dev) (t_identity_devices s)) = Some h"
    and "h \<in> set (dm_revoked_credential_hashes b) \<and> latest_manifest s' = Some sm \<and>
        revocation_start dev (revocation_marker h) (mark_hash_revoked h s) = (Inr (), s') \<or>
      h \<notin> set (dm_revoked_credential_hashes b) \<and>
        (\<exists>mb st u. issue_manifest cb cr root (client_manifest_state s)
            (filter (\<lambda>x. x \<noteq> h) (dm_active_credential_hashes b)) (dm_revoked_credential_hashes b @ [h]) = Inr sm \<and>
          accept_manifest cb cr sm (ed_public cr root) (client_manifest_state s) = Inr (mb, st) \<and>
          insert_manifest (dm_identity_id mb) st sm s = (Inr (), u) \<and>
          revocation_start dev (revocation_marker h) (mark_hash_revoked h u) = (Inr (), s'))"
proof -
  have e': "device_revoke_in_unit cb cr dev s = (Inr (sm, h), s')"
    using e by (simp add: device_revoke_def op_simps)
  obtain root where root: "client_root s = Inr (Some root)"
    using e' by (auto simp: device_revoke_in_unit_def op_simps ok_or_eq_Inr_iff)
  obtain me where me: "device s = Inr (Some me)" "dk_device_id (sd_keys me) \<noteq> dev"
    using e' root by (auto simp: device_revoke_in_unit_def op_simps ok_or_eq_Inr_iff split: if_splits)
  obtain d where d: "find (\<lambda>d. od_device_id d = dev) (t_identity_devices s) = Some d"
    using e' root me by (auto simp: device_revoke_in_unit_def op_simps ok_or_eq_Inr_iff own_devices_def)
  obtain b where b: "latest_manifest_body cb cr s = Inr (Some b)"
    using e' root me d by (auto simp: device_revoke_in_unit_def op_simps ok_or_eq_Inr_iff own_devices_def)
  have *: "od_credential_hash d = h \<and> (h \<in> set (dm_revoked_credential_hashes b) \<and> latest_manifest s' = Some sm \<and>
        revocation_start dev (revocation_marker h) (mark_hash_revoked h s) = (Inr (), s') \<or>
      h \<notin> set (dm_revoked_credential_hashes b) \<and>
        (\<exists>mb st u. issue_manifest cb cr root (client_manifest_state s)
            (filter (\<lambda>x. x \<noteq> h) (dm_active_credential_hashes b)) (dm_revoked_credential_hashes b @ [h]) = Inr sm \<and>
          accept_manifest cb cr sm (ed_public cr root) (client_manifest_state s) = Inr (mb, st) \<and>
          insert_manifest (dm_identity_id mb) st sm s = (Inr (), u) \<and>
          revocation_start dev (revocation_marker h) (mark_hash_revoked h u) = (Inr (), s')))"
    using e' root me d b
    by (cases "od_credential_hash d \<in> set (dm_revoked_credential_hashes b)")
      (auto simp: device_revoke_in_unit_def op_simps own_devices_def ok_or_def map_err_eq_Inr_iff split: option.splits)
  show thesis
    by (rule that [OF root b me]) (use * d in simp_all)
qed

lemma revocation_start_state:
  assumes "revocation_start dev mk s = (Inr (), s')"
  shows "t_peers s' = t_peers s" "t_identity_devices s' = t_identity_devices s" "t_manifest s' = t_manifest s"
    "t_identity s' = t_identity s" "t_device s' = t_device s"
    "\<exists>r \<in> set (t_device_revocations s'). rv_device_id r = dev \<or> rv_notification_id r = mk"
  using assms by (auto simp: revocation_start_def split: if_splits)

text \<open>What a successful revocation leaves: the newest manifest lists the credential as revoked, and
  the device is marked.\<close>

lemma device_revoke_stores:
  assumes cb: "cbor_codec cb" and cr: "crypto_ok cr" and ok: "profile_ok cr s" and room: "manifest_room (Suc n) s"
    and e: "device_revoke cb cr dev s = (Inr (sm, h), s')"
  obtains b b' where "latest_manifest_body cb cr s = Inr (Some b)"
    and "map_option od_credential_hash (find (\<lambda>d. od_device_id d = dev) (t_identity_devices s)) = Some h"
    and "latest_manifest s' = Some sm" and "latest_manifest_body cb cr s' = Inr (Some b')"
    and "h \<in> set (dm_revoked_credential_hashes b')"
    and "h \<notin> set (dm_revoked_credential_hashes b) \<Longrightarrow>
      dm_active_credential_hashes b' = filter (\<lambda>x. x \<noteq> h) (dm_active_credential_hashes b) \<and>
      dm_revoked_credential_hashes b' = dm_revoked_credential_hashes b @ [h]"
    and "\<exists>u. t_peers s' = t_peers (mark_hash_revoked h u) \<and> t_identity_devices s' = t_identity_devices (mark_hash_revoked h u) \<and>
      t_peers u = t_peers s \<and> t_identity_devices u = t_identity_devices s \<and> t_identity s' = t_identity s \<and> t_device s' = t_device s"
    and "\<exists>r \<in> set (t_device_revocations s'). rv_device_id r = dev \<or> rv_notification_id r = revocation_marker h"
proof -
  obtain root b me where c: "client_root s = Inr (Some root)" "latest_manifest_body cb cr s = Inr (Some b)"
    "map_option od_credential_hash (find (\<lambda>d. od_device_id d = dev) (t_identity_devices s)) = Some h"
    and alt: "h \<in> set (dm_revoked_credential_hashes b) \<and> latest_manifest s' = Some sm \<and>
        revocation_start dev (revocation_marker h) (mark_hash_revoked h s) = (Inr (), s') \<or>
      h \<notin> set (dm_revoked_credential_hashes b) \<and>
        (\<exists>mb st u. issue_manifest cb cr root (client_manifest_state s)
            (filter (\<lambda>x. x \<noteq> h) (dm_active_credential_hashes b)) (dm_revoked_credential_hashes b @ [h]) = Inr sm \<and>
          accept_manifest cb cr sm (ed_public cr root) (client_manifest_state s) = Inr (mb, st) \<and>
          insert_manifest (dm_identity_id mb) st sm s = (Inr (), u) \<and>
          revocation_start dev (revocation_marker h) (mark_hash_revoked h u) = (Inr (), s'))"
    using device_revoke_cases [OF e] by metis
  from alt show thesis
  proof (elim disjE conjE exE)
    assume h: "h \<in> set (dm_revoked_credential_hashes b)" and l: "latest_manifest s' = Some sm"
      and rs: "revocation_start dev (revocation_marker h) (mark_hash_revoked h s) = (Inr (), s')"
    have "t_manifest s' = t_manifest s" "t_identity s' = t_identity s" "t_device s' = t_device s"
      using revocation_start_state(3-5) [OF rs] by (simp_all add: mark_hash_revoked_def)
    then have "latest_manifest_body cb cr s' = Inr (Some b)" "t_identity s' = t_identity s" "t_device s' = t_device s"
      using c(2) latest_manifest_body_cong(1) [of s' s cb cr] by simp_all
    then show thesis
      by (intro that [OF c(2,3) l, of b]) (use h revocation_start_state [OF rs] in auto)
  next
    fix mb st u
    assume h: "h \<notin> set (dm_revoked_credential_hashes b)"
      and i: "issue_manifest cb cr root (client_manifest_state s)
            (filter (\<lambda>x. x \<noteq> h) (dm_active_credential_hashes b)) (dm_revoked_credential_hashes b @ [h]) = Inr sm"
      and a: "accept_manifest cb cr sm (ed_public cr root) (client_manifest_state s) = Inr (mb, st)"
      and ins: "insert_manifest (dm_identity_id mb) st sm s = (Inr (), u)"
      and rs: "revocation_start dev (revocation_marker h) (mark_hash_revoked h u) = (Inr (), s')"
    have u: "t_peers u = t_peers s" "t_identity_devices u = t_identity_devices s" "t_identity u = t_identity s"
      "t_device u = t_device s"
      using ins by (auto simp: insert_manifest_def split: if_splits)
    have s': "t_manifest s' = t_manifest u" "t_identity s' = t_identity s" "t_device s' = t_device s"
      using revocation_start_state(3-5) [OF rs] u by (simp_all add: mark_hash_revoked_def)
    note st = issue_and_store [OF cb cr ok room c(1) i a ins s'(1,2)]
    show thesis
      by (rule that [OF c(2,3) st(1,2)]) (use st(3,4) revocation_start_state [OF rs] u s' in \<open>auto\<close>)
  qed
qed

section \<open>Properties\<close>

lemma find_SomeD: "find P xs = Some x \<Longrightarrow> x \<in> set xs \<and> P x"
  by (metis find_Some_iff nth_mem)

definition hash_marked :: "bytes \<Rightarrow> client \<Rightarrow> bool" where
  "hash_marked h s \<longleftrightarrow> (\<forall>p \<in> set (t_peers s). pr_credential_hash p = h \<longrightarrow> pr_revoked p) \<and>
     (\<forall>d \<in> set (t_identity_devices s). od_credential_hash d = h \<longrightarrow> od_revoked d)"

lemma ball_update_rows: "(\<forall>r \<in> set (update_rows Q f rows). P r) \<longleftrightarrow> (\<forall>r \<in> set rows. if Q r then P (f r) else P r)"
  by (induction rows) auto

lemma mark_hash_marks: "hash_marked h (mark_hash_revoked h s)"
  unfolding hash_marked_def mark_hash_revoked_def by (simp add: ball_update_rows)

lemma mark_hash_keeps: "hash_marked h s \<Longrightarrow> hash_marked h (mark_hash_revoked a s)"
  unfolding hash_marked_def mark_hash_revoked_def by (simp add: ball_update_rows)

lemma fold_mark_keeps: "hash_marked h s \<Longrightarrow> hash_marked h (fold mark_hash_revoked hs s)"
  by (induction hs arbitrary: s) (simp_all add: mark_hash_keeps)

lemma fold_mark_marks: "h \<in> set hs \<Longrightarrow> hash_marked h (fold mark_hash_revoked hs s)"
  by (induction hs arbitrary: s) (auto simp: fold_mark_keeps mark_hash_marks)

lemma mark_hash_idem:
  assumes "t_peers s = t_peers (mark_hash_revoked h u)" "t_identity_devices s = t_identity_devices (mark_hash_revoked h u)"
  shows "mark_hash_revoked h s = s"
proof -
  have m: "hash_marked h s"
    using mark_hash_marks [of h u] assms by (simp add: hash_marked_def)
  have "update_rows (\<lambda>p. pr_credential_hash p = h \<and> \<not> pr_revoked p) (\<lambda>p. p\<lparr>pr_revoked := True\<rparr>) (t_peers s) = t_peers s"
    by (rule update_rows_id) (use m in \<open>auto simp: hash_marked_def\<close>)
  moreover have "d\<lparr>od_revoked := True\<rparr> = d" if "od_revoked d" for d :: own_device
    using that by (cases d) simp
  then have "update_rows (\<lambda>d. od_credential_hash d = h) (\<lambda>d. d\<lparr>od_revoked := True\<rparr>) (t_identity_devices s) = t_identity_devices s"
    by (intro update_rows_id) (use m in \<open>simp add: hash_marked_def\<close>)
  ultimately show ?thesis by (simp add: mark_hash_revoked_def)
qed

lemma find_update_rows:
  assumes "\<And>r. P (f r) = P r" and "\<And>r. g (f r) = g r"
  shows "map_option g (find P (update_rows Q f rows)) = map_option g (find P rows)"
  using assms by (induction rows) auto

lemma device_revoke_marks:
  assumes "t_peers s' = t_peers (mark_hash_revoked h u)" "t_identity_devices s' = t_identity_devices (mark_hash_revoked h u)"
    "t_identity_devices u = t_identity_devices s"
    and f: "map_option od_credential_hash (find (\<lambda>d. od_device_id d = dev) (t_identity_devices s)) = Some h"
  shows "device_revoked dev s'" and "\<forall>p \<in> set (t_peers s'). pr_credential_hash p = h \<longrightarrow> pr_revoked p"
    and "map_option od_credential_hash (find (\<lambda>d. od_device_id d = dev) (t_identity_devices s')) = Some h"
proof -
  obtain d where d: "d \<in> set (t_identity_devices s)" "od_device_id d = dev" "od_credential_hash d = h"
    using f by (auto dest: find_SomeD)
  then have "d\<lparr>od_revoked := True\<rparr> \<in> set (t_identity_devices s')"
    using assms(2,3) update_rows_member [of d "t_identity_devices u" "\<lambda>d. od_credential_hash d = h" "od_revoked_update (\<lambda>_. True)"]
    by (simp add: mark_hash_revoked_def)
  then show "device_revoked dev s'"
    unfolding device_revoked_iff using d(2) by (intro disjI2 bexI [of _ "d\<lparr>od_revoked := True\<rparr>"]) simp_all
  show "\<forall>p \<in> set (t_peers s'). pr_credential_hash p = h \<longrightarrow> pr_revoked p"
    using assms(1) mark_hash_marks [of h u] by (simp add: hash_marked_def)
  show "map_option od_credential_hash (find (\<lambda>d. od_device_id d = dev) (t_identity_devices s')) = Some h"
    unfolding assms(2) f [symmetric] assms(3) [symmetric]
    by (simp add: mark_hash_revoked_def find_update_rows del: map_option_eq_Some)
qed

lemma device_revoke_again:
  assumes r: "client_root s = Inr (Some root)" and me: "device s = Inr (Some me)" "dk_device_id (sd_keys me) \<noteq> dev"
    and f: "map_option od_credential_hash (find (\<lambda>d. od_device_id d = dev) (t_identity_devices s)) = Some h"
    and b: "latest_manifest_body cb cr s = Inr (Some b)" "h \<in> set (dm_revoked_credential_hashes b)"
    and l: "latest_manifest s = Some sm" and m: "mark_hash_revoked h s = s"
    and j: "\<exists>r \<in> set (t_device_revocations s). rv_device_id r = dev \<or> rv_notification_id r = revocation_marker h"
  shows "device_revoke cb cr dev s = (Inr (sm, h), s)"
proof -
  have "revocation_start dev (revocation_marker h) s = (Inr (), s)"
    using j by (simp add: revocation_start_def)
  then have "device_revoke_in_unit cb cr dev s = (Inr (sm, h), s)"
    using assms by (auto simp: device_revoke_in_unit_def op_then_def own_devices_def ok_or_def)
  then show ?thesis by (simp add: device_revoke_def transactionally_def)
qed

text \<open>C15. Revoking a device: on success the device is known as revoked, every roster row with its
  credential is marked, the newest stored manifest is the one returned and lists the credential as
  revoked (and no longer as active when it was not revoked before), the revocation is in the journal,
  and asking again returns the same manifest and changes nothing.\<close>

theorem device_revoke_correct:
  assumes "cbor_codec cb" and "crypto_ok cr" and "profile_ok cr s" and "manifest_room 1 s"
    and e: "device_revoke cb cr dev s = (Inr (sm, h), s')"
  shows "device_revoked dev s' \<and> (\<forall>p \<in> set (t_peers s'). pr_credential_hash p = h \<longrightarrow> pr_revoked p) \<and>
    (\<exists>b b'. latest_manifest_body cb cr s = Inr (Some b) \<and> latest_manifest s' = Some sm \<and>
       latest_manifest_body cb cr s' = Inr (Some b') \<and> h \<in> set (dm_revoked_credential_hashes b') \<and>
       (h \<notin> set (dm_revoked_credential_hashes b) \<longrightarrow> h \<notin> set (dm_active_credential_hashes b'))) \<and>
    (\<exists>r \<in> set (revocations s'). rv_device_id r = dev \<or> rv_notification_id r = revocation_marker h) \<and>
    device_revoke cb cr dev s' = (Inr (sm, h), s')"
proof -
  have room: "manifest_room (Suc 0) s" using assms(4) by simp
  obtain b b' u where st: "latest_manifest_body cb cr s = Inr (Some b)"
    "map_option od_credential_hash (find (\<lambda>d. od_device_id d = dev) (t_identity_devices s)) = Some h"
    "latest_manifest s' = Some sm" "latest_manifest_body cb cr s' = Inr (Some b')"
    "h \<in> set (dm_revoked_credential_hashes b')"
    "h \<notin> set (dm_revoked_credential_hashes b) \<Longrightarrow>
      dm_active_credential_hashes b' = filter (\<lambda>x. x \<noteq> h) (dm_active_credential_hashes b)"
    and u: "t_peers s' = t_peers (mark_hash_revoked h u)" "t_identity_devices s' = t_identity_devices (mark_hash_revoked h u)"
      "t_identity_devices u = t_identity_devices s" "t_identity s' = t_identity s" "t_device s' = t_device s"
    and j: "\<exists>r \<in> set (t_device_revocations s'). rv_device_id r = dev \<or> rv_notification_id r = revocation_marker h"
    using device_revoke_stores [OF assms(1-3) room e] by metis
  obtain root me where c: "client_root s = Inr (Some root)" "device s = Inr (Some me)" "dk_device_id (sd_keys me) \<noteq> dev"
    using device_revoke_cases [OF e] by metis
  note m = device_revoke_marks [OF u(1-3) st(2)]
  have "client_root s' = Inr (Some root)" "device s' = Inr (Some me)"
    using c u(4,5) by (simp_all add: client_root_def device_def)
  then have "device_revoke cb cr dev s' = (Inr (sm, h), s')"
    using c(3) m(3) st(3-5) mark_hash_idem [OF u(1,2)] j by (intro device_revoke_again)
  then show ?thesis using m(1,2) st j by (auto simp: revocations_def)
qed

text \<open>C16. A device that is authorized a second time keeps its first credential through a revocation:
  the manifest that revokes the device still lists the credential of the first authorization as
  active, because the list of own devices remembers only the last one.\<close>

theorem reauthorized_device_outlives_revocation:
  assumes "cbor_codec cb" and "crypto_ok cr" and "profile_ok cr s" and "manifest_room 3 s"
    and a1: "device_authorize cb cr public now1 s = (Inr (c1, m1), s1)"
    and a2: "device_authorize cb cr public now2 s1 = (Inr (c2, m2), s2)"
    and ne: "credential_hash cr c1 \<noteq> credential_hash cr c2"
    and rv: "device_revoke cb cr (dp_device_id public) s2 = (Inr (m3, h), s3)"
    and fresh: "latest_manifest_body cb cr s = Inr old" "credential_hash cr c2 \<notin> set (revoked_hashes old)"
  shows "h = credential_hash cr c2 \<and>
    (\<exists>b. latest_manifest_body cb cr s3 = Inr (Some b) \<and> h \<in> set (dm_revoked_credential_hashes b) \<and>
       credential_hash cr c1 \<in> set (dm_active_credential_hashes b))"
proof -
  have room: "manifest_room (Suc 2) s" using assms(4) by (simp add: numeral_3_eq_3)
  obtain b1 where b1: "latest_manifest_body cb cr s1 = Inr (Some b1)"
    "dm_active_credential_hashes b1 = active_hashes old @ [credential_hash cr c1]"
    "dm_revoked_credential_hashes b1 = revoked_hashes old" "manifest_room (Suc 1) s1"
    by (rule device_authorize_stores [OF assms(1-3) room a1]) (use fresh(1) in \<open>simp add: eval_nat_numeral\<close>)
  have ok1: "profile_ok cr s1"
    using device_authorize_keeps [of cr cb public now1] assms(3) a1 by (metis op_keeps_def snd_conv)
  obtain b2 where b2: "latest_manifest_body cb cr s2 = Inr (Some b2)"
    "dm_active_credential_hashes b2 = dm_active_credential_hashes b1 @ [credential_hash cr c2]"
    "dm_revoked_credential_hashes b2 = dm_revoked_credential_hashes b1" "manifest_room (Suc 0) s2"
    "map_option od_credential_hash (find (\<lambda>d. od_device_id d = dp_device_id public) (t_identity_devices s2)) =
      Some (credential_hash cr c2)"
    by (rule device_authorize_stores [OF assms(1,2) ok1 b1(4) a2])
      (use b1(1) in \<open>auto simp: active_hashes_def revoked_hashes_def\<close>)
  have ok2: "profile_ok cr s2"
    using device_authorize_keeps [of cr cb public now2] ok1 a2 by (metis op_keeps_def snd_conv)
  obtain b3 where h: "Some h = Some (credential_hash cr c2)"
    and b3: "latest_manifest_body cb cr s3 = Inr (Some b3)" "h \<in> set (dm_revoked_credential_hashes b3)"
    "h \<notin> set (dm_revoked_credential_hashes b2) \<Longrightarrow>
       dm_active_credential_hashes b3 = filter (\<lambda>x. x \<noteq> h) (dm_active_credential_hashes b2)"
    by (rule device_revoke_stores [OF assms(1,2) ok2 b2(4) rv]) (use b2(1,5) in simp)
  show ?thesis
    using h b3 b2 b1 fresh(2) ne by auto
qed

lemma fold_mark_peer_manifests [simp]: "t_peer_manifests (fold mark_hash_revoked hs s) = t_peer_manifests s"
  by (induction hs arbitrary: s) (simp_all add: mark_hash_revoked_def)

text \<open>A contact's manifest: what is accepted was signed by the root key learned from that contact's
  routes and names that identity; afterwards it is the manifest remembered for the contact, every
  device it revokes is marked in every conversation, and nothing remembered before is taken back.\<close>

theorem peer_manifest_accept_correct:
  assumes e: "peer_manifest_accept cb cr ident sm s = (Inr (body, new, change), s')"
  shows "(\<exists>root. peer_root cr ident s = Inr root \<and> dm_identity_id body = identity_id cr root \<and>
      verify_value cb cr (device_manifest_from_value cb) sm MANIFEST_CONTEXT root = Inr body) \<and>
    peer_manifest_state ident s' = Some \<lparr>ms_sequence = dm_manifest_sequence body, ms_hash = manifest_hash cr sm\<rparr> \<and>
    (\<forall>h \<in> set (dm_revoked_credential_hashes body). hash_marked h s') \<and>
    (new \<longleftrightarrow> peer_manifest_state ident s' \<noteq> peer_manifest_state ident s) \<and> trust_grows s s'"
proof -
  obtain root st where root: "peer_root cr ident s = Inr root"
    and st: "accept_manifest cb cr sm root (peer_manifest_state ident s) = Inr (body, st)"
    and new: "new \<longleftrightarrow> map_option ms_sequence (peer_manifest_state ident s) \<noteq> Some (ms_sequence st)"
    and s': "s' = fold mark_hash_revoked (dm_revoked_credential_hashes body)
      (if new then s\<lparr>t_peer_manifests := (t_peer_manifests s)(ident \<mapsto>
         \<lparr>pm_sequence = as_i64 (ms_sequence st), pm_hash = ms_hash st,
          pm_active = Some (encoded cb (VArray (map VBytes (dm_active_credential_hashes body))))\<rparr>)\<rparr> else s)"
    using e by (elim peer_manifest_accept_effect)
  note acc = accept_manifest_cases [OF st]
  have eq: "st = \<lparr>ms_sequence = dm_manifest_sequence body, ms_hash = manifest_hash cr sm\<rparr>"
    using acc(4,5) by (cases st) simp
  have pms: "peer_manifest_state ident s' = Some st"
  proof (cases new)
    case True
    then show ?thesis by (simp add: s' peer_manifest_state_def)
  next
    case False
    then obtain k where "peer_manifest_state ident s = Some k" "ms_sequence k = ms_sequence st"
      using new by auto
    with acc(7) have "peer_manifest_state ident s = Some st" by blast
    with False show ?thesis by (simp add: s' peer_manifest_state_def)
  qed
  have "trust_grows s s'"
    using trust.growsD [OF peer_manifest_accept_trust e] .
  moreover have "new \<longleftrightarrow> peer_manifest_state ident s' \<noteq> peer_manifest_state ident s"
    using new pms acc(7) by (cases "peer_manifest_state ident s") auto
  moreover have "hash_marked h s'" if "h \<in> set (dm_revoked_credential_hashes body)" for h
    unfolding s' using that by (rule fold_mark_marks)
  ultimately show ?thesis
    using root acc(1,2) pms eq by auto
qed

text \<open>The stored active list reads back.\<close>

lemma stored_active_reads_back:
  assumes "cbor_codec cb" and "cbor_size (VArray (map VBytes hs)) < 2 ^ 64"
  shows "decode_as cb (de_list cb (de_bytes cb)) (encoded cb (VArray (map VBytes hs))) = Some hs"
proof -
  have wf: "wf_value 16 (VArray (map VBytes hs))" by (simp add: wf_value_numeral list_all_iff)
  obtain b where b: "into_writer cb (VArray (map VBytes hs)) = Some b"
    using cbor_codec.encodes [OF assms(1) wf assms(2)] by blast
  have "collect_options (map (de_bytes cb \<circ> VBytes) hs) = Some hs"
    by (induction hs) (simp_all add: cbor_codec.de_bytes_bytes [OF assms(1)])
  then show ?thesis
    using b cbor_codec.roundtrip [OF assms(1) b wf] cbor_codec.de_seq_array [OF assms(1)]
    by (simp add: decode_as_def encoded_def de_list_def)
qed

lemma difference_count_card: "difference_count xs ys = card (set xs - set ys)"
proof -
  have "set (filter (\<lambda>x. x \<notin> set ys) xs) = set xs - set ys" by auto
  then show ?thesis by (metis difference_count_def length_remdups_card_conv)
qed

text \<open>Counting device changes: after two manifests of a contact were accepted as new, one after the
  other, the second reports exactly how many credentials it added to and removed from the active set
  of the first; a repetition reports no change.\<close>

theorem device_change_counts:
  assumes "cbor_codec cb"
    and e1: "peer_manifest_accept cb cr ident m1 s = (Inr (b1, True, ch1), s1)"
    and e2: "peer_manifest_accept cb cr ident m2 s1 = (Inr (b2, new, ch2), s2)"
    and small: "cbor_size (VArray (map VBytes (dm_active_credential_hashes b1))) < 2 ^ 64"
  shows "ch2 = (if new
    then \<lparr>ch_added = word_of_nat (card (set (dm_active_credential_hashes b2) - set (dm_active_credential_hashes b1))),
          ch_removed = word_of_nat (card (set (dm_active_credential_hashes b1) - set (dm_active_credential_hashes b2)))\<rparr>
    else \<lparr>ch_added = 0, ch_removed = 0\<rparr>)"
proof -
  obtain st :: manifest_state where "s1 = fold mark_hash_revoked (dm_revoked_credential_hashes b1)
      (if True then s\<lparr>t_peer_manifests := (t_peer_manifests s)(ident \<mapsto>
         \<lparr>pm_sequence = as_i64 (ms_sequence st), pm_hash = ms_hash st,
          pm_active = Some (encoded cb (VArray (map VBytes (dm_active_credential_hashes b1))))\<rparr>)\<rparr> else s)"
    by (rule peer_manifest_accept_effect [OF e1]) (rule that, assumption)
  then have "t_peer_manifests s1 ident = Some \<lparr>pm_sequence = as_i64 (ms_sequence st), pm_hash = ms_hash st,
          pm_active = Some (encoded cb (VArray (map VBytes (dm_active_credential_hashes b1))))\<rparr>"
    by simp
  then have "change_between cb (t_peer_manifests s1 ident) act =
     \<lparr>ch_added = word_of_nat (card (set act - set (dm_active_credential_hashes b1))),
      ch_removed = word_of_nat (card (set (dm_active_credential_hashes b1) - set act))\<rparr>" for act
    using stored_active_reads_back [OF assms(1) small]
    by (simp add: change_between_def difference_count_card)
  then show ?thesis
    by (rule_tac peer_manifest_accept_effect [OF e2]) auto
qed

lemma device_link_complete_cases:
  assumes "device_link_complete cb cr c m root now s = (Inr i, s')"
  obtains me v body st where "device s = Inr (Some me)" "sd_credential me = []" "client_identity_id s = None"
    "length root = 32" "ed_point cr root" "verify_credential cb cr c (Some root) now = Inr v"
    "names_device (vc_credential v) (device_keys_public (sd_keys me))"
    "accept_manifest cb cr m root None = Inr (body, st)" "vc_hash v \<in> set (dm_active_credential_hashes body)"
    "i = identity_id cr root"
    "t_identity s' = Some \<lparr>ir_root_seed = None, ir_root_public = root, ir_identity_id = identity_id cr root\<rparr>"
    "t_device s' = update_rows (\<lambda>d. dr_device_id d = dk_device_id (sd_keys me))
          (\<lambda>d. d\<lparr>dr_credential := c, dr_credential_hash := vc_hash v\<rparr>) (t_device s)"
proof -
  obtain me where me: "device s = Inr (Some me)" "sd_credential me = []" "client_identity_id s = None"
      "length root = 32" "ed_point cr root"
    using assms by (auto simp: device_link_complete_def op_simps ok_or_eq_Inr_iff split: if_splits)
  obtain v where v: "verify_credential cb cr c (Some root) now = Inr v"
    "names_device (vc_credential v) (device_keys_public (sd_keys me))"
    using assms me by (auto simp: device_link_complete_def op_simps ok_or_eq_Inr_iff map_err_eq_Inr_iff split: if_splits)
  obtain body st where b: "accept_manifest cb cr m root None = Inr (body, st)" "vc_hash v \<in> set (dm_active_credential_hashes body)"
    using assms me v by (auto simp: device_link_complete_def op_simps ok_or_eq_Inr_iff map_err_eq_Inr_iff split: if_splits)
  show thesis
    by (rule that [OF me v b])
      (use assms me v b in \<open>auto simp: device_link_complete_def op_simps ok_or_eq_Inr_iff map_err_eq_Inr_iff
        insert_identity_def insert_manifest_def insert_own_device_def split: if_splits option.splits\<close>)
qed

text \<open>Completing a link: a grant is applied only when its credential verifies under the granted root
  and names this device's keys, and its manifest lists it as active; the root key itself never
  arrives. Repeating the same grant answers the same identity and changes nothing, and no other
  credential or root is accepted afterwards.\<close>

theorem link_complete_once:
  assumes ok: "profile_ok cr s" and e: "device_link_complete cb cr c m root now s = (Inr i, s')"
  shows "(\<exists>me v. device s = Inr (Some me) \<and> verify_credential cb cr c (Some root) now = Inr v \<and>
      names_device (vc_credential v) (device_keys_public (sd_keys me))) \<and>
    i = identity_id cr root \<and> client_identity_id s' = Some i \<and> client_root s' = Inr None \<and>
    device_link_complete_idempotent cb cr c m root now s' = (Inr i, s') \<and>
    (\<forall>c2 m2 r2 now2 j t. device_link_complete_idempotent cb cr c2 m2 r2 now2 s' = (Inr j, t) \<longrightarrow>
       c2 = c \<and> r2 = root \<and> j = i \<and> t = s')"
proof -
  obtain me v body st where d: "device s = Inr (Some me)" "sd_credential me = []" "client_identity_id s = None"
    "length root = 32" "ed_point cr root" "verify_credential cb cr c (Some root) now = Inr v"
    "names_device (vc_credential v) (device_keys_public (sd_keys me))"
    "accept_manifest cb cr m root None = Inr (body, st)" "vc_hash v \<in> set (dm_active_credential_hashes body)"
    "i = identity_id cr root"
    and i': "t_identity s' = Some \<lparr>ir_root_seed = None, ir_root_public = root, ir_identity_id = identity_id cr root\<rparr>"
    and dv: "t_device s' = update_rows (\<lambda>d. dr_device_id d = dk_device_id (sd_keys me))
          (\<lambda>d. d\<lparr>dr_credential := c, dr_credential_hash := vc_hash v\<rparr>) (t_device s)"
    using e by (elim device_link_complete_cases)
  have ids: "client_identity_id s' = Some i" "client_root s' = Inr None" "root_public cr s' = Inr (Some root)"
    using i' d(4,5,10) by (simp_all add: client_identity_id_def client_root_def root_public_def)
  have dev: "device s' = Inr (Some (me\<lparr>sd_credential := c, sd_credential_hash := vc_hash v\<rparr>))"
    using d(1) dv by (cases me) (auto simp: device_def split: list.splits if_splits)
  have ex: "device_link_complete cb cr c2 m2 r2 now2 s' = (Inl DeviceExists, s')" for c2 m2 r2 now2
    unfolding device_link_complete_def op_then_def by (simp add: ids(1) dev ok_or_def)
  have same: "resume_link cb cr c m root now s' = Inr i"
    using d ids dev by (simp add: resume_link_def ok_or_def)
  have only: "c2 = c \<and> r2 = root \<and> j = i" if "resume_link cb cr c2 m2 r2 now2 s' = Inr j" for c2 m2 r2 now2 j
    using that ids dev by (auto simp: resume_link_def ok_or_def result_simps split: if_splits)
  have idem: "device_link_complete_idempotent cb cr c2 m2 r2 now2 s' = (resume_link cb cr c2 m2 r2 now2 s', s')"
    for c2 m2 r2 now2
    by (simp add: device_link_complete_idempotent_def ex)
  show ?thesis
  proof (intro conjI)
    show "\<forall>c2 m2 r2 now2 j t. device_link_complete_idempotent cb cr c2 m2 r2 now2 s' = (Inr j, t) \<longrightarrow>
       c2 = c \<and> r2 = root \<and> j = i \<and> t = s'" using only idem by (metis prod.inject)
    show "\<exists>me v. device s = Inr (Some me) \<and> verify_credential cb cr c (Some root) now = Inr v \<and>
      names_device (vc_credential v) (device_keys_public (sd_keys me))" using d(1,6,7) by blast
    show "device_link_complete_idempotent cb cr c m root now s' = (Inr i, s')" by (simp only: idem same)
  qed (use d(10) ids(1,2) in simp_all)
qed

section \<open>Profiles on which the properties apply\<close>

lemma head_size_le: "head_size n \<le> 9"
  by (simp add: head_size_def)

lemma bytes_array_size:
  "\<forall>h \<in> set hs. length h = 32 \<Longrightarrow> cbor_size (VArray (map VBytes hs)) \<le> 9 + 41 * length hs"
proof -
  assume l: "\<forall>h \<in> set hs. length h = 32"
  have "sum_list (map (\<lambda>h. cbor_size (VBytes h)) hs) \<le> 41 * length hs"
    using l by (induction hs) (simp_all add: head_size_def)
  then show ?thesis
    using head_size_le [of "length hs"] by (simp add: comp_def del: cbor_size.simps(2))
qed

lemma issue_manifest_ok:
  assumes cr: "crypto_ok cr" and h: "\<forall>h \<in> set act \<union> set rvk. length h = 32"
    and n: "length act + length rvk \<le> 1000" and p: "\<And>k. prev = Some k \<Longrightarrow> length (ms_hash k) = 32"
  shows "\<exists>sm. issue_manifest rfc_cbor cr root prev act rvk = Inr sm"
proof -
  let ?m = "\<lparr>dm_version = MANIFEST_VERSION, dm_identity_id = identity_id cr (ed_public cr root),
    dm_manifest_sequence = (case prev of None \<Rightarrow> 1 | Some k \<Rightarrow> ms_sequence k + 1),
    dm_previous_manifest_hash = (case prev of None \<Rightarrow> [] | Some k \<Rightarrow> ms_hash k),
    dm_active_credential_hashes = act, dm_revoked_credential_hashes = rvk\<rparr>"
  have "length (identity_id cr (ed_public cr root)) = 32"
    using cr by (simp add: identity_id_def id_hash_def crypto_ok_def)
  moreover have "length (dm_previous_manifest_hash ?m) \<le> 32"
    using p by (cases prev) simp_all
  moreover have "cbor_size (VArray (map VBytes act)) + cbor_size (VArray (map VBytes rvk)) \<le> 18 + 41 * 1000"
    using bytes_array_size [of act] bytes_array_size [of rvk] h n by fastforce
  moreover have "cbor_size (v_uint (dm_manifest_sequence ?m)) \<le> 9"
    by (simp add: v_uint_def head_size_le)
  ultimately have "cbor_size (struct (device_manifest_fields ?m)) < 2 ^ 32"
    using head_size_le [of "length (dm_previous_manifest_hash ?m)"]
    by (simp add: device_manifest_fields_def struct_def MANIFEST_VERSION_def head_size_def v_uint_def
        del: cbor_size.simps(8)) 
  then have "\<exists>b. sign_value rfc_cbor cr MANIFEST_CONTEXT (struct (device_manifest_fields ?m)) root = Inr b"
    by (rule rfc.sign_value_ok [OF cr wf_manifest _ contexts_utf8(2)]) (simp add: MANIFEST_CONTEXT_def)
  then show ?thesis
    by (simp add: issue_manifest_def map_err_eq_Inr_iff)
qed

lemma issue_credential_ok:
  assumes cr: "crypto_ok cr" and "length (dp_device_id d) \<le> 64" "length (dp_mls_signature_public_key d) \<le> 64"
    "length (dp_transport_noise_public_key d) \<le> 64" "length (dp_envelope_hpke_public_key d) \<le> 64"
  shows "\<exists>sc. issue_credential rfc_cbor cr root d w u = Inr sc"
proof -
  let ?c = "credential_for cr root d w u"
  have "cbor_size (v_uint (not_before w)) \<le> 9" "cbor_size (v_uint (not_after w)) \<le> 9" "cbor_size (v_uint u) \<le> 9"
    by (simp_all add: v_uint_def head_size_le)
  moreover have "length (ed_public cr root) = 32" using cr by (simp add: crypto_ok_def)
  ultimately have "cbor_size (struct (device_credential_fields ?c)) < 2 ^ 32"
    using assms(2-5) head_size_le [of "length (dp_device_id d)"] head_size_le [of "length (dp_mls_signature_public_key d)"]
      head_size_le [of "length (dp_transport_noise_public_key d)"] head_size_le [of "length (dp_envelope_hpke_public_key d)"]
    by (simp add: credential_for_def device_credential_fields_def validity_fields_def struct_def v_uint_def head_size_def
        CREDENTIAL_VERSION_def)
  then have "\<exists>b. sign_value rfc_cbor cr CREDENTIAL_CONTEXT (struct (device_credential_fields ?c)) root = Inr b"
    by (rule rfc.sign_value_ok [OF cr wf_credential _ contexts_utf8(1)]) (simp add: CREDENTIAL_CONTEXT_def)
  then show ?thesis
    by (simp add: issue_credential_def credential_for_def CREDENTIAL_VERSION_def map_err_eq_Inr_iff)
qed

lemma insert_next_ok:
  assumes "crypto_ok cr" and room: "manifest_room (Suc n) s"
    and i: "issue_manifest rfc_cbor cr root (client_manifest_state s) act rvk = Inr sm"
  shows "\<exists>b st u. accept_manifest rfc_cbor cr sm (ed_public cr root) (client_manifest_state s) = Inr (b, st) \<and>
    insert_manifest (dm_identity_id b) st sm s = (Inr (), u) \<and> ms_hash st = manifest_hash cr sm"
proof -
  obtain b st where b: "accept_manifest rfc_cbor cr sm (ed_public cr root) (client_manifest_state s) = Inr (b, st)"
    "ms_sequence st = (case client_manifest_state s of None \<Rightarrow> 1 | Some k \<Rightarrow> ms_sequence k + 1)"
    using next_sequence(4) [OF room] by (rule issue_accept [OF rfc.cbor_codec_axioms assms(1) i])
  have "\<forall>m \<in> set (t_manifest s). mr_sequence m \<noteq> as_i64 (ms_sequence st)"
    using next_sequence(1) [OF room] b(2) newest_manifest_None [of s]
    by (cases "client_manifest_state s") (fastforce simp: client_manifest_state_def)+
  then show ?thesis
    using b(1) accept_manifest_cases(5) [OF b(1)] by (auto simp: insert_manifest_def)
qed

definition demo_seed :: bytes where "demo_seed = replicate 32 9"

definition demo_profile :: "crypto \<Rightarrow> bytes \<Rightarrow> client" where
  "demo_profile cr sm = client_new\<lparr>
     t_identity := Some \<lparr>ir_root_seed = Some demo_seed, ir_root_public = ed_public cr demo_seed,
       ir_identity_id = identity_id cr (ed_public cr demo_seed)\<rparr>,
     t_device := [\<lparr>dr_device_id = replicate 16 1, dr_noise_private = [], dr_noise_public = [],
       dr_hpke_private = [], dr_hpke_public = [], dr_mls_signing_secret = [], dr_mls_signing_public = [],
       dr_credential = [7], dr_credential_hash = replicate 32 1\<rparr>],
     t_manifest := [\<lparr>mr_identity_id = identity_id cr (ed_public cr demo_seed), mr_sequence = 1, mr_signed = sm,
       mr_hash = manifest_hash cr sm\<rparr>],
     t_identity_devices := [\<lparr>od_device_id = replicate 16 1, od_credential_hash = replicate 32 1, od_revoked = False\<rparr>,
       \<lparr>od_device_id = [2], od_credential_hash = replicate 32 2, od_revoked = False\<rparr>]\<rparr>"

lemma demo_ids_differ [simp]: "replicate 16 (1 :: u8) \<noteq> [b]"
proof
  assume "replicate 16 (1 :: u8) = [b]"
  then have "length (replicate 16 (1 :: u8)) = length [b]" by (rule arg_cong)
  then show False by simp
qed

lemma demo_profile_ok:
  assumes "crypto_ok cr" and i: "issue_manifest rfc_cbor cr demo_seed None [replicate 32 1, replicate 32 2] [] = Inr sm"
  shows "profile_ok cr (demo_profile cr sm)" and "client_root (demo_profile cr sm) = Inr (Some demo_seed)"
    and "manifest_room 3 (demo_profile cr sm)"
    and "client_manifest_state (demo_profile cr sm) = Some \<lparr>ms_sequence = 1, ms_hash = manifest_hash cr sm\<rparr>"
    and "\<exists>b. latest_manifest_body rfc_cbor cr (demo_profile cr sm) = Inr (Some b) \<and>
      dm_active_credential_hashes b = [replicate 32 1, replicate 32 2] \<and> dm_revoked_credential_hashes b = []"
proof -
  have k: "length (ed_public cr demo_seed) = 32" "ed_point cr (ed_public cr demo_seed)"
    using assms(1) by (simp_all add: crypto_ok_def)
  show "profile_ok cr (demo_profile cr sm)"
    using k by (simp add: profile_ok_def identity_ok_def demo_profile_def demo_seed_def client_new_def)
  show "client_root (demo_profile cr sm) = Inr (Some demo_seed)"
    by (simp add: client_root_def demo_profile_def demo_seed_def)
  show "manifest_room 3 (demo_profile cr sm)"
    by (simp add: manifest_room_def demo_profile_def)
  have n: "newest_manifest (demo_profile cr sm) = Some \<lparr>mr_identity_id = identity_id cr (ed_public cr demo_seed),
      mr_sequence = 1, mr_signed = sm, mr_hash = manifest_hash cr sm\<rparr>"
    by (simp add: newest_manifest_def demo_profile_def)
  then show "client_manifest_state (demo_profile cr sm) = Some \<lparr>ms_sequence = 1, ms_hash = manifest_hash cr sm\<rparr>"
    by (simp add: client_manifest_state_def as_u64_def)
  obtain b st where "accept_manifest rfc_cbor cr sm (ed_public cr demo_seed) None = Inr (b, st)"
    "dm_active_credential_hashes b = [replicate 32 1, replicate 32 2]" "dm_revoked_credential_hashes b = []"
    by (rule issue_accept [OF rfc.cbor_codec_axioms assms(1) i]) simp_all
  moreover have "root_public cr (demo_profile cr sm) = Inr (Some (ed_public cr demo_seed))"
    using k by (simp add: root_public_def demo_profile_def)
  ultimately show "\<exists>b. latest_manifest_body rfc_cbor cr (demo_profile cr sm) = Inr (Some b) \<and>
      dm_active_credential_hashes b = [replicate 32 1, replicate 32 2] \<and> dm_revoked_credential_hashes b = []"
    using n by (simp add: latest_manifest_body_def latest_manifest_def)
qed

lemma device_revoke_ok:
  assumes cr: "crypto_ok cr" and room: "manifest_room (Suc n) s" and root: "client_root s = Inr (Some root)"
    and b: "latest_manifest_body rfc_cbor cr s = Inr (Some b)"
    and l: "\<forall>h \<in> set (dm_active_credential_hashes b) \<union> set (dm_revoked_credential_hashes b). length h = 32"
      "length (dm_active_credential_hashes b) + length (dm_revoked_credential_hashes b) < 1000"
    and k: "client_manifest_state s = Some k" "length (ms_hash k) = 32"
    and d: "device s = Inr (Some me)" "dk_device_id (sd_keys me) \<noteq> dev"
    and f: "map_option od_credential_hash (find (\<lambda>d. od_device_id d = dev) (t_identity_devices s)) = Some h" "length h = 32"
    and h: "h \<notin> set (dm_revoked_credential_hashes b)"
  shows "\<exists>sm s'. device_revoke rfc_cbor cr dev s = (Inr (sm, h), s')"
proof -
  have "length (filter (\<lambda>x. x \<noteq> h) (dm_active_credential_hashes b)) \<le> length (dm_active_credential_hashes b)"
    by (rule length_filter_le)
  then have n: "length (filter (\<lambda>x. x \<noteq> h) (dm_active_credential_hashes b)) + length (dm_revoked_credential_hashes b @ [h]) \<le> 1000"
    using l(2) by (simp del: length_filter_le)
  have "\<forall>x \<in> set (filter (\<lambda>x. x \<noteq> h) (dm_active_credential_hashes b)) \<union> set (dm_revoked_credential_hashes b @ [h]). length x = 32"
    using l(1) f(2) by auto
  from issue_manifest_ok [OF cr this n, of "client_manifest_state s" root] k
  obtain sm where sm: "issue_manifest rfc_cbor cr root (client_manifest_state s)
      (filter (\<lambda>x. x \<noteq> h) (dm_active_credential_hashes b)) (dm_revoked_credential_hashes b @ [h]) = Inr sm"
    by auto
  obtain mb st u where a: "accept_manifest rfc_cbor cr sm (ed_public cr root) (client_manifest_state s) = Inr (mb, st)"
    "insert_manifest (dm_identity_id mb) st sm s = (Inr (), u)"
    using insert_next_ok [OF cr room sm] by blast
  obtain x where x: "find (\<lambda>d. od_device_id d = dev) (t_identity_devices s) = Some x" "od_credential_hash x = h"
    using f(1) by auto
  have "\<exists>s'. device_revoke_in_unit rfc_cbor cr dev s = (Inr (sm, h), s')"
    using root b d x h sm a
    by (simp add: device_revoke_in_unit_def op_then_def own_devices_def ok_or_def revocation_start_def)
  then show ?thesis by (auto simp: device_revoke_def transactionally_def)
qed

theorem device_revoke_correct_witness:
  "\<exists>s sm s'. device_revoke rfc_cbor demo_crypto [2] s = (Inr (sm, replicate 32 2), s') \<and>
     \<not> device_revoked [2] s \<and> device_revoked [2] s' \<and>
     device_revoke rfc_cbor demo_crypto [2] s' = (Inr (sm, replicate 32 2), s')"
proof -
  note cr = demo_crypto_ok
  obtain sm where sm: "issue_manifest rfc_cbor demo_crypto demo_seed None [replicate 32 1, replicate 32 2] [] = Inr sm"
    using issue_manifest_ok [OF cr, of "[replicate 32 1, replicate 32 2]" "[]" None demo_seed] by auto
  let ?s = "demo_profile demo_crypto sm"
  note p = demo_profile_ok [OF cr sm]
  obtain b where b: "latest_manifest_body rfc_cbor demo_crypto ?s = Inr (Some b)"
      "dm_active_credential_hashes b = [replicate 32 1, replicate 32 2]" "dm_revoked_credential_hashes b = []"
    using p(5) by blast
  have room: "manifest_room (Suc 0) ?s" using manifest_room_less [OF p(3), of 1] by simp
  have dev: "\<exists>me. device ?s = Inr (Some me) \<and> dk_device_id (sd_keys me) \<noteq> [2]"
    by (simp add: device_def demo_profile_def)
  then obtain me where me: "device ?s = Inr (Some me)" "dk_device_id (sd_keys me) \<noteq> [2]" by blast
  have f: "map_option od_credential_hash (find (\<lambda>d. od_device_id d = [2]) (t_identity_devices ?s)) = Some (replicate 32 2)"
    by (simp add: demo_profile_def)
  have "\<exists>m s'. device_revoke rfc_cbor demo_crypto [2] ?s = (Inr (m, replicate 32 2), s')"
    by (rule device_revoke_ok [OF cr room p(2) b(1) _ _ p(4) _ me f])
      (use b in \<open>simp_all add: manifest_hash_def\<close>)
  then obtain m s' where e: "device_revoke rfc_cbor demo_crypto [2] ?s = (Inr (m, replicate 32 2), s')" by blast
  have "\<not> device_revoked [2] ?s"
    by (simp add: device_revoked_iff demo_profile_def client_new_def)
  then show ?thesis
    using e device_revoke_correct [OF rfc.cbor_codec_axioms cr p(1) _ e] room by auto
qed

lemma device_authorize_ok:
  assumes cr: "crypto_ok cr" and ok: "profile_ok cr s" and room: "manifest_room (Suc n) s" and root: "client_root s = Inr (Some root)"
    and b: "latest_manifest_body rfc_cbor cr s = Inr (Some b)"
    and l: "\<forall>h \<in> set (dm_active_credential_hashes b) \<union> set (dm_revoked_credential_hashes b). length h = 32"
      "length (dm_active_credential_hashes b) + length (dm_revoked_credential_hashes b) < 1000"
    and k: "client_manifest_state s = Some k" "length (ms_hash k) = 32"
    and d: "\<not> list_ex (\<lambda>d. od_device_id d = dp_device_id public \<and> od_revoked d) (t_identity_devices s)"
    and c: "issue_credential rfc_cbor cr root public (default_validity now) all_uses = Inr c"
  shows "\<exists>sm s'. device_authorize rfc_cbor cr public now s = (Inr (c, sm), s') \<and>
    (\<exists>k'. client_manifest_state s' = Some k' \<and> length (ms_hash k') = 32)"
proof -
  have hc: "length (credential_hash cr c) = 32" "length (manifest_hash cr x) = 32" for x
    using cr by (simp_all add: credential_hash_def manifest_hash_def id_hash_def crypto_ok_def)
  have "\<forall>x \<in> set (dm_active_credential_hashes b @ [credential_hash cr c]) \<union> set (dm_revoked_credential_hashes b). length x = 32"
    using l(1) hc by auto
  from issue_manifest_ok [OF cr this, of "client_manifest_state s" root] k l(2)
  obtain sm where sm: "issue_manifest rfc_cbor cr root (client_manifest_state s)
      (dm_active_credential_hashes b @ [credential_hash cr c]) (dm_revoked_credential_hashes b) = Inr sm"
    by auto
  obtain mb st u where a: "accept_manifest rfc_cbor cr sm (ed_public cr root) (client_manifest_state s) = Inr (mb, st)"
    "insert_manifest (dm_identity_id mb) st sm s = (Inr (), u)" "ms_hash st = manifest_hash cr sm"
    using insert_next_ok [OF cr room sm] by blast
  obtain s' where s': "replace_own_device (dp_device_id public) (credential_hash cr c) u = (Inr (), s')"
    by (simp add: replace_own_device_def)
  have e: "device_authorize rfc_cbor cr public now s = (Inr (c, sm), s')"
    using root b d c sm a s'
    by (simp add: device_authorize_def op_then_def own_devices_def ok_or_def transactionally_def)
  have "t_manifest s' = t_manifest u" "t_identity s' = t_identity s"
    using s' a(2) by (auto simp: replace_own_device_def insert_manifest_def split: if_splits)
  then have "client_manifest_state s' = Some st"
    using issue_and_store(5) [OF rfc.cbor_codec_axioms cr ok room root sm a(1,2)] by blast
  with e a(3) hc show ?thesis by auto
qed

text \<open>A hash that tells one given credential from all others.\<close>

definition marking_crypto :: "bytes \<Rightarrow> crypto" where
  "marking_crypto c = demo_crypto\<lparr>sha256 := \<lambda>x.
     replicate 32 (if x = bytes_of_string CREDENTIAL_HASH_CONTEXT @ c then 1 else 0)\<rparr>"

lemma marking_crypto_ok: "crypto_ok (marking_crypto c)"
  using demo_crypto_ok by (simp add: crypto_ok_def marking_crypto_def)

lemma marking_issue: "issue_credential cb (marking_crypto c) root d w u = issue_credential cb demo_crypto root d w u"
  by (simp add: issue_credential_def sign_value_def sign_def marking_crypto_def)

theorem reauthorized_device_outlives_revocation_witness:
  "\<exists>c1 c2 m3 s3 b. c1 \<noteq> c2 \<and> latest_manifest_body rfc_cbor (marking_crypto c1) s3 = Inr (Some b) \<and>
     device_revoked [1] s3 \<and> credential_hash (marking_crypto c1) c1 \<in> set (dm_active_credential_hashes b)"
proof -
  let ?p = demo_device
  obtain c1 where c1: "issue_credential rfc_cbor demo_crypto demo_seed ?p (default_validity 1000) all_uses = Inr c1"
    using issue_credential_ok [OF demo_crypto_ok, of ?p demo_seed] by (fastforce simp: demo_device_def)
  obtain c2 where c2: "issue_credential rfc_cbor demo_crypto demo_seed ?p (default_validity 2000) all_uses = Inr c2"
    using issue_credential_ok [OF demo_crypto_ok, of ?p demo_seed] by (fastforce simp: demo_device_def)
  let ?cr = "marking_crypto c1"
  note cr = marking_crypto_ok [of c1]
  have "verify_credential rfc_cbor demo_crypto c1 None 1000 \<noteq> verify_credential rfc_cbor demo_crypto c2 None 1000"
    using issue_verify [OF rfc.cbor_codec_axioms demo_crypto_ok c1, of None 1000]
      issue_verify [OF rfc.cbor_codec_axioms demo_crypto_ok c2, of None 1000]
    by (simp add: default_validity_def DEFAULT_VALIDITY_SECS_def)
  then have "c1 \<noteq> c2" by auto
  then have ne: "credential_hash ?cr c1 \<noteq> credential_hash ?cr c2"
    by (simp add: credential_hash_def id_hash_def marking_crypto_def)
  have k32: "length (manifest_hash ?cr x) = 32" "length (credential_hash ?cr x) = 32" for x
    by (simp_all add: manifest_hash_def credential_hash_def id_hash_def marking_crypto_def)
  obtain sm where sm: "issue_manifest rfc_cbor ?cr demo_seed None [replicate 32 1, replicate 32 2] [] = Inr sm"
    using issue_manifest_ok [OF cr, of "[replicate 32 1, replicate 32 2]" "[]" None demo_seed] by auto
  let ?s = "demo_profile ?cr sm"
  note p = demo_profile_ok [OF cr sm]
  obtain b where b: "latest_manifest_body rfc_cbor ?cr ?s = Inr (Some b)"
      "dm_active_credential_hashes b = [replicate 32 1, replicate 32 2]" "dm_revoked_credential_hashes b = []"
    using p(5) by blast
  have room: "manifest_room (Suc 2) ?s" using p(3) by (simp add: eval_nat_numeral)
  have "\<exists>m1 s1. device_authorize rfc_cbor ?cr ?p 1000 ?s = (Inr (c1, m1), s1) \<and>
      (\<exists>k'. client_manifest_state s1 = Some k' \<and> length (ms_hash k') = 32)"
    by (rule device_authorize_ok [OF cr p(1) room p(2) b(1) _ _ p(4)])
      (use b c1 k32 in \<open>simp_all add: marking_issue demo_profile_def demo_device_def\<close>)
  then obtain m1 s1 k1 where a1: "device_authorize rfc_cbor ?cr ?p 1000 ?s = (Inr (c1, m1), s1)"
    "client_manifest_state s1 = Some k1" "length (ms_hash k1) = 32" by blast
  have ok1: "profile_ok ?cr s1"
    using device_authorize_keeps [of ?cr rfc_cbor ?p 1000] p(1) a1(1) by (metis op_keeps_def snd_conv)
  obtain old b1 where b1: "latest_manifest_body rfc_cbor ?cr ?s = Inr old" "latest_manifest_body rfc_cbor ?cr s1 = Inr (Some b1)"
    "dm_active_credential_hashes b1 = active_hashes old @ [credential_hash ?cr c1]"
    "dm_revoked_credential_hashes b1 = revoked_hashes old" "manifest_room (Suc 1) s1" "t_identity s1 = t_identity ?s"
    "t_device s1 = t_device ?s"
    by (rule device_authorize_stores [OF rfc.cbor_codec_axioms cr p(1) room a1(1)]) (simp add: eval_nat_numeral)
  have old: "old = Some b" using b(1) b1(1) by simp
  have d1: "\<not> list_ex (\<lambda>d. od_device_id d = dp_device_id ?p \<and> od_revoked d) (t_identity_devices s1)"
    using device_authorize_effect [OF a1(1)]
    by (auto simp: demo_profile_def list_ex_iff demo_device_def)
  have r1: "client_root s1 = Inr (Some demo_seed)" using p(2) b1(6) by (simp add: client_root_def)
  have "\<exists>m2 s2. device_authorize rfc_cbor ?cr ?p 2000 s1 = (Inr (c2, m2), s2) \<and>
      (\<exists>k'. client_manifest_state s2 = Some k' \<and> length (ms_hash k') = 32)"
    by (rule device_authorize_ok [OF cr ok1 b1(5) r1 b1(2) _ _ a1(2,3) d1])
      (use b b1 old c2 k32 in \<open>simp_all add: marking_issue active_hashes_def revoked_hashes_def\<close>)
  then obtain m2 s2 k2 where a2: "device_authorize rfc_cbor ?cr ?p 2000 s1 = (Inr (c2, m2), s2)"
    "client_manifest_state s2 = Some k2" "length (ms_hash k2) = 32" by blast
  have ok2: "profile_ok ?cr s2"
    using device_authorize_keeps [of ?cr rfc_cbor ?p 2000] ok1 a2(1) by (metis op_keeps_def snd_conv)
  obtain o2 b2 where b2: "latest_manifest_body rfc_cbor ?cr s1 = Inr o2" "latest_manifest_body rfc_cbor ?cr s2 = Inr (Some b2)"
    "dm_active_credential_hashes b2 = active_hashes o2 @ [credential_hash ?cr c2]"
    "dm_revoked_credential_hashes b2 = revoked_hashes o2" "manifest_room (Suc 0) s2" "t_identity s2 = t_identity s1"
    "t_device s2 = t_device s1"
    "map_option od_credential_hash (find (\<lambda>d. od_device_id d = dp_device_id ?p) (t_identity_devices s2)) = Some (credential_hash ?cr c2)"
    by (rule device_authorize_stores [OF rfc.cbor_codec_axioms cr ok1 b1(5) a2(1)]) simp
  have o2: "o2 = Some b1" using b1(2) b2(1) by simp
  have r2: "client_root s2 = Inr (Some demo_seed)" using r1 b2(6) by (simp add: client_root_def)
  have "\<exists>me. device s2 = Inr (Some me) \<and> dk_device_id (sd_keys me) \<noteq> dp_device_id ?p"
    using b2(7) b1(7) by (simp add: device_def demo_profile_def demo_device_def)
  then obtain me where me: "device s2 = Inr (Some me)" "dk_device_id (sd_keys me) \<noteq> dp_device_id ?p" by blast
  have "\<exists>m3 s3. device_revoke rfc_cbor ?cr (dp_device_id ?p) s2 = (Inr (m3, credential_hash ?cr c2), s3)"
    by (rule device_revoke_ok [OF cr b2(5) r2 b2(2) _ _ a2(2,3) me b2(8)])
      (use b b1 b2 old o2 k32 in \<open>simp_all add: active_hashes_def revoked_hashes_def\<close>)
  then obtain m3 s3 where rv: "device_revoke rfc_cbor ?cr (dp_device_id ?p) s2 = (Inr (m3, credential_hash ?cr c2), s3)" by blast
  have "device_revoked [1] s3"
    using device_revoke_stores [OF rfc.cbor_codec_axioms cr ok2 b2(5) rv] device_revoke_marks(1)
    by (metis demo_device_def device_public_keys.select_convs(1))
  moreover have "\<exists>b. latest_manifest_body rfc_cbor ?cr s3 = Inr (Some b) \<and>
      credential_hash ?cr c1 \<in> set (dm_active_credential_hashes b)"
    using reauthorized_device_outlives_revocation [OF rfc.cbor_codec_axioms cr p(1,3) a1(1) a2(1) ne rv b(1)] b(3)
    by (auto simp: revoked_hashes_def)
  ultimately show ?thesis using \<open>c1 \<noteq> c2\<close> by blast
qed

definition demo_meeting :: client where
  "demo_meeting = client_new\<lparr>t_peers := [\<lparr>pr_group_id = [1], pr_device_id = [6], pr_identity = [5],
     pr_credential_hash = replicate 32 2, pr_root_public = ed_public demo_crypto demo_seed, pr_mailbox = None,
     pr_write_cap = None, pr_hpke = None, pr_revoked = False\<rparr>]\<rparr>"

lemma demo_meeting_root: "peer_root demo_crypto [5] demo_meeting = Inr (ed_public demo_crypto demo_seed)"
  by (simp add: peer_root_def demo_meeting_def demo_crypto_def)

lemma peer_manifest_accept_ok:
  assumes "peer_root cr ident s = Inr root" and "accept_manifest cb cr sm root (peer_manifest_state ident s) = Inr (b, st)"
  shows "\<exists>ch s'. peer_manifest_accept cb cr ident sm s =
    (Inr (b, map_option ms_sequence (peer_manifest_state ident s) \<noteq> Some (ms_sequence st), ch), s')"
proof -
  obtain n where n: "\<And>t. peers_mark_revoked (dm_revoked_credential_hashes b) t =
      (Inr (n t), fold mark_hash_revoked (dm_revoked_credential_hashes b) t)"
    using peers_mark_revoked_fold by metis
  show ?thesis
    using assms by (auto simp: peer_manifest_accept_def op_then_def Let_def n)
qed

lemma demo_two_manifests:
  obtains m1 b1 ch1 s1 m2 b2 ch2 s2 where
    "peer_manifest_accept rfc_cbor demo_crypto [5] m1 demo_meeting = (Inr (b1, True, ch1), s1)"
    "dm_active_credential_hashes b1 = [replicate 32 1, replicate 32 2]"
    "peer_manifest_accept rfc_cbor demo_crypto [5] m2 s1 = (Inr (b2, True, ch2), s2)"
    "dm_active_credential_hashes b2 = [replicate 32 1, replicate 32 3, replicate 32 4]"
    "dm_revoked_credential_hashes b2 = [replicate 32 2]" "dm_manifest_sequence b1 = 1"
proof -
  note cr = demo_crypto_ok
  let ?A1 = "[replicate 32 1, replicate 32 2] :: bytes list"
  let ?A2 = "[replicate 32 1, replicate 32 3, replicate 32 4] :: bytes list"
  have none: "peer_manifest_state [5] demo_meeting = None"
    by (simp add: peer_manifest_state_def demo_meeting_def client_new_def)
  obtain m1 where m1: "issue_manifest rfc_cbor demo_crypto demo_seed None ?A1 [] = Inr m1"
    using issue_manifest_ok [OF cr, of ?A1 "[]" None demo_seed] by auto
  obtain b1 st1 where b1: "accept_manifest rfc_cbor demo_crypto m1 (ed_public demo_crypto demo_seed) None = Inr (b1, st1)"
    "dm_active_credential_hashes b1 = ?A1" "ms_sequence st1 = 1" "dm_revoked_credential_hashes b1 = []"
    by (rule issue_accept [OF rfc.cbor_codec_axioms cr m1]) simp_all
  obtain ch1 s1 where e1: "peer_manifest_accept rfc_cbor demo_crypto [5] m1 demo_meeting = (Inr (b1, True, ch1), s1)"
    using peer_manifest_accept_ok [OF demo_meeting_root, of rfc_cbor m1 b1 st1] b1(1) none by auto
  have st1: "peer_manifest_state [5] s1 = Some st1"
    using peer_manifest_accept_correct [OF e1] accept_manifest_cases(4,5) [OF b1(1)] by (cases st1) simp
  have l1: "length (ms_hash st1) = 32"
    using accept_manifest_cases(5) [OF b1(1)] by (simp add: manifest_hash_def)
  obtain m2 where m2: "issue_manifest rfc_cbor demo_crypto demo_seed (Some st1) ?A2 [replicate 32 2] = Inr m2"
    using issue_manifest_ok [OF cr, of ?A2 "[replicate 32 2]" "Some st1" demo_seed] l1 by auto
  obtain b2 st2 where b2: "accept_manifest rfc_cbor demo_crypto m2 (ed_public demo_crypto demo_seed) (Some st1) = Inr (b2, st2)"
    "dm_active_credential_hashes b2 = ?A2" "dm_revoked_credential_hashes b2 = [replicate 32 2]" "ms_sequence st2 = 2"
    by (rule issue_accept [OF rfc.cbor_codec_axioms cr m2]) (use b1(3) in \<open>auto\<close>)
  have "t_peers s1 = t_peers demo_meeting"
    by (rule peer_manifest_accept_effect [OF e1]) (simp add: b1(4))
  then have root1: "peer_root demo_crypto [5] s1 = Inr (ed_public demo_crypto demo_seed)"
    by (auto simp: peer_root_def demo_meeting_def demo_crypto_def)
  obtain ch2 s2 where e2: "peer_manifest_accept rfc_cbor demo_crypto [5] m2 s1 = (Inr (b2, True, ch2), s2)"
    using peer_manifest_accept_ok [OF root1, of rfc_cbor m2 b2 st2] b2(1,4) b1(3) st1 by auto
  show thesis by (rule that [OF e1 b1(2) e2 b2(2,3)]) (use b1(3) accept_manifest_cases(4) [OF b1(1)] in simp)
qed

theorem peer_manifest_accept_correct_witness:
  "\<exists>m1 m2 b s1 s2 ch. peer_manifest_accept rfc_cbor demo_crypto [5] m2 s1 = (Inr (b, True, ch), s2) \<and>
     peer_manifest_state [5] s1 = Some \<lparr>ms_sequence = 1, ms_hash = manifest_hash demo_crypto m1\<rparr> \<and>
     trust_grows s1 s2 \<and> hash_marked (replicate 32 2) s2"
proof -
  obtain m1 b1 ch1 s1 m2 b2 ch2 s2 where
    e: "peer_manifest_accept rfc_cbor demo_crypto [5] m1 demo_meeting = (Inr (b1, True, ch1), s1)"
    "peer_manifest_accept rfc_cbor demo_crypto [5] m2 s1 = (Inr (b2, True, ch2), s2)"
    "dm_revoked_credential_hashes b2 = [replicate 32 2]" "dm_manifest_sequence b1 = 1"
    by (rule demo_two_manifests) (rule that)
  have "peer_manifest_state [5] s1 = Some \<lparr>ms_sequence = 1, ms_hash = manifest_hash demo_crypto m1\<rparr>"
    using peer_manifest_accept_correct [OF e(1)] e(4) by simp
  moreover have "trust_grows s1 s2 \<and> hash_marked (replicate 32 2) s2"
    using peer_manifest_accept_correct [OF e(2)] e(3) by simp
  ultimately show ?thesis using e(2) by blast
qed

theorem device_change_counts_witness:
  "\<exists>m1 m2 b1 b2 ch1 s1 s2. peer_manifest_accept rfc_cbor demo_crypto [5] m1 demo_meeting = (Inr (b1, True, ch1), s1) \<and>
     peer_manifest_accept rfc_cbor demo_crypto [5] m2 s1 = (Inr (b2, True, \<lparr>ch_added = 2, ch_removed = 1\<rparr>), s2)"
proof -
  obtain m1 b1 ch1 s1 m2 b2 ch2 s2 where
    e: "peer_manifest_accept rfc_cbor demo_crypto [5] m1 demo_meeting = (Inr (b1, True, ch1), s1)"
    "peer_manifest_accept rfc_cbor demo_crypto [5] m2 s1 = (Inr (b2, True, ch2), s2)"
    and b: "dm_active_credential_hashes b1 = [replicate 32 1, replicate 32 2]"
    "dm_active_credential_hashes b2 = [replicate 32 1, replicate 32 3, replicate 32 4]"
    by (rule demo_two_manifests) (rule that)
  have "cbor_size (VArray (map VBytes (dm_active_credential_hashes b1))) < 2 ^ 64"
    by (simp add: b head_size_def)
  from device_change_counts [OF rfc.cbor_codec_axioms e this]
  have "ch2 = \<lparr>ch_added = 2, ch_removed = 1\<rparr>"
    by (simp add: b insert_Diff_if replicate_eq_replicate)
  with e show ?thesis by blast
qed

definition demo_newcomer :: client where
  "demo_newcomer = client_new\<lparr>t_device := [\<lparr>dr_device_id = replicate 16 1, dr_noise_private = [], dr_noise_public = [3],
     dr_hpke_private = [], dr_hpke_public = [4], dr_mls_signing_secret = [], dr_mls_signing_public = [2],
     dr_credential = [], dr_credential_hash = []\<rparr>]\<rparr>"

theorem link_complete_once_witness:
  "\<exists>c m s' i. device_link_complete rfc_cbor demo_crypto c m (ed_public demo_crypto demo_seed) 1000 demo_newcomer = (Inr i, s') \<and>
     client_identity_id s' = Some i \<and>
     device_link_complete_idempotent rfc_cbor demo_crypto c m (ed_public demo_crypto demo_seed) 1000 s' = (Inr i, s')"
proof -
  note cr = demo_crypto_ok
  let ?root = "ed_public demo_crypto demo_seed"
  let ?d = "\<lparr>dp_device_id = replicate 16 1, dp_mls_signature_public_key = [2],
     dp_transport_noise_public_key = [3], dp_envelope_hpke_public_key = [4]\<rparr>"
  obtain c where c: "issue_credential rfc_cbor demo_crypto demo_seed ?d (default_validity 1000) all_uses = Inr c"
    using issue_credential_ok [OF cr, of ?d demo_seed] by fastforce
  obtain v where v: "verify_credential rfc_cbor demo_crypto c (Some ?root) 1000 = Inr v"
    "vc_credential v = credential_for demo_crypto demo_seed ?d (default_validity 1000) all_uses"
    "vc_hash v = credential_hash demo_crypto c"
    using issue_verify [OF rfc.cbor_codec_axioms cr c, of "Some ?root" 1000]
    by (simp add: default_validity_def DEFAULT_VALIDITY_SECS_def)
  obtain m where m: "issue_manifest rfc_cbor demo_crypto demo_seed None [credential_hash demo_crypto c] [] = Inr m"
    using issue_manifest_ok [OF cr, of "[credential_hash demo_crypto c]" "[]" None demo_seed]
    by (auto simp: credential_hash_def)
  obtain b st where b: "accept_manifest rfc_cbor demo_crypto m ?root None = Inr (b, st)"
    "dm_active_credential_hashes b = [credential_hash demo_crypto c]"
    by (rule issue_accept [OF rfc.cbor_codec_axioms cr m]) simp_all
  have "\<exists>i s'. device_link_complete rfc_cbor demo_crypto c m ?root 1000 demo_newcomer = (Inr i, s')"
    using v b cr
    by (simp add: device_link_complete_def op_then_def device_def demo_newcomer_def client_new_def ok_or_def
        client_identity_id_def names_device_def device_keys_public_def credential_for_def transactionally_def
        insert_identity_def insert_manifest_def insert_own_device_def crypto_ok_def)
  then obtain i s' where e: "device_link_complete rfc_cbor demo_crypto c m ?root 1000 demo_newcomer = (Inr i, s')" by blast
  have "profile_ok demo_crypto demo_newcomer"
    by (simp add: profile_ok_def demo_newcomer_def client_new_def)
  from link_complete_once [OF this e] e show ?thesis by blast
qed

end
