(* ===== verification/Mls.thy ===== *)
theory Mls
  imports Client_Devices
begin

text \<open>
  The group policy (\<open>core/crates/arveil-core/src/mls/policy.rs\<close>) and the storage providers given to
  \<open>mls-rs\<close> (\<open>mls/store.rs\<close>). The MLS library itself is not modelled: what the policy reads of a roster, a
  group context and a bundle of proposals is a record or an argument, the rules it wraps and the codec of
  a key package are parameters.

  Shown: a commit passes exactly when every leaf below the committer is known to be revoked and is
  removed by that commit; of two leaves that are not revoked at most one can commit; what passed keeps
  passing as revocations are learned; the store gives back what was last written for a group, an epoch and a key package.
\<close>

section \<open>Policy\<close>

record group_policy =
  gp_version :: u8
  gp_creator_leaf :: u32

definition POLICY_VERSION :: u8 where "POLICY_VERSION = 2"

definition lowest_active_leaf :: "u32 \<Rightarrow> group_policy" where
  "lowest_active_leaf creator = \<lparr>gp_version = POLICY_VERSION, gp_creator_leaf = creator\<rparr>"

datatype commit_direction = SendCommit | ReceiveCommit

record member =
  mem_index :: u32
  mem_identifier :: "bytes option"

datatype commit_source = ExistingMember member | NewMember

datatype policy_error =
    MissingPolicy
  | UnsupportedPolicyVersion u8
  | UnauthorizedCommitter u32 u32 commit_direction
  | RevokedLeafNotRemoved u32 u32 commit_direction
  | ExternalCommit
  | PolicyExtension string

text \<open>\<open>extensions.get_as\<close>: the extension cannot be read, is absent, or holds a policy.\<close>

type_synonym group_context = "string + group_policy option"

definition policy_of :: "group_context \<Rightarrow> policy_error + group_policy" where
  "policy_of ctx =
     and_then (map_err PolicyExtension ctx) (\<lambda>p.
     and_then (ok_or p MissingPolicy) (\<lambda>p.
     if gp_version p \<noteq> POLICY_VERSION then Inl (UnsupportedPolicyVersion (gp_version p)) else Inr p))"

text \<open>The counts over \<open>peers\<close> and \<open>identity_devices\<close>, or no for rules without a store.\<close>

definition policy_revoked :: "client option \<Rightarrow> bytes \<Rightarrow> bool" where
  "policy_revoked conn dev \<longleftrightarrow>
     (case conn of
        None \<Rightarrow> False
      | Some s \<Rightarrow>
          count_rows (\<lambda>p. pr_device_id p = dev \<and> pr_revoked p) (t_peers s) +
          count_rows (\<lambda>d. od_device_id d = dev \<and> od_revoked d) (t_identity_devices s) > 0)"

definition device_of :: "member \<Rightarrow> bytes" where
  "device_of m = (case mem_identifier m of Some i \<Rightarrow> i | None \<Rightarrow> [])"

fun check_lower_leaves ::
  "client option \<Rightarrow> commit_direction \<Rightarrow> u32 \<Rightarrow> u32 list \<Rightarrow> member list \<Rightarrow> policy_error + unit" where
  "check_lower_leaves conn dir committer removed [] = Inr ()"
| "check_lower_leaves conn dir committer removed (m # ms) =
     (if \<not> policy_revoked conn (device_of m) then Inl (UnauthorizedCommitter committer (mem_index m) dir)
      else if mem_index m \<notin> set removed then Inl (RevokedLeafNotRemoved committer (mem_index m) dir)
      else check_lower_leaves conn dir committer removed ms)"

text \<open>\<open>removes\<close> reads the leaves that the remove proposals of a bundle name, \<open>inner\<close> is the filter of the
  default rules, which cannot fail.\<close>

definition filter_proposals ::
  "('p \<Rightarrow> u32 list) \<Rightarrow> ('p \<Rightarrow> 'p) \<Rightarrow> client option \<Rightarrow> commit_direction \<Rightarrow> commit_source \<Rightarrow> member list \<Rightarrow> group_context \<Rightarrow> 'p \<Rightarrow>
     policy_error + 'p" where
  "filter_proposals removes inner conn dir source roster ctx proposals =
     and_then (policy_of ctx) (\<lambda>_.
     and_then (case source of ExistingMember m \<Rightarrow> Inr (mem_index m) | NewMember \<Rightarrow> Inl ExternalCommit) (\<lambda>committer.
     and_then (check_lower_leaves conn dir committer (removes proposals)
       (filter (\<lambda>m. mem_index m < committer) roster)) (\<lambda>_.
     Inr (inner proposals))))"

lemma policy_revoked_client: "policy_revoked (Some s) dev = device_revoked dev s"
  by (simp add: policy_revoked_def device_revoked_def)

lemma check_lower_leaves_ok:
  "check_lower_leaves conn dir c rs ms = Inr () \<longleftrightarrow> (\<forall>m \<in> set ms. policy_revoked conn (device_of m) \<and> mem_index m \<in> set rs)"
  by (induction ms) auto

lemma filter_proposals_ok:
  "filter_proposals removes inner conn dir source roster ctx ps = Inr qs \<longleftrightarrow>
     (\<exists>p m. ctx = Inr (Some p) \<and> gp_version p = POLICY_VERSION \<and> source = ExistingMember m \<and> qs = inner ps \<and>
       (\<forall>x \<in> set roster. mem_index x < mem_index m \<longrightarrow>
          policy_revoked conn (device_of x) \<and> mem_index x \<in> set (removes ps)))"
  by (auto simp: filter_proposals_def policy_of_def result_simps check_lower_leaves_ok split: if_splits commit_source.splits)

text \<open>C21. Who may commit. A commit passes the policy exactly when the group carries the policy of this
  version, the committer is a member, and every leaf below the committer is known to be revoked and is
  removed by this very commit. Of two members that are not known to be revoked at most one can commit. And what passes
  now passes in every later state of the profile that undid no trust decision: learning more revocations
  never blocks a commit.\<close>

theorem policy_lowest_active_leaf:
  shows "(filter_proposals removes inner (Some s) dir source roster ctx ps = Inr qs \<longleftrightarrow>
      (\<exists>p m. ctx = Inr (Some p) \<and> gp_version p = POLICY_VERSION \<and> source = ExistingMember m \<and> qs = inner ps \<and>
        (\<forall>x \<in> set roster. mem_index x < mem_index m \<longrightarrow> device_revoked (device_of x) s \<and> mem_index x \<in> set (removes ps)))) \<and>
    (a \<in> set roster \<and> b \<in> set roster \<and> \<not> device_revoked (device_of a) s \<and> \<not> device_revoked (device_of b) s \<and>
      filter_proposals removes inner (Some s) dir (ExistingMember a) roster ctx pa = Inr qa \<and>
      filter_proposals removes inner (Some s) dir (ExistingMember b) roster ctx pb = Inr qb \<longrightarrow> mem_index a = mem_index b) \<and>
    (filter_proposals removes inner (Some s) dir source roster ctx ps = Inr qs \<and> trust_grows s s' \<longrightarrow>
      filter_proposals removes inner (Some s') dir source roster ctx ps = Inr qs)"
proof (intro conjI impI)
  show "filter_proposals removes inner (Some s) dir source roster ctx ps = Inr qs \<longleftrightarrow>
      (\<exists>p m. ctx = Inr (Some p) \<and> gp_version p = POLICY_VERSION \<and> source = ExistingMember m \<and> qs = inner ps \<and>
        (\<forall>x \<in> set roster. mem_index x < mem_index m \<longrightarrow> device_revoked (device_of x) s \<and> mem_index x \<in> set (removes ps)))"
    by (simp add: filter_proposals_ok policy_revoked_client)
  show "mem_index a = mem_index b" if "a \<in> set roster \<and> b \<in> set roster \<and> \<not> device_revoked (device_of a) s \<and> \<not> device_revoked (device_of b) s \<and>
      filter_proposals removes inner (Some s) dir (ExistingMember a) roster ctx pa = Inr qa \<and>
      filter_proposals removes inner (Some s) dir (ExistingMember b) roster ctx pb = Inr qb"
  proof (rule ccontr)
    assume "mem_index a \<noteq> mem_index b"
    then have "mem_index a < mem_index b \<or> mem_index b < mem_index a" by (simp add: neq_iff)
    then show False using that unfolding filter_proposals_ok policy_revoked_client by blast
  qed
  show "filter_proposals removes inner (Some s') dir source roster ctx ps = Inr qs"
    if "filter_proposals removes inner (Some s) dir source roster ctx ps = Inr qs \<and> trust_grows s s'"
    using that by (auto simp: filter_proposals_ok policy_revoked_client trust_grows_def)
qed

text \<open>C22. A revoked device that holds the lowest leaf can still commit. The policy looks only at the
  leaves below the committer, never at the committer itself: with no leaf below it, a member that everybody knows to be
  revoked passes with any proposals, at the same time as its successor, although the authorized
  committer is documented to be the lowest leaf that is not known to be revoked.\<close>

theorem revoked_lowest_leaf_commits:
  assumes "\<forall>x \<in> set roster. mem_index m \<le> mem_index x" and "device_revoked (device_of m) s"
    and "next \<in> set roster" and "\<forall>x \<in> set roster. x = m \<or> mem_index next \<le> mem_index x"
    and "mem_index m \<in> set (removes removal)"
  shows "filter_proposals removes inner (Some s) dir (ExistingMember m) roster (Inr (Some (lowest_active_leaf c))) ps = Inr (inner ps) \<and>
    filter_proposals removes inner (Some s) dir (ExistingMember next) roster (Inr (Some (lowest_active_leaf c))) removal = Inr (inner removal)"
  using assms by (auto simp: filter_proposals_ok policy_revoked_client lowest_active_leaf_def not_less)

text \<open>C25. Anyone's manifest can revoke anyone's device. Whoever holds the root key of one contact can issue a manifest that lists the
  credential of a device of somebody else as revoked; it is accepted as the contact's next manifest, the foreign device counts as
  revoked in every conversation, and the policy then lets the next leaf displace it. The comment on the policy and the protocol
  say that a leaf counts as revoked only by a manifest signed by the root of its own identity. (The contact's
  sequence number must not be at its end.)\<close>

theorem foreign_manifest_revokes:
  assumes "cbor_codec cb" and "crypto_ok cr" and "peer_root cr sender s = Inr (ed_public cr seed)"
    and "\<forall>k. peer_manifest_state sender s = Some k \<longrightarrow> ms_sequence k \<noteq> - 1"
    and "issue_manifest cb cr seed (peer_manifest_state sender s) active [pr_credential_hash p] = Inr sm"
    and "p \<in> set (t_peers s)" and "pr_identity p \<noteq> sender"
  shows "\<exists>body change s'. peer_manifest_accept cb cr sender sm s = (Inr (body, True, change), s') \<and>
    device_revoked (pr_device_id p) s' \<and>
    (\<forall>removes inner dir m roster c ps.
      (\<forall>x\<in>set roster. mem_index x < mem_index m \<longrightarrow> device_of x = pr_device_id p \<and> mem_index x \<in> set (removes ps)) \<longrightarrow>
      filter_proposals removes inner (Some s') dir (ExistingMember m) roster (Inr (Some (lowest_active_leaf c))) ps = Inr (inner ps))"
proof -
  obtain body st where body: "accept_manifest cb cr sm (ed_public cr seed) (peer_manifest_state sender s) = Inr (body, st)"
    "dm_revoked_credential_hashes body = [pr_credential_hash p]"
    "ms_sequence st = (case peer_manifest_state sender s of None \<Rightarrow> 1 | Some k \<Rightarrow> ms_sequence k + 1)"
    by (rule issue_accept [OF assms(1,2,5)]) (use assms(4) in auto)
  have "map_option ms_sequence (peer_manifest_state sender s) \<noteq> Some (ms_sequence st)"
    using body(3) by (cases "peer_manifest_state sender s") simp_all
  then obtain change s' where accepted: "peer_manifest_accept cb cr sender sm s = (Inr (body, True, change), s')"
    using peer_manifest_accept_ok [OF assms(3) body(1)] by auto
  then obtain t where s': "s' = fold mark_hash_revoked [pr_credential_hash p] t" and t: "t_peers t = t_peers s"
    by (rule peer_manifest_accept_effect) (use body(2) in \<open>auto split: if_splits\<close>)
  have "\<exists>q\<in>set (t_peers s'). pr_device_id q = pr_device_id p \<and> pr_credential_hash q = pr_credential_hash p"
  proof -
    have "t_peers s' = update_rows (\<lambda>q. pr_credential_hash q = pr_credential_hash p \<and> \<not> pr_revoked q) (\<lambda>q. q\<lparr>pr_revoked := True\<rparr>) (t_peers s)"
      by (simp add: s' t mark_hash_revoked_def)
    then show ?thesis
      using assms(6) by (simp only: set_update_rows bex_simps) (auto intro!: bexI [of _ p])
  qed
  moreover have "hash_marked (pr_credential_hash p) s'"
    unfolding s' by (rule fold_mark_marks) simp
  ultimately have "\<exists>q\<in>set (t_peers s'). pr_device_id q = pr_device_id p \<and> pr_revoked q"
    unfolding hash_marked_def by blast
  then have revoked: "device_revoked (pr_device_id p) s'"
    by (auto simp: device_revoked_def count_rows_def filter_empty_conv)
  then show ?thesis
    using accepted by (auto simp: filter_proposals_ok policy_revoked_client lowest_active_leaf_def)
qed

section \<open>The storage interface of the MLS library\<close>

text \<open>What \<open>mls-rs\<close> relies on of a group state storage: after a write the state is the one written, every epoch
  record is the last one written for it, and nothing of another group changes.\<close>

locale group_storage =
  fixes put :: "bytes \<Rightarrow> bytes \<Rightarrow> (u64 \<times> bytes) list \<Rightarrow> (u64 \<times> bytes) list \<Rightarrow> 's \<Rightarrow> 's"
    and read_state :: "bytes \<Rightarrow> 's \<Rightarrow> bytes option"
    and read_epoch :: "bytes \<Rightarrow> u64 \<Rightarrow> 's \<Rightarrow> bytes option"
  assumes state_write: "read_state g (put h data ins upd s) = (if g = h then Some data else read_state g s)"
    and epoch_write: "read_epoch g e (put h data ins upd s) =
      (if g = h then (case map_of (rev (ins @ upd)) e of Some d \<Rightarrow> Some d | None \<Rightarrow> read_epoch g e s) else read_epoch g e s)"
begin

text \<open>A sequence of writes, as the library issues them.\<close>

fun writes :: "(bytes \<times> bytes \<times> (u64 \<times> bytes) list \<times> (u64 \<times> bytes) list) list \<Rightarrow> 's \<Rightarrow> 's" where
  "writes [] s = s"
| "writes ((g, data, ins, upd) # ws) s = writes ws (put g data ins upd s)"

lemma state_writes:
  "read_state g (writes ws s) = (case map_of (rev (map (\<lambda>(g, data, _). (g, data)) ws)) g of Some d \<Rightarrow> Some d | None \<Rightarrow> read_state g s)"
  by (induction ws arbitrary: s) (auto simp: state_write map_add_def split: option.splits prod.splits)

lemma epoch_writes:
  "read_epoch g e (writes ws s) =
     (case map_of (rev (concat (map (\<lambda>(h, _, ins, upd). map (\<lambda>(i, d). ((h, i), d)) (ins @ upd)) ws))) (g, e) of
        Some d \<Rightarrow> Some d | None \<Rightarrow> read_epoch g e s)"
proof (induction ws arbitrary: s)
  case (Cons w ws)
  obtain h data ins upd where w: "w = (h, data, ins, upd)" by (cases w)
  have key: "map_of (map (\<lambda>(i, d). ((h, i), d)) xs) (g, e) = (if h = g then map_of xs e else None)" for xs :: "(u64 \<times> bytes) list"
    by (induction xs) auto
  have "read_epoch g e (writes (w # ws) s) = read_epoch g e (writes ws (put h data ins upd s))" by (simp add: w)
  also have "\<dots> = (case map_of (rev (concat (map (\<lambda>(h, _, ins, upd). map (\<lambda>(i, d). ((h, i), d)) (ins @ upd)) ws))) (g, e) of
      Some d \<Rightarrow> Some d | None \<Rightarrow> (case map_of (map (\<lambda>(i, d). ((h, i), d)) (rev (ins @ upd))) (g, e) of
        Some d \<Rightarrow> Some d | None \<Rightarrow> read_epoch g e s))"
    unfolding Cons.IH epoch_write key by (simp split: option.split)
  finally show ?case by (simp add: w map_add_def rev_map [symmetric] split: option.split)
qed simp

end

section \<open>The SQLite providers\<close>

record epoch_row =
  ep_group_id :: bytes
  ep_epoch_id :: int
  ep_data :: bytes

record mls_store =
  mls_group_state :: "bytes \<rightharpoonup> bytes"
  mls_epoch :: "epoch_row list"
  mls_key_package :: "bytes \<rightharpoonup> bytes \<times> int"
  mls_psk :: "bytes \<rightharpoonup> bytes"

datatype store_error = StSqlite sql_error | StCodec

definition store_state :: "bytes \<Rightarrow> mls_store \<Rightarrow> bytes option" where
  "store_state g s = mls_group_state s g"

definition store_epoch :: "bytes \<Rightarrow> u64 \<Rightarrow> mls_store \<Rightarrow> bytes option" where
  "store_epoch g e s =
     map_option ep_data (find (\<lambda>r. ep_group_id r = g \<and> ep_epoch_id r = as_i64 e) (mls_epoch s))"

definition save_epoch :: "bytes \<Rightarrow> u64 \<times> bytes \<Rightarrow> mls_store \<Rightarrow> mls_store" where
  "save_epoch g = (\<lambda>(e, d) s. s\<lparr>mls_epoch := upsert_row (\<lambda>r. ep_group_id r = g \<and> ep_epoch_id r = as_i64 e)
     (\<lambda>r. r\<lparr>ep_data := d\<rparr>) \<lparr>ep_group_id = g, ep_epoch_id = as_i64 e, ep_data = d\<rparr> (mls_epoch s)\<rparr>)"

definition store_write :: "bytes \<Rightarrow> bytes \<Rightarrow> (u64 \<times> bytes) list \<Rightarrow> (u64 \<times> bytes) list \<Rightarrow> mls_store \<Rightarrow> mls_store" where
  "store_write g data ins upd s =
     fold (save_epoch g) (ins @ upd) (s\<lparr>mls_group_state := (mls_group_state s)(g \<mapsto> data)\<rparr>)"

text \<open>\<open>SELECT MAX(epoch_id)\<close> over the stored signed integers.\<close>

definition max_epoch_id :: "bytes \<Rightarrow> mls_store \<Rightarrow> u64 option" where
  "max_epoch_id g s =
     (case map ep_epoch_id (filter (\<lambda>r. ep_group_id r = g) (mls_epoch s)) of
        [] \<Rightarrow> None
      | e # es \<Rightarrow> Some (as_u64 (fold max es e)))"

definition key_package_delete :: "bytes \<Rightarrow> mls_store \<Rightarrow> mls_store" where
  "key_package_delete i s = s\<lparr>mls_key_package := (mls_key_package s)(i := None)\<rparr>"

text \<open>\<open>enc\<close> and \<open>dec\<close> are \<open>mls_encode_to_vec\<close> and \<open>mls_decode\<close> of \<open>KeyPackageData\<close>, \<open>expiration\<close> its field.\<close>

definition key_package_insert ::
  "('k \<Rightarrow> bytes option) \<Rightarrow> ('k \<Rightarrow> u64) \<Rightarrow> bytes \<Rightarrow> 'k \<Rightarrow> (mls_store, store_error, unit) op" where
  "key_package_insert enc expiration i pkg s =
     (case enc pkg of
        None \<Rightarrow> (Inl StCodec, s)
      | Some data \<Rightarrow> (Inr (), s\<lparr>mls_key_package := (mls_key_package s)(i \<mapsto> (data, as_i64 (expiration pkg)))\<rparr>))"

definition key_package_get :: "(bytes \<Rightarrow> 'k option) \<Rightarrow> bytes \<Rightarrow> mls_store \<Rightarrow> store_error + 'k option" where
  "key_package_get dec i s =
     (case mls_key_package s i of
        None \<Rightarrow> Inr None
      | Some (data, _) \<Rightarrow> map_sum id Some (ok_or (dec data) StCodec))"

definition psk_get :: "bytes \<Rightarrow> mls_store \<Rightarrow> bytes option" where
  "psk_get i s = mls_psk s i"

lemma find_upsert:
  fixes rows :: "epoch_row list"
  shows "map_option ep_data (find (\<lambda>r. ep_group_id r = h \<and> ep_epoch_id r = i)
      (upsert_row (\<lambda>r. ep_group_id r = g \<and> ep_epoch_id r = j) (\<lambda>r. r\<lparr>ep_data := d\<rparr>)
        \<lparr>ep_group_id = g, ep_epoch_id = j, ep_data = d\<rparr> rows)) =
    (if h = g \<and> i = j then Some d else map_option ep_data (find (\<lambda>r. ep_group_id r = h \<and> ep_epoch_id r = i) rows))"
proof -
  let ?P = "\<lambda>g j r. ep_group_id r = g \<and> ep_epoch_id r = j"
  have same: "find (?P g j) (update_rows (?P g j) (\<lambda>r. r\<lparr>ep_data := d\<rparr>) rows) =
      map_option (\<lambda>r. r\<lparr>ep_data := d\<rparr>) (find (?P g j) rows)" for rows :: "epoch_row list"
    by (induction rows) auto
  have other: "find (?P h i) (update_rows (?P g j) (\<lambda>r. r\<lparr>ep_data := d\<rparr>) rows) = find (?P h i) rows"
    if "\<not> (h = g \<and> i = j)" for rows :: "epoch_row list"
    using that by (induction rows) auto
  have app: "find P (rows @ [x]) = (case find P rows of Some y \<Rightarrow> Some y | None \<Rightarrow> if P x then Some x else None)"
    for P and x :: epoch_row and rows
    by (induction rows) auto
  have ex: "list_ex (?P g j) rows \<longleftrightarrow> find (?P g j) rows \<noteq> None" by (auto simp: list_ex_iff find_None_iff)
  show ?thesis
  proof (cases "h = g \<and> i = j")
    case True
    then show ?thesis by (cases "find (?P g j) rows") (simp_all add: upsert_row_def ex same app)
  next
    case False
    show ?thesis
      unfolding upsert_row_def app if_distrib [of "find (?P h i)"] if_distrib [of "map_option ep_data"] other [OF False]
      using False by (auto split: option.split)
  qed
qed

lemma store_epoch_save:
  "store_epoch h e (save_epoch g x s) = (if h = g \<and> e = fst x then Some (snd x) else store_epoch h e s)"
  unfolding store_epoch_def save_epoch_def
  by (cases x) (simp add: find_upsert [of h "as_i64 e" g])

lemma store_epoch_saves:
  "store_epoch h e (fold (save_epoch g) xs s) =
     (if h = g then (case map_of (rev xs) e of Some d \<Rightarrow> Some d | None \<Rightarrow> store_epoch h e s) else store_epoch h e s)"
  by (induction xs arbitrary: s) (auto simp: store_epoch_save map_add_def split: option.splits)

lemma save_epochs_frame:
  "mls_group_state (fold (save_epoch g) xs s) = mls_group_state s"
  by (induction xs arbitrary: s) (auto simp: save_epoch_def split: prod.splits)

interpretation sqlite_groups: group_storage store_write store_state store_epoch
proof
  show "store_state g (store_write h data ins upd s) = (if g = h then Some data else store_state g s)" for g h data ins upd s
    by (simp add: store_state_def store_write_def save_epochs_frame)
  show "store_epoch g e (store_write h data ins upd s) =
      (if g = h then (case map_of (rev (ins @ upd)) e of Some d \<Rightarrow> Some d | None \<Rightarrow> store_epoch g e s) else store_epoch g e s)"
    for g e h data ins upd s
    unfolding store_write_def store_epoch_saves by (auto simp: store_epoch_def map_add_def split: option.split)
qed

text \<open>The storage given to the MLS library. After any sequence of writes of group states and epoch
  records, inserts and updates mixed, over any groups, a group's state is the last one written for it
  and an epoch record the last one written for that epoch; a key package is read back as it was stored until it is deleted.\<close>

theorem mls_store_last_write:
  assumes "\<And>k b. enc k = Some b \<Longrightarrow> dec b = Some k"
    and "key_package_insert enc expiration i pkg s = (Inr (), s1)"
  shows "store_state g (sqlite_groups.writes ws s) =
      (case map_of (rev (map (\<lambda>(g, data, _). (g, data)) ws)) g of Some d \<Rightarrow> Some d | None \<Rightarrow> store_state g s) \<and>
    store_epoch g e (sqlite_groups.writes ws s) =
      (case map_of (rev (concat (map (\<lambda>(h, _, ins, upd). map (\<lambda>(i, d). ((h, i), d)) (ins @ upd)) ws))) (g, e) of
         Some d \<Rightarrow> Some d | None \<Rightarrow> store_epoch g e s) \<and>
    key_package_get dec i s1 = Inr (Some pkg) \<and>
    key_package_get dec i (key_package_delete i s1) = Inr None \<and>
    (j \<noteq> i \<longrightarrow> key_package_get dec j (key_package_delete i s1) = key_package_get dec j s)"
proof -
  obtain b where "enc pkg = Some b" and s1: "s1 = s\<lparr>mls_key_package := (mls_key_package s)(i \<mapsto> (b, as_i64 (expiration pkg)))\<rparr>"
    using assms(2) by (auto simp: key_package_insert_def split: option.splits)
  then show ?thesis
    using sqlite_groups.state_writes [of g ws s] sqlite_groups.epoch_writes [of g e ws s] assms(1)
    by (simp add: key_package_get_def key_package_delete_def)
qed

section \<open>Witnesses\<close>

definition demo_member :: "u32 \<Rightarrow> bytes \<Rightarrow> member" where
  "demo_member i d = \<lparr>mem_index = i, mem_identifier = Some d\<rparr>"

definition demo_revoked :: client where
  "demo_revoked = client_new\<lparr>t_identity_devices := [\<lparr>od_device_id = [1], od_credential_hash = [], od_revoked = True\<rparr>]\<rparr>"

theorem policy_lowest_active_leaf_witness:
  "filter_proposals id id (Some demo_revoked) SendCommit (ExistingMember (demo_member 1 [2])) [demo_member 0 [1], demo_member 1 [2]]
     (Inr (Some (lowest_active_leaf 0))) [0] = Inr [0] \<and>
   filter_proposals id id (Some demo_revoked) SendCommit (ExistingMember (demo_member 1 [2])) [demo_member 0 [1], demo_member 1 [2]]
     (Inr (Some (lowest_active_leaf 0))) [] \<noteq> Inr []"
proof -
  note rule = policy_lowest_active_leaf [THEN conjunct1, of id id demo_revoked SendCommit "ExistingMember (demo_member 1 [2])"
      "[demo_member 0 [1], demo_member 1 [2]]" "Inr (Some (lowest_active_leaf 0))"]
  show ?thesis
    unfolding rule
    by (simp add: demo_member_def device_of_def demo_revoked_def device_revoked_def count_rows_def client_new_def
        lowest_active_leaf_def)
qed

theorem revoked_lowest_leaf_commits_witness:
  "filter_proposals id id (Some demo_revoked) ReceiveCommit (ExistingMember (demo_member 0 [1])) [demo_member 0 [1], demo_member 1 [2]]
     (Inr (Some (lowest_active_leaf 0))) [5] = Inr [5] \<and> device_revoked [1] demo_revoked"
  using revoked_lowest_leaf_commits [of "[demo_member 0 [1], demo_member 1 [2]]" "demo_member 0 [1]" demo_revoked
      "demo_member 1 [2]" id "[0]" id ReceiveCommit 0 "[5]"]
  by (simp add: demo_member_def device_of_def demo_revoked_def device_revoked_def count_rows_def client_new_def)

theorem mls_store_last_write_witness:
  "\<exists>s1. key_package_insert Some (\<lambda>_. 9) [1] [2] \<lparr>mls_group_state = Map.empty, mls_epoch = [], mls_key_package = Map.empty, mls_psk = Map.empty\<rparr>
       = (Inr (), s1) \<and> key_package_get Some [1] s1 = Inr (Some [2 :: u8])"
proof -
  let ?s = "\<lparr>mls_group_state = Map.empty, mls_epoch = [], mls_key_package = Map.empty, mls_psk = Map.empty\<rparr>"
  obtain s1 where e: "key_package_insert Some (\<lambda>_. 9) [1] [2 :: u8] ?s = (Inr (), s1)"
    by (simp add: key_package_insert_def)
  from mls_store_last_write [OF _ e, of Some "[]" "[]" 0 "[]"] e show ?thesis by auto
qed

definition demo_two_contacts :: client where
  "demo_two_contacts = demo_meeting\<lparr>t_peers := t_peers demo_meeting @ [\<lparr>pr_group_id = [1], pr_device_id = [8], pr_identity = [7],
     pr_credential_hash = replicate 32 3, pr_root_public = ed_public demo_crypto (replicate 32 1), pr_mailbox = None,
     pr_write_cap = None, pr_hpke = None, pr_revoked = False\<rparr>]\<rparr>"

theorem foreign_manifest_revokes_witness:
  "\<exists>sm body change s'. peer_manifest_accept rfc_cbor demo_crypto [5] sm demo_two_contacts = (Inr (body, True, change), s') \<and>
     \<not> device_revoked [8] demo_two_contacts \<and> device_revoked [8] s'"
proof -
  let ?p = "last (t_peers demo_two_contacts)"
  have none: "peer_manifest_state [5] demo_two_contacts = None"
    by (simp add: peer_manifest_state_def demo_two_contacts_def demo_meeting_def client_new_def)
  obtain sm where sm: "issue_manifest rfc_cbor demo_crypto demo_seed (peer_manifest_state [5] demo_two_contacts) [] [pr_credential_hash ?p] = Inr sm"
    using issue_manifest_ok [OF demo_crypto_ok, of "[]" "[pr_credential_hash ?p]" None demo_seed]
    unfolding none by (auto simp: demo_two_contacts_def)
  have root: "peer_root demo_crypto [5] demo_two_contacts = Inr (ed_public demo_crypto demo_seed)"
    using demo_meeting_root by (simp add: peer_root_def demo_two_contacts_def demo_meeting_def)
  have p: "?p \<in> set (t_peers demo_two_contacts)" "pr_identity ?p \<noteq> [5]" "pr_device_id ?p = [8]"
    by (simp_all add: demo_two_contacts_def)
  obtain body change s' where "peer_manifest_accept rfc_cbor demo_crypto [5] sm demo_two_contacts = (Inr (body, True, change), s')"
    "device_revoked [8] s'"
    using foreign_manifest_revokes [OF rfc.cbor_codec_axioms demo_crypto_ok root _ sm p(1,2)] none p(3) by auto
  moreover have "\<not> device_revoked [8] demo_two_contacts"
    by (simp add: device_revoked_def count_rows_def demo_two_contacts_def demo_meeting_def client_new_def)
  ultimately show ?thesis
    by blast
qed
end
