(* ===== verification/Client_Contacts.thy ===== *)
theory Client_Contacts
  imports Client_Devices
begin

text \<open>
  Contacts, conversations and contact cards: the part of \<open>core/crates/arveil-core/src/client.rs\<close> that
  keeps whom this person has met and verified and the roster of every conversation, and
  \<open>card_store.rs\<close>, the cards this device showed or shared and the conversations that wait for an answer.

  Shown: the safety number does not depend on who computes it; a verified contact keeps its root key
  through every operation; an in-person card works at most once and never after its expiry or
  revocation; a roster never loses a route or a revocation.
\<close>

section \<open>Safety number\<close>

definition five_digits :: "bytes \<Rightarrow> string" where
  "five_digits c =
     (case c of [a, b, d, e] \<Rightarrow> zero_pad 5 (decimal (unat (u32_from_be_bytes a b d e) mod 100000)) | _ \<Rightarrow> [])"

definition safety_number :: "crypto \<Rightarrow> bytes \<Rightarrow> bytes \<Rightarrow> string" where
  "safety_number cr a_root b_root =
     (let (first, second) = (if a_root \<le> b_root then (a_root, b_root) else (b_root, a_root));
          d = sha256 cr (bytes_of_string ''arveil/safety-number/v1'' @ first @ second)
      in join_with '' '' (map five_digits (chunks 4 d)))"

definition is_ascii_digit :: "char \<Rightarrow> bool" where
  "is_ascii_digit c \<longleftrightarrow> 48 \<le> char_code c \<and> char_code c \<le> 57"

definition normalize_number :: "string \<Rightarrow> string" where
  "normalize_number s = filter is_ascii_digit s"

section \<open>Contacts\<close>

datatype verified_how = Comparison | HowInPerson

definition verified_how_str :: "verified_how \<Rightarrow> string" where
  "verified_how_str h = (case h of Comparison \<Rightarrow> ''comparison'' | HowInPerson \<Rightarrow> ''in-person'')"

definition verified_how_parse :: "string \<Rightarrow> verified_how option" where
  "verified_how_parse s =
     (if s = ''comparison'' then Some Comparison else if s = ''in-person'' then Some HowInPerson else None)"

record contact =
  co_identity_id :: bytes
  co_root_public :: bytes
  co_verified :: bool
  co_name :: "string option"
  co_accepted :: bool
  co_verified_how :: "verified_how option"

definition contact_label :: "contact \<Rightarrow> string" where
  "contact_label c = (case co_name c of Some n \<Rightarrow> n | None \<Rightarrow> hex_of (take 4 (co_identity_id c)))"

definition contact_of_row :: "contact_row \<Rightarrow> contact" where
  "contact_of_row r = \<lparr>co_identity_id = ct_identity_id r, co_root_public = ct_root_public r,
     co_verified = ct_verified r, co_name = ct_name r, co_accepted = (ct_accepted r = Some 1),
     co_verified_how = (if ct_verified r then
       (case Option.bind (ct_verified_how r) verified_how_parse of Some h \<Rightarrow> Some h | None \<Rightarrow> Some Comparison)
       else None)\<rparr>"

definition contacts :: "client \<Rightarrow> contact list" where
  "contacts s = map contact_of_row (sort_key (\<lambda>c. (ct_first_seen c, ct_identity_id c)) (t_contacts s))"

definition contact :: "bytes \<Rightarrow> client \<Rightarrow> contact option" where
  "contact ident s = find (\<lambda>c. co_identity_id c = ident) (contacts s)"

definition contact_seen :: "int \<Rightarrow> bytes \<Rightarrow> bytes \<Rightarrow> unit client_op" where
  "contact_seen now ident root s =
     (case find (\<lambda>c. ct_identity_id c = ident) (t_contacts s) of
        Some c \<Rightarrow>
          if ct_root_public c \<noteq> root then
            if ct_verified c then (Inl (ContactRootMismatch (hex_of ident)), s)
            else (Inr (), s\<lparr>t_contacts := update_rows (\<lambda>c. ct_identity_id c = ident)
                    (\<lambda>c. c\<lparr>ct_root_public := root\<rparr>) (t_contacts s)\<rparr>)
          else (Inr (), s)
      | None \<Rightarrow> (Inr (), s\<lparr>t_contacts := t_contacts s @
          [\<lparr>ct_identity_id = ident, ct_root_public = root, ct_name = None, ct_verified = False,
            ct_verified_at = None, ct_first_seen = now, ct_accepted = None, ct_verified_how = None\<rparr>]\<rparr>))"

definition update_contact :: "bytes \<Rightarrow> (contact_row \<Rightarrow> contact_row) \<Rightarrow> client \<Rightarrow> client" where
  "update_contact ident f s = s\<lparr>t_contacts := update_rows (\<lambda>c. ct_identity_id c = ident) f (t_contacts s)\<rparr>"

definition contact_route_save :: "bytes \<Rightarrow> bytes \<Rightarrow> string \<Rightarrow> unit client_op" where
  "contact_route_save ident dev route =
     op_then (op_get (contact ident)) (\<lambda>c.
     if c = None then op_fail (NoSuchContact (hex_of ident)) else
     op_modify (\<lambda>s. update_contact ident (\<lambda>c. c\<lparr>ct_accepted := Some 1\<rparr>)
       (s\<lparr>t_contact_routes := upsert_row (\<lambda>r. rt_identity_id r = ident \<and> rt_device_id r = dev)
           (\<lambda>r. r\<lparr>rt_route := route\<rparr>) \<lparr>rt_identity_id = ident, rt_device_id = dev, rt_route = route\<rparr>
           (t_contact_routes s)\<rparr>)))"

definition contact_routes :: "bytes \<Rightarrow> client \<Rightarrow> (bytes \<times> string) list" where
  "contact_routes ident s =
     map (\<lambda>r. (rt_device_id r, rt_route r))
       (sort_key rt_device_id (filter (\<lambda>r. rt_identity_id r = ident) (t_contact_routes s)))"

definition safety_number_with :: "crypto \<Rightarrow> bytes \<Rightarrow> client \<Rightarrow> client_error + string" where
  "safety_number_with cr ident s =
     and_then (root_public cr s) (\<lambda>r.
     and_then (ok_or r NoIdentity) (\<lambda>own.
     and_then (ok_or (contact ident s) (NoSuchContact (hex_of ident))) (\<lambda>c.
     Inr (safety_number cr own (co_root_public c)))))"

definition contact_rename :: "bytes \<Rightarrow> string \<Rightarrow> unit client_op" where
  "contact_rename ident name =
     op_then (op_get (contact ident)) (\<lambda>c.
     if c = None then op_fail (NoSuchContact (hex_of ident)) else
     op_modify (update_contact ident
       (\<lambda>c. c\<lparr>ct_name := (if trim name = [] then None else Some (trim name))\<rparr>)))"

definition contact_verify :: "crypto \<Rightarrow> bytes \<Rightarrow> string \<Rightarrow> int \<Rightarrow> bool client_op" where
  "contact_verify cr ident number now =
     op_then (op_query (safety_number_with cr ident)) (\<lambda>expected.
     if normalize_number number \<noteq> normalize_number expected then op_return False else
     op_then (op_modify (update_contact ident (\<lambda>c. c\<lparr>ct_verified := True, ct_verified_at := Some now,
       ct_verified_how := Some ''comparison'', ct_accepted := Some 1\<rparr>))) (\<lambda>_. op_return True))"

section \<open>Conversations\<close>

record peer =
  pe_identity :: bytes
  pe_device_id :: bytes
  pe_credential_hash :: bytes
  pe_root_public :: bytes
  pe_mailbox :: "bytes option"
  pe_write_cap :: "bytes option"
  pe_hpke :: "bytes option"
  pe_revoked :: bool

definition routable :: "peer \<Rightarrow> bool" where
  "routable p \<longleftrightarrow> pe_mailbox p \<noteq> None \<and> pe_write_cap p \<noteq> None \<and> pe_hpke p \<noteq> None"

record conversation =
  cn_group_id :: bytes
  cn_creator :: bool
  cn_peers :: "peer list"

definition coalesce :: "'a option \<Rightarrow> 'a option \<Rightarrow> 'a option" where
  "coalesce a b = (case a of Some x \<Rightarrow> Some x | None \<Rightarrow> b)"

definition save_conversation_row :: "int \<Rightarrow> conversation \<Rightarrow> client \<Rightarrow> client" where
  "save_conversation_row now c s = s\<lparr>t_conversations :=
     upsert_row (\<lambda>r. cv_group_id r = cn_group_id c) (\<lambda>r. r\<lparr>cv_creator := cv_creator r \<or> cn_creator c\<rparr>)
       \<lparr>cv_group_id = cn_group_id c, cv_creator = cn_creator c, cv_created_at = now, cv_request = None,
        cv_request_from = None, cv_request_card = None, cv_request_card_at = None, cv_request_name = None\<rparr>
       (t_conversations s)\<rparr>"

definition save_peer :: "bytes \<Rightarrow> peer \<Rightarrow> client \<Rightarrow> client" where
  "save_peer grp p s = s\<lparr>t_peers :=
     upsert_row (\<lambda>r. pr_group_id r = grp \<and> pr_device_id r = pe_device_id p)
       (\<lambda>r. r\<lparr>pr_mailbox := coalesce (pe_mailbox p) (pr_mailbox r), pr_write_cap := coalesce (pe_write_cap p) (pr_write_cap r),
             pr_hpke := coalesce (pe_hpke p) (pr_hpke r), pr_revoked := pr_revoked r \<or> pe_revoked p\<rparr>)
       \<lparr>pr_group_id = grp, pr_device_id = pe_device_id p, pr_identity = pe_identity p,
        pr_credential_hash = pe_credential_hash p, pr_root_public = pe_root_public p, pr_mailbox = pe_mailbox p,
        pr_write_cap = pe_write_cap p, pr_hpke = pe_hpke p, pr_revoked = pe_revoked p\<rparr> (t_peers s)\<rparr>"

definition conversation_save :: "int \<Rightarrow> conversation \<Rightarrow> unit client_op" where
  "conversation_save now c =
     op_then (op_get client_identity_id) (\<lambda>own.
     op_then (op_for (cn_peers c) (\<lambda>p.
       if pe_root_public p \<noteq> [] \<and> own \<noteq> Some (pe_identity p)
       then contact_seen now (pe_identity p) (pe_root_public p) else op_return ())) (\<lambda>_.
     op_then (op_modify (save_conversation_row now c)) (\<lambda>_.
     op_for (cn_peers c) (\<lambda>p. op_modify (save_peer (cn_group_id c) p)))))"

definition peer_of_row :: "peer_row \<Rightarrow> peer" where
  "peer_of_row r = \<lparr>pe_identity = pr_identity r, pe_device_id = pr_device_id r,
     pe_credential_hash = pr_credential_hash r, pe_root_public = pr_root_public r, pe_mailbox = pr_mailbox r,
     pe_write_cap = pr_write_cap r, pe_hpke = pr_hpke r, pe_revoked = pr_revoked r\<rparr>"

definition peers_of :: "bytes \<Rightarrow> client \<Rightarrow> peer list" where
  "peers_of grp s =
     map peer_of_row (sort_key (\<lambda>r. (pr_identity r, pr_device_id r)) (filter (\<lambda>r. pr_group_id r = grp) (t_peers s)))"

definition conversation :: "bytes \<Rightarrow> client \<Rightarrow> conversation option" where
  "conversation grp s =
     map_option (\<lambda>r. \<lparr>cn_group_id = grp, cn_creator = cv_creator r, cn_peers = peers_of grp s\<rparr>)
       (find (\<lambda>r. cv_group_id r = grp) (t_conversations s))"

definition conversation_started_at :: "bytes \<Rightarrow> client \<Rightarrow> int option" where
  "conversation_started_at grp s = map_option cv_created_at (find (\<lambda>r. cv_group_id r = grp) (t_conversations s))"

definition conversations :: "client \<Rightarrow> conversation list" where
  "conversations s =
     List.map_filter (\<lambda>g. conversation g s) (map cv_group_id (sort_key cv_created_at (t_conversations s)))"

section \<open>Cards\<close>

definition IN_PERSON_SECONDS :: int where "IN_PERSON_SECONDS = 10 * 60"
definition LINK_SECONDS :: int where "LINK_SECONDS = 30 * 24 * 60 * 60"

datatype card_kind = InPersonCard | LinkCard

definition card_kind_str :: "card_kind \<Rightarrow> string" where
  "card_kind_str k = (case k of InPersonCard \<Rightarrow> ''in-person'' | LinkCard \<Rightarrow> ''link'')"

definition card_kind_parse :: "string \<Rightarrow> card_kind option" where
  "card_kind_parse s = (if s = ''in-person'' then Some InPersonCard else if s = ''link'' then Some LinkCard else None)"

record own_card =
  oc_secret :: bytes
  oc_kind :: card_kind
  oc_created_at :: int
  oc_expires_at :: int
  oc_used_at :: "int option"
  oc_revoked :: bool

definition card_create :: "client_error + bytes \<Rightarrow> card_kind \<Rightarrow> int \<Rightarrow> own_card client_op" where
  "card_create gen kind now =
     op_then (op_lift gen) (\<lambda>secret.
     let expires_at = now + (case kind of InPersonCard \<Rightarrow> IN_PERSON_SECONDS | LinkCard \<Rightarrow> LINK_SECONDS) in
     op_then (\<lambda>s. if \<exists>c \<in> set (t_contact_cards s). cr_secret c = secret then (Inl (ClSqlite ConstraintViolation), s)
       else (Inr (), s\<lparr>t_contact_cards := t_contact_cards s @
         [\<lparr>cr_secret = secret, cr_kind = card_kind_str kind, cr_created_at = now, cr_expires_at = expires_at,
           cr_used_at = None, cr_revoked = False\<rparr>]\<rparr>)) (\<lambda>_.
     op_return \<lparr>oc_secret = secret, oc_kind = kind, oc_created_at = now, oc_expires_at = expires_at,
       oc_used_at = None, oc_revoked = False\<rparr>))"

definition card_revoke :: "bytes \<Rightarrow> bool client_op" where
  "card_revoke secret s =
     (Inr (count_rows (\<lambda>c. cr_secret c = secret \<and> \<not> cr_revoked c) (t_contact_cards s) = 1),
      s\<lparr>t_contact_cards := update_rows (\<lambda>c. cr_secret c = secret \<and> \<not> cr_revoked c) (\<lambda>c. c\<lparr>cr_revoked := True\<rparr>)
        (t_contact_cards s)\<rparr>)"

text \<open>\<open>ORDER BY created_at DESC, secret\<close>.\<close>

definition cards_shared :: "int \<Rightarrow> client \<Rightarrow> own_card list" where
  "cards_shared now s =
     map (\<lambda>c. \<lparr>oc_secret = cr_secret c,
               oc_kind = (case card_kind_parse (cr_kind c) of Some k \<Rightarrow> k | None \<Rightarrow> LinkCard),
               oc_created_at = cr_created_at c, oc_expires_at = cr_expires_at c, oc_used_at = cr_used_at c,
               oc_revoked = cr_revoked c\<rparr>)
       (sort_key (\<lambda>c. (- cr_created_at c, cr_secret c))
         (filter (\<lambda>c. cr_kind c = ''link'' \<and> \<not> cr_revoked c \<and> cr_expires_at c > now) (t_contact_cards s)))"

definition card_redeem :: "bytes \<Rightarrow> int \<Rightarrow> own_card option client_op" where
  "card_redeem secret now s =
     (case find (\<lambda>c. cr_secret c = secret) (t_contact_cards s) of
        None \<Rightarrow> (Inr None, s)
      | Some c \<Rightarrow>
          (case card_kind_parse (cr_kind c) of
             None \<Rightarrow> (Inr None, s)
           | Some kind \<Rightarrow>
               if cr_revoked c \<or> now \<ge> cr_expires_at c \<or> (kind = InPersonCard \<and> cr_used_at c \<noteq> None)
               then (Inr None, s)
               else (Inr (Some \<lparr>oc_secret = secret, oc_kind = kind, oc_created_at = cr_created_at c,
                       oc_expires_at = cr_expires_at c, oc_used_at = coalesce (cr_used_at c) (Some now),
                       oc_revoked = False\<rparr>),
                     s\<lparr>t_contact_cards := update_rows (\<lambda>c. cr_secret c = secret)
                       (\<lambda>c. c\<lparr>cr_used_at := coalesce (cr_used_at c) (Some now)\<rparr>) (t_contact_cards s)\<rparr>)))"

definition card_name :: "client \<Rightarrow> string option" where
  "card_name s = Option.bind (t_own_card s) id"

definition card_name_set :: "string option \<Rightarrow> unit client_op" where
  "card_name_set name = op_modify (\<lambda>s. s\<lparr>t_own_card := Some name\<rparr>)"

definition contact_accept :: "bytes \<Rightarrow> unit client_op" where
  "contact_accept ident s =
     (if count_rows (\<lambda>c. ct_identity_id c = ident) (t_contacts s) = 0 then (Inl (NoSuchContact (hex_of ident)), s)
      else (Inr (), update_contact ident (\<lambda>c. c\<lparr>ct_accepted := Some 1\<rparr>) s))"

definition contact_verified :: "bytes \<Rightarrow> verified_how \<Rightarrow> int \<Rightarrow> unit client_op" where
  "contact_verified ident how now s =
     (if count_rows (\<lambda>c. ct_identity_id c = ident) (t_contacts s) = 0 then (Inl (NoSuchContact (hex_of ident)), s)
      else (Inr (), update_contact ident (\<lambda>c. c\<lparr>ct_verified := True, ct_verified_at := Some now,
              ct_verified_how := Some (verified_how_str how), ct_accepted := Some 1\<rparr>) s))"

definition contact_is_accepted :: "bytes \<Rightarrow> client \<Rightarrow> bool" where
  "contact_is_accepted ident s \<longleftrightarrow>
     Option.bind (find (\<lambda>c. ct_identity_id c = ident) (t_contacts s)) ct_accepted = Some 1"

section \<open>Requests\<close>

datatype request_status = PendingRequest | DeclinedRequest

datatype card_use = NoCard | UsedLink int | InPersonPending | UsedInPerson

record request =
  rq_group_id :: bytes
  rq_status :: request_status
  rq_from :: "bytes option"
  rq_card :: card_use
  rq_name :: "string option"

definition card_use_of :: "string option \<Rightarrow> int option \<Rightarrow> card_use" where
  "card_use_of kind at =
     (case (kind, at) of
        (Some k, Some t) \<Rightarrow> if k = ''link'' then UsedLink t else if k = ''in-person-pending'' then InPersonPending
          else if k = ''in-person'' then UsedInPerson else NoCard
      | (Some k, None) \<Rightarrow> if k = ''in-person-pending'' then InPersonPending
          else if k = ''in-person'' then UsedInPerson else NoCard
      | (None, _) \<Rightarrow> NoCard)"

definition update_conversation :: "(conversation_row \<Rightarrow> bool) \<Rightarrow> (conversation_row \<Rightarrow> conversation_row) \<Rightarrow> unit client_op" where
  "update_conversation P f = op_modify (\<lambda>s. s\<lparr>t_conversations := update_rows P f (t_conversations s)\<rparr>)"

definition request_open :: "bytes \<Rightarrow> unit client_op" where
  "request_open grp = update_conversation (\<lambda>r. cv_group_id r = grp \<and> cv_request r = None) (\<lambda>r. r\<lparr>cv_request := Some 1\<rparr>)"

definition request :: "bytes \<Rightarrow> client \<Rightarrow> request option" where
  "request grp s =
     Option.bind (find (\<lambda>r. cv_group_id r = grp) (t_conversations s)) (\<lambda>r.
     Option.bind (if cv_request r = Some 1 then Some PendingRequest
       else if cv_request r = Some 2 then Some DeclinedRequest else None) (\<lambda>st.
     Some \<lparr>rq_group_id = grp, rq_status = st, rq_from = cv_request_from r,
       rq_card = card_use_of (cv_request_card r) (cv_request_card_at r), rq_name = cv_request_name r\<rparr>))"

definition request_set_from :: "bytes \<Rightarrow> bytes \<Rightarrow> unit client_op" where
  "request_set_from grp ident =
     update_conversation (\<lambda>r. cv_group_id r = grp \<and> cv_request_from r = None) (\<lambda>r. r\<lparr>cv_request_from := Some ident\<rparr>)"

definition request_set_card :: "bytes \<Rightarrow> card_use \<Rightarrow> string option \<Rightarrow> unit client_op" where
  "request_set_card grp used name =
     (let (kind, at) = (case used of NoCard \<Rightarrow> (None, None) | UsedLink t \<Rightarrow> (Some ''link'', Some t)
                        | InPersonPending \<Rightarrow> (Some ''in-person-pending'', None) | UsedInPerson \<Rightarrow> (Some ''in-person'', None))
      in update_conversation (\<lambda>r. cv_group_id r = grp)
        (\<lambda>r. r\<lparr>cv_request_card := kind, cv_request_card_at := at, cv_request_name := coalesce name (cv_request_name r)\<rparr>))"

definition request_resolve :: "bytes \<Rightarrow> bool \<Rightarrow> unit client_op" where
  "request_resolve grp accepted =
     update_conversation (\<lambda>r. cv_group_id r = grp) (\<lambda>r. r\<lparr>cv_request := (if accepted then None else Some 2)\<rparr>)"

definition requests_pending :: "client \<Rightarrow> request list" where
  "requests_pending s =
     List.map_filter (\<lambda>g. request g s) (map cv_group_id
       (sort_key (\<lambda>r. (cv_created_at r, cv_group_id r)) (filter (\<lambda>r. cv_request r = Some 1) (t_conversations s))))"

definition requests_in_person_pending :: "client \<Rightarrow> request list" where
  "requests_in_person_pending s =
     map (\<lambda>r. \<lparr>rq_group_id = cv_group_id r,
               rq_status = (if cv_request r = Some 2 then DeclinedRequest else PendingRequest),
               rq_from = cv_request_from r, rq_card = InPersonPending, rq_name = cv_request_name r\<rparr>)
       (filter (\<lambda>r. cv_request_card r = Some ''in-person-pending'') (t_conversations s))"

section \<open>Verified contacts are pinned\<close>

text \<open>A verified contact stays verified with the same root key.\<close>

definition pins_grow :: "client \<Rightarrow> client \<Rightarrow> bool" where
  "pins_grow s s' \<longleftrightarrow> (\<forall>c \<in> set (t_contacts s). \<exists>c' \<in> set (t_contacts s').
     ct_identity_id c' = ct_identity_id c \<and>
     (ct_verified c \<longrightarrow> ct_verified c' \<and> ct_root_public c' = ct_root_public c) \<and>
     (ct_accepted c = Some 1 \<longrightarrow> ct_accepted c' = Some 1))"

interpretation pins: table_order pins_grow
proof
  show "pins_grow s t \<Longrightarrow> pins_grow t u \<Longrightarrow> pins_grow s u" for s t u
    unfolding pins_grow_def by metis
qed (auto simp: pins_grow_def)

lemma pins_same: "t_contacts s' = t_contacts s \<Longrightarrow> pins_grow s s'"
  by (auto simp: pins_grow_def)

lemma pins_update:
  assumes "t_contacts s' = update_rows P f (t_contacts s)"
    and "\<And>c. c \<in> set (t_contacts s) \<Longrightarrow> P c \<Longrightarrow> ct_identity_id (f c) = ct_identity_id c \<and>
      (ct_verified c \<longrightarrow> ct_verified (f c) \<and> ct_root_public (f c) = ct_root_public c) \<and>
      (ct_accepted c = Some 1 \<longrightarrow> ct_accepted (f c) = Some 1)"
  shows "pins_grow s s'"
  unfolding pins_grow_def
proof
  fix c assume c: "c \<in> set (t_contacts s)"
  show "\<exists>c' \<in> set (t_contacts s'). ct_identity_id c' = ct_identity_id c \<and>
     (ct_verified c \<longrightarrow> ct_verified c' \<and> ct_root_public c' = ct_root_public c) \<and>
     (ct_accepted c = Some 1 \<longrightarrow> ct_accepted c' = Some 1)"
    using update_rows_member [OF c, of P f] assms(2) [OF c] unfolding assms(1) by (cases "P c") auto
qed

lemma update_contact_pins:
  assumes "\<And>c. ct_identity_id (f c) = ct_identity_id c \<and> ct_root_public (f c) = ct_root_public c \<and>
      (ct_verified c \<longrightarrow> ct_verified (f c)) \<and> (ct_accepted c = Some 1 \<longrightarrow> ct_accepted (f c) = Some 1)"
  shows "pins_grow s (update_contact ident f s)"
  by (rule pins_update [of _ "\<lambda>c. ct_identity_id c = ident" f]) (use assms in \<open>simp_all add: update_contact_def\<close>)

definition contacts_ok :: "client \<Rightarrow> bool" where
  "contacts_ok s \<longleftrightarrow> distinct (map ct_identity_id (t_contacts s))"

lemma find_key_unique:
  "distinct (map k rows) \<Longrightarrow> r \<in> set rows \<Longrightarrow> k r = v \<Longrightarrow> find (\<lambda>r. k r = v) rows = Some r"
  by (induction rows) (auto simp: rev_image_eqI)

lemma contact_seen_keeps: "op_keeps contacts_ok (contact_seen now ident root)"
  unfolding op_keeps_def contacts_ok_def contact_seen_def
  by (auto split: option.splits simp: find_None_iff)

lemma contact_seen_pins:
  assumes "contacts_ok s"
  shows "pins_grow s (snd (contact_seen now ident root s))"
proof (cases "find (\<lambda>c. ct_identity_id c = ident) (t_contacts s)")
  case None
  then show ?thesis by (auto simp: contact_seen_def pins_grow_def)
next
  case (Some c)
  have u: "c' = c" if "c' \<in> set (t_contacts s)" "ct_identity_id c' = ident" for c'
    using assms find_key_unique [of ct_identity_id "t_contacts s" c' ident] that Some by (simp add: contacts_ok_def)
  show ?thesis
  proof (cases "ct_root_public c \<noteq> root \<and> \<not> ct_verified c")
    case True
    have "pins_grow s (s\<lparr>t_contacts := update_rows (\<lambda>c. ct_identity_id c = ident) (\<lambda>c. c\<lparr>ct_root_public := root\<rparr>) (t_contacts s)\<rparr>)"
      by (rule pins_update [of _ "\<lambda>c. ct_identity_id c = ident" "\<lambda>c. c\<lparr>ct_root_public := root\<rparr>"])
        (use True u in auto)
    with True Some show ?thesis by (simp add: contact_seen_def)
  next
    case False
    with Some show ?thesis by (auto simp: contact_seen_def pins.same)
  qed
qed

section \<open>What contacts and cards keep\<close>

definition cards_ok :: "client \<Rightarrow> bool" where
  "cards_ok s \<longleftrightarrow> distinct (map cr_secret (t_contact_cards s))"

text \<open>A card keeps what it was made with; once used or revoked it stays so.\<close>

definition cards_grow :: "client \<Rightarrow> client \<Rightarrow> bool" where
  "cards_grow s s' \<longleftrightarrow> (\<forall>c \<in> set (t_contact_cards s). \<exists>c' \<in> set (t_contact_cards s').
     cr_secret c' = cr_secret c \<and> cr_kind c' = cr_kind c \<and> cr_created_at c' = cr_created_at c \<and>
     cr_expires_at c' = cr_expires_at c \<and> (cr_used_at c \<noteq> None \<longrightarrow> cr_used_at c' = cr_used_at c) \<and>
     (cr_revoked c \<longrightarrow> cr_revoked c'))"

definition contacts_grow :: "client \<Rightarrow> client \<Rightarrow> bool" where
  "contacts_grow s s' \<longleftrightarrow> (contacts_ok s \<and> cards_ok s \<longrightarrow>
     contacts_ok s' \<and> cards_ok s' \<and> pins_grow s s' \<and> cards_grow s s')"

lemma cards_grow_refl [simp]: "cards_grow s s"
  by (auto simp: cards_grow_def)

lemma cards_grow_trans: "cards_grow s t \<Longrightarrow> cards_grow t u \<Longrightarrow> cards_grow s u"
  unfolding cards_grow_def
proof
  fix c assume st: "\<forall>c \<in> set (t_contact_cards s). \<exists>c' \<in> set (t_contact_cards t).
     cr_secret c' = cr_secret c \<and> cr_kind c' = cr_kind c \<and> cr_created_at c' = cr_created_at c \<and>
     cr_expires_at c' = cr_expires_at c \<and> (cr_used_at c \<noteq> None \<longrightarrow> cr_used_at c' = cr_used_at c) \<and> (cr_revoked c \<longrightarrow> cr_revoked c')"
    and tu: "\<forall>c \<in> set (t_contact_cards t). \<exists>c' \<in> set (t_contact_cards u).
     cr_secret c' = cr_secret c \<and> cr_kind c' = cr_kind c \<and> cr_created_at c' = cr_created_at c \<and>
     cr_expires_at c' = cr_expires_at c \<and> (cr_used_at c \<noteq> None \<longrightarrow> cr_used_at c' = cr_used_at c) \<and> (cr_revoked c \<longrightarrow> cr_revoked c')"
    and c: "c \<in> set (t_contact_cards s)"
  from st c obtain d where d: "d \<in> set (t_contact_cards t)" "cr_secret d = cr_secret c" "cr_kind d = cr_kind c"
    "cr_created_at d = cr_created_at c" "cr_expires_at d = cr_expires_at c"
    "cr_used_at c \<noteq> None \<longrightarrow> cr_used_at d = cr_used_at c" "cr_revoked c \<longrightarrow> cr_revoked d" by blast
  from tu d(1) obtain e where "e \<in> set (t_contact_cards u)" "cr_secret e = cr_secret d" "cr_kind e = cr_kind d"
    "cr_created_at e = cr_created_at d" "cr_expires_at e = cr_expires_at d"
    "cr_used_at d \<noteq> None \<longrightarrow> cr_used_at e = cr_used_at d" "cr_revoked d \<longrightarrow> cr_revoked e" by blast
  with d(2-) show "\<exists>c' \<in> set (t_contact_cards u).
     cr_secret c' = cr_secret c \<and> cr_kind c' = cr_kind c \<and> cr_created_at c' = cr_created_at c \<and>
     cr_expires_at c' = cr_expires_at c \<and> (cr_used_at c \<noteq> None \<longrightarrow> cr_used_at c' = cr_used_at c) \<and> (cr_revoked c \<longrightarrow> cr_revoked c')"
    by (intro bexI [of _ e]) simp_all
qed

lemma cards_growD:
  assumes "cards_grow s s'" "c \<in> set (t_contact_cards s)"
  obtains c' where "c' \<in> set (t_contact_cards s')" "cr_secret c' = cr_secret c" "cr_kind c' = cr_kind c"
    "cr_expires_at c' = cr_expires_at c" "cr_used_at c \<noteq> None \<Longrightarrow> cr_used_at c' = cr_used_at c"
    "cr_revoked c \<Longrightarrow> cr_revoked c'"
  using assms unfolding cards_grow_def by blast

interpretation social: table_order contacts_grow
proof
  show "contacts_grow s t \<Longrightarrow> contacts_grow t u \<Longrightarrow> contacts_grow s u" for s t u
    unfolding contacts_grow_def using cards_grow_trans pins.compose by blast
qed (simp add: contacts_grow_def pins.same)

lemma social_same: "t_contacts s' = t_contacts s \<Longrightarrow> t_contact_cards s' = t_contact_cards s \<Longrightarrow> contacts_grow s s'"
  by (simp add: contacts_grow_def contacts_ok_def cards_ok_def pins_same cards_grow_def) blast

lemma social_contacts:
  assumes "t_contact_cards s' = t_contact_cards s" and "contacts_ok s \<Longrightarrow> contacts_ok s' \<and> pins_grow s s'"
  shows "contacts_grow s s'"
proof -
  have "cards_grow s s'" using assms(1) by (auto simp: cards_grow_def)
  with assms show ?thesis by (simp add: contacts_grow_def cards_ok_def)
qed

lemma update_contact_social:
  assumes "\<And>c. ct_identity_id (f c) = ct_identity_id c \<and> ct_root_public (f c) = ct_root_public c \<and>
      (ct_verified c \<longrightarrow> ct_verified (f c)) \<and> (ct_accepted c = Some 1 \<longrightarrow> ct_accepted (f c) = Some 1)"
  shows "contacts_grow s (update_contact ident f s)"
  using update_contact_pins [OF assms] assms
  by (intro social_contacts) (simp_all add: update_contact_def contacts_ok_def)

lemma contact_seen_social: "op_grows contacts_grow (contact_seen now ident root)"
  unfolding op_grows_def
proof
  fix s
  have "t_contact_cards (snd (contact_seen now ident root s)) = t_contact_cards s"
    by (auto simp: contact_seen_def split: option.splits)
  then show "contacts_grow s (snd (contact_seen now ident root s))"
    using contact_seen_pins contact_seen_keeps by (intro social_contacts) (auto simp: op_keeps_def)
qed

lemma contact_updates_social:
  "op_grows contacts_grow (contact_route_save ident dev route)" "op_grows contacts_grow (contact_rename ident name)"
  "op_grows contacts_grow (contact_verify cr ident number now)" "op_grows contacts_grow (contact_accept ident)"
  "op_grows contacts_grow (contact_verified ident how now)"
proof -
  show "op_grows contacts_grow (contact_route_save ident dev route)"
    unfolding contact_route_save_def
    by (intro social.grows_then social.grows_if social.grows_basic social.grows_modify
        social.compose [OF social_same update_contact_social]) simp_all
  show "op_grows contacts_grow (contact_rename ident name)"
    unfolding contact_rename_def
    by (intro social.grows_then social.grows_if social.grows_basic social.grows_modify update_contact_social) simp
  show "op_grows contacts_grow (contact_verify cr ident number now)"
    unfolding contact_verify_def
    by (intro social.grows_then social.grows_if social.grows_reads op_reads_basic social.grows_modify update_contact_social) simp
  show "op_grows contacts_grow (contact_accept ident)" "op_grows contacts_grow (contact_verified ident how now)"
    by (auto simp: op_grows_def contact_accept_def contact_verified_def social.same intro!: update_contact_social)
qed

lemma conversation_save_social: "op_grows contacts_grow (conversation_save now c)"
  unfolding conversation_save_def
  by (intro social.grows_then social.grows_for social.grows_if social.grows_basic social.grows_modify
      contact_seen_social social_same) (simp_all add: save_conversation_row_def save_peer_def)

lemma requests_social:
  "op_grows contacts_grow (request_open g)" "op_grows contacts_grow (request_set_from g i)"
  "op_grows contacts_grow (request_set_card g u n)" "op_grows contacts_grow (request_resolve g a)"
  "op_grows contacts_grow (card_name_set nm)"
  unfolding request_open_def request_set_from_def request_set_card_def request_resolve_def card_name_set_def
    update_conversation_def
  by (auto simp: Let_def split: prod.splits intro!: social.grows_modify social_same)

lemma social_cards:
  assumes "t_contacts s' = t_contacts s" and "cards_ok s \<Longrightarrow> cards_ok s' \<and> cards_grow s s'"
  shows "contacts_grow s s'"
  using assms pins_same by (simp add: contacts_grow_def contacts_ok_def)

lemma cards_update:
  assumes "t_contact_cards s' = update_rows P f (t_contact_cards s)"
    and "\<And>c. P c \<Longrightarrow> cr_secret (f c) = cr_secret c \<and> cr_kind (f c) = cr_kind c \<and> cr_created_at (f c) = cr_created_at c \<and>
      cr_expires_at (f c) = cr_expires_at c \<and> (cr_used_at c \<noteq> None \<longrightarrow> cr_used_at (f c) = cr_used_at c) \<and>
      (cr_revoked c \<longrightarrow> cr_revoked (f c))"
  shows "cards_ok s \<Longrightarrow> cards_ok s' \<and> cards_grow s s'"
proof
  have "map cr_secret (t_contact_cards s') = map cr_secret (t_contact_cards s)"
    using assms by simp
  then show "cards_ok s \<Longrightarrow> cards_ok s'" by (simp add: cards_ok_def)
  show "cards_grow s s'"
    unfolding cards_grow_def
  proof
    fix c assume c: "c \<in> set (t_contact_cards s)"
    show "\<exists>c' \<in> set (t_contact_cards s').
       cr_secret c' = cr_secret c \<and> cr_kind c' = cr_kind c \<and> cr_created_at c' = cr_created_at c \<and>
       cr_expires_at c' = cr_expires_at c \<and> (cr_used_at c \<noteq> None \<longrightarrow> cr_used_at c' = cr_used_at c) \<and> (cr_revoked c \<longrightarrow> cr_revoked c')"
      unfolding assms(1) using assms(2) update_rows_member [OF c, of P f] by (cases "P c") auto
  qed
qed

lemma card_ops_social:
  "op_grows contacts_grow (card_create gen k now)" "op_grows contacts_grow (card_revoke secret)"
  "op_grows contacts_grow (card_redeem secret now)"
proof -
  have "cards_ok s \<and> (\<forall>c \<in> set (t_contact_cards s). cr_secret c \<noteq> cr_secret x) \<Longrightarrow>
      contacts_grow s (s\<lparr>t_contact_cards := t_contact_cards s @ [x]\<rparr>)" for s x
    by (rule social_cards) (auto simp: cards_ok_def cards_grow_def)
  then show "op_grows contacts_grow (card_create gen k now)"
    unfolding card_create_def Let_def
    by (intro social.grows_then social.grows_basic) (auto simp: op_grows_def contacts_grow_def social.same pins.same)
  show "op_grows contacts_grow (card_revoke secret)"
    unfolding op_grows_def card_revoke_def
    by (intro allI, simp only: snd_conv, rule social_cards, simp, rule cards_update
        [of _ "\<lambda>c. cr_secret c = secret \<and> \<not> cr_revoked c" "cr_revoked_update (\<lambda>_. True)"]) auto
  show "op_grows contacts_grow (card_redeem secret now)"
    unfolding op_grows_def
  proof
    fix s
    have "contacts_grow s (s\<lparr>t_contact_cards := update_rows (\<lambda>c. cr_secret c = secret)
           (\<lambda>c. c\<lparr>cr_used_at := coalesce (cr_used_at c) (Some now)\<rparr>) (t_contact_cards s)\<rparr>)"
      by (rule social_cards, simp, rule cards_update [of _ "\<lambda>c. cr_secret c = secret"
          "\<lambda>c. c\<lparr>cr_used_at := coalesce (cr_used_at c) (Some now)\<rparr>"]) (auto simp: coalesce_def)
    then show "contacts_grow s (snd (card_redeem secret now s))"
      by (auto simp: card_redeem_def social.same split: option.splits)
  qed
qed

lemmas contacts_social = contact_seen_social contact_updates_social conversation_save_social requests_social card_ops_social

section \<open>Safety numbers are the same on both sides\<close>

lemma safety_number_commute: "safety_number cr a b = safety_number cr b a"
  by (cases "a = b") (auto simp: safety_number_def dest: antisym)

text \<open>The root keys of a contact, as the rows of the table hold them.\<close>

lemma contact_row_of:
  assumes "contact ident s = Some c"
  shows "\<exists>r \<in> set (t_contacts s). ct_identity_id r = ident \<and> c = contact_of_row r"
proof -
  have "co_identity_id c = ident" "c \<in> set (contacts s)"
    using list_find_Some_iff [OF assms [unfolded contact_def]] by simp_all
  then obtain r where "r \<in> set (t_contacts s)" "c = contact_of_row r" by (auto simp: contacts_def)
  moreover from this have "ct_identity_id r = ident"
    using \<open>co_identity_id c = ident\<close> by (simp add: contact_of_row_def)
  ultimately show ?thesis by blast
qed

lemma contact_unique:
  assumes "contacts_ok s" "r \<in> set (t_contacts s)"
  shows "contact (ct_identity_id r) s = Some (contact_of_row r)"
proof -
  let ?rows = "sort_key (\<lambda>c. (ct_first_seen c, ct_identity_id c)) (t_contacts s)"
  have "distinct (map ct_identity_id ?rows)"
    using assms(1) by (simp add: contacts_ok_def distinct_map)
  then have "find (\<lambda>c. ct_identity_id c = ct_identity_id r) ?rows = Some r"
    using assms(2) by (intro find_key_unique) simp_all
  moreover have "find (\<lambda>c. co_identity_id c = v) (map contact_of_row rows) =
      map_option contact_of_row (find (\<lambda>c. ct_identity_id c = v) rows)" for v rows
    by (induction rows) (simp_all add: contact_of_row_def)
  ultimately show ?thesis by (simp add: contact_def contacts_def)
qed

lemma contact_verify_cases:
  assumes "root_public cr s = Inr (Some own)" and "contact ident s = Some c"
  shows "contact_verify cr ident number now s =
    (if normalize_number number = normalize_number (safety_number cr own (co_root_public c))
     then (Inr True, update_contact ident (\<lambda>c. c\<lparr>ct_verified := True, ct_verified_at := Some now,
            ct_verified_how := Some ''comparison'', ct_accepted := Some 1\<rparr>) s)
     else (Inr False, s))"
  using assms by (simp add: contact_verify_def safety_number_with_def op_then_def)

text \<open>Comparing safety numbers. When each of two people has the other as a contact with the other's
  root key, the number one of them reads out is the number the other expects: the comparison succeeds,
  marks exactly that contact verified and accepted and keeps its root key. A number whose digits differ
  is answered with false and changes nothing.\<close>

theorem safety_number_comparison:
  assumes "contacts_ok bob"
    and "root_public cr alice = Inr (Some ra)" and "contact b_id alice = Some b" and "co_root_public b = rb"
    and "root_public cr bob = Inr (Some rb)" and "contact a_id bob = Some a" and "co_root_public a = ra"
    and "safety_number_with cr b_id alice = Inr number"
    and "normalize_number typed \<noteq> normalize_number number"
    and "contact_verify cr a_id number now bob = (r, bob')"
  shows "r = Inr True \<and> contact a_id bob' = Some (a\<lparr>co_verified := True, co_accepted := True, co_verified_how := Some Comparison\<rparr>) \<and>
    (\<forall>i. i \<noteq> a_id \<longrightarrow> (\<forall>x \<in> set (t_contacts bob). ct_identity_id x = i \<longrightarrow> x \<in> set (t_contacts bob'))) \<and>
    contact_verify cr a_id typed now bob = (Inr False, bob)"
proof -
  let ?f = "\<lambda>c. c\<lparr>ct_verified := True, ct_verified_at := Some now, ct_verified_how := Some ''comparison'', ct_accepted := Some 1\<rparr>"
  have n: "number = safety_number cr rb ra"
    using assms by (simp add: safety_number_with_def safety_number_commute [of cr ra])
  then have e: "r = Inr True" "bob' = update_contact a_id ?f bob"
    using assms(10) contact_verify_cases [OF assms(5,6), of number now] by (simp_all add: assms(7))
  obtain row where row: "row \<in> set (t_contacts bob)" "ct_identity_id row = a_id" "a = contact_of_row row"
    using contact_row_of [OF assms(6)] by blast
  have "contacts_ok bob'" using assms(1) by (simp add: e update_contact_def contacts_ok_def)
  moreover have "?f row \<in> set (t_contacts bob')"
    using update_rows_member [OF row(1), of "\<lambda>c. ct_identity_id c = a_id" ?f] row(2) by (simp add: e update_contact_def)
  ultimately have "contact a_id bob' = Some (contact_of_row (?f row))"
    using contact_unique [of bob' "?f row"] row(2) by simp
  moreover have "x \<in> set (t_contacts bob')" if "x \<in> set (t_contacts bob)" "ct_identity_id x \<noteq> a_id" for x
    using update_rows_member [OF that(1), of "\<lambda>c. ct_identity_id c = a_id" ?f] that(2) by (simp add: e update_contact_def)
  moreover have "contact_verify cr a_id typed now bob = (Inr False, bob)"
    using contact_verify_cases [OF assms(5,6), of typed now] assms(7,9) n by simp
  ultimately show ?thesis
    using row(3) by (auto simp: e contact_of_row_def verified_how_parse_def)
qed

section \<open>Cards\<close>

text \<open>What a redemption says of the card it used.\<close>

lemma card_redeem_effect:
  assumes "cards_ok s" and "card_redeem secret now s = (Inr (Some c), s')"
  shows "\<exists>row \<in> set (t_contact_cards s). cr_secret row = secret \<and> card_kind_parse (cr_kind row) = Some (oc_kind c) \<and>
      \<not> cr_revoked row \<and> now < cr_expires_at row \<and> (oc_kind c = InPersonCard \<longrightarrow> cr_used_at row = None) \<and>
      row\<lparr>cr_used_at := coalesce (cr_used_at row) (Some now)\<rparr> \<in> set (t_contact_cards s')"
proof -
  obtain row where f: "find (\<lambda>c. cr_secret c = secret) (t_contact_cards s) = Some row"
    using assms(2) by (auto simp: card_redeem_def split: option.splits)
  then have r: "row \<in> set (t_contact_cards s)" "cr_secret row = secret" using list_find_Some_iff [OF f] by simp_all
  show ?thesis
    using assms(2) r update_rows_member [OF r(1), of "\<lambda>c. cr_secret c = secret"
      "\<lambda>c. c\<lparr>cr_used_at := coalesce (cr_used_at c) (Some now)\<rparr>"]
    by (intro bexI [of _ row]) (auto simp: card_redeem_def f split: option.splits if_splits)
qed

lemma card_redeem_refused:
  assumes "cards_ok s" "row \<in> set (t_contact_cards s)"
    and "cr_revoked row \<or> cr_expires_at row \<le> now \<or> card_kind_parse (cr_kind row) = Some InPersonCard \<and> cr_used_at row \<noteq> None"
  shows "card_redeem (cr_secret row) now s = (Inr None, s)"
  using find_key_unique [of cr_secret "t_contact_cards s" row "cr_secret row"] assms
  by (auto simp: card_redeem_def cards_ok_def split: option.splits)

text \<open>Everything the client does to contacts, conversations, requests and cards.\<close>

inductive contact_step :: "client \<Rightarrow> client \<Rightarrow> bool" where
  "contact_step s (snd (contact_seen now ident root s))"
| "contact_step s (snd (contact_route_save ident dev route s))"
| "contact_step s (snd (contact_rename ident name s))"
| "contact_step s (snd (contact_verify cr ident number now s))"
| "contact_step s (snd (contact_accept ident s))"
| "contact_step s (snd (contact_verified ident how now s))"
| "contact_step s (snd (conversation_save now c s))"
| "contact_step s (snd (request_open g s))"
| "contact_step s (snd (request_set_from g ident s))"
| "contact_step s (snd (request_set_card g u n s))"
| "contact_step s (snd (request_resolve g accepted s))"
| "contact_step s (snd (card_name_set nm s))"
| "contact_step s (snd (card_create gen k now s))"
| "contact_step s (snd (card_revoke secret s))"
| "contact_step s (snd (card_redeem secret now s))"

lemma contact_steps_grow: "contact_step\<^sup>*\<^sup>* s t \<Longrightarrow> contacts_grow s t"
proof (induction rule: rtranclp_induct)
  case base
  show ?case by (rule social.same)
next
  case (step t u)
  from step.hyps(2) have "contacts_grow t u"
    by cases (use contacts_social in \<open>auto simp: op_grows_def\<close>)
  with step.IH show ?case by (rule social.compose)
qed

text \<open>C18. The life of a card. A redemption succeeds only on a card that is not revoked and before its
  expiry. Whatever the client then does with contacts, conversations, requests and cards, an in-person
  card that was redeemed is never redeemed again, and no card is redeemed at or after its expiry or once
  it was revoked.\<close>

theorem card_life:
  assumes "contacts_ok s" "cards_ok s" and "contact_step\<^sup>*\<^sup>* s s1" and "card_redeem secret now s1 = (Inr (Some c), s2)"
    and "contact_step\<^sup>*\<^sup>* s2 s3"
    and "row \<in> set (t_contact_cards s)" "cr_secret row = secret"
  shows "\<not> cr_revoked row \<and> now < cr_expires_at row \<and>
    (oc_kind c = InPersonCard \<longrightarrow> cr_used_at row = None \<and> card_redeem secret later s3 = (Inr None, s3)) \<and>
    (cr_expires_at row \<le> later \<longrightarrow> card_redeem secret later s3 = (Inr None, s3))"
proof -
  have g1: "contacts_ok s1" "cards_ok s1" "cards_grow s s1"
    using contact_steps_grow [OF assms(3)] assms(1,2) by (simp_all add: contacts_grow_def)
  obtain r1 where r1: "r1 \<in> set (t_contact_cards s1)" "cr_secret r1 = secret" "card_kind_parse (cr_kind r1) = Some (oc_kind c)"
      "\<not> cr_revoked r1" "now < cr_expires_at r1" "oc_kind c = InPersonCard \<longrightarrow> cr_used_at r1 = None"
      "r1\<lparr>cr_used_at := coalesce (cr_used_at r1) (Some now)\<rparr> \<in> set (t_contact_cards s2)"
    using card_redeem_effect [OF g1(2) assms(4)] by blast
  obtain r where r: "r \<in> set (t_contact_cards s1)" "cr_secret r = secret" "cr_expires_at r = cr_expires_at row"
      "cr_used_at row \<noteq> None \<longrightarrow> cr_used_at r = cr_used_at row" "cr_revoked row \<longrightarrow> cr_revoked r"
    using g1(3) assms(6,7) unfolding cards_grow_def by blast
  have "r = r1" using g1(2) r(1,2) r1(1,2) unfolding cards_ok_def by (metis eq_key_imp_eq_value inj_on_def distinct_map)
  have ok2: "contacts_ok s2 \<and> cards_ok s2"
    using contact_step.intros(15) [of s1 secret now] assms(4) g1 contact_steps_grow [OF r_into_rtranclp]
    unfolding contacts_grow_def by (metis snd_conv)
  have g3: "cards_ok s3" "cards_grow s2 s3"
    using contact_steps_grow [OF assms(5)] ok2 by (simp_all add: contacts_grow_def)
  have "coalesce (cr_used_at r1) (Some now) \<noteq> None" by (simp add: coalesce_def split: option.split)
  then have "\<exists>r3 \<in> set (t_contact_cards s3). cr_secret r3 = secret \<and> cr_kind r3 = cr_kind r1 \<and>
      cr_expires_at r3 = cr_expires_at r1 \<and> cr_used_at r3 \<noteq> None"
    using r1(2) by - (rule cards_growD [OF g3(2) r1(7)], auto)
  then obtain r3 where r3: "r3 \<in> set (t_contact_cards s3)" "cr_secret r3 = secret" "cr_kind r3 = cr_kind r1"
      "cr_expires_at r3 = cr_expires_at r1" "cr_used_at r3 \<noteq> None" by blast
  show ?thesis
    using r1 r \<open>r = r1\<close> r3 card_redeem_refused [OF g3(1) r3(1), of later] by auto
qed


section \<open>Rosters\<close>

text \<open>A peer keeps its identity and credential, and loses neither a revocation nor a route.\<close>

definition peer_kept :: "peer_row \<Rightarrow> peer_row \<Rightarrow> bool" where
  "peer_kept p p' \<longleftrightarrow> pr_group_id p' = pr_group_id p \<and> pr_device_id p' = pr_device_id p \<and> pr_identity p' = pr_identity p \<and>
     pr_credential_hash p' = pr_credential_hash p \<and> pr_root_public p' = pr_root_public p \<and>
     (pr_revoked p \<longrightarrow> pr_revoked p') \<and> (pr_mailbox p \<noteq> None \<longrightarrow> pr_mailbox p' \<noteq> None) \<and>
     (pr_write_cap p \<noteq> None \<longrightarrow> pr_write_cap p' \<noteq> None) \<and> (pr_hpke p \<noteq> None \<longrightarrow> pr_hpke p' \<noteq> None)"

definition roster_grows :: "client \<Rightarrow> client \<Rightarrow> bool" where
  "roster_grows s s' \<longleftrightarrow> (\<forall>p \<in> set (t_peers s). \<exists>p' \<in> set (t_peers s'). peer_kept p p') \<and>
     t_identity_devices s' = t_identity_devices s \<and> t_manifest s' = t_manifest s \<and>
     t_peer_manifests s' = t_peer_manifests s \<and> t_identity s' = t_identity s"

lemma peer_kept_refl [simp]: "peer_kept p p"
  by (simp add: peer_kept_def)

lemma peer_kept_trans: "peer_kept p q \<Longrightarrow> peer_kept q r \<Longrightarrow> peer_kept p r"
  by (simp add: peer_kept_def)

interpretation roster: table_order roster_grows
proof
  show "roster_grows s t \<Longrightarrow> roster_grows t u \<Longrightarrow> roster_grows s u" for s t u
    unfolding roster_grows_def using peer_kept_trans by metis
qed (auto simp: roster_grows_def intro: peer_kept_refl)

lemma roster_same:
  "t_peers s' = t_peers s \<Longrightarrow> t_identity_devices s' = t_identity_devices s \<Longrightarrow> t_manifest s' = t_manifest s \<Longrightarrow>
     t_peer_manifests s' = t_peer_manifests s \<Longrightarrow> t_identity s' = t_identity s \<Longrightarrow> roster_grows s s'"
  by (auto simp: roster_grows_def intro: peer_kept_refl)

lemma roster_trust: "roster_grows s s' \<Longrightarrow> trust_grows s s'"
  unfolding roster_grows_def trust_grows_def device_revoked_iff peer_kept_def
  using peer_manifests_grow_same by (metis prefix_order.refl)

lemma save_peer_roster: "roster_grows s (save_peer g p s)"
proof -
  let ?P = "\<lambda>r. pr_group_id r = g \<and> pr_device_id r = pe_device_id p"
  let ?f = "\<lambda>r. r\<lparr>pr_mailbox := coalesce (pe_mailbox p) (pr_mailbox r), pr_write_cap := coalesce (pe_write_cap p) (pr_write_cap r),
             pr_hpke := coalesce (pe_hpke p) (pr_hpke r), pr_revoked := pr_revoked r \<or> pe_revoked p\<rparr>"
  have "\<exists>r' \<in> set (t_peers (save_peer g p s)). peer_kept r r'" if r: "r \<in> set (t_peers s)" for r
  proof -
    have "peer_kept r (if ?P r then ?f r else r)"
      by (simp add: peer_kept_def coalesce_def split: option.split)
    moreover have "(if ?P r then ?f r else r) \<in> set (t_peers (save_peer g p s))"
      using update_rows_member [OF r, of ?P ?f] r by (auto simp: save_peer_def upsert_row_def list_ex_iff)
    ultimately show ?thesis by blast
  qed
  then show ?thesis by (simp add: roster_grows_def) (simp add: save_peer_def)
qed

text \<open>After a peer is saved the roster holds it: what it brought is there.\<close>

definition peer_saved :: "bytes \<Rightarrow> peer \<Rightarrow> client \<Rightarrow> bool" where
  "peer_saved g p s \<longleftrightarrow> (\<exists>r \<in> set (t_peers s). pr_group_id r = g \<and> pr_device_id r = pe_device_id p \<and>
     (pe_revoked p \<longrightarrow> pr_revoked r) \<and> (pe_mailbox p \<noteq> None \<longrightarrow> pr_mailbox r \<noteq> None) \<and>
     (pe_write_cap p \<noteq> None \<longrightarrow> pr_write_cap r \<noteq> None) \<and> (pe_hpke p \<noteq> None \<longrightarrow> pr_hpke r \<noteq> None))"

lemma save_peer_saved: "peer_saved g p (save_peer g p s)"
proof (cases "\<exists>r \<in> set (t_peers s). pr_group_id r = g \<and> pr_device_id r = pe_device_id p")
  case True
  then obtain r where r: "r \<in> set (t_peers s)" "pr_group_id r = g \<and> pr_device_id r = pe_device_id p" by blast
  show ?thesis
    unfolding peer_saved_def
    by (rule bexI [OF _ update_rows_member [OF r(1), of "\<lambda>r. pr_group_id r = g \<and> pr_device_id r = pe_device_id p"
        "\<lambda>r. r\<lparr>pr_mailbox := coalesce (pe_mailbox p) (pr_mailbox r), pr_write_cap := coalesce (pe_write_cap p) (pr_write_cap r),
             pr_hpke := coalesce (pe_hpke p) (pr_hpke r), pr_revoked := pr_revoked r \<or> pe_revoked p\<rparr>",
        THEN subst [where P = "\<lambda>x. _ \<in> set x", rotated]]])
      (use r True in \<open>auto simp: save_peer_def upsert_row_def list_ex_iff coalesce_def\<close>)
next
  case False
  then show ?thesis by (auto simp: peer_saved_def save_peer_def upsert_row_def list_ex_iff)
qed

lemma peer_saved_grows: "peer_saved g p s \<Longrightarrow> roster_grows s s' \<Longrightarrow> peer_saved g p s'"
proof -
  assume p: "peer_saved g p s" and g: "roster_grows s s'"
  from p obtain q where q: "q \<in> set (t_peers s)" and l: "pr_group_id q = g" "pr_device_id q = pe_device_id p"
      "pe_revoked p \<longrightarrow> pr_revoked q" "pe_mailbox p \<noteq> None \<longrightarrow> pr_mailbox q \<noteq> None"
      "pe_write_cap p \<noteq> None \<longrightarrow> pr_write_cap q \<noteq> None" "pe_hpke p \<noteq> None \<longrightarrow> pr_hpke q \<noteq> None"
    unfolding peer_saved_def by blast
  from q g obtain q' where q': "q' \<in> set (t_peers s')" "peer_kept q q'" unfolding roster_grows_def by blast
  show "peer_saved g p s'"
    unfolding peer_saved_def by (rule bexI [OF _ q'(1)]) (use q'(2) l in \<open>simp add: peer_kept_def\<close>)
qed

lemma save_peers_saved:
  "op_for ps (\<lambda>p. op_modify (save_peer g p)) s = (r, s') \<Longrightarrow>
     r = Inr () \<and> roster_grows s s' \<and> (\<forall>p \<in> set ps. peer_saved g p s')"
proof (induction ps arbitrary: s)
  case Nil
  then show ?case by (simp add: roster.same)
next
  case (Cons p ps)
  then have e: "op_for ps (\<lambda>p. op_modify (save_peer g p)) (save_peer g p s) = (r, s')"
    by (simp only: op_for.simps op_then_Inr [OF op_modify_apply])
  show ?case
    using Cons.IH [OF e] roster.compose [OF save_peer_roster] peer_saved_grows [OF save_peer_saved] by auto
qed

lemma save_peers_conversations:
  "op_for ps (\<lambda>p. op_modify (save_peer g p)) s = (r, s') \<Longrightarrow> t_conversations s' = t_conversations s"
proof (induction ps arbitrary: s)
  case (Cons p ps)
  then have "op_for ps (\<lambda>p. op_modify (save_peer g p)) (save_peer g p s) = (r, s')"
    by (simp only: op_for.simps op_then_Inr [OF op_modify_apply])
  from Cons.IH [OF this] show ?case by (simp add: save_peer_def)
qed simp

lemma save_conversation_row_there:
  "\<exists>cv \<in> set (t_conversations (save_conversation_row now c s)). cv_group_id cv = cn_group_id c \<and> (cn_creator c \<longrightarrow> cv_creator cv)"
proof (cases "\<exists>r \<in> set (t_conversations s). cv_group_id r = cn_group_id c")
  case True
  then obtain r where r: "r \<in> set (t_conversations s)" "cv_group_id r = cn_group_id c" by blast
  then show ?thesis
    using True update_rows_member [OF r(1), of "\<lambda>r. cv_group_id r = cn_group_id c" "\<lambda>r. r\<lparr>cv_creator := cv_creator r \<or> cn_creator c\<rparr>"]
    by (auto simp: save_conversation_row_def upsert_row_def list_ex_iff intro!: bexI [rotated])
next
  case False
  then show ?thesis by (auto simp: save_conversation_row_def upsert_row_def list_ex_iff)
qed

lemma contact_seen_roster: "contact_seen now i root s = (r, s') \<Longrightarrow> roster_grows s s' \<and> t_peers s' = t_peers s \<and> t_conversations s' = t_conversations s"
  by (auto simp: contact_seen_def roster_same split: option.splits if_splits)

lemma contacts_seen_roster:
  "op_for ps (\<lambda>p. if P p then contact_seen now (pe_identity p) (pe_root_public p) else op_return ()) s = (r, s') \<Longrightarrow>
     roster_grows s s' \<and> t_peers s' = t_peers s \<and> t_conversations s' = t_conversations s"
proof (induction ps arbitrary: s)
  case Nil
  then show ?case by (simp add: roster.same)
next
  case (Cons p ps)
  obtain q t where m: "(if P p then contact_seen now (pe_identity p) (pe_root_public p) else op_return ()) s = (q, t)"
    by fastforce
  then have t: "roster_grows s t \<and> t_peers t = t_peers s \<and> t_conversations t = t_conversations s"
    using contact_seen_roster [of now "pe_identity p" "pe_root_public p" s q t] by (auto simp: roster.same split: if_splits)
  show ?case
  proof (cases q)
    case (Inl e)
    with m Cons.prems t show ?thesis by (simp add: op_then_Inl)
  next
    case (Inr u)
    with m Cons.prems have "op_for ps (\<lambda>p. if P p then contact_seen now (pe_identity p) (pe_root_public p) else op_return ()) t = (r, s')"
      by (simp add: op_then_Inr)
    from Cons.IH [OF this] t show ?thesis using roster.compose by metis
  qed
qed

text \<open>Saving a conversation. The roster only grows: every peer on it stays with its identity and
  credential, a revoked peer stays revoked and a peer that can be routed to stays so, and no trust decision is
  undone. When the operation succeeds, every peer given is on the roster with what it brought, and the
  conversation is there, created here if it ever was. When it fails, because a verified contact came
  with another root key, the conversations and their rosters are untouched.\<close>

theorem conversation_save_roster:
  assumes "conversation_save now c s = (r, s')"
  shows "roster_grows s s' \<and> trust_grows s s' \<and>
    (if r = Inr () then (\<forall>p \<in> set (cn_peers c). peer_saved (cn_group_id c) p s') \<and>
        (\<exists>cv \<in> set (t_conversations s'). cv_group_id cv = cn_group_id c \<and> (cn_creator c \<longrightarrow> cv_creator cv))
     else t_peers s' = t_peers s \<and> t_conversations s' = t_conversations s)"
proof -
  let ?seen = "op_for (cn_peers c) (\<lambda>p. if pe_root_public p \<noteq> [] \<and> client_identity_id s \<noteq> Some (pe_identity p)
       then contact_seen now (pe_identity p) (pe_root_public p) else op_return ())"
  let ?save = "op_for (cn_peers c) (\<lambda>p. op_modify (save_peer (cn_group_id c) p))"
  obtain q t where q: "?seen s = (q, t)" by fastforce
  have t: "roster_grows s t \<and> t_peers t = t_peers s \<and> t_conversations t = t_conversations s"
    using contacts_seen_roster [OF q] .
  show ?thesis
  proof (cases q)
    case (Inl e)
    with q assms have "r = Inl e" "s' = t" by (simp_all add: conversation_save_def op_then_def)
    with t show ?thesis by (simp add: roster_trust)
  next
    case (Inr u)
    let ?t = "save_conversation_row now c t"
    have e: "?save ?t = (r, s')"
      using Inr q assms by (simp add: conversation_save_def op_then_def)
    note s' = save_peers_saved [OF e]
    have "roster_grows t ?t" by (rule roster_same) (simp_all add: save_conversation_row_def)
    then have g: "roster_grows s s'" using t s' roster.compose by metis
    have "\<exists>cv \<in> set (t_conversations ?t). cv_group_id cv = cn_group_id c \<and> (cn_creator c \<longrightarrow> cv_creator cv)"
      by (rule save_conversation_row_there)
    moreover have "t_conversations s' = t_conversations ?t"
      by (rule save_peers_conversations [OF e])
    ultimately show ?thesis using g s' roster_trust [OF g] by auto
  qed
qed


section \<open>Witnesses\<close>

definition demo_contact :: "bytes \<Rightarrow> bytes \<Rightarrow> bool \<Rightarrow> contact_row" where
  "demo_contact ident root verified = \<lparr>ct_identity_id = ident, ct_root_public = root, ct_name = None, ct_verified = verified,
     ct_verified_at = None, ct_first_seen = 0, ct_accepted = None, ct_verified_how = None\<rparr>"

theorem card_life_witness:
  "\<exists>s s1. card_redeem [7] 5 s = (Inr (Some \<lparr>oc_secret = [7], oc_kind = InPersonCard, oc_created_at = 0, oc_expires_at = 600,
       oc_used_at = Some 5, oc_revoked = False\<rparr>), s1) \<and> card_redeem [7] 6 s1 = (Inr None, s1)"
proof -
  define row where "row = \<lparr>cr_secret = [7::8 word], cr_kind = ''in-person'', cr_created_at = 0, cr_expires_at = 600,
    cr_used_at = None, cr_revoked = False\<rparr>"
  define s where "s = client_new\<lparr>t_contact_cards := [row]\<rparr>"
  define s1 where "s1 = s\<lparr>t_contact_cards := [row\<lparr>cr_used_at := Some 5\<rparr>]\<rparr>"
  let ?c = "\<lparr>oc_secret = [7::8 word], oc_kind = InPersonCard, oc_created_at = 0, oc_expires_at = 600, oc_used_at = Some 5, oc_revoked = False\<rparr>"
  have e: "card_redeem [7] 5 s = (Inr (Some ?c), s1)"
    by (simp add: card_redeem_def s_def s1_def row_def card_kind_parse_def coalesce_def)
  have "card_redeem [7] 6 s1 = (Inr None, s1)"
    using card_life [OF _ _ rtranclp.rtrancl_refl e rtranclp.rtrancl_refl, of row 6]
    by (simp add: s_def row_def contacts_ok_def cards_ok_def client_new_def)
  with e show ?thesis by blast
qed

text \<open>Two people whose profiles hold each other's root keys.\<close>

definition demo_person :: "bytes \<Rightarrow> bytes \<Rightarrow> client" where
  "demo_person seed other = client_new\<lparr>
     t_identity := Some \<lparr>ir_root_seed = Some seed, ir_root_public = ed_public demo_crypto seed,
       ir_identity_id = identity_id demo_crypto (ed_public demo_crypto seed)\<rparr>,
     t_contacts := [demo_contact [5] (ed_public demo_crypto other) False]\<rparr>"

lemma demo_person_reads:
  "root_public demo_crypto (demo_person a b) = Inr (Some (ed_public demo_crypto a))"
  "contact [5] (demo_person a b) = Some (contact_of_row (demo_contact [5] (ed_public demo_crypto b) False))"
  "contacts_ok (demo_person a b)"
  using demo_crypto_ok
  by (simp_all add: crypto_ok_def root_public_def demo_person_def contact_def contacts_def demo_contact_def
      contact_of_row_def contacts_ok_def)

theorem safety_number_comparison_witness:
  "\<exists>number bob'. safety_number_with demo_crypto [5] (demo_person [1] [2]) = Inr number \<and>
     contact_verify demo_crypto [5] number 100 (demo_person [2] [1]) = (Inr True, bob') \<and>
     contact_verify demo_crypto [5] (number @ ''0'') 100 (demo_person [2] [1]) = (Inr False, demo_person [2] [1])"
proof -
  let ?alice = "demo_person [1] [2]" and ?bob = "demo_person [2] [1]"
  obtain number where n: "safety_number_with demo_crypto [5] ?alice = Inr number"
    by (simp add: safety_number_with_def demo_person_reads)
  obtain r bob' where v: "contact_verify demo_crypto [5] number 100 ?bob = (r, bob')" by fastforce
  have "is_ascii_digit (CHR ''0'')" by code_simp
  then have "normalize_number (number @ ''0'') \<noteq> normalize_number number" by (simp add: normalize_number_def)
  from safety_number_comparison [OF demo_person_reads(3,1,2) _ demo_person_reads(1,2) _ n this v]
  have "r = Inr True \<and> contact_verify demo_crypto [5] (number @ ''0'') 100 ?bob = (Inr False, ?bob)"
    by (simp add: contact_of_row_def demo_contact_def)
  with n v show ?thesis by auto
qed

definition demo_peer :: peer where
  "demo_peer = \<lparr>pe_identity = [5], pe_device_id = [6], pe_credential_hash = [7], pe_root_public = [8], pe_mailbox = Some [9],
     pe_write_cap = Some [1], pe_hpke = Some [2], pe_revoked = False\<rparr>"

theorem conversation_save_roster_witness:
  "\<exists>s'. conversation_save 10 \<lparr>cn_group_id = [3], cn_creator = True, cn_peers = [demo_peer]\<rparr> (client_new\<lparr>t_contacts := [demo_contact [5] [8] True]\<rparr>) =
      (Inr (), s') \<and> peer_saved [3] demo_peer s' \<and>
    (\<exists>s''. conversation_save 11 \<lparr>cn_group_id = [3], cn_creator = True, cn_peers = [demo_peer\<lparr>pe_root_public := [0]\<rparr>]\<rparr> s' =
      (Inl (ContactRootMismatch (hex_of [5])), s'') \<and> t_peers s'' = t_peers s')"
proof -
  let ?s = "client_new\<lparr>t_contacts := [demo_contact [5] [8] True]\<rparr>"
  let ?c = "\<lparr>cn_group_id = [3], cn_creator = True, cn_peers = [demo_peer]\<rparr>"
  let ?d = "\<lparr>cn_group_id = [3], cn_creator = True, cn_peers = [demo_peer\<lparr>pe_root_public := [0]\<rparr>]\<rparr>"
  obtain r s' where e: "conversation_save 10 ?c ?s = (r, s')" by fastforce
  then have ok: "r = Inr ()" and c: "t_contacts s' = [demo_contact [5] [8] True]" and i: "t_identity s' = None"
    by (auto simp: conversation_save_def op_then_def contact_seen_def demo_contact_def demo_peer_def client_new_def
        client_identity_id_def save_conversation_row_def save_peer_def split: if_splits)
  obtain q s'' where f: "conversation_save 11 ?d s' = (q, s'')" by fastforce
  then have q: "q = Inl (ContactRootMismatch (hex_of [5]))"
    using c i by (auto simp: conversation_save_def op_then_def contact_seen_def demo_contact_def demo_peer_def client_identity_id_def)
  from conversation_save_roster [OF e] conversation_save_roster [OF f]
  have "peer_saved [3] demo_peer s'" "t_peers s'' = t_peers s'" using ok q by (auto split: if_splits)
  with e f ok q show ?thesis by blast
qed

end
