(* ===== verification/Client_Pairing.thy ===== *)
theory Client_Pairing
  imports Client_Devices
begin

text \<open>
  Linking a device: the rendezvous sessions of \<open>core/crates/arveil-core/src/client.rs\<close> and the progress of
  applying a grant, for a pairing session (\<open>pairing_completion\<close>) and for a grant received directly
  (\<open>link_completion\<close>).

  Shown: committing a session and cancelling it exclude each other, whatever happens in between; a
  completion only moves forward; a direct grant that crossed the commit point is resumed with the same
  bytes and refused with others.
\<close>

section \<open>Phases\<close>

datatype pairing_phase =
  Committing | LocalApplied | RealmSaved | EndpointStored | RealmEnrolled | MailboxStored | KeyPackagesPublished | PairingComplete

fun phase_num :: "pairing_phase \<Rightarrow> int" where
  "phase_num Committing = 1"
| "phase_num LocalApplied = 2"
| "phase_num RealmSaved = 3"
| "phase_num EndpointStored = 4"
| "phase_num RealmEnrolled = 5"
| "phase_num MailboxStored = 6"
| "phase_num KeyPackagesPublished = 7"
| "phase_num PairingComplete = 8"

definition phase_from_db :: "int \<Rightarrow> pairing_phase option" where
  "phase_from_db v =
     (if v = 1 then Some Committing else if v = 2 then Some LocalApplied else if v = 3 then Some RealmSaved
      else if v = 4 then Some EndpointStored else if v = 5 then Some RealmEnrolled else if v = 6 then Some MailboxStored
      else if v = 7 then Some KeyPackagesPublished else if v = 8 then Some PairingComplete else None)"

lemma phase_num_inject: "phase_num a = phase_num b \<longleftrightarrow> a = b"
  by (cases a; cases b) simp_all

lemma phase_from_db_num [simp]: "phase_from_db (phase_num p) = Some p"
  by (cases p) (simp_all add: phase_from_db_def)

lemma phase_from_db_first [simp]: "phase_from_db 1 = Some Committing"
  by (simp add: phase_from_db_def)

lemma phase_from_db_Some: "phase_from_db v = Some p \<longleftrightarrow> v = phase_num p"
proof
  show "phase_from_db v = Some p \<Longrightarrow> v = phase_num p"
    by (auto simp: phase_from_db_def split: if_splits)
qed simp

lemma phase_num_pos: "1 \<le> phase_num p"
  by (cases p) simp_all

text \<open>The order the phases are declared in, which Rust derives.\<close>

instantiation pairing_phase :: linorder
begin

definition less_eq_pairing_phase :: "pairing_phase \<Rightarrow> pairing_phase \<Rightarrow> bool" where
  "a \<le> b \<longleftrightarrow> phase_num a \<le> phase_num b"

definition less_pairing_phase :: "pairing_phase \<Rightarrow> pairing_phase \<Rightarrow> bool" where
  "a < b \<longleftrightarrow> phase_num a < phase_num b"

instance
  by standard (auto simp: less_eq_pairing_phase_def less_pairing_phase_def phase_num_inject)

end

datatype pairing_cancellation_status = PairingCancelled | AlreadyCommitted | MissingSession

section \<open>A pending grant\<close>

definition pairing_pending_save :: "string \<Rightarrow> bytes \<Rightarrow> bytes \<Rightarrow> bytes \<Rightarrow> unit client_op" where
  "pairing_pending_save sas credential manifest root_pk =
     op_modify (\<lambda>s. s\<lparr>t_pairing_pending := Some \<lparr>pp_sas = sas, pp_credential = credential, pp_manifest = manifest,
       pp_root_public = root_pk\<rparr>\<rparr>)"

definition pairing_pending :: "client \<Rightarrow> pending_pairing option" where
  "pairing_pending s = t_pairing_pending s"

definition pairing_pending_clear :: "unit client_op" where
  "pairing_pending_clear = op_modify (\<lambda>s. s\<lparr>t_pairing_pending := None\<rparr>)"

section \<open>Sessions\<close>

record pairing_session_state =
  pss_session_id :: bytes
  pss_code :: string
  pss_expires_at :: u64
  pss_sas :: "string option"
  pss_credential :: "bytes option"
  pss_manifest :: "bytes option"
  pss_root_public :: "bytes option"

definition session_of_row :: "pairing_session_row \<Rightarrow> pairing_session_state" where
  "session_of_row r = \<lparr>pss_session_id = ps_session_id r, pss_code = ps_code r, pss_expires_at = as_u64 (ps_expires_at r),
     pss_sas = ps_sas r, pss_credential = ps_credential r, pss_manifest = ps_manifest r, pss_root_public = ps_root_public r\<rparr>"

text \<open>\<open>INSERT OR REPLACE\<close> deletes the row of the same key and appends the new one.\<close>

definition pairing_session_start :: "bytes \<Rightarrow> string \<Rightarrow> u64 \<Rightarrow> unit client_op" where
  "pairing_session_start session_id code expires_at =
     op_modify (\<lambda>s. s\<lparr>t_pairing_sessions := filter (\<lambda>r. ps_session_id r \<noteq> session_id) (t_pairing_sessions s) @
       [\<lparr>ps_session_id = session_id, ps_code = code, ps_expires_at = as_i64 expires_at, ps_sas = None,
         ps_credential = None, ps_manifest = None, ps_root_public = None\<rparr>]\<rparr>)"

definition pairing_session_ready :: "bytes \<Rightarrow> string \<Rightarrow> bytes \<Rightarrow> bytes \<Rightarrow> bytes \<Rightarrow> bool client_op" where
  "pairing_session_ready session_id sas credential manifest root_pk s =
     (Inr (count_rows (\<lambda>r. ps_session_id r = session_id) (t_pairing_sessions s) = 1),
      s\<lparr>t_pairing_sessions := update_rows (\<lambda>r. ps_session_id r = session_id)
        (\<lambda>r. r\<lparr>ps_sas := Some sas, ps_credential := Some credential, ps_manifest := Some manifest,
             ps_root_public := Some root_pk\<rparr>) (t_pairing_sessions s)\<rparr>)"

definition pairing_session :: "bytes \<Rightarrow> client \<Rightarrow> pairing_session_state option" where
  "pairing_session session_id s =
     map_option session_of_row (find (\<lambda>r. ps_session_id r = session_id) (t_pairing_sessions s))"

definition latest_pairing_session :: "client \<Rightarrow> pairing_session_state option" where
  "latest_pairing_session s =
     (case rev (t_pairing_sessions s) of [] \<Rightarrow> None | r # _ \<Rightarrow> Some (session_of_row r))"

definition pairing_session_clear :: "bytes \<Rightarrow> bool client_op" where
  "pairing_session_clear session_id = transactionally (\<lambda>s.
     (Inr (count_rows (\<lambda>r. ps_session_id r = session_id) (t_pairing_sessions s) = 1),
      s\<lparr>t_pairing_completion := (t_pairing_completion s)(session_id := None),
        t_pairing_sessions := filter (\<lambda>r. ps_session_id r \<noteq> session_id) (t_pairing_sessions s)\<rparr>))"

section \<open>Completing a session\<close>

definition session_ready :: "pairing_session_row \<Rightarrow> bool" where
  "session_ready r \<longleftrightarrow> ps_sas r \<noteq> None \<and> ps_credential r \<noteq> None \<and> ps_manifest r \<noteq> None \<and> ps_root_public r \<noteq> None"

definition pairing_completion_begin :: "bytes \<Rightarrow> pairing_phase option client_op" where
  "pairing_completion_begin session_id = transactionally (\<lambda>s.
     if count_rows (\<lambda>r. ps_session_id r = session_id \<and> session_ready r) (t_pairing_sessions s) \<noteq> 1 then (Inr None, s)
     else case t_pairing_completion s session_id of
         Some v \<Rightarrow> (Inr (phase_from_db v), s)
       | None \<Rightarrow> (Inr (Some Committing),
           s\<lparr>t_pairing_completion := (t_pairing_completion s)(session_id \<mapsto> phase_num Committing)\<rparr>))"

definition pairing_completion_phase :: "bytes \<Rightarrow> client \<Rightarrow> pairing_phase option" where
  "pairing_completion_phase session_id s = Option.bind (t_pairing_completion s session_id) phase_from_db"

definition pairing_completion_advance :: "bytes \<Rightarrow> pairing_phase \<Rightarrow> bool client_op" where
  "pairing_completion_advance session_id phase s =
     (case t_pairing_completion s session_id of
        None \<Rightarrow> (Inr False, s)
      | Some v \<Rightarrow> (Inr True, s\<lparr>t_pairing_completion := (t_pairing_completion s)(session_id \<mapsto> max v (phase_num phase))\<rparr>))"

definition pairing_session_cancel :: "bytes \<Rightarrow> pairing_cancellation_status client_op" where
  "pairing_session_cancel session_id = transactionally (\<lambda>s.
     if t_pairing_completion s session_id \<noteq> None then (Inr AlreadyCommitted, s)
     else (Inr (if count_rows (\<lambda>r. ps_session_id r = session_id) (t_pairing_sessions s) = 1 then PairingCancelled else MissingSession),
           s\<lparr>t_pairing_sessions := filter (\<lambda>r. ps_session_id r \<noteq> session_id) (t_pairing_sessions s)\<rparr>))"

section \<open>Completing a direct grant\<close>

definition link_completion_begin :: "bytes \<Rightarrow> bytes \<Rightarrow> bytes \<Rightarrow> pairing_phase client_op" where
  "link_completion_begin credential manifest root_pk = transactionally (\<lambda>s.
     case t_link_completion s of
       Some l \<Rightarrow>
         if lk_credential l \<noteq> credential \<or> lk_manifest l \<noteq> manifest \<or> lk_root_public l \<noteq> root_pk
         then (Inl GrantMismatch, s)
         else (ok_or (phase_from_db (lk_phase l)) (InvalidCompletionPhase (lk_phase l)), s)
     | None \<Rightarrow> (Inr Committing, s\<lparr>t_link_completion := Some \<lparr>lk_credential = credential, lk_manifest = manifest,
         lk_root_public = root_pk, lk_phase = phase_num Committing\<rparr>\<rparr>))"

definition link_completion_phase :: "client \<Rightarrow> client_error + pairing_phase option" where
  "link_completion_phase s =
     (case t_link_completion s of
        None \<Rightarrow> Inr None
      | Some l \<Rightarrow> and_then (ok_or (phase_from_db (lk_phase l)) (InvalidCompletionPhase (lk_phase l))) (\<lambda>p. Inr (Some p)))"

definition link_completion_advance :: "pairing_phase \<Rightarrow> bool client_op" where
  "link_completion_advance phase s =
     (case t_link_completion s of
        None \<Rightarrow> (Inr False, s)
      | Some l \<Rightarrow> (Inr True, s\<lparr>t_link_completion := Some (l\<lparr>lk_phase := max (lk_phase l) (phase_num phase)\<rparr>)\<rparr>))"

definition link_completion_abort_if_unapplied :: "bool client_op" where
  "link_completion_abort_if_unapplied s =
     (case t_link_completion s of
        Some l \<Rightarrow> if lk_phase l = phase_num Committing then (Inr True, s\<lparr>t_link_completion := None\<rparr>) else (Inr False, s)
      | None \<Rightarrow> (Inr False, s))"

lemmas pairing_defs = pairing_pending_save_def pairing_pending_clear_def pairing_session_start_def
  pairing_session_ready_def pairing_session_clear_def pairing_completion_begin_def pairing_completion_advance_def
  pairing_session_cancel_def link_completion_begin_def link_completion_advance_def link_completion_abort_if_unapplied_def

section \<open>The tables stay well formed\<close>

text \<open>One row per session, a completion only for a session that is there (the foreign key), and stored
  phases that the code knows.\<close>

definition phases_known :: "client \<Rightarrow> bool" where
  "phases_known s \<longleftrightarrow> (\<forall>i v. t_pairing_completion s i = Some v \<longrightarrow> phase_from_db v \<noteq> None) \<and>
     (\<forall>l. t_link_completion s = Some l \<longrightarrow> phase_from_db (lk_phase l) \<noteq> None)"

definition pairing_ok :: "client \<Rightarrow> bool" where
  "pairing_ok s \<longleftrightarrow> distinct (map ps_session_id (t_pairing_sessions s)) \<and>
     dom (t_pairing_completion s) \<subseteq> ps_session_id ` set (t_pairing_sessions s) \<and> phases_known s"

text \<open>The operations of a linking, as steps. A step of \<open>linking_step A\<close> clears no session of \<open>A\<close>.\<close>

inductive linking_step :: "bytes set \<Rightarrow> client \<Rightarrow> client \<Rightarrow> bool" for A where
  "linking_step A s (snd (pairing_pending_save sas c m r s))"
| "linking_step A s (snd (pairing_pending_clear s))"
| "linking_step A s (snd (pairing_session_start i code e s))"
| "linking_step A s (snd (pairing_session_ready i sas c m r s))"
| "linking_step A s (snd (pairing_completion_begin i s))"
| "linking_step A s (snd (pairing_completion_advance i p s))"
| "linking_step A s (snd (pairing_session_cancel i s))"
| "linking_step A s (snd (link_completion_begin c m r s))"
| "linking_step A s (snd (link_completion_advance p s))"
| "linking_step A s (snd (link_completion_abort_if_unapplied s))"
| "i \<notin> A \<Longrightarrow> linking_step A s (snd (pairing_session_clear i s))"

lemma max_known: "\<exists>y. phase_from_db v = Some y \<Longrightarrow> \<exists>y. phase_from_db (max v (phase_num p)) = Some y"
  by (auto simp: phase_from_db_Some max_def)

lemma completions_without:
  "dom C \<subseteq> k ` set rows \<Longrightarrow> C i = None \<Longrightarrow> dom C \<subseteq> k ` set (filter (\<lambda>r. k r \<noteq> i) rows)"
  by (auto simp: image_iff) (metis (no_types, lifting) domI imageE option.distinct(1) subsetD)

lemma linking_step_ok:
  assumes "linking_step A s s'" and "pairing_ok s"
  shows "pairing_ok s'"
  using assms
proof cases
  case (3 i code e)
  with assms(2) show ?thesis by (auto simp: pairing_ok_def phases_known_def pairing_defs distinct_map_filter_fst)
next
  case (4 i sas c m r)
  let ?f = "\<lambda>r'. r'\<lparr>ps_sas := Some sas, ps_credential := Some c, ps_manifest := Some m, ps_root_public := Some r\<rparr>"
  have "map ps_session_id (t_pairing_sessions s') = map ps_session_id (t_pairing_sessions s)"
    by (simp add: 4 pairing_defs)
  then have "distinct (map ps_session_id (t_pairing_sessions s')) \<and>
      ps_session_id ` set (t_pairing_sessions s') = ps_session_id ` set (t_pairing_sessions s)"
    using assms(2) by (simp add: pairing_ok_def flip: set_map)
  with assms(2) show ?thesis by (simp add: pairing_ok_def phases_known_def) (simp add: 4 pairing_defs)
next
  case (5 i)
  have "count_rows (\<lambda>r. ps_session_id r = i \<and> session_ready r) (t_pairing_sessions s) = 1 \<Longrightarrow> i \<in> ps_session_id ` set (t_pairing_sessions s)"
    by (auto simp: count_rows_def length_Suc_conv filter_eq_Cons_iff)
  with assms(2) 5 show ?thesis
    by (auto simp: pairing_ok_def phases_known_def pairing_defs transactionally_def split: option.splits)
next
  case (6 i p)
  with assms(2) show ?thesis
    by (auto simp: pairing_ok_def phases_known_def pairing_defs max_known split: option.splits)
next
  case (7 i)
  with assms(2) completions_without [of "t_pairing_completion s" ps_session_id "t_pairing_sessions s" i] show ?thesis
    by (auto simp: pairing_ok_def phases_known_def pairing_defs transactionally_def distinct_map_filter_fst split: if_splits)
next
  case (9 p)
  with assms(2) show ?thesis
    by (auto simp: pairing_ok_def phases_known_def pairing_defs max_known split: option.splits)
qed (auto simp: pairing_ok_def phases_known_def pairing_defs transactionally_def distinct_map_filter_fst
    split: option.splits if_splits)

section \<open>Completions move forward\<close>

definition completion_grows :: "bytes \<Rightarrow> client \<Rightarrow> client \<Rightarrow> bool" where
  "completion_grows i s s' \<longleftrightarrow> (\<forall>v. t_pairing_completion s i = Some v \<longrightarrow>
     (\<exists>w. t_pairing_completion s' i = Some w \<and> v \<le> w))"

definition same_grant :: "link_row \<Rightarrow> link_row \<Rightarrow> bool" where
  "same_grant l l' \<longleftrightarrow> lk_credential l' = lk_credential l \<and> lk_manifest l' = lk_manifest l \<and> lk_root_public l' = lk_root_public l"

definition grant_grows :: "client \<Rightarrow> client \<Rightarrow> bool" where
  "grant_grows s s' \<longleftrightarrow> (\<forall>l. t_link_completion s = Some l \<and> 1 < lk_phase l \<longrightarrow>
     (\<exists>l'. t_link_completion s' = Some l' \<and> same_grant l l' \<and> lk_phase l \<le> lk_phase l'))"

interpretation completion: table_order "completion_grows i" for i
proof
  show "completion_grows i s t \<Longrightarrow> completion_grows i t u \<Longrightarrow> completion_grows i s u" for s t u
    unfolding completion_grows_def by (meson order.trans)
qed (simp add: completion_grows_def)

interpretation grant: table_order grant_grows
proof
  show "grant_grows s t \<Longrightarrow> grant_grows t u \<Longrightarrow> grant_grows s u" for s t u :: client
    unfolding grant_grows_def same_grant_def by (smt (verit, ccfv_threshold))
qed (auto simp: grant_grows_def same_grant_def)

lemma grant_same: "t_link_completion s' = t_link_completion s \<Longrightarrow> grant_grows s s'"
  by (simp add: grant_grows_def same_grant_def)

lemma completion_same: "t_pairing_completion s' i = t_pairing_completion s i \<Longrightarrow> completion_grows i s s'"
  by (simp add: completion_grows_def)

lemma pairing_frames:
  "t_link_completion (snd (pairing_pending_save sas c m r s)) = t_link_completion s"
  "t_link_completion (snd (pairing_pending_clear s)) = t_link_completion s"
  "t_link_completion (snd (pairing_session_start i code e s)) = t_link_completion s"
  "t_link_completion (snd (pairing_session_ready i sas c m r s)) = t_link_completion s"
  "t_link_completion (snd (pairing_completion_begin i s)) = t_link_completion s"
  "t_link_completion (snd (pairing_completion_advance i p s)) = t_link_completion s"
  "t_link_completion (snd (pairing_session_cancel i s)) = t_link_completion s"
  "t_link_completion (snd (pairing_session_clear i s)) = t_link_completion s"
  "t_pairing_completion (snd (pairing_pending_save sas c m r s)) = t_pairing_completion s"
  "t_pairing_completion (snd (pairing_pending_clear s)) = t_pairing_completion s"
  "t_pairing_completion (snd (pairing_session_start i code e s)) = t_pairing_completion s"
  "t_pairing_completion (snd (pairing_session_ready i sas c m r s)) = t_pairing_completion s"
  "t_pairing_completion (snd (pairing_session_cancel i s)) = t_pairing_completion s"
  "t_pairing_completion (snd (link_completion_begin c m r s)) = t_pairing_completion s"
  "t_pairing_completion (snd (link_completion_advance p s)) = t_pairing_completion s"
  "t_pairing_completion (snd (link_completion_abort_if_unapplied s)) = t_pairing_completion s"
  "t_pairing_completion (snd (pairing_session_clear i s)) = (t_pairing_completion s)(i := None)"
  by (simp_all add: pairing_defs transactionally_def ok_or_def split: option.splits if_splits sum.splits)

lemma pairing_moves:
  "completion_grows i s (snd (pairing_completion_begin j s))"
  "completion_grows i s (snd (pairing_completion_advance j p s))"
  "grant_grows s (snd (link_completion_begin c m r s))"
  "grant_grows s (snd (link_completion_advance p s))"
  "grant_grows s (snd (link_completion_abort_if_unapplied s))"
  by (auto simp: completion_grows_def grant_grows_def same_grant_def pairing_defs transactionally_def ok_or_def
      split: option.split sum.split)

lemma linking_step_grows:
  assumes "linking_step A s s'"
  shows "grant_grows s s'" and "i \<in> A \<Longrightarrow> completion_grows i s s'"
proof -
  show "grant_grows s s'" using assms by cases (auto simp: pairing_moves pairing_frames intro: grant_same)
  show "i \<in> A \<Longrightarrow> completion_grows i s s'"
    using assms by cases (auto simp: pairing_moves pairing_frames intro: completion_same)
qed

lemma linking_runs:
  assumes "(linking_step A)\<^sup>*\<^sup>* s s'"
  shows "pairing_ok s \<Longrightarrow> pairing_ok s'" and "grant_grows s s'" and "i \<in> A \<Longrightarrow> completion_grows i s s'"
proof -
  show "pairing_ok s \<Longrightarrow> pairing_ok s'" using assms by (induction rule: rtranclp_induct) (auto intro: linking_step_ok)
  show "grant_grows s s'" by (rule grant.grows_runs [OF linking_step_grows(1) assms])
  show "i \<in> A \<Longrightarrow> completion_grows i s s'" by (rule completion.grows_runs [OF linking_step_grows(2) assms])
qed

section \<open>Commit and cancel exclude each other\<close>

lemma session_rows_one:
  assumes "distinct (map ps_session_id rows)"
  shows "count_rows (\<lambda>r. ps_session_id r = i) rows = (if i \<in> ps_session_id ` set rows then 1 else 0)"
  using assms by (induction rows) (auto simp: count_rows_def filter_empty_conv rev_image_eqI)

lemma session_known:
  assumes "t_pairing_completion s i = Some v" and "pairing_ok s"
  obtains p where "v = phase_num p" "pairing_completion_phase i s = Some p"
proof -
  have "phase_from_db v \<noteq> None" using assms by (simp add: pairing_ok_def phases_known_def)
  then obtain p where "phase_from_db v = Some p" by blast
  with assms(1) that [of p] show thesis by (simp add: pairing_completion_phase_def phase_from_db_Some)
qed

text \<open>C19. A session is committed or cancelled, never both. Once the commit of a session succeeded, no
  later cancellation succeeds, whatever else the client does to its sessions, until that session itself is
  cleared: the cancellation reports the commit and changes nothing, and the phase of the completion only
  moved forward. Clearing it removes the session with its completion; after that there is nothing left to cancel or commit.\<close>

theorem pairing_commit_excludes_cancel:
  assumes "pairing_ok s" and "pairing_completion_begin i s = (Inr (Some p), s1)"
    and "(linking_step {i})\<^sup>*\<^sup>* s1 s2"
  shows "pairing_session_cancel i s2 = (Inr AlreadyCommitted, s2) \<and>
    (\<exists>q \<ge> p. pairing_completion_phase i s2 = Some q \<and> (\<exists>r. pairing_session i s2 = Some r)) \<and>
    (\<exists>s3. pairing_session_clear i s2 = (Inr True, s3) \<and> pairing_session i s3 = None \<and>
      pairing_session_cancel i s3 = (Inr MissingSession, s3) \<and> pairing_completion_begin i s3 = (Inr None, s3))"
proof -
  have "linking_step {i} s s1"
    using linking_step.intros(5) [of "{i}" s i] assms(2) by simp
  then have ok: "pairing_ok s1" "pairing_ok s2"
    using linking_step_ok assms(1) linking_runs(1) [OF assms(3)] by blast+
  have "t_pairing_completion s1 i = Some (phase_num p)"
    using assms(2) by (auto simp: pairing_completion_begin_def transactionally_def phase_from_db_Some
        split: if_splits option.splits)
  then obtain w where w: "t_pairing_completion s2 i = Some w" "phase_num p \<le> w"
    using linking_runs(3) [OF assms(3), of i] by (auto simp: completion_grows_def)
  obtain q where q: "w = phase_num q" "pairing_completion_phase i s2 = Some q"
    using session_known [OF w(1) ok(2)] by blast
  have mem: "i \<in> ps_session_id ` set (t_pairing_sessions s2)" using w(1) ok(2) by (auto simp: pairing_ok_def)
  then have "find (\<lambda>r. ps_session_id r = i) (t_pairing_sessions s2) \<noteq> None" by (auto simp: find_None_iff)
  then have "\<exists>r. pairing_session i s2 = Some r" by (auto simp: pairing_session_def)
  moreover have "count_rows (\<lambda>r. ps_session_id r = i) (t_pairing_sessions s2) = 1"
    using session_rows_one [of "t_pairing_sessions s2" i] ok(2) mem by (simp add: pairing_ok_def)
  then have "\<exists>s3. pairing_session_clear i s2 = (Inr True, s3) \<and> pairing_session i s3 = None \<and>
      pairing_session_cancel i s3 = (Inr MissingSession, s3) \<and> pairing_completion_begin i s3 = (Inr None, s3)"
    by (simp add: pairing_session_clear_def transactionally_def pairing_session_def pairing_session_cancel_def
        pairing_completion_begin_def find_None_iff count_rows_def filter_empty_conv conj_commute)
  ultimately show ?thesis
    using w q by (auto simp: pairing_session_cancel_def transactionally_def less_eq_pairing_phase_def)
qed

text \<open>The other way round: after a cancellation succeeded, a commit of that session is refused and
  leaves no trace, until the realm starts the session again and the peer's grant is attached to it.\<close>

theorem pairing_cancel_excludes_commit:
  assumes "pairing_ok s" and "pairing_session_cancel i s = (Inr PairingCancelled, s1)"
  shows "pairing_completion_begin i s1 = (Inr None, s1) \<and> pairing_session i s1 = None \<and>
    fst (pairing_session_ready i sas c m r s1) = Inr False \<and>
    (\<forall>j. j \<noteq> i \<longrightarrow> pairing_session j s1 = pairing_session j s)"
proof -
  have s1: "s1 = s\<lparr>t_pairing_sessions := filter (\<lambda>r. ps_session_id r \<noteq> i) (t_pairing_sessions s)\<rparr>"
    using assms(2) by (auto simp: pairing_session_cancel_def transactionally_def split: if_splits)
  have "filter (\<lambda>r. ps_session_id r = i \<and> P r) (filter (\<lambda>r. ps_session_id r \<noteq> i) rows) = []" for P and rows :: "pairing_session_row list"
    by (simp add: filter_empty_conv)
  then have c: "count_rows (\<lambda>r. ps_session_id r = i \<and> P r) (t_pairing_sessions s1) = 0" for P
    by (simp add: count_rows_def s1)
  have "find (\<lambda>r. ps_session_id r = j) (filter (\<lambda>r. ps_session_id r \<noteq> i) rows) = find (\<lambda>r. ps_session_id r = j) rows"
    if "j \<noteq> i" for j and rows :: "pairing_session_row list"
    using that by (induction rows) auto
  moreover have "find (\<lambda>r. ps_session_id r = i) (filter (\<lambda>r. ps_session_id r \<noteq> i) rows) = None" for rows :: "pairing_session_row list"
    by (simp add: find_None_iff)
  ultimately show ?thesis
    using c c [of "\<lambda>_. True"]
    by (simp add: pairing_completion_begin_def transactionally_def pairing_session_def pairing_session_ready_def s1)
qed

text \<open>A direct grant past the commit point. When the completion of a direct grant advanced beyond
  its first phase, then after any steps a resumption with the same bytes continues at that phase or a
  later one, a different grant is refused, and the grant can no longer be forgotten.\<close>

theorem direct_grant_resumes:
  assumes "pairing_ok s" and "link_completion_begin c m r s = (Inr p, s1)"
    and "link_completion_advance q s1 = (Inr True, s2)" and "Committing < q"
    and "(linking_step A)\<^sup>*\<^sup>* s2 s3" and "(c', m', r') \<noteq> (c, m, r)"
  shows "(\<exists>p' \<ge> max p q. link_completion_begin c m r s3 = (Inr p', s3) \<and> link_completion_phase s3 = Inr (Some p')) \<and>
    link_completion_begin c' m' r' s3 = (Inl GrantMismatch, s3) \<and>
    link_completion_abort_if_unapplied s3 = (Inr False, s3)"
proof -
  have "linking_step A s s1" "linking_step A s1 s2"
    using linking_step.intros(8) [of A s c m r] linking_step.intros(9) [of A s1 q] assms(2,3) by simp_all
  then have ok: "pairing_ok s3"
    using linking_step_ok assms(1) linking_runs(1) [OF assms(5)] by blast
  have "\<exists>l. t_link_completion s1 = Some l \<and> lk_credential l = c \<and> lk_manifest l = m \<and> lk_root_public l = r \<and> lk_phase l = phase_num p"
    using assms(2) by (auto simp: link_completion_begin_def transactionally_def ok_or_def phase_from_db_Some
        split: option.splits if_splits sum.splits)
  then obtain l where l: "t_link_completion s1 = Some l" "lk_credential l = c" "lk_manifest l = m" "lk_root_public l = r"
      "lk_phase l = phase_num p" by blast
  have l2: "t_link_completion s2 = Some (l\<lparr>lk_phase := max (phase_num p) (phase_num q)\<rparr>)"
    using assms(3) l by (auto simp: link_completion_advance_def)
  then obtain l' where l': "t_link_completion s3 = Some l'" "same_grant l l'" "max (phase_num p) (phase_num q) \<le> lk_phase l'"
    using linking_runs(2) [OF assms(5)] assms(4) by (auto simp: grant_grows_def same_grant_def less_pairing_phase_def)
  obtain p' where p': "lk_phase l' = phase_num p'"
    using ok l'(1) by (auto simp: pairing_ok_def phases_known_def phase_from_db_Some)
  have pos: "lk_phase l' \<noteq> 1" using l'(3) assms(4) by (simp add: less_pairing_phase_def)
  have ge: "max p q \<le> p'" using l'(3) by (simp add: p' less_eq_pairing_phase_def max_def split: if_splits)
  show ?thesis
    using l' l(2-4) p' ge pos assms(6)
    by (auto simp: link_completion_begin_def link_completion_phase_def link_completion_abort_if_unapplied_def
        transactionally_def same_grant_def intro!: exI [of _ p'])
qed

section \<open>Witnesses\<close>

definition demo_session :: client where
  "demo_session = client_new\<lparr>t_pairing_sessions := [\<lparr>ps_session_id = [1], ps_code = ''c'', ps_expires_at = 9, ps_sas = Some ''s'',
     ps_credential = Some [2], ps_manifest = Some [3], ps_root_public = Some [4]\<rparr>]\<rparr>"

lemma demo_session_ok: "pairing_ok demo_session"
  by (simp add: demo_session_def pairing_ok_def phases_known_def client_new_def)

theorem pairing_commit_excludes_cancel_witness:
  "\<exists>s1. pairing_completion_begin [1] demo_session = (Inr (Some Committing), s1) \<and>
     pairing_session_cancel [1] (snd (pairing_completion_advance [1] RealmSaved s1)) =
       (Inr AlreadyCommitted, snd (pairing_completion_advance [1] RealmSaved s1))"
proof -
  obtain s1 where b: "pairing_completion_begin [1] demo_session = (Inr (Some Committing), s1)"
    by (simp add: pairing_completion_begin_def transactionally_def demo_session_def session_ready_def count_rows_def client_new_def)
  from pairing_commit_excludes_cancel [OF demo_session_ok b r_into_rtranclp [of "linking_step {[1]}",
      OF linking_step.intros(6) [of _ s1 "[1]" RealmSaved]]] b
  show ?thesis by blast
qed

theorem pairing_cancel_excludes_commit_witness:
  "\<exists>s1. pairing_session_cancel [1] demo_session = (Inr PairingCancelled, s1) \<and> pairing_completion_begin [1] s1 = (Inr None, s1)"
proof -
  obtain s1 where b: "pairing_session_cancel [1] demo_session = (Inr PairingCancelled, s1)"
    by (simp add: pairing_session_cancel_def transactionally_def demo_session_def count_rows_def client_new_def)
  from pairing_cancel_excludes_commit [OF demo_session_ok b] b show ?thesis by blast
qed

theorem direct_grant_resumes_witness:
  "\<exists>s1 s2. link_completion_begin [1] [2] [3] client_new = (Inr Committing, s1) \<and>
     link_completion_advance LocalApplied s1 = (Inr True, s2) \<and>
     link_completion_begin [1] [2] [4] s2 = (Inl GrantMismatch, s2) \<and>
     link_completion_abort_if_unapplied s2 = (Inr False, s2)"
proof -
  obtain s1 where b: "link_completion_begin [1] [2] [3] client_new = (Inr Committing, s1)"
    by (simp add: link_completion_begin_def transactionally_def client_new_def)
  then obtain s2 where a: "link_completion_advance LocalApplied s1 = (Inr True, s2)"
    by (auto simp: link_completion_begin_def transactionally_def link_completion_advance_def client_new_def)
  have "pairing_ok client_new" by (simp add: pairing_ok_def phases_known_def client_new_def)
  from direct_grant_resumes [OF this b a _ rtranclp.rtrancl_refl, of "[1]" "[2]" "[4]"] a b
  show ?thesis by (auto simp: less_pairing_phase_def)
qed

end
