(* ===== verification/Recovery.thy ===== *)
theory Recovery
  imports Text
begin

text \<open>
  \<open>core/crates/arveil-core/src/recovery.rs\<close>: the identity kit and the history archive, two files
  sealed to a secret the user keeps.

  The crate \<open>age\<close> is the record \<open>age\<close>; \<open>age_ok\<close> states that a file encrypted to the recipient of
  a secret decrypts with that secret, and that a secret parses back from its printed form.

  Shown: both files come back unchanged, and an archive that opens has at most ten thousand
  records and came from a file within the size limit.
\<close>

section \<open>Definitions\<close>

definition KIT_VERSION :: u8 where "KIT_VERSION = 1"
definition ARCHIVE_VERSION :: u8 where "ARCHIVE_VERSION = 1"
definition MAX_ARCHIVE_BYTES :: nat where "MAX_ARCHIVE_BYTES = 64 * 1024 * 1024"
definition MAX_ARCHIVE_RECORDS :: nat where "MAX_ARCHIVE_RECORDS = 10000"
definition MAX_ARCHIVE_PAYLOAD_BYTES :: nat where "MAX_ARCHIVE_PAYLOAD_BYTES = 48 * 1024 * 1024"

datatype recovery_error =
    RecEncode
  | RecEncrypt
  | RecDecrypt string
  | RecSecret
  | RecVersion string u8

record age =
  age_encrypt :: "bytes \<Rightarrow> bytes \<Rightarrow> bytes \<Rightarrow> bytes option"
  age_decrypt :: "bytes \<Rightarrow> bytes \<Rightarrow> bytes option"
  age_recipient :: "bytes \<Rightarrow> bytes"
  age_parse :: "string \<Rightarrow> bytes option"
  age_print :: "bytes \<Rightarrow> string"

definition age_ok :: "age \<Rightarrow> bool" where
  "age_ok ag \<longleftrightarrow>
     (\<forall>seed s m c. age_encrypt ag seed (age_recipient ag s) m = Some c \<longrightarrow> age_decrypt ag s c = Some m) \<and>
     (\<forall>s. age_parse ag (trim (age_print ag s)) = Some s)"

record identity_kit =
  ik_version :: u8
  ik_root_seed :: bytes
  ik_identity_id :: bytes
  ik_manifest_sequence :: u64
  ik_latest_manifest :: bytes
  ik_exported_at :: u64

definition identity_kit_fields :: "identity_kit \<Rightarrow> (string \<times> value) list" where
  "identity_kit_fields k =
     [(''version'', v_uint (ik_version k)), (''root_seed'', VBytes (ik_root_seed k)),
      (''identity_id'', VBytes (ik_identity_id k)),
      (''manifest_sequence'', v_uint (ik_manifest_sequence k)),
      (''latest_manifest'', VBytes (ik_latest_manifest k)), (''exported_at'', v_uint (ik_exported_at k))]"

definition identity_kit_from_value :: "cbor \<Rightarrow> value \<Rightarrow> identity_kit option" where
  "identity_kit_from_value cb v =
     do { fs \<leftarrow> de_fields cb v;
          a \<leftarrow> get_field (de_u8 cb) fs ''version'';
          b \<leftarrow> get_field (de_bytes cb) fs ''root_seed'';
          c \<leftarrow> get_field (de_bytes cb) fs ''identity_id'';
          d \<leftarrow> get_field (de_u64 cb) fs ''manifest_sequence'';
          e \<leftarrow> get_field (de_bytes cb) fs ''latest_manifest'';
          f \<leftarrow> get_field (de_u64 cb) fs ''exported_at'';
          Some \<lparr>ik_version = a, ik_root_seed = b, ik_identity_id = c, ik_manifest_sequence = d,
                ik_latest_manifest = e, ik_exported_at = f\<rparr> }"

text \<open>\<open>created_at\<close> is an \<open>i64\<close>.\<close>

definition de_i64 :: "cbor \<Rightarrow> value \<Rightarrow> int option" where
  "de_i64 cb v = Option.bind (de_int cb v) (\<lambda>i. if - (2 ^ 63) \<le> i \<and> i < 2 ^ 63 then Some i else None)"

record archive_record =
  ar_group_id :: bytes
  ar_event_id :: bytes
  ar_kind :: string
  ar_body :: bytes
  ar_created_at :: int
  ar_file_name :: "string option"
  ar_file :: bytes
  ar_file_present :: bool
  ar_sender_identity :: "bytes option"

definition archive_record_fields :: "archive_record \<Rightarrow> (string \<times> value) list" where
  "archive_record_fields r =
     [(''group_id'', VBytes (ar_group_id r)), (''event_id'', VBytes (ar_event_id r)),
      (''kind'', VText (ar_kind r)), (''body'', VBytes (ar_body r)),
      (''created_at'', VInteger (ar_created_at r)),
      (''file_name'', case ar_file_name r of None \<Rightarrow> VNull | Some n \<Rightarrow> VText n),
      (''file'', VBytes (ar_file r)), (''file_present'', VBool (ar_file_present r))] @
     (case ar_sender_identity r of None \<Rightarrow> [] | Some s \<Rightarrow> [(''sender_identity'', VBytes s)])"

definition archive_record_from_value :: "cbor \<Rightarrow> value \<Rightarrow> archive_record option" where
  "archive_record_from_value cb v =
     do { fs \<leftarrow> de_fields cb v;
          a \<leftarrow> get_field (de_bytes cb) fs ''group_id'';
          b \<leftarrow> get_field (de_bytes cb) fs ''event_id'';
          c \<leftarrow> get_field (de_text cb) fs ''kind'';
          d \<leftarrow> get_field (de_bytes cb) fs ''body'';
          e \<leftarrow> get_field (de_i64 cb) fs ''created_at'';
          f \<leftarrow> get_default None (de_option cb (de_text cb)) fs ''file_name'';
          g \<leftarrow> get_field (de_bytes cb) fs ''file'';
          h \<leftarrow> get_default False (de_bool cb) fs ''file_present'';
          i \<leftarrow> get_default None (de_option cb (de_bytes cb)) fs ''sender_identity'';
          Some \<lparr>ar_group_id = a, ar_event_id = b, ar_kind = c, ar_body = d, ar_created_at = e,
                ar_file_name = f, ar_file = g, ar_file_present = h, ar_sender_identity = i\<rparr> }"

record history_archive =
  ha_version :: u8
  ha_identity_id :: bytes
  ha_exported_at :: u64
  ha_records :: "archive_record list"

definition history_archive_fields :: "history_archive \<Rightarrow> (string \<times> value) list" where
  "history_archive_fields a =
     [(''version'', v_uint (ha_version a)), (''identity_id'', VBytes (ha_identity_id a)),
      (''exported_at'', v_uint (ha_exported_at a)),
      (''records'', VArray (map (\<lambda>r. struct (archive_record_fields r)) (ha_records a)))]"

text \<open>The visitor reads one element after the other and stops at the first that fails or is one
  too many; the accumulator holds what it has read.\<close>

fun visit_records :: "cbor \<Rightarrow> archive_record list \<Rightarrow> value list \<Rightarrow> archive_record list option" where
  "visit_records cb acc [] = Some acc"
| "visit_records cb acc (v # vs) =
     (case archive_record_from_value cb v of
        None \<Rightarrow> None
      | Some r \<Rightarrow> if length acc = MAX_ARCHIVE_RECORDS then None else visit_records cb (acc @ [r]) vs)"

definition bounded_records :: "cbor \<Rightarrow> value \<Rightarrow> archive_record list option" where
  "bounded_records cb v = Option.bind (de_seq cb v) (visit_records cb [])"

definition history_archive_from_value :: "cbor \<Rightarrow> value \<Rightarrow> history_archive option" where
  "history_archive_from_value cb v =
     do { fs \<leftarrow> de_fields cb v;
          a \<leftarrow> get_field (de_u8 cb) fs ''version'';
          b \<leftarrow> get_field (de_bytes cb) fs ''identity_id'';
          c \<leftarrow> get_field (de_u64 cb) fs ''exported_at'';
          d \<leftarrow> get_field (bounded_records cb) fs ''records'';
          Some \<lparr>ha_version = a, ha_identity_id = b, ha_exported_at = c, ha_records = d\<rparr> }"

definition secret_parse :: "age \<Rightarrow> string \<Rightarrow> recovery_error + bytes" where
  "secret_parse ag s = ok_or (age_parse ag (trim s)) RecSecret"

definition to_string_once :: "age \<Rightarrow> bytes \<Rightarrow> string" where
  "to_string_once ag secret = age_print ag secret"

definition recovery_seal :: "cbor \<Rightarrow> age \<Rightarrow> bytes \<Rightarrow> value \<Rightarrow> bytes \<Rightarrow> recovery_error + bytes" where
  "recovery_seal cb ag seed v secret =
     and_then (map_err (\<lambda>_. RecEncode) (signed_canonical cb v)) (\<lambda>plaintext.
     ok_or (age_encrypt ag seed (age_recipient ag secret) plaintext) RecEncrypt)"

definition recovery_open ::
  "cbor \<Rightarrow> age \<Rightarrow> (value \<Rightarrow> 'a option) \<Rightarrow> bytes \<Rightarrow> bytes \<Rightarrow> string \<Rightarrow> recovery_error + 'a" where
  "recovery_open cb ag d bs secret what =
     and_then (ok_or (age_decrypt ag secret bs) (RecDecrypt what)) (\<lambda>plaintext.
     ok_or (decode_as cb d plaintext) (RecDecrypt what))"

definition kit_seal :: "cbor \<Rightarrow> age \<Rightarrow> bytes \<Rightarrow> identity_kit \<Rightarrow> bytes \<Rightarrow> recovery_error + bytes" where
  "kit_seal cb ag seed kit secret = recovery_seal cb ag seed (struct (identity_kit_fields kit)) secret"

definition kit_open :: "cbor \<Rightarrow> age \<Rightarrow> bytes \<Rightarrow> bytes \<Rightarrow> recovery_error + identity_kit" where
  "kit_open cb ag bs secret =
     and_then (recovery_open cb ag (identity_kit_from_value cb) bs secret ''identity kit'') (\<lambda>kit.
     if ik_version kit \<noteq> KIT_VERSION then Inl (RecVersion ''identity kit'' (ik_version kit)) else Inr kit)"

definition archive_seal :: "cbor \<Rightarrow> age \<Rightarrow> bytes \<Rightarrow> history_archive \<Rightarrow> bytes \<Rightarrow> recovery_error + bytes" where
  "archive_seal cb ag seed a secret = recovery_seal cb ag seed (struct (history_archive_fields a)) secret"

definition archive_open :: "cbor \<Rightarrow> age \<Rightarrow> bytes \<Rightarrow> bytes \<Rightarrow> recovery_error + history_archive" where
  "archive_open cb ag bs secret =
     (if length bs > MAX_ARCHIVE_BYTES then Inl (RecDecrypt ''history archive'')
      else and_then (recovery_open cb ag (history_archive_from_value cb) bs secret ''history archive'') (\<lambda>a.
        if ha_version a \<noteq> ARCHIVE_VERSION then Inl (RecVersion ''history archive'' (ha_version a)) else Inr a))"

section \<open>Lemmas\<close>

text \<open>Records a Rust program can hold.\<close>

definition wf_record :: "archive_record \<Rightarrow> bool" where
  "wf_record r \<longleftrightarrow> utf8 (ar_kind r) \<and> - (2 ^ 63) \<le> ar_created_at r \<and> ar_created_at r < 2 ^ 63 \<and>
     (case ar_file_name r of None \<Rightarrow> True | Some n \<Rightarrow> utf8 n)"

lemma wf_archive_record: "wf_record r \<Longrightarrow> wf_value 10 (struct (archive_record_fields r))"
  by (auto simp: wf_record_def archive_record_fields_def struct_def wf_value_numeral
      ascii_utf8 ascii_def split: option.splits)

lemma wf_history_archive:
  "list_all wf_record (ha_records a) \<Longrightarrow> wf_value 12 (struct (history_archive_fields a))"
  using wf_archive_record
  by (auto simp: history_archive_fields_def struct_def [of "_ # _"] wf_value_numeral wf_v_uint_numeral
      ascii_utf8 ascii_def list_all_iff)

lemma visit_records_map:
  "(\<And>r. r \<in> set rs \<Longrightarrow> archive_record_from_value cb (e r) = Some r) \<Longrightarrow> length acc \<le> MAX_ARCHIVE_RECORDS \<Longrightarrow>
   visit_records cb acc (map e rs) =
     (if length acc + length rs \<le> MAX_ARCHIVE_RECORDS then Some (acc @ rs) else None)"
  by (induction rs arbitrary: acc) auto

lemma visit_records_bound:
  "visit_records cb acc vs = Some rs \<Longrightarrow> length acc \<le> MAX_ARCHIVE_RECORDS \<Longrightarrow> length rs \<le> MAX_ARCHIVE_RECORDS"
  by (induction vs arbitrary: acc) (auto split: option.splits if_splits)

context cbor_codec begin

lemma identity_kit_roundtrip:
  "identity_kit_from_value cb (sort_maps cb (struct (identity_kit_fields k))) = Some k"
  unfolding identity_kit_from_value_def
  by (rule sorted_struct_cases [of "identity_kit_fields k"])
    (simp add: sorted_field identity_kit_fields_def wire_simps)

lemma archive_record_roundtrip:
  assumes "wf_record r"
  shows "archive_record_from_value cb (sort_maps cb (struct (archive_record_fields r))) = Some r"
proof -
  obtain gs where d: "de_fields cb (sort_maps cb (struct (archive_record_fields r))) = Some gs"
    and f: "\<And>k. field gs k = map_option (sort_maps cb) (field (archive_record_fields r) k)"
    and o: "\<And>k. opt_field gs k = map_option (map_option (sort_maps cb)) (opt_field (archive_record_fields r) k)"
    using de_fields_sorted_struct [of "archive_record_fields r"] by blast
  note rd = sorted_field [OF f] sorted_default [OF o]
  have i: "de_i64 cb (VInteger (ar_created_at r)) = Some (ar_created_at r)"
    using assms by (simp add: de_i64_def de_int_integer wf_record_def)
  show ?thesis
    unfolding archive_record_from_value_def d
    by (cases "ar_file_name r"; cases "ar_sender_identity r")
      (simp_all add: rd archive_record_fields_def wire_simps i)
qed

lemma history_archive_roundtrip:
  assumes "list_all wf_record (ha_records a)"
  shows "history_archive_from_value cb (sort_maps cb (struct (history_archive_fields a))) =
    (if length (ha_records a) \<le> MAX_ARCHIVE_RECORDS then Some a else None)"
proof -
  have "bounded_records cb (VArray (map (\<lambda>r. sort_maps cb (struct (archive_record_fields r))) (ha_records a))) =
    (if length (ha_records a) \<le> MAX_ARCHIVE_RECORDS then Some (ha_records a) else None)"
    using visit_records_map [of "ha_records a" cb "\<lambda>r. sort_maps cb (struct (archive_record_fields r))" "[]"]
      archive_record_roundtrip assms
    by (simp add: bounded_records_def de_seq_array list_all_iff)
  note b = this
  show ?thesis
    unfolding history_archive_from_value_def
    by (rule sorted_struct_cases [of "history_archive_fields a"])
      (simp add: sorted_field history_archive_fields_def wire_simps comp_def b)
qed

lemma recovery_roundtrip:
  assumes ag: "age_ok ag" and s: "recovery_seal cb ag seed v secret = Inr b" and wf: "wf_value 16 v"
  shows "recovery_open cb ag d b secret what = ok_or (d (sort_maps cb v)) (RecDecrypt what)"
proof -
  obtain p where p: "canonical cb v = Some p" and e: "age_encrypt ag seed (age_recipient ag secret) p = Some b"
    using s by (auto simp: recovery_seal_def signed_canonical_def result_simps)
  have "age_decrypt ag secret b = Some p"
    using ag e unfolding age_ok_def by blast
  moreover have "from_reader cb p = Some (sort_maps cb v)"
    using canonical_decodes [OF p] wf by simp
  ultimately show ?thesis
    by (simp add: recovery_open_def decode_as_def)
qed

end

lemma wf_identity_kit: "wf_value 16 (struct (identity_kit_fields k))"
  by (simp add: identity_kit_fields_def struct_def wf_value_numeral wf_v_uint_numeral ascii_utf8 ascii_def)

section \<open>Properties\<close>

text \<open>The kit and the archive come back from their files exactly as they were sealed, with
  the secret as the user wrote it down: the printed secret parses back, surrounding space
  ignored. An archive of more than ten thousand records is sealed but never opens again.\<close>

theorem recovery_files_roundtrip:
  assumes "cbor_codec cb" and "age_ok ag"
  shows "secret_parse ag (to_string_once ag secret) = Inr secret \<and>
    (\<forall>kit b. ik_version kit = KIT_VERSION \<and> kit_seal cb ag seed kit secret = Inr b \<longrightarrow>
       kit_open cb ag b secret = Inr kit) \<and>
    (\<forall>a b. ha_version a = ARCHIVE_VERSION \<and> list_all wf_record (ha_records a) \<and>
       archive_seal cb ag seed a secret = Inr b \<longrightarrow>
       archive_open cb ag b secret =
         (if length b \<le> MAX_ARCHIVE_BYTES \<and> length (ha_records a) \<le> MAX_ARCHIVE_RECORDS then Inr a
          else Inl (RecDecrypt ''history archive'')))"
proof (intro conjI allI impI)
  show "secret_parse ag (to_string_once ag secret) = Inr secret"
    using assms(2) by (simp add: secret_parse_def to_string_once_def age_ok_def)
next
  fix kit b
  assume k: "ik_version kit = KIT_VERSION \<and> kit_seal cb ag seed kit secret = Inr b"
  then have "recovery_seal cb ag seed (struct (identity_kit_fields kit)) secret = Inr b"
    by (simp add: kit_seal_def)
  from cbor_codec.recovery_roundtrip [OF assms this wf_identity_kit, of "identity_kit_from_value cb"]
  show "kit_open cb ag b secret = Inr kit"
    using k by (simp add: kit_open_def cbor_codec.identity_kit_roundtrip [OF assms(1)])
next
  fix a b
  assume k: "ha_version a = ARCHIVE_VERSION \<and> list_all wf_record (ha_records a) \<and>
    archive_seal cb ag seed a secret = Inr b"
  then have s: "recovery_seal cb ag seed (struct (history_archive_fields a)) secret = Inr b"
    by (simp add: archive_seal_def)
  have wf: "wf_value 16 (struct (history_archive_fields a))"
    using wf_value_mono [OF wf_history_archive] k by simp
  show "archive_open cb ag b secret =
      (if length b \<le> MAX_ARCHIVE_BYTES \<and> length (ha_records a) \<le> MAX_ARCHIVE_RECORDS then Inr a
       else Inl (RecDecrypt ''history archive''))"
    using k cbor_codec.recovery_roundtrip [OF assms s wf, of "history_archive_from_value cb"]
    by (simp add: archive_open_def cbor_codec.history_archive_roundtrip [OF assms(1)])
qed

text \<open>Whatever file is offered, an archive that opens has the supported version, at most ten
  thousand records, and came from a file of at most 64 MiB.\<close>

theorem archive_open_bounded:
  assumes "archive_open cb ag b secret = Inr a"
  shows "length b \<le> MAX_ARCHIVE_BYTES \<and> ha_version a = ARCHIVE_VERSION \<and>
    length (ha_records a) \<le> MAX_ARCHIVE_RECORDS"
proof -
  obtain p v where "from_reader cb p = Some v" and a: "history_archive_from_value cb v = Some a"
    and rest: "length b \<le> MAX_ARCHIVE_BYTES" "ha_version a = ARCHIVE_VERSION"
    using assms by (auto simp: archive_open_def recovery_open_def decode_as_def result_simps bind_eq_Some_conv
        split: if_splits)
  obtain w where "bounded_records cb w = Some (ha_records a)"
    using a by (auto simp: history_archive_from_value_def get_field_def bind_eq_Some_conv)
  then have "length (ha_records a) \<le> MAX_ARCHIVE_RECORDS"
    using visit_records_bound [of cb "[]"] by (auto simp: bounded_records_def bind_eq_Some_conv)
  with rest show ?thesis by simp
qed

text \<open>For the witnesses: the file is the plaintext.\<close>

definition demo_age :: age where
  "demo_age =
     \<lparr>age_encrypt = (\<lambda>seed r m. Some m), age_decrypt = (\<lambda>s c. Some c), age_recipient = id,
      age_parse = (\<lambda>s. base16_decode s), age_print = hex_encode base16\<rparr>"

lemma demo_age_ok: "age_ok demo_age"
proof -
  have h: "list_all hex_char (hex_encode base16 s)" for s
    using base16_ok by (simp add: hex_ok_def)
  have "trim (hex_encode base16 s) = hex_encode base16 s" for s
  proof (rule trim_ascii_id)
    show "ascii (hex_encode base16 s)"
      using h [of s] hex_chars(1) by (auto simp: ascii_def list_all_iff char_code_def)
    show "hex_encode base16 s = [] \<or> \<not> is_whitespace [hd (hex_encode base16 s)] \<and>
        \<not> is_whitespace [last (hex_encode base16 s)]"
      using h [of s] hex_chars(2) by (metis hd_in_set last_in_set list_all_iff)
  qed
  moreover have "base16_decode (hex_encode base16 s) = Some s" for s
    using base16_ok by (simp add: hex_ok_def base16_def)
  ultimately show ?thesis
    by (simp add: age_ok_def demo_age_def)
qed

theorem recovery_files_roundtrip_witness:
  "age_ok demo_age \<and> secret_parse demo_age (to_string_once demo_age [1, 2]) = Inr [1, 2]"
  using demo_age_ok recovery_files_roundtrip [OF rfc.cbor_codec_axioms demo_age_ok] by blast

lemma demo_archive_opens: "\<exists>b a. archive_open rfc_cbor demo_age b [] = Inr a"
proof -
  let ?a = "\<lparr>ha_version = 1, ha_identity_id = [7], ha_exported_at = 0, ha_records = []\<rparr>"
  let ?v = "struct (history_archive_fields ?a)"
  have wf: "wf_value 16 ?v"
    by (simp add: history_archive_fields_def struct_def wf_value_numeral wf_v_uint_numeral ascii_utf8 ascii_def)
  have sz: "cbor_size ?v < 100"
    by (simp add: history_archive_fields_def struct_def v_uint_def head_size_def)
  then have "cbor_size ?v < 2 ^ 64" by simp
  then obtain b where b: "signed_canonical rfc_cbor ?v = Inr b" "length b = cbor_size ?v"
    "from_reader rfc_cbor b = Some (sort_maps rfc_cbor ?v)"
    by (rule rfc.encoder_size [OF wf])
  have "archive_open rfc_cbor demo_age b [] = Inr ?a"
    using b sz rfc.history_archive_roundtrip [of ?a]
    by (simp add: archive_open_def recovery_open_def decode_as_def demo_age_def MAX_ARCHIVE_BYTES_def
        ARCHIVE_VERSION_def)
  then show ?thesis by blast
qed

theorem archive_open_bounded_witness:
  "\<exists>b a. archive_open rfc_cbor demo_age b [] = Inr a \<and> length (ha_records a) \<le> MAX_ARCHIVE_RECORDS"
  using demo_archive_opens archive_open_bounded by blast

end
