(* ===== verification/Client_Enrollment.thy ===== *)
theory Client_Enrollment
  imports Client_Devices Recovery
begin

text \<open>
  Joining a realm: the realm and its endpoint list, the progress of an enrollment, the key packages and the
  mailbox a device publishes, recovery of an identity from its kit, uploads in flight
  (\<open>core/crates/arveil-core/src/client.rs\<close>) and the personal invitations (\<open>invitation_store.rs\<close>).

  Shown: an accepted endpoint list is signed by the realm's key and never older than the one it
  replaces; a prepared batch of key packages is returned unchanged until it is acknowledged; a recovery
  is prepared all or nothing and completes only after the realm accepted it; the clean-up of invitations
  drops nothing that is still needed.
\<close>

section \<open>Realm\<close>

record stored_realm =
  sr_realm_id :: bytes
  sr_signing_public :: bytes
  sr_noise_public :: bytes
  sr_bootstrap_url :: string
  sr_endpoint_list :: "realm_endpoint_list option"
  sr_enrolled :: bool

text \<open>\<open>min_by_key\<close> returns the first of the least elements, as the head of a stable sort does.\<close>

definition preferred_endpoint_url :: "stored_realm \<Rightarrow> string" where
  "preferred_endpoint_url r =
     (case sr_endpoint_list r of
        None \<Rightarrow> sr_bootstrap_url r
      | Some l \<Rightarrow>
          (case sort_key e_priority (filter (\<lambda>e. e_kind e \<noteq> ''admin'') (el_endpoints l)) of
             [] \<Rightarrow> sr_bootstrap_url r
           | e # _ \<Rightarrow> e_url e))"

definition realm_save :: "bytes \<Rightarrow> bytes \<Rightarrow> bytes \<Rightarrow> string \<Rightarrow> unit client_op" where
  "realm_save rid signing_public noise_public bootstrap_url =
     op_modify (\<lambda>s. s\<lparr>t_realm := upsert_row (\<lambda>r. rl_realm_id r = rid)
       (\<lambda>r. r\<lparr>rl_signing_public := signing_public, rl_noise_public := noise_public, rl_bootstrap_url := bootstrap_url\<rparr>)
       \<lparr>rl_realm_id = rid, rl_signing_public = signing_public, rl_noise_public = noise_public,
        rl_bootstrap_url = bootstrap_url, rl_endpoint_list = None, rl_endpoint_sequence = None, rl_enrolled = False\<rparr>
       (t_realm s)\<rparr>)"

definition realm :: "cbor \<Rightarrow> crypto \<Rightarrow> client \<Rightarrow> client_error + stored_realm option" where
  "realm cb cr s =
     (case t_realm s of
        [] \<Rightarrow> Inr None
      | r # _ \<Rightarrow>
          if length (rl_signing_public r) \<noteq> 32 \<or> \<not> ed_point cr (rl_signing_public r) then Inl Panic else
          and_then (case rl_endpoint_list r of
              None \<Rightarrow> Inr None
            | Some b \<Rightarrow> map_sum ClEndpointList Some (endpoint_list_verify cb cr b (rl_signing_public r) (rl_realm_id r) None))
          (\<lambda>l. Inr (Some \<lparr>sr_realm_id = rl_realm_id r, sr_signing_public = rl_signing_public r,
             sr_noise_public = rl_noise_public r, sr_bootstrap_url = rl_bootstrap_url r, sr_endpoint_list = l,
             sr_enrolled = rl_enrolled r\<rparr>)))"

definition realm_accept_endpoint_list :: "cbor \<Rightarrow> crypto \<Rightarrow> bytes \<Rightarrow> bytes \<Rightarrow> realm_endpoint_list client_op" where
  "realm_accept_endpoint_list cb cr rid sobj =
     op_then (op_query (realm cb cr)) (\<lambda>r.
     op_then (op_lift (ok_or r NoDevice)) (\<lambda>r.
     op_then (op_get (\<lambda>s. Option.bind (find (\<lambda>r. rl_realm_id r = rid) (t_realm s)) rl_endpoint_list)) (\<lambda>stored.
     op_then (op_lift (map_err ClEndpointList (endpoint_list_verify cb cr sobj (sr_signing_public r) rid
       (if stored = Some sobj then None else map_option el_sequence (sr_endpoint_list r))))) (\<lambda>l.
     op_then (op_modify (\<lambda>s. s\<lparr>t_realm := update_rows (\<lambda>r. rl_realm_id r = rid)
       (\<lambda>r. r\<lparr>rl_endpoint_list := Some sobj, rl_endpoint_sequence := Some (as_i64 (el_sequence l)),
            rl_noise_public := el_realm_noise_public_key l\<rparr>) (t_realm s)\<rparr>)) (\<lambda>_.
     op_return l)))))"

definition realm_mark_enrolled :: "bytes \<Rightarrow> unit client_op" where
  "realm_mark_enrolled rid =
     op_modify (\<lambda>s. s\<lparr>t_realm := update_rows (\<lambda>r. rl_realm_id r = rid) (\<lambda>r. r\<lparr>rl_enrolled := True\<rparr>) (t_realm s)\<rparr>)"

section \<open>Enrollment\<close>

definition operation_digest :: "crypto \<Rightarrow> bytes \<Rightarrow> bytes" where
  "operation_digest cr b = sha256 cr b"

datatype enrollment_phase = Redeeming | Redeemed | Endpoints | EnrollmentComplete

definition phase_stored :: "enrollment_phase \<Rightarrow> string" where
  "phase_stored p = (case p of Redeeming \<Rightarrow> ''redeeming'' | Redeemed \<Rightarrow> ''redeemed'' | Endpoints \<Rightarrow> ''endpoints''
     | EnrollmentComplete \<Rightarrow> ''complete'')"

definition phase_from_stored :: "string \<Rightarrow> enrollment_phase" where
  "phase_from_stored v = (if v = ''redeemed'' then Redeemed else if v = ''endpoints'' then Endpoints
     else if v = ''complete'' then EnrollmentComplete else Redeeming)"

record enrollment_progress =
  ep_realm_id :: bytes
  ep_invite_hash :: bytes
  ep_credential_hash :: bytes
  ep_phase :: enrollment_phase

definition enrollment :: "client \<Rightarrow> enrollment_progress option" where
  "enrollment s = map_option (\<lambda>r. \<lparr>ep_realm_id = en_realm_id r, ep_invite_hash = en_invite_hash r,
     ep_credential_hash = en_credential_hash r, ep_phase = phase_from_stored (en_phase r)\<rparr>) (t_enrollment s)"

definition enrollment_save :: "int \<Rightarrow> enrollment_progress \<Rightarrow> unit client_op" where
  "enrollment_save now p =
     op_modify (\<lambda>s. s\<lparr>t_enrollment := Some \<lparr>en_realm_id = ep_realm_id p, en_invite_hash = ep_invite_hash p,
       en_credential_hash = ep_credential_hash p, en_phase = phase_stored (ep_phase p), en_updated_at = now\<rparr>\<rparr>)"

section \<open>Key packages\<close>

definition KEY_PACKAGE_FLOOR :: u32 where "KEY_PACKAGE_FLOOR = 3"
definition KEY_PACKAGE_TARGET :: u32 where "KEY_PACKAGE_TARGET = 10"

text \<open>A batch is the CBOR form of \<open>Vec<Vec<u8>>\<close>, in which a byte is an integer.\<close>

definition batch_value :: "bytes list \<Rightarrow> value" where
  "batch_value ps = VArray (map (\<lambda>p. VArray (map v_uint p)) ps)"

definition batch_bytes :: "cbor \<Rightarrow> bytes list \<Rightarrow> client_error + bytes" where
  "batch_bytes cb ps = ok_or (into_writer cb (batch_value ps)) KeyPackagePublication"

definition batch_packages :: "cbor \<Rightarrow> bytes \<Rightarrow> client_error + bytes list" where
  "batch_packages cb b =
     ok_or (Option.bind (from_reader cb b) (de_list cb (de_list cb (de_u8 cb)))) KeyPackagePublication"

text \<open>\<open>gen i\<close> is the result of the call number \<open>i\<close> of \<open>engine.key_package()\<close>.\<close>

definition generate_packages :: "(nat \<Rightarrow> client_error + bytes) \<Rightarrow> nat \<Rightarrow> client_error + bytes list" where
  "generate_packages gen n = collect_results (map gen [0..<n])"

definition initial_key_packages ::
  "cbor \<Rightarrow> (nat \<Rightarrow> client_error + bytes) \<Rightarrow> stored_device \<Rightarrow> bytes list option client_op" where
  "initial_key_packages cb gen dev = transactionally (
     op_then (op_get (\<lambda>s. t_initial_key_packages s (dk_device_id (sd_keys dev)))) (\<lambda>stored.
     case stored of
       Some None \<Rightarrow> op_return None
     | Some (Some b) \<Rightarrow> op_then (op_lift (batch_packages cb b)) (\<lambda>ps. op_return (Some ps))
     | None \<Rightarrow>
         op_then (op_get enrollment) (\<lambda>p.
         if (case p of Some p \<Rightarrow> ep_phase p = EnrollmentComplete | None \<Rightarrow> False)
         then op_then (op_modify (\<lambda>s. s\<lparr>t_initial_key_packages :=
           (t_initial_key_packages s)(dk_device_id (sd_keys dev) \<mapsto> None)\<rparr>)) (\<lambda>_. op_return None)
         else
           op_then (op_lift (generate_packages gen 5)) (\<lambda>ps.
           op_then (op_lift (batch_bytes cb ps)) (\<lambda>b.
           op_then (op_modify (\<lambda>s. s\<lparr>t_initial_key_packages :=
             (t_initial_key_packages s)(dk_device_id (sd_keys dev) \<mapsto> Some b)\<rparr>)) (\<lambda>_.
           op_return (Some ps)))))))"

definition initial_key_packages_acknowledged :: "bytes \<Rightarrow> unit client_op" where
  "initial_key_packages_acknowledged dev s =
     (case t_initial_key_packages s dev of
        None \<Rightarrow> (Inl KeyPackagePublication, s)
      | Some _ \<Rightarrow> (Inr (), s\<lparr>t_initial_key_packages := (t_initial_key_packages s)(dev \<mapsto> None)\<rparr>))"

record key_package_observation =
  ko_available :: u32
  ko_checked_at :: u64

definition key_package_observation :: "bytes \<Rightarrow> client \<Rightarrow> key_package_observation option" where
  "key_package_observation dev s =
     map_option (\<lambda>(n, at). \<lparr>ko_available = n, ko_checked_at = as_u64 at\<rparr>) (t_observation s dev)"

definition key_package_observe :: "bytes \<Rightarrow> u32 \<Rightarrow> u64 \<Rightarrow> unit client_op" where
  "key_package_observe dev available checked_at =
     op_modify (\<lambda>s. s\<lparr>t_observation := (t_observation s)(dev \<mapsto> (available, as_i64 checked_at))\<rparr>)"

record pending_key_packages =
  pk_packages :: "bytes list"
  pk_previous :: u32

definition pending_key_packages :: "cbor \<Rightarrow> bytes \<Rightarrow> client \<Rightarrow> client_error + pending_key_packages option" where
  "pending_key_packages cb dev s =
     (case t_replenishment s dev of
        None \<Rightarrow> Inr None
      | Some (b, previous) \<Rightarrow>
          and_then (batch_packages cb b) (\<lambda>ps. Inr (Some \<lparr>pk_packages = ps, pk_previous = previous\<rparr>)))"

definition prepare_key_package_replenishment ::
  "cbor \<Rightarrow> (nat \<Rightarrow> client_error + bytes) \<Rightarrow> stored_device \<Rightarrow> u32 \<Rightarrow> pending_key_packages option client_op" where
  "prepare_key_package_replenishment cb gen dev available = transactionally (
     op_then (op_query (pending_key_packages cb (dk_device_id (sd_keys dev)))) (\<lambda>pending.
     if pending \<noteq> None then op_return pending
     else if available > KEY_PACKAGE_FLOOR then op_return None
     else
       op_then (op_lift (generate_packages gen (unat KEY_PACKAGE_TARGET - unat available))) (\<lambda>ps.
       op_then (op_lift (batch_bytes cb ps)) (\<lambda>b.
       op_then (op_modify (\<lambda>s. s\<lparr>t_replenishment := (t_replenishment s)(dk_device_id (sd_keys dev) \<mapsto> (b, available))\<rparr>)) (\<lambda>_.
       op_return (Some \<lparr>pk_packages = ps, pk_previous = available\<rparr>))))))"

definition key_package_replenishment_acknowledged :: "bytes \<Rightarrow> unit client_op" where
  "key_package_replenishment_acknowledged dev =
     op_modify (\<lambda>s. s\<lparr>t_replenishment := (t_replenishment s)(dev := None)\<rparr>)"

section \<open>Mailbox\<close>

definition mailbox_request :: "client_error + mailbox_request \<Rightarrow> mailbox_request client_op" where
  "mailbox_request gen =
     op_then (op_get t_mailbox_request) (\<lambda>existing.
     case existing of
       Some q \<Rightarrow> op_return q
     | None \<Rightarrow>
         op_then (op_lift gen) (\<lambda>q.
         op_then (op_modify (\<lambda>s. s\<lparr>t_mailbox_request := Some q\<rparr>)) (\<lambda>_. op_return q)))"

record own_mailbox =
  om_mailbox_id :: bytes
  om_read_capability :: bytes
  om_write_capability :: bytes

definition mailbox_save :: "int \<Rightarrow> own_mailbox \<Rightarrow> unit client_op" where
  "mailbox_save now m =
     op_modify (\<lambda>s. s\<lparr>t_mailbox_own := upsert_row (\<lambda>r. mb_mailbox_id r = om_mailbox_id m) id
       \<lparr>mb_mailbox_id = om_mailbox_id m, mb_read_capability = om_read_capability m,
        mb_write_capability = om_write_capability m, mb_created_at = now\<rparr> (t_mailbox_own s)\<rparr>)"

definition mailbox_own :: "client \<Rightarrow> own_mailbox option" where
  "mailbox_own s =
     (case sort_key mb_created_at (t_mailbox_own s) of
        [] \<Rightarrow> None
      | r # _ \<Rightarrow> Some \<lparr>om_mailbox_id = mb_mailbox_id r, om_read_capability = mb_read_capability r,
          om_write_capability = mb_write_capability r\<rparr>)"

section \<open>Identity kits and recovery\<close>

record saved_kit =
  sk_manifest_sequence :: u64
  sk_saved_at :: u64

definition kit_exported :: "u64 \<Rightarrow> u64 \<Rightarrow> unit client_op" where
  "kit_exported sequence at =
     op_modify (\<lambda>s. s\<lparr>t_kit_exports := Some (case t_kit_exports s of
         Some k \<Rightarrow> k\<lparr>kt_pending_sequence := Some (as_i64 sequence), kt_pending_at := Some (as_i64 at)\<rparr>
       | None \<Rightarrow> \<lparr>kt_pending_sequence = Some (as_i64 sequence), kt_pending_at = Some (as_i64 at),
           kt_saved_sequence = None, kt_saved_at = None\<rparr>)\<rparr>)"

definition saved_kit :: "client \<Rightarrow> saved_kit option" where
  "saved_kit s =
     (case t_kit_exports s of
        None \<Rightarrow> None
      | Some k \<Rightarrow>
          (case (kt_saved_sequence k, kt_saved_at k) of
             (Some n, Some at) \<Rightarrow> Some \<lparr>sk_manifest_sequence = as_u64 n, sk_saved_at = as_u64 at\<rparr>
           | _ \<Rightarrow> None))"

definition kit_confirm_saved :: "u64 \<Rightarrow> saved_kit client_op" where
  "kit_confirm_saved at s =
     (case t_kit_exports s of
        None \<Rightarrow> (Inl NoKitExport, s)
      | Some k \<Rightarrow>
          if kt_pending_sequence k = None then (Inl NoKitExport, s)
          else let s' = s\<lparr>t_kit_exports := Some (k\<lparr>kt_saved_sequence := kt_pending_sequence k, kt_saved_at := Some (as_i64 at),
                   kt_pending_sequence := None, kt_pending_at := None\<rparr>)\<rparr>
               in (ok_or (saved_kit s') NoKitExport, s'))"

record recovery_progress =
  rp_request_digest :: bytes
  rp_kit_sequence :: u64
  rp_previous_sequence :: "u64 option"
  rp_complete :: bool

definition insert_recovery :: "bytes \<Rightarrow> u64 \<Rightarrow> unit client_op" where
  "insert_recovery digest sequence s =
     (if t_identity_recovery s \<noteq> None then (Inl (ClSqlite ConstraintViolation), s)
      else (Inr (), s\<lparr>t_identity_recovery := Some \<lparr>rc_request_digest = digest, rc_kit_sequence = as_i64 sequence,
             rc_previous_sequence = None, rc_complete = False\<rparr>\<rparr>))"

definition recovery_prepare ::
  "cbor \<Rightarrow> crypto \<Rightarrow> client_error + device_material \<Rightarrow> identity_kit \<Rightarrow> bytes \<Rightarrow> stored_realm \<Rightarrow> u64 \<Rightarrow> unit client_op" where
  "recovery_prepare cb cr gen kit digest rl now = transactionally (
     op_then (op_query device) (\<lambda>d.
     op_then (op_get enrollment) (\<lambda>e.
     if d \<noteq> None \<or> e \<noteq> None then op_fail DeviceExists else
     op_then (identity_restore_in_unit cb cr (ik_root_seed kit) (ik_latest_manifest kit)) (\<lambda>_.
     op_then (device_new_in_unit cb cr now gen) (\<lambda>_.
     op_then (realm_save (sr_realm_id rl) (sr_signing_public rl) (sr_noise_public rl) (sr_bootstrap_url rl)) (\<lambda>_.
     insert_recovery digest (ik_manifest_sequence kit)))))))"

definition recovery_progress :: "client \<Rightarrow> recovery_progress option" where
  "recovery_progress s = map_option (\<lambda>r. \<lparr>rp_request_digest = rc_request_digest r, rp_kit_sequence = as_u64 (rc_kit_sequence r),
     rp_previous_sequence = map_option as_u64 (rc_previous_sequence r), rp_complete = rc_complete r\<rparr>) (t_identity_recovery s)"

definition recovery_accepted :: "u64 \<Rightarrow> unit client_op" where
  "recovery_accepted previous =
     op_modify (\<lambda>s. s\<lparr>t_identity_recovery := map_option (\<lambda>r. r\<lparr>rc_previous_sequence :=
       (case rc_previous_sequence r of Some n \<Rightarrow> Some n | None \<Rightarrow> Some (as_i64 previous))\<rparr>) (t_identity_recovery s)\<rparr>)"

definition recovery_complete :: "unit client_op" where
  "recovery_complete =
     op_modify (\<lambda>s. s\<lparr>t_identity_recovery := map_option (\<lambda>r. if rc_previous_sequence r \<noteq> None then r\<lparr>rc_complete := True\<rparr> else r)
       (t_identity_recovery s)\<rparr>)"

section \<open>Uploads in flight\<close>

definition upload_save :: "string \<Rightarrow> pending_upload \<Rightarrow> unit client_op" where
  "upload_save path u = op_modify (\<lambda>s. s\<lparr>t_outgoing_files := (t_outgoing_files s)(path \<mapsto> u)\<rparr>)"

definition upload_pending :: "string \<Rightarrow> client \<Rightarrow> pending_upload option" where
  "upload_pending path s = t_outgoing_files s path"

definition upload_clear :: "string \<Rightarrow> unit client_op" where
  "upload_clear path = op_modify (\<lambda>s. s\<lparr>t_outgoing_files := (t_outgoing_files s)(path := None)\<rparr>)"

section \<open>Personal invitations\<close>

definition invitation_rejected_enrollment :: "bytes \<Rightarrow> bool client_op" where
  "invitation_rejected_enrollment i s =
     (if (case t_enrollment s of Some r \<Rightarrow> en_invite_hash r = i \<and> en_phase r = ''redeeming'' | None \<Rightarrow> False) \<and>
         \<not> list_ex rl_enrolled (t_realm s)
      then (Inr True, s\<lparr>t_enrollment := None\<rparr>) else (Inr False, s))"

definition invitation_operation :: "bytes \<Rightarrow> string \<Rightarrow> client \<Rightarrow> invitation_operation option" where
  "invitation_operation i direction s =
     find (\<lambda>r. io_id r = i \<and> io_direction r = direction) (t_invitation_operations s)"

text \<open>\<open>ORDER BY created_at DESC, id\<close>.\<close>

definition invitation_operations :: "string \<Rightarrow> client \<Rightarrow> invitation_operation list" where
  "invitation_operations direction s =
     sort_key (\<lambda>r. (- io_created_at r, io_id r)) (filter (\<lambda>r. io_direction r = direction) (t_invitation_operations s))"

definition invitation_operation_save :: "invitation_operation \<Rightarrow> unit client_op" where
  "invitation_operation_save row =
     op_modify (\<lambda>s. s\<lparr>t_invitation_operations :=
       upsert_row (\<lambda>r. io_id r = io_id row \<and> io_direction r = io_direction row) (\<lambda>_. row) row (t_invitation_operations s)\<rparr>)"

definition invitation_hello_save :: "invitation_hello \<Rightarrow> unit client_op" where
  "invitation_hello_save h =
     op_modify (\<lambda>s. s\<lparr>t_invitation_hellos := upsert_row (\<lambda>r. ih_group_id r = ih_group_id h) id h (t_invitation_hellos s)\<rparr>)"

definition invitation_hellos :: "client \<Rightarrow> invitation_hello list" where
  "invitation_hellos s = t_invitation_hellos s"

definition invitation_hello_remove :: "bytes \<Rightarrow> unit client_op" where
  "invitation_hello_remove grp =
     op_modify (\<lambda>s. s\<lparr>t_invitation_hellos := filter (\<lambda>r. ih_group_id r \<noteq> grp) (t_invitation_hellos s)\<rparr>)"

definition invitation_stale :: "int \<Rightarrow> invitation_operation \<Rightarrow> bool" where
  "invitation_stale cutoff r \<longleftrightarrow> io_direction r = ''outgoing'' \<and> io_expires_at r < cutoff"

definition invitation_cleanup :: "int \<Rightarrow> unit client_op" where
  "invitation_cleanup now =
     (let cutoff = now - 37 * 24 * 3600 in
      op_then (op_modify (\<lambda>s. s\<lparr>t_invitation_operations := update_rows
        (\<lambda>r. invitation_stale cutoff r \<or> io_direction r = ''incoming'' \<and> io_state r = ''complete'')
        (\<lambda>r. r\<lparr>io_link := '''', io_secret := [], io_key_package := []\<rparr>) (t_invitation_operations s)\<rparr>)) (\<lambda>_.
      op_then (op_modify (\<lambda>s. s\<lparr>t_invitation_hellos := filter (\<lambda>h.
        \<not> list_ex (\<lambda>r. invitation_stale cutoff r \<and> io_id r = ih_invitation_id h) (t_invitation_operations s))
        (t_invitation_hellos s)\<rparr>)) (\<lambda>_.
      op_modify (\<lambda>s. s\<lparr>t_invitation_operations := filter (\<lambda>r. \<not> invitation_stale cutoff r) (t_invitation_operations s)\<rparr>))))"

section \<open>Endpoint lists never roll back\<close>

lemma endpoint_list_verify_known:
  assumes "endpoint_list_verify cb cr b key rid known = Inr l"
  shows "endpoint_list_verify cb cr b key rid None = Inr l" and "known = Some k \<Longrightarrow> k < el_sequence l"
    and "el_realm_id l = rid" and "el_endpoints l \<noteq> []"
    and "verify_value cb cr (realm_endpoint_list_from_value cb) b ENDPOINT_CONTEXT key = Inr l"
  using assms by (auto simp: endpoint_list_verify_def result_simps not_le split: if_splits option.splits)

lemma realm_accept_effect:
  assumes "realm_accept_endpoint_list cb cr rid sobj s = (Inr l, s')"
  obtains r where "realm cb cr s = Inr (Some r)"
    "endpoint_list_verify cb cr sobj (sr_signing_public r) rid
       (if Option.bind (find (\<lambda>r. rl_realm_id r = rid) (t_realm s)) rl_endpoint_list = Some sobj then None
        else map_option el_sequence (sr_endpoint_list r)) = Inr l"
    "s' = s\<lparr>t_realm := update_rows (\<lambda>r. rl_realm_id r = rid) (\<lambda>r. r\<lparr>rl_endpoint_list := Some sobj,
       rl_endpoint_sequence := Some (as_i64 (el_sequence l)), rl_noise_public := el_realm_noise_public_key l\<rparr>) (t_realm s)\<rparr>"
  using assms unfolding realm_accept_endpoint_list_def by (auto simp: op_simps result_simps)

lemma realm_accept_result:
  assumes "realm cb cr s = Inr (Some r)"
    and "endpoint_list_verify cb cr sobj (sr_signing_public r) (sr_realm_id r)
       (if Option.bind (find (\<lambda>x. rl_realm_id x = sr_realm_id r) (t_realm s)) rl_endpoint_list = Some sobj then None
        else map_option el_sequence (sr_endpoint_list r)) = Inr l"
  shows "realm_accept_endpoint_list cb cr (sr_realm_id r) sobj s =
    (Inr l, s\<lparr>t_realm := update_rows (\<lambda>x. rl_realm_id x = sr_realm_id r) (\<lambda>x. x\<lparr>rl_endpoint_list := Some sobj,
       rl_endpoint_sequence := Some (as_i64 (el_sequence l)), rl_noise_public := el_realm_noise_public_key l\<rparr>) (t_realm s)\<rparr>)"
  unfolding realm_accept_endpoint_list_def using assms by (simp add: op_then_def)

lemma map_sum_eq_Inr_iff: "map_sum f g x = Inr y \<longleftrightarrow> (\<exists>a. x = Inr a \<and> y = g a)"
  by (cases x) auto

lemma realm_rows:
  assumes "realm cb cr s = Inr (Some r)"
  shows "\<exists>row rest. t_realm s = row # rest \<and> rl_realm_id row = sr_realm_id r \<and> rl_signing_public row = sr_signing_public r \<and>
    length (rl_signing_public row) = 32 \<and> ed_point cr (rl_signing_public row) \<and>
    rl_bootstrap_url row = sr_bootstrap_url r \<and> rl_enrolled row = sr_enrolled r \<and>
    (\<forall>l. sr_endpoint_list r = Some l \<longrightarrow> (\<exists>b. rl_endpoint_list row = Some b \<and>
       endpoint_list_verify cb cr b (sr_signing_public r) (sr_realm_id r) None = Inr l))"
proof (cases "t_realm s")
  case Nil
  with assms show ?thesis by (simp add: realm_def)
next
  case (Cons row rest)
  with assms show ?thesis
    by (auto simp: realm_def result_simps map_sum_eq_Inr_iff split: if_splits option.splits)
qed

text \<open>Endpoint lists of the realm. A list is accepted only if the realm's key signed it for this
  realm; its sequence is not below that of the list it replaces, and an equal one is the same list. The profile then
  reads that list back, with the Noise key it names, keeps everything else of the realm, and
  accepting the same bytes again changes nothing.\<close>

theorem endpoint_list_never_rolls_back:
  assumes "realm cb cr s = Inr (Some r)"
    and "realm_accept_endpoint_list cb cr (sr_realm_id r) sobj s = (Inr l, s')"
  shows "verify_value cb cr (realm_endpoint_list_from_value cb) sobj ENDPOINT_CONTEXT (sr_signing_public r) = Inr l \<and>
    el_realm_id l = sr_realm_id r \<and>
    (case sr_endpoint_list r of Some old \<Rightarrow> l = old \<or> el_sequence old < el_sequence l | None \<Rightarrow> True) \<and>
    realm cb cr s' = Inr (Some (r\<lparr>sr_noise_public := el_realm_noise_public_key l, sr_endpoint_list := Some l\<rparr>)) \<and>
    realm_accept_endpoint_list cb cr (sr_realm_id r) sobj s' = (Inr l, s')"
proof -
  let ?f = "\<lambda>r. r\<lparr>rl_endpoint_list := Some sobj, rl_endpoint_sequence := Some (as_i64 (el_sequence l)),
    rl_noise_public := el_realm_noise_public_key l\<rparr>"
  obtain r0 where "realm cb cr s = Inr (Some r0)"
    and v0: "endpoint_list_verify cb cr sobj (sr_signing_public r0) (sr_realm_id r)
       (if Option.bind (find (\<lambda>x. rl_realm_id x = sr_realm_id r) (t_realm s)) rl_endpoint_list = Some sobj then None
        else map_option el_sequence (sr_endpoint_list r0)) = Inr l"
    and s': "s' = s\<lparr>t_realm := update_rows (\<lambda>x. rl_realm_id x = sr_realm_id r) ?f (t_realm s)\<rparr>"
    by (rule realm_accept_effect [OF assms(2)]) (rule that, assumption)
  with assms(1) have r0: "r0 = r" by simp
  note v = v0 [unfolded r0]
  obtain row rest where row: "t_realm s = row # rest" "rl_realm_id row = sr_realm_id r" "rl_signing_public row = sr_signing_public r"
    "length (rl_signing_public row) = 32" "ed_point cr (rl_signing_public row)"
    "rl_bootstrap_url row = sr_bootstrap_url r" "rl_enrolled row = sr_enrolled r"
    and old: "\<And>l. sr_endpoint_list r = Some l \<Longrightarrow> \<exists>b. rl_endpoint_list row = Some b \<and>
       endpoint_list_verify cb cr b (sr_signing_public r) (sr_realm_id r) None = Inr l"
    using realm_rows [OF assms(1)] by blast
  note k = endpoint_list_verify_known [OF v]
  have stored: "Option.bind (find (\<lambda>x. rl_realm_id x = sr_realm_id r) (t_realm s)) rl_endpoint_list = rl_endpoint_list row"
    using row by simp
  have "l = o1 \<or> el_sequence o1 < el_sequence l" if o1: "sr_endpoint_list r = Some o1" for o1
  proof -
    obtain b where b: "rl_endpoint_list row = Some b"
        "endpoint_list_verify cb cr b (sr_signing_public r) (sr_realm_id r) None = Inr o1"
      using old [OF o1] by blast
    show ?thesis
    proof (cases "b = sobj")
      case True
      with b k(1) show ?thesis by simp
    next
      case False
      with b(1) o1 k(2) [of "el_sequence o1"] show ?thesis by (simp add: stored)
    qed
  qed
  then have seq: "case sr_endpoint_list r of Some o1 \<Rightarrow> l = o1 \<or> el_sequence o1 < el_sequence l | None \<Rightarrow> True"
    by (simp split: option.split)
  have t': "t_realm s' = ?f row # update_rows (\<lambda>x. rl_realm_id x = sr_realm_id r) ?f rest"
    using row(1,2) by (simp add: s')
  have r': "realm cb cr s' = Inr (Some (r\<lparr>sr_noise_public := el_realm_noise_public_key l, sr_endpoint_list := Some l\<rparr>))"
    using row k(1) by (simp add: realm_def t')
  have "update_rows (\<lambda>x. rl_realm_id x = sr_realm_id r) ?f (t_realm s') = t_realm s'"
    by (rule update_rows_id) (auto simp: s' set_update_rows)
  then have again: "realm_accept_endpoint_list cb cr (sr_realm_id r) sobj s' = (Inr l, s')"
    using realm_accept_result [OF r', of sobj l] row(2) k(1) by (simp add: t' find.simps)
  show ?thesis using k(3,5) seq r' again by simp
qed

section \<open>A batch of key packages is kept until it is acknowledged\<close>

lemma batch_roundtrip:
  assumes "cbor_codec cb" and "batch_bytes cb ps = Inr b"
  shows "batch_packages cb b = Inr ps"
proof -
  have w: "wf_value 16 (batch_value ps)"
    by (simp add: batch_value_def wf_value_numeral list_all_iff wf_v_uint_numeral)
  have "from_reader cb b = Some (batch_value ps)"
    using assms(2) by (intro cbor_codec.roundtrip [OF assms(1) _ w]) (simp add: batch_bytes_def result_simps)
  moreover have "de_list cb (de_list cb (de_u8 cb)) (batch_value ps) = Some ps"
    unfolding batch_value_def
    by (intro cbor_codec.de_list_map [OF assms(1)] cbor_codec.de_list_map [OF assms(1), where e = v_uint]
        cbor_codec.de_uint_word(1) [OF assms(1)])
  ultimately show ?thesis by (simp add: batch_packages_def)
qed

lemma prepare_effect:
  assumes "cbor_codec cb" and "prepare_key_package_replenishment cb gen dev n s = (Inr (Some p), s')"
  shows "\<exists>b. t_replenishment s' (dk_device_id (sd_keys dev)) = Some (b, pk_previous p) \<and> batch_packages cb b = Inr (pk_packages p) \<and>
    (t_replenishment s (dk_device_id (sd_keys dev)) = None \<longrightarrow>
       n \<le> KEY_PACKAGE_FLOOR \<and> pk_previous p = n \<and> unat n + length (pk_packages p) = unat KEY_PACKAGE_TARGET)"
proof (cases "t_replenishment s (dk_device_id (sd_keys dev))")
  case None
  then obtain ps b where e: "\<not> n > KEY_PACKAGE_FLOOR" "generate_packages gen (unat KEY_PACKAGE_TARGET - unat n) = Inr ps"
      "batch_bytes cb ps = Inr b" "p = \<lparr>pk_packages = ps, pk_previous = n\<rparr>"
      "t_replenishment s' (dk_device_id (sd_keys dev)) = Some (b, n)"
    using assms(2) unfolding prepare_key_package_replenishment_def
    by (auto simp: transactionally_simps op_simps pending_key_packages_def split: if_splits)
  have "n \<le> KEY_PACKAGE_FLOOR" using e(1) by simp
  moreover from this have "unat n \<le> 3" by (simp add: KEY_PACKAGE_FLOOR_def word_le_nat_alt)
  moreover have "length ps = unat KEY_PACKAGE_TARGET - unat n"
    using e(2) collect_results_length by (fastforce simp: generate_packages_def)
  ultimately show ?thesis
    using e batch_roundtrip [OF assms(1) e(3)] by (simp add: KEY_PACKAGE_TARGET_def)
next
  case (Some x)
  with assms(2) show ?thesis
    unfolding prepare_key_package_replenishment_def
    by (cases x) (auto simp: transactionally_simps op_simps pending_key_packages_def result_simps)
qed

definition packages_kept :: "bytes set \<Rightarrow> client \<Rightarrow> client \<Rightarrow> bool" where
  "packages_kept D s s' \<longleftrightarrow> (\<forall>d. (t_initial_key_packages s d = Some None \<longrightarrow> t_initial_key_packages s' d = Some None) \<and>
     (d \<in> D \<longrightarrow> (\<forall>x. t_initial_key_packages s d = Some x \<longrightarrow> t_initial_key_packages s' d = Some x) \<and>
       (\<forall>y. t_replenishment s d = Some y \<longrightarrow> t_replenishment s' d = Some y)))"

interpretation packages: table_order "packages_kept D" for D
  by standard (simp_all add: packages_kept_def)

lemma packages_same:
  "t_initial_key_packages s' = t_initial_key_packages s \<Longrightarrow> t_replenishment s' = t_replenishment s \<Longrightarrow> packages_kept D s s'"
  by (simp add: packages_kept_def)

lemma device_inserts_packages:
  "op_grows (packages_kept D) (insert_identity row)" "op_grows (packages_kept D) (insert_device g c h)"
  "op_grows (packages_kept D) (insert_own_device d h)" "op_grows (packages_kept D) (insert_manifest i st sm)"
  "op_grows (packages_kept D) (insert_recovery dg n)" "op_grows (packages_kept D) (realm_save i k np u)"
  by (auto simp: op_grows_def insert_identity_def insert_device_def insert_own_device_def insert_manifest_def
      insert_recovery_def realm_save_def intro!: packages_same split: option.split)

lemma reads_packages: "op_reads m \<Longrightarrow> op_grows (packages_kept D) m"
  by (rule packages.grows_reads)

lemma recovery_prepare_packages: "op_grows (packages_kept D) (recovery_prepare cb cr gen kit digest rl now)"
  unfolding recovery_prepare_def identity_restore_in_unit_def device_new_in_unit_def
  by (intro packages.grows_transactionally packages.grows_then packages.grows_if packages.grows_prod reads_packages
      op_reads_basic device_inserts_packages)

lemma key_package_ops_kept:
  "op_grows (packages_kept D) (initial_key_packages cb gen dev)"
  "op_grows (packages_kept D) (prepare_key_package_replenishment cb gen dev n)"
  "i \<notin> D \<Longrightarrow> op_grows (packages_kept D) (initial_key_packages_acknowledged i)"
  "i \<notin> D \<Longrightarrow> op_grows (packages_kept D) (key_package_replenishment_acknowledged i)"
  "op_grows (packages_kept {}) (initial_key_packages_acknowledged i)"
proof -
  show "op_grows (packages_kept D) (initial_key_packages cb gen dev)"
    unfolding initial_key_packages_def op_grows_def transactionally_def
    by (auto simp: op_then_def packages_kept_def split: option.splits sum.splits)
  show "op_grows (packages_kept D) (prepare_key_package_replenishment cb gen dev n)"
    unfolding prepare_key_package_replenishment_def op_grows_def transactionally_def
    by (auto simp: op_then_def packages_kept_def pending_key_packages_def result_simps split: option.splits sum.splits)
qed (auto simp: op_grows_def packages_kept_def initial_key_packages_acknowledged_def
    key_package_replenishment_acknowledged_def split: option.splits)

text \<open>Every operation of this theory, as a step. The acknowledgements of \<open>enrollment_step D\<close> are for devices
  outside \<open>D\<close>.\<close>

inductive enrollment_step :: "bytes set \<Rightarrow> client \<Rightarrow> client \<Rightarrow> bool" for D where
  "enrollment_step D s (snd (realm_save i k np u s))"
| "enrollment_step D s (snd (realm_accept_endpoint_list cb cr i sobj s))"
| "enrollment_step D s (snd (realm_mark_enrolled i s))"
| "enrollment_step D s (snd (enrollment_save now p s))"
| "enrollment_step D s (snd (initial_key_packages cb gen dev s))"
| "i \<notin> D \<Longrightarrow> enrollment_step D s (snd (initial_key_packages_acknowledged i s))"
| "enrollment_step D s (snd (key_package_observe i n at s))"
| "enrollment_step D s (snd (prepare_key_package_replenishment cb gen dev n s))"
| "i \<notin> D \<Longrightarrow> enrollment_step D s (snd (key_package_replenishment_acknowledged i s))"
| "enrollment_step D s (snd (mailbox_request gq s))"
| "enrollment_step D s (snd (mailbox_save now m s))"
| "enrollment_step D s (snd (kit_exported sq at s))"
| "enrollment_step D s (snd (kit_confirm_saved at s))"
| "enrollment_step D s (snd (recovery_prepare cb cr gm kit digest rl at s))"
| "enrollment_step D s (snd (recovery_accepted sq s))"
| "enrollment_step D s (snd (recovery_complete s))"
| "enrollment_step D s (snd (upload_save path u' s))"
| "enrollment_step D s (snd (upload_clear path s))"
| "enrollment_step D s (snd (invitation_rejected_enrollment i s))"
| "enrollment_step D s (snd (invitation_operation_save row s))"
| "enrollment_step D s (snd (invitation_hello_save h s))"
| "enrollment_step D s (snd (invitation_hello_remove grp s))"
| "enrollment_step D s (snd (invitation_cleanup now s))"

lemma enrollment_frames:
  "op_grows (packages_kept D) (realm_accept_endpoint_list cb cr i sobj)" "op_grows (packages_kept D) (realm_mark_enrolled i)"
  "op_grows (packages_kept D) (enrollment_save now p)" "op_grows (packages_kept D) (key_package_observe i n at)"
  "op_grows (packages_kept D) (mailbox_request gq)" "op_grows (packages_kept D) (mailbox_save now m)"
  "op_grows (packages_kept D) (kit_exported sq at)" "op_grows (packages_kept D) (kit_confirm_saved at)"
  "op_grows (packages_kept D) (recovery_accepted sq)" "op_grows (packages_kept D) recovery_complete"
  "op_grows (packages_kept D) (upload_save path u)" "op_grows (packages_kept D) (upload_clear path)"
  "op_grows (packages_kept D) (invitation_rejected_enrollment i)" "op_grows (packages_kept D) (invitation_operation_save row)"
  "op_grows (packages_kept D) (invitation_hello_save h)" "op_grows (packages_kept D) (invitation_hello_remove grp)"
  "op_grows (packages_kept D) (invitation_cleanup now)"
proof -
  show "op_grows (packages_kept D) (realm_accept_endpoint_list cb cr i sobj)"
    unfolding realm_accept_endpoint_list_def
    by (intro packages.grows_then reads_packages op_reads_basic packages.grows_modify packages_same) simp_all
  show "op_grows (packages_kept D) (mailbox_request gq)"
    unfolding mailbox_request_def op_grows_def
    by (simp add: op_then_def packages_same packages.same split: option.split sum.split)
  show "op_grows (packages_kept D) (kit_confirm_saved at)"
    unfolding kit_confirm_saved_def op_grows_def Let_def by (simp add: packages_same packages.same split: option.split)
  show "op_grows (packages_kept D) (invitation_rejected_enrollment i)"
    unfolding invitation_rejected_enrollment_def op_grows_def by (simp add: packages_same packages.same)
  show "op_grows (packages_kept D) (invitation_cleanup now)"
    unfolding invitation_cleanup_def Let_def
    by (intro packages.grows_then packages.grows_modify packages_same) simp_all
qed (unfold realm_mark_enrolled_def enrollment_save_def key_package_observe_def mailbox_save_def kit_exported_def
    recovery_accepted_def recovery_complete_def upload_save_def upload_clear_def invitation_operation_save_def
    invitation_hello_save_def invitation_hello_remove_def,
    (rule packages.grows_modify, rule packages_same, simp, simp)+)

lemma enrollment_steps_keep: "(enrollment_step D)\<^sup>*\<^sup>* s s' \<Longrightarrow> packages_kept D s s'"
proof (rule packages.grows_runs)
  fix s s' assume "enrollment_step D s s'"
  then show "packages_kept D s s'"
    by cases (use enrollment_frames key_package_ops_kept device_inserts_packages recovery_prepare_packages in
      \<open>auto simp: op_grows_def\<close>)
qed

text \<open>Replenishing key packages. A batch that was prepared fills the supply up to the target, and only when
  the realm reported no more than the floor. Whatever else the client does, until that device's batch is acknowledged every
  later preparation, with any count, returns the same packages and changes nothing: no private key
  is left without its published package.\<close>

theorem replenishment_batch_kept:
  assumes "cbor_codec cb" and "prepare_key_package_replenishment cb gen dev n s = (Inr (Some p), s1)"
    and "(enrollment_step {dk_device_id (sd_keys dev)})\<^sup>*\<^sup>* s1 s2"
  shows "prepare_key_package_replenishment cb gen' dev n' s2 = (Inr (Some p), s2) \<and>
    (t_replenishment s (dk_device_id (sd_keys dev)) = None \<longrightarrow>
       n \<le> KEY_PACKAGE_FLOOR \<and> pk_previous p = n \<and> unat n + length (pk_packages p) = unat KEY_PACKAGE_TARGET)"
proof -
  let ?d = "dk_device_id (sd_keys dev)"
  obtain b where b: "t_replenishment s1 ?d = Some (b, pk_previous p)" "batch_packages cb b = Inr (pk_packages p)"
    and fresh: "t_replenishment s ?d = None \<longrightarrow>
       n \<le> KEY_PACKAGE_FLOOR \<and> pk_previous p = n \<and> unat n + length (pk_packages p) = unat KEY_PACKAGE_TARGET"
    using prepare_effect [OF assms(1,2)] by (elim exE conjE) (rule that, assumption)
  have "t_replenishment s2 ?d = Some (b, pk_previous p)"
    using enrollment_steps_keep [OF assms(3)] b(1) by (auto simp: packages_kept_def)
  then have "pending_key_packages cb ?d s2 = Inr (Some p)" using b(2) by (simp add: pending_key_packages_def)
  then show ?thesis
    using fresh by (simp add: prepare_key_package_replenishment_def transactionally_def op_then_def)
qed

text \<open>The initial key packages. Five packages are prepared once: until they are acknowledged the
  same five are returned, and after the acknowledgement no further run of the client ever prepares an
  initial batch for that device again.\<close>

theorem initial_batch_once:
  assumes "cbor_codec cb" and "initial_key_packages cb gen dev s = (Inr (Some ps), s1)"
    and "t_initial_key_packages s (dk_device_id (sd_keys dev)) = None"
    and "(enrollment_step {dk_device_id (sd_keys dev)})\<^sup>*\<^sup>* s1 s2"
    and "initial_key_packages_acknowledged (dk_device_id (sd_keys dev)) s2 = (r, s3)" and "(enrollment_step {})\<^sup>*\<^sup>* s3 s4"
  shows "length ps = 5 \<and> initial_key_packages cb gen' dev s2 = (Inr (Some ps), s2) \<and> r = Inr () \<and>
    initial_key_packages cb gen' dev s4 = (Inr None, s4)"
proof -
  let ?d = "dk_device_id (sd_keys dev)"
  obtain b where g: "generate_packages gen 5 = Inr ps" and b: "batch_bytes cb ps = Inr b" "t_initial_key_packages s1 ?d = Some (Some b)"
    using assms(2,3) unfolding initial_key_packages_def
    by (auto simp: transactionally_simps op_simps split: if_splits option.splits)
  have s2: "t_initial_key_packages s2 ?d = Some (Some b)"
    using enrollment_steps_keep [OF assms(4)] b(2) by (auto simp: packages_kept_def)
  then have s3: "r = Inr ()" "t_initial_key_packages s3 ?d = Some None"
    using assms(5) by (auto simp: initial_key_packages_acknowledged_def)
  then have "t_initial_key_packages s4 ?d = Some None"
    using enrollment_steps_keep [OF assms(6)] by (auto simp: packages_kept_def)
  moreover have "length ps = 5" using g collect_results_length by (fastforce simp: generate_packages_def)
  ultimately show ?thesis
    using s2 s3 batch_roundtrip [OF assms(1) b(1)]
    by (simp add: initial_key_packages_def transactionally_def op_then_def)
qed

section \<open>Recovering an identity\<close>

lemma restore_in_unit_effect:
  assumes "identity_restore_in_unit cb cr seed sm s = (Inr i, s')"
  shows "t_identity s = None \<and> client_identity_id s' = Some (identity_id cr (ed_public cr seed)) \<and>
    t_identity_recovery s' = t_identity_recovery s"
  using assms unfolding identity_restore_in_unit_def
  by (auto simp: op_simps client_identity_id_def insert_identity_def insert_manifest_def split: if_splits option.splits)

lemma device_new_in_unit_effect:
  assumes "device_new_in_unit cb cr now gen s = (Inr d, s')"
  shows "t_device s' \<noteq> [] \<and> t_identity s' = t_identity s \<and> t_identity_recovery s' = t_identity_recovery s"
  using assms unfolding device_new_in_unit_def
  by (auto simp: op_simps insert_device_def insert_manifest_def insert_own_device_def split: if_splits option.splits)

text \<open>Recovery of an identity. It is prepared all or nothing, and only on a profile with no identity, no
  device and no enrollment; it restores the identity of the kit's root key, gives this device its own keys and
  records the request. The record cannot be completed before the realm accepted it; the sequence the
  realm first answered with is the one that stays.\<close>

theorem recovery_in_order:
  assumes "recovery_prepare cb cr gen kit digest rl now s = (r, s')"
  shows "if r = Inr () then
      t_identity s = None \<and> t_device s = [] \<and> t_enrollment s = None \<and>
      client_identity_id s' = Some (identity_id cr (ed_public cr (ik_root_seed kit))) \<and> t_device s' \<noteq> [] \<and>
      recovery_progress s' = Some \<lparr>rp_request_digest = digest, rp_kit_sequence = ik_manifest_sequence kit,
        rp_previous_sequence = None, rp_complete = False\<rparr> \<and>
      recovery_complete s' = (Inr (), s') \<and>
      recovery_progress (snd (recovery_complete (snd (recovery_accepted n' (snd (recovery_accepted n s')))))) =
        Some \<lparr>rp_request_digest = digest, rp_kit_sequence = ik_manifest_sequence kit,
        rp_previous_sequence = Some n, rp_complete = True\<rparr>
    else s' = s"
proof (cases r)
  case (Inl e)
  with assms show ?thesis by (auto simp: recovery_prepare_def transactionally_simps)
next
  case (Inr u)
  with assms obtain d t i v dd w where d: "device s = Inr d" "d = None" "enrollment s = None"
      and i: "identity_restore_in_unit cb cr (ik_root_seed kit) (ik_latest_manifest kit) s = (Inr i, t)"
      and dn: "device_new_in_unit cb cr now gen t = (Inr dd, v)"
      and w: "realm_save (sr_realm_id rl) (sr_signing_public rl) (sr_noise_public rl) (sr_bootstrap_url rl) v = (Inr (), w)"
      and ins: "insert_recovery digest (ik_manifest_sequence kit) w = (Inr (), s')"
    unfolding recovery_prepare_def by (auto simp: transactionally_simps op_simps split: if_splits)
  have "t_device s = []" using d by (auto simp: device_def split: list.splits if_splits)
  moreover have "t_enrollment s = None" using d(3) by (simp add: enrollment_def)
  moreover have "t_device s' = t_device v" "t_identity s' = t_identity v"
    using w ins by (auto simp: realm_save_def insert_recovery_def split: if_splits)
  moreover have "t_identity_recovery s' = Some \<lparr>rc_request_digest = digest, rc_kit_sequence = as_i64 (ik_manifest_sequence kit),
      rc_previous_sequence = None, rc_complete = False\<rparr>"
    using ins by (auto simp: insert_recovery_def split: if_splits)
  moreover note restore_in_unit_effect [OF i] device_new_in_unit_effect [OF dn]
  ultimately show ?thesis
    using Inr by (simp add: client_identity_id_def recovery_progress_def recovery_complete_def recovery_accepted_def)
qed

section \<open>Cleaning up invitations\<close>

text \<open>The clean-up of invitations. It forgets an invitation this person sent only when more than 37 days
  have passed since it expired, with the greetings that answered it; it erases the secrets of a received one
  only when that is complete; every other invitation and greeting stays exactly as it was.\<close>

theorem invitation_cleanup_keeps:
  assumes "invitation_cleanup now s = (r, s')"
  shows "r = Inr () \<and>
    t_invitation_operations s' =
      map (\<lambda>x. if io_direction x = ''incoming'' \<and> io_state x = ''complete''
               then x\<lparr>io_link := '''', io_secret := [], io_key_package := []\<rparr> else x)
        (filter (\<lambda>x. \<not> (io_direction x = ''outgoing'' \<and> io_expires_at x + 37 * 24 * 3600 < now)) (t_invitation_operations s)) \<and>
    t_invitation_hellos s' = filter (\<lambda>h. \<forall>x \<in> set (t_invitation_operations s). io_id x = ih_invitation_id h \<longrightarrow>
        \<not> (io_direction x = ''outgoing'' \<and> io_expires_at x + 37 * 24 * 3600 < now)) (t_invitation_hellos s)"
proof -
  define c where "c = now - 37 * 24 * 3600"
  let ?c = c
  let ?f = "\<lambda>x :: invitation_operation. x\<lparr>io_link := '''', io_secret := [], io_key_package := []\<rparr>"
  let ?P = "\<lambda>x :: invitation_operation. invitation_stale ?c x \<or> io_direction x = ''incoming'' \<and> io_state x = ''complete''"
  have stale: "invitation_stale ?c (?f x) = invitation_stale ?c x" "invitation_stale ?c x \<longleftrightarrow>
      io_direction x = ''outgoing'' \<and> io_expires_at x + 37 * 24 * 3600 < now" for x
    by (auto simp: invitation_stale_def c_def)
  have ops: "filter (\<lambda>x. \<not> invitation_stale ?c x) (update_rows ?P ?f rows) =
      map (\<lambda>x. if io_direction x = ''incoming'' \<and> io_state x = ''complete'' then ?f x else x)
        (filter (\<lambda>x. \<not> invitation_stale ?c x) rows)" for rows
    by (induction rows) (auto simp: stale(1))
  have ex: "list_ex (\<lambda>x. invitation_stale ?c x \<and> io_id x = h) (update_rows ?P ?f rows) \<longleftrightarrow>
      (\<exists>x \<in> set rows. invitation_stale ?c x \<and> io_id x = h)" for h rows
    by (induction rows) (auto simp: stale(1))
  have "s' = s\<lparr>t_invitation_operations := filter (\<lambda>x. \<not> invitation_stale ?c x) (update_rows ?P ?f (t_invitation_operations s)),
      t_invitation_hellos := filter (\<lambda>h. \<not> list_ex (\<lambda>x. invitation_stale ?c x \<and> io_id x = ih_invitation_id h)
        (update_rows ?P ?f (t_invitation_operations s))) (t_invitation_hellos s)\<rparr> \<and> r = Inr ()"
    using assms unfolding invitation_cleanup_def Let_def c_def [symmetric] by (auto simp: op_then_def)
  then show ?thesis by (simp add: ops ex) (auto simp: stale(2) intro!: filter_cong)
qed

section \<open>Witnesses\<close>

definition demo_stored_device :: stored_device where
  "demo_stored_device = \<lparr>sd_keys = \<lparr>dk_device_id = [1], dk_transport_noise = ([], []), dk_envelope_hpke = ([], []),
     dk_mls_signing_public_key = []\<rparr>, sd_mls_signing_secret = [], sd_credential = [], sd_credential_hash = []\<rparr>"

lemma demo_batch: "n \<le> 10 \<Longrightarrow> \<exists>b. batch_bytes rfc_cbor (replicate n [7]) = Inr b"
proof -
  assume n: "n \<le> 10"
  have "wf_value 16 (batch_value (replicate n [7]))"
    by (simp add: batch_value_def wf_value_numeral list_all_iff wf_v_uint_numeral)
  moreover have "cbor_size (batch_value (replicate n [7])) < 2 ^ 64"
    using n by (simp add: batch_value_def head_size_def v_uint_def sum_list_replicate)
  ultimately show ?thesis
    using rfc.encodes [of "batch_value (replicate n [7])"] by (auto simp: batch_bytes_def)
qed

lemma demo_generate: "generate_packages (\<lambda>_. Inr [7]) n = Inr (replicate n [7])"
  unfolding generate_packages_def by (simp add: map_replicate_const) (induction n, auto)

theorem replenishment_batch_kept_witness:
  "\<exists>p s1. prepare_key_package_replenishment rfc_cbor (\<lambda>_. Inr [7]) demo_stored_device 2 client_new = (Inr (Some p), s1) \<and>
     length (pk_packages p) = 8 \<and>
     prepare_key_package_replenishment rfc_cbor (\<lambda>_. Inl ClMls) demo_stored_device 9 s1 = (Inr (Some p), s1)"
proof -
  obtain b where "batch_bytes rfc_cbor (replicate 8 [7]) = Inr b" using demo_batch [of 8] by auto
  then obtain p s1 where e: "prepare_key_package_replenishment rfc_cbor (\<lambda>_. Inr [7]) demo_stored_device 2 client_new = (Inr (Some p), s1)"
    by (simp add: prepare_key_package_replenishment_def transactionally_def op_then_def pending_key_packages_def client_new_def
        KEY_PACKAGE_FLOOR_def KEY_PACKAGE_TARGET_def demo_generate)
  have "t_replenishment client_new (dk_device_id (sd_keys demo_stored_device)) = None" by (simp add: client_new_def)
  with replenishment_batch_kept [OF rfc.cbor_codec_axioms e rtranclp.rtrancl_refl, of "\<lambda>_. Inl ClMls" 9] e show ?thesis
    by (auto simp: KEY_PACKAGE_TARGET_def)
qed

theorem initial_batch_once_witness:
  "\<exists>ps s1 s3. initial_key_packages rfc_cbor (\<lambda>_. Inr [7]) demo_stored_device client_new = (Inr (Some ps), s1) \<and>
     length ps = 5 \<and> initial_key_packages rfc_cbor (\<lambda>_. Inl ClMls) demo_stored_device s1 = (Inr (Some ps), s1) \<and>
     initial_key_packages_acknowledged [1] s1 = (Inr (), s3) \<and>
     initial_key_packages rfc_cbor (\<lambda>_. Inl ClMls) demo_stored_device s3 = (Inr None, s3)"
proof -
  obtain b where "batch_bytes rfc_cbor (replicate 5 [7]) = Inr b" using demo_batch [of 5] by auto
  then obtain ps s1 where e: "initial_key_packages rfc_cbor (\<lambda>_. Inr [7]) demo_stored_device client_new = (Inr (Some ps), s1)"
    by (simp add: initial_key_packages_def transactionally_def op_then_def enrollment_def client_new_def demo_generate)
  obtain r s3 where a: "initial_key_packages_acknowledged [1] s1 = (r, s3)" by fastforce
  have i: "dk_device_id (sd_keys demo_stored_device) = [1]" by (simp add: demo_stored_device_def)
  from initial_batch_once [OF rfc.cbor_codec_axioms e _ rtranclp.rtrancl_refl, unfolded i, OF _ a rtranclp.rtrancl_refl,
      of "\<lambda>_. Inl ClMls"] e a
  show ?thesis by (auto simp: client_new_def)
qed

theorem invitation_cleanup_keeps_witness:
  "\<exists>s'. invitation_cleanup 5000000 (client_new\<lparr>t_invitation_operations := [
       \<lparr>io_id = [1], io_direction = ''incoming'', io_link = ''l'', io_request_key = [], io_claim_key = [], io_secret = [9],
        io_state = ''prepared'', io_created_at = 1, io_expires_at = 2, io_claimant = [], io_group_id = [], io_key_package = [8],
        io_checked_at = 0\<rparr>]\<rparr>) = (Inr (), s') \<and> length (t_invitation_operations s') = 1"
proof -
  let ?s = "client_new\<lparr>t_invitation_operations := [
       \<lparr>io_id = [1], io_direction = ''incoming'', io_link = ''l'', io_request_key = [], io_claim_key = [], io_secret = [9],
        io_state = ''prepared'', io_created_at = 1, io_expires_at = 2, io_claimant = [], io_group_id = [], io_key_package = [8],
        io_checked_at = 0\<rparr>]\<rparr>"
  obtain r s' where e: "invitation_cleanup 5000000 ?s = (r, s')" by fastforce
  from invitation_cleanup_keeps [OF e] e show ?thesis by auto
qed

theorem endpoint_list_never_rolls_back_witness:
  "\<exists>sobj s s' r l. realm rfc_cbor demo_crypto s = Inr (Some r) \<and> sr_endpoint_list r = None \<and>
     realm_accept_endpoint_list rfc_cbor demo_crypto [7] sobj s = (Inr l, s') \<and>
     realm_accept_endpoint_list rfc_cbor demo_crypto [7] sobj s' = (Inr l, s')"
proof -
  obtain sobj l where v: "endpoint_list_verify rfc_cbor demo_crypto sobj (ed_public demo_crypto [9]) [7] (Some 0) = Inr l"
    using demo_endpoint_list_verifies by blast
  let ?s = "snd (realm_save [7] (ed_public demo_crypto [9]) [] ''ws'' client_new)"
  let ?r = "\<lparr>sr_realm_id = [7], sr_signing_public = ed_public demo_crypto [9], sr_noise_public = [], sr_bootstrap_url = ''ws'',
    sr_endpoint_list = None, sr_enrolled = False\<rparr>"
  have r: "realm rfc_cbor demo_crypto ?s = Inr (Some ?r)"
    using demo_crypto_ok by (simp add: realm_def realm_save_def client_new_def upsert_row_def crypto_ok_def)
  obtain s' where e: "realm_accept_endpoint_list rfc_cbor demo_crypto (sr_realm_id ?r) sobj ?s = (Inr l, s')"
    using realm_accept_result [OF r, of sobj l] endpoint_list_verify_known(1) [OF v] by simp
  from endpoint_list_never_rolls_back [OF r e] r e show ?thesis
    by (intro exI [of _ sobj] exI [of _ ?s] exI [of _ s'] exI [of _ ?r] exI [of _ l]) simp
qed

definition demo_kit :: "bytes \<Rightarrow> identity_kit" where
  "demo_kit sm = \<lparr>ik_version = 1, ik_root_seed = demo_seed, ik_identity_id = [], ik_manifest_sequence = 1,
     ik_latest_manifest = sm, ik_exported_at = 0\<rparr>"

definition demo_material :: device_material where
  "demo_material = \<lparr>gm_device_id = replicate 16 1, gm_mls_secret = [], gm_mls_public = [], gm_noise = ([], []), gm_hpke = ([], [])\<rparr>"

lemma demo_restore:
  assumes sm: "issue_manifest rfc_cbor demo_crypto demo_seed None [replicate 32 1] [] = Inr sm"
  obtains i t b where "identity_restore_in_unit rfc_cbor demo_crypto demo_seed sm client_new = (Inr i, t)"
    "client_root t = Inr (Some demo_seed)" "manifest_room 1 t" "t_device t = []" "t_identity_devices t = []" "t_identity_recovery t = None"
    "latest_manifest_body rfc_cbor demo_crypto t = Inr (Some b)" "dm_active_credential_hashes b = [replicate 32 1]"
    "dm_revoked_credential_hashes b = []" "\<And>k. client_manifest_state t = Some k \<Longrightarrow> length (ms_hash k) = 32"
proof -
  let ?pk = "ed_public demo_crypto demo_seed"
  obtain b st where a: "accept_manifest rfc_cbor demo_crypto sm ?pk None = Inr (b, st)"
    and h: "dm_active_credential_hashes b = [replicate 32 1]" "dm_revoked_credential_hashes b = []"
    and q: "ms_sequence st = (case None of None \<Rightarrow> 1 | Some k \<Rightarrow> ms_sequence k + 1)"
    by (rule issue_accept [OF rfc.cbor_codec_axioms demo_crypto_ok sm]) auto
  have id: "dm_identity_id b = identity_id demo_crypto ?pk" "ms_hash st = manifest_hash demo_crypto sm"
    using accept_manifest_cases [OF a] by simp_all
  let ?t = "client_new\<lparr>t_identity := Some \<lparr>ir_root_seed = Some demo_seed, ir_root_public = ?pk, ir_identity_id = identity_id demo_crypto ?pk\<rparr>,
    t_manifest := [\<lparr>mr_identity_id = dm_identity_id b, mr_sequence = as_i64 (ms_sequence st), mr_signed = sm, mr_hash = ms_hash st\<rparr>]\<rparr>"
  have k: "length ?pk = 32" "ed_point demo_crypto ?pk" using demo_crypto_ok by (simp_all add: crypto_ok_def)
  have one: "as_i64 1 = 1" by (simp add: as_i64_def)
  show thesis
  proof (rule that [of "identity_id demo_crypto ?pk" ?t b])
    show "identity_restore_in_unit rfc_cbor demo_crypto demo_seed sm client_new = (Inr (identity_id demo_crypto ?pk), ?t)"
      using a id by (simp add: identity_restore_in_unit_def op_then_def client_identity_id_def client_new_def demo_seed_def
          insert_identity_def insert_manifest_def)
    show "client_root ?t = Inr (Some demo_seed)" by (simp add: client_root_def demo_seed_def)
    show "manifest_room 1 ?t" using q one by (simp add: manifest_room_def)
    show "latest_manifest_body rfc_cbor demo_crypto ?t = Inr (Some b)"
      using a k by (simp add: latest_manifest_body_def latest_manifest_def newest_manifest_def root_public_def)
    show "length (ms_hash m) = 32" if "client_manifest_state ?t = Some m" for m
      using that id(2) by (simp add: client_manifest_state_def newest_manifest_def manifest_hash_def) auto
  qed (simp_all add: client_new_def h)
qed

theorem recovery_in_order_witness:
  "\<exists>sm s'. recovery_prepare rfc_cbor demo_crypto (Inr demo_material) (demo_kit sm) [3] \<lparr>sr_realm_id = [7], sr_signing_public = [],
       sr_noise_public = [], sr_bootstrap_url = [], sr_endpoint_list = None, sr_enrolled = False\<rparr> 1000 client_new = (Inr (), s') \<and>
     recovery_complete s' = (Inr (), s')"
proof -
  let ?pk = "ed_public demo_crypto demo_seed"
  let ?rl = "\<lparr>sr_realm_id = [7], sr_signing_public = [], sr_noise_public = [], sr_bootstrap_url = [], sr_endpoint_list = None, sr_enrolled = False\<rparr>"
  obtain sm where sm: "issue_manifest rfc_cbor demo_crypto demo_seed None [replicate 32 1] [] = Inr sm"
    using issue_manifest_ok [OF demo_crypto_ok, of "[replicate 32 1]" "[]" None demo_seed] by auto
  obtain i t b where i: "identity_restore_in_unit rfc_cbor demo_crypto demo_seed sm client_new = (Inr i, t)"
    and t: "client_root t = Inr (Some demo_seed)" "manifest_room 1 t" "t_device t = []" "t_identity_devices t = []" "t_identity_recovery t = None"
    and b: "latest_manifest_body rfc_cbor demo_crypto t = Inr (Some b)" "dm_active_credential_hashes b = [replicate 32 1]"
      "dm_revoked_credential_hashes b = []" and p: "\<And>k. client_manifest_state t = Some k \<Longrightarrow> length (ms_hash k) = 32"
    by (rule demo_restore [OF sm]) (rule that, assumption)
  let ?dp = "device_keys_public (material_keys demo_material)"
  obtain c where c: "issue_credential rfc_cbor demo_crypto demo_seed ?dp (default_validity 1000) all_uses = Inr c"
    using issue_credential_ok [OF demo_crypto_ok, of ?dp demo_seed]
    by (fastforce simp: demo_material_def material_keys_def device_keys_public_def)
  let ?h = "credential_hash demo_crypto c"
  obtain m2 where m2: "issue_manifest rfc_cbor demo_crypto demo_seed (client_manifest_state t) [?h] [replicate 32 1] = Inr m2"
    using issue_manifest_ok [OF demo_crypto_ok, of "[?h]" "[replicate 32 1]" "client_manifest_state t" demo_seed] p
    by (auto simp: credential_hash_def)
  have room: "manifest_room (Suc 0) t" using t(2) by simp
  obtain b2 st2 u where u: "accept_manifest rfc_cbor demo_crypto m2 ?pk (client_manifest_state t) = Inr (b2, st2)"
      "insert_manifest (dm_identity_id b2) st2 m2 t = (Inr (), u)"
    using insert_next_ok [OF demo_crypto_ok room m2] by blast
  have dn: "\<exists>d v. device_new_in_unit rfc_cbor demo_crypto 1000 (Inr demo_material) t = (Inr d, v) \<and> t_identity_recovery v = None"
    using t b c m2 u
    by (auto simp: device_new_in_unit_def op_then_def insert_device_def insert_own_device_def insert_manifest_def split: if_splits)
  then obtain d v where v: "device_new_in_unit rfc_cbor demo_crypto 1000 (Inr demo_material) t = (Inr d, v)" "t_identity_recovery v = None"
    by blast
  have "\<exists>s'. recovery_prepare rfc_cbor demo_crypto (Inr demo_material) (demo_kit sm) [3] ?rl 1000 client_new = (Inr (), s')"
    using i v
    by (simp add: recovery_prepare_def transactionally_def op_then_def device_def enrollment_def client_new_def demo_kit_def
        realm_save_def insert_recovery_def)
  then obtain s' where e: "recovery_prepare rfc_cbor demo_crypto (Inr demo_material) (demo_kit sm) [3] ?rl 1000 client_new = (Inr (), s')"
    by blast
  from recovery_in_order [OF e] e show ?thesis by auto
qed

end
