(* ===== verification/Client_Archive.thy ===== *)
theory Client_Archive
  imports Client_Devices Recovery
begin

text \<open>
  Imported history: \<open>archive_import\<close>, \<open>archived\<close> and \<open>archived_groups\<close> of
  \<open>core/crates/arveil-core/src/client.rs\<close>, and \<open>archive_store.rs\<close>: the snapshot that an export seals, the pages and the
  files. The table \<open>events\<close> belongs to the delivery store, so the snapshot reads both records.

  Shown: an import adds every record that is not there yet, exactly once, and never changes one that
  is; a snapshot imported into a fresh profile gives back the same history; pages and files read what
  was imported.
\<close>

section \<open>Import\<close>

definition row_of_record :: "archive_record \<Rightarrow> archived_row" where
  "row_of_record r = \<lparr>ae_group_id = ar_group_id r, ae_event_id = ar_event_id r, ae_kind = ar_kind r, ae_body = ar_body r,
     ae_created_at = ar_created_at r, ae_file_name = ar_file_name r, ae_sender_identity = ar_sender_identity r\<rparr>"

text \<open>One record: \<open>INSERT OR IGNORE\<close>, and the file only with a new row. The result says whether it was new.\<close>

definition import_record :: "archive_record \<Rightarrow> bool client_op" where
  "import_record r s =
     (if \<exists>a \<in> set (t_archived_events s). ae_group_id a = ar_group_id r \<and> ae_event_id a = ar_event_id r then (Inr False, s)
      else let s' = s\<lparr>t_archived_events := t_archived_events s @ [row_of_record r]\<rparr> in
        if ar_file_present r \<or> ar_file r \<noteq> [] then
          if t_archived_files s' (ar_group_id r, ar_event_id r) \<noteq> None then (Inl (ClSqlite ConstraintViolation), s')
          else (Inr True, s'\<lparr>t_archived_files := (t_archived_files s')((ar_group_id r, ar_event_id r) \<mapsto> ar_file r)\<rparr>)
        else (Inr True, s'))"

fun import_records :: "archive_record list \<Rightarrow> nat \<Rightarrow> nat \<Rightarrow> (nat \<times> nat) client_op" where
  "import_records [] new dup = op_return (new, dup)"
| "import_records (r # rs) new dup =
     op_then (import_record r) (\<lambda>b. if b then import_records rs (new + 1) dup else import_records rs new (dup + 1))"

definition archive_import :: "archive_record list \<Rightarrow> (nat \<times> nat) client_op" where
  "archive_import records = transactionally (import_records records 0 0)"

section \<open>Reading\<close>

record archived_view =
  av_kind :: string
  av_body :: bytes
  av_created_at :: int
  av_sender_identity :: "bytes option"

definition archived :: "bytes \<Rightarrow> client \<Rightarrow> archived_view list" where
  "archived grp s =
     map (\<lambda>a. \<lparr>av_kind = ae_kind a, av_body = ae_body a, av_created_at = ae_created_at a, av_sender_identity = ae_sender_identity a\<rparr>)
       (sort_key (\<lambda>a. (ae_created_at a, ae_event_id a)) (filter (\<lambda>a. ae_group_id a = grp) (t_archived_events s)))"

definition archived_groups :: "client \<Rightarrow> bytes list" where
  "archived_groups s =
     sort (remdups (map ae_group_id (filter (\<lambda>a. \<not> list_ex (\<lambda>c. cv_group_id c = ae_group_id a) (t_conversations s))
       (t_archived_events s))))"

text \<open>The author of a live event: the identity stored with it, the roster's identity for its device, or this profile's
  own for what this device sent.\<close>

definition live_sender :: "client \<Rightarrow> event_row \<Rightarrow> bytes option" where
  "live_sender s e =
     (case ev_sender_identity e of
        Some i \<Rightarrow> Some i
      | None \<Rightarrow>
          (case find (\<lambda>p. pr_group_id p = ev_group_id e \<and> Some (pr_device_id p) = ev_sender_device e) (t_peers s) of
             Some p \<Rightarrow> Some (pr_identity p)
           | None \<Rightarrow> if ev_kind e \<in> set OWN_KINDS then client_identity_id s else None))"

definition live_record :: "client \<Rightarrow> event_row \<Rightarrow> archive_record" where
  "live_record s e = \<lparr>ar_group_id = ev_group_id e, ar_event_id = ev_event_id e, ar_kind = ev_kind e, ar_body = ev_body e,
     ar_created_at = ev_created_at e, ar_file_name = None, ar_file = [], ar_file_present = False,
     ar_sender_identity = live_sender s e\<rparr>"

definition imported_record :: "client \<Rightarrow> archived_row \<Rightarrow> archive_record" where
  "imported_record s a =
     (let f = t_archived_files s (ae_group_id a, ae_event_id a) in
      \<lparr>ar_group_id = ae_group_id a, ar_event_id = ae_event_id a, ar_kind = ae_kind a, ar_body = ae_body a,
       ar_created_at = ae_created_at a, ar_file_name = ae_file_name a,
       ar_file = (case f of Some b \<Rightarrow> b | None \<Rightarrow> []), ar_file_present = (f \<noteq> None),
       ar_sender_identity = ae_sender_identity a\<rparr>)"

definition snapshot_rows :: "client \<Rightarrow> delivery \<Rightarrow> (bool \<times> archive_record) list" where
  "snapshot_rows s d =
     map (\<lambda>e. (True, live_record s e)) (filter (\<lambda>e. ev_kind e \<noteq> DEVICES_CHANGED) (events d)) @
     map (\<lambda>a. (False, imported_record s a)) (filter (\<lambda>a. \<not> list_ex (\<lambda>e. ev_group_id e = ae_group_id a \<and>
       ev_event_id e = ae_event_id a) (events d)) (t_archived_events s))"

text \<open>SQLite's \<open>length\<close> of a text: its characters before the first NUL.\<close>

definition sql_length :: "string \<Rightarrow> nat" where
  "sql_length t = length (chars (takeWhile (\<lambda>c. c \<noteq> CHR 0x00) t))"

definition record_size :: "archive_record \<Rightarrow> nat" where
  "record_size r = length (ar_body r) + length (ar_file r) + length (ar_group_id r) + length (ar_event_id r) +
     sql_length (ar_kind r) + (case ar_file_name r of Some n \<Rightarrow> sql_length n | None \<Rightarrow> 0) +
     (case ar_sender_identity r of Some i \<Rightarrow> length i | None \<Rightarrow> 0) + 256"

definition archive_snapshot :: "client \<Rightarrow> delivery \<Rightarrow> sql_error + (bool \<times> archive_record) list" where
  "archive_snapshot s d =
     (let rows = snapshot_rows s d in
      if length rows > MAX_ARCHIVE_RECORDS \<or> sum_list (map (record_size \<circ> snd) rows) > MAX_ARCHIVE_PAYLOAD_BYTES
      then Inl InvalidQuery else Inr rows)"

text \<open>Row ids count from 1 in the order of insertion: no row of this table is ever deleted.\<close>

definition archive_page :: "int option \<Rightarrow> nat \<Rightarrow> client \<Rightarrow> (int \<times> archive_record \<times> nat option) list" where
  "archive_page before limit s =
     take (min 101 (max 1 limit))
       (rev (filter (\<lambda>(i, _). i < (case before of Some b \<Rightarrow> b | None \<Rightarrow> 2 ^ 63 - 1))
         (map (\<lambda>(n, a). (int n + 1,
             \<lparr>ar_group_id = ae_group_id a, ar_event_id = ae_event_id a, ar_kind = ae_kind a, ar_body = ae_body a,
              ar_created_at = ae_created_at a, ar_file_name = ae_file_name a, ar_file = [], ar_file_present = False,
              ar_sender_identity = ae_sender_identity a\<rparr>,
             map_option length (t_archived_files s (ae_group_id a, ae_event_id a))))
           (enumerate 0 (t_archived_events s)))))"

definition archive_file :: "bytes \<Rightarrow> bytes \<Rightarrow> client \<Rightarrow> bytes option" where
  "archive_file grp event s = t_archived_files s (grp, event)"

section \<open>An import never overwrites\<close>

text \<open>One row per event, and a file only for an event that is there.\<close>

definition row_key :: "archived_row \<Rightarrow> bytes \<times> bytes" where
  "row_key a = (ae_group_id a, ae_event_id a)"

definition record_key :: "archive_record \<Rightarrow> bytes \<times> bytes" where
  "record_key r = (ar_group_id r, ar_event_id r)"

definition archive_ok :: "client \<Rightarrow> bool" where
  "archive_ok s \<longleftrightarrow> distinct (map row_key (t_archived_events s)) \<and> dom (t_archived_files s) \<subseteq> row_key ` set (t_archived_events s)"

text \<open>The records of a list that are new: the first of every key that the table does not hold.\<close>

fun new_records :: "(bytes \<times> bytes) set \<Rightarrow> archive_record list \<Rightarrow> archive_record list" where
  "new_records K [] = []"
| "new_records K (r # rs) = (if record_key r \<in> K then new_records K rs else r # new_records (insert (record_key r) K) rs)"

definition add_records :: "archive_record list \<Rightarrow> client \<Rightarrow> client" where
  "add_records rs s = s\<lparr>t_archived_events := t_archived_events s @ map row_of_record rs,
     t_archived_files := fold (\<lambda>r m. if ar_file_present r \<or> ar_file r \<noteq> [] then m(record_key r \<mapsto> ar_file r) else m) rs (t_archived_files s)\<rparr>"

lemma row_key_record [simp]: "row_key (row_of_record r) = record_key r"
  by (simp add: row_key_def record_key_def row_of_record_def)

lemma import_record_cases:
  assumes "archive_ok s"
  shows "import_record r s =
    (if record_key r \<in> row_key ` set (t_archived_events s) then (Inr False, s) else (Inr True, add_records [r] s))"
proof -
  have key: "(\<exists>a \<in> set (t_archived_events s). ae_group_id a = ar_group_id r \<and> ae_event_id a = ar_event_id r) \<longleftrightarrow>
      record_key r \<in> row_key ` set (t_archived_events s)"
    by (auto simp: row_key_def record_key_def image_iff eq_commute)
  have "record_key r \<notin> row_key ` set (t_archived_events s) \<Longrightarrow> t_archived_files s (record_key r) = None"
    using assms by (auto simp: archive_ok_def dom_def)
  then show ?thesis
    by (auto simp: import_record_def key add_records_def Let_def record_key_def)
qed

lemma add_records_ok:
  assumes "archive_ok s" and "record_key r \<notin> row_key ` set (t_archived_events s)"
  shows "archive_ok (add_records [r] s)"
  using assms by (auto simp: archive_ok_def add_records_def dom_def)

lemma add_records_Cons: "add_records rs (add_records [r] s) = add_records (r # rs) s"
  by (simp add: add_records_def)

lemma import_records_effect:
  assumes "archive_ok s"
  shows "import_records rs n m s =
    (Inr (n + length (new_records (row_key ` set (t_archived_events s)) rs),
          m + length rs - length (new_records (row_key ` set (t_archived_events s)) rs)),
     add_records (new_records (row_key ` set (t_archived_events s)) rs) s)"
  using assms
proof (induction rs arbitrary: n m s)
  case Nil
  then show ?case by (simp add: add_records_def)
next
  case (Cons r rs)
  let ?K = "row_key ` set (t_archived_events s)"
  have len: "length (new_records K xs) \<le> length xs" for K xs
    by (induction K xs rule: new_records.induct) auto
  show ?case
  proof (cases "record_key r \<in> ?K")
    case True
    then show ?thesis
      using Cons len [of ?K rs] by (simp add: op_then_def import_record_cases Suc_diff_le)
  next
    case False
    have "row_key ` set (t_archived_events (add_records [r] s)) = insert (record_key r) ?K" by (auto simp: add_records_def)
    then show ?thesis
      using False Cons.IH [OF add_records_ok [OF Cons.prems False], of "n + 1" m] Cons.prems
      by (simp add: op_then_def import_record_cases add_records_Cons)
  qed
qed

lemma new_records_length: "length (new_records K xs) \<le> length xs"
  by (induction K xs rule: new_records.induct) auto

lemma new_records_known: "x \<in> set xs \<Longrightarrow> record_key x \<in> K \<union> record_key ` set (new_records K xs)"
  by (induction K xs rule: new_records.induct) (auto split: if_splits)

lemma new_records_fresh: "x \<in> set (new_records K xs) \<Longrightarrow> record_key x \<notin> K"
  by (induction K xs rule: new_records.induct) (auto split: if_splits)

lemma new_records_none: "record_key ` set xs \<subseteq> K \<Longrightarrow> new_records K xs = []"
  by (induction xs) auto

lemma add_new_records_ok:
  "archive_ok s \<Longrightarrow> row_key ` set (t_archived_events s) \<subseteq> K \<Longrightarrow> archive_ok (add_records (new_records K xs) s)"
proof (induction K xs arbitrary: s rule: new_records.induct)
  case (2 K r rs)
  show ?case
  proof (cases "record_key r \<in> K")
    case False
    then have "archive_ok (add_records [r] s)" using 2(3,4) by (intro add_records_ok) auto
    moreover have "row_key ` set (t_archived_events (add_records [r] s)) \<subseteq> insert (record_key r) K"
      using 2(4) by (auto simp: add_records_def)
    ultimately have "archive_ok (add_records (new_records (insert (record_key r) K) rs) (add_records [r] s))"
      by (rule 2(2) [OF False])
    then show ?thesis using False by (simp add: add_records_Cons)
  qed (use 2 in simp)
qed (simp add: add_records_def archive_ok_def)

lemma files_untouched:
  "\<forall>x \<in> set xs. record_key x \<noteq> k \<Longrightarrow>
     fold (\<lambda>r m. if ar_file_present r \<or> ar_file r \<noteq> [] then m(record_key r \<mapsto> ar_file r) else m) xs m k = m k"
  by (induction xs arbitrary: m) auto

lemma archive_import_effect:
  "archive_ok s \<Longrightarrow> archive_import rs s =
    (let new = new_records (row_key ` set (t_archived_events s)) rs
     in (Inr (length new, length rs - length new), add_records new s))"
  by (simp add: archive_import_def transactionally_def import_records_effect Let_def)

text \<open>Importing an archive. On a well-formed table the import succeeds; it appends the first record of
  every event that the table does not hold, with its file, in the order given, and leaves every record and file that was
  there untouched. The two counts say how many records were new and how many were not, and a second
  import of the same archive adds nothing.\<close>

theorem archive_import_correct:
  assumes "archive_ok s" and "archive_import rs s = (r, s')"
  shows "archive_ok s' \<and>
    s' = add_records (new_records (row_key ` set (t_archived_events s)) rs) s \<and>
    (\<exists>new dup. r = Inr (new, dup) \<and> new + dup = length rs \<and> length (t_archived_events s') = length (t_archived_events s) + new) \<and>
    (\<forall>g e b. archive_file g e s = Some b \<longrightarrow> archive_file g e s' = Some b) \<and>
    archive_import rs s' = (Inr (0, length rs), s')"
proof -
  let ?K = "\<lambda>s. row_key ` set (t_archived_events s)"
  let ?new = "new_records (?K s) rs"
  have s': "s' = add_records ?new s" and r: "r = Inr (length ?new, length rs - length ?new)"
    using assms(2) archive_import_effect [OF assms(1), of rs] by (simp_all add: Let_def)
  have ok': "archive_ok s'" unfolding s' by (rule add_new_records_ok [OF assms(1)]) simp
  have "?K s' = ?K s \<union> record_key ` set ?new" by (simp add: s' add_records_def image_Un image_image)
  then have "record_key ` set rs \<subseteq> ?K s'"
    using new_records_known [of _ rs "?K s"] by (intro image_subsetI) (simp only:)
  then have "archive_import rs s' = (Inr (0, length rs), s')"
    using archive_import_effect [OF ok', of rs] new_records_none [of rs "?K s'"] by (simp add: add_records_def)
  moreover have "archive_file g e s' = Some b" if "archive_file g e s = Some b" for g e b
  proof -
    have "(g, e) \<in> ?K s" using that assms(1) by (auto simp: archive_file_def archive_ok_def)
    then have "\<forall>x \<in> set ?new. record_key x \<noteq> (g, e)" using new_records_fresh [of _ "?K s" rs] by metis
    from files_untouched [OF this] that show ?thesis by (simp add: s' add_records_def archive_file_def)
  qed
  moreover have "\<exists>new dup. r = Inr (new, dup) \<and> new + dup = length rs \<and>
      length (t_archived_events s') = length (t_archived_events s) + new"
    by (rule exI [of _ "length ?new"], rule exI [of _ "length rs - length ?new"])
      (simp add: r s' add_records_def new_records_length)
  ultimately show ?thesis using ok' s' by blast
qed

section \<open>An exported snapshot comes back\<close>

lemma new_records_distinct:
  "distinct (map record_key xs) \<Longrightarrow> record_key ` set xs \<inter> K = {} \<Longrightarrow> new_records K xs = xs"
  by (induction K xs rule: new_records.induct) auto

lemma files_after:
  assumes "distinct (map record_key xs)" "x \<in> set xs"
  shows "fold (\<lambda>r m. if ar_file_present r \<or> ar_file r \<noteq> [] then m(record_key r \<mapsto> ar_file r) else m) xs m (record_key x) =
    (if ar_file_present x \<or> ar_file x \<noteq> [] then Some (ar_file x) else m (record_key x))"
proof -
  let ?f = "\<lambda>r m. if ar_file_present r \<or> ar_file r \<noteq> [] then m(record_key r \<mapsto> ar_file r) else m"
  have keep: "record_key y \<notin> record_key ` set ys \<Longrightarrow> fold ?f ys m (record_key y) = m (record_key y)" for y ys m
    by (induction ys arbitrary: m) auto
  show ?thesis
    using assms
  proof (induction xs arbitrary: m)
    case (Cons y ys)
    show ?case
    proof (cases "x = y")
      case True
      then show ?thesis using Cons.prems(1) keep [of y ys] by simp
    next
      case False
      then have "x \<in> set ys" using Cons.prems(2) by simp
      moreover from this have "record_key x \<noteq> record_key y" using Cons.prems(1) by (metis distinct.simps(2) imageI list.map(2) set_map)
      ultimately have "x \<in> set ys" "record_key x \<noteq> record_key y" by simp_all
      with Cons.IH [of "?f y m"] Cons.prems(1) show ?thesis by simp
    qed
  qed simp
qed

lemma imported_normal:
  "\<not> ar_file_present (imported_record s a) \<Longrightarrow> ar_file (imported_record s a) = []"
  by (auto simp: imported_record_def Let_def split: option.splits)

lemma snapshot_rows_normal: "(l, x) \<in> set (snapshot_rows s d) \<Longrightarrow> ar_file_present x \<or> ar_file x = []"
  using imported_normal by (auto simp: snapshot_rows_def live_record_def)

lemma snapshot_rows_distinct:
  assumes "archive_ok s" and "distinct (map ev_event_id (events d))"
  shows "distinct (map (record_key \<circ> snd) (snapshot_rows s d))"
proof -
  let ?L = "filter (\<lambda>e. ev_kind e \<noteq> DEVICES_CHANGED) (events d)"
  let ?A = "filter (\<lambda>a. \<not> list_ex (\<lambda>e. ev_group_id e = ae_group_id a \<and> ev_event_id e = ae_event_id a) (events d)) (t_archived_events s)"
  have l: "record_key (live_record s e) = (ev_group_id e, ev_event_id e)" for e by (simp add: record_key_def live_record_def)
  have a: "record_key (imported_record s a) = row_key a" for a
    by (simp add: record_key_def imported_record_def row_key_def Let_def)
  have "distinct (map ev_event_id ?L)" using assms(2) by (rule distinct_map_filter_fst)
  then have "distinct (map (\<lambda>e. (ev_group_id e, ev_event_id e)) ?L)"
    by (auto simp: distinct_map inj_on_def)
  moreover have "distinct (map row_key ?A)"
    using assms(1) distinct_map_filter_fst by (auto simp: archive_ok_def)
  moreover have "(\<lambda>e. (ev_group_id e, ev_event_id e)) ` set ?L \<inter> row_key ` set ?A = {}"
    by (auto simp: row_key_def list_ex_iff)
  ultimately show ?thesis
    by (simp add: snapshot_rows_def comp_def l a image_image)
qed

text \<open>C20. An archive brings the history back. The records of a snapshot, imported into a fresh profile,
  are all new, and a snapshot of that profile holds the same records in the same order, with the same
  authors and files, none of them live.\<close>

theorem archive_snapshot_roundtrip:
  assumes "archive_ok s" and "distinct (map ev_event_id (events d))" and "archive_snapshot s d = Inr rows"
    and "archive_import (map snd rows) client_new = (r, t)"
  shows "r = Inr (length rows, 0) \<and> archive_snapshot t delivery_new = Inr (map (\<lambda>(_, x). (False, x)) rows)"
proof -
  have rows: "rows = snapshot_rows s d" and small: "length rows \<le> MAX_ARCHIVE_RECORDS"
      "sum_list (map (record_size \<circ> snd) rows) \<le> MAX_ARCHIVE_PAYLOAD_BYTES"
    using assms(3) by (auto simp: archive_snapshot_def Let_def split: if_splits)
  have dist: "distinct (map record_key (map snd rows))"
    using snapshot_rows_distinct [OF assms(1,2)] by (simp add: rows)
  have new: "new_records (row_key ` set (t_archived_events client_new)) (map snd rows) = map snd rows"
    by (rule new_records_distinct [OF dist]) (simp add: client_new_def)
  have "archive_ok client_new" by (simp add: archive_ok_def client_new_def)
  then have t: "r = Inr (length rows, 0)" "t = add_records (map snd rows) client_new"
    using assms(4) import_records_effect [of client_new "map snd rows" 0 0]
    by (simp_all add: archive_import_def transactionally_def new)
  have again: "imported_record t (row_of_record x) = x" if x: "x \<in> snd ` set rows" for x
  proof -
    have "ar_file_present x \<or> ar_file x = []" using x snapshot_rows_normal [of _ x s d] by (force simp: rows)
    moreover have "t_archived_files t (record_key x) = (if ar_file_present x \<or> ar_file x \<noteq> [] then Some (ar_file x) else None)"
      using files_after [OF dist, of x "t_archived_files client_new"] x by (simp add: t(2) add_records_def client_new_def)
    ultimately show ?thesis
      by (auto simp: imported_record_def Let_def row_of_record_def record_key_def)
  qed
  have "snapshot_rows t delivery_new = map (\<lambda>(_, x). (False, x)) rows"
    using again by (simp add: snapshot_rows_def delivery_new_def t(2) add_records_def client_new_def split_beta)
  moreover have "map (record_size \<circ> snd) (map (\<lambda>(_, x). (False, x)) rows) = map (record_size \<circ> snd) rows"
    by (simp add: split_beta)
  ultimately show ?thesis
    using small t(1) by (simp add: archive_snapshot_def Let_def del: map_map)
qed

section \<open>Witnesses\<close>

definition demo_record :: "bytes \<Rightarrow> bytes \<Rightarrow> archive_record" where
  "demo_record e f = \<lparr>ar_group_id = [1], ar_event_id = e, ar_kind = ''text'', ar_body = [2], ar_created_at = 3, ar_file_name = None,
     ar_file = f, ar_file_present = False, ar_sender_identity = None\<rparr>"

theorem archive_import_correct_witness:
  "\<exists>s'. archive_import [demo_record [1] [9], demo_record [1] [8]] client_new = (Inr (1, 1), s') \<and> archive_file [1] [1] s' = Some [9] \<and>
     archive_import [demo_record [1] [9], demo_record [1] [8]] s' = (Inr (0, 2), s')"
proof -
  let ?rs = "[demo_record [1] [9], demo_record [1] [8]]"
  obtain r s' where e: "archive_import ?rs client_new = (r, s')" by fastforce
  have ok: "archive_ok client_new" by (simp add: archive_ok_def client_new_def)
  have "r = Inr (1, 1)" "archive_file [1] [1] s' = Some [9]"
    using e archive_import_effect [OF ok, of ?rs]
    by (auto simp: Let_def record_key_def demo_record_def client_new_def add_records_def archive_file_def)
  with archive_import_correct [OF ok e] e show ?thesis by auto
qed

theorem archive_snapshot_roundtrip_witness:
  "\<exists>t. archive_import [live_record client_new \<lparr>ev_id = 1, ev_group_id = [1], ev_event_id = [2], ev_kind = ''text'', ev_body = [3],
       ev_created_at = 4, ev_sender_device = None, ev_sender_identity = Some [5]\<rparr>] client_new = (Inr (1, 0), t) \<and>
     (\<exists>x. archive_snapshot t delivery_new = Inr [(False, x)] \<and> ar_sender_identity x = Some [5])"
proof -
  let ?e = "\<lparr>ev_id = 1, ev_group_id = [1], ev_event_id = [2], ev_kind = ''text'', ev_body = [3],
       ev_created_at = 4, ev_sender_device = None, ev_sender_identity = Some [5]\<rparr>"
  let ?d = "delivery_new\<lparr>events := [?e]\<rparr>"
  have ok: "archive_ok client_new" by (simp add: archive_ok_def client_new_def)
  have "sql_length ''text'' = 4" by code_simp
  then have s: "archive_snapshot client_new ?d = Inr [(True, live_record client_new ?e)]"
    by (simp add: archive_snapshot_def snapshot_rows_def delivery_new_def client_new_def DEVICES_CHANGED_def record_size_def
        live_record_def live_sender_def MAX_ARCHIVE_RECORDS_def MAX_ARCHIVE_PAYLOAD_BYTES_def)
  obtain r t where i: "archive_import (map snd [(True, live_record client_new ?e)]) client_new = (r, t)" by fastforce
  from archive_snapshot_roundtrip [OF ok _ s i] have "r = Inr (1, 0)" "archive_snapshot t delivery_new = Inr [(False, live_record client_new ?e)]"
    by simp_all
  with i show ?thesis by (auto simp: live_record_def live_sender_def)
qed

end
