(* ===== verification/Client_Runs.thy ===== *)
theory Client_Runs
  imports Client_Contacts Client_Pairing Client_Enrollment Client_Archive
begin

text \<open>
  The client as a whole: every operation of \<open>core/crates/arveil-core/src/client.rs\<close> that changes the profile, with those of
  its stores, as one step relation, and what every run of the client keeps. Each component owns some
  tables; the lemmas here show that the others leave them alone.
\<close>

section \<open>Who touches what\<close>

lemma op_grows_mono: "op_grows R m \<Longrightarrow> (\<And>s s'. R s s' \<Longrightarrow> S s s') \<Longrightarrow> op_grows S m"
  by (simp add: op_grows_def)

text \<open>Everything except the tables of identities, devices, manifests and rosters.\<close>

definition other_tables :: "client \<Rightarrow> client" where
  "other_tables s = s\<lparr>t_identity := None, t_device := [], t_manifest := [], t_identity_devices := [], t_device_revocations := [],
     t_revocation_groups := [], t_peers := [], t_peer_manifests := Map.empty\<rparr>"

definition others_same :: "client \<Rightarrow> client \<Rightarrow> bool" where
  "others_same s s' \<longleftrightarrow> other_tables s' = other_tables s"

interpretation others: table_order others_same
  by standard (simp_all add: others_same_def)

lemma others_inserts:
  "op_grows others_same (insert_identity row)" "op_grows others_same (insert_device g c h)"
  "op_grows others_same (insert_own_device d h)" "op_grows others_same (insert_manifest i st sm)"
  "op_grows others_same (replace_own_device d h)"
  "op_grows others_same (revocation_start dv mk)"
  "op_grows others_same (revocation_published dv)" "op_grows others_same (revocation_group_record dv gr n)"
  by (auto simp: op_grows_def others_same_def other_tables_def insert_identity_def insert_device_def insert_own_device_def
      insert_manifest_def replace_own_device_def revocation_start_def revocation_published_def revocation_group_record_def
      split: option.split)

lemma others_mark_hashes: "others_same s (fold mark_hash_revoked hs s)"
  by (induction hs arbitrary: s) (simp_all add: others_same_def other_tables_def mark_hash_revoked_def)

lemma others_marks: "op_grows others_same (peers_mark_revoked hs)"
  unfolding op_grows_def by (metis peers_mark_revoked_state(1) prod.collapse others_mark_hashes)

lemma others_reads: "op_reads m \<Longrightarrow> op_grows others_same m"
  by (rule others.grows_reads)

lemma others_peer_manifests: "others_same s (s\<lparr>t_peer_manifests := f s\<rparr>)" "others_same s (s\<lparr>t_device := g s\<rparr>)"
  by (simp_all add: others_same_def other_tables_def)

lemma devices_others:
  "op_grows others_same (identity_new cr gen)" "op_grows others_same (device_pending_new gm)"
  "op_grows others_same (device_new cb cr now gm)" "op_grows others_same (identity_restore cb cr seed sm)"
  "op_grows others_same (device_authorize cb cr public now)" "op_grows others_same (device_revoke cb cr dev)"
  "op_grows others_same (manifest_accept_own cb cr sm)" "op_grows others_same (peer_manifest_accept cb cr ident sm)"
  "op_grows others_same (device_link_complete cb cr c m root now)"
  unfolding identity_new_def device_pending_new_def device_new_def device_new_in_unit_def identity_restore_def
    identity_restore_in_unit_def device_authorize_def device_revoke_def device_revoke_in_unit_def manifest_accept_own_def
    peer_manifest_accept_def device_link_complete_def Let_def
  by (intro others.grows_transactionally others.grows_then others.grows_if others.grows_prod others_reads op_reads_basic
      others_inserts others_marks others.grows_modify others_peer_manifests)+

lemma device_link_again_others: "op_grows others_same (device_link_complete_idempotent cb cr c m root now)"
  using devices_others(9) [of cb cr c m root now]
  unfolding op_grows_def device_link_complete_idempotent_def
  by (auto split: prod.splits sum.splits client_error.splits) (metis snd_conv)+

text \<open>The tables of one owner are unchanged.\<close>

definition pairing_same :: "client \<Rightarrow> client \<Rightarrow> bool" where
  "pairing_same s s' \<longleftrightarrow> t_pairing_sessions s' = t_pairing_sessions s \<and> t_pairing_completion s' = t_pairing_completion s \<and>
     t_link_completion s' = t_link_completion s"

definition contacts_same :: "client \<Rightarrow> client \<Rightarrow> bool" where
  "contacts_same s s' \<longleftrightarrow> t_contacts s' = t_contacts s \<and> t_contact_cards s' = t_contact_cards s"

definition archive_same :: "client \<Rightarrow> client \<Rightarrow> bool" where
  "archive_same s s' \<longleftrightarrow> t_archived_events s' = t_archived_events s \<and> t_archived_files s' = t_archived_files s"

lemmas tables_same = pairing_same_def contacts_same_def archive_same_def

lemma other_tables_fields:
  "t_pairing_sessions (other_tables s) = t_pairing_sessions s" "t_pairing_completion (other_tables s) = t_pairing_completion s"
  "t_link_completion (other_tables s) = t_link_completion s" "t_contacts (other_tables s) = t_contacts s"
  "t_contact_cards (other_tables s) = t_contact_cards s" "t_archived_events (other_tables s) = t_archived_events s"
  "t_archived_files (other_tables s) = t_archived_files s"
  by (simp_all add: other_tables_def)

lemma others_give:
  assumes "others_same s s'"
  shows "pairing_same s s' \<and> contacts_same s s' \<and> archive_same s s'"
  using assms unfolding others_same_def tables_same by (metis other_tables_fields)

section \<open>Contacts leave linking and the archive alone\<close>

definition contacts_only :: "client \<Rightarrow> client \<Rightarrow> bool" where
  "contacts_only s s' \<longleftrightarrow> roster_grows s s' \<and> pairing_same s s' \<and> archive_same s s'"

interpretation contacts_only: table_order contacts_only
proof
  show "contacts_only s t \<Longrightarrow> contacts_only t u \<Longrightarrow> contacts_only s u" for s t u
    unfolding contacts_only_def using roster.compose by (auto simp: tables_same)
qed (simp add: contacts_only_def roster.same tables_same)

lemma contacts_only_simple:
  "t_peers s' = t_peers s \<Longrightarrow> t_identity_devices s' = t_identity_devices s \<Longrightarrow> t_manifest s' = t_manifest s \<Longrightarrow>
     t_peer_manifests s' = t_peer_manifests s \<Longrightarrow> t_identity s' = t_identity s \<Longrightarrow> pairing_same s s' \<Longrightarrow> archive_same s s' \<Longrightarrow>
     contacts_only s s'"
  by (simp add: contacts_only_def roster_same)

lemma contact_seen_only: "op_grows contacts_only (contact_seen now i root)"
  by (auto simp: op_grows_def contact_seen_def contacts_only.same tables_same intro!: contacts_only_simple split: option.split)

lemma contact_step_only: "contact_step s s' \<Longrightarrow> contacts_only s s'"
proof -
  note simple = contacts_only_simple contacts_only.same
  have upd: "contacts_only s (update_contact i f s)" for s i f
    by (rule contacts_only_simple) (simp_all add: update_contact_def tables_same)
  have route: "op_grows contacts_only (contact_route_save i dev rt)" for i dev rt
    unfolding contact_route_save_def
    by (intro contacts_only.grows_then contacts_only.grows_if contacts_only.grows_basic contacts_only.grows_modify
        contacts_only.compose [OF contacts_only_simple upd]) (simp_all add: tables_same)
  have rename: "op_grows contacts_only (contact_rename i n)" for i n
    unfolding contact_rename_def
    by (intro contacts_only.grows_then contacts_only.grows_if contacts_only.grows_basic contacts_only.grows_modify upd)
  have verify: "op_grows contacts_only (contact_verify cr i n now)" for cr i n now
    unfolding contact_verify_def
    by (intro contacts_only.grows_then contacts_only.grows_if contacts_only.grows_reads op_reads_basic contacts_only.grows_modify upd)
  have peer: "contacts_only s (save_peer g p s)" for s g p
    using save_peer_roster by (simp add: contacts_only_def) (simp add: save_peer_def tables_same)
  have save: "op_grows contacts_only (conversation_save now c)" for now c
    unfolding conversation_save_def
    by (intro contacts_only.grows_then contacts_only.grows_for contacts_only.grows_if contacts_only.grows_basic
        contacts_only.grows_modify contact_seen_only peer contacts_only_simple)
      (simp_all add: save_conversation_row_def tables_same)
  have cards: "op_grows contacts_only (card_create gen k now)" for gen k now
    unfolding card_create_def Let_def
    by (intro contacts_only.grows_then contacts_only.grows_basic)
      (auto simp: op_grows_def contacts_only.same tables_same intro: contacts_only_simple)
  assume "contact_step s s'"
  then show ?thesis
    by cases (use contact_seen_only route rename verify save cards in
      \<open>auto simp: op_grows_def upd contact_accept_def contact_verified_def contacts_only.same request_open_def request_set_from_def
        request_set_card_def request_resolve_def update_conversation_def card_name_set_def card_revoke_def card_redeem_def tables_same
        intro: contacts_only_simple split: option.split card_use.split\<close>)
qed

section \<open>Linking leaves everything else alone\<close>

definition linking_only :: "client \<Rightarrow> client \<Rightarrow> bool" where
  "linking_only s s' \<longleftrightarrow> t_peers s' = t_peers s \<and> t_identity_devices s' = t_identity_devices s \<and> t_manifest s' = t_manifest s \<and>
     t_peer_manifests s' = t_peer_manifests s \<and> t_identity s' = t_identity s \<and> contacts_same s s' \<and> archive_same s s'"

lemma linking_step_only:
  assumes "linking_step A s s'"
  shows "linking_only s s'"
  using assms unfolding linking_only_def tables_same
  by cases (simp_all add: pairing_defs transactionally_def ok_or_def split: option.split sum.split)

section \<open>Enrollment only adds to trust\<close>

definition enrollment_only :: "client \<Rightarrow> client \<Rightarrow> bool" where
  "enrollment_only s s' \<longleftrightarrow> trust_grows s s' \<and> contacts_same s s' \<and> pairing_same s s' \<and> archive_same s s'"

interpretation enrollment_only: table_order enrollment_only
proof
  show "enrollment_only s t \<Longrightarrow> enrollment_only t u \<Longrightarrow> enrollment_only s u" for s t u
    unfolding enrollment_only_def using trust.compose by (auto simp: tables_same)
qed (simp add: enrollment_only_def trust.same tables_same)

lemma enrollment_only_simple:
  "t_peers s' = t_peers s \<Longrightarrow> t_identity_devices s' = t_identity_devices s \<Longrightarrow> t_manifest s' = t_manifest s \<Longrightarrow>
     t_peer_manifests s' = t_peer_manifests s \<Longrightarrow> t_identity s' = t_identity s \<Longrightarrow> pairing_same s s' \<Longrightarrow> contacts_same s s' \<Longrightarrow>
     archive_same s s' \<Longrightarrow> enrollment_only s s'"
  by (simp add: enrollment_only_def trust_same)

lemma enrollment_from_devices:
  "op_grows trust_grows m \<Longrightarrow> op_grows others_same m \<Longrightarrow> op_grows enrollment_only m"
  using others_give by (auto simp: op_grows_def enrollment_only_def)

lemma recovery_prepare_only: "op_grows enrollment_only (recovery_prepare cb cr gen kit digest rl now)"
proof -
  have ins: "op_grows enrollment_only (insert_recovery dg n)" "op_grows enrollment_only (realm_save i k np u)" for dg n i k np u
    by (auto simp: op_grows_def insert_recovery_def realm_save_def enrollment_only.same tables_same intro!: enrollment_only_simple)
  have restore: "op_grows others_same (identity_restore_in_unit cb cr seed sm)" for seed sm
    unfolding identity_restore_in_unit_def
    by (intro others.grows_then others.grows_if others.grows_prod others_reads op_reads_basic others_inserts)
  have new: "op_grows others_same (device_new_in_unit cb cr now gen)"
    "op_grows trust_grows (device_new_in_unit cb cr now gen)"
    unfolding device_new_in_unit_def
    by (intro others.grows_then others.grows_prod others_reads op_reads_basic others_inserts)
      (intro trust.grows_then trust.grows_prod reads_trust op_reads_basic trust_inserts)
  show ?thesis
    unfolding recovery_prepare_def
    by (intro enrollment_only.grows_transactionally enrollment_only.grows_then enrollment_only.grows_if
        enrollment_only.grows_reads op_reads_basic ins
        enrollment_from_devices [OF identity_restore_in_unit_trust restore] enrollment_from_devices [OF new(2,1)])
qed

lemma key_packages_only:
  "op_grows enrollment_only (initial_key_packages cb gen dev)"
  "op_grows enrollment_only (prepare_key_package_replenishment cb gen dev n)"
  "op_grows enrollment_only (realm_accept_endpoint_list cb cr i sobj)"
  "op_grows enrollment_only (mailbox_request gq)"
proof -
  have simple: "enrollment_only s (s\<lparr>t_initial_key_packages := f s\<rparr>)" "enrollment_only s (s\<lparr>t_replenishment := g s\<rparr>)"
      "enrollment_only s (s\<lparr>t_realm := h s\<rparr>)" "enrollment_only s (s\<lparr>t_mailbox_request := q s\<rparr>)" for s f g h q
    by (simp_all add: enrollment_only_simple tables_same)
  show "op_grows enrollment_only (initial_key_packages cb gen dev)"
    unfolding initial_key_packages_def
    by (auto intro!: enrollment_only.grows_transactionally enrollment_only.grows_then enrollment_only.grows_basic
        enrollment_only.grows_modify simple split: option.split)
  show "op_grows enrollment_only (prepare_key_package_replenishment cb gen dev n)"
    unfolding prepare_key_package_replenishment_def
    by (intro enrollment_only.grows_transactionally enrollment_only.grows_then enrollment_only.grows_if
        enrollment_only.grows_reads op_reads_basic enrollment_only.grows_modify simple)
  show "op_grows enrollment_only (realm_accept_endpoint_list cb cr i sobj)"
    unfolding realm_accept_endpoint_list_def
    by (intro enrollment_only.grows_then enrollment_only.grows_reads op_reads_basic enrollment_only.grows_modify simple)
  show "op_grows enrollment_only (mailbox_request gq)"
    unfolding mailbox_request_def
    by (auto intro!: enrollment_only.grows_then enrollment_only.grows_basic enrollment_only.grows_modify simple split: option.split)
qed

lemma enrollment_modifies_only:
  "op_grows enrollment_only (realm_save i k np u)" "op_grows enrollment_only (realm_mark_enrolled i)"
  "op_grows enrollment_only (enrollment_save now p)" "op_grows enrollment_only (key_package_observe i n at)"
  "op_grows enrollment_only (key_package_replenishment_acknowledged i)"
  "op_grows enrollment_only (mailbox_save now m)" "op_grows enrollment_only (kit_exported sq at)"
  "op_grows enrollment_only (recovery_accepted sq)" "op_grows enrollment_only recovery_complete"
  "op_grows enrollment_only (upload_save path u')" "op_grows enrollment_only (upload_clear path)"
  "op_grows enrollment_only (invitation_operation_save row)"
  "op_grows enrollment_only (invitation_hello_save h)" "op_grows enrollment_only (invitation_hello_remove grp)"
  unfolding realm_save_def realm_mark_enrolled_def enrollment_save_def key_package_observe_def
    key_package_replenishment_acknowledged_def mailbox_save_def kit_exported_def
    recovery_accepted_def recovery_complete_def upload_save_def upload_clear_def invitation_operation_save_def
    invitation_hello_save_def invitation_hello_remove_def
  by (rule enrollment_only.grows_modify, rule enrollment_only_simple, simp_all add: tables_same)+

lemma enrollment_rest_only:
  "enrollment_only s (snd (initial_key_packages_acknowledged i s))" "enrollment_only s (snd (kit_confirm_saved at s))"
  "enrollment_only s (snd (invitation_rejected_enrollment i s))" "op_grows enrollment_only (invitation_cleanup now)"
proof -
  show "op_grows enrollment_only (invitation_cleanup now)"
    unfolding invitation_cleanup_def Let_def
    by (intro enrollment_only.grows_then enrollment_only.grows_modify enrollment_only_simple) (simp_all add: tables_same)
qed (simp_all add: initial_key_packages_acknowledged_def kit_confirm_saved_def invitation_rejected_enrollment_def Let_def
    enrollment_only.same enrollment_only_simple tables_same split: option.split)

lemma enrollment_step_only:
  assumes "enrollment_step A s s'"
  shows "enrollment_only s s'"
  using assms
  by cases (use enrollment_modifies_only key_packages_only recovery_prepare_only enrollment_rest_only in \<open>auto simp: op_grows_def\<close>)

section \<open>Runs of the client\<close>

inductive device_step :: "client \<Rightarrow> client \<Rightarrow> bool" where
  "device_step s (snd (identity_new cr gen s))"
| "device_step s (snd (device_pending_new gm s))"
| "device_step s (snd (device_new cb cr now gm s))"
| "device_step s (snd (identity_restore cb cr seed sm s))"
| "device_step s (snd (device_authorize cb cr public now s))"
| "device_step s (snd (device_revoke cb cr dev s))"
| "device_step s (snd (manifest_accept_own cb cr sm s))"
| "device_step s (snd (peer_manifest_accept cb cr ident sm s))"
| "device_step s (snd (device_link_complete cb cr c m root now s))"
| "device_step s (snd (device_link_complete_idempotent cb cr c m root now s))"
| "device_step s (snd (peers_mark_revoked hs s))"
| "device_step s (snd (revocation_start dev mk s))"
| "device_step s (snd (revocation_published dev s))"
| "device_step s (snd (revocation_group_record dev grp n s))"

lemma device_step_only:
  assumes "device_step s s'"
  shows "trust_grows s s' \<and> others_same s s'"
  using assms
  by cases (use devices_trust devices_others others_inserts others_marks device_link_again_others in \<open>auto simp: op_grows_def\<close>)

text \<open>An import touches the archive only.\<close>

definition archive_only :: "client \<Rightarrow> client \<Rightarrow> bool" where
  "archive_only s s' \<longleftrightarrow> t_peers s' = t_peers s \<and> t_identity_devices s' = t_identity_devices s \<and> t_manifest s' = t_manifest s \<and>
     t_peer_manifests s' = t_peer_manifests s \<and> t_identity s' = t_identity s \<and> contacts_same s s' \<and> pairing_same s s'"

interpretation archive_only: table_order archive_only
  by standard (simp_all add: archive_only_def tables_same)

lemma archive_import_only: "op_grows archive_only (archive_import records)"
proof -
  have "op_grows archive_only (import_record r)" for r
    by (auto simp: op_grows_def import_record_def Let_def archive_only_def tables_same)
  then have "op_grows archive_only (import_records records n m)" for n m
    by (induction records arbitrary: n m)
      (auto intro!: archive_only.grows_then archive_only.grows_basic archive_only.grows_if)
  then show ?thesis unfolding archive_import_def by (rule archive_only.grows_transactionally)
qed

lemma archive_import_keeps:
  assumes "archive_ok s"
  shows "archive_ok (snd (archive_import records s)) \<and> prefix (t_archived_events s) (t_archived_events (snd (archive_import records s)))"
  using archive_import_effect [OF assms, of records] add_new_records_ok [OF assms order.refl]
  by (simp add: Let_def) (simp add: add_records_def)

inductive client_step :: "client \<Rightarrow> client \<Rightarrow> bool" where
  "device_step s s' \<Longrightarrow> client_step s s'"
| "contact_step s s' \<Longrightarrow> client_step s s'"
| "linking_step {} s s' \<Longrightarrow> client_step s s'"
| "enrollment_step {} s s' \<Longrightarrow> client_step s s'"
| "client_step s (snd (archive_import records s))"

definition client_ok :: "client \<Rightarrow> bool" where
  "client_ok s \<longleftrightarrow> contacts_ok s \<and> cards_ok s \<and> pairing_ok s \<and> archive_ok s"

text \<open>What the profile never loses.\<close>

definition client_grows :: "client \<Rightarrow> client \<Rightarrow> bool" where
  "client_grows s s' \<longleftrightarrow> trust_grows s s' \<and> (client_ok s \<longrightarrow> client_ok s' \<and> pins_grow s s' \<and> cards_grow s s' \<and>
     prefix (t_archived_events s) (t_archived_events s'))"

interpretation client_runs: table_order client_grows
proof
  show "client_grows s t \<Longrightarrow> client_grows t u \<Longrightarrow> client_grows s u" for s t u
    unfolding client_grows_def using trust.compose pins.compose cards_grow_trans prefix_order.trans by blast
qed (simp add: client_grows_def trust.same pins.same)

lemma client_grows_from:
  assumes "trust_grows s s'" and "contacts_grow s s'" and "pairing_same s s' \<or> (pairing_ok s \<longrightarrow> pairing_ok s')" and "archive_same s s'"
  shows "client_grows s s'"
proof -
  have p: "pairing_ok s \<longrightarrow> pairing_ok s'"
  proof (rule disjE [OF assms(3)])
    assume "pairing_same s s'"
    then have "pairing_ok s' = pairing_ok s" unfolding pairing_ok_def phases_known_def pairing_same_def by (elim conjE) (simp only:)
    then show ?thesis by simp
  qed
  have a: "archive_ok s \<longrightarrow> archive_ok s'" "t_archived_events s' = t_archived_events s"
    using assms(4) by (simp_all add: archive_ok_def archive_same_def)
  show ?thesis
    using assms(1,2) p a by (simp add: client_grows_def client_ok_def contacts_grow_def)
qed

lemma client_step_grows:
  assumes "client_step s s'"
  shows "client_grows s s'"
  using assms
proof cases
  case 1
  then show ?thesis
    using device_step_only [of s s'] others_give [of s s'] by (intro client_grows_from social_same) (auto simp: tables_same)
next
  case 2
  then show ?thesis
    using contact_step_only [of s s'] roster_trust [of s s'] contact_steps_grow [OF r_into_rtranclp [of contact_step s s']]
    by (intro client_grows_from) (auto simp: contacts_only_def)
next
  case 3
  then show ?thesis
    using linking_step_only [of "{}" s s'] linking_step_ok [of "{}" s s']
    by (intro client_grows_from trust_same social_same) (auto simp: linking_only_def tables_same)
next
  case 4
  then show ?thesis
    using enrollment_step_only [of "{}" s s']
    by (intro client_grows_from social_same) (auto simp: enrollment_only_def tables_same)
next
  case (5 records)
  have only: "archive_only s s'" using archive_import_only [of records] by (simp add: 5 op_grows_def)
  then have "trust_grows s s'" "contacts_grow s s'" by (auto simp: archive_only_def tables_same intro: trust_same social_same)
  then show ?thesis
    using only archive_import_keeps [of s records]
    by (simp add: client_grows_def client_ok_def contacts_grow_def archive_only_def pairing_ok_def phases_known_def tables_same
        flip: 5)
qed

text \<open>C17. Every run of the client. Whatever sequence of operations the client performs from an empty
  profile, succeeding or failing, its tables stay well formed; and from any state of it onwards nothing that
  was decided is lost: a revoked device stays revoked, the identity and the chain of its manifests only
  grow, no peer's manifest rolls back, a verified contact keeps its root key and stays verified, a used or revoked card stays
  so, and imported history is only appended to.\<close>

theorem client_never_forgets:
  assumes "client_step\<^sup>*\<^sup>* client_new s" and "client_step\<^sup>*\<^sup>* s s'"
  shows "client_ok s' \<and> trust_grows s s' \<and> pins_grow s s' \<and> cards_grow s s' \<and> prefix (t_archived_events s) (t_archived_events s')"
proof -
  have "client_ok client_new"
    by (simp add: client_ok_def contacts_ok_def cards_ok_def pairing_ok_def phases_known_def archive_ok_def client_new_def)
  then have "client_ok s"
    using client_runs.grows_runs [OF client_step_grows assms(1)] by (simp add: client_grows_def)
  then show ?thesis
    using client_runs.grows_runs [OF client_step_grows assms(2)] by (simp add: client_grows_def)
qed

theorem client_never_forgets_witness:
  "\<exists>s s'. client_step client_new s \<and> client_step s s' \<and> client_ok s' \<and> pins_grow s s' \<and>
     (\<exists>c \<in> set (t_contacts s). ct_root_public c = [8]) \<and> (\<exists>c \<in> set (t_contacts s'). ct_verified c)"
proof -
  let ?s = "snd (contact_seen 1 [5] [8] client_new)"
  let ?t = "snd (contact_verified [5] HowInPerson 2 ?s)"
  have a: "client_step client_new ?s" "client_step ?s ?t" by (intro client_step.intros(2) contact_step.intros)+
  have "\<exists>c \<in> set (t_contacts ?s). ct_root_public c = [8]" "\<exists>c \<in> set (t_contacts ?t). ct_verified c"
    by (auto simp: contact_seen_def client_new_def contact_verified_def update_contact_def count_rows_def)
  with client_never_forgets [OF r_into_rtranclp [of client_step, OF a(1)] r_into_rtranclp [of client_step, OF a(2)]] a
  show ?thesis by blast
qed

end
