(* ===== verification/App_Commands.thy ===== *)
theory App_Commands
  imports Client_Pairing Client_Contacts
begin

text \<open>
  The vocabulary of the application layer (\<open>core/crates/arveil-app/src/lib.rs\<close>): the commands a front
  end submits, the operations they are named by, the changes an operation records while it runs and the
  errors it ends with. Constructors carry their fields in the order the source declares them. Path
  buffers are strings and \<open>usize\<close> counts are natural numbers.

  Shown: classifying an error keeps the operation, its cause and what was already done.
\<close>

section \<open>Commands\<close>

datatype invitation_action =
    Inv_Policy | Inv_Create | Inv_RetryIssue bytes | Inv_List bool | Inv_Revoke bytes
    | Inv_Accept "string option" "string option" | Inv_Pending

record pairing_session_handle =
  ps_session_id :: bytes
  ps_code :: string
  ps_expires_at :: u64

record archive_import_request =
  ai_encrypted :: bytes
  ai_secret :: string

record recovery_request =
  rr_bootstrap :: string
  rr_encrypted :: bytes
  rr_secret :: string

record saved_recipient =
  sr_identity_id :: bytes
  sr_device_id :: bytes

record conversation_route =
  cr_route :: string
  cr_safety_number :: "string option"

datatype (plugins only: size) operation =
    Op_Invitations | Op_CreateIdentity | Op_Enroll | Op_CreateLinkRequest | Op_AuthorizeLink | Op_CompleteLink
    | Op_BeginPairing | Op_AwaitPairing | Op_ApprovePairing | Op_ConfirmPairing | Op_CancelPairing
    | Op_QueryPendingPairing | Op_OfferLink | Op_AwaitLinkRequest | Op_AnswerLink | Op_JoinLink | Op_OfferCard
    | Op_CloseCard | Op_QuerySharedCards | Op_SetCardName | Op_QueryCardName | Op_PreviewCard
    | Op_StartFromCard | Op_AnswerRequest | Op_ExportArchive | Op_ImportArchive | Op_QueryArchivePage
    | Op_ExportArchiveFile | Op_ExportKit | Op_ConfirmKitSaved | Op_RestoreKit | Op_ResumeRecovery
    | Op_QueryOnboarding | Op_QueryKeyPackageSupply | Op_CheckKeyPackages | Op_ReplenishKeyPackages
    | Op_SetNotificationHint | Op_RegisterWatchKey | Op_ClearWatchKey | Op_QueryWatchCredentials
    | Op_QueryDevices | Op_QueryContacts | Op_SaveContact | Op_RenameContact | Op_VerifyContact
    | Op_CreateContactConversation | Op_QueryOwnRoute | Op_PreviewRoutes | Op_CreateRouteConversation
    | Op_QueueMessage | Op_CreateConversation | Op_AddDevice | Op_RemoveDevice | Op_SendMessage | Op_SendFile
    | Op_Sync | Op_RevokeDevice | Op_QueryConversations | Op_QueryPeers | Op_QueryHistoryPage
    | Op_SearchHistory | Op_MarkRead | Op_QueryArchived | Op_QueueAttachment | Op_ResumeAttachment
    | Op_CancelAttachment | Op_ExportAttachment

datatype (plugins only: size) client_command =
    Cmd_Invitations invitation_action | Cmd_QueueAttachment bytes string bytes
    | Cmd_ResumeAttachment string bytes bytes | Cmd_CancelAttachment bytes bytes
    | Cmd_ExportAttachment bytes bytes | Cmd_CreateIdentity | Cmd_Enroll string string | Cmd_CreateLinkRequest
    | Cmd_AuthorizeLink string string | Cmd_CompleteLink string string | Cmd_BeginPairing string
    | Cmd_AwaitPairing string pairing_session_handle | Cmd_ApprovePairing string string
    | Cmd_ConfirmPairing string bytes string | Cmd_CancelPairing bytes | Cmd_QueryPendingPairing
    | Cmd_OfferLink | Cmd_AwaitLinkRequest bytes | Cmd_AnswerLink bytes bool
    | Cmd_JoinLink string "string option" bool | Cmd_OfferCard bool | Cmd_CloseCard bytes
    | Cmd_QuerySharedCards | Cmd_SetCardName "string option" | Cmd_QueryCardName | Cmd_PreviewCard string
    | Cmd_StartFromCard string string bool | Cmd_AnswerRequest bytes bool | Cmd_ExportArchive
    | Cmd_ImportArchive archive_import_request | Cmd_QueryArchivePage "int option" u32
    | Cmd_ExportArchiveFile bytes bytes | Cmd_ExportKit | Cmd_ConfirmKitSaved
    | Cmd_RestoreKit recovery_request | Cmd_ResumeRecovery | Cmd_QueryOnboarding | Cmd_QueryKeyPackageSupply
    | Cmd_CheckKeyPackages | Cmd_ReplenishKeyPackages | Cmd_SetNotificationHint string | Cmd_RegisterWatchKey
    | Cmd_ClearWatchKey | Cmd_QueryWatchCredentials | Cmd_QueryDevices | Cmd_QueryContacts
    | Cmd_SaveContact string string "string option" | Cmd_RenameContact bytes string
    | Cmd_VerifyContact bytes string | Cmd_CreateContactConversation string "saved_recipient list"
    | Cmd_QueryOwnRoute | Cmd_PreviewRoutes "string list"
    | Cmd_CreateRouteConversation string "conversation_route list" | Cmd_QueueMessage string string
    | Cmd_CreateConversation string "string list" | Cmd_AddDevice string string "string option"
    | Cmd_RemoveDevice string string "string option" | Cmd_SendMessage string string "string option"
    | Cmd_SendFile string string "string option" | Cmd_Sync string | Cmd_RevokeDevice string string
    | Cmd_QueryConversations | Cmd_QueryPeers bytes | Cmd_QueryHistoryPage bytes "int option" nat
    | Cmd_SearchHistory bytes string "int option" nat | Cmd_MarkRead bytes int
    | Cmd_QueryArchived "bytes option"

primrec operation_of :: "client_command \<Rightarrow> operation" where
    "operation_of (Cmd_Invitations _) = Op_Invitations"
  | "operation_of (Cmd_QueueAttachment _ _ _) = Op_QueueAttachment"
  | "operation_of (Cmd_ResumeAttachment _ _ _) = Op_ResumeAttachment"
  | "operation_of (Cmd_CancelAttachment _ _) = Op_CancelAttachment"
  | "operation_of (Cmd_ExportAttachment _ _) = Op_ExportAttachment"
  | "operation_of Cmd_CreateIdentity = Op_CreateIdentity"
  | "operation_of (Cmd_Enroll _ _) = Op_Enroll"
  | "operation_of Cmd_CreateLinkRequest = Op_CreateLinkRequest"
  | "operation_of (Cmd_AuthorizeLink _ _) = Op_AuthorizeLink"
  | "operation_of (Cmd_CompleteLink _ _) = Op_CompleteLink"
  | "operation_of (Cmd_BeginPairing _) = Op_BeginPairing"
  | "operation_of (Cmd_AwaitPairing _ _) = Op_AwaitPairing"
  | "operation_of (Cmd_ApprovePairing _ _) = Op_ApprovePairing"
  | "operation_of (Cmd_ConfirmPairing _ _ _) = Op_ConfirmPairing"
  | "operation_of (Cmd_CancelPairing _) = Op_CancelPairing"
  | "operation_of Cmd_QueryPendingPairing = Op_QueryPendingPairing"
  | "operation_of Cmd_OfferLink = Op_OfferLink"
  | "operation_of (Cmd_AwaitLinkRequest _) = Op_AwaitLinkRequest"
  | "operation_of (Cmd_AnswerLink _ _) = Op_AnswerLink"
  | "operation_of (Cmd_JoinLink _ _ _) = Op_JoinLink"
  | "operation_of (Cmd_OfferCard _) = Op_OfferCard"
  | "operation_of (Cmd_CloseCard _) = Op_CloseCard"
  | "operation_of Cmd_QuerySharedCards = Op_QuerySharedCards"
  | "operation_of (Cmd_SetCardName _) = Op_SetCardName"
  | "operation_of Cmd_QueryCardName = Op_QueryCardName"
  | "operation_of (Cmd_PreviewCard _) = Op_PreviewCard"
  | "operation_of (Cmd_StartFromCard _ _ _) = Op_StartFromCard"
  | "operation_of (Cmd_AnswerRequest _ _) = Op_AnswerRequest"
  | "operation_of Cmd_ExportArchive = Op_ExportArchive"
  | "operation_of (Cmd_ImportArchive _) = Op_ImportArchive"
  | "operation_of (Cmd_QueryArchivePage _ _) = Op_QueryArchivePage"
  | "operation_of (Cmd_ExportArchiveFile _ _) = Op_ExportArchiveFile"
  | "operation_of Cmd_ExportKit = Op_ExportKit"
  | "operation_of Cmd_ConfirmKitSaved = Op_ConfirmKitSaved"
  | "operation_of (Cmd_RestoreKit _) = Op_RestoreKit"
  | "operation_of Cmd_ResumeRecovery = Op_ResumeRecovery"
  | "operation_of Cmd_QueryOnboarding = Op_QueryOnboarding"
  | "operation_of Cmd_QueryKeyPackageSupply = Op_QueryKeyPackageSupply"
  | "operation_of Cmd_CheckKeyPackages = Op_CheckKeyPackages"
  | "operation_of Cmd_ReplenishKeyPackages = Op_ReplenishKeyPackages"
  | "operation_of (Cmd_SetNotificationHint _) = Op_SetNotificationHint"
  | "operation_of Cmd_RegisterWatchKey = Op_RegisterWatchKey"
  | "operation_of Cmd_ClearWatchKey = Op_ClearWatchKey"
  | "operation_of Cmd_QueryWatchCredentials = Op_QueryWatchCredentials"
  | "operation_of Cmd_QueryDevices = Op_QueryDevices"
  | "operation_of Cmd_QueryContacts = Op_QueryContacts"
  | "operation_of (Cmd_SaveContact _ _ _) = Op_SaveContact"
  | "operation_of (Cmd_RenameContact _ _) = Op_RenameContact"
  | "operation_of (Cmd_VerifyContact _ _) = Op_VerifyContact"
  | "operation_of (Cmd_CreateContactConversation _ _) = Op_CreateContactConversation"
  | "operation_of Cmd_QueryOwnRoute = Op_QueryOwnRoute"
  | "operation_of (Cmd_PreviewRoutes _) = Op_PreviewRoutes"
  | "operation_of (Cmd_CreateRouteConversation _ _) = Op_CreateRouteConversation"
  | "operation_of (Cmd_QueueMessage _ _) = Op_QueueMessage"
  | "operation_of (Cmd_CreateConversation _ _) = Op_CreateConversation"
  | "operation_of (Cmd_AddDevice _ _ _) = Op_AddDevice"
  | "operation_of (Cmd_RemoveDevice _ _ _) = Op_RemoveDevice"
  | "operation_of (Cmd_SendMessage _ _ _) = Op_SendMessage"
  | "operation_of (Cmd_SendFile _ _ _) = Op_SendFile"
  | "operation_of (Cmd_Sync _) = Op_Sync"
  | "operation_of (Cmd_RevokeDevice _ _) = Op_RevokeDevice"
  | "operation_of Cmd_QueryConversations = Op_QueryConversations"
  | "operation_of (Cmd_QueryPeers _) = Op_QueryPeers"
  | "operation_of (Cmd_QueryHistoryPage _ _ _) = Op_QueryHistoryPage"
  | "operation_of (Cmd_SearchHistory _ _ _ _) = Op_SearchHistory"
  | "operation_of (Cmd_MarkRead _ _) = Op_MarkRead"
  | "operation_of (Cmd_QueryArchived _) = Op_QueryArchived"

section \<open>What an operation records\<close>

datatype message_kind = TextMessage | FileMessage

record local_acceptance =
  la_envelopes :: nat
  la_peers_without_route :: nat
  la_revoked_devices :: nat

record message_receipt =
  mr_group_id :: bytes
  mr_event_id :: bytes
  mr_kind :: message_kind
  mr_local_acceptance :: local_acceptance

datatype delivery_status = StatusQueued | StatusAccepted u64 | StatusUndeliverable string

datatype manifest_source = FromGroup | FromRealm

datatype removal_outcome = Removed u64 | LeftToCommitter | NotInGroup

datatype upload_restart_reason = FileChanged | RemoteMissing string

datatype pairing_cancellation = CancellationDone | CancellationTooLate

datatype (plugins only: size) state_change =
    Ch_IdentityCreated bytes bool | Ch_DevicePrepared bytes | Ch_EnrollmentAccepted bytes
    | Ch_EnrollmentEndpointListStored u64 | Ch_MailboxCreated bytes | Ch_KeyPackagesPublished nat
    | Ch_RouteAvailable string | Ch_LinkRequestCreated bytes string | Ch_DeviceAuthorizationSigned bytes u64
    | Ch_ManifestPublished u64 | Ch_CredentialPublished | Ch_LinkGrantCreated string
    | Ch_DeviceLinked bytes bytes | Ch_PairingStarted bytes bytes string u64
    | Ch_PairingVerificationReady bytes string "u64 option" bool | Ch_PairingGrantSent bytes string
    | Ch_PairingCancelled bytes | Ch_PairingCancellationRejected bytes pairing_cancellation
    | Ch_PairingCompletionChanged bytes pairing_phase | Ch_LinkCompletionChanged pairing_phase
    | Ch_PairingExpired bytes | Ch_LinkOffered bytes u64 | Ch_LinkRequested bytes string bytes
    | Ch_LinkAnswered bytes bool | Ch_HelloReceived bytes "string option" card_use
    | Ch_ContactVerifiedInPerson bytes bytes | Ch_RequestAnswered bytes bool
    | Ch_MessageQueued message_receipt u64 | Ch_DeliveryChanged "bytes option" bytes bytes delivery_status
    | Ch_EnvelopesPublished nat bool | Ch_RelayUnavailable nat string | Ch_ConversationCreated bytes nat u64
    | Ch_ConversationJoined bytes u64 | Ch_RosterUpdated bytes nat | Ch_DeviceAdded bytes bytes u64
    | Ch_DeviceRemoved bytes u32 u64 | Ch_CommitApplied bytes u32 u64 | Ch_MessageReceived bytes bytes bytes
    | Ch_FileAnnounced bytes bytes string u64 | Ch_DuplicateDelivery bytes | Ch_DeliveryDeferred bytes string
    | Ch_SyncCompleted nat nat nat | Ch_EndpointFallback string | Ch_EndpointFailed string string
    | Ch_EndpointListStored u64 nat | Ch_EndpointListRejected string
    | Ch_ManifestUpdated bytes u64 nat nat manifest_source bool | Ch_ManifestRejected bytes string
    | Ch_DeviceRevoked bytes bytes | Ch_RealmRevocationPublished
    | Ch_ConversationManifestSent bytes removal_outcome | Ch_KeyPackagesReplenished u32 nat
    | Ch_ArchivedConversation bytes | Ch_ArchivedEvent string bytes
    | Ch_UploadRestarted string upload_restart_reason | Ch_UploadResumed string nat nat
    | Ch_BlobUploaded bytes nat u64 | Ch_FileDownloadResumed string nat | Ch_FileSaved string string
    | Ch_FileUnavailable string string | Ch_MlsMessageProcessed bytes string

section \<open>Errors\<close>

datatype failure_kind = TransportFailure | StorageFailure | ProtocolFailure | QuotaFailure | DomainFailure
  | FileSystemFailure | InternalFailure

datatype cli_error =
    CliTransport string | CliStorage string | CliProtocol string | CliRelay u16 string | CliDomain string
  | CliFileSystem string | CliInternal string | CliInterrupted u8 string

fun error_kind :: "cli_error \<Rightarrow> failure_kind" where
  "error_kind (CliTransport _) = TransportFailure"
| "error_kind (CliStorage _) = StorageFailure"
| "error_kind (CliProtocol _) = ProtocolFailure"
| "error_kind (CliRelay code _) =
     (if code \<in> {401, 403, 410} then DomainFailure else if code = 429 then QuotaFailure else ProtocolFailure)"
| "error_kind (CliDomain _) = DomainFailure"
| "error_kind (CliFileSystem _) = FileSystemFailure"
| "error_kind (CliInternal _) = InternalFailure"
| "error_kind (CliInterrupted _ _) = InternalFailure"

fun error_message :: "cli_error \<Rightarrow> string" where
  "error_message (CliTransport m) = m"
| "error_message (CliStorage m) = m"
| "error_message (CliProtocol m) = m"
| "error_message (CliRelay _ m) = m"
| "error_message (CliDomain m) = m"
| "error_message (CliFileSystem m) = m"
| "error_message (CliInternal m) = m"
| "error_message (CliInterrupted _ m) = m"

fun relay_code :: "cli_error \<Rightarrow> u16 option" where
  "relay_code (CliRelay code _) = Some code"
| "relay_code _ = None"

record operation_result =
  or_changes :: "state_change list"
  or_messages :: "message_receipt list"

definition no_result :: operation_result where
  "no_result = \<lparr>or_changes = [], or_messages = []\<rparr>"

datatype application_error =
    AppTransport operation cli_error operation_result
  | AppStorage operation cli_error operation_result
  | AppProtocol operation cli_error operation_result
  | AppQuota operation cli_error operation_result
  | AppDomain operation cli_error operation_result
  | AppFileSystem operation cli_error operation_result
  | AppInternal operation cli_error operation_result
  | AppBusy operation nat
  | AppPanicked operation
  | AppInterrupted u8 string operation_result

fun error_operation :: "application_error \<Rightarrow> operation option" where
  "error_operation (AppTransport op _ _) = Some op"
| "error_operation (AppStorage op _ _) = Some op"
| "error_operation (AppProtocol op _ _) = Some op"
| "error_operation (AppQuota op _ _) = Some op"
| "error_operation (AppDomain op _ _) = Some op"
| "error_operation (AppFileSystem op _ _) = Some op"
| "error_operation (AppInternal op _ _) = Some op"
| "error_operation (AppBusy op _) = Some op"
| "error_operation (AppPanicked op) = Some op"
| "error_operation (AppInterrupted _ _ _) = None"

fun exit_code :: "application_error \<Rightarrow> u8 option" where
  "exit_code (AppInterrupted code _ _) = Some code"
| "exit_code _ = None"

fun partial_result :: "application_error \<Rightarrow> operation_result" where
  "partial_result (AppTransport _ _ p) = p"
| "partial_result (AppStorage _ _ p) = p"
| "partial_result (AppProtocol _ _ p) = p"
| "partial_result (AppQuota _ _ p) = p"
| "partial_result (AppDomain _ _ p) = p"
| "partial_result (AppFileSystem _ _ p) = p"
| "partial_result (AppInternal _ _ p) = p"
| "partial_result (AppInterrupted _ _ p) = p"
| "partial_result (AppBusy _ _) = no_result"
| "partial_result (AppPanicked _) = no_result"

definition classified_error :: "operation \<Rightarrow> cli_error \<Rightarrow> operation_result \<Rightarrow> application_error" where
  "classified_error op source partial =
     (case error_kind source of
        TransportFailure \<Rightarrow> AppTransport op source partial
      | StorageFailure \<Rightarrow> AppStorage op source partial
      | ProtocolFailure \<Rightarrow> AppProtocol op source partial
      | QuotaFailure \<Rightarrow> AppQuota op source partial
      | DomainFailure \<Rightarrow> AppDomain op source partial
      | FileSystemFailure \<Rightarrow> AppFileSystem op source partial
      | InternalFailure \<Rightarrow> AppInternal op source partial)"

definition to_application_error :: "operation \<Rightarrow> cli_error \<Rightarrow> application_error" where
  "to_application_error op source = classified_error op source no_result"

definition executor_stopped :: "operation \<Rightarrow> application_error" where
  "executor_stopped op = AppInternal op (CliInternal ''client state executor stopped'') no_result"

lemma classified_error_fields [simp]:
  "partial_result (classified_error op source partial) = partial"
  "error_operation (classified_error op source partial) = Some op"
  "exit_code (classified_error op source partial) = None"
  by (simp_all add: classified_error_def split: failure_kind.split)

end
