(* ===== verification/App_Progress.thy ===== *)
theory App_Progress
  imports App_Commands
begin

text \<open>
  Progress of a running operation (\<open>core/crates/arveil-app/src/lib.rs\<close>): the changes an operation
  records, the few of them a screen is told about while it runs, and the bounded channels that carry
  them to whoever watches the profile.

  A subscriber is one entry of the registry together with the queue of its channel and whether the
  receiving end still exists; a channel has one sender and one receiver, so the queue has no other
  owner. The sequence counter is a 64-bit word and wraps.

  Shown: a subscriber sees the published events in order, and its sequence numbers and gaps account for
  every event it did not see; what an operation recorded before it failed reaches its caller.
\<close>

section \<open>Progress events\<close>

datatype (plugins only: size) progress_kind =
    Pk_MessageQueued bytes bytes | Pk_MessageReceived bytes bytes | Pk_EnvelopesPublished nat bool
  | Pk_DeliveryChanged bytes string | Pk_FileAnnounced bytes bytes string u64
  | Pk_FileTransfer string nat "nat option" | Pk_FileSaved string | Pk_Synced nat nat nat
  | Pk_PairingChanged bytes string | Pk_PairingVerification bytes string bool | Pk_RelayUnavailable nat
  | Pk_Onboarding string | Pk_Gap nat

record progress_event =
  pe_sequence :: u64
  pe_operation :: operation
  pe_kind :: progress_kind

definition phase_debug :: "pairing_phase \<Rightarrow> string" where
  "phase_debug p =
     (case p of Committing \<Rightarrow> ''Committing'' | LocalApplied \<Rightarrow> ''LocalApplied'' | RealmSaved \<Rightarrow> ''RealmSaved''
      | EndpointStored \<Rightarrow> ''EndpointStored'' | RealmEnrolled \<Rightarrow> ''RealmEnrolled'' | MailboxStored \<Rightarrow> ''MailboxStored''
      | KeyPackagesPublished \<Rightarrow> ''KeyPackagesPublished'' | PairingComplete \<Rightarrow> ''Complete'')"

definition status_str :: "delivery_status \<Rightarrow> string" where
  "status_str s = (case s of StatusQueued \<Rightarrow> ''queued'' | StatusAccepted _ \<Rightarrow> ''accepted''
     | StatusUndeliverable _ \<Rightarrow> ''undeliverable'')"

definition project :: "state_change \<Rightarrow> progress_kind option" where
  "project change =
     (case change of
        Ch_MessageQueued receipt _ \<Rightarrow> Some (Pk_MessageQueued (mr_group_id receipt) (mr_event_id receipt))
      | Ch_MessageReceived group_id event_id _ \<Rightarrow> Some (Pk_MessageReceived group_id event_id)
      | Ch_EnvelopesPublished n left \<Rightarrow> Some (Pk_EnvelopesPublished n left)
      | Ch_DeliveryChanged _ _ delivery_id state \<Rightarrow> Some (Pk_DeliveryChanged delivery_id (status_str state))
      | Ch_FileAnnounced group_id event_id name sz \<Rightarrow> Some (Pk_FileAnnounced group_id event_id name sz)
      | Ch_UploadResumed name offset whole \<Rightarrow> Some (Pk_FileTransfer name offset (Some whole))
      | Ch_FileDownloadResumed name offset \<Rightarrow> Some (Pk_FileTransfer name offset None)
      | Ch_FileSaved name _ \<Rightarrow> Some (Pk_FileSaved name)
      | Ch_SyncCompleted fetched new acked \<Rightarrow> Some (Pk_Synced fetched new acked)
      | Ch_PairingCompletionChanged session_id phase \<Rightarrow> Some (Pk_PairingChanged session_id (phase_debug phase))
      | Ch_PairingVerificationReady session_id verification_code _ confirmation_required \<Rightarrow>
          Some (Pk_PairingVerification session_id verification_code confirmation_required)
      | Ch_PairingGrantSent session_id _ \<Rightarrow> Some (Pk_PairingChanged session_id ''grant-sent'')
      | Ch_LinkOffered pair_id _ \<Rightarrow> Some (Pk_PairingChanged pair_id ''link-offered'')
      | Ch_LinkRequested pair_id _ _ \<Rightarrow> Some (Pk_PairingChanged pair_id ''link-requested'')
      | Ch_LinkAnswered pair_id approved \<Rightarrow>
          Some (Pk_PairingChanged pair_id (if approved then ''link-approved'' else ''link-declined''))
      | Ch_RelayUnavailable left _ \<Rightarrow> Some (Pk_RelayUnavailable left)
      | Ch_IdentityCreated _ _ \<Rightarrow> Some (Pk_Onboarding ''identity-created'')
      | Ch_DevicePrepared _ \<Rightarrow> Some (Pk_Onboarding ''device-prepared'')
      | Ch_EnrollmentAccepted _ \<Rightarrow> Some (Pk_Onboarding ''enrolled'')
      | Ch_MailboxCreated _ \<Rightarrow> Some (Pk_Onboarding ''mailbox-created'')
      | Ch_KeyPackagesPublished _ \<Rightarrow> Some (Pk_Onboarding ''key-packages-published'')
      | Ch_DeviceLinked _ _ \<Rightarrow> Some (Pk_Onboarding ''device-linked'')
      | _ \<Rightarrow> None)"

section \<open>Subscribers\<close>

definition WATCH_CAPACITY :: nat where
  "WATCH_CAPACITY = 256"

record subscriber =
  sb_id :: nat
  sb_queue :: "progress_event list"
  sb_connected :: bool
  sb_dropped :: nat

record subscribers =
  ss_inner :: "subscriber list"
  ss_sequence :: u64
  ss_next :: nat

definition no_subscribers :: subscribers where
  "no_subscribers = \<lparr>ss_inner = [], ss_sequence = 0, ss_next = 0\<rparr>"

definition subscribe :: "subscribers \<Rightarrow> nat \<times> subscribers" where
  "subscribe ss =
     (ss_next ss, ss\<lparr>ss_inner := ss_inner ss @ [\<lparr>sb_id = ss_next ss, sb_queue = [], sb_connected = True, sb_dropped = 0\<rparr>],
       ss_next := ss_next ss + 1\<rparr>)"

datatype send_outcome = Sent subscriber | ChannelFull | Disconnected

definition try_send :: "subscriber \<Rightarrow> progress_event \<Rightarrow> send_outcome" where
  "try_send sb event =
     (if \<not> sb_connected sb then Disconnected
      else if WATCH_CAPACITY \<le> length (sb_queue sb) then ChannelFull
      else Sent (sb\<lparr>sb_queue := sb_queue sb @ [event]\<rparr>))"

definition send_event :: "u64 \<Rightarrow> operation \<Rightarrow> progress_kind \<Rightarrow> subscriber \<Rightarrow> subscriber option" where
  "send_event sequence op kind sb =
     (case try_send sb \<lparr>pe_sequence = sequence, pe_operation = op, pe_kind = kind\<rparr> of
        Sent sb' \<Rightarrow> Some sb'
      | ChannelFull \<Rightarrow> Some (sb\<lparr>sb_dropped := sb_dropped sb + 1\<rparr>)
      | Disconnected \<Rightarrow> None)"

definition publish_to :: "u64 \<Rightarrow> operation \<Rightarrow> progress_kind \<Rightarrow> subscriber \<Rightarrow> subscriber option" where
  "publish_to sequence op kind sb =
     (if sb_dropped sb > 0 then
        case try_send sb \<lparr>pe_sequence = sequence, pe_operation = op, pe_kind = Pk_Gap (sb_dropped sb)\<rparr> of
          Sent sb' \<Rightarrow> send_event sequence op kind (sb'\<lparr>sb_dropped := 0\<rparr>)
        | ChannelFull \<Rightarrow> Some (sb\<lparr>sb_dropped := sb_dropped sb + 1\<rparr>)
        | Disconnected \<Rightarrow> None
      else send_event sequence op kind sb)"

definition publish :: "operation \<Rightarrow> state_change \<Rightarrow> subscribers \<Rightarrow> subscribers" where
  "publish op change ss =
     (case project change of
        None \<Rightarrow> ss
      | Some kind \<Rightarrow>
          if ss_inner ss = [] then ss
          else ss\<lparr>ss_sequence := ss_sequence ss + 1,
                  ss_inner := List.map_filter (publish_to (ss_sequence ss) op kind) (ss_inner ss)\<rparr>)"

text \<open>The receiving end: take the oldest event, or go away.\<close>

definition try_recv :: "nat \<Rightarrow> subscribers \<Rightarrow> progress_event option \<times> subscribers" where
  "try_recv i ss =
     (case find (\<lambda>sb. sb_id sb = i \<and> sb_connected sb) (ss_inner ss) of
        Some sb \<Rightarrow>
          (case sb_queue sb of
             [] \<Rightarrow> (None, ss)
           | e # es \<Rightarrow> (Some e, ss\<lparr>ss_inner := map (\<lambda>x. if sb_id x = i then x\<lparr>sb_queue := es\<rparr> else x) (ss_inner ss)\<rparr>))
      | None \<Rightarrow> (None, ss))"

definition drop_subscription :: "nat \<Rightarrow> subscribers \<Rightarrow> subscribers" where
  "drop_subscription i ss =
     ss\<lparr>ss_inner := map (\<lambda>x. if sb_id x = i then x\<lparr>sb_connected := False\<rparr> else x) (ss_inner ss)\<rparr>"

text \<open>What can happen to the registry, and a run of it with the events each subscription took.\<close>

datatype watch_label = Publish operation state_change | Subscribe | TryRecv nat | DropSubscription nat

fun watch_step :: "watch_label \<Rightarrow> subscribers \<Rightarrow> (nat \<times> progress_event) list \<times> subscribers" where
  "watch_step (Publish op change) ss = ([], publish op change ss)"
| "watch_step Subscribe ss = ([], snd (subscribe ss))"
| "watch_step (TryRecv i) ss =
     (case try_recv i ss of (None, ss') \<Rightarrow> ([], ss') | (Some e, ss') \<Rightarrow> ([(i, e)], ss'))"
| "watch_step (DropSubscription i) ss = ([], drop_subscription i ss)"

fun watch_run :: "watch_label list \<Rightarrow> subscribers \<Rightarrow> (nat \<times> progress_event) list \<times> subscribers" where
  "watch_run [] ss = ([], ss)"
| "watch_run (l # ls) ss =
     (let (got, ss') = watch_step l ss; (later, ss'') = watch_run ls ss' in (got @ later, ss''))"

section \<open>Running an operation\<close>

text \<open>
  The task-local values of a running operation: who watches it (\<open>WATCHERS\<close>, absent outside the executor)
  and the lists it writes to (\<open>CHANGES\<close>, \<open>MESSAGES\<close>). Each operation starts with fresh lists and takes what
  they hold when it ends, whichever way it ends.
\<close>

type_synonym watchers = "(operation \<times> subscribers) option"

record task =
  tk_watchers :: watchers
  tk_result :: operation_result

type_synonym 'a action = "(task, cli_error, 'a) op"

definition record_change :: "state_change \<Rightarrow> unit action" where
  "record_change change =
     op_then (op_modify (tk_watchers_update (map_option (\<lambda>(op, ss). (op, publish op change ss)))))
       (\<lambda>_. op_modify (tk_result_update (or_changes_update (\<lambda>cs. cs @ [change]))))"

definition record_message :: "message_receipt \<Rightarrow> u64 \<Rightarrow> unit action" where
  "record_message receipt epoch =
     op_then (op_modify (tk_result_update (or_messages_update (\<lambda>ms. ms @ [receipt]))))
       (\<lambda>_. record_change (Ch_MessageQueued receipt epoch))"

definition take_result :: "operation_result action" where
  "take_result = op_then (op_get tk_result)
     (\<lambda>r. op_then (op_modify (tk_result_update (\<lambda>_. no_result))) (\<lambda>_. op_return r))"

definition run_operation_with_value ::
  "operation \<Rightarrow> 'a action \<Rightarrow> (watchers, application_error, 'a \<times> operation_result) op" where
  "run_operation_with_value op action w =
     (case action \<lparr>tk_watchers = w, tk_result = no_result\<rparr> of
        (Inr v, t) \<Rightarrow>
          (case take_result t of (Inr r, t') \<Rightarrow> (Inr (v, r), tk_watchers t')
           | (Inl e, t') \<Rightarrow> (Inl (classified_error op e no_result), tk_watchers t'))
      | (Inl source, t) \<Rightarrow>
          (case take_result t of
             (Inr partial, t') \<Rightarrow>
               (Inl (case source of CliInterrupted code message \<Rightarrow> AppInterrupted code message partial
                     | _ \<Rightarrow> classified_error op source partial), tk_watchers t')
           | (Inl e, t') \<Rightarrow> (Inl (classified_error op e no_result), tk_watchers t')))"

definition run_operation :: "operation \<Rightarrow> unit action \<Rightarrow> (watchers, application_error, operation_result) op" where
  "run_operation op action = op_then (run_operation_with_value op action) (\<lambda>(_, r). op_return r)"

section \<open>What a subscriber is told\<close>

text \<open>The events published by a run, and how many of them one message of a stream accounts for.\<close>

definition published :: "watch_label list \<Rightarrow> (operation \<times> progress_kind) list" where
  "published ls =
     List.map_filter (\<lambda>l. case l of Publish op change \<Rightarrow> map_option (Pair op) (project change) | _ \<Rightarrow> None) ls"

definition gap_size :: "progress_event \<Rightarrow> nat" where
  "gap_size e = (case pe_kind e of Pk_Gap d \<Rightarrow> d | _ \<Rightarrow> 0)"

definition is_gap :: "progress_event \<Rightarrow> bool" where
  "is_gap e = (case pe_kind e of Pk_Gap _ \<Rightarrow> True | _ \<Rightarrow> False)"

definition accounts :: "progress_event \<Rightarrow> nat" where
  "accounts e = (if is_gap e then gap_size e else 1)"

definition accounted :: "progress_event list \<Rightarrow> nat" where
  "accounted es = sum_list (map accounts es)"

text \<open>
  A stream tells the truth about the events \<open>evs\<close> published since number \<open>start\<close>: an event is the next
  one not accounted for, under its own number, and a gap says how many were lost and carries the number
  of the event it was sent with.
\<close>

fun told :: "u64 \<Rightarrow> (operation \<times> progress_kind) list \<Rightarrow> nat \<Rightarrow> progress_event list \<Rightarrow> bool" where
  "told start evs n [] \<longleftrightarrow> True"
| "told start evs n (e # es) \<longleftrightarrow>
     (if is_gap e then 0 < gap_size e \<and> pe_sequence e = start + of_nat (n + gap_size e)
      else n < length evs \<and> (pe_operation e, pe_kind e) = evs ! n \<and> pe_sequence e = start + of_nat n) \<and>
     told start evs (n + accounts e) es"

lemma project_not_gap: "project change = Some kind \<Longrightarrow> kind \<noteq> Pk_Gap d"
  by (cases change) (auto simp: project_def)

lemma accounted_simps [simp]:
  "accounted [] = 0"
  "accounted (e # es) = accounts e + accounted es"
  "accounted (es @ fs) = accounted es + accounted fs"
  by (simp_all add: accounted_def)

lemma told_append: "told start evs n (es @ fs) \<longleftrightarrow> told start evs n es \<and> told start evs (n + accounted es) fs"
  by (induction es arbitrary: n) (simp_all add: add.assoc)

lemma told_more: "told start evs n es \<Longrightarrow> told start (evs @ more_evs) n es"
  by (induction es arbitrary: n) (auto simp: nth_append split: if_splits)

text \<open>
  One subscriber seen from outside: \<open>got\<close> is what it took so far and \<open>evs\<close> what was published since it
  subscribed at number \<open>start\<close>.
\<close>

definition in_step :: "u64 \<Rightarrow> (operation \<times> progress_kind) list \<Rightarrow> progress_event list \<Rightarrow> subscriber \<Rightarrow> bool" where
  "in_step start evs got sb \<longleftrightarrow>
     sb_connected sb \<and> length (sb_queue sb) \<le> WATCH_CAPACITY \<and>
     told start evs 0 (got @ sb_queue sb) \<and> accounted (got @ sb_queue sb) + sb_dropped sb = length evs"

lemma send_event_in_step:
  assumes "in_step start evs got sb" and "sb_dropped sb = 0" and "\<forall>d. kind \<noteq> Pk_Gap d"
  shows "\<exists>sb'. send_event (start + of_nat (length evs)) op kind sb = Some sb' \<and> sb_id sb' = sb_id sb \<and>
    in_step start (evs @ [(op, kind)]) got sb'"
proof -
  have k: "\<not> is_gap \<lparr>pe_sequence = s, pe_operation = op, pe_kind = kind\<rparr>" for s
    using assms(3) by (cases kind) (simp_all add: is_gap_def)
  show ?thesis
    using assms(1,2) k
    by (auto simp: send_event_def try_send_def in_step_def told_append told_more accounts_def nth_append)
qed

lemma publish_to_in_step:
  assumes "in_step start evs got sb" and "\<forall>d. kind \<noteq> Pk_Gap d"
  shows "\<exists>sb'. publish_to (start + of_nat (length evs)) op kind sb = Some sb' \<and> sb_id sb' = sb_id sb \<and>
    in_step start (evs @ [(op, kind)]) got sb'"
proof (cases "sb_dropped sb = 0")
  case True
  then show ?thesis
    using send_event_in_step [OF assms(1) True assms(2)] by (simp add: publish_to_def)
next
  case False
  let ?gap = "\<lparr>pe_sequence = start + of_nat (length evs), pe_operation = op, pe_kind = Pk_Gap (sb_dropped sb)\<rparr>"
  let ?sb = "sb\<lparr>sb_queue := sb_queue sb @ [?gap], sb_dropped := 0\<rparr>"
  show ?thesis
  proof (cases "WATCH_CAPACITY \<le> length (sb_queue sb)")
    case True
    then show ?thesis
      using assms(1) False by (auto simp: publish_to_def try_send_def in_step_def told_append told_more)
  next
    case room: False
    have "length evs = accounted got + accounted (sb_queue sb) + sb_dropped sb"
      using assms(1) by (simp add: in_step_def)
    then have "in_step start evs got ?sb"
      using assms(1) False room by (auto simp: in_step_def told_append accounts_def is_gap_def gap_size_def)
    from send_event_in_step [OF this _ assms(2)] show ?thesis
      using assms(1) False room by (auto simp: publish_to_def try_send_def in_step_def)
  qed
qed

text \<open>The registry hands out fresh numbers and keeps them apart.\<close>

definition subscribers_ok :: "subscribers \<Rightarrow> bool" where
  "subscribers_ok ss \<longleftrightarrow> distinct (map sb_id (ss_inner ss)) \<and> (\<forall>sb\<in>set (ss_inner ss). sb_id sb < ss_next ss)"

definition taken :: "nat \<Rightarrow> (nat \<times> progress_event) list \<Rightarrow> progress_event list" where
  "taken i got = map snd (filter (\<lambda>p. fst p = i) got)"

lemma taken_simps [simp]:
  "taken i [] = []" "taken i (got @ later) = taken i got @ taken i later"
  "taken i ((j, e) # got) = (if j = i then e # taken i got else taken i got)"
  by (simp_all add: taken_def)

lemma published_Nil [simp]: "published [] = []"
  by (simp add: published_def List.map_filter_def)

lemma published_Cons: "published (l # ls) = published [l] @ published ls"
  by (simp add: published_def List.map_filter_def)

lemma publish_to_id: "publish_to s op kind sb = Some sb' \<Longrightarrow> sb_id sb' = sb_id sb"
  by (auto simp: publish_to_def send_event_def try_send_def split: if_splits)

lemma map_filter_ids:
  fixes f :: "subscriber \<Rightarrow> subscriber option"
  assumes "\<And>sb sb'. f sb = Some sb' \<Longrightarrow> sb_id sb' = sb_id sb"
  shows "set (map sb_id (List.map_filter f sbs)) \<subseteq> set (map sb_id sbs)"
    and "distinct (map sb_id sbs) \<Longrightarrow> distinct (map sb_id (List.map_filter f sbs))"
proof -
  show sub: "set (map sb_id (List.map_filter f sbs)) \<subseteq> set (map sb_id sbs)" for sbs :: "subscriber list"
    using assms by (induction sbs) (auto simp: List.map_filter_def split: option.splits)
  show "distinct (map sb_id sbs) \<Longrightarrow> distinct (map sb_id (List.map_filter f sbs))"
  proof (induction sbs)
    case (Cons sb sbs)
    then show ?case
      using sub [of sbs] assms by (cases "f sb") (auto simp: map_filter_simps image_iff)
  qed (simp add: map_filter_simps)
qed

lemma map_filter_member: "f x = Some y \<Longrightarrow> x \<in> set xs \<Longrightarrow> y \<in> set (List.map_filter f xs)"
  by (force simp: List.map_filter_def)

lemma update_ids: "(\<And>x. sb_id (g x) = sb_id x) \<Longrightarrow> map sb_id (map g sbs) = map sb_id sbs"
  by simp

lemma publish_ok: "subscribers_ok ss \<Longrightarrow> subscribers_ok (publish op change ss)"
  using map_filter_ids [where sbs = "ss_inner ss" and f = "publish_to (ss_sequence ss) op k" for k, OF publish_to_id]
  by (fastforce simp: subscribers_ok_def publish_def split: option.split)

lemma subscribe_ok: "subscribers_ok ss \<Longrightarrow> subscribers_ok (snd (subscribe ss))"
  by (auto simp: subscribers_ok_def subscribe_def less_Suc_eq)

lemma mapped_ok:
  assumes "subscribers_ok ss" and "\<And>x. sb_id (g x) = sb_id x"
  shows "subscribers_ok (ss\<lparr>ss_inner := map g (ss_inner ss)\<rparr>)"
  using assms by (auto simp: subscribers_ok_def comp_def)

lemma try_recv_ok: "subscribers_ok ss \<Longrightarrow> subscribers_ok (snd (try_recv i ss))"
  by (auto simp: try_recv_def intro: mapped_ok split: option.split list.split)

lemma drop_subscription_ok: "subscribers_ok ss \<Longrightarrow> subscribers_ok (drop_subscription i ss)"
  unfolding drop_subscription_def by (rule mapped_ok) auto

text \<open>The invariant of one subscription through a run.\<close>

definition tracks ::
  "nat \<Rightarrow> u64 \<Rightarrow> (operation \<times> progress_kind) list \<Rightarrow> progress_event list \<Rightarrow> subscribers \<Rightarrow> bool" where
  "tracks i start evs got ss \<longleftrightarrow>
     subscribers_ok ss \<and> ss_sequence ss = start + of_nat (length evs) \<and>
     (\<exists>sb\<in>set (ss_inner ss). sb_id sb = i \<and> in_step start evs got sb)"

lemma find_unique:
  assumes "distinct (map sb_id sbs)" and "sb \<in> set sbs" and "sb_connected sb"
  shows "find (\<lambda>x. sb_id x = sb_id sb \<and> sb_connected x) sbs = Some sb"
  using assms by (induction sbs) (auto simp: image_iff)

lemma tracks_publish:
  assumes t: "tracks i start evs got ss"
  shows "tracks i start (evs @ published [Publish op change]) got (publish op change ss)"
proof (cases "project change")
  case None
  then show ?thesis
    using t by (simp add: published_def publish_def map_filter_simps)
next
  case (Some kind)
  obtain sb where sb: "sb \<in> set (ss_inner ss)" "sb_id sb = i" "in_step start evs got sb"
      and seq: "ss_sequence ss = start + of_nat (length evs)"
    using t by (auto simp: tracks_def)
  obtain sb' where sb': "publish_to (ss_sequence ss) op kind sb = Some sb'" "sb_id sb' = i"
      "in_step start (evs @ [(op, kind)]) got sb'"
    using publish_to_in_step [OF sb(3)] project_not_gap [OF Some] sb(2) seq by metis
  have ne: "ss_inner ss \<noteq> []"
    using sb(1) by auto
  have "sb' \<in> set (ss_inner (publish op change ss))"
    using Some ne map_filter_member [where f = "publish_to (ss_sequence ss) op kind", OF sb'(1) sb(1)]
    by (simp add: publish_def)
  moreover have "ss_sequence (publish op change ss) = start + of_nat (length (evs @ [(op, kind)]))"
    using Some ne seq by (simp add: publish_def)
  moreover have "published [Publish op change] = [(op, kind)]"
    using Some by (simp add: published_def map_filter_simps)
  ultimately show ?thesis
    using publish_ok [of ss op change] t sb'(2,3) by (auto simp: tracks_def)
qed

lemma tracks_try_recv:
  assumes t: "tracks i start evs got ss" and r: "watch_step (TryRecv j) ss = (out, ss')"
  shows "tracks i start evs (got @ taken i out) ss'"
proof -
  obtain sb where sb: "sb \<in> set (ss_inner ss)" "sb_id sb = i" "in_step start evs got sb"
      and ok: "subscribers_ok ss" and seq: "ss_sequence ss = start + of_nat (length evs)"
    using t by (auto simp: tracks_def)
  have ok': "subscribers_ok ss'"
    using try_recv_ok [OF ok, of j] r by (auto split: prod.splits option.splits)
  show ?thesis
  proof (cases "j = i")
    case False
    then have "sb \<in> set (ss_inner ss') \<and> ss_sequence ss' = ss_sequence ss \<and> taken i out = []"
      using r sb(1,2) by (auto simp: try_recv_def image_iff split: option.splits list.splits)
    then show ?thesis
      using ok' seq sb(2,3) by (auto simp: tracks_def)
  next
    case True
    have find: "find (\<lambda>x. sb_id x = i \<and> sb_connected x) (ss_inner ss) = Some sb"
      using find_unique [of "ss_inner ss" sb] ok sb by (auto simp: subscribers_ok_def in_step_def)
    show ?thesis
    proof (cases "sb_queue sb")
      case Nil
      then have "out = [] \<and> ss' = ss"
        using r True find by (simp add: try_recv_def)
      then show ?thesis
        using t by simp
    next
      case (Cons e es)
      then have "out = [(i, e)]" and "ss' = ss\<lparr>ss_inner := map (\<lambda>x. if sb_id x = i then x\<lparr>sb_queue := es\<rparr> else x) (ss_inner ss)\<rparr>"
        using r True find by (simp_all add: try_recv_def)
      moreover have "in_step start evs (got @ [e]) (sb\<lparr>sb_queue := es\<rparr>)"
        using sb(3) Cons by (simp add: in_step_def)
      moreover have "sb\<lparr>sb_queue := es\<rparr> \<in> set (ss_inner ss')"
        using calculation sb(1,2) by (auto simp: image_iff intro!: bexI [of _ sb])
      ultimately show ?thesis
        using ok' seq sb(2) by (auto simp: tracks_def intro!: bexI [of _ "sb\<lparr>sb_queue := es\<rparr>"])
    qed
  qed
qed

lemma tracks_step:
  assumes "tracks i start evs got ss" and "watch_step l ss = (out, ss')" and "l \<noteq> DropSubscription i"
  shows "tracks i start (evs @ published [l]) (got @ taken i out) ss'"
proof (cases l)
  case (Publish op change)
  then show ?thesis
    using assms tracks_publish by auto
next
  case Subscribe
  then show ?thesis
    using assms subscribe_ok [of ss] by (auto simp: tracks_def subscribe_def published_def map_filter_simps)
next
  case (TryRecv j)
  then show ?thesis
    using assms tracks_try_recv by (auto simp: published_def map_filter_simps)
next
  case (DropSubscription j)
  then have "\<forall>x\<in>set (ss_inner ss). sb_id x = i \<longrightarrow> x \<in> set (ss_inner ss')"
    using assms by (auto simp: drop_subscription_def image_iff)
  then show ?thesis
    using assms DropSubscription drop_subscription_ok [of ss j]
    by (auto simp: tracks_def published_def map_filter_simps) (auto simp: drop_subscription_def)
qed

lemma tracks_run:
  assumes "tracks i start evs got ss" and "watch_run ls ss = (out, ss')" and "DropSubscription i \<notin> set ls"
  shows "tracks i start (evs @ published ls) (got @ taken i out) ss'"
  using assms
proof (induction ls arbitrary: evs got ss out)
  case (Cons l ls)
  obtain out1 ss1 out2 where s: "watch_step l ss = (out1, ss1)" "watch_run ls ss1 = (out2, ss')" "out = out1 @ out2"
    using Cons.prems(2) by (auto split: prod.splits)
  have "tracks i start (evs @ published [l]) (got @ taken i out1) ss1"
    using tracks_step [OF Cons.prems(1) s(1)] Cons.prems(3) by auto
  from Cons.IH [OF this s(2)] show ?case
    using Cons.prems(3) s(3) by (subst published_Cons) simp
qed simp

lemma tracks_subscribe:
  "subscribers_ok ss \<Longrightarrow> subscribe ss = (i, ss0) \<Longrightarrow> tracks i (ss_sequence ss) [] [] ss0"
  using subscribe_ok [of ss] by (auto simp: tracks_def subscribe_def in_step_def)

lemma subscribers_ok_initial: "subscribers_ok no_subscribers"
  by (simp add: subscribers_ok_def no_subscribers_def)

section \<open>Properties of the stream\<close>

text \<open>C39. 
  Whatever is published, subscribed, received and dropped after a subscription was opened, what it took
  together with what waits in its queue tells the truth: events come in the order they were published
  under consecutive numbers, a jump is announced by a gap that says exactly how many were lost, the
  events not yet announced as lost are the ones the registry counts, and the queue is never longer
  than its capacity.
\<close>

theorem watcher_told_exactly:
  assumes "subscribers_ok ss" and "subscribe ss = (i, ss0)"
    and "DropSubscription i \<notin> set ls" and "watch_run ls ss0 = (out, ss1)"
  shows "\<exists>sb\<in>set (ss_inner ss1). sb_id sb = i \<and> length (sb_queue sb) \<le> WATCH_CAPACITY \<and>
    told (ss_sequence ss) (published ls) 0 (taken i out @ sb_queue sb) \<and>
    accounted (taken i out @ sb_queue sb) + sb_dropped sb = length (published ls)"
  using tracks_run [OF tracks_subscribe [OF assms(1,2)] assms(4,3)] by (auto simp: tracks_def in_step_def)

theorem watcher_told_exactly_witness:
  "\<exists>sb\<in>set (ss_inner (snd (watch_run [Publish Op_Sync (Ch_SyncCompleted 1 1 1), TryRecv 0]
      (snd (subscribe no_subscribers))))).
     sb_id sb = 0 \<and> accounted (taken 0 (fst (watch_run [Publish Op_Sync (Ch_SyncCompleted 1 1 1), TryRecv 0]
      (snd (subscribe no_subscribers)))) @ sb_queue sb) + sb_dropped sb = 1"
proof -
  have "published [Publish Op_Sync (Ch_SyncCompleted 1 1 1), TryRecv 0] = [(Op_Sync, Pk_Synced 1 1 1)]"
    by (simp add: published_def map_filter_simps project_def)
  then show ?thesis
    using watcher_told_exactly [of no_subscribers 0 "snd (subscribe no_subscribers)"
        "[Publish Op_Sync (Ch_SyncCompleted 1 1 1), TryRecv 0]"
        "fst (watch_run [Publish Op_Sync (Ch_SyncCompleted 1 1 1), TryRecv 0] (snd (subscribe no_subscribers)))"
        "snd (watch_run [Publish Op_Sync (Ch_SyncCompleted 1 1 1), TryRecv 0] (snd (subscribe no_subscribers)))"]
      subscribers_ok_initial
    by (auto simp: subscribe_def no_subscribers_def)
qed

section \<open>Properties of running operations\<close>

lemma record_change_apply [simp]:
  "record_change c t = (Inr (), t\<lparr>tk_watchers := map_option (\<lambda>(op, ss). (op, publish op c ss)) (tk_watchers t),
     tk_result := (tk_result t)\<lparr>or_changes := or_changes (tk_result t) @ [c]\<rparr>\<rparr>)"
  by (simp add: record_change_def op_then_def)

lemma take_result_apply [simp]: "take_result t = (Inr (tk_result t), t\<lparr>tk_result := no_result\<rparr>)"
  by (simp add: take_result_def op_then_def)

lemma record_changes_result:
  assumes "op_for cs record_change t = (res, t')"
  shows "res = Inr ()" and "tk_result t' = (tk_result t)\<lparr>or_changes := or_changes (tk_result t) @ cs\<rparr>"
  using assms
proof (induction cs arbitrary: t)
  case (Cons c cs)
  case 1
  then show ?case
    using Cons(1) by (simp add: op_then_def)
  case 2
  then show ?case
    using Cons(2) by (simp add: op_then_def)
qed auto

text \<open>
  What an operation recorded before it ended is in its result, whoever watched and however many events
  were lost on the way: a success carries every change; a failure carries them too, under the operation
  that failed and the kind of its cause, and an interruption carries its exit code.
\<close>

theorem recorded_changes_reported:
  assumes "final = op_return v \<or> final = op_fail source"
  shows "\<exists>w'. run_operation_with_value op (op_then (op_for cs record_change) (\<lambda>_. final)) w =
    ((if final = op_return v then Inr (v, \<lparr>or_changes = cs, or_messages = []\<rparr>)
      else Inl (case source of
          CliInterrupted code message \<Rightarrow> AppInterrupted code message \<lparr>or_changes = cs, or_messages = []\<rparr>
        | _ \<Rightarrow> classified_error op source \<lparr>or_changes = cs, or_messages = []\<rparr>)), w')"
proof -
  obtain res t where run: "op_for cs record_change \<lparr>tk_watchers = w, tk_result = no_result\<rparr> = (res, t)"
    by fastforce
  note r = record_changes_result [OF run]
  have "op_return v \<noteq> op_fail source"
    by (metis Inl_Inr_False op_fail_apply op_return_apply prod.inject)
  with assms r run show ?thesis
    by (auto simp: run_operation_with_value_def op_then_def no_result_def split: cli_error.split)
qed

theorem recorded_changes_reported_witness:
  "\<exists>w'. run_operation_with_value Op_Sync
     (op_then (op_for [Ch_CredentialPublished] record_change) (\<lambda>_. op_fail (CliRelay 429 ''slow down'') :: unit action)) None =
     (Inl (AppQuota Op_Sync (CliRelay 429 ''slow down'') \<lparr>or_changes = [Ch_CredentialPublished], or_messages = []\<rparr>), w')"
proof -
  have ne: "(op_fail (CliRelay 429 ''slow down'') :: unit action) \<noteq> op_return ()"
    by (metis Inl_Inr_False op_fail_apply op_return_apply prod.inject)
  have c: "classified_error Op_Sync (CliRelay 429 ''slow down'') r = AppQuota Op_Sync (CliRelay 429 ''slow down'') r" for r
    by (simp add: classified_error_def)
  show ?thesis
    using recorded_changes_reported [of "op_fail (CliRelay 429 ''slow down'')" "()" "CliRelay 429 ''slow down''"
        Op_Sync "[Ch_CredentialPublished]" None] ne
    by (simp add: c)
qed

end
