(* ===== verification/App_Executor.thy ===== *)
theory App_Executor
  imports App_Commands
begin

text \<open>
  The serial executor of one profile (\<open>core/crates/arveil-app/src/lib.rs\<close>): admission with one limit per
  kind of command, the worker that runs the admitted commands under the profile's mutexes, and what a
  panic does to the session.

  Callers and the worker run at the same time, so the executor is a step relation. A caller passes the
  poison check, takes a slot and sends its request in three steps that others may come between; the
  worker accepts a request, checks for poison when it first polls it, takes the mutexes of the command
  one by one and ends it with an answer or a panic. The requests under way are a list of which any member
  may move next. What a command does and how it ends are not fixed: any answer may end it at any time
  after it holds its mutexes.

  Shown: the compare-and-swap loop never admits more than the limit; in every reachable state the slots,
  the mutexes and the answers are accounted for; every request the worker accepted is answered after a
  bounded number of its steps, whatever the interleaving; and which commands still run after a panic.
\<close>

section \<open>Admission\<close>

datatype admission = AdmitSync | AdmitMutation | AdmitQuery

definition admission_of :: "client_command \<Rightarrow> admission" where
  "admission_of command =
     (case command of
        Cmd_Invitations action \<Rightarrow> if action = Inv_Pending \<or> action = Inv_List False then AdmitQuery else AdmitMutation
      | Cmd_Sync _ \<Rightarrow> AdmitSync
      | Cmd_QueryConversations \<Rightarrow> AdmitQuery
      | Cmd_QueryPeers _ \<Rightarrow> AdmitQuery
      | Cmd_QueryHistoryPage _ _ _ \<Rightarrow> AdmitQuery
      | Cmd_SearchHistory _ _ _ _ \<Rightarrow> AdmitQuery
      | Cmd_QueryArchived _ \<Rightarrow> AdmitQuery
      | Cmd_QueryArchivePage _ _ \<Rightarrow> AdmitQuery
      | Cmd_ExportArchiveFile _ _ \<Rightarrow> AdmitQuery
      | Cmd_QueryOnboarding \<Rightarrow> AdmitQuery
      | Cmd_QueryOwnRoute \<Rightarrow> AdmitQuery
      | Cmd_ExportAttachment _ _ \<Rightarrow> AdmitQuery
      | Cmd_QueryDevices \<Rightarrow> AdmitQuery
      | Cmd_QueryContacts \<Rightarrow> AdmitQuery
      | Cmd_PreviewRoutes _ \<Rightarrow> AdmitQuery
      | Cmd_QueryKeyPackageSupply \<Rightarrow> AdmitQuery
      | Cmd_QueryPendingPairing \<Rightarrow> AdmitQuery
      | Cmd_QuerySharedCards \<Rightarrow> AdmitQuery
      | Cmd_QueryCardName \<Rightarrow> AdmitQuery
      | Cmd_PreviewCard _ \<Rightarrow> AdmitQuery
      | _ \<Rightarrow> AdmitMutation)"

definition MAX_ACTIVE_SYNCS :: nat where "MAX_ACTIVE_SYNCS = 2"
definition MAX_ACTIVE_MUTATIONS :: nat where "MAX_ACTIVE_MUTATIONS = 32"
definition MAX_ACTIVE_QUERIES :: nat where "MAX_ACTIVE_QUERIES = 128"

type_synonym active = "admission \<Rightarrow> nat"

fun limit_of :: "admission \<Rightarrow> nat" where
  "limit_of AdmitSync = MAX_ACTIVE_SYNCS"
| "limit_of AdmitMutation = MAX_ACTIVE_MUTATIONS"
| "limit_of AdmitQuery = MAX_ACTIVE_QUERIES"

definition admit :: "admission \<Rightarrow> active \<Rightarrow> nat + active" where
  "admit k active = (if limit_of k \<le> active k then Inl (active k) else Inr (active(k := active k + 1)))"

definition release :: "admission \<Rightarrow> active \<Rightarrow> active" where
  "release k active = active(k := active k - 1)"

text \<open>
  The loop behind \<open>admit\<close>, at the level of its atomic accesses: any number of callers load the counter and
  compare and swap it, a swap may fail although the value is the expected one, and whoever was admitted
  releases at some time.
\<close>

datatype admit_pc = NotStarted | Loaded nat | Admitted | RefusedAt nat | Released

inductive admit_step :: "nat \<Rightarrow> nat \<times> admit_pc list \<Rightarrow> nat \<times> admit_pc list \<Rightarrow> bool" for limit where
  admit_load: "i < length pcs \<Longrightarrow> pcs ! i = NotStarted \<Longrightarrow> admit_step limit (c, pcs) (c, pcs[i := Loaded c])"
| admit_refuse: "i < length pcs \<Longrightarrow> pcs ! i = Loaded v \<Longrightarrow> limit \<le> v \<Longrightarrow>
    admit_step limit (c, pcs) (c, pcs[i := RefusedAt v])"
| admit_swap: "i < length pcs \<Longrightarrow> pcs ! i = Loaded v \<Longrightarrow> v < limit \<Longrightarrow> c = v \<Longrightarrow>
    admit_step limit (c, pcs) (c + 1, pcs[i := Admitted])"
| admit_retry: "i < length pcs \<Longrightarrow> pcs ! i = Loaded v \<Longrightarrow> v < limit \<Longrightarrow>
    admit_step limit (c, pcs) (c, pcs[i := Loaded c])"
| admit_release: "i < length pcs \<Longrightarrow> pcs ! i = Admitted \<Longrightarrow>
    admit_step limit (c, pcs) (c - 1, pcs[i := Released])"

definition admitted_count :: "admit_pc list \<Rightarrow> nat" where
  "admitted_count pcs = length (filter (\<lambda>p. p = Admitted) pcs)"

section \<open>Mutexes\<close>

datatype exclusion = SyncLock | EnrollmentLock | LinkCompletionLock | PairingWaitLock | AttachmentLock

definition locks_of :: "client_command \<Rightarrow> exclusion list" where
  "locks_of command =
     (case command of
        Cmd_Invitations action \<Rightarrow> if action = Inv_Pending \<or> action = Inv_List False then [] else [EnrollmentLock, SyncLock]
      | Cmd_Sync _ \<Rightarrow> [SyncLock]
      | Cmd_RevokeDevice _ _ \<Rightarrow> [SyncLock]
      | Cmd_CheckKeyPackages \<Rightarrow> [SyncLock]
      | Cmd_ReplenishKeyPackages \<Rightarrow> [SyncLock]
      | Cmd_SetNotificationHint _ \<Rightarrow> [SyncLock]
      | Cmd_RegisterWatchKey \<Rightarrow> [SyncLock]
      | Cmd_ClearWatchKey \<Rightarrow> [SyncLock]
      | Cmd_ResumeAttachment _ _ _ \<Rightarrow> [AttachmentLock]
      | Cmd_Enroll _ _ \<Rightarrow> [EnrollmentLock]
      | Cmd_RestoreKit _ \<Rightarrow> [EnrollmentLock]
      | Cmd_ResumeRecovery \<Rightarrow> [EnrollmentLock]
      | Cmd_CompleteLink _ _ \<Rightarrow> [LinkCompletionLock]
      | Cmd_ConfirmPairing _ _ _ \<Rightarrow> [LinkCompletionLock]
      | Cmd_BeginPairing _ \<Rightarrow> [LinkCompletionLock]
      | Cmd_JoinLink _ _ _ \<Rightarrow> [LinkCompletionLock]
      | Cmd_AwaitPairing _ _ \<Rightarrow> [PairingWaitLock]
      | Cmd_ApprovePairing _ _ \<Rightarrow> [PairingWaitLock]
      | Cmd_AwaitLinkRequest _ \<Rightarrow> [PairingWaitLock]
      | _ \<Rightarrow> [])"

section \<open>The executor\<close>

text \<open>
  A request carries the number of its reply channel. A command under way is either not polled yet or
  holds the first mutexes of its list and still needs the others; with nothing left to take it runs.
\<close>

record app_request =
  ap_id :: nat
  ap_command :: client_command

datatype phase = Fresh | Holding "exclusion list" "exclusion list"

record 'o executor =
  ex_open :: bool
  ex_poisoned :: bool
  ex_active :: active
  ex_checked :: "app_request list"
  ex_admitted :: "app_request list"
  ex_queue :: "app_request list"
  ex_running :: "(app_request \<times> phase) list"
  ex_answers :: "(nat \<times> (application_error + 'o)) list"
  ex_next :: nat

definition executor_start :: "'o executor" where
  "executor_start = \<lparr>ex_open = True, ex_poisoned = False, ex_active = (\<lambda>_. 0), ex_checked = [], ex_admitted = [],
     ex_queue = [], ex_running = [], ex_answers = [], ex_next = 0\<rparr>"

definition ap_op :: "app_request \<Rightarrow> operation" where
  "ap_op r = operation_of (ap_command r)"

definition ap_kind :: "app_request \<Rightarrow> admission" where
  "ap_kind r = admission_of (ap_command r)"

definition answer :: "app_request \<Rightarrow> application_error + 'o \<Rightarrow> 'o executor \<Rightarrow> 'o executor" where
  "answer r result s = s\<lparr>ex_answers := ex_answers s @ [(ap_id r, result)]\<rparr>"

fun phase_held :: "phase \<Rightarrow> exclusion list" where
  "phase_held Fresh = []"
| "phase_held (Holding held _) = held"

definition lock_free :: "exclusion \<Rightarrow> 'o executor \<Rightarrow> bool" where
  "lock_free l s \<longleftrightarrow> (\<forall>(r, p)\<in>set (ex_running s). l \<notin> set (phase_held p))"

text \<open>The three steps of \<open>execute\<close> and \<open>submit\<close>, and \<open>shutdown\<close>.\<close>

definition submit_check :: "client_command \<Rightarrow> 'o executor \<Rightarrow> 'o executor" where
  "submit_check c s =
     (let r = \<lparr>ap_id = ex_next s, ap_command = c\<rparr>; s' = s\<lparr>ex_next := ex_next s + 1\<rparr>
      in if ex_poisoned s then answer r (Inl (AppPanicked (ap_op r))) s'
         else s'\<lparr>ex_checked := ex_checked s @ [r]\<rparr>)"

definition submit_admit :: "app_request \<Rightarrow> 'o executor \<Rightarrow> 'o executor" where
  "submit_admit r s =
     (case admit (ap_kind r) (ex_active s) of
        Inl n \<Rightarrow> answer r (Inl (AppBusy (ap_op r) n)) s
      | Inr a \<Rightarrow> s\<lparr>ex_active := a, ex_admitted := ex_admitted s @ [r]\<rparr>)"

definition submit_send :: "app_request \<Rightarrow> 'o executor \<Rightarrow> 'o executor" where
  "submit_send r s =
     (if ex_open s then s\<lparr>ex_queue := ex_queue s @ [r]\<rparr>
      else answer r (Inl (executor_stopped (ap_op r))) (s\<lparr>ex_active := release (ap_kind r) (ex_active s)\<rparr>))"

definition shutdown :: "'o executor \<Rightarrow> 'o executor" where
  "shutdown s = s\<lparr>ex_open := False\<rparr>"

inductive caller_step :: "'o executor \<Rightarrow> 'o executor \<Rightarrow> bool" where
  caller_check: "caller_step s (submit_check c s)"
| caller_admit: "ex_checked s = rs @ r # rs' \<Longrightarrow> caller_step s (submit_admit r (s\<lparr>ex_checked := rs @ rs'\<rparr>))"
| caller_send: "ex_admitted s = rs @ r # rs' \<Longrightarrow> caller_step s (submit_send r (s\<lparr>ex_admitted := rs @ rs'\<rparr>))"
| caller_close: "caller_step s (shutdown s)"

text \<open>The worker: accept a request, poll it for the first time, take a mutex, end.\<close>

definition first_poll :: "app_request \<Rightarrow> 'o executor \<Rightarrow> phase option" where
  "first_poll r s = (if ex_poisoned s then None else Some (Holding [] (locks_of (ap_command r))))"

definition command_done :: "app_request \<Rightarrow> application_error + 'o \<Rightarrow> 'o executor \<Rightarrow> 'o executor" where
  "command_done r result s = (answer r result s)\<lparr>ex_active := release (ap_kind r) (ex_active s)\<rparr>"

inductive worker_step :: "'o executor \<Rightarrow> 'o executor \<Rightarrow> bool" where
  worker_accept: "ex_queue s = r # rs \<Longrightarrow>
    worker_step s (s\<lparr>ex_queue := rs, ex_running := ex_running s @ [(r, Fresh)]\<rparr>)"
| worker_poisoned: "ex_running s = ts @ (r, Fresh) # ts' \<Longrightarrow> first_poll r s = None \<Longrightarrow>
    worker_step s (answer r (Inl (AppPanicked (ap_op r))) (s\<lparr>ex_running := ts @ ts'\<rparr>))"
| worker_begin: "ex_running s = ts @ (r, Fresh) # ts' \<Longrightarrow> first_poll r s = Some p \<Longrightarrow>
    worker_step s (s\<lparr>ex_running := ts @ (r, p) # ts'\<rparr>)"
| worker_lock: "ex_running s = ts @ (r, Holding held (l # left)) # ts' \<Longrightarrow> lock_free l s \<Longrightarrow>
    worker_step s (s\<lparr>ex_running := ts @ (r, Holding (held @ [l]) left) # ts'\<rparr>)"
| worker_done: "ex_running s = ts @ (r, Holding held []) # ts' \<Longrightarrow>
    worker_step s (command_done r result (s\<lparr>ex_running := ts @ ts'\<rparr>))"
| worker_panic: "ex_running s = ts @ (r, Holding held []) # ts' \<Longrightarrow>
    worker_step s (command_done r (Inl (AppPanicked (ap_op r))) (s\<lparr>ex_running := ts @ ts', ex_poisoned := True\<rparr>))"

inductive executor_reachable :: "'o executor \<Rightarrow> bool" where
  reachable_start: "executor_reachable executor_start"
| reachable_caller: "executor_reachable s \<Longrightarrow> caller_step s t \<Longrightarrow> executor_reachable t"
| reachable_worker: "executor_reachable s \<Longrightarrow> worker_step s t \<Longrightarrow> executor_reachable t"

inductive_cases worker_stepE: "worker_step s t"
inductive_cases caller_stepE: "caller_step s t"

section \<open>The loop behind admission\<close>

lemma admitted_count_update:
  assumes "i < length pcs"
  shows "admitted_count (pcs[i := p]) + (if pcs ! i = Admitted then 1 else 0) =
    admitted_count pcs + (if p = Admitted then 1 else 0)"
proof -
  obtain xs x ys where "pcs = xs @ x # ys" and "i = length xs"
    using assms id_take_nth_drop [of i pcs] by fastforce
  then show ?thesis
    by (simp add: admitted_count_def)
qed

definition admit_ok :: "nat \<Rightarrow> nat \<times> admit_pc list \<Rightarrow> bool" where
  "admit_ok limit st \<longleftrightarrow> fst st = admitted_count (snd st) \<and> fst st \<le> limit \<and>
     (\<forall>v. RefusedAt v \<in> set (snd st) \<longrightarrow> limit \<le> v)"

lemma refused_update:
  "RefusedAt v \<in> set (pcs[i := p]) \<Longrightarrow> RefusedAt v \<in> set pcs \<or> p = RefusedAt v"
  using set_update_subset_insert by fastforce

lemma admit_ok_step: "admit_step limit s t \<Longrightarrow> admit_ok limit s \<Longrightarrow> admit_ok limit t"
proof (induction rule: admit_step.induct)
  case (admit_load i pcs c)
  then show ?case
    using admitted_count_update [of i pcs "Loaded c"] by (auto simp: admit_ok_def dest: refused_update)
next
  case (admit_refuse i pcs v c)
  then show ?case
    using admitted_count_update [of i pcs "RefusedAt v"] by (auto simp: admit_ok_def dest: refused_update)
next
  case (admit_swap i pcs v c)
  then show ?case
    using admitted_count_update [of i pcs Admitted] by (auto simp: admit_ok_def dest: refused_update)
next
  case (admit_retry i pcs v c)
  then show ?case
    using admitted_count_update [of i pcs "Loaded c"] by (auto simp: admit_ok_def dest: refused_update)
next
  case (admit_release i pcs c)
  then show ?case
    using admitted_count_update [of i pcs Released] by (auto simp: admit_ok_def dest: refused_update)
qed

lemma admit_ok_run: "(admit_step limit)\<^sup>*\<^sup>* s t \<Longrightarrow> admit_ok limit s \<Longrightarrow> admit_ok limit t"
  by (induction rule: rtranclp_induct) (auto intro: admit_ok_step)

text \<open>
  However many callers run the loop at once, the counter is the number of slots held and stays within
  the limit, and a refusal reports a value at which the limit was reached.
\<close>

theorem admit_loop_bounded:
  assumes "(admit_step limit)\<^sup>*\<^sup>* (0, replicate n NotStarted) (c, pcs)"
  shows "c = admitted_count pcs \<and> c \<le> limit \<and> (\<forall>v. RefusedAt v \<in> set pcs \<longrightarrow> limit \<le> v)"
  using admit_ok_run [OF assms] by (simp add: admit_ok_def admitted_count_def)

theorem admit_loop_bounded_witness:
  "(1::nat) = admitted_count [Admitted, RefusedAt 1] \<and> (1::nat) \<le> 1 \<and>
     (\<forall>v. RefusedAt v \<in> set [Admitted, RefusedAt 1] \<longrightarrow> (1::nat) \<le> v)"
proof (rule admit_loop_bounded [of 1 2])
  have a: "admit_step 1 (0, [NotStarted, NotStarted]) (0, [Loaded 0, NotStarted])"
    using admit_load [of 0 "[NotStarted, NotStarted]" 1 0] by simp
  have b: "admit_step 1 (0, [Loaded 0, NotStarted]) (1, [Admitted, NotStarted])"
    using admit_swap [of 0 "[Loaded 0, NotStarted]" 0 1 0] by simp
  have c: "admit_step 1 (1, [Admitted, NotStarted]) (1, [Admitted, Loaded 1])"
    using admit_load [of 1 "[Admitted, NotStarted]" 1 1] by simp
  have d: "admit_step 1 (1, [Admitted, Loaded 1]) (1, [Admitted, RefusedAt 1])"
    using admit_refuse [of 1 "[Admitted, Loaded 1]" 1 1 1] by simp
  show "(admit_step 1)\<^sup>*\<^sup>* (0, replicate 2 NotStarted) (1, [Admitted, RefusedAt 1])"
    using a b c d by (simp add: numeral_2_eq_2 converse_rtranclp_into_rtranclp)
qed

section \<open>The invariant\<close>

definition executor_ids :: "'o executor \<Rightarrow> nat list" where
  "executor_ids s =
     map ap_id (ex_checked s @ ex_admitted s @ ex_queue s @ map fst (ex_running s)) @ map fst (ex_answers s)"

definition kind_count :: "admission \<Rightarrow> app_request list \<Rightarrow> nat" where
  "kind_count k rs = length (filter (\<lambda>r. ap_kind r = k) rs)"

definition in_flight :: "admission \<Rightarrow> 'o executor \<Rightarrow> nat" where
  "in_flight k s = kind_count k (ex_admitted s) + kind_count k (ex_queue s) + kind_count k (map fst (ex_running s))"

definition held_locks :: "'o executor \<Rightarrow> exclusion list" where
  "held_locks s = concat (map (\<lambda>t. phase_held (snd t)) (ex_running s))"

definition ids_ok :: "'o executor \<Rightarrow> bool" where
  "ids_ok s \<longleftrightarrow> mset (executor_ids s) = mset [0..<ex_next s]"

definition slot_ok :: "admission \<Rightarrow> 'o executor \<Rightarrow> bool" where
  "slot_ok k s \<longleftrightarrow> in_flight k s \<le> ex_active s k \<and> ex_active s k \<le> limit_of k \<and>
     (\<not> ex_poisoned s \<longrightarrow> ex_active s k = in_flight k s)"

definition locks_ok :: "'o executor \<Rightarrow> bool" where
  "locks_ok s \<longleftrightarrow> distinct (held_locks s) \<and>
     (\<forall>r held left. (r, Holding held left) \<in> set (ex_running s) \<longrightarrow> held @ left = locks_of (ap_command r))"

lemmas executor_defs = submit_check_def submit_admit_def submit_send_def shutdown_def answer_def command_done_def
  first_poll_def Let_def

lemma kind_count_simps [simp]:
  "kind_count k [] = 0"
  "kind_count k (r # rs) = (if ap_kind r = k then 1 else 0) + kind_count k rs"
  "kind_count k (rs @ rs') = kind_count k rs + kind_count k rs'"
  by (simp_all add: kind_count_def)

lemma ids_caller: "caller_step s t \<Longrightarrow> ids_ok s \<Longrightarrow> ids_ok t"
  by (induction rule: caller_step.induct)
    (auto simp: ids_ok_def executor_ids_def executor_defs union_ac atLeast0_lessThan_Suc split: sum.split)

lemma ids_worker: "worker_step s t \<Longrightarrow> ids_ok s \<Longrightarrow> ids_ok t"
  by (induction rule: worker_step.induct)
    (auto simp: ids_ok_def executor_ids_def executor_defs union_ac split: if_splits)

lemma slot_caller: "caller_step s t \<Longrightarrow> slot_ok k s \<Longrightarrow> slot_ok k t"
  by (induction rule: caller_step.induct)
    (auto simp: slot_ok_def in_flight_def executor_defs admit_def release_def split: sum.split if_splits)

lemma slot_worker: "worker_step s t \<Longrightarrow> slot_ok k s \<Longrightarrow> slot_ok k t"
  by (induction rule: worker_step.induct)
    (auto simp: slot_ok_def in_flight_def executor_defs release_def split: if_splits)

lemma locks_caller: "caller_step s t \<Longrightarrow> locks_ok s \<Longrightarrow> locks_ok t"
  by (induction rule: caller_step.induct)
    (simp_all add: locks_ok_def held_locks_def executor_defs split: sum.split)

lemma lock_free_held: "lock_free l s \<longleftrightarrow> l \<notin> set (held_locks s)"
  by (auto simp: lock_free_def held_locks_def)

lemma locks_worker: "worker_step s t \<Longrightarrow> locks_ok s \<Longrightarrow> locks_ok t"
proof (induction rule: worker_step.induct)
  case (worker_lock s ts r held l left ts')
  then show ?case
    by (auto simp: locks_ok_def lock_free_held held_locks_def)
qed (auto simp: locks_ok_def held_locks_def executor_defs split: if_splits)

lemma executor_ok:
  assumes "executor_reachable s"
  shows "ids_ok s" and "slot_ok k s" and "locks_ok s"
  using assms
proof (induction)
  case reachable_start
  case 1 show ?case by (simp add: ids_ok_def executor_ids_def executor_start_def)
  case 2 show ?case by (simp add: slot_ok_def in_flight_def executor_start_def)
  case 3 show ?case by (simp add: locks_ok_def held_locks_def executor_start_def)
qed (auto intro: ids_caller ids_worker slot_caller slot_worker locks_caller locks_worker)

section \<open>Progress\<close>

fun phase_work :: "phase \<Rightarrow> nat" where
  "phase_work Fresh = 4"
| "phase_work (Holding held left) = 1 + length left"

definition work_left :: "'o executor \<Rightarrow> nat" where
  "work_left s = 5 * length (ex_queue s) + sum_list (map (\<lambda>t. phase_work (snd t)) (ex_running s))"

lemma locks_of_shape:
  "length (locks_of c) \<le> 2"
  "locks_of c = held @ [l] @ l' # left \<Longrightarrow> l = EnrollmentLock \<and> l' = SyncLock \<and> held = [] \<and> left = []"
  "locks_of c = held @ SyncLock # left \<Longrightarrow> left = []"
  by (cases c; auto simp: locks_of_def append_eq_Cons_conv Cons_eq_append_conv split: if_splits)+

lemma worker_step_work: "worker_step s t \<Longrightarrow> work_left t < work_left s"
proof (induction rule: worker_step.induct)
  case (worker_begin s ts r ts' p)
  then show ?case
    using locks_of_shape(1) [of "ap_command r"] by (auto simp: work_left_def executor_defs split: if_splits)
qed (auto simp: work_left_def executor_defs)

lemma worker_step_callers:
  "worker_step s t \<Longrightarrow> ex_checked t = ex_checked s \<and> ex_admitted t = ex_admitted s \<and> ex_next t = ex_next s"
  by (induction rule: worker_step.induct) (auto simp: executor_defs)

lemma worker_can_finish:
  assumes "(r, Holding held []) \<in> set (ex_running s)"
  shows "\<exists>t. worker_step s t"
proof -
  obtain ts ts' where "ex_running s = ts @ (r, Holding held []) # ts'"
    using assms by (meson split_list)
  from worker_panic [OF this] show ?thesis
    by blast
qed

lemma worker_can_lock:
  assumes "(r, Holding held (l # left)) \<in> set (ex_running s)" and "lock_free l s"
  shows "\<exists>t. worker_step s t"
proof -
  obtain ts ts' where "ex_running s = ts @ (r, Holding held (l # left)) # ts'"
    using assms(1) by (meson split_list)
  from worker_lock [OF this assms(2)] show ?thesis
    by blast
qed

lemma worker_can_poll:
  assumes "(r, Fresh) \<in> set (ex_running s)"
  shows "\<exists>t. worker_step s t"
proof -
  obtain ts ts' where "ex_running s = ts @ (r, Fresh) # ts'"
    using assms by (meson split_list)
  then show ?thesis
    using worker_poisoned worker_begin by (cases "first_poll r s") blast+
qed

text \<open>A mutex that is taken has a holder, and the holder of the sync mutex waits for nothing.\<close>

lemma taken_has_holder:
  assumes "\<not> lock_free l s"
  obtains r held left where "(r, Holding held left) \<in> set (ex_running s)" and "l \<in> set held"
proof -
  obtain r p where "(r, p) \<in> set (ex_running s)" and "l \<in> set (phase_held p)"
    using assms by (auto simp: lock_free_def)
  then show thesis
    using that by (cases p) auto
qed

lemma sync_holder_runs:
  assumes "locks_ok s" and "\<not> lock_free SyncLock s"
  shows "\<exists>t. worker_step s t"
proof -
  obtain r held left where m: "(r, Holding held left) \<in> set (ex_running s)" and l: "SyncLock \<in> set held"
    using taken_has_holder [OF assms(2)] .
  then have "locks_of (ap_command r) = held @ left"
    using assms(1) by (auto simp: locks_ok_def)
  moreover obtain h1 h2 where "held = h1 @ SyncLock # h2"
    using l by (meson split_list)
  ultimately have "left = []"
    using locks_of_shape(3) [of "ap_command r" h1 "h2 @ left"] by simp
  then show ?thesis
    using m worker_can_finish by blast
qed

lemma worker_progress:
  assumes "locks_ok s" and "ex_queue s \<noteq> [] \<or> ex_running s \<noteq> []"
  shows "\<exists>t. worker_step s t"
proof (cases "ex_running s")
  case Nil
  then obtain r rs where "ex_queue s = r # rs"
    using assms(2) by (cases "ex_queue s") auto
  from worker_accept [OF this] show ?thesis
    by blast
next
  case (Cons t ts)
  obtain r p where t: "(r, p) \<in> set (ex_running s)"
    using Cons by (cases t) auto
  have waits: "\<exists>u. worker_step s u" if "(r, Holding held (l # left)) \<in> set (ex_running s)" for r held l left
  proof (cases "lock_free l s")
    case False
    obtain r' held' left' where h: "(r', Holding held' left') \<in> set (ex_running s)" "l \<in> set held'"
      using taken_has_holder [OF False] .
    then obtain h1 h2 where held': "held' = h1 @ l # h2"
      by (meson split_list)
    show ?thesis
    proof (cases left')
      case Nil
      then show ?thesis
        using h(1) worker_can_finish by blast
    next
      case (Cons l' left'')
      have lk: "locks_of (ap_command r') = h1 @ l # h2 @ l' # left''"
        using assms(1) h(1) held' Cons unfolding locks_ok_def by (metis append.assoc append_Cons)
      then have "h2 = []" and "l' = SyncLock"
        using locks_of_shape(2) [of "ap_command r'" h1 l "hd (h2 @ l' # left'')" "tl (h2 @ l' # left'')"]
        by (cases h2; auto)+
      then show ?thesis
        using worker_can_lock [OF h(1) [unfolded Cons]] sync_holder_runs [OF assms(1)] by blast
    qed
  qed (use that worker_can_lock in blast)
  show ?thesis
  proof (cases p)
    case Fresh
    then show ?thesis
      using t worker_can_poll by blast
  next
    case (Holding held left)
    then show ?thesis
      using t waits worker_can_finish by (cases left) blast+
  qed
qed

lemma worker_steps_bounded: "(worker_step ^^ n) s t \<Longrightarrow> n + work_left t \<le> work_left s"
proof (induction n arbitrary: t)
  case (Suc n)
  then obtain u where "(worker_step ^^ n) s u" and "worker_step u t"
    by auto
  then show ?case
    using Suc.IH [of u] worker_step_work [of u t] by simp
qed simp

lemma worker_steps_callers:
  assumes "worker_step\<^sup>*\<^sup>* s t" and "executor_reachable s"
  shows "executor_reachable t \<and> ex_checked t = ex_checked s \<and> ex_admitted t = ex_admitted s \<and> ex_next t = ex_next s"
  using assms by (induction rule: rtranclp_induct) (auto dest: worker_step_callers intro: reachable_worker)

section \<open>Properties of the executor\<close>

lemma mset_upt_distinct: "mset xs = mset [0..<n] \<Longrightarrow> distinct xs \<and> set xs = {..<n}"
  by (metis atLeast_upt distinct_upt mset_eq_imp_distinct_iff mset_eq_setD)

lemma held_apart:
  assumes "distinct (concat (map f xs))" and "i < length xs" and "j < length xs" and "i < j"
  shows "set (f (xs ! i)) \<inter> set (f (xs ! j)) = {}"
proof -
  have "xs = take j xs @ xs ! j # drop (Suc j) xs"
    using assms(3) by (rule id_take_nth_drop)
  then have "distinct (concat (map f (take j xs)) @ f (xs ! j) @ concat (map f (drop (Suc j) xs)))"
    using assms(1) by (metis concat.simps(2) concat_append list.map(2) map_append)
  moreover have "xs ! i \<in> set (take j xs)"
    using assms(2,4) by (auto simp: in_set_conv_nth)
  ultimately show ?thesis
    by fastforce
qed

text \<open>C31. 
  In every state the executor can reach, whatever callers and worker did: no request is answered twice
  and none is lost, being either answered or in exactly one place; no kind of command has more in flight
  than its limit, and its counter is that number until a command panicked; and no two commands hold the
  same mutex, each having taken the first of the ones it needs.
\<close>

theorem executor_invariant:
  assumes "executor_reachable s"
  shows "distinct (executor_ids s) \<and> set (executor_ids s) = {..<ex_next s} \<and>
    in_flight k s \<le> limit_of k \<and> (\<not> ex_poisoned s \<longrightarrow> ex_active s k = in_flight k s) \<and>
    (\<forall>i<length (ex_running s). \<forall>j<length (ex_running s). i < j \<longrightarrow>
       set (phase_held (snd (ex_running s ! i))) \<inter> set (phase_held (snd (ex_running s ! j))) = {}) \<and>
    (\<forall>r held left. (r, Holding held left) \<in> set (ex_running s) \<longrightarrow> held @ left = locks_of (ap_command r))"
proof -
  note ok = executor_ok [OF assms]
  have "distinct (concat (map (\<lambda>t. phase_held (snd t)) (ex_running s)))"
    using ok(3) by (simp add: locks_ok_def held_locks_def)
  from held_apart [OF this] show ?thesis
    using ok(1) ok(2) [of k] ok(3) mset_upt_distinct [of "executor_ids s" "ex_next s"]
    by (auto simp: ids_ok_def slot_ok_def locks_ok_def)
qed

text \<open>C32. 
  Every request the worker was sent is answered: from any reachable state the worker takes at most
  \<open>work_left\<close> steps by itself, whichever it takes, and where it can take no more there is nothing queued
  or under way and the only requests without an answer are those whose callers have not sent them yet.
  In particular the order in which commands take the mutexes cannot deadlock.
\<close>

theorem executor_drains:
  assumes "executor_reachable s"
  shows "(\<forall>n t. (worker_step ^^ n) s t \<longrightarrow> n \<le> work_left s) \<and>
    (\<forall>t. worker_step\<^sup>*\<^sup>* s t \<and> (\<nexists>u. worker_step t u) \<longrightarrow>
       ex_queue t = [] \<and> ex_running t = [] \<and>
       set (map fst (ex_answers t)) = {..<ex_next s} - ap_id ` set (ex_checked s @ ex_admitted s))"
proof (intro conjI allI impI)
  show "n \<le> work_left s" if "(worker_step ^^ n) s t" for n t
    using worker_steps_bounded [OF that] by simp
next
  fix t assume t: "worker_step\<^sup>*\<^sup>* s t \<and> (\<nexists>u. worker_step t u)"
  note c = worker_steps_callers [OF conjunct1 [OF t] assms]
  show q: "ex_queue t = []" and r: "ex_running t = []"
    using worker_progress [of t] executor_ok(3) [of t] c t by auto
  have "distinct (executor_ids t) \<and> set (executor_ids t) = {..<ex_next t}"
    using mset_upt_distinct executor_ok(1) [of t] c by (simp add: ids_ok_def)
  then show "set (map fst (ex_answers t)) = {..<ex_next s} - ap_id ` set (ex_checked s @ ex_admitted s)"
    using c q r by (auto simp: executor_ids_def)
qed

section \<open>After a panic\<close>

definition started :: "'o executor \<Rightarrow> nat set" where
  "started s = (\<lambda>t. ap_id (fst t)) ` set (filter (\<lambda>t. snd t \<noteq> Fresh) (ex_running s))"

definition executor_step :: "'o executor \<Rightarrow> 'o executor \<Rightarrow> bool" where
  "executor_step s t \<longleftrightarrow> caller_step s t \<or> worker_step s t"

definition succeeded :: "'o executor \<Rightarrow> nat set" where
  "succeeded s = fst ` set (filter (\<lambda>a. is_ok (snd a)) (ex_answers s))"

lemma poisoned_caller:
  "caller_step s t \<Longrightarrow> ex_poisoned t = ex_poisoned s \<and> started t = started s \<and> succeeded t = succeeded s"
  by (induction rule: caller_step.induct)
    (auto simp: executor_defs started_def succeeded_def split: sum.split)

lemma poisoned_trans:
  assumes "a \<subseteq> started u" and "started u \<subseteq> started s" and "b \<subseteq> succeeded u \<union> started u"
    and "succeeded u \<subseteq> succeeded s \<union> started s"
  shows "a \<subseteq> started s \<and> b \<subseteq> succeeded s \<union> started s"
  using assms by (meson Un_least Un_upper2 subset_trans)

lemma poisoned_worker:
  "worker_step s t \<Longrightarrow> ex_poisoned s \<Longrightarrow>
   ex_poisoned t \<and> started t \<subseteq> started s \<and> succeeded t \<subseteq> succeeded s \<union> started s"
  by (induction rule: worker_step.induct)
    (auto simp: executor_defs started_def succeeded_def split: if_splits)

text \<open>
  Once a command has panicked, a request succeeds only if the worker had already begun it: whatever
  waits in the queue, was sent later or is submitted later ends with an error.
\<close>

theorem after_panic_only_started:
  assumes "executor_step\<^sup>*\<^sup>* s t" and "ex_poisoned s"
  shows "ex_poisoned t \<and> succeeded t \<subseteq> succeeded s \<union> started s"
proof -
  have "ex_poisoned t \<and> started t \<subseteq> started s \<and> succeeded t \<subseteq> succeeded s \<union> started s"
    using assms
  proof (induction rule: rtranclp_induct)
    case (step u v)
    then consider "caller_step u v" | "worker_step u v"
      by (auto simp: executor_step_def)
    then show ?case
    proof cases
      case 1
      then show ?thesis
        using poisoned_caller [OF 1] step by simp
    next
      case 2
      then show ?thesis
        using poisoned_worker [OF 2] step poisoned_trans [of "started v" u s "succeeded v"] by simp
    qed
  qed simp
  then show ?thesis
    by simp
qed

text \<open>
  Two syncs at once, as two front-end calls leave them: both were polled before anything went wrong, the
  first holds the sync mutex and the second waits for it.
\<close>

definition sync_request :: "nat \<Rightarrow> app_request" where
  "sync_request i = \<lparr>ap_id = i, ap_command = Cmd_Sync ''relay''\<rparr>"

definition two_syncs :: "(app_request \<times> phase) list \<Rightarrow> 'o executor" where
  "two_syncs ts = executor_start\<lparr>ex_next := 2, ex_active := (\<lambda>_. 0)(AdmitSync := 2), ex_running := ts\<rparr>"

lemma sync_request_simps [simp]:
  "ap_id (sync_request i) = i" "ap_kind (sync_request i) = AdmitSync" "ap_op (sync_request i) = Op_Sync"
  "locks_of (ap_command (sync_request i)) = [SyncLock]"
  by (simp_all add: sync_request_def ap_kind_def ap_op_def admission_of_def locks_of_def)

lemma two_syncs_queued:
  "executor_reachable (executor_start\<lparr>ex_next := 2, ex_active := (\<lambda>_. 0)(AdmitSync := 2),
     ex_queue := [sync_request 0, sync_request 1]\<rparr> :: 'o executor)"
proof -
  let ?s0 = "executor_start :: 'o executor" and ?c = "Cmd_Sync ''relay''"
  have "executor_reachable (?s0\<lparr>ex_next := 1, ex_checked := [sync_request 0]\<rparr>)"
    using reachable_caller [OF reachable_start caller_check, of ?c]
    by (simp add: executor_start_def submit_check_def sync_request_def)
  from reachable_caller [OF this caller_check, of ?c]
  have "executor_reachable (?s0\<lparr>ex_next := 2, ex_checked := [sync_request 0, sync_request 1]\<rparr>)"
    by (simp add: executor_start_def submit_check_def sync_request_def numeral_2_eq_2)
  from reachable_caller [OF this caller_admit, of "[]" "sync_request 0" "[sync_request 1]"]
  have "executor_reachable (?s0\<lparr>ex_next := 2, ex_checked := [sync_request 1],
      ex_active := (\<lambda>_. 0)(AdmitSync := 1), ex_admitted := [sync_request 0]\<rparr>)"
    by (simp add: executor_start_def submit_admit_def admit_def MAX_ACTIVE_SYNCS_def)
  from reachable_caller [OF this caller_admit, of "[]" "sync_request 1" "[]"]
  have "executor_reachable (?s0\<lparr>ex_next := 2, ex_checked := [],
      ex_active := (\<lambda>_. 0)(AdmitSync := 2), ex_admitted := [sync_request 0, sync_request 1]\<rparr>)"
    by (simp add: executor_start_def submit_admit_def admit_def MAX_ACTIVE_SYNCS_def numeral_2_eq_2)
  from reachable_caller [OF this caller_send, of "[]" "sync_request 0" "[sync_request 1]"]
  have "executor_reachable (?s0\<lparr>ex_next := 2, ex_checked := [],
      ex_active := (\<lambda>_. 0)(AdmitSync := 2), ex_admitted := [sync_request 1], ex_queue := [sync_request 0]\<rparr>)"
    by (simp add: executor_start_def submit_send_def)
  from reachable_caller [OF this caller_send, of "[]" "sync_request 1" "[]"] show ?thesis
    by (simp add: executor_start_def submit_send_def)
qed

lemma two_syncs_reachable:
  "executor_reachable (two_syncs [(sync_request 0, Holding [SyncLock] []), (sync_request 1, Holding [] [SyncLock])])"
proof -
  let ?s0 = "executor_start\<lparr>ex_next := 2, ex_active := (\<lambda>_. 0)(AdmitSync := 2)\<rparr>"
  have "executor_reachable (?s0\<lparr>ex_queue := [sync_request 1], ex_running := [(sync_request 0, Fresh)]\<rparr>)"
    using reachable_worker [OF two_syncs_queued worker_accept] by (simp add: executor_start_def)
  from reachable_worker [OF this worker_accept]
  have "executor_reachable (two_syncs [(sync_request 0, Fresh), (sync_request 1, Fresh)])"
    by (simp add: executor_start_def two_syncs_def)
  from reachable_worker [OF this worker_begin, of "[]" "sync_request 0" "[(sync_request 1, Fresh)]"]
  have "executor_reachable (two_syncs [(sync_request 0, Holding [] [SyncLock]), (sync_request 1, Fresh)])"
    by (simp add: executor_start_def two_syncs_def first_poll_def)
  from reachable_worker [OF this worker_begin, of "[(sync_request 0, Holding [] [SyncLock])]" "sync_request 1" "[]"]
  have "executor_reachable (two_syncs [(sync_request 0, Holding [] [SyncLock]), (sync_request 1, Holding [] [SyncLock])])"
    by (simp add: executor_start_def two_syncs_def first_poll_def)
  from reachable_worker [OF this worker_lock, of "[]" "sync_request 0" "[]" SyncLock "[]"
      "[(sync_request 1, Holding [] [SyncLock])]"]
  show ?thesis
    by (simp add: executor_start_def two_syncs_def lock_free_def)
qed

text \<open>
  A command the worker had begun is not stopped by the panic of another: the second of two syncs waits
  for the mutex, the first panics and gives it up, and the second then runs to its end on the poisoned
  session.
\<close>

theorem waiting_command_runs_after_panic:
  "\<exists>s t :: 'o executor. executor_reachable s \<and> ex_poisoned s \<and> succeeded s = {} \<and> held_locks s = [] \<and>
     worker_step\<^sup>*\<^sup>* s t \<and> (1, Inr v) \<in> set (ex_answers t)"
proof -
  let ?s = "(two_syncs [(sync_request 1, Holding [] [SyncLock])])\<lparr>ex_poisoned := True,
      ex_active := (\<lambda>_. 0)(AdmitSync := 1), ex_answers := [(0, Inl (AppPanicked Op_Sync))]\<rparr> :: 'o executor"
  let ?u = "?s\<lparr>ex_running := [(sync_request 1, Holding [SyncLock] [])]\<rparr>"
  let ?t = "command_done (sync_request 1) (Inr v) (?u\<lparr>ex_running := []\<rparr>)"
  have "executor_reachable ?s"
    using reachable_worker [OF two_syncs_reachable worker_panic, of "[]" "sync_request 0" "[SyncLock]"
        "[(sync_request 1, Holding [] [SyncLock])]"]
    by (simp add: executor_start_def two_syncs_def executor_defs release_def)
  moreover have "worker_step ?s ?u"
    using worker_lock [of ?s "[]" "sync_request 1" "[]" SyncLock "[]" "[]"]
    by (simp add: two_syncs_def lock_free_def)
  moreover have "worker_step ?u ?t"
    using worker_done [of ?u "[]" "sync_request 1" "[SyncLock]" "[]" "Inr v"] by simp
  moreover have "succeeded ?s = {}" "held_locks ?s = []" "ex_poisoned ?s" "(1, Inr v) \<in> set (ex_answers ?t)"
    by (simp_all add: succeeded_def held_locks_def two_syncs_def executor_start_def command_done_def answer_def)
  ultimately show ?thesis
    by (meson converse_rtranclp_into_rtranclp r_into_rtranclp)
qed

section \<open>Witnesses\<close>

theorem executor_invariant_witness:
  "in_flight AdmitSync (two_syncs [(sync_request 0, Holding [SyncLock] []), (sync_request 1, Holding [] [SyncLock])]) = 2 \<and>
   ex_active (two_syncs [(sync_request 0, Holding [SyncLock] []), (sync_request 1, Holding [] [SyncLock])] :: nat executor) AdmitSync = 2"
  using executor_invariant [OF two_syncs_reachable, of AdmitSync]
  by (simp add: in_flight_def two_syncs_def executor_start_def)

theorem executor_drains_witness:
  "{n. \<exists>t. (worker_step ^^ n) (two_syncs [(sync_request 0, Holding [SyncLock] []),
      (sync_request 1, Holding [] [SyncLock])] :: nat executor) t} \<subseteq> {..3}"
  using executor_drains [of "two_syncs [(sync_request 0, Holding [SyncLock] []),
      (sync_request 1, Holding [] [SyncLock])] :: nat executor"] two_syncs_reachable
  by (auto simp: work_left_def two_syncs_def executor_start_def numeral_3_eq_3)

theorem after_panic_only_started_witness:
  "ex_poisoned (submit_check Cmd_QueryDevices (executor_start\<lparr>ex_poisoned := True\<rparr> :: nat executor)) \<and>
   succeeded (submit_check Cmd_QueryDevices (executor_start\<lparr>ex_poisoned := True\<rparr> :: nat executor)) = {}"
  using after_panic_only_started [of "executor_start\<lparr>ex_poisoned := True\<rparr> :: nat executor"
      "submit_check Cmd_QueryDevices (executor_start\<lparr>ex_poisoned := True\<rparr>)"]
    caller_check [of "executor_start\<lparr>ex_poisoned := True\<rparr> :: nat executor" Cmd_QueryDevices]
  by (auto simp: executor_step_def r_into_rtranclp succeeded_def started_def executor_start_def)

end
