(* ===== verification/App_Sessions.thy ===== *)
theory App_Sessions
  imports App_Commands
begin

text \<open>
  Opening and closing a profile (\<open>core/crates/arveil-app/src/lib.rs\<close>): the configuration of a profile, the
  process-wide registry of sessions, the lock on the profile's directory and the shutdown of a session.

  Handles are opened, cloned, closed and dropped by any thread, so the registry is a step relation. A
  session is the executor behind its handles: how many handles keep it alive, whether its worker thread
  still runs (and with it keeps the directory locked) and how far its shutdown went. Directories are the
  canonical paths. Other processes take and release the operating-system lock as steps of their own.

  Shown: while every session is closed before its last handle is dropped, a directory has at most one
  running worker and none while another process has it locked; and how dropping the last handle of a
  session that was not closed lets two sessions run on one directory.
\<close>

section \<open>Configuration\<close>

record profile_config =
  pc_dir :: string
  pc_key :: "string option"
  pc_tls_ca :: "string option"
  pc_envelope_ttl :: "u64 option"
  pc_blob_ttl :: "u64 option"
  pc_pairing_timeout :: "u64 option"
  pc_manual_attachments :: bool

datatype open_error =
    ProfileInUse string | AlreadyOpen string | ProfileClosing string | BadKey
  | ProfileTooNew string u32 u32 | ProfileUnusable string cli_error | ProfileIo string string

definition unencrypted_config :: "string \<Rightarrow> profile_config" where
  "unencrypted_config dir = \<lparr>pc_dir = dir, pc_key = None, pc_tls_ca = None, pc_envelope_ttl = None, pc_blob_ttl = None,
     pc_pairing_timeout = None, pc_manual_attachments = False\<rparr>"

definition ascii_hexdigit :: "char \<Rightarrow> bool" where
  "ascii_hexdigit c \<longleftrightarrow>
     48 \<le> char_code c \<and> char_code c \<le> 57 \<or> 65 \<le> char_code c \<and> char_code c \<le> 70 \<or>
     97 \<le> char_code c \<and> char_code c \<le> 102"

definition encrypted_config :: "string \<Rightarrow> string \<Rightarrow> open_error + profile_config" where
  "encrypted_config dir key =
     (if length key \<noteq> 64 \<or> \<not> list_all ascii_hexdigit key then Inl BadKey
      else Inr ((unencrypted_config dir)\<lparr>pc_key := Some key\<rparr>))"

definition with_tls_ca :: "string \<Rightarrow> profile_config \<Rightarrow> profile_config" where
  "with_tls_ca path c = c\<lparr>pc_tls_ca := Some path\<rparr>"

definition with_envelope_ttl :: "u64 \<Rightarrow> profile_config \<Rightarrow> profile_config" where
  "with_envelope_ttl seconds c = c\<lparr>pc_envelope_ttl := Some seconds\<rparr>"

definition with_blob_ttl :: "u64 \<Rightarrow> profile_config \<Rightarrow> profile_config" where
  "with_blob_ttl seconds c = c\<lparr>pc_blob_ttl := Some seconds\<rparr>"

definition with_pairing_timeout :: "u64 \<Rightarrow> profile_config \<Rightarrow> profile_config" where
  "with_pairing_timeout seconds c = c\<lparr>pc_pairing_timeout := Some seconds\<rparr>"

definition with_manual_attachments :: "profile_config \<Rightarrow> profile_config" where
  "with_manual_attachments c = c\<lparr>pc_manual_attachments := True\<rparr>"

definition is_encrypted :: "profile_config \<Rightarrow> bool" where
  "is_encrypted c \<longleftrightarrow> pc_key c \<noteq> None"

section \<open>The registry\<close>

text \<open>How far the shutdown of a session went: its worker handle was taken, its slot was marked, the worker
  was joined, the slot was removed.\<close>

datatype shutdown_pc = NotClosed | WorkerTaken | MarkedClosing | WorkerJoined | Forgotten

record session =
  se_dir :: string
  se_handles :: nat
  se_alive :: bool
  se_pc :: shutdown_pc

datatype session_slot = OpenSlot nat | ClosingSlot

record registry =
  rg_sessions :: "session list"
  rg_slots :: "string \<Rightarrow> session_slot option"
  rg_foreign :: "string \<Rightarrow> bool"
  rg_guards :: "string list"

definition registry_start :: registry where
  "registry_start = \<lparr>rg_sessions = [], rg_slots = (\<lambda>_. None), rg_foreign = (\<lambda>_. False), rg_guards = []\<rparr>"

text \<open>This process has the lock while a worker or a guard of its own keeps it.\<close>

definition lock_held_here :: "string \<Rightarrow> registry \<Rightarrow> bool" where
  "lock_held_here d g \<longleftrightarrow> d \<in> set (rg_guards g) \<or> list_ex (\<lambda>s. se_dir s = d \<and> se_alive s) (rg_sessions g)"

definition profile_lock :: "string \<Rightarrow> registry \<Rightarrow> open_error + unit" where
  "profile_lock d g =
     (if lock_held_here d g then Inr () else if rg_foreign g d then Inl (ProfileInUse d) else Inr ())"

text \<open>
  \<open>executor_for\<close>, which runs under the lock of the registry. What opening the database, the runtime and
  the thread gave is an argument: an error, or nothing.
\<close>

definition executor_for :: "string \<Rightarrow> open_error option \<Rightarrow> registry \<Rightarrow> (open_error + nat) \<times> registry" where
  "executor_for d opened g =
     (let taken = (case rg_slots g d of
             Some ClosingSlot \<Rightarrow> Some (ProfileClosing d)
           | Some (OpenSlot i) \<Rightarrow> if 0 < se_handles (rg_sessions g ! i) then Some (AlreadyOpen d) else None
           | None \<Rightarrow> None)
      in case taken of
           Some e \<Rightarrow> (Inl e, g)
         | None \<Rightarrow>
             (case profile_lock d g of
                Inl e \<Rightarrow> (Inl e, g)
              | Inr _ \<Rightarrow>
                  (case opened of
                     Some e \<Rightarrow> (Inl e, g)
                   | None \<Rightarrow>
                       (Inr (length (rg_sessions g)),
                        g\<lparr>rg_sessions := rg_sessions g @ [\<lparr>se_dir = d, se_handles = 1, se_alive = True, se_pc = NotClosed\<rparr>],
                          rg_slots := (rg_slots g)(d \<mapsto> OpenSlot (length (rg_sessions g)))\<rparr>))))"

definition mark_closing :: "string \<Rightarrow> registry \<Rightarrow> registry" where
  "mark_closing d g =
     (case rg_slots g d of Some _ \<Rightarrow> g\<lparr>rg_slots := (rg_slots g)(d \<mapsto> ClosingSlot)\<rparr> | None \<Rightarrow> g)"

definition forget_session :: "string \<Rightarrow> registry \<Rightarrow> registry" where
  "forget_session d g = g\<lparr>rg_slots := (rg_slots g)(d := None)\<rparr>"

definition update_session :: "nat \<Rightarrow> (session \<Rightarrow> session) \<Rightarrow> registry \<Rightarrow> registry" where
  "update_session i f g = g\<lparr>rg_sessions := (rg_sessions g)[i := f (rg_sessions g ! i)]\<rparr>"

text \<open>
  The steps. \<open>shutdown\<close> is the four steps from \<open>session_take\<close> to \<open>session_forget\<close>, taken by whoever closes
  the session or, once no handle is left, by its \<open>Drop\<close>; whoever closes it does so through a handle, so
  the last handle is not dropped in the middle of a close. With \<open>closes_first\<close> the last handle of a
  session is dropped only after the session was closed.
\<close>

inductive session_step :: "bool \<Rightarrow> registry \<Rightarrow> registry \<Rightarrow> bool" for closes_first where
  session_open: "session_step closes_first g (snd (executor_for d opened g))"
| session_clone: "i < length (rg_sessions g) \<Longrightarrow> 0 < se_handles (rg_sessions g ! i) \<Longrightarrow>
    session_step closes_first g (update_session i (\<lambda>s. s\<lparr>se_handles := se_handles s + 1\<rparr>) g)"
| session_drop: "i < length (rg_sessions g) \<Longrightarrow> 0 < se_handles (rg_sessions g ! i) \<Longrightarrow>
    (se_handles (rg_sessions g ! i) = 1 \<Longrightarrow> se_pc (rg_sessions g ! i) \<in> {NotClosed, Forgotten}) \<Longrightarrow>
    (closes_first \<Longrightarrow> se_handles (rg_sessions g ! i) = 1 \<Longrightarrow> se_pc (rg_sessions g ! i) = Forgotten) \<Longrightarrow>
    session_step closes_first g (update_session i (\<lambda>s. s\<lparr>se_handles := se_handles s - 1\<rparr>) g)"
| session_take: "i < length (rg_sessions g) \<Longrightarrow> se_pc (rg_sessions g ! i) = NotClosed \<Longrightarrow>
    session_step closes_first g (update_session i (\<lambda>s. s\<lparr>se_pc := WorkerTaken\<rparr>) g)"
| session_mark: "i < length (rg_sessions g) \<Longrightarrow> se_pc (rg_sessions g ! i) = WorkerTaken \<Longrightarrow>
    session_step closes_first g
      (mark_closing (se_dir (rg_sessions g ! i)) (update_session i (\<lambda>s. s\<lparr>se_pc := MarkedClosing\<rparr>) g))"
| session_worker_ends: "i < length (rg_sessions g) \<Longrightarrow> se_pc (rg_sessions g ! i) \<noteq> NotClosed \<Longrightarrow>
    session_step closes_first g (update_session i (\<lambda>s. s\<lparr>se_alive := False\<rparr>) g)"
| session_join: "i < length (rg_sessions g) \<Longrightarrow> se_pc (rg_sessions g ! i) = MarkedClosing \<Longrightarrow>
    \<not> se_alive (rg_sessions g ! i) \<Longrightarrow>
    session_step closes_first g (update_session i (\<lambda>s. s\<lparr>se_pc := WorkerJoined\<rparr>) g)"
| session_forget: "i < length (rg_sessions g) \<Longrightarrow> se_pc (rg_sessions g ! i) = WorkerJoined \<Longrightarrow>
    session_step closes_first g
      (forget_session (se_dir (rg_sessions g ! i)) (update_session i (\<lambda>s. s\<lparr>se_pc := Forgotten\<rparr>) g))"
| session_guard: "profile_lock d g = Inr () \<Longrightarrow> session_step closes_first g (g\<lparr>rg_guards := d # rg_guards g\<rparr>)"
| session_guard_drop: "session_step closes_first g (g\<lparr>rg_guards := remove1 d (rg_guards g)\<rparr>)"
| session_foreign_lock: "\<not> lock_held_here d g \<Longrightarrow>
    session_step closes_first g (g\<lparr>rg_foreign := (rg_foreign g)(d := True)\<rparr>)"
| session_foreign_unlock: "session_step closes_first g (g\<lparr>rg_foreign := (rg_foreign g)(d := False)\<rparr>)"

section \<open>The invariant of closed sessions\<close>

text \<open>What a session's shutdown says of its slot, of its handles and of its worker.\<close>

definition session_ok :: "registry \<Rightarrow> nat \<Rightarrow> bool" where
  "session_ok g i \<longleftrightarrow>
     (let s = rg_sessions g ! i; slot = rg_slots g (se_dir s) in
      (case se_pc s of
         NotClosed \<Rightarrow> slot = Some (OpenSlot i) \<and> 0 < se_handles s
       | WorkerTaken \<Rightarrow> slot = Some (OpenSlot i) \<and> 0 < se_handles s
       | MarkedClosing \<Rightarrow> slot = Some ClosingSlot \<and> 0 < se_handles s
       | WorkerJoined \<Rightarrow> slot = Some ClosingSlot \<and> 0 < se_handles s \<and> \<not> se_alive s
       | Forgotten \<Rightarrow> \<not> se_alive s))"

definition closing :: "session \<Rightarrow> bool" where
  "closing s \<longleftrightarrow> se_pc s = MarkedClosing \<or> se_pc s = WorkerJoined"

definition registry_ok :: "registry \<Rightarrow> bool" where
  "registry_ok g \<longleftrightarrow>
     (\<forall>i<length (rg_sessions g). session_ok g i) \<and>
     (\<forall>i<length (rg_sessions g). \<forall>j<length (rg_sessions g).
        closing (rg_sessions g ! i) \<longrightarrow> closing (rg_sessions g ! j) \<longrightarrow>
        se_dir (rg_sessions g ! i) = se_dir (rg_sessions g ! j) \<longrightarrow> i = j) \<and>
     (\<forall>d i. rg_slots g d = Some (OpenSlot i) \<longrightarrow>
        i < length (rg_sessions g) \<and> se_dir (rg_sessions g ! i) = d \<and> \<not> closing (rg_sessions g ! i) \<and>
        se_pc (rg_sessions g ! i) \<noteq> Forgotten)"

lemma update_session_simps [simp]:
  "length (rg_sessions (update_session i f g)) = length (rg_sessions g)"
  "rg_slots (update_session i f g) = rg_slots g"
  "rg_foreign (update_session i f g) = rg_foreign g"
  "rg_guards (update_session i f g) = rg_guards g"
  "j < length (rg_sessions g) \<Longrightarrow>
     rg_sessions (update_session i f g) ! j = (if j = i then f (rg_sessions g ! j) else rg_sessions g ! j)"
  by (auto simp: update_session_def nth_list_update)

lemma mark_closing_simps [simp]:
  "rg_sessions (mark_closing d g) = rg_sessions g"
  "rg_foreign (mark_closing d g) = rg_foreign g" "rg_guards (mark_closing d g) = rg_guards g"
  "rg_slots (mark_closing d g) = (if rg_slots g d = None then rg_slots g else (rg_slots g)(d \<mapsto> ClosingSlot))"
  by (simp_all add: mark_closing_def split: option.split)

lemma forget_session_simps [simp]:
  "rg_sessions (forget_session d g) = rg_sessions g"
  "rg_foreign (forget_session d g) = rg_foreign g" "rg_guards (forget_session d g) = rg_guards g"
  "rg_slots (forget_session d g) = (rg_slots g)(d := None)"
  by (simp_all add: forget_session_def)

text \<open>A slot that names a session names one that still has a handle, so a second open is refused.\<close>

lemma open_slot_has_handle:
  assumes "registry_ok g" and "rg_slots g d = Some (OpenSlot i)"
  shows "0 < se_handles (rg_sessions g ! i)"
proof -
  have "i < length (rg_sessions g)" "\<not> closing (rg_sessions g ! i)" "se_pc (rg_sessions g ! i) \<noteq> Forgotten"
    using assms by (auto simp: registry_ok_def)
  then show ?thesis
    using assms(1) unfolding registry_ok_def session_ok_def closing_def Let_def
    by (cases "se_pc (rg_sessions g ! i)") (auto dest!: spec [of _ i])
qed

lemma executor_for_cases:
  assumes "registry_ok g" and "executor_for d opened g = (r, g')"
  shows "g' = g \<and> (\<exists>e. r = Inl e) \<or>
    r = Inr (length (rg_sessions g)) \<and> rg_slots g d = None \<and> profile_lock d g = Inr () \<and>
    g' = g\<lparr>rg_sessions := rg_sessions g @ [\<lparr>se_dir = d, se_handles = 1, se_alive = True, se_pc = NotClosed\<rparr>],
      rg_slots := (rg_slots g)(d \<mapsto> OpenSlot (length (rg_sessions g)))\<rparr>"
  using assms open_slot_has_handle [OF assms(1), of d]
  by (auto simp: executor_for_def split: option.splits session_slot.splits if_splits sum.splits)

lemma registry_ok_open:
  assumes "registry_ok g" and "rg_slots g d = None"
  shows "registry_ok (g\<lparr>rg_sessions := rg_sessions g @ [\<lparr>se_dir = d, se_handles = 1, se_alive = True, se_pc = NotClosed\<rparr>],
      rg_slots := (rg_slots g)(d \<mapsto> OpenSlot (length (rg_sessions g)))\<rparr>)"
  using assms unfolding registry_ok_def session_ok_def closing_def Let_def
  by (auto simp: nth_append less_Suc_eq split: shutdown_pc.splits)


lemma registry_ok_session:
  assumes "registry_ok g" and "i < length (rg_sessions g)"
    and "se_dir (f (rg_sessions g ! i)) = se_dir (rg_sessions g ! i)"
    and "closing (f (rg_sessions g ! i)) = closing (rg_sessions g ! i)"
    and "se_pc (f (rg_sessions g ! i)) = Forgotten \<Longrightarrow> se_pc (rg_sessions g ! i) = Forgotten"
    and "session_ok (update_session i f g) i"
  shows "registry_ok (update_session i f g)"
  using assms unfolding registry_ok_def
  by (auto simp: session_ok_def Let_def split: if_splits)

lemma session_okD: "registry_ok g \<Longrightarrow> i < length (rg_sessions g) \<Longrightarrow> session_ok g i"
  by (simp add: registry_ok_def)

lemma closing_unique:
  "registry_ok g \<Longrightarrow> i < length (rg_sessions g) \<Longrightarrow> j < length (rg_sessions g) \<Longrightarrow>
   closing (rg_sessions g ! i) \<Longrightarrow> closing (rg_sessions g ! j) \<Longrightarrow>
   se_dir (rg_sessions g ! i) = se_dir (rg_sessions g ! j) \<Longrightarrow> i = j"
  unfolding registry_ok_def by blast

lemma open_slotD:
  "registry_ok g \<Longrightarrow> rg_slots g d = Some (OpenSlot i) \<Longrightarrow>
   i < length (rg_sessions g) \<and> se_dir (rg_sessions g ! i) = d \<and> \<not> closing (rg_sessions g ! i) \<and>
   se_pc (rg_sessions g ! i) \<noteq> Forgotten"
  by (simp add: registry_ok_def)

lemma registry_okI:
  assumes "\<And>i. i < length (rg_sessions g) \<Longrightarrow> session_ok g i"
    and "\<And>i j. i < length (rg_sessions g) \<Longrightarrow> j < length (rg_sessions g) \<Longrightarrow> closing (rg_sessions g ! i) \<Longrightarrow>
      closing (rg_sessions g ! j) \<Longrightarrow> se_dir (rg_sessions g ! i) = se_dir (rg_sessions g ! j) \<Longrightarrow> i = j"
    and "\<And>d i. rg_slots g d = Some (OpenSlot i) \<Longrightarrow>
      i < length (rg_sessions g) \<and> se_dir (rg_sessions g ! i) = d \<and> \<not> closing (rg_sessions g ! i) \<and>
      se_pc (rg_sessions g ! i) \<noteq> Forgotten"
  shows "registry_ok g"
  unfolding registry_ok_def using assms by blast

text \<open>A session that is not forgotten accounts for the slot of its directory, so no two share one.\<close>

lemma slot_of_session:
  assumes "registry_ok g" and "i < length (rg_sessions g)" and "se_pc (rg_sessions g ! i) \<noteq> Forgotten"
  shows "rg_slots g (se_dir (rg_sessions g ! i)) =
    Some (if closing (rg_sessions g ! i) then ClosingSlot else OpenSlot i)"
  using session_okD [OF assms(1,2)] assms(3)
  by (cases "se_pc (rg_sessions g ! i)") (simp_all add: session_ok_def Let_def closing_def)

lemma session_unique:
  assumes "registry_ok g" and "i < length (rg_sessions g)" and "j < length (rg_sessions g)"
    and "se_pc (rg_sessions g ! i) \<noteq> Forgotten" and "se_pc (rg_sessions g ! j) \<noteq> Forgotten"
    and "se_dir (rg_sessions g ! i) = se_dir (rg_sessions g ! j)"
  shows "i = j"
proof (cases "closing (rg_sessions g ! i) \<and> closing (rg_sessions g ! j)")
  case True
  then show ?thesis
    using closing_unique [OF assms(1-3) _ _ assms(6)] by blast
next
  case False
  have "(if closing (rg_sessions g ! i) then ClosingSlot else OpenSlot i) =
      (if closing (rg_sessions g ! j) then ClosingSlot else OpenSlot j)"
    using slot_of_session [OF assms(1,2,4)] slot_of_session [OF assms(1,3,5)] by (metis assms(6) option.inject)
  then show ?thesis
    using False by (auto split: if_splits)
qed

lemma registry_ok_mark:
  assumes ok: "registry_ok g" and i: "i < length (rg_sessions g)" and pc: "se_pc (rg_sessions g ! i) = WorkerTaken"
  shows "registry_ok (mark_closing (se_dir (rg_sessions g ! i)) (update_session i (\<lambda>s. s\<lparr>se_pc := MarkedClosing\<rparr>) g))"
proof -
  let ?d = "se_dir (rg_sessions g ! i)"
  have slot: "rg_slots g ?d = Some (OpenSlot i)" and h: "0 < se_handles (rg_sessions g ! i)"
    using session_okD [OF ok i] pc by (simp_all add: session_ok_def Let_def)
  have apart: "se_pc (rg_sessions g ! j) = Forgotten"
    if "j < length (rg_sessions g)" "se_dir (rg_sessions g ! j) = ?d" "j \<noteq> i" for j
    using session_unique [OF ok that(1) i] that(2,3) pc by auto
  show ?thesis
  proof (rule registry_okI, goal_cases)
    case (1 j)
    then have j: "j < length (rg_sessions g)"
      by simp
    consider "j = i" | "j \<noteq> i" "se_dir (rg_sessions g ! j) = ?d" | "j \<noteq> i" "se_dir (rg_sessions g ! j) \<noteq> ?d"
      by blast
    then show ?case
    proof cases
      case 1
      then show ?thesis
        using i slot h by (simp add: session_ok_def Let_def)
    next
      case 2
      then show ?thesis
        using j apart [OF j 2(2,1)] session_okD [OF ok j] by (simp add: session_ok_def Let_def)
    next
      case 3
      then show ?thesis
        using j session_okD [OF ok j] slot by (simp add: session_ok_def Let_def)
    qed
  next
    case (2 j k)
    then have jk: "j < length (rg_sessions g)" "k < length (rg_sessions g)"
      by simp_all
    then show ?case
      using 2 apart [OF jk(1)] apart [OF jk(2)] closing_unique [OF ok jk]
      by (cases "j = i"; cases "k = i") (simp_all add: closing_def)
  next
    case (3 d k)
    then have "d \<noteq> ?d" and "rg_slots g d = Some (OpenSlot k)"
      using slot by (simp_all split: if_splits)
    then show ?case
      using open_slotD [OF ok, of d k] by auto
  qed
qed

lemma registry_ok_forget:
  assumes ok: "registry_ok g" and i: "i < length (rg_sessions g)" and pc: "se_pc (rg_sessions g ! i) = WorkerJoined"
  shows "registry_ok (forget_session (se_dir (rg_sessions g ! i)) (update_session i (\<lambda>s. s\<lparr>se_pc := Forgotten\<rparr>) g))"
proof -
  let ?d = "se_dir (rg_sessions g ! i)"
  have slot: "rg_slots g ?d = Some ClosingSlot" and a: "\<not> se_alive (rg_sessions g ! i)"
    using session_okD [OF ok i] pc by (simp_all add: session_ok_def Let_def)
  have apart: "se_pc (rg_sessions g ! j) = Forgotten"
    if "j < length (rg_sessions g)" "se_dir (rg_sessions g ! j) = ?d" "j \<noteq> i" for j
    using session_unique [OF ok that(1) i] that(2,3) pc by auto
  show ?thesis
  proof (rule registry_okI, goal_cases)
    case (1 j)
    then have j: "j < length (rg_sessions g)"
      by simp
    consider "j = i" | "j \<noteq> i" "se_dir (rg_sessions g ! j) = ?d" | "j \<noteq> i" "se_dir (rg_sessions g ! j) \<noteq> ?d"
      by blast
    then show ?case
    proof cases
      case 1
      then show ?thesis
        using i a by (simp add: session_ok_def Let_def)
    next
      case 2
      then show ?thesis
        using j apart [OF j 2(2,1)] session_okD [OF ok j] by (simp add: session_ok_def Let_def)
    next
      case 3
      then show ?thesis
        using j session_okD [OF ok j] slot by (simp add: session_ok_def Let_def)
    qed
  next
    case (2 j k)
    then have jk: "j < length (rg_sessions g)" "k < length (rg_sessions g)"
      by simp_all
    then show ?case
      using 2 apart [OF jk(1)] apart [OF jk(2)] closing_unique [OF ok jk]
      by (cases "j = i"; cases "k = i") (simp_all add: closing_def)
  next
    case (3 d k)
    then have "d \<noteq> ?d" and "rg_slots g d = Some (OpenSlot k)"
      using slot by (simp_all split: if_splits)
    then show ?case
      using open_slotD [OF ok, of d k] by auto
  qed
qed

lemma registry_ok_step: "session_step True g g' \<Longrightarrow> registry_ok g \<Longrightarrow> registry_ok g'"
proof (induction rule: session_step.induct)
  case (session_open g d opened)
  then show ?case
    using executor_for_cases [of g d opened] registry_ok_open [of g d] by (cases "executor_for d opened g") auto
next
  case (session_clone i g)
  then show ?case
    using session_okD [of g i]
    by (intro registry_ok_session) (auto simp: session_ok_def Let_def closing_def split: shutdown_pc.splits)
next
  case (session_drop i g)
  then have "se_pc (rg_sessions g ! i) = Forgotten \<or> 1 < se_handles (rg_sessions g ! i)"
    by (cases "se_handles (rg_sessions g ! i) = 1") auto
  then show ?case
    using session_okD [of g i] session_drop
    by (intro registry_ok_session) (auto simp: session_ok_def Let_def closing_def split: shutdown_pc.splits)
next
  case (session_take i g)
  then show ?case
    using session_okD [of g i]
    by (intro registry_ok_session) (auto simp: session_ok_def Let_def closing_def split: shutdown_pc.splits)
next
  case (session_worker_ends i g)
  then show ?case
    using session_okD [of g i]
    by (intro registry_ok_session) (auto simp: session_ok_def Let_def closing_def split: shutdown_pc.splits)
next
  case (session_join i g)
  then show ?case
    using session_okD [of g i]
    by (intro registry_ok_session) (auto simp: session_ok_def Let_def closing_def split: shutdown_pc.splits)
next
  case (session_mark i g)
  then show ?case
    by (intro registry_ok_mark)
next
  case (session_forget i g)
  then show ?case
    by (intro registry_ok_forget)
qed (simp_all add: registry_ok_def session_ok_def)

lemma alive_unique:
  assumes "registry_ok g" and "i < length (rg_sessions g)" and "j < length (rg_sessions g)"
    and "se_alive (rg_sessions g ! i)" and "se_alive (rg_sessions g ! j)"
    and "se_dir (rg_sessions g ! i) = se_dir (rg_sessions g ! j)"
  shows "i = j"
proof (rule session_unique [OF assms(1-3) _ _ assms(6)])
  show "se_pc (rg_sessions g ! i) \<noteq> Forgotten" "se_pc (rg_sessions g ! j) \<noteq> Forgotten"
    using session_okD [OF assms(1,2)] session_okD [OF assms(1,3)] assms(4,5)
    by (auto simp: session_ok_def Let_def)
qed

text \<open>The lock of the operating system keeps other processes out, however sessions are closed.\<close>

definition locked_apart :: "registry \<Rightarrow> bool" where
  "locked_apart g \<longleftrightarrow> (\<forall>d. lock_held_here d g \<longrightarrow> \<not> rg_foreign g d)"

lemma held_update_session:
  assumes "\<And>s. se_dir (f s) = se_dir s" and "\<And>s. se_alive (f s) \<Longrightarrow> se_alive s" and "i < length (rg_sessions g)"
  shows "lock_held_here d (update_session i f g) \<Longrightarrow> lock_held_here d g"
  using assms by (auto simp: lock_held_here_def list_ex_iff update_session_def set_update_subset_insert [THEN subsetD]
      dest!: set_update_subset_insert [THEN subsetD])

lemma held_slots [simp]:
  "lock_held_here d (mark_closing d' g) = lock_held_here d g"
  "lock_held_here d (forget_session d' g) = lock_held_here d g"
  "lock_held_here d (g\<lparr>rg_foreign := f\<rparr>) = lock_held_here d g"
  by (simp_all add: lock_held_here_def)

lemma locked_apart_open:
  assumes "locked_apart g"
  shows "locked_apart (snd (executor_for d opened g))"
  using assms
  by (auto simp: executor_for_def locked_apart_def Let_def profile_lock_def lock_held_here_def
      split: option.split session_slot.split sum.split)

lemma locked_apart_session:
  assumes "locked_apart g" and "i < length (rg_sessions g)"
    and "\<And>s. se_dir (f s) = se_dir s" and "\<And>s. se_alive (f s) \<Longrightarrow> se_alive s"
  shows "locked_apart (update_session i f g)"
  using assms held_update_session [of f i g] by (auto simp: locked_apart_def)

lemma locked_apart_step: "session_step b g g' \<Longrightarrow> locked_apart g \<Longrightarrow> locked_apart g'"
proof (induction rule: session_step.induct)
  case (session_open g d opened)
  then show ?case
    by (rule locked_apart_open)
next
  case (session_mark i g)
  then show ?case
    using locked_apart_session [of g i "\<lambda>s. s\<lparr>se_pc := MarkedClosing\<rparr>"] by (simp add: locked_apart_def)
next
  case (session_forget i g)
  then show ?case
    using locked_apart_session [of g i "\<lambda>s. s\<lparr>se_pc := Forgotten\<rparr>"] by (simp add: locked_apart_def)
next
  case (session_guard d g)
  then show ?case
    by (auto simp: locked_apart_def profile_lock_def lock_held_here_def split: if_splits)
next
  case (session_guard_drop g d)
  then show ?case
    by (auto simp: locked_apart_def lock_held_here_def dest: set_remove1_subset [THEN subsetD])
next
  case (session_foreign_lock d g)
  then show ?case
    by (simp add: locked_apart_def)
next
  case (session_foreign_unlock g d)
  then show ?case
    by (simp add: locked_apart_def)
qed (auto intro!: locked_apart_session)

section \<open>Properties\<close>

lemma registry_ok_run: "(session_step True)\<^sup>*\<^sup>* g g' \<Longrightarrow> registry_ok g \<Longrightarrow> registry_ok g'"
  by (induction rule: rtranclp_induct) (auto intro: registry_ok_step)

lemma locked_apart_run: "(session_step b)\<^sup>*\<^sup>* g g' \<Longrightarrow> locked_apart g \<Longrightarrow> locked_apart g'"
  by (induction rule: rtranclp_induct) (auto intro: locked_apart_step)

lemma registry_ok_start: "registry_ok registry_start" "locked_apart registry_start"
  by (simp_all add: registry_ok_def registry_start_def locked_apart_def lock_held_here_def)

text \<open>C33. 
  While every session is closed before its last handle is dropped, two running workers never share a
  directory, none runs where another process has the lock, and whoever opens a directory with a running
  worker is refused.
\<close>

theorem one_session_per_profile:
  assumes "(session_step True)\<^sup>*\<^sup>* registry_start g"
    and "i < length (rg_sessions g)" and "se_alive (rg_sessions g ! i)" and "se_dir (rg_sessions g ! i) = d"
  shows "(\<forall>j<length (rg_sessions g). se_alive (rg_sessions g ! j) \<and> se_dir (rg_sessions g ! j) = d \<longrightarrow> j = i) \<and>
    \<not> rg_foreign g d \<and>
    (\<exists>e. executor_for d opened g = (Inl e, g) \<and> (e = AlreadyOpen d \<or> e = ProfileClosing d))"
proof -
  have ok: "registry_ok g" and apart: "locked_apart g"
    using assms(1) registry_ok_run locked_apart_run registry_ok_start by blast+
  have "se_pc (rg_sessions g ! i) \<noteq> Forgotten"
    using session_okD [OF ok assms(2)] assms(3) by (auto simp: session_ok_def Let_def)
  from slot_of_session [OF ok assms(2) this]
  have "rg_slots g d = Some (if closing (rg_sessions g ! i) then ClosingSlot else OpenSlot i)"
    using assms(4) by simp
  moreover have "rg_slots g d = Some (OpenSlot i) \<Longrightarrow> 0 < se_handles (rg_sessions g ! i)"
    using open_slot_has_handle [OF ok] .
  ultimately have "\<exists>e. executor_for d opened g = (Inl e, g) \<and> (e = AlreadyOpen d \<or> e = ProfileClosing d)"
    by (auto simp: executor_for_def split: if_splits)
  moreover have "lock_held_here d g"
    using assms(2-4) by (auto simp: lock_held_here_def list_ex_iff)
  ultimately show ?thesis
    using alive_unique [OF ok] assms(2-4) apart by (auto simp: locked_apart_def)
qed

theorem one_session_per_profile_witness:
  "\<exists>e. executor_for ''p'' None (snd (executor_for ''p'' None registry_start)) =
     (Inl e, snd (executor_for ''p'' None registry_start)) \<and> (e = AlreadyOpen ''p'' \<or> e = ProfileClosing ''p'')"
proof -
  let ?g = "snd (executor_for ''p'' None registry_start)"
  have "(session_step True)\<^sup>*\<^sup>* registry_start ?g"
    by (intro r_into_rtranclp session_open)
  moreover have "rg_sessions ?g = [\<lparr>se_dir = ''p'', se_handles = 1, se_alive = True, se_pc = NotClosed\<rparr>]"
    by (simp add: executor_for_def registry_start_def profile_lock_def lock_held_here_def)
  ultimately show ?thesis
    using one_session_per_profile [of ?g 0 "''p''" None] by simp
qed

section \<open>Dropping a session that was not closed\<close>

abbreviation opened_session :: "string \<Rightarrow> session" where
  "opened_session d \<equiv> \<lparr>se_dir = d, se_handles = 1, se_alive = True, se_pc = NotClosed\<rparr>"

abbreviation dropped_session :: "string \<Rightarrow> bool \<Rightarrow> shutdown_pc \<Rightarrow> session" where
  "dropped_session d alive pc \<equiv> \<lparr>se_dir = d, se_handles = 0, se_alive = alive, se_pc = pc\<rparr>"

definition registry_with :: "session list \<Rightarrow> (string \<Rightarrow> session_slot option) \<Rightarrow> registry" where
  "registry_with ss slots = \<lparr>rg_sessions = ss, rg_slots = slots, rg_foreign = (\<lambda>_. False), rg_guards = []\<rparr>"

lemma registry_with_open:
  assumes "case slots d of None \<Rightarrow> True | Some ClosingSlot \<Rightarrow> False | Some (OpenSlot i) \<Rightarrow> se_handles (ss ! i) = 0"
  shows "session_step b (registry_with ss slots)
    (registry_with (ss @ [opened_session d]) (slots(d \<mapsto> OpenSlot (length ss))))"
  using session_open [of b "registry_with ss slots" d None] assms
  by (simp add: executor_for_def registry_with_def profile_lock_def split: option.splits session_slot.splits if_splits)

lemma drop_then_open:
  "(session_step False)\<^sup>*\<^sup>* registry_start
     (registry_with [dropped_session d True NotClosed, opened_session d] (Map.empty(d \<mapsto> OpenSlot 1)))"
proof -
  have "session_step False registry_start (registry_with [opened_session d] (Map.empty(d \<mapsto> OpenSlot 0)))"
    using registry_with_open [where slots = Map.empty and d = d and ss = "[]"] by (simp add: registry_with_def registry_start_def)
  moreover have "session_step False (registry_with [opened_session d] (Map.empty(d \<mapsto> OpenSlot 0)))
      (registry_with [dropped_session d True NotClosed] (Map.empty(d \<mapsto> OpenSlot 0)))"
    using session_drop [of 0 "registry_with [opened_session d] (Map.empty(d \<mapsto> OpenSlot 0))" False]
    by (simp add: registry_with_def update_session_def)
  moreover have "session_step False (registry_with [dropped_session d True NotClosed] (Map.empty(d \<mapsto> OpenSlot 0)))
      (registry_with [dropped_session d True NotClosed, opened_session d] (Map.empty(d \<mapsto> OpenSlot 1)))"
    using registry_with_open [where slots = "Map.empty(d \<mapsto> OpenSlot 0)" and d = d and
        ss = "[dropped_session d True NotClosed]"] by simp
  ultimately show ?thesis
    by (meson converse_rtranclp_into_rtranclp r_into_rtranclp)
qed

lemma dropped_finishes:
  "(session_step False)\<^sup>*\<^sup>* (registry_with [dropped_session d True NotClosed, s] (Map.empty(d \<mapsto> OpenSlot 1)))
     (registry_with [dropped_session d False Forgotten, s] Map.empty)"
proof -
  have "session_step False (registry_with [dropped_session d True NotClosed, s] (Map.empty(d \<mapsto> OpenSlot 1)))
      (registry_with [dropped_session d True WorkerTaken, s] (Map.empty(d \<mapsto> OpenSlot 1)))"
    using session_take [of 0 "registry_with [dropped_session d True NotClosed, s] (Map.empty(d \<mapsto> OpenSlot 1))" False]
    by (simp add: registry_with_def update_session_def)
  moreover have "session_step False (registry_with [dropped_session d True WorkerTaken, s] (Map.empty(d \<mapsto> OpenSlot 1)))
      (registry_with [dropped_session d True MarkedClosing, s] (Map.empty(d \<mapsto> ClosingSlot)))"
    using session_mark [of 0 "registry_with [dropped_session d True WorkerTaken, s] (Map.empty(d \<mapsto> OpenSlot 1))" False]
    by (simp add: registry_with_def update_session_def mark_closing_def)
  moreover have "session_step False (registry_with [dropped_session d True MarkedClosing, s] (Map.empty(d \<mapsto> ClosingSlot)))
      (registry_with [dropped_session d False MarkedClosing, s] (Map.empty(d \<mapsto> ClosingSlot)))"
    using session_worker_ends [of 0 "registry_with [dropped_session d True MarkedClosing, s] (Map.empty(d \<mapsto> ClosingSlot))" False]
    by (simp add: registry_with_def update_session_def)
  moreover have "session_step False (registry_with [dropped_session d False MarkedClosing, s] (Map.empty(d \<mapsto> ClosingSlot)))
      (registry_with [dropped_session d False WorkerJoined, s] (Map.empty(d \<mapsto> ClosingSlot)))"
    using session_join [of 0 "registry_with [dropped_session d False MarkedClosing, s] (Map.empty(d \<mapsto> ClosingSlot))" False]
    by (simp add: registry_with_def update_session_def)
  moreover have "session_step False (registry_with [dropped_session d False WorkerJoined, s] (Map.empty(d \<mapsto> ClosingSlot)))
      (registry_with [dropped_session d False Forgotten, s] Map.empty)"
    using session_forget [of 0 "registry_with [dropped_session d False WorkerJoined, s] (Map.empty(d \<mapsto> ClosingSlot))" False]
    by (simp add: registry_with_def update_session_def forget_session_def)
  ultimately show ?thesis
    by (meson converse_rtranclp_into_rtranclp r_into_rtranclp)
qed

text \<open>
  Dropping the last handle of a session without closing it leaves the registry open to another thread:
  between the drop and \<open>mark_closing\<close> the slot names a session with no handle and counts as free, the lock
  is shared with the worker that still runs, and the old session then marks and removes the slot of the
  new one. Two sessions with live handles end up on one directory.
\<close>

theorem dropped_session_shares_profile:
  "\<exists>g. (session_step False)\<^sup>*\<^sup>* registry_start g \<and> length (rg_sessions g) = 3 \<and>
     (\<forall>i\<in>{1, 2}. se_dir (rg_sessions g ! i) = d \<and> se_alive (rg_sessions g ! i) \<and> 0 < se_handles (rg_sessions g ! i))"
proof -
  let ?g = "registry_with [dropped_session d False Forgotten, opened_session d, opened_session d]
    (Map.empty(d \<mapsto> OpenSlot 2))"
  have "session_step False (registry_with [dropped_session d False Forgotten, opened_session d] Map.empty) ?g"
    using registry_with_open [where slots = Map.empty and d = d and
        ss = "[dropped_session d False Forgotten, opened_session d]"]
    by (simp add: numeral_2_eq_2)
  then have "(session_step False)\<^sup>*\<^sup>* registry_start ?g"
    using drop_then_open dropped_finishes by (meson rtranclp.rtrancl_into_rtrancl rtranclp_trans)
  moreover have "length (rg_sessions ?g) = 3 \<and>
     (\<forall>i\<in>{1, 2}. se_dir (rg_sessions ?g ! i) = d \<and> se_alive (rg_sessions ?g ! i) \<and> 0 < se_handles (rg_sessions ?g ! i))"
    by (simp add: registry_with_def)
  ultimately show ?thesis
    by blast
qed

end
