(* ===== verification/App_Links.thy ===== *)
theory App_Links
  imports App_Commands Pairing
begin

text \<open>
  \<open>core/crates/arveil-app/src/links.rs\<close>, the links for joining a realm, linking a device and adding a
  contact, with the bootstrap string of \<open>carrier.rs\<close> and the route string of \<open>lib.rs\<close> they carry.

  The crate \<open>data_encoding\<close> is the record \<open>b64\<close>: \<open>b64_ok\<close> says that decoding inverts encoding, that an
  encoding consists of letters, digits, minus and underscore, and how long it is; \<open>base64url\<close> is an
  instance for the witnesses. The texts of foreign errors are arguments.

  Shown: a link or a bare payload reads back as the card it was made from, every card within its bounds
  fits the size limit, a message is never read as one of two different cards, and routes and bootstrap
  strings survive printing and parsing.
\<close>

section \<open>Strings\<close>

text \<open>Methods of \<open>str\<close> that the sources use: \<open>splitn\<close>, \<open>split_once\<close>, \<open>rsplit_once\<close>, \<open>strip_prefix\<close> and the
  trimming of one ASCII character.\<close>

fun splitn :: "nat \<Rightarrow> char \<Rightarrow> string \<Rightarrow> string list" where
  "splitn 0 c s = []"
| "splitn (Suc 0) c s = [s]"
| "splitn (Suc (Suc n)) c s =
     (if c \<in> set s then takeWhile (\<lambda>x. x \<noteq> c) s # splitn (Suc n) c (tl (dropWhile (\<lambda>x. x \<noteq> c) s)) else [s])"

definition split_once :: "char \<Rightarrow> string \<Rightarrow> (string \<times> string) option" where
  "split_once c s =
     (if c \<in> set s then Some (takeWhile (\<lambda>x. x \<noteq> c) s, tl (dropWhile (\<lambda>x. x \<noteq> c) s)) else None)"

definition rsplit_once :: "char \<Rightarrow> string \<Rightarrow> (string \<times> string) option" where
  "rsplit_once c s = map_option (\<lambda>(a, b). (rev b, rev a)) (split_once c (rev s))"

definition strip_prefix :: "string \<Rightarrow> string \<Rightarrow> string option" where
  "strip_prefix p s = (if take (length p) s = p then Some (drop (length p) s) else None)"

definition trim_start_char :: "char \<Rightarrow> string \<Rightarrow> string" where
  "trim_start_char c s = dropWhile (\<lambda>x. x = c) s"

definition trim_end_char :: "char \<Rightarrow> string \<Rightarrow> string" where
  "trim_end_char c s = rev (dropWhile (\<lambda>x. x = c) (rev s))"

text \<open>The words of \<open>split_whitespace\<close>, and \<open>trim_matches\<close> with a set of characters.\<close>

fun words_of :: "string list \<Rightarrow> string \<Rightarrow> string list" where
  "words_of [] w = (if w = [] then [] else [w])"
| "words_of (ch # cs) w =
     (if is_whitespace ch then (if w = [] then [] else [w]) @ words_of cs [] else words_of cs (w @ ch))"

definition split_whitespace :: "string \<Rightarrow> string list" where
  "split_whitespace s = words_of (chars s) []"

definition trim_matches :: "string set \<Rightarrow> string \<Rightarrow> string" where
  "trim_matches cs s = concat (rev (dropWhile (\<lambda>ch. ch \<in> cs) (rev (dropWhile (\<lambda>ch. ch \<in> cs) (chars s)))))"

section \<open>Base64\<close>

record b64 =
  b64_encode :: "bytes \<Rightarrow> string"
  b64_decode :: "string \<Rightarrow> bytes option"

definition b64_char :: "char \<Rightarrow> bool" where
  "b64_char c \<longleftrightarrow>
     65 \<le> char_code c \<and> char_code c \<le> 90 \<or> 97 \<le> char_code c \<and> char_code c \<le> 122 \<or>
     48 \<le> char_code c \<and> char_code c \<le> 57 \<or> char_code c = 45 \<or> char_code c = 95"

definition b64_ok :: "b64 \<Rightarrow> bool" where
  "b64_ok b64 \<longleftrightarrow>
     (\<forall>b. b64_decode b64 (b64_encode b64 b) = Some b \<and> list_all b64_char (b64_encode b64 b) \<and>
          length (b64_encode b64 b) = (4 * length b + 2) div 3)"

text \<open>The alphabet of RFC 4648, section 5.\<close>

definition b64_digit :: "nat \<Rightarrow> char" where
  "b64_digit n = char_of (if n < 26 then 65 + n else if n < 52 then 71 + n else if n < 62 then n - 4
     else if n = 62 then 45 else 95)"

definition b64_undigit :: "char \<Rightarrow> nat option" where
  "b64_undigit c =
     (let n = char_code c in
      if 65 \<le> n \<and> n \<le> 90 then Some (n - 65) else if 97 \<le> n \<and> n \<le> 122 then Some (n - 71)
      else if 48 \<le> n \<and> n \<le> 57 then Some (n + 4) else if n = 45 then Some 62 else if n = 95 then Some 63 else None)"

fun base64url_encode :: "bytes \<Rightarrow> string" where
  "base64url_encode [] = []"
| "base64url_encode [a] = [b64_digit (unat a div 4), b64_digit (unat a mod 4 * 16)]"
| "base64url_encode [a, b] =
     [b64_digit (unat a div 4), b64_digit (unat a mod 4 * 16 + unat b div 16), b64_digit (unat b mod 16 * 4)]"
| "base64url_encode (a # b # c # r) =
     [b64_digit (unat a div 4), b64_digit (unat a mod 4 * 16 + unat b div 16),
      b64_digit (unat b mod 16 * 4 + unat c div 64), b64_digit (unat c mod 64)] @ base64url_encode r"

fun base64url_decode :: "string \<Rightarrow> bytes option" where
  "base64url_decode [] = Some []"
| "base64url_decode [x] = None"
| "base64url_decode [x, y] =
     (case (b64_undigit x, b64_undigit y) of
        (Some p, Some q) \<Rightarrow> if q mod 16 = 0 then Some [word_of_nat (p * 4 + q div 16)] else None
      | _ \<Rightarrow> None)"
| "base64url_decode [x, y, z] =
     (case (b64_undigit x, b64_undigit y, b64_undigit z) of
        (Some p, Some q, Some s) \<Rightarrow>
          if s mod 4 = 0 then Some [word_of_nat (p * 4 + q div 16), word_of_nat (q mod 16 * 16 + s div 4)] else None
      | _ \<Rightarrow> None)"
| "base64url_decode (x # y # z # w # r) =
     (case (b64_undigit x, b64_undigit y, b64_undigit z, b64_undigit w, base64url_decode r) of
        (Some p, Some q, Some s, Some t, Some bs) \<Rightarrow>
          Some ([word_of_nat (p * 4 + q div 16), word_of_nat (q mod 16 * 16 + s div 4), word_of_nat (s mod 4 * 64 + t)] @ bs)
      | _ \<Rightarrow> None)"

definition base64url :: b64 where
  "base64url = \<lparr>b64_encode = base64url_encode, b64_decode = base64url_decode\<rparr>"

lemma b64_digit_props: "n < 64 \<Longrightarrow> b64_undigit (b64_digit n) = Some n" "n < 64 \<Longrightarrow> b64_char (b64_digit n)"
  by (auto simp: b64_undigit_def b64_digit_def b64_char_def char_code_char_of Let_def)

lemma u8_parts:
  fixes a b :: u8
  shows "unat a div 4 < 64" "unat a mod 4 * 16 + unat b div 16 < 64" "unat a mod 16 * 4 + unat b div 64 < 64"
    "unat a mod 64 < 64" "unat a mod 4 * 16 < 64" "unat a mod 16 * 4 < 64"
  using unsigned_less [of a, where ?'a = nat] unsigned_less [of b, where ?'a = nat] by auto

lemma u8_joins:
  fixes a b c :: u8
  shows "unat a div 4 * 4 + (unat a mod 4 * 16 + unat b div 16) div 16 = unat a"
    "(unat a mod 4 * 16 + unat b div 16) mod 16 * 16 + (unat b mod 16 * 4 + unat c div 64) div 4 = unat b"
    "(unat b mod 16 * 4 + unat c div 64) mod 4 * 64 + unat c mod 64 = unat c"
  using unsigned_less [of b, where ?'a = nat] unsigned_less [of c, where ?'a = nat] by simp_all

lemma base64url_ok: "b64_ok base64url"
proof -
  have "base64url_decode (base64url_encode b) = Some b" for b
  proof (induction b rule: base64url_encode.induct)
    case (2 a)
    then show ?case
      using u8_joins(1) [where a = a and b = 0] by (simp add: b64_digit_props u8_parts)
  next
    case (3 a b)
    then show ?case
      using u8_joins(1) [where a = a and b = b] u8_joins(2) [where a = a and b = b and c = 0]
      by (simp add: b64_digit_props u8_parts)
  next
    case (4 a b c r)
    then show ?case
      using u8_joins(1) [where a = a and b = b] u8_joins(2) [where a = a and b = b and c = c]
        u8_joins(3) [where b = b and c = c]
      by (simp add: b64_digit_props u8_parts)
  qed simp
  moreover have "list_all b64_char (base64url_encode b)" for b
    by (induction b rule: base64url_encode.induct) (simp_all add: b64_digit_props u8_parts)
  moreover have "length (base64url_encode b) = (4 * length b + 2) div 3" for b
    by (induction b rule: base64url_encode.induct) simp_all
  ultimately show ?thesis
    by (simp add: b64_ok_def base64url_def)
qed

section \<open>Links\<close>

definition MAX_PAYLOAD_BYTES :: nat where "MAX_PAYLOAD_BYTES = 600"
definition MAX_TEXT_CHARS :: nat where "MAX_TEXT_CHARS = 2048"
definition MAX_MESSAGE_BYTES :: nat where "MAX_MESSAGE_BYTES = 16 * 1024"
definition LINK_VERSION :: u8 where "LINK_VERSION = 1"
definition INVITATION_VERSION :: u8 where "INVITATION_VERSION = 2"
definition MAX_NAME_BYTES :: nat where "MAX_NAME_BYTES = 64"
definition MAX_URL_CHARS :: nat where "MAX_URL_CHARS = 128"

definition DEFAULT_LINK_BASE :: string where
  "DEFAULT_LINK_BASE = ''https://arveil.kaicorplabs.com''"

datatype link_error = NotALink | TooLarge | Damaged string | NewerVersion | Ambiguous | KindMismatch string string

record link_realm =
  lr_signing_key :: bytes
  lr_noise_public :: bytes
  lr_url :: string

record card_route =
  crt_device_id :: bytes
  crt_credential_hash :: bytes
  crt_root_public :: bytes
  crt_mailbox_id :: bytes
  crt_write_capability :: bytes
  crt_hpke_public :: bytes

datatype link_card =
    InvitationCard link_realm bytes u64 card_route bytes "string option"
  | JoinCard link_realm bytes
  | DeviceLinkCard link_realm bytes bytes bytes u64
  | ContactCard link_realm card_route bytes "string option"

fun link_card_kind :: "link_card \<Rightarrow> string" where
  "link_card_kind (InvitationCard _ _ _ _ _ _) = ''join''"
| "link_card_kind (JoinCard _ _) = ''join''"
| "link_card_kind (DeviceLinkCard _ _ _ _ _) = ''link''"
| "link_card_kind (ContactCard _ _ _ _) = ''contact''"

fun card_realm :: "link_card \<Rightarrow> link_realm" where
  "card_realm (InvitationCard r _ _ _ _ _) = r"
| "card_realm (JoinCard r _) = r"
| "card_realm (DeviceLinkCard r _ _ _ _) = r"
| "card_realm (ContactCard r _ _ _) = r"

record wire =
  wr_contact :: "(card_route \<times> bytes \<times> string option) option"
  wr_version :: u8
  wr_kind :: string
  wr_realm_signing_key :: bytes
  wr_realm_noise_key :: bytes
  wr_url :: string
  wr_invitation :: "bytes option"
  wr_pair_id :: "bytes option"
  wr_capability :: "bytes option"
  wr_responder_key :: "bytes option"
  wr_expires_at :: "u64 option"
  wr_device_id :: "bytes option"
  wr_credential_hash :: "bytes option"
  wr_root_key :: "bytes option"
  wr_mailbox_id :: "bytes option"
  wr_write_capability :: "bytes option"
  wr_hpke_key :: "bytes option"
  wr_secret :: "bytes option"
  wr_name :: "string option"

definition opt_entry :: "string \<Rightarrow> ('a \<Rightarrow> value) \<Rightarrow> 'a option \<Rightarrow> (string \<times> value) list" where
  "opt_entry k f x = (case x of None \<Rightarrow> [] | Some v \<Rightarrow> [(k, f v)])"

definition packed_value :: "card_route \<times> bytes \<times> string option \<Rightarrow> value" where
  "packed_value p =
     (case p of (r, secret, name) \<Rightarrow>
        VArray [VBytes (crt_device_id r), VBytes (crt_credential_hash r), VBytes (crt_root_public r),
          VBytes (crt_mailbox_id r), VBytes (crt_write_capability r), VBytes (crt_hpke_public r), VBytes secret,
          (case name of None \<Rightarrow> VNull | Some n \<Rightarrow> VText n)])"

definition wire_fields :: "wire \<Rightarrow> (string \<times> value) list" where
  "wire_fields w =
     opt_entry ''contact'' packed_value (wr_contact w) @
     [(''version'', v_uint (wr_version w)), (''kind'', VText (wr_kind w)),
      (''realm_signing_key'', VBytes (wr_realm_signing_key w)),
      (''realm_noise_key'', VBytes (wr_realm_noise_key w)), (''url'', VText (wr_url w))] @
     opt_entry ''invitation'' VBytes (wr_invitation w) @ opt_entry ''pair_id'' VBytes (wr_pair_id w) @
     opt_entry ''capability'' VBytes (wr_capability w) @ opt_entry ''responder_key'' VBytes (wr_responder_key w) @
     opt_entry ''expires_at'' v_uint (wr_expires_at w) @ opt_entry ''device_id'' VBytes (wr_device_id w) @
     opt_entry ''credential_hash'' VBytes (wr_credential_hash w) @ opt_entry ''root_key'' VBytes (wr_root_key w) @
     opt_entry ''mailbox_id'' VBytes (wr_mailbox_id w) @
     opt_entry ''write_capability'' VBytes (wr_write_capability w) @
     opt_entry ''hpke_key'' VBytes (wr_hpke_key w) @ opt_entry ''secret'' VBytes (wr_secret w) @
     opt_entry ''name'' VText (wr_name w)"

definition packed_from_value :: "cbor \<Rightarrow> value \<Rightarrow> (card_route \<times> bytes \<times> string option) option" where
  "packed_from_value cb v =
     (case de_seq cb v of
        Some [a, b, c, d, e, f, g, h] \<Rightarrow>
          do { device \<leftarrow> de_bytes cb a; credential \<leftarrow> de_bytes cb b; root \<leftarrow> de_bytes cb c; mailbox \<leftarrow> de_bytes cb d;
               wcap \<leftarrow> de_bytes cb e; hpke \<leftarrow> de_bytes cb f; secret \<leftarrow> de_bytes cb g;
               name \<leftarrow> de_option cb (de_text cb) h;
               Some (\<lparr>crt_device_id = device, crt_credential_hash = credential, crt_root_public = root,
                      crt_mailbox_id = mailbox, crt_write_capability = wcap, crt_hpke_public = hpke\<rparr>, secret, name) }
      | _ \<Rightarrow> None)"

definition wire_from_value :: "cbor \<Rightarrow> value \<Rightarrow> wire option" where
  "wire_from_value cb v =
     do { fs \<leftarrow> de_fields cb v;
          contact \<leftarrow> get_default None (de_option cb (packed_from_value cb)) fs ''contact'';
          version \<leftarrow> get_field (de_u8 cb) fs ''version'';
          kind \<leftarrow> get_field (de_text cb) fs ''kind'';
          signing \<leftarrow> get_field (de_bytes cb) fs ''realm_signing_key'';
          noise \<leftarrow> get_field (de_bytes cb) fs ''realm_noise_key'';
          url \<leftarrow> get_field (de_text cb) fs ''url'';
          invitation \<leftarrow> get_default None (de_option cb (de_bytes cb)) fs ''invitation'';
          pair_id \<leftarrow> get_default None (de_option cb (de_bytes cb)) fs ''pair_id'';
          capability \<leftarrow> get_default None (de_option cb (de_bytes cb)) fs ''capability'';
          responder_key \<leftarrow> get_default None (de_option cb (de_bytes cb)) fs ''responder_key'';
          expires_at \<leftarrow> get_default None (de_option cb (de_u64 cb)) fs ''expires_at'';
          device_id \<leftarrow> get_default None (de_option cb (de_bytes cb)) fs ''device_id'';
          credential \<leftarrow> get_default None (de_option cb (de_bytes cb)) fs ''credential_hash'';
          root_key \<leftarrow> get_default None (de_option cb (de_bytes cb)) fs ''root_key'';
          mailbox_id \<leftarrow> get_default None (de_option cb (de_bytes cb)) fs ''mailbox_id'';
          write_capability \<leftarrow> get_default None (de_option cb (de_bytes cb)) fs ''write_capability'';
          hpke_key \<leftarrow> get_default None (de_option cb (de_bytes cb)) fs ''hpke_key'';
          secret \<leftarrow> get_default None (de_option cb (de_bytes cb)) fs ''secret'';
          name \<leftarrow> get_default None (de_option cb (de_text cb)) fs ''name'';
          Some \<lparr>wr_contact = contact, wr_version = version, wr_kind = kind, wr_realm_signing_key = signing,
                wr_realm_noise_key = noise, wr_url = url, wr_invitation = invitation, wr_pair_id = pair_id,
                wr_capability = capability, wr_responder_key = responder_key, wr_expires_at = expires_at,
                wr_device_id = device_id, wr_credential_hash = credential, wr_root_key = root_key,
                wr_mailbox_id = mailbox_id, wr_write_capability = write_capability, wr_hpke_key = hpke_key,
                wr_secret = secret, wr_name = name\<rparr> }"

definition card_field :: "bytes option \<Rightarrow> nat \<Rightarrow> string \<Rightarrow> link_error + bytes" where
  "card_field v len name =
     (case v of Some b \<Rightarrow> if length b = len then Inr b else Inl (Damaged name) | None \<Rightarrow> Inl (Damaged name))"

definition root_key :: "crypto \<Rightarrow> bytes \<Rightarrow> link_error + bytes" where
  "root_key cr b = (if length b = 32 \<and> ed_point cr b then Inr b else Inl (Damaged ''root key''))"

definition clean_name :: "string \<Rightarrow> string option" where
  "clean_name name =
     (let name = trim name in
      if name = [] \<or> MAX_NAME_BYTES < length name \<or> list_ex is_control (chars name) then None else Some name)"

definition valid_url :: "string \<Rightarrow> link_error + string" where
  "valid_url url =
     (if MAX_URL_CHARS < length url
         \<or> \<not> (strip_prefix ''wss://'' url \<noteq> None \<or> strip_prefix ''ws://'' url \<noteq> None)
         \<or> list_ex (\<lambda>c. is_whitespace c \<or> is_control c) (chars url)
      then Inl (Damaged ''server address'') else Inr url)"

definition link_kind :: "string \<Rightarrow> link_error + string" where
  "link_kind before_fragment =
     (let rest = (case strip_prefix ''https://'' before_fragment of
            Some r \<Rightarrow> Some (case split_once (CHR ''/'') r of Some (_, path) \<Rightarrow> path | None \<Rightarrow> [])
          | None \<Rightarrow> map_option (trim_start_char (CHR ''/'')) (strip_prefix ''arveil:'' before_fragment))
      in case rest of
           None \<Rightarrow> Inl NotALink
         | Some r \<Rightarrow>
             (let kind = last (split_on (CHR ''/'') (trim_end_char (CHR ''/'') (hd (split_on (CHR ''?'') r)))) in
              if kind = ''join'' \<or> kind = ''link'' \<or> kind = ''contact'' then Inr kind else Inl NotALink))"

definition wire_realm :: "crypto \<Rightarrow> wire \<Rightarrow> link_error + link_realm" where
  "wire_realm cr w =
     (if length (wr_realm_signing_key w) \<noteq> 32 \<or> \<not> ed_point cr (wr_realm_signing_key w) then Inl (Damaged ''server key'')
      else if length (wr_realm_noise_key w) \<noteq> 32 then Inl (Damaged ''server key'')
      else and_then (valid_url (wr_url w)) (\<lambda>url.
        Inr \<lparr>lr_signing_key = wr_realm_signing_key w, lr_noise_public = wr_realm_noise_key w, lr_url = url\<rparr>))"

definition wire_route ::
  "bytes option \<Rightarrow> bytes option \<Rightarrow> bytes option \<Rightarrow> bytes option \<Rightarrow> bytes option \<Rightarrow> bytes option \<Rightarrow> link_error + card_route" where
  "wire_route dev credential root mailbox wcap hpke =
     and_then (card_field dev 16 ''device'') (\<lambda>a. and_then (card_field credential 32 ''credential'') (\<lambda>b.
     and_then (card_field root 32 ''root key'') (\<lambda>c. and_then (card_field mailbox 16 ''mailbox'') (\<lambda>d.
     and_then (card_field wcap 32 ''mailbox'') (\<lambda>e. and_then (card_field hpke 32 ''device key'') (\<lambda>f.
     Inr \<lparr>crt_device_id = a, crt_credential_hash = b, crt_root_public = c, crt_mailbox_id = d,
          crt_write_capability = e, crt_hpke_public = f\<rparr>))))))"

definition expiry_ok :: "u64 \<Rightarrow> bool" where
  "expiry_ok n \<longleftrightarrow> 0 < n \<and> n \<le> 0x7FFFFFFFFFFFFFFF"

definition decode_invitation :: "crypto \<Rightarrow> wire \<Rightarrow> link_realm \<Rightarrow> link_error + link_card" where
  "decode_invitation cr w realm =
     (if wr_kind w \<noteq> ''join'' then Inl (Damaged ''invitation kind'')
      else and_then (ok_or (wr_contact w) (Damaged ''inviter contact'')) (\<lambda>(r, secret, name).
        and_then (wire_route (Some (crt_device_id r)) (Some (crt_credential_hash r)) (Some (crt_root_public r))
          (Some (crt_mailbox_id r)) (Some (crt_write_capability r)) (Some (crt_hpke_public r))) (\<lambda>route.
        and_then (root_key cr (crt_root_public route)) (\<lambda>_.
        and_then (ok_or (Option.bind (wr_expires_at w) (\<lambda>n. if expiry_ok n then Some n else None)) (Damaged ''expiry'')) (\<lambda>expires.
        and_then (card_field (wr_invitation w) 32 ''invitation'') (\<lambda>invitation.
        and_then (card_field (Some secret) 16 ''secret'') (\<lambda>secret.
          Inr (InvitationCard realm invitation expires route secret (Option.bind name clean_name)))))))))"

definition card_decode :: "cbor \<Rightarrow> crypto \<Rightarrow> bytes \<Rightarrow> link_error + link_card" where
  "card_decode cb cr bytes =
     (if MAX_PAYLOAD_BYTES < length bytes then Inl TooLarge
      else and_then (ok_or (Option.bind (from_reader cb bytes) (wire_from_value cb)) NotALink) (\<lambda>w.
        if INVITATION_VERSION < wr_version w then Inl NewerVersion
        else if wr_version w \<noteq> LINK_VERSION \<and> wr_version w \<noteq> INVITATION_VERSION then Inl (Damaged ''version'')
        else and_then (wire_realm cr w) (\<lambda>realm.
          if wr_version w = INVITATION_VERSION then decode_invitation cr w realm
          else if wr_contact w \<noteq> None then Inl (Damaged ''invitation version'')
          else if wr_kind w = ''join'' then
            and_then (card_field (wr_invitation w) 32 ''invitation'') (\<lambda>invitation. Inr (JoinCard realm invitation))
          else if wr_kind w = ''link'' then
            and_then (card_field (wr_pair_id w) 16 ''pairing'') (\<lambda>pair_id.
            and_then (card_field (wr_capability w) 32 ''pairing'') (\<lambda>capability.
            and_then (card_field (wr_responder_key w) 32 ''pairing key'') (\<lambda>responder.
            and_then (ok_or (wr_expires_at w) (Damaged ''pairing'')) (\<lambda>expires.
              Inr (DeviceLinkCard realm pair_id capability responder expires)))))
          else if wr_kind w = ''contact'' then
            and_then (wire_route (wr_device_id w) (wr_credential_hash w) (wr_root_key w) (wr_mailbox_id w)
              (wr_write_capability w) (wr_hpke_key w)) (\<lambda>route.
            and_then (root_key cr (crt_root_public route)) (\<lambda>_.
            and_then (card_field (wr_secret w) 16 ''secret'') (\<lambda>secret.
              Inr (ContactCard realm route secret (Option.bind (wr_name w) clean_name)))))
          else Inl NewerVersion)))"

definition empty_wire :: wire where
  "empty_wire = \<lparr>wr_contact = None, wr_version = 0, wr_kind = [], wr_realm_signing_key = [], wr_realm_noise_key = [],
     wr_url = [], wr_invitation = None, wr_pair_id = None, wr_capability = None, wr_responder_key = None,
     wr_expires_at = None, wr_device_id = None, wr_credential_hash = None, wr_root_key = None, wr_mailbox_id = None,
     wr_write_capability = None, wr_hpke_key = None, wr_secret = None, wr_name = None\<rparr>"

definition card_wire :: "link_card \<Rightarrow> wire" where
  "card_wire crd =
     (let realm = card_realm crd;
          w = empty_wire\<lparr>wr_version := LINK_VERSION, wr_kind := link_card_kind crd,
            wr_realm_signing_key := lr_signing_key realm, wr_realm_noise_key := lr_noise_public realm,
            wr_url := lr_url realm\<rparr>
      in case crd of
           InvitationCard _ invitation expires route secret name \<Rightarrow>
             w\<lparr>wr_version := INVITATION_VERSION, wr_invitation := Some invitation, wr_expires_at := Some expires,
               wr_contact := Some (route, secret, Option.bind name clean_name)\<rparr>
         | JoinCard _ invitation \<Rightarrow> w\<lparr>wr_invitation := Some invitation\<rparr>
         | DeviceLinkCard _ pair_id capability responder expires \<Rightarrow>
             w\<lparr>wr_pair_id := Some pair_id, wr_capability := Some capability, wr_responder_key := Some responder,
               wr_expires_at := Some expires\<rparr>
         | ContactCard _ route secret name \<Rightarrow>
             w\<lparr>wr_device_id := Some (crt_device_id route), wr_credential_hash := Some (crt_credential_hash route),
               wr_root_key := Some (crt_root_public route), wr_mailbox_id := Some (crt_mailbox_id route),
               wr_write_capability := Some (crt_write_capability route), wr_hpke_key := Some (crt_hpke_public route),
               wr_secret := Some secret, wr_name := Option.bind name clean_name\<rparr>)"

definition card_payload :: "cbor \<Rightarrow> crypto \<Rightarrow> b64 \<Rightarrow> link_card \<Rightarrow> link_error + string" where
  "card_payload cb cr b64 crd =
     and_then (ok_or (canonical cb (struct (wire_fields (card_wire crd)))) (Damaged ''encoding'')) (\<lambda>bytes.
       if MAX_PAYLOAD_BYTES < length bytes then Inl TooLarge
       else and_then (case crd of InvitationCard _ _ _ _ _ _ \<Rightarrow> and_then (card_decode cb cr bytes) (\<lambda>_. Inr ())
                      | _ \<Rightarrow> Inr ()) (\<lambda>_. Inr (b64_encode b64 bytes)))"

definition card_link :: "cbor \<Rightarrow> crypto \<Rightarrow> b64 \<Rightarrow> link_card \<Rightarrow> string \<Rightarrow> link_error + string" where
  "card_link cb cr b64 crd base =
     and_then (card_payload cb cr b64 crd) (\<lambda>payload.
       Inr (trim_end_char (CHR ''/'') base @ ''/'' @ link_card_kind crd @ ''#'' @ payload))"

definition card_parse :: "cbor \<Rightarrow> crypto \<Rightarrow> b64 \<Rightarrow> string \<Rightarrow> link_error + link_card" where
  "card_parse cb cr b64 input =
     (let text = trim input in
      if text = [] then Inl NotALink
      else if MAX_TEXT_CHARS < length (chars text) then Inl TooLarge
      else if list_ex is_whitespace (chars text) then Inl NotALink
      else and_then (case rsplit_once (CHR ''#'') text of
               Some (before, after) \<Rightarrow> and_then (link_kind before) (\<lambda>kind. Inr (Some kind, after))
             | None \<Rightarrow> Inr (None, text)) (\<lambda>(path, payload).
        if (MAX_PAYLOAD_BYTES + 2) div 3 * 4 < length payload then Inl TooLarge
        else and_then (ok_or (b64_decode b64 payload) NotALink) (\<lambda>bytes.
          and_then (card_decode cb cr bytes) (\<lambda>crd.
            case path of
              Some p \<Rightarrow> if p \<noteq> link_card_kind crd then Inl (KindMismatch p (link_card_kind crd)) else Inr crd
            | None \<Rightarrow> Inr crd))))"

text \<open>The brackets, quotes and stops of \<open>find\<close>, each one character in UTF-8.\<close>

definition link_trim_chars :: "string set" where
  "link_trim_chars = set (map (\<lambda>c. [c]) ''<>()[]{}'') \<union> {[char_of (34::nat)], [char_of (39::nat)]} \<union>
     set (map (\<lambda>c. [c]) ''.,;:!?'') \<union>
     {[char_of (194::nat), char_of (171::nat)], [char_of (194::nat), char_of (187::nat)],
      [char_of (194::nat), char_of (161::nat)], [char_of (194::nat), char_of (191::nat)]}"

fun find_in_words :: "(string \<Rightarrow> link_error + link_card) \<Rightarrow> string list \<Rightarrow> link_card option \<Rightarrow> link_error + link_card option" where
  "find_in_words parse [] found = Inr found"
| "find_in_words parse (word # words) found =
     (case parse (trim_matches link_trim_chars word) of
        Inr crd \<Rightarrow>
          (case found of
             Some f \<Rightarrow> if f \<noteq> crd then Inl Ambiguous else find_in_words parse words (Some crd)
           | None \<Rightarrow> find_in_words parse words (Some crd))
      | Inl _ \<Rightarrow> find_in_words parse words found)"

definition card_find :: "cbor \<Rightarrow> crypto \<Rightarrow> b64 \<Rightarrow> string \<Rightarrow> link_error + link_card" where
  "card_find cb cr b64 text =
     (if MAX_MESSAGE_BYTES < length text then Inl TooLarge
      else let whole = card_parse cb cr b64 text in
        if is_ok whole then whole
        else and_then (find_in_words (card_parse cb cr b64) (split_whitespace text) None) (\<lambda>found.
          case found of
            Some crd \<Rightarrow> Inr crd
          | None \<Rightarrow> if \<not> list_ex is_whitespace (chars (trim text)) then whole else Inl NotALink))"

section \<open>Bootstrap strings and routes\<close>

definition realm_id_of :: "crypto \<Rightarrow> bytes \<Rightarrow> bytes" where
  "realm_id_of cr signing_key = sha256 cr (bytes_of_string ''arveil/realm-id/v1'' @ signing_key)"

record bootstrap =
  bs_realm_id :: bytes
  bs_signing_key :: bytes
  bs_noise_public :: bytes
  bs_url :: string

text \<open>The texts of the errors of the crates \<open>hex\<close> and \<open>ed25519_dalek\<close>.\<close>

record error_texts =
  hex_error :: "string \<Rightarrow> string"
  point_error :: "bytes \<Rightarrow> string"

definition hex_field :: "hex \<Rightarrow> error_texts \<Rightarrow> string \<Rightarrow> string \<Rightarrow> cli_error + bytes" where
  "hex_field hx et context s =
     (case hex_decode hx s of Some b \<Rightarrow> Inr b | None \<Rightarrow> Inl (CliDomain (context @ '': '' @ hex_error et s)))"

definition bootstrap_parse :: "hex \<Rightarrow> error_texts \<Rightarrow> crypto \<Rightarrow> string \<Rightarrow> cli_error + bootstrap" where
  "bootstrap_parse hx et cr s =
     (let parts = splitn 6 (CHR '':'') s in
      if length parts \<noteq> 6 \<or> parts ! 0 \<noteq> ''arveil-bootstrap'' \<or> parts ! 1 \<noteq> ''v0''
      then Inl (CliDomain ''not an arveil-bootstrap:v0 string'')
      else and_then (hex_field hx et ''realm id'' (parts ! 2)) (\<lambda>realm_id.
        and_then (hex_field hx et ''signing key'' (parts ! 3)) (\<lambda>signing.
        if length signing \<noteq> 32 then Inl (CliDomain ''signing key must be 32 bytes'')
        else if \<not> ed_point cr signing then Inl (CliDomain (''signing key: '' @ point_error et signing))
        else and_then (hex_field hx et ''noise key'' (parts ! 4)) (\<lambda>noise.
        if length noise \<noteq> 32 then Inl (CliDomain ''noise key must be 32 bytes'')
        else Inr \<lparr>bs_realm_id = realm_id, bs_signing_key = signing, bs_noise_public = noise, bs_url = parts ! 5\<rparr>))))"

definition realm_bootstrap :: "hex \<Rightarrow> crypto \<Rightarrow> link_realm \<Rightarrow> string" where
  "realm_bootstrap hx cr r =
     ''arveil-bootstrap:v0:'' @ hex_encode hx (realm_id_of cr (lr_signing_key r)) @ '':'' @
     hex_encode hx (lr_signing_key r) @ '':'' @ hex_encode hx (lr_noise_public r) @ '':'' @ lr_url r"

definition realm_from_bootstrap :: "hex \<Rightarrow> error_texts \<Rightarrow> crypto \<Rightarrow> string \<Rightarrow> link_error + link_realm" where
  "realm_from_bootstrap hx et cr s =
     (case bootstrap_parse hx et cr s of
        Inl _ \<Rightarrow> Inl (Damaged ''server details'')
      | Inr b \<Rightarrow>
          if bs_realm_id b \<noteq> realm_id_of cr (bs_signing_key b) then Inl (Damaged ''realm id'')
          else Inr \<lparr>lr_signing_key = bs_signing_key b, lr_noise_public = bs_noise_public b, lr_url = bs_url b\<rparr>)"

record route =
  ro_identity_id :: bytes
  ro_device_id :: bytes
  ro_credential_hash :: bytes
  ro_root_public :: bytes
  ro_mailbox_id :: bytes
  ro_write_capability :: bytes
  ro_hpke_public :: bytes

definition route_root :: "error_texts \<Rightarrow> crypto \<Rightarrow> route \<Rightarrow> cli_error + bytes" where
  "route_root et cr r =
     (if length (ro_root_public r) \<noteq> 32 then Inl (CliDomain ''route: root key length'')
      else if \<not> ed_point cr (ro_root_public r) then Inl (CliDomain (''route: root key: '' @ point_error et (ro_root_public r)))
      else Inr (ro_root_public r))"

definition parse_route :: "hex \<Rightarrow> error_texts \<Rightarrow> crypto \<Rightarrow> string \<Rightarrow> cli_error + route" where
  "parse_route hx et cr value =
     (let parts = split_on (CHR '':'') value; get = (\<lambda>i context. hex_field hx et context (parts ! i)) in
      if length parts \<noteq> 9 \<or> parts ! 0 \<noteq> ''arveil-route'' \<or> parts ! 1 \<noteq> ''v1''
      then Inl (CliDomain ''not an arveil-route:v1 string'')
      else and_then (get 2 ''identity id'') (\<lambda>identity. and_then (get 3 ''device id'') (\<lambda>device.
        and_then (get 4 ''credential hash'') (\<lambda>credential. and_then (get 5 ''root key'') (\<lambda>root.
        and_then (get 6 ''mailbox id'') (\<lambda>mailbox. and_then (get 7 ''write capability'') (\<lambda>wcap.
        and_then (get 8 ''hpke key'') (\<lambda>hpke.
        let r = \<lparr>ro_identity_id = identity, ro_device_id = device, ro_credential_hash = credential,
                 ro_root_public = root, ro_mailbox_id = mailbox, ro_write_capability = wcap, ro_hpke_public = hpke\<rparr>
        in and_then (route_root et cr r) (\<lambda>verifying.
          if identity_id cr verifying \<noteq> ro_identity_id r
          then Inl (CliDomain ''route: identity id does not derive from its root key'') else Inr r)))))))))"

definition route_text :: "hex \<Rightarrow> route \<Rightarrow> string" where
  "route_text hx r =
     ''arveil-route:v1:'' @ hex_encode hx (ro_identity_id r) @ '':'' @ hex_encode hx (ro_device_id r) @ '':'' @
     hex_encode hx (ro_credential_hash r) @ '':'' @ hex_encode hx (ro_root_public r) @ '':'' @
     hex_encode hx (ro_mailbox_id r) @ '':'' @ hex_encode hx (ro_write_capability r) @ '':'' @
     hex_encode hx (ro_hpke_public r)"

definition card_route_text :: "hex \<Rightarrow> crypto \<Rightarrow> card_route \<Rightarrow> link_error + string" where
  "card_route_text hx cr c =
     and_then (root_key cr (crt_root_public c)) (\<lambda>root.
       Inr (route_text hx \<lparr>ro_identity_id = identity_id cr root, ro_device_id = crt_device_id c,
         ro_credential_hash = crt_credential_hash c, ro_root_public = crt_root_public c,
         ro_mailbox_id = crt_mailbox_id c, ro_write_capability = crt_write_capability c,
         ro_hpke_public = crt_hpke_public c\<rparr>))"

definition card_route_of :: "route \<Rightarrow> card_route" where
  "card_route_of r = \<lparr>crt_device_id = ro_device_id r, crt_credential_hash = ro_credential_hash r,
     crt_root_public = ro_root_public r, crt_mailbox_id = ro_mailbox_id r,
     crt_write_capability = ro_write_capability r, crt_hpke_public = ro_hpke_public r\<rparr>"

section \<open>The wire map\<close>

lemma keys_opt_entry [simp]: "k \<in> fst ` set (opt_entry k' f x) \<longleftrightarrow> k = k' \<and> x \<noteq> None"
  by (auto simp: opt_entry_def split: option.split)

lemma opt_field_append_other: "k \<notin> fst ` set fs \<Longrightarrow> opt_field (fs @ gs) k = opt_field gs k"
  by (induction fs) (auto simp: opt_field_Cons_other)

lemma field_append_other: "k \<notin> fst ` set fs \<Longrightarrow> field (fs @ gs) k = field gs k"
  by (induction fs) (auto simp: field_Cons_other)

lemma opt_field_entry:
  "k \<notin> fst ` set fs \<Longrightarrow> opt_field (opt_entry k f x @ fs) k = Some (map_option f x)"
proof (cases x)
  case None
  assume "k \<notin> fst ` set fs"
  then have "opt_field (fs @ []) k = opt_field [] k"
    by (rule opt_field_append_other)
  then show ?thesis
    by (simp add: None opt_entry_def opt_field_Nil)
qed (simp add: opt_entry_def opt_field_Cons_same)

lemma opt_field_last: "opt_field (opt_entry k f x) k = Some (map_option f x)"
  using opt_field_entry [of k "[]" f x] by simp

lemmas wire_field_simps = wire_fields_def opt_field_append_other field_append_other opt_field_entry opt_field_last
  opt_field_Cons_other field_Cons_other field_Cons_same

lemma wire_opt_fields:
  "opt_field (wire_fields w) ''contact'' = Some (map_option packed_value (wr_contact w))"
  "opt_field (wire_fields w) ''invitation'' = Some (map_option VBytes (wr_invitation w))"
  "opt_field (wire_fields w) ''pair_id'' = Some (map_option VBytes (wr_pair_id w))"
  "opt_field (wire_fields w) ''capability'' = Some (map_option VBytes (wr_capability w))"
  "opt_field (wire_fields w) ''responder_key'' = Some (map_option VBytes (wr_responder_key w))"
  "opt_field (wire_fields w) ''expires_at'' = Some (map_option v_uint (wr_expires_at w))"
  "opt_field (wire_fields w) ''device_id'' = Some (map_option VBytes (wr_device_id w))"
  "opt_field (wire_fields w) ''credential_hash'' = Some (map_option VBytes (wr_credential_hash w))"
  "opt_field (wire_fields w) ''root_key'' = Some (map_option VBytes (wr_root_key w))"
  "opt_field (wire_fields w) ''mailbox_id'' = Some (map_option VBytes (wr_mailbox_id w))"
  "opt_field (wire_fields w) ''write_capability'' = Some (map_option VBytes (wr_write_capability w))"
  "opt_field (wire_fields w) ''hpke_key'' = Some (map_option VBytes (wr_hpke_key w))"
  "opt_field (wire_fields w) ''secret'' = Some (map_option VBytes (wr_secret w))"
  "opt_field (wire_fields w) ''name'' = Some (map_option VText (wr_name w))"
  by (simp_all add: wire_field_simps image_Un del: append.simps)

lemma wire_req_fields:
  "field (wire_fields w) ''version'' = Some (v_uint (wr_version w))"
  "field (wire_fields w) ''kind'' = Some (VText (wr_kind w))"
  "field (wire_fields w) ''realm_signing_key'' = Some (VBytes (wr_realm_signing_key w))"
  "field (wire_fields w) ''realm_noise_key'' = Some (VBytes (wr_realm_noise_key w))"
  "field (wire_fields w) ''url'' = Some (VText (wr_url w))"
  by (simp_all add: wire_field_simps image_Un)

context cbor_codec begin

lemma de_option_u64 [wire_simps]: "de_option cb (de_u64 cb) (v_uint n) = Some (Some n)"
  using de_null_other [of "v_uint n"] by (simp add: de_option_def v_uint_def de_uint_word [unfolded v_uint_def])

lemma packed_roundtrip: "packed_from_value cb (sort_maps cb (packed_value p)) = Some p"
proof (cases p)
  case (fields r secret name)
  then show ?thesis
    by (cases name) (simp_all add: packed_value_def packed_from_value_def de_seq_array wire_simps)
qed

lemma de_option_packed: "de_option cb (packed_from_value cb) (sort_maps cb (packed_value p)) = Some (Some p)"
proof -
  have "\<not> de_null cb (sort_maps cb (packed_value p))"
    by (rule de_null_other) (simp_all add: packed_value_def split: prod.split)
  then show ?thesis
    by (simp add: de_option_def packed_roundtrip)
qed

lemma wire_roundtrip: "wire_from_value cb (sort_maps cb (struct (wire_fields w))) = Some w"
proof -
  obtain gs where d: "de_fields cb (sort_maps cb (struct (wire_fields w))) = Some gs"
    and f: "\<And>k. field gs k = map_option (sort_maps cb) (field (wire_fields w) k)"
    and o: "\<And>k. opt_field gs k = map_option (map_option (sort_maps cb)) (opt_field (wire_fields w) k)"
    using de_fields_sorted_struct [of "wire_fields w"] by blast
  have b: "get_default None (de_option cb (de_bytes cb)) gs k = Some x"
    if "opt_field (wire_fields w) k = Some (map_option VBytes x)" for k x
    using that by (cases x) (simp_all add: sorted_default [OF o] wire_simps)
  have n: "get_default None (de_option cb (de_text cb)) gs k = Some x"
    if "opt_field (wire_fields w) k = Some (map_option VText x)" for k x
    using that by (cases x) (simp_all add: sorted_default [OF o] wire_simps)
  have e: "get_default None (de_option cb (de_u64 cb)) gs ''expires_at'' = Some (wr_expires_at w)"
    by (cases "wr_expires_at w") (simp_all add: sorted_default [OF o] wire_opt_fields wire_simps)
  have c: "get_default None (de_option cb (packed_from_value cb)) gs ''contact'' = Some (wr_contact w)"
    by (cases "wr_contact w") (simp_all add: sorted_default [OF o] wire_opt_fields de_option_packed)
  show ?thesis
    by (simp add: wire_from_value_def d c e n [OF wire_opt_fields(14)] b wire_opt_fields sorted_field [OF f]
        wire_req_fields wire_simps)
qed

end

section \<open>Cards within their bounds\<close>

definition link_realm_ok :: "crypto \<Rightarrow> link_realm \<Rightarrow> bool" where
  "link_realm_ok cr r \<longleftrightarrow>
     length (lr_signing_key r) = 32 \<and> ed_point cr (lr_signing_key r) \<and> length (lr_noise_public r) = 32 \<and>
     valid_url (lr_url r) = Inr (lr_url r) \<and> utf8 (lr_url r)"

definition card_route_ok :: "crypto \<Rightarrow> card_route \<Rightarrow> bool" where
  "card_route_ok cr r \<longleftrightarrow>
     length (crt_device_id r) = 16 \<and> length (crt_credential_hash r) = 32 \<and> length (crt_root_public r) = 32 \<and>
     ed_point cr (crt_root_public r) \<and> length (crt_mailbox_id r) = 16 \<and> length (crt_write_capability r) = 32 \<and>
     length (crt_hpke_public r) = 32"

definition card_name_ok :: "string option \<Rightarrow> bool" where
  "card_name_ok name \<longleftrightarrow> (case name of None \<Rightarrow> True | Some n \<Rightarrow> clean_name n = Some n \<and> utf8 n)"

fun link_card_ok :: "crypto \<Rightarrow> link_card \<Rightarrow> bool" where
  "link_card_ok cr (InvitationCard realm invitation expires r secret name) \<longleftrightarrow>
     link_realm_ok cr realm \<and> length invitation = 32 \<and> expiry_ok expires \<and> card_route_ok cr r \<and>
     length secret = 16 \<and> card_name_ok name"
| "link_card_ok cr (JoinCard realm invitation) \<longleftrightarrow> link_realm_ok cr realm \<and> length invitation = 32"
| "link_card_ok cr (DeviceLinkCard realm pair_id capability responder expires) \<longleftrightarrow>
     link_realm_ok cr realm \<and> length pair_id = 16 \<and> length capability = 32 \<and> length responder = 32"
| "link_card_ok cr (ContactCard realm r secret name) \<longleftrightarrow>
     link_realm_ok cr realm \<and> card_route_ok cr r \<and> length secret = 16 \<and> card_name_ok name"

lemma card_name_bind: "card_name_ok name \<Longrightarrow> Option.bind name clean_name = name"
  by (cases name) (simp_all add: card_name_ok_def)

lemma clean_name_length: "clean_name n = Some m \<Longrightarrow> length m \<le> MAX_NAME_BYTES"
  by (auto simp: clean_name_def Let_def split: if_splits)

lemma valid_url_length: "valid_url u = Inr v \<Longrightarrow> length u \<le> MAX_URL_CHARS"
  by (auto simp: valid_url_def split: if_splits)

lemma valid_url_id: "valid_url u = Inr v \<Longrightarrow> v = u"
  by (auto simp: valid_url_def split: if_splits)

lemma head_size_small: "n < 24 \<Longrightarrow> head_size n = 1" "n < 256 \<Longrightarrow> head_size n \<le> 2"
  by (auto simp: head_size_def)

lemma uint_size: "cbor_size (v_uint (n :: u64)) \<le> 9" "cbor_size (v_uint LINK_VERSION) = 1"
  "cbor_size (v_uint INVITATION_VERSION) = 1"
  by (auto simp: v_uint_def head_size_def LINK_VERSION_def INVITATION_VERSION_def)

lemma text_size: "length s \<le> 128 \<Longrightarrow> head_size (length s) + length s \<le> 2 + length s"
  using head_size_small(2) [of "length s"] by simp

definition fields_size :: "(string \<times> value) list \<Rightarrow> nat" where
  "fields_size fs = sum_list (map (\<lambda>(k, v). head_size (length k) + length k + cbor_size v) fs)"

lemma fields_size_simps [simp]:
  "fields_size [] = 0"
  "fields_size ((k, v) # fs) = head_size (length k) + length k + cbor_size v + fields_size fs"
  by (simp_all add: fields_size_def)

lemma struct_size: "cbor_size (struct fs) = head_size (length fs) + fields_size fs"
  by (simp add: struct_def) (induction fs; auto)

lemma url_size: "valid_url u = Inr u \<Longrightarrow> head_size (length u) + length u \<le> 130"
  using valid_url_length [of u u] text_size [of u] by (simp add: MAX_URL_CHARS_def)

lemma name_size:
  "card_name_ok name \<Longrightarrow> (case name of None \<Rightarrow> 0 | Some n \<Rightarrow> head_size (length n) + length n) \<le> 66"
proof (cases name)
  case (Some n)
  assume "card_name_ok name"
  then have "length n \<le> 64"
    using clean_name_length [of n n] Some by (simp add: card_name_ok_def MAX_NAME_BYTES_def)
  then show ?thesis
    using text_size [of n] Some by simp
qed simp

lemmas card_size_simps = card_wire_def empty_wire_def wire_fields_def opt_entry_def struct_size uint_size(2,3)
  packed_value_def link_realm_ok_def card_route_ok_def MAX_PAYLOAD_BYTES_def head_size_small(1) Let_def

text \<open>The largest card of each kind fits the limit, whatever its address and name.\<close>

lemma card_size:
  assumes "link_card_ok cr c"
  shows "cbor_size (struct (wire_fields (card_wire c))) \<le> MAX_PAYLOAD_BYTES"
proof (cases c)
  case (InvitationCard realm invitation expires r secret name)
  then show ?thesis
    using assms url_size [of "lr_url realm"] uint_size(1) [of expires] name_size [of name] card_name_bind [of name]
      head_size_small(2) [of 32]
    by (cases name) (auto simp: card_size_simps)
next
  case (JoinCard realm invitation)
  then show ?thesis
    using assms url_size [of "lr_url realm"] head_size_small(2) [of 32] by (auto simp: card_size_simps)
next
  case (DeviceLinkCard realm pair_id capability responder expires)
  then show ?thesis
    using assms url_size [of "lr_url realm"] uint_size(1) [of expires] head_size_small(2) [of 32]
    by (auto simp: card_size_simps)
next
  case (ContactCard realm r secret name)
  then show ?thesis
    using assms url_size [of "lr_url realm"] name_size [of name] card_name_bind [of name] head_size_small(2) [of 32]
    by (cases name) (auto simp: card_size_simps)
qed

lemma card_wf:
  assumes "link_card_ok cr c"
  shows "wf_value 16 (struct (wire_fields (card_wire c)))"
proof -
  have "card_name_ok name \<Longrightarrow> Option.bind name clean_name = Some n \<Longrightarrow> utf8 n" for name n
    by (cases name) (simp_all add: card_name_ok_def)
  then show ?thesis
    using assms
    by (cases c) (auto simp: card_size_simps struct_def wf_value_numeral wf_v_uint_numeral ascii_utf8 ascii_def
        split: option.splits)
qed

context cbor_codec begin

lemma card_decode_wire:
  assumes "link_card_ok cr c" and "length b \<le> MAX_PAYLOAD_BYTES"
    and "from_reader cb b = Some (sort_maps cb (struct (wire_fields (card_wire c))))"
  shows "card_decode cb cr b = Inr c"
proof -
  have w: "Option.bind (from_reader cb b) (wire_from_value cb) = Some (card_wire c)"
    by (simp add: assms(3) wire_roundtrip)
  show ?thesis
    using assms(1,2) card_name_bind
    by (cases c) (simp_all add: card_decode_def w card_wire_def empty_wire_def Let_def wire_realm_def
        link_realm_ok_def card_route_ok_def decode_invitation_def wire_route_def card_field_def root_key_def
        LINK_VERSION_def INVITATION_VERSION_def result_simps)
qed

lemma card_payload_total:
  assumes "link_card_ok cr c"
  obtains b where "card_payload cb cr b64 c = Inr (b64_encode b64 b)" and "length b \<le> MAX_PAYLOAD_BYTES"
    and "card_decode cb cr b = Inr c" and "b \<noteq> []"
proof -
  have size: "cbor_size (struct (wire_fields (card_wire c))) \<le> 600"
    using card_size [OF assms] by (simp add: MAX_PAYLOAD_BYTES_def)
  then have small: "cbor_size (struct (wire_fields (card_wire c))) < 2 ^ 64"
    by (rule le_less_trans) simp
  obtain b where b: "signed_canonical cb (struct (wire_fields (card_wire c))) = Inr b"
      "length b = cbor_size (struct (wire_fields (card_wire c)))"
      "from_reader cb b = Some (sort_maps cb (struct (wire_fields (card_wire c))))"
    using encoder_size [OF card_wf [OF assms] small] by blast
  have d: "card_decode cb cr b = Inr c"
    using card_decode_wire [OF assms _ b(3)] b(2) size by (simp add: MAX_PAYLOAD_BYTES_def)
  show thesis
  proof (rule that [of b])
    show "card_payload cb cr b64 c = Inr (b64_encode b64 b)"
      using b(1,2) size d by (cases c) (auto simp: card_payload_def signed_canonical_def ok_or_def MAX_PAYLOAD_BYTES_def
          split: option.splits)
    show "length b \<le> MAX_PAYLOAD_BYTES"
      using b(2) size by (simp add: MAX_PAYLOAD_BYTES_def)
    show "b \<noteq> []"
      using b(2) by (auto simp: struct_size head_size_def split: if_splits)
  qed (rule d)
qed

end

section \<open>Reading a link\<close>

definition plain_char :: "char \<Rightarrow> bool" where
  "plain_char c \<longleftrightarrow> char_code c < 128 \<and> \<not> is_whitespace [c] \<and> c \<noteq> CHR ''#'' \<and> c \<noteq> CHR ''?''"

text \<open>A page links may point to: an address without fragment or query.\<close>

definition link_base_ok :: "string \<Rightarrow> bool" where
  "link_base_ok base \<longleftrightarrow>
     list_all plain_char base \<and> length base \<le> 1024 \<and> strip_prefix ''https://'' (trim_end_char (CHR ''/'') base) \<noteq> None"

lemma split_once_append: "c \<notin> set p \<Longrightarrow> split_once c (p @ c # s) = Some (p, s)"
  by (induction p) (auto simp: split_once_def)

lemma rsplit_once_append: "c \<notin> set s \<Longrightarrow> rsplit_once c (p @ c # s) = Some (p, s)"
  using split_once_append [of c "rev s" "rev p"] by (simp add: rsplit_once_def)

lemma rsplit_once_None: "c \<notin> set s \<Longrightarrow> rsplit_once c s = None"
  by (simp add: rsplit_once_def split_once_def)

lemma split_once_path: "\<exists>q. split_once c (p @ c # s) = Some (q, s) \<or> (\<exists>p'. split_once c (p @ c # s) = Some (q, p' @ c # s) \<and> set p' \<subseteq> set p)"
proof (cases "c \<in> set p")
  case True
  then obtain p1 p2 where "p = p1 @ c # p2" and "c \<notin> set p1"
    by (meson split_list_first)
  then show ?thesis
    using split_once_append [of c p1 "p2 @ c # s"] by auto
qed (use split_once_append in blast)

lemma split_on_last: "c \<notin> set k \<Longrightarrow> \<exists>p' ps. split_on c (p @ c # k) = p' # ps @ [k]"
  by (induction p) (auto simp: split_on_piece)

lemma last_split_on: "c \<notin> set k \<Longrightarrow> last (split_on c (p @ c # k)) = k"
  using split_on_last [of c k p] by auto

lemma last_split_on': "c \<notin> set k \<Longrightarrow> last (split_on c k) = k"
  by (simp add: split_on_piece)

lemma trim_end_char_id: "last s \<noteq> c \<Longrightarrow> s \<noteq> [] \<Longrightarrow> trim_end_char c s = s"
  by (cases s rule: rev_cases) (auto simp: trim_end_char_def)

lemma trim_end_char_set: "set (trim_end_char c s) \<subseteq> set s" "length (trim_end_char c s) \<le> length s"
  by (auto simp: trim_end_char_def length_dropWhile_le dest: set_dropWhileD)
    (metis length_dropWhile_le length_rev)

lemma link_card_kind_cases: "link_card_kind c = ''join'' \<or> link_card_kind c = ''link'' \<or> link_card_kind c = ''contact''"
  by (cases c) auto

lemma link_kind_of_path:
  assumes "k = ''join'' \<or> k = ''link'' \<or> k = ''contact''" and "CHR ''?'' \<notin> set r"
  shows "link_kind (''https://'' @ r @ ''/'' @ k) = Inr k"
proof -
  have s: "strip_prefix ''https://'' (''https://'' @ r @ ''/'' @ k) = Some (r @ ''/'' @ k)"
    by (simp add: strip_prefix_def)
  have k: "CHR ''/'' \<notin> set k" "CHR ''?'' \<notin> set k" "k \<noteq> []" "last k \<noteq> CHR ''/''"
    using assms(1) by auto
  obtain path where p: "(case split_once (CHR ''/'') (r @ ''/'' @ k) of Some (_, path) \<Rightarrow> path | None \<Rightarrow> []) = path"
      and path: "path = k \<or> (\<exists>p'. path = p' @ ''/'' @ k \<and> set p' \<subseteq> set r)"
    using split_once_path [of "CHR ''/''" r k] by fastforce
  have "hd (split_on (CHR ''?'') path) = path"
    using path assms(2) k(2) by (subst split_on_piece) auto
  moreover have "trim_end_char (CHR ''/'') path = path"
    using path k by (intro trim_end_char_id) auto
  moreover have "last (split_on (CHR ''/'') path) = k"
    using path last_split_on [OF k(1)] last_split_on' [OF k(1)] by auto
  ultimately show ?thesis
    unfolding link_kind_def s using assms(1) p by (simp add: Let_def)
qed

lemma strip_prefix_Some: "strip_prefix p s = Some r \<Longrightarrow> s = p @ r"
  unfolding strip_prefix_def by (metis append_take_drop_id option.distinct(1) option.inject)

lemma plain_ws: "list_all plain_char s \<Longrightarrow> list_all (\<lambda>c. char_code c < 128 \<and> \<not> is_whitespace [c]) s"
  by (auto simp: list_all_iff plain_char_def)

lemma kind_plain: "k = ''join'' \<or> k = ''link'' \<or> k = ''contact'' \<Longrightarrow> list_all plain_char (''/'' @ k)"
  by (elim disjE) (simp_all add: plain_char_def is_whitespace_def char_code_def)

lemma b64_chars:
  assumes "b64_char c"
  shows "plain_char c"
  using assms by (auto simp: b64_char_def plain_char_def is_whitespace_def char_code_def)

lemma plain_text:
  assumes "list_all plain_char t"
  shows "ascii t" and "chars t = map (\<lambda>c. [c]) t" and "trim t = t" and "\<not> list_ex is_whitespace (chars t)"
    and "CHR ''#'' \<notin> set t" and "CHR ''?'' \<notin> set t"
proof -
  show a: "ascii t"
    using assms by (auto simp: ascii_def plain_char_def char_code_def list_all_iff)
  show c: "chars t = map (\<lambda>c. [c]) t"
    using a by (rule chars_ascii)
  show "trim t = t"
  proof (rule trim_ascii_id [OF a])
    have "t \<noteq> [] \<Longrightarrow> plain_char (hd t) \<and> plain_char (last t)"
      using assms hd_in_set last_in_set by (simp add: list_all_iff)
    then show "t = [] \<or> \<not> is_whitespace [hd t] \<and> \<not> is_whitespace [last t]"
      by (auto simp: plain_char_def)
  qed
  show "\<not> list_ex is_whitespace (chars t)"
    using assms by (auto simp: c list_ex_iff list_all_iff plain_char_def)
  show "CHR ''#'' \<notin> set t" "CHR ''?'' \<notin> set t"
    using assms by (auto simp: list_all_iff plain_char_def)
qed

text \<open>What is read from a text without white space whose payload is the encoding of some bytes.\<close>

lemma parse_payload:
  assumes "b64_ok b64" and "length b \<le> MAX_PAYLOAD_BYTES" and "b \<noteq> []"
  shows "card_parse cb cr b64 (b64_encode b64 b) = card_decode cb cr b"
proof -
  let ?t = "b64_encode b64 b"
  have e: "b64_decode b64 ?t = Some b" "list_all b64_char ?t" "length ?t = (4 * length b + 2) div 3"
    using assms(1) by (simp_all add: b64_ok_def)
  have plain: "list_all plain_char ?t"
    using e(2) b64_chars by (auto simp: list_all_iff)
  have "length ?t \<le> 800" "?t \<noteq> []"
    using e(3) assms(2,3) by (auto simp: MAX_PAYLOAD_BYTES_def) (cases b; simp)
  then show ?thesis
    using plain_text [OF plain] e(1)
    by (simp add: card_parse_def Let_def rsplit_once_None MAX_TEXT_CHARS_def MAX_PAYLOAD_BYTES_def ok_or_def
        and_then_def split: sum.split)
qed

lemma parse_link:
  assumes "b64_ok b64" and "length b \<le> MAX_PAYLOAD_BYTES" and "link_base_ok base"
    and "k = ''join'' \<or> k = ''link'' \<or> k = ''contact''"
  shows "card_parse cb cr b64 (trim_end_char (CHR ''/'') base @ ''/'' @ k @ ''#'' @ b64_encode b64 b) =
    and_then (card_decode cb cr b) (\<lambda>c. if k \<noteq> link_card_kind c then Inl (KindMismatch k (link_card_kind c)) else Inr c)"
proof -
  let ?p = "b64_encode b64 b" and ?base = "trim_end_char (CHR ''/'') base"
  let ?t = "?base @ ''/'' @ k @ ''#'' @ ?p"
  have e: "b64_decode b64 ?p = Some b" "list_all b64_char ?p" "length ?p = (4 * length b + 2) div 3"
    using assms(1) by (simp_all add: b64_ok_def)
  have "list_all plain_char ?p"
    using e(2) b64_chars by (auto simp: list_all_iff)
  note p = this
  have base: "list_all plain_char ?base"
    using assms(3) trim_end_char_set(1) [of "CHR ''/''" base] by (auto simp: link_base_ok_def list_all_iff)
  have hash: "CHR ''#'' \<notin> set ?p" and q: "CHR ''?'' \<notin> set ?base"
    using plain_text(5) [OF p] plain_text(6) [OF base] .
  have "char_code (CHR ''#'') < 128 \<and> \<not> is_whitespace [CHR ''#'']"
    by (simp add: is_whitespace_def char_code_def)
  then have ws: "list_all (\<lambda>c. char_code c < 128 \<and> \<not> is_whitespace [c]) ?t"
    using plain_ws [OF p] plain_ws [OF base] plain_ws [OF kind_plain [OF assms(4)]] by simp
  then have a: "ascii ?t"
    by (simp add: ascii_def list_all_iff char_code_def)
  have "?t \<noteq> []" by simp
  then have "\<not> is_whitespace [hd ?t] \<and> \<not> is_whitespace [last ?t]"
    using ws hd_in_set [of ?t] last_in_set [of ?t] unfolding list_all_iff by blast
  then have trim: "trim ?t = ?t"
    by (intro trim_ascii_id [OF a] disjI2)
  have lk: "length k \<le> 7"
    using assms(4) by auto
  have lp: "length ?p \<le> 800"
    using e(3) assms(2) by (simp add: MAX_PAYLOAD_BYTES_def)
  have lb: "length ?base \<le> 1024"
    using assms(3) trim_end_char_set(2) [of "CHR ''/''" base] by (simp add: link_base_ok_def)
  have len: "length ?p \<le> 800" "length ?t \<le> 2048"
    using lk lp lb by simp_all
  have nows: "\<not> list_ex is_whitespace (chars ?t)"
    unfolding chars_ascii [OF a] using ws by (auto simp: list_ex_iff list_all_iff)
  have lch: "length (chars ?t) \<le> 2048"
    unfolding chars_ascii [OF a] using len(2) by simp
  obtain r where r: "?base = ''https://'' @ r"
    using assms(3) strip_prefix_Some [of "''https://''" ?base] by (auto simp only: link_base_ok_def)
  have split: "rsplit_once (CHR ''#'') ?t = Some (?base @ ''/'' @ k, ?p)"
    using rsplit_once_append [OF hash, of "?base @ ''/'' @ k"] by simp
  have kind: "link_kind (?base @ ''/'' @ k) = Inr k"
    using link_kind_of_path [OF assms(4), of r] q r by simp
  show ?thesis
    unfolding card_parse_def trim Let_def split
    using len(1) lch nows e(1) kind by (simp add: MAX_TEXT_CHARS_def MAX_PAYLOAD_BYTES_def ok_or_def)
qed

section \<open>Routes and bootstrap strings\<close>

lemma hex_piece: "hex_ok hx \<Longrightarrow> CHR '':'' \<notin> set (hex_encode hx b)"
  using hex_chars(3) by (fastforce simp: hex_ok_def list_all_iff)

lemma hex_field_encode: "hex_ok hx \<Longrightarrow> hex_field hx et context (hex_encode hx b) = Inr b"
  by (simp add: hex_field_def hex_ok_def)

lemma route_text_parts:
  assumes "hex_ok hx"
  shows "split_on (CHR '':'') (route_text hx r) =
    [''arveil-route'', ''v1'', hex_encode hx (ro_identity_id r), hex_encode hx (ro_device_id r),
     hex_encode hx (ro_credential_hash r), hex_encode hx (ro_root_public r), hex_encode hx (ro_mailbox_id r),
     hex_encode hx (ro_write_capability r), hex_encode hx (ro_hpke_public r)]"
proof -
  have s: "split_on (CHR '':'') (hex_encode hx b @ '':'' @ t) = hex_encode hx b # split_on (CHR '':'') t" for b t
    using split_on_append [OF hex_piece [OF assms]] by simp
  show ?thesis
    by (simp add: route_text_def s [simplified] split_on_piece hex_piece [OF assms])
qed

lemma splitn_append: "c \<notin> set p \<Longrightarrow> splitn (Suc (Suc n)) c (p @ c # s) = p # splitn (Suc n) c s"
  by (induction p) auto

lemma bootstrap_parts:
  assumes "hex_ok hx"
  shows "splitn 6 (CHR '':'') (realm_bootstrap hx cr r) =
    [''arveil-bootstrap'', ''v0'', hex_encode hx (realm_id_of cr (lr_signing_key r)),
     hex_encode hx (lr_signing_key r), hex_encode hx (lr_noise_public r), lr_url r]"
proof -
  have six: "splitn 6 = splitn (Suc (Suc (Suc (Suc (Suc (Suc 0))))))"
    by (simp add: eval_nat_numeral)
  have p1: "CHR '':'' \<notin> set ''arveil-bootstrap''" and p2: "CHR '':'' \<notin> set ''v0''"
    by simp_all
  have "realm_bootstrap hx cr r = ''arveil-bootstrap'' @ CHR '':'' # ''v0'' @ CHR '':'' #
      hex_encode hx (realm_id_of cr (lr_signing_key r)) @ CHR '':'' # hex_encode hx (lr_signing_key r) @ CHR '':'' #
      hex_encode hx (lr_noise_public r) @ CHR '':'' # lr_url r"
    by (simp add: realm_bootstrap_def)
  then show ?thesis
    unfolding six
    by (simp only: splitn_append [OF p1] splitn_append [OF p2] splitn_append [OF hex_piece [OF assms]] splitn.simps(2))
qed

section \<open>Properties\<close>

text \<open>C40. 
  Every card within its bounds has a payload and a link, whatever its address and name; both read back
  as that card, and a link whose path names another kind is refused as a mismatch.
\<close>

theorem card_link_roundtrip:
  assumes "cbor_codec cb" and "b64_ok b64" and "link_card_ok cr c" and "link_base_ok base"
  shows "\<exists>payload link. card_payload cb cr b64 c = Inr payload \<and> card_link cb cr b64 c base = Inr link \<and>
    card_parse cb cr b64 payload = Inr c \<and> card_parse cb cr b64 link = Inr c \<and>
    (\<forall>k\<in>{''join'', ''link'', ''contact''} - {link_card_kind c}.
       card_parse cb cr b64 (trim_end_char (CHR ''/'') base @ ''/'' @ k @ ''#'' @ payload) =
         Inl (KindMismatch k (link_card_kind c)))"
proof -
  obtain b where b: "card_payload cb cr b64 c = Inr (b64_encode b64 b)" "length b \<le> MAX_PAYLOAD_BYTES"
      "card_decode cb cr b = Inr c" "b \<noteq> []"
    using cbor_codec.card_payload_total [OF assms(1,3)] by blast
  have link: "card_parse cb cr b64 (trim_end_char (CHR ''/'') base @ ''/'' @ k @ ''#'' @ b64_encode b64 b) =
      (if k \<noteq> link_card_kind c then Inl (KindMismatch k (link_card_kind c)) else Inr c)"
    if "k \<in> {''join'', ''link'', ''contact''}" for k
    using parse_link [OF assms(2) b(2) assms(4), of k cb cr] that b(3) by auto
  show ?thesis
    using link parse_payload [OF assms(2) b(2,4), of cb cr] b(1,3) link_card_kind_cases [of c]
    by (auto simp: card_link_def)
qed

text \<open>
  A card found in a message is the whole message or one of its words, and no other word of the message
  is a different card.
\<close>

lemma find_in_words_sound:
  assumes "find_in_words parse words found = Inr res"
  shows "(\<forall>c. found = Some c \<longrightarrow> res = Some c) \<and>
    (\<forall>w\<in>set words. \<forall>c. parse (trim_matches link_trim_chars w) = Inr c \<longrightarrow> res = Some c) \<and>
    (res = found \<or> (\<exists>w\<in>set words. \<exists>c. parse (trim_matches link_trim_chars w) = Inr c \<and> res = Some c))"
  using assms
proof (induction words arbitrary: found)
  case (Cons w ws)
  show ?case
  proof (cases "parse (trim_matches link_trim_chars w)")
    case (Inl e)
    then show ?thesis
      using Cons by simp
  next
    case (Inr c)
    then have "find_in_words parse ws (Some c) = Inr res" and "found = None \<or> found = Some c"
      using Cons.prems by (auto split: option.splits if_splits)
    then show ?thesis
      using Cons.IH [of "Some c"] Inr by auto
  qed
qed simp

theorem card_find_unambiguous:
  assumes "card_find cb cr b64 text = Inr c"
  shows "card_parse cb cr b64 text = Inr c \<or>
    (\<exists>w\<in>set (split_whitespace text). card_parse cb cr b64 (trim_matches link_trim_chars w) = Inr c) \<and>
    (\<forall>w\<in>set (split_whitespace text). \<forall>d. card_parse cb cr b64 (trim_matches link_trim_chars w) = Inr d \<longrightarrow> d = c)"
proof (cases "is_ok (card_parse cb cr b64 text)")
  case True
  then show ?thesis
    using assms by (simp add: card_find_def Let_def split: if_splits)
next
  case False
  obtain found where f: "find_in_words (card_parse cb cr b64) (split_whitespace text) None = Inr found"
      and g: "(case found of Some crd \<Rightarrow> Inr crd
        | None \<Rightarrow> if \<not> list_ex is_whitespace (chars (trim text)) then card_parse cb cr b64 text else Inl NotALink) = Inr c"
    using assms False by (auto simp: card_find_def Let_def and_then_eq_Inr_iff split: if_splits)
  have "found = Some c"
    using g False by (cases found) (auto simp: is_ok_iff split: if_splits)
  with find_in_words_sound [OF f] show ?thesis
    by simp
qed

text \<open>
  A route read from a string is the route that prints as it, names an identity that derives from its
  root key, and survives printing; a contact card gives the route it describes; and the bootstrap string
  of a realm gives back the realm.
\<close>

theorem route_strings_roundtrip:
  assumes "hex_ok hx"
  shows "(length (ro_root_public r) = 32 \<and> ed_point cr (ro_root_public r) \<and>
      ro_identity_id r = identity_id cr (ro_root_public r) \<longleftrightarrow> parse_route hx et cr (route_text hx r) = Inr r) \<and>
    (card_route_ok cr k \<longrightarrow> (\<exists>s r'. card_route_text hx cr k = Inr s \<and> parse_route hx et cr s = Inr r' \<and> card_route_of r' = k)) \<and>
    (link_realm_ok cr l \<longrightarrow> realm_from_bootstrap hx et cr (realm_bootstrap hx cr l) = Inr l)"
proof (intro conjI impI)
  have p: "parse_route hx et cr (route_text hx r) =
      and_then (route_root et cr r) (\<lambda>verifying. if identity_id cr verifying \<noteq> ro_identity_id r
          then Inl (CliDomain ''route: identity id does not derive from its root key'') else Inr r)" for r
    by (cases r, hypsubst) (simp add: parse_route_def Let_def route_text_parts [OF assms] hex_field_encode [OF assms])
  show iff: "length (ro_root_public r) = 32 \<and> ed_point cr (ro_root_public r) \<and>
      ro_identity_id r = identity_id cr (ro_root_public r) \<longleftrightarrow> parse_route hx et cr (route_text hx r) = Inr r" for r
    by (auto simp: p route_root_def)
  show "\<exists>s r'. card_route_text hx cr k = Inr s \<and> parse_route hx et cr s = Inr r' \<and> card_route_of r' = k"
    if "card_route_ok cr k"
  proof -
    let ?r = "\<lparr>ro_identity_id = identity_id cr (crt_root_public k), ro_device_id = crt_device_id k,
         ro_credential_hash = crt_credential_hash k, ro_root_public = crt_root_public k,
         ro_mailbox_id = crt_mailbox_id k, ro_write_capability = crt_write_capability k, ro_hpke_public = crt_hpke_public k\<rparr>"
    have "card_route_text hx cr k = Inr (route_text hx ?r)"
      using that by (simp add: card_route_text_def root_key_def card_route_ok_def)
    moreover have "parse_route hx et cr (route_text hx ?r) = Inr ?r"
      using that iff [of ?r] by (simp add: card_route_ok_def)
    ultimately show ?thesis
      by (auto simp: card_route_of_def)
  qed
  show "realm_from_bootstrap hx et cr (realm_bootstrap hx cr l) = Inr l" if "link_realm_ok cr l"
    using that
    by (simp add: realm_from_bootstrap_def bootstrap_parse_def Let_def bootstrap_parts [OF assms]
        hex_field_encode [OF assms] link_realm_ok_def)
qed

section \<open>Witnesses\<close>

definition sample_realm :: link_realm where
  "sample_realm = \<lparr>lr_signing_key = replicate 32 9, lr_noise_public = replicate 32 8, lr_url = ''wss://relay.example.org''\<rparr>"

definition sample_route :: card_route where
  "sample_route = \<lparr>crt_device_id = replicate 16 1, crt_credential_hash = replicate 32 2, crt_root_public = replicate 32 3,
     crt_mailbox_id = replicate 16 4, crt_write_capability = replicate 32 5, crt_hpke_public = replicate 32 6\<rparr>"

lemma sample_ok: "link_realm_ok demo_crypto sample_realm" "card_route_ok demo_crypto sample_route"
  "link_card_ok demo_crypto (ContactCard sample_realm sample_route (replicate 16 7) (Some ''Ana''))"
  "link_base_ok DEFAULT_LINK_BASE"
proof -
  have url: "ascii ''wss://relay.example.org''" "ascii ''Ana''"
    by (simp_all add: ascii_def)
  show "link_realm_ok demo_crypto sample_realm"
    by (simp add: link_realm_ok_def sample_realm_def demo_crypto_def valid_url_def strip_prefix_def MAX_URL_CHARS_def
        is_whitespace_def is_control_def char_len_def char_code_def Let_def ascii_utf8 [OF url(1)])
  show "card_route_ok demo_crypto sample_route"
    by (simp add: card_route_ok_def sample_route_def demo_crypto_def)
  show "link_card_ok demo_crypto (ContactCard sample_realm sample_route (replicate 16 7) (Some ''Ana''))"
    using \<open>link_realm_ok demo_crypto sample_realm\<close> \<open>card_route_ok demo_crypto sample_route\<close>
      trim_ascii_id [OF url(2)]
    by (simp add: card_name_ok_def clean_name_def MAX_NAME_BYTES_def is_whitespace_def char_len_def Let_def
        is_control_def char_code_def ascii_utf8 [OF url(2)])
  show "link_base_ok DEFAULT_LINK_BASE"
    by (simp add: link_base_ok_def DEFAULT_LINK_BASE_def plain_char_def is_whitespace_def char_code_def
        trim_end_char_def strip_prefix_def)
qed

theorem card_link_roundtrip_witness:
  "\<exists>link. card_link rfc_cbor demo_crypto base64url (ContactCard sample_realm sample_route (replicate 16 7) (Some ''Ana''))
      DEFAULT_LINK_BASE = Inr link \<and>
    card_parse rfc_cbor demo_crypto base64url link =
      Inr (ContactCard sample_realm sample_route (replicate 16 7) (Some ''Ana''))"
  using card_link_roundtrip [OF rfc.cbor_codec_axioms base64url_ok sample_ok(3,4)] by blast

lemma payload_reads:
  assumes "cbor_codec cb" and "b64_ok b64" and "link_card_ok cr c"
  shows "\<exists>p. card_payload cb cr b64 c = Inr p \<and> card_parse cb cr b64 p = Inr c \<and> length p \<le> 800"
proof -
  obtain b where b: "card_payload cb cr b64 c = Inr (b64_encode b64 b)" "length b \<le> MAX_PAYLOAD_BYTES"
      "card_decode cb cr b = Inr c" "b \<noteq> []"
    using cbor_codec.card_payload_total [OF assms(1,3)] by blast
  moreover have "length (b64_encode b64 b) \<le> 800"
    using assms(2) b(2) by (simp add: b64_ok_def MAX_PAYLOAD_BYTES_def)
  ultimately show ?thesis
    using parse_payload [OF assms(2) b(2,4), of cb cr] by simp
qed

theorem card_find_unambiguous_witness:
  "\<exists>text. card_find rfc_cbor demo_crypto base64url text =
       Inr (ContactCard sample_realm sample_route (replicate 16 7) (Some ''Ana'')) \<and>
     (card_parse rfc_cbor demo_crypto base64url text =
        Inr (ContactCard sample_realm sample_route (replicate 16 7) (Some ''Ana'')) \<or>
      (\<forall>w\<in>set (split_whitespace text). \<forall>d.
         card_parse rfc_cbor demo_crypto base64url (trim_matches link_trim_chars w) = Inr d \<longrightarrow>
         d = ContactCard sample_realm sample_route (replicate 16 7) (Some ''Ana'')))"
proof -
  let ?c = "ContactCard sample_realm sample_route (replicate 16 7) (Some ''Ana'')"
  obtain p where "card_parse rfc_cbor demo_crypto base64url p = Inr ?c" and "length p \<le> 800"
    using payload_reads [OF rfc.cbor_codec_axioms base64url_ok sample_ok(3)] by blast
  then have "card_find rfc_cbor demo_crypto base64url p = Inr ?c"
    by (simp add: card_find_def MAX_MESSAGE_BYTES_def)
  with card_find_unambiguous [OF this] show ?thesis
    by blast
qed

theorem route_strings_roundtrip_witness:
  "hex_ok base16 \<and> card_route_ok demo_crypto sample_route \<and>
   realm_from_bootstrap base16 \<lparr>hex_error = (\<lambda>_. ''bad digit''), point_error = (\<lambda>_. ''bad point'')\<rparr> demo_crypto
     (realm_bootstrap base16 demo_crypto sample_realm) = Inr sample_realm"
  using route_strings_roundtrip [OF base16_ok, of _ demo_crypto _ sample_route sample_realm] sample_ok base16_ok by blast

end
