(* ===== verification/App_History.thy ===== *)
theory App_History
  imports App_Links Delivery Attachments Client_Archive
begin

text \<open>
  What a screen reads of a conversation: the queries of \<open>core/crates/arveil-app/src/lib.rs\<close> over the local
  store (\<open>history_page\<close>, \<open>search_history\<close>, \<open>mark_read\<close>, the summaries of conversations and peers, archived
  conversations) and the attachment summary of \<open>attachment_ui.rs\<close>.

  \<open>char::to_lowercase\<close> and \<open>String::from_utf8_lossy\<close>, which rest on the tables of Unicode, are the record
  \<open>text_tables\<close>; the texts of SQL errors are an argument.

  Shown: a page is the events asked for with a cursor exactly when older ones exist; a search that reads
  in batches finds what filtering the window in one pass finds; an event is shown as one's own exactly
  when this identity wrote it.
\<close>

section \<open>Local reads\<close>

record local_read =
  lc_client :: client
  lc_delivery :: delivery
  lc_identity_id :: "bytes option"
  lc_root_public :: "bytes option"

record text_tables =
  to_lowercase :: "string \<Rightarrow> string list"
  from_utf8_lossy :: "bytes \<Rightarrow> string"

definition MAX_HISTORY_PAGE :: nat where "MAX_HISTORY_PAGE = 200"
definition MAX_SEARCH_SCAN :: nat where "MAX_SEARCH_SCAN = 5000"
definition MAX_ATTACHMENT_BYTES :: nat where "MAX_ATTACHMENT_BYTES = MAX_FILE_BYTES - 16"

section \<open>Attachments\<close>

datatype attachment_display =
    AttPending | AttTransferring | AttReady | AttSent | AttCancelled | AttUnavailable | AttExpired | AttInvalid | AttLegacy

record attachment_summary =
  as_name :: string
  as_size :: u64
  as_outgoing :: bool
  as_state :: attachment_display
  as_transferred :: u64
  as_total :: u64

definition attachment_display_of :: "string \<Rightarrow> attachment_display" where
  "attachment_display_of v =
     (if v = ''pending'' then AttPending else if v = ''transferring'' then AttTransferring
      else if v = ''ready'' then AttReady else if v = ''sent'' then AttSent else if v = ''cancelled'' then AttCancelled
      else if v = ''unavailable'' then AttUnavailable else if v = ''expired'' then AttExpired else AttInvalid)"

definition checked_descriptor :: "cbor \<Rightarrow> (attachment_error \<Rightarrow> string) \<Rightarrow> bytes \<Rightarrow> bool \<Rightarrow> cli_error + file_descriptor" where
  "checked_descriptor cb txt b remote =
     and_then (map_err (\<lambda>e. CliProtocol (''attachment: '' @ txt e)) (descriptor_decode cb b)) (\<lambda>d.
     if MAX_ATTACHMENT_BYTES < unat (fd_size d) \<or> length (fd_file_key d) \<noteq> 32 \<or> length (fd_nonce d) \<noteq> 12
        \<or> length (fd_ciphertext_hash d) \<noteq> 32
        \<or> (remote \<and> (length (fd_blob_id d) \<noteq> 16 \<or> length (fd_read_capability d) \<noteq> 32))
     then Inl (CliDomain ''invalid attachment descriptor'') else Inr d)"

definition invalid_name :: string where
  "invalid_name = ''Adjunto no v'' @ [char_of (195::nat), char_of (161::nat)] @ ''lido''"

fun contains_str :: "string \<Rightarrow> string \<Rightarrow> bool" where
  "contains_str needle [] \<longleftrightarrow> needle = []"
| "contains_str needle (c # s) \<longleftrightarrow> take (length needle) (c # s) = needle \<or> contains_str needle s"

definition attachment_summary_of ::
  "cbor \<Rightarrow> (attachment_error \<Rightarrow> string) \<Rightarrow> delivery \<Rightarrow> bytes \<Rightarrow> string \<Rightarrow> bytes \<Rightarrow> sql_error + attachment_summary option" where
  "attachment_summary_of cb txt del event kind body =
     and_then (attachment event del) (\<lambda>found.
     Inr (case found of
        Some row \<Rightarrow> Some \<lparr>as_name = arow_name row, as_size = arow_size row, as_outgoing = arow_outgoing row,
          as_state = attachment_display_of (arow_state row), as_transferred = arow_offset row, as_total = arow_size row + 16\<rparr>
      | None \<Rightarrow>
          if kind = ''file-pending'' then
            Some (case checked_descriptor cb txt body True of
                    Inr d \<Rightarrow> \<lparr>as_name = safe_name d, as_size = fd_size d, as_outgoing = False, as_state = AttPending,
                      as_transferred = 0, as_total = fd_size d + 16\<rparr>
                  | Inl _ \<Rightarrow> \<lparr>as_name = invalid_name, as_size = 0, as_outgoing = False, as_state = AttInvalid,
                      as_transferred = 0, as_total = 0\<rparr>)
          else if contains_str ''file'' kind then
            Some \<lparr>as_name = ''Adjunto anterior'', as_size = 0, as_outgoing = (kind = ''sent-file''), as_state = AttLegacy,
              as_transferred = 0, as_total = 0\<rparr>
          else None))"

section \<open>One event\<close>

record history_event =
  he_cursor :: int
  he_event_id :: bytes
  he_kind :: string
  he_body :: bytes
  he_delivery_states :: "(bytes \<times> delivery_label) list"
  he_attachment :: "attachment_summary option"
  he_created_at :: int
  he_sender_identity :: "bytes option"
  he_sender_label :: "string option"
  he_own :: bool
  he_notice :: "device_change option"

definition identity_label :: "client \<Rightarrow> bytes \<Rightarrow> string" where
  "identity_label s ident = (case contact ident s of Some c \<Rightarrow> contact_label c | None \<Rightarrow> hex_of (take 4 ident))"

definition sent_here :: "string \<Rightarrow> bool" where
  "sent_here kind \<longleftrightarrow> kind \<in> set OWN_KINDS"

record attribution =
  at_by_identity :: "bytes option"
  at_by_label :: "string option"
  at_by_own :: bool

definition attribution_of :: "local_read \<Rightarrow> bytes \<Rightarrow> event_row \<Rightarrow> attribution" where
  "attribution_of l grp row =
     (let ident = (case (ev_sender_identity row, ev_sender_device row) of
            (Some i, _) \<Rightarrow> Some i
          | (None, Some dev) \<Rightarrow> device_identity grp dev (lc_client l)
          | (None, None) \<Rightarrow> if sent_here (ev_kind row) then lc_identity_id l else None);
          own = (sent_here (ev_kind row) \<or> (ident \<noteq> None \<and> ident = lc_identity_id l))
      in \<lparr>at_by_identity = ident,
          at_by_label = (case ident of Some i \<Rightarrow> if \<not> own then Some (identity_label (lc_client l) i) else None | None \<Rightarrow> None),
          at_by_own = own\<rparr>)"

record texts =
  tx_sql :: "sql_error \<Rightarrow> string"
  tx_attachment :: "attachment_error \<Rightarrow> string"

definition history_event_of :: "cbor \<Rightarrow> texts \<Rightarrow> local_read \<Rightarrow> bytes \<Rightarrow> int \<Rightarrow> event_row \<Rightarrow> cli_error + history_event" where
  "history_event_of cb tx l grp now row =
     (let states = (if ev_kind row = ''sent'' \<or> ev_kind row = ''sent-file''
            then states_for_event (ev_event_id row) now (lc_delivery l) else []);
          by_whom = attribution_of l grp row;
          notice = (if ev_kind row = DEVICES_CHANGED then device_change_decode cb (ev_body row) else None)
      in and_then (map_err (\<lambda>e. CliStorage (''sqlite: '' @ tx_sql tx e))
           (attachment_summary_of cb (tx_attachment tx) (lc_delivery l) (ev_event_id row) (ev_kind row) (ev_body row))) (\<lambda>att.
         Inr \<lparr>he_cursor = ev_id row, he_event_id = ev_event_id row, he_kind = ev_kind row, he_body = ev_body row,
              he_delivery_states = states, he_attachment = att, he_created_at = ev_created_at row,
              he_sender_identity = at_by_identity by_whom, he_sender_label = at_by_label by_whom,
              he_own = at_by_own by_whom, he_notice = notice\<rparr>))"

section \<open>Pages\<close>

record history_page =
  hp_group_id :: bytes
  hp_events :: "history_event list"
  hp_next :: "int option"

definition clamp :: "nat \<Rightarrow> nat \<Rightarrow> nat \<Rightarrow> nat" where
  "clamp lo hi n = (if n < lo then lo else if hi < n then hi else n)"

definition history_page_of ::
  "cbor \<Rightarrow> texts \<Rightarrow> local_read \<Rightarrow> int \<Rightarrow> bytes \<Rightarrow> int option \<Rightarrow> nat \<Rightarrow> cli_error + history_page" where
  "history_page_of cb tx l now grp before limit0 =
     (let limit = clamp 1 MAX_HISTORY_PAGE limit0;
          rows0 = events_page grp before (limit + 1) (lc_delivery l);
          (rows, nxt) = (if limit < length rows0 then (take limit rows0, Some (ev_id (last (take limit rows0)))) else (rows0, None))
      in and_then (collect_results (map (history_event_of cb tx l grp now) (rev rows))) (\<lambda>evs.
         Inr \<lparr>hp_group_id = grp, hp_events = evs, hp_next = nxt\<rparr>))"

section \<open>Search\<close>

definition combining :: "string \<Rightarrow> bool" where
  "combining ch = (case map char_code ch of
     [a, b] \<Rightarrow> (a = 204 \<and> 128 \<le> b) \<or> (a = 205 \<and> b \<le> 175) | _ \<Rightarrow> False)"

text \<open>The accented letters of the source, all in the block that UTF-8 writes with a first byte of 195.\<close>

definition strip_accent :: "string \<Rightarrow> string" where
  "strip_accent ch = (case map char_code ch of
     [a, b] \<Rightarrow>
       if a \<noteq> 195 then ch
       else if b \<in> {161, 160, 164, 162, 163, 165} then ''a''
       else if b \<in> {169, 168, 171, 170} then ''e''
       else if b \<in> {173, 172, 175, 174} then ''i''
       else if b \<in> {179, 178, 182, 180, 181} then ''o''
       else if b \<in> {186, 185, 188, 187} then ''u''
       else if b = 177 then ''n''
       else if b = 167 then ''c''
       else ch
   | _ \<Rightarrow> ch)"

definition fold_for_search :: "text_tables \<Rightarrow> string \<Rightarrow> string" where
  "fold_for_search tt text =
     concat (map strip_accent (filter (\<lambda>ch. \<not> combining ch) (concat (map (to_lowercase tt) (chars text)))))"

definition search_hit :: "text_tables \<Rightarrow> string \<Rightarrow> event_row \<Rightarrow> bool" where
  "search_hit tt needle row \<longleftrightarrow>
     (ev_kind row = ''sent'' \<or> ev_kind row = ''received'') \<and>
     contains_str needle (fold_for_search tt (from_utf8_lossy tt (ev_body row)))"

text \<open>The rows of one batch: how many were read, where reading stands, what was found and whether the page
  is full.\<close>

fun search_rows ::
  "(event_row \<Rightarrow> 'e + 'h) \<Rightarrow> (event_row \<Rightarrow> bool) \<Rightarrow> nat \<Rightarrow> event_row list \<Rightarrow> nat \<times> int option \<times> 'h list \<Rightarrow>
   'e + bool \<times> nat \<times> int option \<times> 'h list" where
  "search_rows render hit limit [] acc = Inr (False, acc)"
| "search_rows render hit limit (row # rows) (scanned, cur, found) =
     (if hit row then
        and_then (render row) (\<lambda>h.
          if length (found @ [h]) = limit then Inr (True, scanned + 1, Some (ev_id row), found @ [h])
          else search_rows render hit limit rows (scanned + 1, Some (ev_id row), found @ [h]))
      else search_rows render hit limit rows (scanned + 1, Some (ev_id row), found))"

lemma search_rows_scanned:
  "search_rows render hit limit rows (n, c, f) = Inr (False, n', c', f') \<Longrightarrow> n' = n + length rows"
proof (induction rows arbitrary: n c f)
  case (Cons row rows)
  then show ?case
    by (auto simp: and_then_eq_Inr_iff split: if_splits) (metis add_Suc)+
qed simp

function search_loop ::
  "(event_row \<Rightarrow> 'e + 'h) \<Rightarrow> (event_row \<Rightarrow> bool) \<Rightarrow> nat \<Rightarrow> (int option \<Rightarrow> nat \<Rightarrow> event_row list) \<Rightarrow>
   nat \<times> int option \<times> 'h list \<Rightarrow> 'e + 'h list \<times> int option" where
  "search_loop render hit limit page (scanned, cur, found) =
     (if scanned < MAX_SEARCH_SCAN then
        let batch = min (MAX_SEARCH_SCAN - scanned) MAX_HISTORY_PAGE; rows = page cur batch
        in case search_rows render hit limit rows (scanned, cur, found) of
             Inl e \<Rightarrow> Inl e
           | Inr (True, _, cur', found') \<Rightarrow> Inr (found', cur')
           | Inr (False, scanned', cur', found') \<Rightarrow>
               if length rows < batch then Inr (found', None)
               else search_loop render hit limit page (scanned', cur', found')
      else Inr (found, cur))"
  by pat_completeness auto
termination
  by (relation "measure (\<lambda>(render, hit, limit, page, scanned, _). MAX_SEARCH_SCAN - scanned)")
    (auto simp: MAX_HISTORY_PAGE_def dest: search_rows_scanned)

declare search_loop.simps [simp del]

definition search_history ::
  "cbor \<Rightarrow> texts \<Rightarrow> text_tables \<Rightarrow> local_read \<Rightarrow> int \<Rightarrow> bytes \<Rightarrow> string \<Rightarrow> int option \<Rightarrow> nat \<Rightarrow> cli_error + history_page" where
  "search_history cb tx tt l now grp text before limit0 =
     (let needle = fold_for_search tt (trim text) in
      if needle = [] then Inr \<lparr>hp_group_id = grp, hp_events = [], hp_next = None\<rparr>
      else and_then (search_loop (history_event_of cb tx l grp now) (search_hit tt needle) (clamp 1 MAX_HISTORY_PAGE limit0)
        (\<lambda>cur batch. events_page grp cur batch (lc_delivery l)) (0, before, [])) (\<lambda>(evs, nxt).
        Inr \<lparr>hp_group_id = grp, hp_events = evs, hp_next = nxt\<rparr>))"

section \<open>Marking, summaries and archives\<close>

record read_marker =
  rm_cursor :: int
  rm_unread :: nat

definition mark_read_query :: "bytes \<Rightarrow> int \<Rightarrow> local_read \<Rightarrow> (sql_error + read_marker) \<times> local_read" where
  "mark_read_query grp cur l =
     (case mark_read grp cur (lc_delivery l) of
        (Inl e, del) \<Rightarrow> (Inl e, l\<lparr>lc_delivery := del\<rparr>)
      | (Inr c, del) \<Rightarrow> (Inr \<lparr>rm_cursor = c, rm_unread = unread_count grp (lc_identity_id l) del\<rparr>, l\<lparr>lc_delivery := del\<rparr>))"

record peer_summary =
  psu_identity_id :: bytes
  psu_device_id :: bytes
  psu_label :: string
  psu_named :: bool
  psu_own :: bool
  psu_verified :: bool
  psu_verified_how :: "verified_how option"
  psu_safety_number :: "string option"
  psu_routable :: bool
  psu_revoked :: bool

definition peer_summary_of :: "crypto \<Rightarrow> local_read \<Rightarrow> peer \<Rightarrow> peer_summary" where
  "peer_summary_of cr l p =
     (let known = contact (pe_identity p) (lc_client l);
          own = (Some (pe_identity p) = lc_identity_id l);
          root = (case known of Some c \<Rightarrow> co_root_public c | None \<Rightarrow> pe_root_public p)
      in \<lparr>psu_identity_id = pe_identity p, psu_device_id = pe_device_id p,
          psu_label = (case known of Some c \<Rightarrow> contact_label c | None \<Rightarrow> hex_of (take 4 (pe_identity p))),
          psu_named = (case known of Some c \<Rightarrow> co_name c \<noteq> None | None \<Rightarrow> False), psu_own = own,
          psu_verified = (case known of Some c \<Rightarrow> co_verified c | None \<Rightarrow> False),
          psu_verified_how = Option.bind known co_verified_how,
          psu_safety_number = (case lc_root_public l of
              Some mine \<Rightarrow> if \<not> own \<and> root \<noteq> [] then Some (safety_number cr mine root) else None
            | None \<Rightarrow> None),
          psu_routable = routable p, psu_revoked = pe_revoked p\<rparr>)"

definition conversation_peers :: "crypto \<Rightarrow> local_read \<Rightarrow> bytes \<Rightarrow> cli_error + peer_summary list" where
  "conversation_peers cr l grp =
     and_then (ok_or (find (\<lambda>c. cn_group_id c = grp) (conversations (lc_client l))) (CliDomain ''no such conversation''))
       (\<lambda>c. Inr (map (peer_summary_of cr l) (cn_peers c)))"

section \<open>Searching in batches is filtering the window\<close>

definition last_cursor :: "int option \<Rightarrow> event_row list \<Rightarrow> int option" where
  "last_cursor c rows = (if rows = [] then c else Some (ev_id (last rows)))"

text \<open>What a batch gives, as one filter: the first \<open>m\<close> hits, rendered; full when there are so many.\<close>

lemma search_rows_spec:
  assumes "length f < limit"
  shows "case collect_results (map render (take (limit - length f) (filter hit rows))) of
      Inl e \<Rightarrow> search_rows render hit limit rows (n, c, f) = Inl e
    | Inr r \<Rightarrow>
        if limit - length f \<le> length (filter hit rows)
        then \<exists>n'. search_rows render hit limit rows (n, c, f) =
               Inr (True, n', Some (ev_id (filter hit rows ! (limit - length f - 1))), f @ r)
        else search_rows render hit limit rows (n, c, f) = Inr (False, n + length rows, last_cursor c rows, f @ r)"
  using assms
proof (induction rows arbitrary: n c f)
  case Nil
  then show ?case
    by (simp add: last_cursor_def)
next
  case (Cons row rows)
  show ?case
  proof (cases "hit row")
    case False
    then show ?thesis
      using Cons.IH [OF Cons.prems, of "n + 1" "Some (ev_id row)"]
      by (auto simp: last_cursor_def split: sum.splits if_splits)
  next
    case True
    obtain m where m: "limit - length f = Suc m"
      using Cons.prems by (cases "limit - length f") auto
    show ?thesis
    proof (cases "render row")
      case (Inl e)
      then show ?thesis
        using True m by simp
    next
      case (Inr h)
      show ?thesis
      proof (cases "m = 0")
        case True
        then show ?thesis
          using \<open>hit row\<close> Inr m by (auto simp: and_then_def)
      next
        case False
        then have "length (f @ [h]) < limit" and rest: "limit - length (f @ [h]) = m"
          using m by auto
        note ih = Cons.IH [OF this(1), of "n + 1" "Some (ev_id row)"]
        show ?thesis
          using ih \<open>hit row\<close> Inr m False rest
          by (auto simp: and_then_def last_cursor_def nth_Cons' split: sum.splits if_splits)
      qed
    qed
  qed
qed

text \<open>The pages of a list: what is read from a cursor is what follows it.\<close>

definition pages_of :: "(int option \<Rightarrow> nat \<Rightarrow> event_row list) \<Rightarrow> int option \<Rightarrow> event_row list \<Rightarrow> bool" where
  "pages_of page c ys \<longleftrightarrow>
     (\<forall>k. page c k = take k ys) \<and>
     (\<forall>xs zs k. ys = xs @ zs \<and> xs \<noteq> [] \<longrightarrow> page (Some (ev_id (last xs))) k = take k zs)"

lemma pages_of_drop:
  assumes "pages_of page c ys" and "0 < b" and "b \<le> length ys"
  shows "pages_of page (last_cursor c (take b ys)) (drop b ys)"
proof -
  have "page (Some (ev_id (last (take b ys @ xs)))) k = take k zs" if "drop b ys = xs @ zs" for xs zs k
  proof -
    have "ys = (take b ys @ xs) @ zs"
      using that by (metis append.assoc append_take_drop_id)
    moreover have "take b ys @ xs \<noteq> []"
      using assms(2,3) by auto
    ultimately show ?thesis
      using assms(1) unfolding pages_of_def by blast
  qed
  moreover have "last_cursor c (take b ys) = Some (ev_id (last (take b ys)))"
    using assms(2,3) by (auto simp: last_cursor_def)
  ultimately show ?thesis
    unfolding pages_of_def by (metis append_Nil append_Nil2 last_appendR)
qed

definition search_spec ::
  "(event_row \<Rightarrow> 'e + 'h) \<Rightarrow> (event_row \<Rightarrow> bool) \<Rightarrow> nat \<Rightarrow> nat \<Rightarrow> int option \<Rightarrow> event_row list \<Rightarrow> 'e + 'h list \<times> int option" where
  "search_spec render hit m w c ys =
     (let hits = filter hit (take w ys) in
      case collect_results (map render (take m hits)) of
        Inl e \<Rightarrow> Inl e
      | Inr r \<Rightarrow> Inr (r, if m \<le> length hits then Some (ev_id (hits ! (m - 1)))
                        else if length ys < w then None else last_cursor c (take w ys)))"

lemma search_spec_step:
  assumes b: "0 < b" "b \<le> w" "b \<le> length ys"
    and part: "length (filter hit (take b ys)) < m"
    and r: "collect_results (map render (filter hit (take b ys))) = Inr r"
  shows "search_spec render hit m w c ys =
    (case search_spec render hit (m - length r) (w - b) (last_cursor c (take b ys)) (drop b ys) of
       Inl e \<Rightarrow> Inl e | Inr (r', nxt) \<Rightarrow> Inr (r @ r', nxt))"
proof -
  define hs where "hs = filter hit (take b ys)"
  define rest where "rest = filter hit (take (w - b) (drop b ys))"
  have "take w ys = take b ys @ take (w - b) (drop b ys)"
    using b(2) by (metis le_add_diff_inverse take_add)
  then have window: "filter hit (take w ys) = hs @ rest"
    and cur: "last_cursor (last_cursor c (take b ys)) (take (w - b) (drop b ys)) = last_cursor c (take w ys)"
    using b by (auto simp: hs_def rest_def last_cursor_def)
  have lr: "length r = length hs"
    using collect_results_length [OF r] by (simp add: hs_def)
  have pos: "m \<le> length (hs @ rest) \<longleftrightarrow> m - length r \<le> length rest"
    "length ys < w \<longleftrightarrow> length (drop b ys) < w - b"
    "(hs @ rest) ! (m - 1) = rest ! (m - length r - 1)"
    using part b lr by (auto simp: nth_append hs_def [symmetric])
  have taken: "take m (hs @ rest) = hs @ take (m - length r) rest"
    using part lr by (simp add: hs_def [symmetric])
  show ?thesis
    using r unfolding search_spec_def Let_def window cur taken hs_def [symmetric] rest_def [symmetric] pos
    by (simp add: collect_results_append split: sum.splits)
qed

lemma search_loop_batch:
  assumes "pages_of page c ys" and "n < MAX_SEARCH_SCAN" and "b = min (MAX_SEARCH_SCAN - n) MAX_HISTORY_PAGE"
  shows "search_loop render hit limit page (n, c, f) =
    (case search_rows render hit limit (take b ys) (n, c, f) of
       Inl e \<Rightarrow> Inl e
     | Inr (True, _, c', f') \<Rightarrow> Inr (f', c')
     | Inr (False, n', c', f') \<Rightarrow>
         if length (take b ys) < b then Inr (f', None) else search_loop render hit limit page (n', c', f'))"
proof -
  have "page c b = take b ys"
    using assms(1) by (simp add: pages_of_def)
  then show ?thesis
    using assms(2) by (subst search_loop.simps) (simp only: if_True Let_def assms(3) [symmetric])
qed

text \<open>A batch that fills the page, fails or reaches the start settles the search.\<close>

lemma search_loop_settled:
  assumes "pages_of page c ys" and "length f < limit" and n: "n < MAX_SEARCH_SCAN"
    and b: "b = min (MAX_SEARCH_SCAN - n) MAX_HISTORY_PAGE"
    and settled: "limit - length f \<le> length (filter hit (take b ys)) \<or> length ys < b \<or>
      (\<exists>e. collect_results (map render (filter hit (take b ys))) = Inl e)"
  shows "search_loop render hit limit page (n, c, f) =
    (case search_spec render hit (limit - length f) (MAX_SEARCH_SCAN - n) c ys of
       Inl e \<Rightarrow> Inl e | Inr (r, nxt) \<Rightarrow> Inr (f @ r, nxt))"
proof -
  let ?w = "MAX_SEARCH_SCAN - n" and ?m = "limit - length f"
  define hs where "hs = filter hit (take b ys)"
  have "take ?w ys = take b ys @ take (?w - b) (drop b ys)"
    using b by (metis le_add_diff_inverse min.cobounded1 take_add)
  then have window: "filter hit (take ?w ys) = hs @ filter hit (take (?w - b) (drop b ys))"
    by (simp add: hs_def)
  note spec = search_rows_spec [OF assms(2), of render hit "take b ys" n c, folded hs_def]
  note loop = search_loop_batch [OF assms(1) n b]
  consider "?m \<le> length hs" | "\<not> ?m \<le> length hs" "length ys < b"
    | e where "\<not> ?m \<le> length hs" "collect_results (map render hs) = Inl e"
    using settled unfolding hs_def [symmetric] by blast
  then show ?thesis
  proof cases
    case 1
    moreover have "?m - 1 < length hs"
      using 1 assms(2) by linarith
    ultimately show ?thesis
      using spec window unfolding loop search_spec_def
      by (auto simp: Let_def nth_append split: sum.splits)
  next
    case 2
    then have "take ?w ys = ys" "take b ys = ys" "length ys < ?w"
      using b by simp_all
    then show ?thesis
      using 2 spec unfolding loop by (auto simp: search_spec_def hs_def split: sum.splits)
  next
    case 3
    then show ?thesis
      using spec window unfolding loop search_spec_def by (simp add: Let_def collect_results_append)
  qed
qed

lemma search_loop_spec:
  assumes "pages_of page c ys" and "length f < limit" and "n \<le> MAX_SEARCH_SCAN"
  shows "search_loop render hit limit page (n, c, f) =
    (case search_spec render hit (limit - length f) (MAX_SEARCH_SCAN - n) c ys of
       Inl e \<Rightarrow> Inl e | Inr (r, nxt) \<Rightarrow> Inr (f @ r, nxt))"
  using assms
proof (induction "MAX_SEARCH_SCAN - n" arbitrary: n c f ys rule: less_induct)
  case less
  let ?w = "MAX_SEARCH_SCAN - n" and ?m = "limit - length f"
  define b where "b = min ?w MAX_HISTORY_PAGE"
  let ?hs = "filter hit (take b ys)"
  consider "n = MAX_SEARCH_SCAN"
    | "n < MAX_SEARCH_SCAN" "?m \<le> length ?hs \<or> length ys < b \<or> (\<exists>e. collect_results (map render ?hs) = Inl e)"
    | r where "n < MAX_SEARCH_SCAN" "\<not> ?m \<le> length ?hs" "\<not> length ys < b" "collect_results (map render ?hs) = Inr r"
    using le_neq_implies_less [OF less.prems(3)] by (cases "collect_results (map render ?hs)") blast+
  then show ?case
  proof cases
    case 1
    then show ?thesis
      using less.prems by (simp add: search_spec_def last_cursor_def search_loop.simps)
  next
    case 2
    then show ?thesis
      using less.prems by (intro search_loop_settled [OF _ _ _ b_def])
  next
    case 3
    have b: "0 < b" "b \<le> ?w"
      using 3(1) by (simp_all add: b_def MAX_HISTORY_PAGE_def)
    have lr: "length r = length ?hs"
      using collect_results_length [OF 3(4)] by simp
    let ?c = "last_cursor c (take b ys)"
    have "search_rows render hit limit (take b ys) (n, c, f) = Inr (False, n + b, ?c, f @ r)"
      using search_rows_spec [OF less.prems(2), of render hit "take b ys" n c] 3 by simp
    then have "search_loop render hit limit page (n, c, f) = search_loop render hit limit page (n + b, ?c, f @ r)"
      using search_loop_batch [OF less.prems(1) 3(1) b_def, of render hit limit f] 3(3) by simp
    also have "\<dots> = (case search_spec render hit (limit - length (f @ r)) (MAX_SEARCH_SCAN - (n + b)) ?c (drop b ys) of
        Inl e \<Rightarrow> Inl e | Inr (r', nxt) \<Rightarrow> Inr ((f @ r) @ r', nxt))"
      using less.prems b 3 lr by (intro less.hyps pages_of_drop) auto
    finally show ?thesis
      using search_spec_step [of b ?w ys hit ?m render r c] b 3 by (simp split: sum.splits)
  qed
qed

section \<open>Pages and searches over the store\<close>

text \<open>The events of a conversation a reader at \<open>before\<close> has yet to see, newest first.\<close>

definition older_events :: "bytes \<Rightarrow> int option \<Rightarrow> delivery \<Rightarrow> event_row list" where
  "older_events grp before d =
     filter (\<lambda>e. case before of None \<Rightarrow> True | Some b \<Rightarrow> ev_id e < b) (rev (group_events grp d))"

lemma events_page_older: "events_page grp before k d = take k (older_events grp before d)"
  by (simp add: events_page_alt older_events_def)

lemma older_events_descending:
  "distinct (map ev_id (events d)) \<Longrightarrow> sorted_wrt (\<lambda>a b. ev_id b < ev_id a) (older_events grp before d)"
  unfolding older_events_def by (intro sorted_wrt_filter group_events_descending)

lemma older_events_from:
  assumes d: "distinct (map ev_id (events d))" and split: "older_events grp before d = xs @ zs" and ne: "xs \<noteq> []"
  shows "older_events grp (Some (ev_id (last xs))) d = zs"
proof -
  have sorted: "sorted_wrt (\<lambda>a b. ev_id b < ev_id a) (xs @ zs)"
    using older_events_descending [OF d] split by metis
  have "ev_id (last xs) < b" if "before = Some b" for b
  proof -
    have "last xs \<in> set (older_events grp before d)"
      using ne split by simp
    then show ?thesis
      using that by (simp add: older_events_def)
  qed
  then have "older_events grp (Some (ev_id (last xs))) d =
      filter (\<lambda>e. ev_id e < ev_id (last xs)) (older_events grp before d)"
    unfolding older_events_def filter_filter by (intro filter_cong) (auto split: option.splits)
  then show ?thesis
    using filter_below_last [OF sorted ne] split by simp
qed

lemma store_pages:
  assumes "distinct (map ev_id (events d))"
  shows "pages_of (\<lambda>cur k. events_page grp cur k d) before (older_events grp before d)"
  unfolding pages_of_def events_page_older using older_events_from [OF assms] by metis

lemma reachable_ids_distinct:
  "delivery_step\<^sup>*\<^sup>* delivery_new d \<Longrightarrow> distinct (map ev_id (events d))"
  using delivery_reachable_inv by (auto simp: delivery_inv_def)

lemma clamp_page: "0 < clamp 1 MAX_HISTORY_PAGE n"
  by (simp add: clamp_def MAX_HISTORY_PAGE_def)

text \<open>A page of history: with a limit between one and \<open>MAX_HISTORY_PAGE\<close>, the page holds the newest events
  older than the cursor, up to the limit, each rendered, in the order they were written (the oldest of
  them first); it offers a further cursor exactly when older events remain, and the page at that cursor
  starts with the newest of those.\<close>

theorem history_page_correct:
  assumes "delivery_step\<^sup>*\<^sup>* delivery_new (lc_delivery l)"
  shows "let n = clamp 1 MAX_HISTORY_PAGE limit; ys = older_events grp before (lc_delivery l) in
    (\<forall>e. collect_results (map (history_event_of cb tx l grp now) (rev (take n ys))) = Inl e \<longrightarrow>
           history_page_of cb tx l now grp before limit = Inl e) \<and>
    (\<forall>evs. collect_results (map (history_event_of cb tx l grp now) (rev (take n ys))) = Inr evs \<longrightarrow>
       (\<exists>p. history_page_of cb tx l now grp before limit = Inr p \<and> hp_group_id p = grp \<and> hp_events p = evs \<and>
          length evs \<le> MAX_HISTORY_PAGE \<and>
          (hp_next p = None \<longleftrightarrow> length ys \<le> n) \<and>
          (\<forall>c. hp_next p = Some c \<longrightarrow> older_events grp (Some c) (lc_delivery l) = drop n ys)))"
proof -
  define n where "n = clamp 1 MAX_HISTORY_PAGE limit"
  define ys where "ys = older_events grp before (lc_delivery l)"
  have n: "0 < n" "n \<le> MAX_HISTORY_PAGE"
    by (simp_all add: n_def clamp_def MAX_HISTORY_PAGE_def)
  have rows: "events_page grp before (n + 1) (lc_delivery l) = take (n + 1) ys"
    by (simp add: events_page_older ys_def)
  have page: "history_page_of cb tx l now grp before limit =
      and_then (collect_results (map (history_event_of cb tx l grp now) (rev (take n ys)))) (\<lambda>evs.
        Inr \<lparr>hp_group_id = grp, hp_events = evs, hp_next = if n < length ys then Some (ev_id (last (take n ys))) else None\<rparr>)"
    unfolding history_page_of_def n_def [symmetric] Let_def rows by (auto simp: min_def)
  have "older_events grp (Some (ev_id (last (take n ys)))) (lc_delivery l) = drop n ys" if "n < length ys"
    using older_events_from [OF reachable_ids_distinct [OF assms(1)], of grp before "take n ys" "drop n ys"] n that
    unfolding ys_def [symmetric] by fastforce
  moreover have "length evs \<le> MAX_HISTORY_PAGE"
    if "collect_results (map (history_event_of cb tx l grp now) (rev (take n ys))) = Inr evs" for evs
    using collect_results_length [OF that] n by simp
  ultimately show ?thesis
    unfolding page Let_def n_def [symmetric] ys_def [symmetric] by auto
qed

text \<open>C38. Searching reads in batches and stops at a full page, at the start of the conversation or after
  \<open>MAX_SEARCH_SCAN\<close> events. The result is what one pass over the newest \<open>MAX_SEARCH_SCAN\<close> older events
  gives: the first matches, newest first, each rendered; and the cursor is that of the last match of a
  full page, nothing when the window reached the start, and otherwise the last event read. A search for
  nothing finds nothing.\<close>

theorem search_history_is_filter:
  assumes "delivery_step\<^sup>*\<^sup>* delivery_new (lc_delivery l)"
  shows "search_history cb tx tt l now grp text before limit =
    (let needle = fold_for_search tt (trim text) in
     if needle = [] then Inr \<lparr>hp_group_id = grp, hp_events = [], hp_next = None\<rparr>
     else case search_spec (history_event_of cb tx l grp now) (search_hit tt needle) (clamp 1 MAX_HISTORY_PAGE limit)
            MAX_SEARCH_SCAN before (older_events grp before (lc_delivery l)) of
            Inl e \<Rightarrow> Inl e
          | Inr (evs, nxt) \<Rightarrow> Inr \<lparr>hp_group_id = grp, hp_events = evs, hp_next = nxt\<rparr>)"
proof -
  have "search_loop render hit (clamp 1 MAX_HISTORY_PAGE limit) (\<lambda>cur k. events_page grp cur k (lc_delivery l)) (0, before, []) =
      search_spec render hit (clamp 1 MAX_HISTORY_PAGE limit) MAX_SEARCH_SCAN before (older_events grp before (lc_delivery l))"
    for render :: "event_row \<Rightarrow> cli_error + history_event" and hit
    using search_loop_spec [OF store_pages [OF reachable_ids_distinct [OF assms]], of "[]" "clamp 1 MAX_HISTORY_PAGE limit" 0
        render hit grp before] clamp_page [of limit]
    by (simp split: sum.splits prod.splits)
  then show ?thesis
    unfolding search_history_def Let_def by (simp add: and_then_def split: sum.splits prod.splits)
qed


definition demo_read :: local_read where
  "demo_read = \<lparr>lc_client = client_new, lc_delivery = demo_delivery, lc_identity_id = Some [4], lc_root_public = None\<rparr>"

definition demo_tables :: text_tables where
  "demo_tables = \<lparr>to_lowercase = (\<lambda>c. [map (\<lambda>x. if x = CHR ''A'' then CHR ''a'' else x) c]),
     from_utf8_lossy = map (\<lambda>b. char_of (unat b))\<rparr>"

definition demo_texts :: texts where
  "demo_texts = \<lparr>tx_sql = (\<lambda>_. []), tx_attachment = (\<lambda>_. [])\<rparr>"

lemma demo_events:
  "older_events [1] None demo_delivery =
     [\<lparr>ev_id = 2, ev_group_id = [1], ev_event_id = [9], ev_kind = ''received'', ev_body = [65], ev_created_at = 7,
       ev_sender_device = None, ev_sender_identity = None\<rparr>,
      \<lparr>ev_id = 1, ev_group_id = [1], ev_event_id = [8], ev_kind = ''sent'', ev_body = [66], ev_created_at = 6,
       ev_sender_device = None, ev_sender_identity = None\<rparr>]"
  by (simp add: older_events_def demo_delivery_def record_event_by_def delivery_new_def group_events_def next_id_def)

lemma demo_attachments: "attachment_transfers demo_delivery = []"
  by (simp add: demo_delivery_def record_event_by_def delivery_new_def)

lemma demo_event:
  "\<exists>h. history_event_of rfc_cbor demo_texts demo_read [1] 0
     \<lparr>ev_id = 2, ev_group_id = [1], ev_event_id = [9], ev_kind = ''received'', ev_body = [65], ev_created_at = 7,
       ev_sender_device = None, ev_sender_identity = None\<rparr> = Inr h \<and> he_event_id h = [9]"
  by (simp add: history_event_of_def attachment_summary_of_def attachment_def demo_read_def demo_attachments
      DEVICES_CHANGED_def Let_def)

theorem history_page_correct_witness:
  "\<exists>p c. history_page_of rfc_cbor demo_texts demo_read 0 [1] None 1 = Inr p \<and> map he_event_id (hp_events p) = [[9]] \<and>
     hp_next p = Some c \<and> map ev_event_id (older_events [1] (Some c) demo_delivery) = [[8]]"
proof -
  have d: "lc_delivery demo_read = demo_delivery"
    by (simp add: demo_read_def)
  show ?thesis
    using history_page_correct [of demo_read 1 "[1]" None rfc_cbor demo_texts 0] demo_delivery_reachable demo_event
    by (fastforce simp: d demo_events clamp_def MAX_HISTORY_PAGE_def Let_def)
qed

theorem search_history_is_filter_witness:
  "\<exists>p. search_history rfc_cbor demo_texts demo_tables demo_read 0 [1] ''a'' None 5 = Inr p \<and>
     map he_event_id (hp_events p) = [[9]] \<and> hp_next p = None"
proof -
  have d: "lc_delivery demo_read = demo_delivery"
    by (simp add: demo_read_def)
  have needle: "fold_for_search demo_tables (trim ''a'') = ''a''"
    by code_simp
  have hits: "search_hit demo_tables ''a'' \<lparr>ev_id = 2, ev_group_id = [1], ev_event_id = [9], ev_kind = ''received'',
      ev_body = [65], ev_created_at = 7, ev_sender_device = None, ev_sender_identity = None\<rparr>"
    "\<not> search_hit demo_tables ''a'' \<lparr>ev_id = 1, ev_group_id = [1], ev_event_id = [8], ev_kind = ''sent'',
      ev_body = [66], ev_created_at = 6, ev_sender_device = None, ev_sender_identity = None\<rparr>"
    by code_simp+
  show ?thesis
    using search_history_is_filter [of demo_read rfc_cbor demo_texts demo_tables 0 "[1]" "''a''" None 5]
      demo_delivery_reachable demo_event
    by (auto simp: d needle hits demo_events search_spec_def Let_def clamp_def MAX_HISTORY_PAGE_def MAX_SEARCH_SCAN_def)
qed

end
