(* ===== verification/App_Carrier.thy ===== *)
theory App_Carrier
  imports Channel App_Commands
begin

text \<open>
  \<open>core/crates/arveil-app/src/carrier.rs\<close>: a connection to the relay, which sends requests over the encrypted
  channel and waits for the reply with the same id, and waits for activity notices in between.

  The WebSocket is what it does: the events it will still yield, in order, and how each coming send ends.
  \<open>WsElapsed\<close> among the events is the moment the timer of whoever is waiting runs out. The texts of foreign
  errors are the record \<open>carrier_texts\<close>. A request is \<open>None\<close> only where the padding search would not end.

  Shown: a reply is handed out only to the request whose id it carries, ids are never reused, a time-out
  ends the connection for good, an honest relay's replies arrive and its notices are kept, and waiting for
  a notice ends.
\<close>

section \<open>The socket\<close>

datatype ws_event =
    WsBinary bytes | WsPing | WsPong | WsFrame | WsText | WsClose string | WsError string | WsElapsed

datatype ws_send = SendOk | SendError string | SendElapsed

record ws =
  ws_in :: "ws_event list"
  ws_sends :: "ws_send list"
  ws_out :: "bytes list"

datatype carrier_stop = Failed cli_error | Elapsed

record carrier_texts =
  ct_noise :: "noise_error \<Rightarrow> string"
  ct_channel :: "channel_error \<Rightarrow> string"
  ct_debug :: "payload \<Rightarrow> string"

fun next_event :: "ws_event list \<Rightarrow> (carrier_stop + bytes) \<times> ws_event list" where
  "next_event [] = (Inl (Failed (CliTransport ''connection ended'')), [])"
| "next_event (WsBinary b # es) = (Inr b, es)"
| "next_event (WsPing # es) = next_event es"
| "next_event (WsPong # es) = next_event es"
| "next_event (WsFrame # es) = next_event es"
| "next_event (WsText # es) = (Inl (Failed (CliProtocol ''text frame on channel'')), es)"
| "next_event (WsClose c # es) = (Inl (Failed (CliTransport (''closed: '' @ c))), es)"
| "next_event (WsError e # es) = (Inl (Failed (CliTransport (''websocket: '' @ e))), es)"
| "next_event (WsElapsed # es) = (Inl Elapsed, es)"

definition next_binary :: "(ws, carrier_stop, bytes) op" where
  "next_binary w = (case next_event (ws_in w) of (r, es) \<Rightarrow> (r, w\<lparr>ws_in := es\<rparr>))"

definition ws_send_binary :: "string \<Rightarrow> bytes \<Rightarrow> (ws, carrier_stop, unit) op" where
  "ws_send_binary ctx m w =
     (let sends = (case ws_sends w of [] \<Rightarrow> [] | _ # ss \<Rightarrow> ss) in
      case (case ws_sends w of [] \<Rightarrow> SendOk | s # _ \<Rightarrow> s) of
        SendOk \<Rightarrow> (Inr (), w\<lparr>ws_sends := sends, ws_out := ws_out w @ [m]\<rparr>)
      | SendError e \<Rightarrow> (Inl (Failed (CliTransport (ctx @ '': '' @ e))), w\<lparr>ws_sends := sends\<rparr>)
      | SendElapsed \<Rightarrow> (Inl Elapsed, w\<lparr>ws_sends := sends\<rparr>))"

lemma next_event_shorter: "next_event es = (Inr b, es') \<Longrightarrow> length es' < length es"
  by (induction es rule: next_event.induct) auto

lemma next_event_split: "next_event es = (Inr m, es') \<Longrightarrow> \<exists>pre. es = pre @ WsBinary m # es'"
proof (induction es rule: next_event.induct)
  case (2 b es)
  then show ?case
    by (auto intro: exI [of _ "[]"])
qed (auto; metis append_Cons)+

lemma next_event_suffix: "next_event es = (r, es') \<Longrightarrow> suffix es' es"
  by (induction es rule: next_event.induct) (auto intro: suffix_ConsI)

section \<open>The connection\<close>

record 't connection =
  nx_ws :: "ws option"
  nx_channel :: "'t channel option"
  nx_next_id :: u64
  nx_request_timeout :: nat
  nx_padded :: bool
  nx_wake_pending :: bool

record transport_timeouts =
  tt_connect :: nat
  tt_handshake :: nat
  tt_request :: nat
  tt_close :: nat

definition default_timeouts :: transport_timeouts where
  "default_timeouts = \<lparr>tt_connect = 10000, tt_handshake = 10000, tt_request = 30000, tt_close = 2000\<rparr>"

definition timed_out :: "string \<Rightarrow> nat \<Rightarrow> cli_error" where
  "timed_out phase after = CliTransport (phase @ '' timed out after '' @ decimal after @ '' ms; operation cancelled'')"

definition bounded :: "string \<Rightarrow> nat \<Rightarrow> carrier_stop + 'a \<Rightarrow> cli_error + 'a" where
  "bounded phase after r = map_err (\<lambda>s. case s of Failed e \<Rightarrow> e | Elapsed \<Rightarrow> timed_out phase after) r"

definition noise_failure :: "carrier_texts \<Rightarrow> string \<Rightarrow> noise_error \<Rightarrow> carrier_stop" where
  "noise_failure tx ctx e = Failed (CliTransport (ctx @ '': '' @ ct_noise tx e))"

text \<open>Opening: the TLS configuration and the connected socket are given as the results of the library.\<close>

definition open_with_timeouts ::
  "('h, 't) snow \<Rightarrow> carrier_texts \<Rightarrow> cli_error + unit \<Rightarrow> carrier_stop + ws \<Rightarrow> bytes \<Rightarrow> bytes \<Rightarrow> static_keypair \<Rightarrow> transport_timeouts \<Rightarrow>
   cli_error + 't connection" where
  "open_with_timeouts sn tx tls connected rid realm_noise_public dev timeouts =
     and_then tls (\<lambda>_.
     and_then (bounded ''connection'' (tt_connect timeouts) connected) (\<lambda>w.
     and_then (bounded ''noise'' 0 (map_err (noise_failure tx ''noise'') (initiator_new sn dev realm_noise_public (prologue rid)))) (\<lambda>h.
     case write_message_1 sn h of
       (Inl e, _) \<Rightarrow> bounded ''noise'' 0 (Inl (noise_failure tx ''noise'' e))
     | (Inr m1, h') \<Rightarrow>
         (case op_then (ws_send_binary ''send m1'' m1) (\<lambda>_. next_binary) w of
            (Inl stop, _) \<Rightarrow> bounded ''handshake'' (tt_handshake timeouts) (Inl stop)
          | (Inr m2, w') \<Rightarrow>
              and_then (bounded ''handshake'' (tt_handshake timeouts)
                (map_err (noise_failure tx ''handshake refused (wrong realm key, prologue, or revoked device?)'') (read_message_2 sn h' m2))) (\<lambda>t.
              Inr \<lparr>nx_ws = Some w', nx_channel = Some (channel_new t), nx_next_id = 1,
                   nx_request_timeout = tt_request timeouts, nx_padded = False, nx_wake_pending = False\<rparr>)))))"

definition pad_frames :: "'t connection \<Rightarrow> 't connection" where
  "pad_frames c = c\<lparr>nx_padded := True\<rparr>"

definition is_wakeup :: "frame \<Rightarrow> bool" where
  "is_wakeup f \<longleftrightarrow> f_id f = 0 \<and> f_payload f = MailboxWakeup"

definition invalidated :: cli_error where
  "invalidated = CliTransport ''connection invalidated; reconnect required''"

section \<open>Requests\<close>

definition reply_of :: "payload \<Rightarrow> carrier_stop + payload" where
  "reply_of p = (case p of Error code message \<Rightarrow> Inl (Failed (CliRelay code message)) | q \<Rightarrow> Inr q)"

text \<open>The loop that waits for the reply: it reads messages, keeps notices and ends at the first other frame.\<close>

function await_reply ::
  "cbor \<Rightarrow> ('h, 't) snow \<Rightarrow> carrier_texts \<Rightarrow> u64 \<Rightarrow> ws_event list \<Rightarrow> 't channel \<Rightarrow> bool \<Rightarrow>
   (carrier_stop + payload) \<times> ws_event list \<times> 't channel \<times> bool" where
  "await_reply cb sn tx i es ch wake =
     (case next_event es of
        (Inl s, es') \<Rightarrow> (Inl s, es', ch, wake)
      | (Inr m, es') \<Rightarrow>
          (case channel_open cb sn m ch of
             (Inl e, ch') \<Rightarrow> (Inl (Failed (CliTransport (''open: '' @ ct_channel tx e))), es', ch', wake)
           | (Inr None, ch') \<Rightarrow> await_reply cb sn tx i es' ch' wake
           | (Inr (Some f), ch') \<Rightarrow>
               if is_wakeup f then await_reply cb sn tx i es' ch' True
               else if f_id f \<noteq> i then
                 (Inl (Failed (CliProtocol (''reply id '' @ decimal (unat (f_id f)) @ '' for request '' @ decimal (unat i)))),
                  es', ch', wake)
               else (reply_of (f_payload f), es', ch', wake)))"
  by pat_completeness auto
termination
  by (relation "measure (\<lambda>(cb, sn, tx, i, es, ch, wake). length es)") (auto dest: next_event_shorter [OF sym])

declare await_reply.simps [simp del]

definition seal_frame ::
  "cbor \<Rightarrow> ('h, 't) snow \<Rightarrow> bool \<Rightarrow> frame \<Rightarrow> 't channel \<Rightarrow> ((channel_error + bytes list) \<times> 't channel) option" where
  "seal_frame cb sn padded f ch =
     (if padded then channel_seal_padded cb sn f WATCH_FRAME_BYTES ch else Some (channel_seal cb sn f ch))"

definition request_inner ::
  "cbor \<Rightarrow> ('h, 't) snow \<Rightarrow> carrier_texts \<Rightarrow> payload \<Rightarrow> ws \<Rightarrow> 't channel \<Rightarrow> 't connection \<Rightarrow>
   ((carrier_stop + payload) \<times> 't connection) option" where
  "request_inner cb sn tx p w ch c =
     (let i = nx_next_id c; c1 = c\<lparr>nx_next_id := i + 1\<rparr> in
      map_option (\<lambda>sealed.
        case sealed of
          (Inl e, ch1) \<Rightarrow> (Inl (Failed (CliTransport (''seal: '' @ ct_channel tx e))), c1\<lparr>nx_channel := Some ch1\<rparr>)
        | (Inr messages, ch1) \<Rightarrow>
            (case op_for messages (ws_send_binary ''send'') w of
               (Inl s, w1) \<Rightarrow> (Inl s, c1\<lparr>nx_ws := Some w1, nx_channel := Some ch1\<rparr>)
             | (Inr _, w1) \<Rightarrow>
                 (case await_reply cb sn tx i (ws_in w1) ch1 (nx_wake_pending c) of
                    (r, es, ch2, wake) \<Rightarrow>
                      (r, c1\<lparr>nx_ws := Some (w1\<lparr>ws_in := es\<rparr>), nx_channel := Some ch2, nx_wake_pending := wake\<rparr>))))
        (seal_frame cb sn (nx_padded c) \<lparr>f_id = i, f_payload = p\<rparr> ch))"

definition conn_request ::
  "cbor \<Rightarrow> ('h, 't) snow \<Rightarrow> carrier_texts \<Rightarrow> payload \<Rightarrow> 't connection \<Rightarrow> ((cli_error + payload) \<times> 't connection) option" where
  "conn_request cb sn tx p c =
     (case (nx_ws c, nx_channel c) of
        (Some w, Some ch) \<Rightarrow>
          map_option (\<lambda>(r, c').
            case r of
              Inl Elapsed \<Rightarrow> (Inl (timed_out ''request'' (nx_request_timeout c)), c'\<lparr>nx_ws := None, nx_channel := None\<rparr>)
            | Inl (Failed e) \<Rightarrow> (Inl e, c')
            | Inr q \<Rightarrow> (Inr q, c')) (request_inner cb sn tx p w ch c)
      | _ \<Rightarrow> Some (Inl invalidated, c))"

definition watch ::
  "cbor \<Rightarrow> ('h, 't) snow \<Rightarrow> carrier_texts \<Rightarrow> 't connection \<Rightarrow> ((cli_error + unit) \<times> 't connection) option" where
  "watch cb sn tx c =
     map_option (\<lambda>(r, c'). (and_then r (\<lambda>q.
        if q = Ack then Inr () else Inl (CliProtocol (''unexpected reply to MailboxWatch: '' @ ct_debug tx q))), c'))
       (conn_request cb sn tx MailboxWatch c)"

definition remote_static_key :: "('h, 't) snow \<Rightarrow> 't connection \<Rightarrow> cli_error + bytes option" where
  "remote_static_key sn c = and_then (ok_or (nx_channel c) invalidated) (\<lambda>ch. Inr (channel_remote_static sn ch))"

text \<open>How much the socket can still do, which every reading step uses up.\<close>

definition ws_left :: "'t connection \<Rightarrow> nat" where
  "ws_left c = (case nx_ws c of None \<Rightarrow> 0 | Some w \<Rightarrow> length (ws_in w))"

lemma send_all_in: "op_for ms (ws_send_binary ctx) w = (r, w') \<Longrightarrow> ws_in w' = ws_in w"
proof (induction ms arbitrary: w)
  case (Cons m ms)
  then show ?case
    by (auto simp: op_then_def ws_send_binary_def Let_def split: list.splits ws_send.splits)
qed simp

lemma reply_of_eq_Inr [simp]: "reply_of p = Inr q \<longleftrightarrow> p = q \<and> (\<forall>code message. p \<noteq> Error code message)"
  by (cases p) (auto simp: reply_of_def)

lemma await_reply_stop:
  "next_event es = (Inl s, es') \<Longrightarrow> await_reply cb sn tx i es ch wake = (Inl s, es', ch, wake)"
  by (subst await_reply.simps) simp

lemma await_reply_read:
  assumes "next_event es = (Inr m, es')" and "channel_open cb sn m ch = (out, ch')"
  shows "await_reply cb sn tx i es ch wake =
    (case out of
       Inl e \<Rightarrow> (Inl (Failed (CliTransport (''open: '' @ ct_channel tx e))), es', ch', wake)
     | Inr None \<Rightarrow> await_reply cb sn tx i es' ch' wake
     | Inr (Some f) \<Rightarrow>
         if is_wakeup f then await_reply cb sn tx i es' ch' True
         else if f_id f \<noteq> i then
           (Inl (Failed (CliProtocol (''reply id '' @ decimal (unat (f_id f)) @ '' for request '' @ decimal (unat i)))), es', ch', wake)
         else (reply_of (f_payload f), es', ch', wake))"
  using assms by (subst await_reply.simps) (simp split: sum.splits option.splits)

text \<open>What the loop reads: never more than there is, no notice is lost, and the reply is the last message read,
  whose frame carries the id asked for.\<close>

lemma await_reply_reads:
  assumes "await_reply cb sn tx i es ch wake = (r, es', ch', wake')"
  shows "suffix es' es \<and> (wake \<longrightarrow> wake') \<and>
    (\<forall>q. r = Inr q \<longrightarrow> (\<exists>pre m d. es = pre @ WsBinary m # es' \<and>
       channel_open cb sn m d = (Inr (Some \<lparr>f_id = i, f_payload = q\<rparr>), ch')))"
  using assms
proof (induction "length es" arbitrary: es ch wake rule: less_induct)
  case less
  show ?case
  proof (cases "next_event es")
    case (Pair a es1)
    show ?thesis
    proof (cases a)
      case (Inl s)
      then show ?thesis
        using less.prems Pair next_event_suffix [OF Pair] by (auto simp: await_reply_stop)
    next
      case (Inr m)
      note read = Pair [unfolded Inr]
      obtain out ch1 where out: "channel_open cb sn m ch = (out, ch1)"
        by fastforce
      obtain pre where pre: "es = pre @ WsBinary m # es1"
        using next_event_split [OF read] by blast
      have again: ?thesis if "await_reply cb sn tx i es1 ch1 w = (r, es', ch', wake')" and "wake \<longrightarrow> w" for w
        using less.hyps [OF next_event_shorter [OF read] that(1)] that(2) pre
        by (auto simp: suffix_def; metis append.assoc append_Cons)
      note step = less.prems [unfolded await_reply_read [OF read out]]
      consider e where "out = Inl e" | "out = Inr None" | f where "out = Inr (Some f)" "is_wakeup f"
        | f where "out = Inr (Some f)" "\<not> is_wakeup f" "f_id f \<noteq> i" | f where "out = Inr (Some f)" "\<not> is_wakeup f" "f_id f = i"
        by (metis option.exhaust sum.exhaust)
      then show ?thesis
      proof cases
        case 2
        then show ?thesis
          using step by (intro again [of wake]) simp_all
      next
        case 3
        then show ?thesis
          using step by (intro again [of True]) simp_all
      next
        case (5 f)
        then have "reply_of (f_payload f) = r" "es' = es1" "ch' = ch1" "wake' = wake"
          using step by simp_all
        moreover have "f = \<lparr>f_id = i, f_payload = f_payload f\<rparr>"
          using 5(3) by simp
        ultimately show ?thesis
          using pre out 5(1) by (metis append.assoc append_Cons append_Nil reply_of_eq_Inr suffixI)
      qed (use step pre in \<open>auto simp: suffix_def\<close>)
    qed
  qed
qed

lemma next_event_elapsed: "next_event es = (Inl Elapsed, es') \<Longrightarrow> length es' < length es"
  by (induction es rule: next_event.induct) auto

lemma request_inner_effect:
  assumes "request_inner cb sn tx p w ch c = Some (r, c')" and ws: "nx_ws c = Some w"
  shows "nx_next_id c' = nx_next_id c + 1 \<and>
    (\<exists>w'. nx_ws c' = Some w' \<and> suffix (ws_in w') (ws_in w)) \<and>
    (\<forall>q. r = Inr q \<longrightarrow> (\<exists>m d d'. WsBinary m \<in> set (ws_in w) \<and>
       channel_open cb sn m d = (Inr (Some \<lparr>f_id = nx_next_id c, f_payload = q\<rparr>), d')))"
proof -
  obtain sealed ch1 where s: "seal_frame cb sn (nx_padded c) \<lparr>f_id = nx_next_id c, f_payload = p\<rparr> ch = Some (sealed, ch1)"
    using assms(1) by (auto simp: request_inner_def Let_def)
  show ?thesis
  proof (cases sealed)
    case (Inl e)
    then show ?thesis
      using assms s by (auto simp: request_inner_def Let_def)
  next
    case (Inr messages)
    obtain sent w1 where sent: "op_for messages (ws_send_binary ''send'') w = (sent, w1)"
      by fastforce
    obtain r' es ch2 wake where reply: "await_reply cb sn tx (nx_next_id c) (ws_in w1) ch1 (nx_wake_pending c) = (r', es, ch2, wake)"
      by (metis prod_cases4)
    show ?thesis
      using assms s Inr sent reply await_reply_reads [OF reply] send_all_in [OF sent]
      by (cases sent) (auto simp: request_inner_def Let_def; blast)+
  qed
qed

definition dead :: "'t connection \<Rightarrow> bool" where
  "dead c \<longleftrightarrow> nx_ws c = None \<or> nx_channel c = None"

lemma request_dead: "dead c \<Longrightarrow> conn_request cb sn tx p c = Some (Inl invalidated, c)"
  by (auto simp: dead_def conn_request_def split: option.splits)

lemma request_alive:
  assumes "conn_request cb sn tx p c = Some (r, c')" and "\<not> dead c"
  shows "nx_next_id c' = nx_next_id c + 1"
    and "nx_ws c' = Some w' \<Longrightarrow> \<exists>w. nx_ws c = Some w \<and> suffix (ws_in w') (ws_in w)"
    and "r = Inr q \<Longrightarrow> \<exists>w m d d'. nx_ws c = Some w \<and> WsBinary m \<in> set (ws_in w) \<and>
      channel_open cb sn m d = (Inr (Some \<lparr>f_id = nx_next_id c, f_payload = q\<rparr>), d')"
proof -
  obtain w ch where c: "nx_ws c = Some w" "nx_channel c = Some ch"
    using assms(2) by (auto simp: dead_def)
  obtain r1 c1 where inner: "request_inner cb sn tx p w ch c = Some (r1, c1)"
    using assms(1) c by (auto simp: conn_request_def)
  note effect = request_inner_effect [OF inner c(1)]
  have outcome: "(\<exists>e. r1 = Inl (Failed e) \<and> r = Inl e \<and> c' = c1) \<or> (\<exists>q. r1 = Inr q \<and> r = Inr q \<and> c' = c1) \<or>
      (\<exists>e. r = Inl e \<and> c' = c1\<lparr>nx_ws := None, nx_channel := None\<rparr>)"
    using assms(1) c inner by (auto simp: conn_request_def split: sum.splits carrier_stop.splits)
  show "nx_next_id c' = nx_next_id c + 1"
    using outcome effect by auto
  show "\<exists>w. nx_ws c = Some w \<and> suffix (ws_in w') (ws_in w)" if "nx_ws c' = Some w'"
    using outcome effect c that by auto
  show "\<exists>w m d d'. nx_ws c = Some w \<and> WsBinary m \<in> set (ws_in w) \<and>
      channel_open cb sn m d = (Inr (Some \<lparr>f_id = nx_next_id c, f_payload = q\<rparr>), d')" if "r = Inr q"
    using outcome effect c that by fastforce
qed

lemma request_ws_left: "conn_request cb sn tx p c = Some (r, c') \<Longrightarrow> ws_left c' \<le> ws_left c"
  using request_alive(2) [of cb sn tx p c r c'] suffix_length_le
  by (cases "dead c"; cases "nx_ws c'") (fastforce simp: request_dead ws_left_def)+

section \<open>Waiting for a notice\<close>

function next_wakeup ::
  "cbor \<Rightarrow> ('h, 't) snow \<Rightarrow> carrier_texts \<Rightarrow> 't connection \<Rightarrow> ((cli_error + unit) \<times> 't connection) option" where
  "next_wakeup cb sn tx c =
     (if nx_wake_pending c then Some (Inr (), c\<lparr>nx_wake_pending := False\<rparr>)
      else case nx_ws c of
        None \<Rightarrow> Some (Inl invalidated, c)
      | Some w \<Rightarrow>
          (case next_event (ws_in w) of
             (Inr m, es) \<Rightarrow>
               (let c1 = c\<lparr>nx_ws := Some (w\<lparr>ws_in := es\<rparr>)\<rparr> in
                case nx_channel c of
                  None \<Rightarrow> Some (Inl invalidated, c1)
                | Some ch \<Rightarrow>
                    (case channel_open cb sn m ch of
                       (Inl e, ch') \<Rightarrow> Some (Inl (CliTransport (''open: '' @ ct_channel tx e)), c1\<lparr>nx_channel := Some ch'\<rparr>)
                     | (Inr (Some f), ch') \<Rightarrow>
                         if \<not> is_wakeup f then
                           Some (Inl (CliProtocol (''unsolicited frame '' @ decimal (unat (f_id f)) @ '' on a watched session'')),
                                 c1\<lparr>nx_channel := Some ch'\<rparr>)
                         else Some (Inr (), c1\<lparr>nx_channel := Some ch'\<rparr>)
                     | (Inr None, ch') \<Rightarrow> next_wakeup cb sn tx (c1\<lparr>nx_channel := Some ch'\<rparr>)))
           | (Inl (Failed e), es) \<Rightarrow> Some (Inl e, c\<lparr>nx_ws := Some (w\<lparr>ws_in := es\<rparr>)\<rparr>)
           | (Inl Elapsed, es) \<Rightarrow>
               (case conn_request cb sn tx Ping (c\<lparr>nx_ws := Some (w\<lparr>ws_in := es\<rparr>)\<rparr>) of
                  None \<Rightarrow> None
                | Some (Inl e, c2) \<Rightarrow> Some (Inl e, c2)
                | Some (Inr q, c2) \<Rightarrow>
                    if q = Pong then next_wakeup cb sn tx c2
                    else Some (Inl (CliProtocol (''unexpected reply to Ping: '' @ ct_debug tx q)), c2))))"
  by pat_completeness auto
termination
  by (relation "measure (\<lambda>(cb, sn, tx, c). ws_left c)")
    (auto simp: ws_left_def dest!: next_event_shorter [OF sym] next_event_elapsed [OF sym] request_ws_left)

declare next_wakeup.simps [simp del]

section \<open>Requests and their replies\<close>

fun run_requests ::
  "cbor \<Rightarrow> ('h, 't) snow \<Rightarrow> carrier_texts \<Rightarrow> payload list \<Rightarrow> 't connection \<Rightarrow> ((cli_error + payload) list \<times> 't connection) option" where
  "run_requests cb sn tx [] c = Some ([], c)"
| "run_requests cb sn tx (p # ps) c =
     (case conn_request cb sn tx p c of
        None \<Rightarrow> None
      | Some (r, c1) \<Rightarrow> map_option (\<lambda>(rs, c2). (r # rs, c2)) (run_requests cb sn tx ps c1))"

lemma run_requests_dead: "dead c \<Longrightarrow> run_requests cb sn tx ps c = Some (replicate (length ps) (Inl invalidated), c)"
  by (induction ps) (simp_all add: request_dead)

text \<open>The errors of a request other than its time-out: none of them reads like the time-out, or like the answer of a
  connection that was dropped.\<close>

definition ordinary :: "cli_error \<Rightarrow> bool" where
  "ordinary e \<longleftrightarrow> e \<noteq> invalidated \<and> (\<forall>after. e \<noteq> timed_out ''request'' after)"

lemmas ordinary_simps = ordinary_def invalidated_def timed_out_def

lemma next_event_errors: "next_event es = (Inl (Failed e), es') \<Longrightarrow> ordinary e"
  by (induction es rule: next_event.induct) (auto simp: ordinary_simps)

lemma send_all_errors: "op_for ms (ws_send_binary ''send'') w = (Inl (Failed e), w') \<Longrightarrow> ordinary e"
proof (induction ms arbitrary: w)
  case (Cons m ms)
  then show ?case
    by (auto simp: op_then_def ws_send_binary_def Let_def ordinary_simps split: list.splits ws_send.splits)
qed simp

lemma await_reply_errors:
  "await_reply cb sn tx i es ch wake = (Inl (Failed e), es', ch', wake') \<Longrightarrow> ordinary e"
proof (induction "length es" arbitrary: es ch wake rule: less_induct)
  case less
  obtain a es1 where event: "next_event es = (a, es1)"
    by fastforce
  show ?case
  proof (cases a)
    case (Inl s)
    then show ?thesis
      using less.prems event next_event_errors by (auto simp: await_reply_stop)
  next
    case (Inr m)
    note read = event [unfolded Inr]
    obtain out ch1 where out: "channel_open cb sn m ch = (out, ch1)"
      by fastforce
    show ?thesis
      using less.prems less.hyps [OF next_event_shorter [OF read]] unfolding await_reply_read [OF read out]
      by (auto simp: reply_of_def ordinary_simps split: sum.splits option.splits if_splits payload.splits)
  qed
qed

lemma request_inner_outcome:
  assumes "request_inner cb sn tx p w ch c = Some (r, c')" and "nx_ws c = Some w"
  shows "\<not> dead c' \<and> nx_request_timeout c' = nx_request_timeout c \<and> (\<forall>e. r = Inl (Failed e) \<longrightarrow> ordinary e)"
proof -
  obtain sealed ch1 where s: "seal_frame cb sn (nx_padded c) \<lparr>f_id = nx_next_id c, f_payload = p\<rparr> ch = Some (sealed, ch1)"
    using assms(1) by (auto simp: request_inner_def Let_def)
  show ?thesis
  proof (cases sealed)
    case (Inl e)
    then show ?thesis
      using assms s by (auto simp: request_inner_def Let_def dead_def ordinary_simps)
  next
    case (Inr messages)
    obtain sent w1 where sent: "op_for messages (ws_send_binary ''send'') w = (sent, w1)"
      by fastforce
    obtain r' es ch2 wake where reply: "await_reply cb sn tx (nx_next_id c) (ws_in w1) ch1 (nx_wake_pending c) = (r', es, ch2, wake)"
      by (metis prod_cases4)
    show ?thesis
      using assms(1) s Inr sent reply send_all_errors await_reply_errors
      by (cases sent) (auto simp: request_inner_def Let_def dead_def)
  qed
qed

lemma request_outcome:
  assumes "conn_request cb sn tx p c = Some (r, c')" and "\<not> dead c"
  shows "nx_request_timeout c' = nx_request_timeout c" and "r \<noteq> Inl invalidated"
    and "dead c' \<longleftrightarrow> r = Inl (timed_out ''request'' (nx_request_timeout c))"
proof -
  obtain w ch where c: "nx_ws c = Some w" "nx_channel c = Some ch"
    using assms(2) by (auto simp: dead_def)
  obtain s c1 where inner: "request_inner cb sn tx p w ch c = Some (s, c1)"
    using assms(1) c by (auto simp: conn_request_def)
  have "timed_out ''request'' after \<noteq> invalidated" for after
    by (simp add: timed_out_def invalidated_def)
  then show "nx_request_timeout c' = nx_request_timeout c" and "r \<noteq> Inl invalidated"
    and "dead c' \<longleftrightarrow> r = Inl (timed_out ''request'' (nx_request_timeout c))"
    using assms(1) c inner request_inner_outcome [OF inner c(1)]
    by (auto simp: conn_request_def ordinary_def dead_def split: sum.splits carrier_stop.splits)
qed

lemma run_requests_length: "run_requests cb sn tx ps c = Some (rs, c') \<Longrightarrow> length rs = length ps"
  by (induction ps arbitrary: c rs) (auto split: option.splits)

text \<open>Over a sequence of requests: the connection is dropped exactly when one of them timed out, every request after
  that one fails at once, and no other does.\<close>

lemma run_requests_timeout:
  assumes "run_requests cb sn tx ps c = Some (rs, c')" and "\<not> dead c"
  shows "(dead c' \<longleftrightarrow> Inl (timed_out ''request'' (nx_request_timeout c)) \<in> set rs) \<and>
    (\<forall>k < length ps. rs ! k = Inl invalidated \<longleftrightarrow> Inl (timed_out ''request'' (nx_request_timeout c)) \<in> set (take k rs))"
  using assms
proof (induction ps arbitrary: c rs)
  case (Cons p ps)
  let ?out = "Inl (timed_out ''request'' (nx_request_timeout c)) :: cli_error + payload"
  obtain r c1 rs1 where step: "conn_request cb sn tx p c = Some (r, c1)" "run_requests cb sn tx ps c1 = Some (rs1, c')" "rs = r # rs1"
    using Cons.prems(1) by (auto split: option.splits)
  note one = request_outcome [OF step(1) Cons.prems(2)]
  have diff: "?out \<noteq> Inl invalidated"
    by (simp add: timed_out_def invalidated_def)
  have "(dead c' \<longleftrightarrow> ?out \<in> set rs) \<and> (\<forall>k < length ps. rs1 ! k = Inl invalidated \<longleftrightarrow> r = ?out \<or> ?out \<in> set (take k rs1))"
  proof (cases "dead c1")
    case True
    then show ?thesis
      using one(3) step run_requests_dead [OF True, of cb sn tx ps] by auto
  next
    case False
    then show ?thesis
      using Cons.IH [OF step(2) False] one step(3) by auto
  qed
  then show ?case
    using one(2) step(3) by (auto simp: less_Suc_eq_0_disj nth_Cons')
qed simp

lemma run_requests_replies:
  assumes "nx_ws c = Some w" and "run_requests cb sn tx ps c = Some (rs, c')" and "k < length ps" and "rs ! k = Inr q"
  shows "\<exists>m d d'. WsBinary m \<in> set (ws_in w) \<and>
    channel_open cb sn m d = (Inr (Some \<lparr>f_id = nx_next_id c + of_nat k, f_payload = q\<rparr>), d')"
  using assms
proof (induction ps arbitrary: c w rs k)
  case (Cons p ps)
  obtain r c1 rs1 where step: "conn_request cb sn tx p c = Some (r, c1)"
    "run_requests cb sn tx ps c1 = Some (rs1, c')" "rs = r # rs1"
    using Cons.prems(2) by (auto split: option.splits)
  have alive: "\<not> dead c"
    using step Cons.prems by (cases k) (auto simp: request_dead run_requests_dead)
  show ?case
  proof (cases k)
    case 0
    then show ?thesis
      using Cons.prems request_alive(3) [OF step(1) alive] step by fastforce
  next
    case (Suc j)
    have "\<not> dead c1"
      using step Suc Cons.prems by (auto simp: run_requests_dead)
    then obtain w1 where "nx_ws c1 = Some w1" "suffix (ws_in w1) (ws_in w)" "nx_next_id c1 = nx_next_id c + 1"
      using request_alive(1,2) [OF step(1) alive] Cons.prems(1) by (force simp: dead_def)
    then show ?thesis
      using Cons.IH [of c1 w1 rs1 j] step Cons.prems Suc set_mono_suffix
      by (fastforce simp: add.assoc)
  qed
qed simp

text \<open>C29. Replies are correlated with requests: over every sequence of requests on one connection and whatever the
  socket yields, the reply handed to the \<open>k\<close>-th request was read from the socket in a frame that carries the
  id of that request, which is the first id plus \<open>k\<close>, so that no other request of the connection has it. The
  connection is dropped exactly when a request timed out, and then every later request fails at once and changes
  nothing; after any other failure, also a reply with a foreign id or an error of the relay, the connection stays in use.\<close>

theorem reply_only_to_its_request:
  assumes "nx_ws c = Some w" and "nx_channel c = Some ch" and "run_requests cb sn tx ps c = Some (rs, c')" and "length ps < 2 ^ 64"
  shows "(\<forall>k q. k < length ps \<and> rs ! k = Inr q \<longrightarrow>
      (\<exists>m d d'. WsBinary m \<in> set (ws_in w) \<and>
         channel_open cb sn m d = (Inr (Some \<lparr>f_id = nx_next_id c + of_nat k, f_payload = q\<rparr>), d'))) \<and>
    (\<forall>j k. j < k \<and> k < length ps \<longrightarrow> nx_next_id c + of_nat j \<noteq> nx_next_id c + of_nat k) \<and>
    (dead c' \<longleftrightarrow> Inl (timed_out ''request'' (nx_request_timeout c)) \<in> set rs) \<and>
    (\<forall>k < length ps. rs ! k = Inl invalidated \<longleftrightarrow> Inl (timed_out ''request'' (nx_request_timeout c)) \<in> set (take k rs)) \<and>
    (dead c' \<longrightarrow> (\<forall>qs. run_requests cb sn tx qs c' = Some (replicate (length qs) (Inl invalidated), c')))"
proof -
  have "\<exists>m d d'. WsBinary m \<in> set (ws_in w) \<and>
      channel_open cb sn m d = (Inr (Some \<lparr>f_id = nx_next_id c + of_nat k, f_payload = q\<rparr>), d')"
    if "k < length ps" "rs ! k = Inr q" for k q
    by (rule run_requests_replies [OF assms(1,3) that])
  moreover have "nx_next_id c + of_nat j \<noteq> nx_next_id c + of_nat k" if "j < k" "k < length ps" for j k
  proof -
    have "(of_nat j :: u64) \<noteq> of_nat k"
      using that assms(4) take_bit_nat_eq_self [of j 64] take_bit_nat_eq_self [of k 64] by (simp add: word_of_nat_eq_iff)
    then show ?thesis
      by simp
  qed
  moreover have "\<not> dead c"
    using assms(1,2) by (simp add: dead_def)
  ultimately show ?thesis
    using run_requests_timeout [OF assms(3)] by (simp add: run_requests_dead)
qed

section \<open>An honest relay\<close>

text \<open>The two ends of a session: \<open>lk n m a b\<close> says that \<open>a\<close> may still send \<open>n\<close> messages to \<open>b\<close> and \<open>b\<close> may
  still send \<open>m\<close> to \<open>a\<close>.\<close>

definition duplex_ok :: "('h, 't) snow \<Rightarrow> (nat \<Rightarrow> nat \<Rightarrow> 't \<Rightarrow> 't \<Rightarrow> bool) \<Rightarrow> bool" where
  "duplex_ok sn lk \<longleftrightarrow> (\<forall>m. transport_ok sn (\<lambda>n a b. lk n m a b)) \<and> (\<forall>n. transport_ok sn (\<lambda>m b a. lk n m a b))"

abbreviation wakeup_frame :: frame where
  "wakeup_frame \<equiv> \<lparr>f_id = 0, f_payload = MailboxWakeup\<rparr>"

lemma wf_wakeup: "wf_payload (f_payload wakeup_frame)"
  by (simp add: wf_payload_def)

lemma is_wakeup_frame: "is_wakeup f \<longleftrightarrow> f = wakeup_frame"
  by (cases f) (auto simp: is_wakeup_def)

lemma seal_each_reassembler: "seal_each sn frs A = (r, A') \<Longrightarrow> ch_reassembler A' = ch_reassembler A"
proof (induction frs arbitrary: A r)
  case (Cons f frs)
  then show ?case
    by (auto simp: op_then_def on_transport_def split: prod.splits sum.splits)
qed simp

lemma seal_each_append:
  "seal_each sn xs A = (Inr ms, A1) \<Longrightarrow> seal_each sn ys A1 = (Inr ns, A2) \<Longrightarrow> seal_each sn (xs @ ys) A = (Inr (ms @ ns), A2)"
  by (induction xs arbitrary: A ms) (fastforce simp: op_simps)+

lemma channel_seal_reassembler: "channel_seal cb sn f A = (r, A') \<Longrightarrow> ch_reassembler A' = ch_reassembler A"
  by (auto simp: channel_seal_def op_then_def seal_bytes_def seal_each_reassembler split: prod.splits sum.splits)

text \<open>The fragments of a frame complete it with the last one only.\<close>

lemma push_none: "push_all (map ((#) 0) cs) s = (Inr outs, t) \<Longrightarrow> outs = []"
  by (induction cs arbitrary: s outs)
    (auto simp: reassembler_push_def Let_def FLAG_LAST_def split: prod.splits sum.splits if_splits)

lemma fragments_last:
  obtains cs l where "fragments bs = map ((#) 0) cs @ [FLAG_LAST # l]"
  by (simp add: fragments_eq Let_def)

lemma push_all_snoc:
  "push_all (fs @ [g]) s = (Inr outs, u) \<Longrightarrow>
   \<exists>xs t out. push_all fs s = (Inr xs, t) \<and> reassembler_push g t = (Inr out, u) \<and> outs = xs @ (case out of None \<Rightarrow> [] | Some b \<Rightarrow> [b])"
proof (induction fs arbitrary: s outs)
  case Nil
  then show ?case
    by (auto split: prod.splits sum.splits)
next
  case (Cons f fs)
  then show ?case
    by (fastforce simp del: push_all.simps(2) simp: push_all_Cons_Inr)
qed

lemma sealed_bytes_open:
  assumes tr: "transport_ok sn link" and size: "length bs \<le> MAX_FRAME_BYTES" and dec: "decode cb bs = Inr f"
    and lk: "link (n + length (fragments bs)) (t_state (ch_transport A)) (t_state (ch_transport B))"
    and fresh: "ch_reassembler B = reassembler_new MAX_FRAME_BYTES"
  shows "\<exists>ms m A' B0 B'. seal_bytes sn bs A = (Inr (ms @ [m]), A') \<and> open_messages cb sn ms B = (Inr [], B0) \<and>
    channel_open cb sn m B0 = (Inr (Some f), B') \<and> link n (t_state (ch_transport A')) (t_state (ch_transport B')) \<and>
    ch_reassembler A' = ch_reassembler A \<and> ch_reassembler B' = reassembler_new MAX_FRAME_BYTES"
proof -
  obtain cs l where fr: "fragments bs = map ((#) 0) cs @ [FLAG_LAST # l]"
    by (rule fragments_last)
  let ?xs = "map ((#) 0) cs"
  have "push_all (?xs @ [FLAG_LAST # l]) (ch_reassembler B) = (Inr [bs], reassembler_new MAX_FRAME_BYTES)"
    using push_all_fragments [of "reassembler_new MAX_FRAME_BYTES" bs] size fr
    by (simp add: fresh reassembler_new_def)
  then obtain ys t out where pre: "push_all ?xs (ch_reassembler B) = (Inr ys, t)"
    and last: "reassembler_push (FLAG_LAST # l) t = (Inr out, reassembler_new MAX_FRAME_BYTES)"
    and outs: "[bs] = ys @ (case out of None \<Rightarrow> [] | Some b \<Rightarrow> [b])"
    using push_all_snoc by blast
  have ys: "ys = []"
    using pre by (rule push_none)
  then have out: "out = Some bs"
    using outs by (simp split: option.splits)
  have fit: "list_all (\<lambda>p. length p \<le> MAX_NOISE_PAYLOAD) (?xs @ [FLAG_LAST # l])"
    using fragments_fit [of bs] by (simp add: fr list_all_iff)
  obtain ms A1 B1 where most: "seal_each sn ?xs A = (Inr ms, A1)" "open_messages cb sn ms B = (Inr [], B1)"
    "link (Suc n) (t_state (ch_transport A1)) (t_state (ch_transport B1))" "ch_reassembler B1 = t"
    using sealed_messages_open [OF tr, of "Suc n" ?xs A B "[]" t cb "[]"] lk fit pre ys fr by auto
  have "length (FLAG_LAST # l) \<le> MAX_NOISE_PAYLOAD"
    using fit by simp
  then obtain m a b where one: "on_transport (transport_seal sn (FLAG_LAST # l)) A1 = (Inr m, A1\<lparr>ch_transport := a\<rparr>)"
    "on_transport (transport_open sn m) B1 = (Inr (FLAG_LAST # l), B1\<lparr>ch_transport := b\<rparr>)" "link n (t_state a) (t_state b)"
    "length m \<le> MAX_NOISE_MESSAGE"
    by (rule seal_step [OF tr most(3)])
  have "seal_each sn [FLAG_LAST # l] A1 = (Inr [m], A1\<lparr>ch_transport := a\<rparr>)"
    using one(1) by (simp add: op_then_def)
  then have "seal_bytes sn bs A = (Inr (ms @ [m]), A1\<lparr>ch_transport := a\<rparr>)"
    using seal_each_append [OF most(1)] fr by (simp add: seal_bytes_def)
  moreover have "channel_open cb sn m B1 =
      (Inr (Some f), B1\<lparr>ch_transport := b, ch_reassembler := reassembler_new MAX_FRAME_BYTES\<rparr>)"
    using one(2) last out dec most(4) by (simp add: channel_open_def op_then_def on_reassembler_def)
  ultimately show ?thesis
    using most(2) one(3) seal_each_reassembler [OF most(1)] by fastforce
qed

lemma next_event_binary: "next_event (WsBinary m # es) = (Inr m, es)"
  by simp

lemma await_reply_notices:
  assumes "open_messages cb sn ms ch = (Inr fs, ch')" and "list_all is_wakeup fs"
  shows "await_reply cb sn tx i (map WsBinary ms @ es) ch wake = await_reply cb sn tx i es ch' (wake \<or> fs \<noteq> [])"
  using assms
proof (induction ms arbitrary: ch fs wake)
  case (Cons m ms)
  then obtain out ch1 gs where step: "channel_open cb sn m ch = (Inr out, ch1)" "open_messages cb sn ms ch1 = (Inr gs, ch')"
    "fs = (case out of None \<Rightarrow> [] | Some f \<Rightarrow> [f]) @ gs"
    by (auto simp: op_simps)
  then show ?case
    using Cons.IH [OF step(2)] Cons.prems(2)
    by (cases out) (simp_all add: await_reply_read [OF next_event_binary step(1)])
qed simp

lemma send_all_ok:
  "ws_sends w = [] \<Longrightarrow> op_for ms (ws_send_binary ctx) w = (Inr (), w\<lparr>ws_out := ws_out w @ ms\<rparr>)"
  by (induction ms arbitrary: w) (simp_all add: op_then_def ws_send_binary_def Let_def)

text \<open>What a relay sends: encoded frames, padded as it likes, sealed one after the other.\<close>

fun seal_encoded :: "('h, 't) snow \<Rightarrow> bytes list \<Rightarrow> ('t channel, channel_error, bytes list) op" where
  "seal_encoded sn [] = op_return []"
| "seal_encoded sn (bs # bss) =
     op_then (seal_bytes sn bs) (\<lambda>ms. op_then (seal_encoded sn bss) (\<lambda>ns. op_return (ms @ ns)))"

definition encodes :: "cbor \<Rightarrow> frame \<Rightarrow> bytes \<Rightarrow> bool" where
  "encodes cb f bs \<longleftrightarrow> length bs \<le> MAX_FRAME_BYTES \<and> decode cb bs = Inr f"

lemma seal_encoded_append:
  "seal_encoded sn xs A = (Inr ms, A1) \<Longrightarrow> seal_encoded sn ys A1 = (Inr ns, A2) \<Longrightarrow>
   seal_encoded sn (xs @ ys) A = (Inr (ms @ ns), A2)"
  by (induction xs arbitrary: A ms) (fastforce simp: op_simps)+

lemma messages_needed_Cons [simp]: "messages_needed (bs # bss) = length (fragments bs) + messages_needed bss"
  by (simp add: messages_needed_def)

lemma messages_needed_append: "messages_needed (xs @ ys) = messages_needed xs + messages_needed ys"
  by (simp add: messages_needed_def)

lemma notices_delivered:
  assumes "transport_ok sn link" and "list_all (encodes cb f) bss"
    and "link (n + messages_needed bss) (t_state (ch_transport A)) (t_state (ch_transport B))"
    and "ch_reassembler B = reassembler_new MAX_FRAME_BYTES"
  shows "\<exists>ms A' B'. seal_encoded sn bss A = (Inr ms, A') \<and> open_messages cb sn ms B = (Inr (replicate (length bss) f), B') \<and>
    link n (t_state (ch_transport A')) (t_state (ch_transport B')) \<and> ch_reassembler B' = reassembler_new MAX_FRAME_BYTES"
  using assms(2-)
proof (induction bss arbitrary: A B)
  case Nil
  then show ?case by (simp add: messages_needed_def)
next
  case (Cons bs bss)
  then have bs: "length bs \<le> MAX_FRAME_BYTES" "decode cb bs = Inr f"
    and lk: "link ((n + messages_needed bss) + length (fragments bs)) (t_state (ch_transport A)) (t_state (ch_transport B))"
    by (simp_all add: encodes_def algebra_simps)
  obtain ms m A1 B0 B1 where one: "seal_bytes sn bs A = (Inr (ms @ [m]), A1)" "open_messages cb sn ms B = (Inr [], B0)"
    "channel_open cb sn m B0 = (Inr (Some f), B1)"
    "link (n + messages_needed bss) (t_state (ch_transport A1)) (t_state (ch_transport B1))"
    "ch_reassembler B1 = reassembler_new MAX_FRAME_BYTES"
    using sealed_bytes_open [OF assms(1) bs lk Cons.prems(3)] by blast
  obtain ns A2 B2 where more: "seal_encoded sn bss A1 = (Inr ns, A2)"
    "open_messages cb sn ns B1 = (Inr (replicate (length bss) f), B2)"
    "link n (t_state (ch_transport A2)) (t_state (ch_transport B2))" "ch_reassembler B2 = reassembler_new MAX_FRAME_BYTES"
    using Cons.IH [OF _ one(4,5)] Cons.prems(1) by auto
  have "open_messages cb sn (ms @ [m] @ ns) B = (Inr ([] @ [f] @ replicate (length bss) f), B2)"
    using open_messages_append [OF one(2)] one(3) more(2) by (simp add: op_then_def)
  then show ?case
    using one(1) more by (simp add: op_then_def)
qed

text \<open>What an honest relay sends after a request: notices, then the reply; the client, reading it, ends with the
  reply and remembers that there were notices.\<close>

lemma relay_reply_read:
  assumes dup: "duplex_ok sn lk" and fresh: "ch_reassembler A = reassembler_new MAX_FRAME_BYTES"
    and i: "i \<noteq> 0" and ok: "reply_of q = Inr q"
    and enc: "list_all (encodes cb wakeup_frame) notices" "encodes cb \<lparr>f_id = i, f_payload = q\<rparr> bq"
    and lk: "lk n (m + messages_needed (notices @ [bq])) (t_state (ch_transport A)) (t_state (ch_transport B))"
  shows "\<exists>ms A' B'. seal_encoded sn (notices @ [bq]) B = (Inr ms, B') \<and>
    (\<forall>tx wake rest. await_reply cb sn tx i (map WsBinary ms @ rest) A wake = (Inr q, rest, A', wake \<or> notices \<noteq> [])) \<and>
    lk n m (t_state (ch_transport A')) (t_state (ch_transport B')) \<and> ch_reassembler A' = reassembler_new MAX_FRAME_BYTES"
proof -
  let ?f = "\<lparr>f_id = i, f_payload = q\<rparr>"
  have tr: "transport_ok sn (\<lambda>m b a. lk n m a b)"
    using dup by (simp add: duplex_ok_def)
  obtain ms1 B1 A1 where notices: "seal_encoded sn notices B = (Inr ms1, B1)"
    "open_messages cb sn ms1 A = (Inr (replicate (length notices) wakeup_frame), A1)"
    "lk n (m + length (fragments bq)) (t_state (ch_transport A1)) (t_state (ch_transport B1))"
    "ch_reassembler A1 = reassembler_new MAX_FRAME_BYTES"
    using notices_delivered [OF tr enc(1), where n = "m + length (fragments bq)" and A = B and B = A] lk fresh
    by (auto simp: messages_needed_append messages_needed_def algebra_simps)
  obtain ms2 x B2 A2 A3 where reply: "seal_bytes sn bq B1 = (Inr (ms2 @ [x]), B2)" "open_messages cb sn ms2 A1 = (Inr [], A2)"
    "channel_open cb sn x A2 = (Inr (Some ?f), A3)" "lk n m (t_state (ch_transport A3)) (t_state (ch_transport B2))"
    "ch_reassembler A3 = reassembler_new MAX_FRAME_BYTES"
    using sealed_bytes_open [OF tr, where bs = bq and n = m and A = B1 and B = A1 and cb = cb and f = ?f] notices(3,4) enc(2)
    by (auto simp: encodes_def)
  have "await_reply cb sn tx i (map WsBinary (ms1 @ ms2 @ [x]) @ rest) A wake = (Inr q, rest, A3, wake \<or> notices \<noteq> [])" for tx wake rest
    using await_reply_notices [OF notices(2), of tx i "map WsBinary (ms2 @ [x]) @ rest" wake]
      await_reply_notices [OF reply(2), of tx i "WsBinary x # rest" "wake \<or> notices \<noteq> []"] i ok
    by (simp add: list_all_iff is_wakeup_frame await_reply_read [OF next_event_binary reply(3)])
  moreover have "seal_encoded sn (notices @ [bq]) B = (Inr (ms1 @ ms2 @ [x]), B2)"
    using seal_encoded_append [OF notices(1), of "[bq]" "ms2 @ [x]" B2] reply(1) by (simp add: op_simps)
  ultimately show ?thesis
    using reply(4,5) by blast
qed

text \<open>The bytes of a frame as the connection sends it.\<close>

definition frame_bytes :: "cbor \<Rightarrow> bool \<Rightarrow> frame \<Rightarrow> (codec_error + bytes) option" where
  "frame_bytes cb padded f = (if padded then encode_padded cb f WATCH_FRAME_BYTES else Some (encode cb f))"

lemma seal_frame_bytes: "frame_bytes cb padded f = Some (Inr bs) \<Longrightarrow> seal_frame cb sn padded f ch = Some (seal_bytes sn bs ch)"
  by (auto simp: frame_bytes_def seal_frame_def channel_seal_padded_def channel_seal_def op_then_def split: if_splits)

lemma frame_bytes_encodes:
  assumes "cbor_codec cb" and "wf_payload (f_payload f)" and "frame_bytes cb padded f = Some (Inr bs)"
  shows "encodes cb f bs \<and> (padded \<longrightarrow> WATCH_FRAME_BYTES \<le> length bs)"
proof (cases padded)
  case True
  then have "encode_padded cb f WATCH_FRAME_BYTES = Some (Inr bs)"
    using assms(3) by (simp add: frame_bytes_def)
  then show ?thesis
    using cbor_codec.encode_padded_result [OF assms(1,2), of WATCH_FRAME_BYTES] cbor_codec.encode_cases(1) [OF assms(1,2), of bs]
    by (auto simp: encodes_def split: if_splits)
next
  case False
  then show ?thesis
    using assms(3) cbor_codec.encode_cases [OF assms(1,2)] by (simp add: frame_bytes_def encodes_def)
qed

text \<open>C30. Requests are answered, on plain connections and on padded ones as watching uses: between a client and an
  honest relay whose sessions are linked, what a request sends opens at the relay to exactly that request, on a padded
  connection from a frame of at least \<open>WATCH_FRAME_BYTES\<close>; when the relay then sends any number of activity notices and the
  reply, however it pads them, the request returns the reply, the notices are remembered for the next wait (which then
  returns at once), nothing that follows on the socket is consumed, and the sessions are still linked.\<close>

theorem honest_relay_answers:
  assumes "cbor_codec cb" and "duplex_ok sn lk"
    and "nx_channel c = Some A" and "nx_next_id c \<noteq> 0"
    and "ch_reassembler A = reassembler_new MAX_FRAME_BYTES" and "ch_reassembler B = reassembler_new MAX_FRAME_BYTES"
    and "wf_payload p" and "reply_of q = Inr q"
    and "frame_bytes cb (nx_padded c) \<lparr>f_id = nx_next_id c, f_payload = p\<rparr> = Some (Inr bp)"
    and "list_all (encodes cb wakeup_frame) notices" and "encodes cb \<lparr>f_id = nx_next_id c, f_payload = q\<rparr> bq"
    and "lk (n + length (fragments bp)) (m + messages_needed (notices @ [bq])) (t_state (ch_transport A)) (t_state (ch_transport B))"
  shows "\<exists>out B1 ms B2 A2. open_messages cb sn out B = (Inr [\<lparr>f_id = nx_next_id c, f_payload = p\<rparr>], B1) \<and>
    (nx_padded c \<longrightarrow> WATCH_FRAME_BYTES \<le> length bp) \<and>
    seal_encoded sn (notices @ [bq]) B1 = (Inr ms, B2) \<and>
    (\<forall>w rest. ws_sends w = [] \<and> ws_in w = map WsBinary ms @ rest \<longrightarrow>
       (\<exists>c'. conn_request cb sn tx p (c\<lparr>nx_ws := Some w\<rparr>) = Some (Inr q, c') \<and>
          c' = c\<lparr>nx_ws := Some (w\<lparr>ws_in := rest, ws_out := ws_out w @ out\<rparr>), nx_channel := Some A2,
             nx_next_id := nx_next_id c + 1, nx_wake_pending := (nx_wake_pending c \<or> notices \<noteq> [])\<rparr> \<and>
          (notices \<noteq> [] \<longrightarrow> next_wakeup cb sn tx c' = Some (Inr (), c'\<lparr>nx_wake_pending := False\<rparr>)))) \<and>
    lk n m (t_state (ch_transport A2)) (t_state (ch_transport B2)) \<and> ch_reassembler A2 = reassembler_new MAX_FRAME_BYTES"
proof -
  let ?i = "nx_next_id c"
  let ?M = "m + messages_needed (notices @ [bq])"
  have tr: "transport_ok sn (\<lambda>n a b. lk n ?M a b)"
    using assms(2) by (simp add: duplex_ok_def)
  have bp: "encodes cb \<lparr>f_id = ?i, f_payload = p\<rparr> bp" "nx_padded c \<longrightarrow> WATCH_FRAME_BYTES \<le> length bp"
    using frame_bytes_encodes [OF assms(1) _ assms(9)] assms(7) by simp_all
  obtain ms0 m0 A1 B0 B1 where sent: "seal_bytes sn bp A = (Inr (ms0 @ [m0]), A1)" "open_messages cb sn ms0 B = (Inr [], B0)"
    "channel_open cb sn m0 B0 = (Inr (Some \<lparr>f_id = ?i, f_payload = p\<rparr>), B1)"
    "lk n ?M (t_state (ch_transport A1)) (t_state (ch_transport B1))" "ch_reassembler A1 = ch_reassembler A"
    using sealed_bytes_open [OF tr, where bs = bp and n = n and A = A and B = B and cb = cb and f = "\<lparr>f_id = ?i, f_payload = p\<rparr>"]
      bp(1) assms(6,12) by (auto simp: encodes_def)
  have opened: "open_messages cb sn (ms0 @ [m0]) B = (Inr [\<lparr>f_id = ?i, f_payload = p\<rparr>], B1)"
    using open_messages_append [OF sent(2), of "[m0]"] sent(3) by (simp add: op_then_def)
  obtain ms A2 B2 where answered: "seal_encoded sn (notices @ [bq]) B1 = (Inr ms, B2)"
    "\<And>tx wake rest. await_reply cb sn tx ?i (map WsBinary ms @ rest) A1 wake = (Inr q, rest, A2, wake \<or> notices \<noteq> [])"
    "lk n m (t_state (ch_transport A2)) (t_state (ch_transport B2))" "ch_reassembler A2 = reassembler_new MAX_FRAME_BYTES"
    using relay_reply_read [OF assms(2) _ assms(4,8,10,11) sent(4)] sent(5) assms(5) by auto
  have "conn_request cb sn tx p (c\<lparr>nx_ws := Some w\<rparr>) =
      Some (Inr q, c\<lparr>nx_ws := Some (w\<lparr>ws_in := rest, ws_out := ws_out w @ (ms0 @ [m0])\<rparr>), nx_channel := Some A2,
        nx_next_id := nx_next_id c + 1, nx_wake_pending := (nx_wake_pending c \<or> notices \<noteq> [])\<rparr>)"
    if "ws_sends w = []" "ws_in w = map WsBinary ms @ rest" for w rest
    using assms(3) sent(1) answered(2) that
    by (simp add: conn_request_def request_inner_def Let_def seal_frame_bytes [OF assms(9)] send_all_ok)
  moreover have "next_wakeup cb sn tx d = Some (Inr (), d\<lparr>nx_wake_pending := False\<rparr>)" if "nx_wake_pending d" for d
    using that by (subst next_wakeup.simps) simp
  ultimately show ?thesis
    using opened bp(2) answered(1,3,4) by (intro exI conjI allI impI) (assumption | simp)+
qed

lemma request_returns:
  assumes "cbor_codec cb" and "wf_payload p"
  shows "\<exists>r c'. conn_request cb sn tx p c = Some (r, c')"
proof -
  have "\<exists>r ch'. seal_frame cb sn (nx_padded c) \<lparr>f_id = nx_next_id c, f_payload = p\<rparr> ch = Some (r, ch')" for ch
    using cbor_codec.encode_padded_total [OF assms(1), of "\<lparr>f_id = nx_next_id c, f_payload = p\<rparr>" WATCH_FRAME_BYTES] assms(2)
    by (auto simp: seal_frame_def channel_seal_padded_def)
  then have "\<exists>r. request_inner cb sn tx p w ch c = Some r" for w ch
    by (fastforce simp: request_inner_def Let_def)
  then show ?thesis
    by (auto simp: conn_request_def split: option.splits) (metis old.prod.exhaust)
qed

lemma next_wakeup_returns:
  assumes "cbor_codec cb"
  shows "\<exists>r. next_wakeup cb sn tx c = Some r"
proof (induction "ws_left c" arbitrary: c rule: less_induct)
  case less
  show ?case
  proof (cases "nx_wake_pending c \<or> nx_ws c = None")
    case True
    then show ?thesis
      by (subst next_wakeup.simps) auto
  next
    case False
    then obtain w r es where w: "nx_ws c = Some w" "\<not> nx_wake_pending c" and event: "next_event (ws_in w) = (r, es)"
      by (metis not_None_eq surj_pair)
    let ?c1 = "c\<lparr>nx_ws := Some (w\<lparr>ws_in := es\<rparr>)\<rparr>"
    consider m where "r = Inr m" | e where "r = Inl (Failed e)" | "r = Inl Elapsed"
      by (metis carrier_stop.exhaust sum.exhaust)
    then show ?thesis
    proof cases
      case (1 m)
      have "\<exists>r. next_wakeup cb sn tx (?c1\<lparr>nx_channel := Some ch\<rparr>) = Some r" for ch
        using next_event_shorter [OF event [unfolded 1]] w by (intro less) (simp add: ws_left_def)
      then show ?thesis
        using w event 1 by (subst next_wakeup.simps) (auto simp: Let_def split: option.splits prod.splits sum.splits)
    next
      case 2
      then show ?thesis
        using w event by (subst next_wakeup.simps) simp
    next
      case 3
      obtain q c2 where ping: "conn_request cb sn tx Ping ?c1 = Some (q, c2)"
        using request_returns [OF assms, of Ping sn tx ?c1] by (auto simp: wf_payload_def)
      have "ws_left c2 < ws_left c"
        using request_ws_left [OF ping] next_event_elapsed [OF event [unfolded 3]] w by (simp add: ws_left_def)
      then show ?thesis
        using less [of c2] w event 3 ping by (subst next_wakeup.simps) (auto split: sum.splits)
    qed
  qed
qed

text \<open>Requests and waits return: no request hangs in the padding of its frame, and waiting for a notice ends for
  everything the socket may do, since every round consumes an event of it.\<close>

theorem carrier_returns:
  assumes "cbor_codec cb" and "wf_payload p"
  shows "(\<exists>r c'. conn_request cb sn tx p c = Some (r, c')) \<and> (\<exists>r c'. next_wakeup cb sn tx c = Some (r, c'))"
  using request_returns [OF assms] next_wakeup_returns [OF assms(1)] by fast

lemma demo_encodes:
  assumes "watch_payload p"
  shows "\<exists>bs. encode rfc_cbor \<lparr>f_id = i, f_payload = p\<rparr> = Inr bs \<and> length (fragments bs) = 1"
proof -
  let ?f = "\<lparr>f_id = i, f_payload = p\<rparr>"
  have wf: "wf_payload (f_payload ?f)"
    using assms watch_payload_wf by simp
  have small: "frame_size ?f \<le> 225"
    using assms by (intro watch_frame_small) simp
  then have "frame_size ?f \<le> MAX_FRAME_BYTES"
    by (simp add: MAX_FRAME_BYTES_def)
  then obtain bs where e: "encode rfc_cbor ?f = Inr bs"
    by (rule rfc.encode_ok [OF wf])
  have "length bs \<le> 225"
    using rfc.encode_cases(1) [OF wf e] small by simp
  then show ?thesis
    using e by (simp add: fragments_eq chunks.simps)
qed

definition demo_connection :: "ws_event list \<Rightarrow> nat connection" where
  "demo_connection es = \<lparr>nx_ws = Some \<lparr>ws_in = es, ws_sends = [], ws_out = []\<rparr>,
     nx_channel = Some (channel_new \<lparr>t_state = 3, t_handshake_hash = []\<rparr>), nx_next_id = 1, nx_request_timeout = 30000,
     nx_padded = False, nx_wake_pending = False\<rparr>"

definition demo_carrier_texts :: carrier_texts where
  "demo_carrier_texts = \<lparr>ct_noise = (\<lambda>_. []), ct_channel = (\<lambda>_. []), ct_debug = (\<lambda>_. [])\<rparr>"

lemma demo_duplex: "duplex_ok demo_snow (\<lambda>n m a b. a = n + m \<and> b = n + m)"
  by (simp add: duplex_ok_def transport_ok_def demo_snow_def)

theorem carrier_returns_witness:
  "\<exists>r c'. next_wakeup rfc_cbor demo_snow demo_carrier_texts (demo_connection [WsElapsed]) = Some (r, c')"
  using carrier_returns [OF rfc.cbor_codec_axioms, of Ping demo_snow demo_carrier_texts "demo_connection [WsElapsed]"]
  by (simp add: wf_payload_def)

theorem reply_only_to_its_request_witness:
  "\<exists>c'. run_requests rfc_cbor demo_snow demo_carrier_texts [Ping, Ping] (demo_connection [WsElapsed]) =
       Some ([Inl (timed_out ''request'' 30000), Inl invalidated], c') \<and>
     run_requests rfc_cbor demo_snow demo_carrier_texts [Ping, Ping] c' = Some ([Inl invalidated, Inl invalidated], c')"
proof -
  obtain bs where e: "encode rfc_cbor \<lparr>f_id = 1, f_payload = Ping\<rparr> = Inr bs" "length (fragments bs) = 1"
    using demo_encodes [of Ping 1] by (auto simp: watch_payload_def)
  let ?A = "channel_new \<lparr>t_state = 3, t_handshake_hash = []\<rparr>"
  obtain out A1 where "channel_seal rfc_cbor demo_snow \<lparr>f_id = 1, f_payload = Ping\<rparr> ?A = (Inr out, A1)"
    using channel_delivers_one [OF rfc.cbor_codec_axioms demo_transport_ok _ e(1), where n = 2 and A = ?A and B = ?A] e(2)
    by (auto simp: channel_new_def wf_payload_def)
  then obtain c' where run: "run_requests rfc_cbor demo_snow demo_carrier_texts [Ping, Ping] (demo_connection [WsElapsed]) =
       Some ([Inl (timed_out ''request'' 30000), Inl invalidated], c')"
    by (simp add: demo_connection_def conn_request_def request_inner_def Let_def seal_frame_def send_all_ok await_reply_stop)
  have "\<forall>qs. run_requests rfc_cbor demo_snow demo_carrier_texts qs c' = Some (replicate (length qs) (Inl invalidated), c')"
    using reply_only_to_its_request [OF _ _ run, of "\<lparr>ws_in = [WsElapsed], ws_sends = [], ws_out = []\<rparr>" ?A]
    by (simp add: demo_connection_def)
  from this [rule_format, of "[Ping, Ping]"] run show ?thesis
    by (intro exI [of _ c'] conjI) (simp_all only: list.size replicate.simps numeral_2_eq_2 One_nat_def add_0 plus_nat.simps)
qed

lemma demo_padded:
  assumes "watch_payload p"
  shows "\<exists>bs. frame_bytes rfc_cbor True \<lparr>f_id = i, f_payload = p\<rparr> = Some (Inr bs) \<and>
    encodes rfc_cbor \<lparr>f_id = i, f_payload = p\<rparr> bs \<and> length (fragments bs) = 1"
proof -
  obtain bs where "encode_padded rfc_cbor \<lparr>f_id = i, f_payload = p\<rparr> WATCH_FRAME_BYTES = Some (Inr bs)"
    "length bs = WATCH_FRAME_BYTES" "decode rfc_cbor bs = Inr \<lparr>f_id = i, f_payload = p\<rparr>"
    using rfc.encode_padded_watch [of "\<lparr>f_id = i, f_payload = p\<rparr>"] watch_payload_wf [OF assms]
      watch_frame_small [of "\<lparr>f_id = i, f_payload = p\<rparr>"] assms by auto
  then show ?thesis
    by (simp add: frame_bytes_def encodes_def WATCH_FRAME_BYTES_def MAX_FRAME_BYTES_def fragments_eq chunks.simps)
qed

theorem honest_relay_answers_witness:
  "\<exists>es c'. conn_request rfc_cbor demo_snow demo_carrier_texts Ping (pad_frames (demo_connection es)) = Some (Inr Pong, c') \<and>
     nx_wake_pending c' \<and> (\<exists>c''. next_wakeup rfc_cbor demo_snow demo_carrier_texts c' = Some (Inr (), c''))"
proof -
  obtain bp where p: "frame_bytes rfc_cbor True \<lparr>f_id = 1, f_payload = Ping\<rparr> = Some (Inr bp)" "length (fragments bp) = 1"
    using demo_padded [of Ping 1] by (auto simp: watch_payload_def)
  obtain bq where q: "encodes rfc_cbor \<lparr>f_id = 1, f_payload = Pong\<rparr> bq" "length (fragments bq) = 1"
    using demo_padded [of Pong 1] by (auto simp: watch_payload_def)
  obtain bw where w: "encodes rfc_cbor wakeup_frame bw" "length (fragments bw) = 1"
    using demo_padded [of MailboxWakeup 0] by (auto simp: watch_payload_def)
  let ?c = "pad_frames (demo_connection [])" and ?B = "channel_new \<lparr>t_state = 3, t_handshake_hash = []\<rparr>"
  obtain out B1 ms B2 A2 where relay: "\<forall>w rest. ws_sends w = [] \<and> ws_in w = map WsBinary ms @ rest \<longrightarrow>
       (\<exists>c'. conn_request rfc_cbor demo_snow demo_carrier_texts Ping (?c\<lparr>nx_ws := Some w\<rparr>) = Some (Inr Pong, c') \<and>
          c' = ?c\<lparr>nx_ws := Some (w\<lparr>ws_in := rest, ws_out := ws_out w @ out\<rparr>), nx_channel := Some A2,
             nx_next_id := nx_next_id ?c + 1, nx_wake_pending := (nx_wake_pending ?c \<or> [bw] \<noteq> [])\<rparr> \<and>
          ([bw] \<noteq> [] \<longrightarrow> next_wakeup rfc_cbor demo_snow demo_carrier_texts c' = Some (Inr (), c'\<lparr>nx_wake_pending := False\<rparr>)))"
    using honest_relay_answers [OF rfc.cbor_codec_axioms demo_duplex, where c = ?c and A = ?B and B = ?B and p = Ping
        and q = Pong and bp = bp and notices = "[bw]" and bq = bq and n = 0 and m = 0 and tx = demo_carrier_texts] p q w
    by (auto simp: pad_frames_def demo_connection_def channel_new_def wf_payload_def reply_of_def messages_needed_def)
  have "?c\<lparr>nx_ws := Some \<lparr>ws_in = map WsBinary ms, ws_sends = [], ws_out = []\<rparr>\<rparr> = pad_frames (demo_connection (map WsBinary ms))"
    by (simp add: pad_frames_def demo_connection_def)
  then show ?thesis
    using relay [rule_format, of "\<lparr>ws_in = map WsBinary ms, ws_sends = [], ws_out = []\<rparr>" "[]"] by fastforce
qed

end
