(* ===== verification/App_Outbox.thy ===== *)
theory App_Outbox
  imports App_History App_Progress Envelope Codec Client_Enrollment "HOL-Library.Multiset"
begin

text \<open>
  Sending, from \<open>core/crates/arveil-app/src/lib.rs\<close>: who a message is sealed for and in which order
  (\<open>shuffled_order\<close>, \<open>enqueue_for\<close>, \<open>enqueue_for_all\<close>), and how the outbox is published
  (\<open>write_cap_for\<close>, \<open>publish_pending\<close>); the application event inside a message; the session of a command; the
  endpoints a connection tries.

  Randomness is an argument. A connection is its state \<open>'c\<close> with the request operation \<open>rq\<close>, which \<open>App_Carrier\<close>
  models; the local state is a \<open>world\<close>: the tables of the database, the connection, the task that records changes and the
  storage of the MLS library.

  Shown: the order of a fan-out is a permutation; a fan-out seals one envelope for each device that has a route
  and is not revoked, which only that device opens to the message; publishing takes the outbox in order,
  reuses the sealed bytes and stops at the first failure that may pass.
\<close>

section \<open>Sessions\<close>

record app_texts = texts +
  tx_client :: "client_error \<Rightarrow> string"
  tx_signed :: "signed_error \<Rightarrow> string"
  tx_debug :: "payload \<Rightarrow> string"

text \<open>\<open>CliError\<close> as it is shown.\<close>

definition error_text :: "cli_error \<Rightarrow> string" where
  "error_text e = (case e of CliRelay code message \<Rightarrow> ''relay refused ('' @ decimal (unat code) @ ''): '' @ message | _ \<Rightarrow> error_message e)"

definition enrolled :: "cbor \<Rightarrow> crypto \<Rightarrow> (client_error \<Rightarrow> string) \<Rightarrow> client \<Rightarrow> cli_error + stored_device \<times> stored_realm" where
  "enrolled cb cr txt s =
     (if (case recovery_progress s of Some p \<Rightarrow> \<not> rp_complete p | None \<Rightarrow> False)
      then Inl (CliDomain ''finish recovery before starting other operations'')
      else and_then (map_err (\<lambda>e. CliStorage (''device: '' @ txt e)) (device s)) (\<lambda>found.
           and_then (ok_or found (CliDomain ''no enrolled device in this data dir'')) (\<lambda>dev.
           and_then (map_err (\<lambda>e. CliStorage (''realm: '' @ txt e)) (realm cb cr s)) (\<lambda>rl.
           and_then (ok_or (case rl of Some r \<Rightarrow> if sr_enrolled r then Some r else None | None \<Rightarrow> None)
             (CliDomain ''not enrolled in a realm'')) (\<lambda>r.
           Inr (dev, r))))))"

record app_session =
  ss_device :: stored_device
  ss_realm :: stored_realm
  ss_identity_id :: bytes

definition app_session_open :: "cbor \<Rightarrow> crypto \<Rightarrow> (client_error \<Rightarrow> string) \<Rightarrow> client \<Rightarrow> cli_error + app_session" where
  "app_session_open cb cr txt s =
     and_then (enrolled cb cr txt s) (\<lambda>(dev, r).
     and_then (ok_or (client_identity_id s) (CliDomain ''no identity'')) (\<lambda>i.
     Inr \<lparr>ss_device = dev, ss_realm = r, ss_identity_id = i\<rparr>))"

definition own_sender :: "app_session \<Rightarrow> event_sender" where
  "own_sender ss = \<lparr>es_device_id = Some (dk_device_id (sd_keys (ss_device ss))), es_identity_id = Some (ss_identity_id ss)\<rparr>"

definition peer_from_route :: "route \<Rightarrow> peer" where
  "peer_from_route r = \<lparr>pe_identity = ro_identity_id r, pe_device_id = ro_device_id r, pe_credential_hash = ro_credential_hash r,
     pe_root_public = ro_root_public r, pe_mailbox = Some (ro_mailbox_id r), pe_write_cap = Some (ro_write_capability r),
     pe_hpke = Some (ro_hpke_public r), pe_revoked = False\<rparr>"

definition route_of_peer :: "hex \<Rightarrow> peer \<Rightarrow> string option" where
  "route_of_peer hx p =
     (case (pe_mailbox p, pe_write_cap p, pe_hpke p) of
        (Some m, Some w, Some h) \<Rightarrow> 
          Some (route_text hx \<lparr>ro_identity_id = pe_identity p, ro_device_id = pe_device_id p, ro_credential_hash = pe_credential_hash p,
            ro_root_public = pe_root_public p, ro_mailbox_id = m, ro_write_capability = w, ro_hpke_public = h\<rparr>)
      | _ \<Rightarrow> None)"

text \<open>Channel URLs to try: the stored signed list by priority without administrative endpoints, the bootstrap
  URL last.\<close>

definition endpoint_candidates :: "app_session \<Rightarrow> bootstrap \<Rightarrow> string list" where
  "endpoint_candidates ss b =
     (let candidates = (case sr_endpoint_list (ss_realm ss) of
            Some l \<Rightarrow> map e_url (filter (\<lambda>e. e_kind e \<noteq> ''admin'') (sort_key e_priority (el_endpoints l)))
          | None \<Rightarrow> [])
      in if bs_url b \<in> set candidates then candidates else candidates @ [bs_url b])"

section \<open>Application events\<close>

record app_event =
  av_kind :: string
  av_body :: bytes

definition app_event_fields :: "app_event \<Rightarrow> (string \<times> value) list" where
  "app_event_fields e = [(''kind'', VText (av_kind e)), (''body'', VBytes (av_body e))]"

definition app_event_from_value :: "cbor \<Rightarrow> value \<Rightarrow> app_event option" where
  "app_event_from_value cb v =
     do { fs \<leftarrow> de_fields cb v;
          k \<leftarrow> get_field (de_text cb) fs ''kind'';
          b \<leftarrow> get_field (de_bytes cb) fs ''body'';
          Some \<lparr>av_kind = k, av_body = b\<rparr> }"

definition encode_event :: "cbor \<Rightarrow> app_texts \<Rightarrow> string \<Rightarrow> bytes \<Rightarrow> cli_error + bytes" where
  "encode_event cb tx kind body =
     map_err (\<lambda>e. CliProtocol (''event: '' @ tx_signed tx e))
       (signed_canonical cb (struct (app_event_fields \<lparr>av_kind = kind, av_body = body\<rparr>)))"

text \<open>The text of a decoding error of the CBOR library is an argument.\<close>

definition decode_event :: "cbor \<Rightarrow> string \<Rightarrow> bytes \<Rightarrow> cli_error + app_event" where
  "decode_event cb why bs = ok_or (decode_as cb (app_event_from_value cb) bs) (CliProtocol (''event: '' @ why))"

section \<open>Fan-out\<close>

definition swap_at :: "nat \<Rightarrow> nat \<Rightarrow> 'a list \<Rightarrow> 'a list" where
  "swap_at i j xs = xs[i := xs ! j, j := xs ! i]"

fun shuffle_from :: "(nat \<Rightarrow> u64 option) \<Rightarrow> nat \<Rightarrow> nat list \<Rightarrow> nat list option" where
  "shuffle_from draw 0 order = Some order"
| "shuffle_from draw (Suc i) order =
     (case draw (Suc i) of
        None \<Rightarrow> None
      | Some d \<Rightarrow> shuffle_from draw i (swap_at (Suc i) (unat (d mod (word_of_nat (Suc i) + 1))) order))"

definition shuffled_order :: "(nat \<Rightarrow> u64 option) \<Rightarrow> nat \<Rightarrow> nat list option" where
  "shuffled_order draw n = shuffle_from draw (n - 1) [0..<n]"

record queued_delivery =
  qd_mailbox_id :: bytes
  qd_delivery_id :: bytes

record fan_out =
  fo_deliveries :: "queued_delivery list"
  fo_no_route :: nat
  fo_revoked :: nat

text \<open>The randomness of one fan-out: the draws of the order and, for the peer at each index, the delivery id and
  the seed of the sealing.\<close>

record fan_random =
  fr_draw :: "nat \<Rightarrow> u64 option"
  fr_delivery_id :: "nat \<Rightarrow> bytes option"
  fr_seed :: "nat \<Rightarrow> bytes"

definition enqueue_for ::
  "cbor \<Rightarrow> hpke \<Rightarrow> int \<Rightarrow> bytes \<Rightarrow> bytes option \<Rightarrow> bytes \<Rightarrow> peer \<Rightarrow> bytes option \<Rightarrow> bytes \<Rightarrow>
   (delivery, sql_error, queued_delivery option) op" where
  "enqueue_for cb hp now rid delivery_id seed p event mls_bytes =
     (case (pe_mailbox p, pe_hpke p) of
        (Some mailbox, Some hpke) \<Rightarrow>
          op_then (op_lift (ok_or delivery_id InvalidQuery)) (\<lambda>did.
          op_then (op_lift (map_err (\<lambda>_. InvalidQuery)
            (envelope_seal cb hp seed hpke (envelope_context_new rid mailbox did) KIND_MLS mls_bytes))) (\<lambda>sl.
          op_then (enqueue now mailbox did event (s_enc sl) (s_ciphertext sl)) (\<lambda>_.
          op_return (Some \<lparr>qd_mailbox_id = mailbox, qd_delivery_id = did\<rparr>))))
      | _ \<Rightarrow> op_return None)"

fun enqueue_each ::
  "(nat \<Rightarrow> peer \<Rightarrow> (delivery, sql_error, queued_delivery option) op) \<Rightarrow> peer list \<Rightarrow> nat list \<Rightarrow> fan_out \<Rightarrow> (delivery, sql_error, fan_out) op" where
  "enqueue_each one peers [] out = op_return out"
| "enqueue_each one peers (i # order) out =
     (let p = peers ! i in
      if pe_revoked p then enqueue_each one peers order (out\<lparr>fo_revoked := fo_revoked out + 1\<rparr>)
      else op_then (one i p) (\<lambda>q.
        enqueue_each one peers order
          (case q of Some dl \<Rightarrow> out\<lparr>fo_deliveries := fo_deliveries out @ [dl]\<rparr> | None \<Rightarrow> out\<lparr>fo_no_route := fo_no_route out + 1\<rparr>)))"

definition enqueue_for_all ::
  "cbor \<Rightarrow> hpke \<Rightarrow> int \<Rightarrow> bytes \<Rightarrow> fan_random \<Rightarrow> peer list \<Rightarrow> bytes option \<Rightarrow> bytes \<Rightarrow> (delivery, sql_error, fan_out) op" where
  "enqueue_for_all cb hp now rid rnd peers event mls_bytes =
     op_then (op_lift (ok_or (shuffled_order (fr_draw rnd) (length peers)) InvalidQuery)) (\<lambda>order.
     enqueue_each (\<lambda>i p. enqueue_for cb hp now rid (fr_delivery_id rnd i) (fr_seed rnd i) p event mls_bytes) peers order
       \<lparr>fo_deliveries = [], fo_no_route = 0, fo_revoked = 0\<rparr>)"

definition local_acceptance_of :: "fan_out \<Rightarrow> local_acceptance" where
  "local_acceptance_of f = \<lparr>la_envelopes = length (fo_deliveries f), la_peers_without_route = fo_no_route f,
     la_revoked_devices = fo_revoked f\<rparr>"

definition record_queued_deliveries :: "bytes \<Rightarrow> fan_out \<Rightarrow> unit action" where
  "record_queued_deliveries event f =
     op_for (fo_deliveries f) (\<lambda>d. record_change (Ch_DeliveryChanged (Some event) (qd_mailbox_id d) (qd_delivery_id d) StatusQueued))"

section \<open>Publishing\<close>

record ('c, 'm) world =
  wd_client :: client
  wd_delivery :: delivery
  wd_task :: task
  wd_conn :: 'c
  wd_mls :: 'm

definition on_delivery :: "app_texts \<Rightarrow> string \<Rightarrow> (delivery, sql_error, 'a) op \<Rightarrow> (('c, 'm) world, cli_error, 'a) op" where
  "on_delivery tx ctx m w =
     (case m (wd_delivery w) of (r, d) \<Rightarrow> (map_err (\<lambda>e. CliStorage (ctx @ '': '' @ tx_sql tx e)) r, w\<lparr>wd_delivery := d\<rparr>))"

definition on_task :: "'a action \<Rightarrow> (('c, 'm) world, cli_error, 'a) op" where
  "on_task m w = (case m (wd_task w) of (r, t) \<Rightarrow> (r, w\<lparr>wd_task := t\<rparr>))"

definition on_conn :: "('c, cli_error, 'a) op \<Rightarrow> (('c, 'm) world, cli_error, 'a) op" where
  "on_conn m w = (case m (wd_conn w) of (r, c) \<Rightarrow> (r, w\<lparr>wd_conn := c\<rparr>))"

definition write_cap_for :: "client \<Rightarrow> bytes \<Rightarrow> cli_error + bytes" where
  "write_cap_for s mailbox =
     (case find (\<lambda>p. pe_mailbox p = Some mailbox \<and> pe_write_cap p \<noteq> None) (concat (map cn_peers (conversations s))) of
        Some p \<Rightarrow> ok_or (pe_write_cap p) (CliDomain ''no write capability for a pending envelope'')
      | None \<Rightarrow> Inl (CliDomain ''no write capability for a pending envelope''))"

definition requested_expiry :: "u64 option \<Rightarrow> u64 \<Rightarrow> u64" where
  "requested_expiry ttl now = (case ttl of Some t \<Rightarrow> now + t | None \<Rightarrow> 0)"

definition delivery_change :: "outbox_row \<Rightarrow> delivery_status \<Rightarrow> (('c, 'm) world, cli_error, unit) op" where
  "delivery_change row st = on_task (record_change (Ch_DeliveryChanged (ob_event_id row) (ob_mailbox_id row) (ob_delivery_id row) st))"

definition envelope_put :: "u64 \<Rightarrow> bytes \<Rightarrow> outbox_row \<Rightarrow> payload" where
  "envelope_put expiry cap row = EnvelopePut (ob_mailbox_id row) cap (ob_delivery_id row) expiry (ob_hpke_enc row) (ob_ciphertext row)"

definition accepted_expiry :: "payload \<Rightarrow> u64 option" where
  "accepted_expiry p = (case p of EnvelopeAccepted effective_expiry \<Rightarrow> Some effective_expiry | _ \<Rightarrow> None)"

text \<open>\<open>expiry\<close> gives what \<open>requested_expiry\<close> returned at the time each row was sent.\<close>

definition publish_one ::
  "(payload \<Rightarrow> ('c, cli_error, payload) op) \<Rightarrow> app_texts \<Rightarrow> (int \<Rightarrow> u64) \<Rightarrow> outbox_row \<Rightarrow> (('c, 'm) world, cli_error, nat) op" where
  "publish_one rq tx expiry row =
     op_then (op_get wd_client) (\<lambda>s.
     op_then (op_lift (write_cap_for s (ob_mailbox_id row))) (\<lambda>cap.
     op_then (on_delivery tx ''outbox'' (mark_attempt (ob_id row))) (\<lambda>_ w.
     case rq (envelope_put (expiry (ob_id row)) cap row) (wd_conn w) of
       (Inr reply, c) \<Rightarrow>
         (case accepted_expiry reply of
            Some effective_expiry \<Rightarrow>
              op_then (on_delivery tx ''outbox'' (mark_accepted (ob_id row) (Some (as_i64 effective_expiry)))) (\<lambda>_.
              op_then (delivery_change row (StatusAccepted effective_expiry)) (\<lambda>_. op_return 1)) (w\<lparr>wd_conn := c\<rparr>)
          | None \<Rightarrow> (Inl (CliProtocol (''unexpected reply: '' @ tx_debug tx reply)), w\<lparr>wd_conn := c\<rparr>))
     | (Inl e, c) \<Rightarrow>
         if relay_code e = Some 403 \<or> relay_code e = Some 410 then
           op_then (on_delivery tx ''outbox'' (mark_undeliverable (ob_id row))) (\<lambda>_.
           op_then (delivery_change row (StatusUndeliverable (error_text e))) (\<lambda>_. op_return 0)) (w\<lparr>wd_conn := c\<rparr>)
         else (Inl e, w\<lparr>wd_conn := c\<rparr>))))"

fun publish_rows ::
  "(payload \<Rightarrow> ('c, cli_error, payload) op) \<Rightarrow> app_texts \<Rightarrow> (int \<Rightarrow> u64) \<Rightarrow> outbox_row list \<Rightarrow> nat \<Rightarrow> (('c, 'm) world, cli_error, nat) op" where
  "publish_rows rq tx expiry [] n = op_return n"
| "publish_rows rq tx expiry (row # rows) n =
     op_then (publish_one rq tx expiry row) (\<lambda>k. publish_rows rq tx expiry rows (n + k))"

definition publish_pending :: "(payload \<Rightarrow> ('c, cli_error, payload) op) \<Rightarrow> app_texts \<Rightarrow> (int \<Rightarrow> u64) \<Rightarrow> (('c, 'm) world, cli_error, nat) op" where
  "publish_pending rq tx expiry =
     op_then (op_get (\<lambda>w. pending (wd_delivery w))) (\<lambda>rows. publish_rows rq tx expiry rows 0)"

section \<open>The order of a fan-out\<close>

lemma swap_at_mset: "i < length xs \<Longrightarrow> j < length xs \<Longrightarrow> mset (swap_at i j xs) = mset xs"
  unfolding swap_at_def by (rule mset_swap)

lemma draw_index: "Suc i < 2 ^ 64 - 1 \<Longrightarrow> unat ((d :: u64) mod (word_of_nat (Suc i) + 1)) \<le> Suc i"
proof -
  assume "Suc i < 2 ^ 64 - 1"
  then have "unat (word_of_nat (Suc i) + 1 :: u64) = Suc i + 1"
    by (simp add: unat_word_ariths(1) unat_of_nat take_bit_nat_eq_self)
  moreover have "unat (d mod (word_of_nat (Suc i) + 1)) = unat d mod unat (word_of_nat (Suc i) + 1 :: u64)"
    by (rule unat_mod_distrib)
  ultimately show ?thesis
    by (metis Suc_eq_plus1 less_Suc_eq_le mod_less_divisor zero_less_Suc)
qed

lemma shuffle_from_perm:
  assumes "i < length order \<or> i = 0" and "length order < 2 ^ 64 - 1" and "\<forall>k. draw k \<noteq> None"
  shows "\<exists>order'. shuffle_from draw i order = Some order' \<and> mset order' = mset order"
  using assms(1,2)
proof (induction i arbitrary: order)
  case (Suc i)
  obtain d where d: "draw (Suc i) = Some d"
    using assms(3) by blast
  let ?o = "swap_at (Suc i) (unat (d mod (word_of_nat (Suc i) + 1))) order"
  have "unat (d mod (word_of_nat (Suc i) + 1)) \<le> Suc i"
    using Suc.prems by (intro draw_index) simp
  then have "mset ?o = mset order"
    using Suc.prems by (intro swap_at_mset) auto
  moreover have "length ?o = length order"
    by (simp add: swap_at_def)
  ultimately show ?case
    using Suc.IH [of ?o] Suc.prems d by auto
qed simp

lemma shuffled_order_perm:
  "n < 2 ^ 64 - 1 \<Longrightarrow> \<forall>k. draw k \<noteq> None \<Longrightarrow> \<exists>order. shuffled_order draw n = Some order \<and> mset order = mset [0..<n]"
  unfolding shuffled_order_def using shuffle_from_perm [of "n - 1" "[0..<n]" draw] by (cases n) auto

section \<open>Who gets an envelope\<close>

definition sendable :: "peer \<Rightarrow> bool" where
  "sendable p \<longleftrightarrow> \<not> pe_revoked p \<and> pe_mailbox p \<noteq> None \<and> pe_hpke p \<noteq> None"

text \<open>The outbox row sealed for a peer.\<close>

definition sealed_for :: "cbor \<Rightarrow> hpke \<Rightarrow> bytes \<Rightarrow> bytes option \<Rightarrow> bytes \<Rightarrow> peer \<Rightarrow> outbox_row \<Rightarrow> bool" where
  "sealed_for cb hp rid event mls_bytes p row \<longleftrightarrow>
     pe_mailbox p = Some (ob_mailbox_id row) \<and> ob_event_id row = event \<and> ob_state row = ''sealed'' \<and> ob_attempts row = 0 \<and>
     (\<exists>seed key. pe_hpke p = Some key \<and>
        envelope_seal cb hp seed key (envelope_context_new rid (ob_mailbox_id row) (ob_delivery_id row)) KIND_MLS mls_bytes =
          Inr \<lparr>s_enc = ob_hpke_enc row, s_ciphertext = ob_ciphertext row\<rparr>)"

definition queued_row :: "outbox_row \<Rightarrow> queued_delivery" where
  "queued_row row = \<lparr>qd_mailbox_id = ob_mailbox_id row, qd_delivery_id = ob_delivery_id row\<rparr>"

text \<open>What a fan-out needs: delivery ids that no envelope has yet, and that the message can be sealed for each device with the seed
  drawn for it (sealing fails for payloads that no bucket can hold, see \<open>Envelope.payload_197_refused\<close>).\<close>

definition fan_ready :: "cbor \<Rightarrow> hpke \<Rightarrow> bytes \<Rightarrow> fan_random \<Rightarrow> peer list \<Rightarrow> bytes \<Rightarrow> nat list \<Rightarrow> delivery \<Rightarrow> bool" where
  "fan_ready cb hp rid rnd peers mls_bytes order d \<longleftrightarrow>
     (\<forall>i\<in>set order. \<exists>did. fr_delivery_id rnd i = Some did \<and> did \<notin> ob_delivery_id ` set (outbox d)) \<and>
     inj_on (fr_delivery_id rnd) (set order) \<and>
     (\<forall>i\<in>set order. \<forall>m k did. sendable (peers ! i) \<and> pe_mailbox (peers ! i) = Some m \<and> pe_hpke (peers ! i) = Some k \<and>
        fr_delivery_id rnd i = Some did \<longrightarrow>
        (\<exists>sl. envelope_seal cb hp (fr_seed rnd i) k (envelope_context_new rid m did) KIND_MLS mls_bytes = Inr sl))"

lemma enqueue_for_sendable:
  assumes "sendable p" and "fr_delivery_id rnd i = Some did" and "did \<notin> ob_delivery_id ` set (outbox d)"
    and "\<And>m k. pe_mailbox p = Some m \<Longrightarrow> pe_hpke p = Some k \<Longrightarrow>
      \<exists>sl. envelope_seal cb hp (fr_seed rnd i) k (envelope_context_new rid m did) KIND_MLS mls_bytes = Inr sl"
  shows "\<exists>row. enqueue_for cb hp now rid (fr_delivery_id rnd i) (fr_seed rnd i) p event mls_bytes d =
      (Inr (Some (queued_row row)), d\<lparr>outbox := outbox d @ [row]\<rparr>) \<and> sealed_for cb hp rid event mls_bytes p row \<and>
      ob_delivery_id row = did"
proof -
  obtain m k where p: "pe_mailbox p = Some m" "pe_hpke p = Some k"
    using assms(1) by (auto simp: sendable_def)
  obtain sl where sl: "envelope_seal cb hp (fr_seed rnd i) k (envelope_context_new rid m did) KIND_MLS mls_bytes = Inr sl"
    using assms(4) [OF p] by blast
  then have sl': "envelope_seal cb hp (fr_seed rnd i) k (envelope_context_new rid m did) KIND_MLS mls_bytes =
      Inr \<lparr>s_enc = s_enc sl, s_ciphertext = s_ciphertext sl\<rparr>"
    by simp
  have "enqueue now m did event (s_enc sl) (s_ciphertext sl) d =
    (Inr (), d\<lparr>outbox := outbox d @ [\<lparr>ob_id = next_id (map ob_id (outbox d)), ob_mailbox_id = m, ob_delivery_id = did,
          ob_event_id = event, ob_hpke_enc = s_enc sl, ob_ciphertext = s_ciphertext sl, ob_state = ''sealed'',
          ob_attempts = 0, ob_expires_at = None, ob_created_at = now\<rparr>]\<rparr>)"
    using assms(3) by (auto simp: enqueue_def)
  then show ?thesis
    using p sl assms(2) by (auto simp: enqueue_for_def op_then_def queued_row_def sealed_for_def intro!: exI sl')
qed

lemma fan_ready_next:
  assumes ready: "fan_ready cb hp rid rnd peers mls_bytes (i # order) d" and "i \<notin> set order"
    and row: "fr_delivery_id rnd i = Some (ob_delivery_id row)"
  shows "fan_ready cb hp rid rnd peers mls_bytes order (d\<lparr>outbox := outbox d @ [row]\<rparr>)"
proof -
  have "\<exists>did. fr_delivery_id rnd j = Some did \<and> did \<notin> ob_delivery_id ` set (outbox d @ [row])" if j: "j \<in> set order" for j
  proof -
    obtain did where did: "fr_delivery_id rnd j = Some did" "did \<notin> ob_delivery_id ` set (outbox d)"
      using ready j unfolding fan_ready_def by (metis list.set_intros(2))
    moreover have "fr_delivery_id rnd j \<noteq> fr_delivery_id rnd i"
      using ready j assms(2) unfolding fan_ready_def by (metis inj_on_def list.set_intros)
    ultimately show ?thesis
      using row by simp
  qed
  then show ?thesis
    using ready unfolding fan_ready_def by (simp add: inj_on_def)
qed

lemma enqueue_each_correct:
  assumes "distinct order" and "fan_ready cb hp rid rnd peers mls_bytes order d"
  shows "\<exists>rows out' d'. enqueue_each (\<lambda>i p. enqueue_for cb hp now rid (fr_delivery_id rnd i) (fr_seed rnd i) p event mls_bytes)
        peers order out d = (Inr out', d') \<and> d' = d\<lparr>outbox := outbox d @ rows\<rparr> \<and>
      list_all2 (\<lambda>i row. sealed_for cb hp rid event mls_bytes (peers ! i) row) (filter (\<lambda>i. sendable (peers ! i)) order) rows \<and>
      fo_deliveries out' = fo_deliveries out @ map queued_row rows \<and>
      fo_revoked out' = fo_revoked out + length (filter (\<lambda>i. pe_revoked (peers ! i)) order) \<and>
      fo_no_route out' = fo_no_route out + length (filter (\<lambda>i. \<not> pe_revoked (peers ! i) \<and> \<not> sendable (peers ! i)) order)"
  using assms
proof (induction order arbitrary: out d)
  case Nil
  then show ?case
    by (auto intro!: exI [of _ "[]"])
next
  case (Cons i order)
  have rest: "fan_ready cb hp rid rnd peers mls_bytes order d"
    using Cons.prems(2) by (auto simp: fan_ready_def)
  consider "pe_revoked (peers ! i)" | "\<not> pe_revoked (peers ! i)" "\<not> sendable (peers ! i)" | "sendable (peers ! i)"
    by blast
  then show ?case
  proof cases
    case 1
    then show ?thesis
      using Cons.IH [OF _ rest, of "out\<lparr>fo_revoked := fo_revoked out + 1\<rparr>"] Cons.prems(1) by (auto simp: Let_def sendable_def)
  next
    case 2
    then have "enqueue_for cb hp now rid (fr_delivery_id rnd i) (fr_seed rnd i) (peers ! i) event mls_bytes d = (Inr None, d)"
      by (auto simp: enqueue_for_def sendable_def split: option.splits)
    then show ?thesis
      using Cons.IH [OF _ rest, of "out\<lparr>fo_no_route := fo_no_route out + 1\<rparr>"] Cons.prems(1) 2 by (auto simp: Let_def op_then_def)
  next
    case 3
    obtain did where did: "fr_delivery_id rnd i = Some did" "did \<notin> ob_delivery_id ` set (outbox d)"
      using Cons.prems(2) by (auto simp: fan_ready_def)
    obtain row where row: "enqueue_for cb hp now rid (fr_delivery_id rnd i) (fr_seed rnd i) (peers ! i) event mls_bytes d =
        (Inr (Some (queued_row row)), d\<lparr>outbox := outbox d @ [row]\<rparr>)" "sealed_for cb hp rid event mls_bytes (peers ! i) row"
      "ob_delivery_id row = did"
      using enqueue_for_sendable [of "peers ! i" rnd i did d cb hp rid mls_bytes now event] 3 did Cons.prems(2)
      by (auto simp: fan_ready_def)
    have "fan_ready cb hp rid rnd peers mls_bytes order (d\<lparr>outbox := outbox d @ [row]\<rparr>)"
      using Cons.prems did(1) row(3) by (intro fan_ready_next) auto
    from Cons.IH [OF _ this, of "out\<lparr>fo_deliveries := fo_deliveries out @ [queued_row row]\<rparr>"] Cons.prems(1)
    obtain rows out' where "enqueue_each (\<lambda>i p. enqueue_for cb hp now rid (fr_delivery_id rnd i) (fr_seed rnd i) p event mls_bytes)
          peers order (out\<lparr>fo_deliveries := fo_deliveries out @ [queued_row row]\<rparr>) (d\<lparr>outbox := outbox d @ [row]\<rparr>) =
        (Inr out', d\<lparr>outbox := outbox d @ row # rows\<rparr>)"
      "list_all2 (\<lambda>i row. sealed_for cb hp rid event mls_bytes (peers ! i) row) (filter (\<lambda>i. sendable (peers ! i)) order) rows"
      "fo_deliveries out' = fo_deliveries out @ map queued_row (row # rows)"
      "fo_revoked out' = fo_revoked out + length (filter (\<lambda>i. pe_revoked (peers ! i)) order)"
      "fo_no_route out' = fo_no_route out + length (filter (\<lambda>i. \<not> pe_revoked (peers ! i) \<and> \<not> sendable (peers ! i)) order)"
      by auto
    moreover have "\<not> pe_revoked (peers ! i)"
      using 3 by (simp add: sendable_def)
    ultimately show ?thesis
      using 3 row by (intro exI [of _ "row # rows"]) (simp add: Let_def op_then_def)
  qed
qed

text \<open>A queued row is for the peer's mailbox, and whoever holds the secret key of the peer's route opens it to the
  message.\<close>

definition delivers_to :: "cbor \<Rightarrow> hpke \<Rightarrow> bytes \<Rightarrow> bytes option \<Rightarrow> bytes \<Rightarrow> peer \<Rightarrow> outbox_row \<Rightarrow> bool" where
  "delivers_to cb hp rid event mls_bytes p row \<longleftrightarrow>
     pe_mailbox p = Some (ob_mailbox_id row) \<and> ob_event_id row = event \<and> ob_state row = ''sealed'' \<and>
     (\<forall>sk. pe_hpke p = Some (hpke_public hp sk) \<longrightarrow>
        (\<exists>inner. envelope_open cb hp sk (envelope_context_new rid (ob_mailbox_id row) (ob_delivery_id row))
           \<lparr>s_enc = ob_hpke_enc row, s_ciphertext = ob_ciphertext row\<rparr> = Inr inner \<and>
           ip_kind inner = KIND_MLS \<and> ip_payload inner = mls_bytes))"

lemma sealed_for_delivers:
  assumes "cbor_codec cb" and "hpke_ok hp" and "inner_size (bare KIND_MLS mls_bytes) < 2 ^ 32"
    and "sealed_for cb hp rid event mls_bytes p row"
  shows "delivers_to cb hp rid event mls_bytes p row"
  using assms(4) seal_open(1) [OF assms(1-3)] by (fastforce simp: sealed_for_def bare_def delivers_to_def)

text \<open>C27. A fan-out is complete: when the randomness is there and the message can be sealed, it succeeds and queues, in a permutation of the roster, one
  envelope for each device that has a route and is not known to be revoked, and none for any other; each
  opens, at the device it is for, to exactly the message; the report counts the three kinds of devices;
  nothing else of the store changes.\<close>

theorem fan_out_correct:
  assumes "cbor_codec cb" and "hpke_ok hp" and "inner_size (bare KIND_MLS mls_bytes) < 2 ^ 32"
    and "length peers < 2 ^ 64 - 1" and "\<forall>k. fr_draw rnd k \<noteq> None"
    and "fan_ready cb hp rid rnd peers mls_bytes [0..<length peers] d"
  shows "\<exists>order rows out. enqueue_for_all cb hp now rid rnd peers event mls_bytes d = (Inr out, d\<lparr>outbox := outbox d @ rows\<rparr>) \<and>
    mset order = mset [0..<length peers] \<and>
    list_all2 (\<lambda>i row. delivers_to cb hp rid event mls_bytes (peers ! i) row)
      (filter (\<lambda>i. sendable (peers ! i)) order) rows \<and>
    fo_deliveries out = map queued_row rows \<and>
    fo_revoked out = length (filter pe_revoked peers) \<and>
    length rows + fo_no_route out + fo_revoked out = length peers"
proof -
  obtain order where order: "shuffled_order (fr_draw rnd) (length peers) = Some order" "mset order = mset [0..<length peers]"
    using shuffled_order_perm [OF assms(4,5)] by blast
  have same: "set order = set [0..<length peers]" "distinct order"
    using order(2) by (metis mset_eq_setD, metis distinct_upt mset_eq_imp_distinct_iff)
  then have "fan_ready cb hp rid rnd peers mls_bytes order d"
    using assms(6) unfolding fan_ready_def by simp
  then obtain rows out where each: "enqueue_each (\<lambda>i p. enqueue_for cb hp now rid (fr_delivery_id rnd i) (fr_seed rnd i) p event mls_bytes)
        peers order \<lparr>fo_deliveries = [], fo_no_route = 0, fo_revoked = 0\<rparr> d = (Inr out, d\<lparr>outbox := outbox d @ rows\<rparr>)"
    "list_all2 (\<lambda>i row. sealed_for cb hp rid event mls_bytes (peers ! i) row) (filter (\<lambda>i. sendable (peers ! i)) order) rows"
    "fo_deliveries out = map queued_row rows"
    "fo_revoked out = length (filter (\<lambda>i. pe_revoked (peers ! i)) order)"
    "fo_no_route out = length (filter (\<lambda>i. \<not> pe_revoked (peers ! i) \<and> \<not> sendable (peers ! i)) order)"
    using enqueue_each_correct [OF same(2), of cb hp rid rnd peers mls_bytes d now event "\<lparr>fo_deliveries = [], fo_no_route = 0, fo_revoked = 0\<rparr>"] by auto
  have count: "length (filter P order) = length (filter P [0..<length peers])" for P
    using order(2) by (metis mset_filter size_mset)
  have "length (filter (\<lambda>i. Q (peers ! i)) [0..<length peers]) = length (filter Q (map ((!) peers) [0..<length peers]))" for Q
    by (simp add: filter_map comp_def)
  then have revoked: "fo_revoked out = length (filter pe_revoked peers)"
    by (simp add: each(4) count map_nth)
  have "length (filter (\<lambda>i. sendable (peers ! i)) order) + length (filter (\<lambda>i. \<not> pe_revoked (peers ! i) \<and> \<not> sendable (peers ! i)) order) +
      length (filter (\<lambda>i. pe_revoked (peers ! i)) order) = length order"
    by (induction order) (auto simp: sendable_def)
  moreover have "length order = length peers"
    using order(2) by (metis diff_zero length_upt size_mset)
  ultimately have total: "length rows + fo_no_route out + fo_revoked out = length peers"
    using list_all2_lengthD [OF each(2)] each(4,5) by simp
  have "enqueue_for_all cb hp now rid rnd peers event mls_bytes d = (Inr out, d\<lparr>outbox := outbox d @ rows\<rparr>)"
    using order(1) each(1) by (simp add: enqueue_for_all_def op_then_def)
  moreover have "list_all2 (\<lambda>i row. delivers_to cb hp rid event mls_bytes (peers ! i) row) (filter (\<lambda>i. sendable (peers ! i)) order) rows"
    using each(2) by (rule list_all2_mono) (rule sealed_for_delivers [OF assms(1-3)])
  ultimately show ?thesis
    using order(2) each(3) revoked total by blast
qed

section \<open>What publishing does to the outbox\<close>

text \<open>The parts of a row that sealing fixed.\<close>

definition same_envelope :: "outbox_row \<Rightarrow> outbox_row \<Rightarrow> bool" where
  "same_envelope a b \<longleftrightarrow> ob_id a = ob_id b \<and> ob_mailbox_id a = ob_mailbox_id b \<and> ob_delivery_id a = ob_delivery_id b \<and>
     ob_event_id a = ob_event_id b \<and> ob_hpke_enc a = ob_hpke_enc b \<and> ob_ciphertext a = ob_ciphertext b"

lemma on_delivery_modify: "on_delivery tx ctx (op_modify f) w = (Inr (), w\<lparr>wd_delivery := f (wd_delivery w)\<rparr>)"
  by (simp add: on_delivery_def)

lemma delivery_change_effect:
  "\<exists>t. delivery_change row st w = (Inr (), w\<lparr>wd_task := t\<rparr>)"
  by (auto simp: delivery_change_def on_task_def record_change_def op_then_def)

definition set_row :: "int \<Rightarrow> (outbox_row \<Rightarrow> outbox_row) \<Rightarrow> outbox_row \<Rightarrow> outbox_row" where
  "set_row i f r = (if ob_id r = i then f r else r)"

lemma update_outbox_map: "update_outbox i f d = d\<lparr>outbox := map (set_row i f) (outbox d)\<rparr>"
  by (simp add: update_outbox_def set_row_def [abs_def])

lemma set_row_id: "set_row i (\<lambda>x. x) = (\<lambda>x. x)"
  by (simp add: set_row_def [abs_def])

text \<open>What a pass over some rows leaves: \<open>g\<close> changes no sealed bytes, ends the rows that were done, and may count an
  attempt on the row that stopped it.\<close>

definition pass_effect :: "outbox_row list \<Rightarrow> outbox_row list \<Rightarrow> (outbox_row \<Rightarrow> outbox_row) \<Rightarrow> bool" where
  "pass_effect fin todo g \<longleftrightarrow>
     (\<forall>x. same_envelope (g x) x) \<and>
     (\<forall>x. ob_id x \<in> ob_id ` set fin \<longrightarrow> ob_state (g x) = ''accepted'' \<or> ob_state (g x) = ''undeliverable'') \<and>
     (\<forall>x. ob_id x \<notin> ob_id ` set fin \<longrightarrow> ob_state (g x) = ob_state x) \<and>
     (\<forall>x. ob_id x \<notin> ob_id ` set (fin @ take 1 todo) \<longrightarrow> g x = x)"

text \<open>What became of an envelope: accepted until a time, or given up.\<close>

datatype verdict = PutAccepted u64 | PutRefused

fun settled :: "verdict \<Rightarrow> outbox_row \<Rightarrow> outbox_row" where
  "settled (PutAccepted x) r = r\<lparr>ob_attempts := ob_attempts r + 1, ob_state := ''accepted'', ob_expires_at := Some (as_i64 x)\<rparr>"
| "settled PutRefused r = r\<lparr>ob_attempts := ob_attempts r + 1, ob_state := ''undeliverable''\<rparr>"

text \<open>The request a row is published with: the sealed bytes as they are stored, to the mailbox they were sealed for, with the
  write capability of a peer that has that mailbox.\<close>

definition put_of :: "client \<Rightarrow> (int \<Rightarrow> u64) \<Rightarrow> outbox_row \<Rightarrow> cli_error + payload" where
  "put_of s expiry row = map_sum id (\<lambda>cap. EnvelopePut (ob_mailbox_id row) cap (ob_delivery_id row) (expiry (ob_id row))
     (ob_hpke_enc row) (ob_ciphertext row)) (write_cap_for s (ob_mailbox_id row))"

inductive publishes ::
  "(payload \<Rightarrow> ('c, cli_error, payload) op) \<Rightarrow> client \<Rightarrow> (int \<Rightarrow> u64) \<Rightarrow> 'c \<Rightarrow> outbox_row list \<Rightarrow> verdict list \<Rightarrow> 'c \<Rightarrow> bool"
  for rq s expiry where
  publishes_none: "publishes rq s expiry c [] [] c"
| publishes_accepted: "put_of s expiry row = Inr put \<Longrightarrow> rq put c = (Inr (EnvelopeAccepted x), c1) \<Longrightarrow> publishes rq s expiry c1 rows vs c2 \<Longrightarrow>
    publishes rq s expiry c (row # rows) (PutAccepted x # vs) c2"
| publishes_given_up: "put_of s expiry row = Inr put \<Longrightarrow> rq put c = (Inl (CliRelay code message), c1) \<Longrightarrow> code = 403 \<or> code = 410 \<Longrightarrow>
    publishes rq s expiry c1 rows vs c2 \<Longrightarrow> publishes rq s expiry c (row # rows) (PutRefused # vs) c2"

text \<open>How a row stops the pass: there is no capability for it, the request fails in a way that may pass, or the reply is none.\<close>

definition stops ::
  "(payload \<Rightarrow> ('c, cli_error, payload) op) \<Rightarrow> client \<Rightarrow> (int \<Rightarrow> u64) \<Rightarrow> 'c \<Rightarrow> outbox_row \<Rightarrow> cli_error \<Rightarrow> 'c \<Rightarrow> (outbox_row \<Rightarrow> outbox_row) \<Rightarrow> bool" where
  "stops rq s expiry c row e c' f \<longleftrightarrow>
     (put_of s expiry row = Inl e \<and> c' = c \<and> f = id) \<or>
     (\<exists>put. put_of s expiry row = Inr put \<and> f = (\<lambda>r. r\<lparr>ob_attempts := ob_attempts r + 1\<rparr>) \<and>
        (rq put c = (Inl e, c') \<and> relay_code e \<noteq> Some 403 \<and> relay_code e \<noteq> Some 410 \<or>
         (\<exists>reply why. rq put c = (Inr reply, c') \<and> (\<forall>x. reply \<noteq> EnvelopeAccepted x) \<and> e = CliProtocol why)))"

lemma accepted_expiry_cases: "accepted_expiry p = Some x \<longleftrightarrow> p = EnvelopeAccepted x"
  by (cases p) (simp_all add: accepted_expiry_def)

lemma put_of_Inr: "put_of s expiry row = Inr put \<longleftrightarrow>
    (\<exists>cap. write_cap_for s (ob_mailbox_id row) = Inr cap \<and> put = envelope_put (expiry (ob_id row)) cap row)"
  by (cases "write_cap_for s (ob_mailbox_id row)") (auto simp: put_of_def envelope_put_def)

lemma put_of_Inl: "put_of s expiry row = Inl e \<longleftrightarrow> write_cap_for s (ob_mailbox_id row) = Inl e"
  by (cases "write_cap_for s (ob_mailbox_id row)") (auto simp: put_of_def)

lemma relay_codes: "relay_code e = Some 403 \<or> relay_code e = Some 410 \<longleftrightarrow> (\<exists>code message. e = CliRelay code message \<and> (code = 403 \<or> code = 410))"
  by (cases e) auto

definition on_row :: "outbox_row \<Rightarrow> (outbox_row \<Rightarrow> outbox_row) \<Rightarrow> ('c, 'm) world \<Rightarrow> ('c, 'm) world \<Rightarrow> bool" where
  "on_row row f w w' \<longleftrightarrow> wd_client w' = wd_client w \<and> wd_mls w' = wd_mls w \<and>
     wd_delivery w' = (wd_delivery w)\<lparr>outbox := map (set_row (ob_id row) f) (outbox (wd_delivery w))\<rparr>"

lemma publish_one_result:
  assumes "publish_one rq tx expiry row w = (r, w')"
  shows "case r of
      Inr k \<Rightarrow> (\<exists>v. publishes rq (wd_client w) expiry (wd_conn w) [row] [v] (wd_conn w') \<and> k = (if v = PutRefused then 0 else 1) \<and>
        on_row row (settled v) w w')
    | Inl e \<Rightarrow> (\<exists>f. stops rq (wd_client w) expiry (wd_conn w) row e (wd_conn w') f \<and> on_row row f w w')"
proof (cases "write_cap_for (wd_client w) (ob_mailbox_id row)")
  case (Inl e)
  then have "r = Inl e" "w' = w"
    using assms by (auto simp: publish_one_def op_then_def)
  then show ?thesis
    using Inl by (auto simp: stops_def put_of_Inl put_of_Inr on_row_def set_row_id id_def intro!: exI [of _ id])
next
  case (Inr cap)
  let ?attempt = "\<lambda>x. x\<lparr>ob_attempts := ob_attempts x + 1\<rparr>"
  let ?put = "envelope_put (expiry (ob_id row)) cap row"
  have put: "put_of (wd_client w) expiry row = Inr ?put"
    using Inr by (simp add: put_of_Inr)
  obtain reply c where rq: "rq ?put (wd_conn w) = (reply, c)"
    by fastforce
  have twice: "update_outbox i f (update_outbox i ?attempt d) = d\<lparr>outbox := map (set_row i (f \<circ> ?attempt)) (outbox d)\<rparr>" for i f d
    by (simp add: update_outbox_map set_row_def [abs_def] comp_def)
  note effect = assms [unfolded publish_one_def op_then_def op_get_apply op_lift_apply mark_attempt_def on_delivery_modify]
  note one = publishes_none [of rq "wd_client w" expiry c]
  show ?thesis
  proof (cases reply)
    case ok: (Inr p)
    show ?thesis
    proof (cases "accepted_expiry p")
      case None
      then have "\<forall>x. p \<noteq> EnvelopeAccepted x"
        using accepted_expiry_cases [of p] by (metis option.distinct(1))
      then show ?thesis
        using effect Inr ok rq None put by (auto simp: update_outbox_map stops_def on_row_def intro!: exI [of _ ?attempt])
    next
      case (Some x)
      obtain t where "delivery_change row (StatusAccepted x) v = (Inr (), v\<lparr>wd_task := t v\<rparr>)" for v :: "('a, 'b) world"
        using delivery_change_effect by metis
      moreover have "publishes rq (wd_client w) expiry (wd_conn w) [row] [PutAccepted x] c"
        using publishes_accepted [OF put _ one] rq ok Some by (simp add: accepted_expiry_cases)
      ultimately show ?thesis
        using effect Inr ok rq Some
        by (auto simp: mark_accepted_def on_delivery_modify twice on_row_def comp_def set_row_def intro!: exI [of _ "PutAccepted x"])
    qed
  next
    case failed: (Inl e)
    show ?thesis
    proof (cases "relay_code e = Some 403 \<or> relay_code e = Some 410")
      case False
      then show ?thesis
        using effect Inr failed rq False put by (auto simp: update_outbox_map stops_def on_row_def intro!: exI [of _ ?attempt])
    next
      case True
      obtain t where "delivery_change row (StatusUndeliverable (error_text e)) v = (Inr (), v\<lparr>wd_task := t v\<rparr>)" for v :: "('a, 'b) world"
        using delivery_change_effect by metis
      moreover have "publishes rq (wd_client w) expiry (wd_conn w) [row] [PutRefused] c"
        using publishes_given_up [OF put _ _ one] rq failed True by (auto simp: relay_codes)
      ultimately show ?thesis
        using effect Inr failed rq True
        by (auto simp: mark_undeliverable_def on_delivery_modify twice on_row_def comp_def set_row_def intro!: exI [of _ PutRefused])
    qed
  qed
qed

inductive_cases publishes_oneE: "publishes rq s expiry c [row] [v] c1"
inductive_simps publishes_Nil: "publishes rq s expiry c [] [] c1"

lemma publishes_Cons:
  assumes "publishes rq s expiry c [row] [v] c1" and "publishes rq s expiry c1 rows vs c2"
  shows "publishes rq s expiry c (row # rows) (v # vs) c2"
  using assms(1)
proof (rule publishes_oneE)
  fix put x c1'
  assume "v = PutAccepted x" "put_of s expiry row = Inr put" "rq put c = (Inr (EnvelopeAccepted x), c1')" "publishes rq s expiry c1' [] [] c1"
  then show ?thesis
    using publishes_accepted assms(2) by (simp add: publishes_Nil)
next
  fix put code message c1'
  assume "v = PutRefused" "put_of s expiry row = Inr put" "rq put c = (Inl (CliRelay code message), c1')" "code = 403 \<or> code = 410"
    "publishes rq s expiry c1' [] [] c1"
  then show ?thesis
    using publishes_given_up assms(2) by (simp add: publishes_Nil)
qed

lemma publishes_length: "publishes rq s expiry c rows vs c' \<Longrightarrow> length vs = length rows"
  by (induction rule: publishes.induct) simp_all

fun settle_rows :: "outbox_row list \<Rightarrow> verdict list \<Rightarrow> outbox_row \<Rightarrow> outbox_row" where
  "settle_rows (row # rows) (v # vs) = settle_rows rows vs \<circ> set_row (ob_id row) (settled v)"
| "settle_rows _ _ = id"

lemma publish_rows_result:
  assumes "publish_rows rq tx expiry rows n w = (r, w')"
  shows "\<exists>fin todo vs c g. rows = fin @ todo \<and> publishes rq (wd_client w) expiry (wd_conn w) fin vs c \<and>
    wd_client w' = wd_client w \<and> wd_mls w' = wd_mls w \<and> wd_delivery w' = (wd_delivery w)\<lparr>outbox := map g (outbox (wd_delivery w))\<rparr> \<and>
    (case r of
       Inr k \<Rightarrow> todo = [] \<and> wd_conn w' = c \<and> k = n + length (filter (\<lambda>v. v \<noteq> PutRefused) vs) \<and> g = settle_rows fin vs
     | Inl e \<Rightarrow> (\<exists>row rest f. todo = row # rest \<and> stops rq (wd_client w) expiry c row e (wd_conn w') f \<and>
         g = set_row (ob_id row) f \<circ> settle_rows fin vs))"
  using assms
proof (induction rows arbitrary: n w)
  case Nil
  then show ?case
    by (intro exI [of _ "[]"] exI [of _ "wd_conn w"] exI [of _ id]) (auto intro: publishes_none)
next
  case (Cons row rows)
  obtain r1 w1 where one: "publish_one rq tx expiry row w = (r1, w1)"
    by fastforce
  show ?case
  proof (cases r1)
    case (Inl e)
    then have run: "r = Inl e" "w' = w1"
      using Cons.prems one by (simp_all add: op_then_def)
    obtain f where "stops rq (wd_client w) expiry (wd_conn w) row e (wd_conn w1) f" "on_row row f w w1"
      using publish_one_result [OF one] Inl by auto
    then show ?thesis
      using run by (intro exI [of _ "[]"] exI [of _ "row # rows"] exI [of _ "wd_conn w"] exI [of _ "set_row (ob_id row) f"])
        (auto simp: on_row_def intro: publishes_none)
  next
    case (Inr k)
    then have "publish_rows rq tx expiry rows (n + k) w1 = (r, w')"
      using Cons.prems one by (simp add: op_then_def)
    from Cons.IH [OF this] obtain fin todo vs c g where rest: "rows = fin @ todo" "publishes rq (wd_client w1) expiry (wd_conn w1) fin vs c"
      "wd_client w' = wd_client w1" "wd_mls w' = wd_mls w1" "wd_delivery w' = (wd_delivery w1)\<lparr>outbox := map g (outbox (wd_delivery w1))\<rparr>"
      "case r of
         Inr j \<Rightarrow> todo = [] \<and> wd_conn w' = c \<and> j = n + k + length (filter (\<lambda>v. v \<noteq> PutRefused) vs) \<and> g = settle_rows fin vs
       | Inl e \<Rightarrow> (\<exists>row rest f. todo = row # rest \<and> stops rq (wd_client w1) expiry c row e (wd_conn w') f \<and> g = set_row (ob_id row) f \<circ> settle_rows fin vs)"
      by blast
    obtain v where v: "publishes rq (wd_client w) expiry (wd_conn w) [row] [v] (wd_conn w1)" "k = (if v = PutRefused then 0 else 1)"
      "on_row row (settled v) w w1"
      using publish_one_result [OF one] Inr by auto
    have same: "wd_client w1 = wd_client w" "wd_mls w1 = wd_mls w"
      "wd_delivery w1 = (wd_delivery w)\<lparr>outbox := map (set_row (ob_id row) (settled v)) (outbox (wd_delivery w))\<rparr>"
      using v(3) by (simp_all add: on_row_def)
    show ?thesis
    proof (intro exI conjI)
      show "row # rows = (row # fin) @ todo" "wd_client w' = wd_client w" "wd_mls w' = wd_mls w"
        using rest(1,3,4) same(1,2) by simp_all
      show "publishes rq (wd_client w) expiry (wd_conn w) (row # fin) (v # vs) c"
        using publishes_Cons [OF v(1)] rest(2) same(1) by simp
      show "wd_delivery w' = (wd_delivery w)\<lparr>outbox := map (g \<circ> set_row (ob_id row) (settled v)) (outbox (wd_delivery w))\<rparr>"
        using rest(5) same(3) by simp
      show "case r of
         Inr j \<Rightarrow> todo = [] \<and> wd_conn w' = c \<and> j = n + length (filter (\<lambda>v. v \<noteq> PutRefused) (v # vs)) \<and>
           g \<circ> set_row (ob_id row) (settled v) = settle_rows (row # fin) (v # vs)
       | Inl e \<Rightarrow> (\<exists>row' rest f. todo = row' # rest \<and> stops rq (wd_client w) expiry c row' e (wd_conn w') f \<and>
           g \<circ> set_row (ob_id row) (settled v) = set_row (ob_id row') f \<circ> settle_rows (row # fin) (v # vs))"
        using rest(6) v(2) same(1) by (auto simp: comp_assoc split: sum.splits)
    qed
  qed
qed

lemma settled_same: "same_envelope (settled v x) x" "ob_state (settled v x) = ''accepted'' \<or> ob_state (settled v x) = ''undeliverable''"
  by (cases v; simp add: same_envelope_def)+

lemma settle_rows_other: "ob_id x \<notin> ob_id ` set fin \<Longrightarrow> settle_rows fin vs x = x"
  by (induction fin vs rule: settle_rows.induct) (auto simp: set_row_def)

lemma settle_rows_at:
  assumes "distinct (map ob_id fin)" and "length vs = length fin"
  shows "list_all2 (\<lambda>row v. \<forall>x. ob_id x = ob_id row \<longrightarrow> settle_rows fin vs x = settled v x) fin vs"
  using assms
proof (induction fin arbitrary: vs)
  case (Cons row fin)
  obtain v us where vs: "vs = v # us" "length us = length fin"
    using Cons.prems(2) by (cases vs) auto
  have ids: "ob_id (settled u x) = ob_id x" for u x
    using settled_same(1) by (simp add: same_envelope_def)
  have "list_all2 (\<lambda>row' u. \<forall>x. ob_id x = ob_id row' \<longrightarrow> settle_rows fin us (set_row (ob_id row) (settled v) x) = settled u x) fin us"
  proof -
    have "ob_id (fin ! i) \<noteq> ob_id row" if "i < length fin" for i
      using Cons.prems(1) nth_mem [OF that] by (metis distinct.simps(2) image_eqI list.map(2) list.set_map)
    moreover have "list_all2 (\<lambda>row v. \<forall>x. ob_id x = ob_id row \<longrightarrow> settle_rows fin us x = settled v x) fin us"
      using Cons.IH [OF _ vs(2)] Cons.prems(1) by simp
    ultimately show ?thesis
      by (simp add: list_all2_conv_all_nth set_row_def)
  qed
  then show ?case
    using Cons.prems(1) settle_rows_other [of _ fin us] ids by (auto simp: vs(1) set_row_def)
qed simp

lemma settle_rows_mem:
  assumes "distinct (map ob_id fin)" and "length vs = length fin" and "ob_id x \<in> ob_id ` set fin"
  shows "\<exists>v. settle_rows fin vs x = settled v x"
  using settle_rows_at [OF assms(1,2)] assms(3) by (fastforce simp: list_all2_conv_all_nth in_set_conv_nth)

lemma settle_rows_same:
  assumes "distinct (map ob_id fin)" and "length vs = length fin"
  shows "same_envelope (settle_rows fin vs x) x"
  using settle_rows_mem [OF assms, of x] settle_rows_other [of x fin vs] settled_same(1)
  by (cases "ob_id x \<in> ob_id ` set fin") (auto simp: same_envelope_def)

lemma stops_row: "stops rq s expiry c row e c' f \<Longrightarrow> same_envelope (f x) x \<and> ob_state (f x) = ob_state x"
  by (auto simp: stops_def same_envelope_def)

lemma publish_rows_pass:
  assumes "publish_rows rq tx expiry rows n w = (r, w')" and "distinct (map ob_id rows)"
  shows "\<exists>fin todo vs c g. rows = fin @ todo \<and> publishes rq (wd_client w) expiry (wd_conn w) fin vs c \<and>
    wd_client w' = wd_client w \<and> wd_mls w' = wd_mls w \<and> wd_delivery w' = (wd_delivery w)\<lparr>outbox := map g (outbox (wd_delivery w))\<rparr> \<and>
    pass_effect fin todo g \<and> list_all2 (\<lambda>row v. g row = settled v row) fin vs \<and>
    (case r of
       Inr k \<Rightarrow> todo = [] \<and> wd_conn w' = c \<and> k = n + length (filter (\<lambda>v. v \<noteq> PutRefused) vs)
     | Inl e \<Rightarrow> (\<exists>row rest f. todo = row # rest \<and> stops rq (wd_client w) expiry c row e (wd_conn w') f \<and> g row = f row))"
proof -
  obtain fin todo vs c g where pass: "rows = fin @ todo" "publishes rq (wd_client w) expiry (wd_conn w) fin vs c"
    "wd_client w' = wd_client w" "wd_mls w' = wd_mls w" "wd_delivery w' = (wd_delivery w)\<lparr>outbox := map g (outbox (wd_delivery w))\<rparr>"
    and res: "case r of
       Inr k \<Rightarrow> todo = [] \<and> wd_conn w' = c \<and> k = n + length (filter (\<lambda>v. v \<noteq> PutRefused) vs) \<and> g = settle_rows fin vs
     | Inl e \<Rightarrow> (\<exists>row rest f. todo = row # rest \<and> stops rq (wd_client w) expiry c row e (wd_conn w') f \<and>
         g = set_row (ob_id row) f \<circ> settle_rows fin vs)"
    using publish_rows_result [OF assms(1)] by (elim exE conjE)
  have d: "distinct (map ob_id fin)" "length vs = length fin" "\<And>x. x \<in> set todo \<Longrightarrow> ob_id x \<notin> ob_id ` set fin"
    using assms(2) pass(1) publishes_length [OF pass(2)] by auto
  note at = settle_rows_at [OF d(1,2)] and other = settle_rows_other [of _ fin vs] and mem = settle_rows_mem [OF d(1,2)]
    and env = settle_rows_same [OF d(1,2)]
  obtain h where h: "g = h \<circ> settle_rows fin vs" "\<And>x. same_envelope (h x) x \<and> ob_state (h x) = ob_state x"
    "\<And>x. ob_id x \<notin> ob_id ` set (take 1 todo) \<Longrightarrow> h x = x"
  proof (cases r)
    case (Inl e)
    then obtain row rest f where f: "todo = row # rest" "stops rq (wd_client w) expiry c row e (wd_conn w') f" "g = set_row (ob_id row) f \<circ> settle_rows fin vs"
      using res by auto
    have "same_envelope (set_row (ob_id row) f x) x \<and> ob_state (set_row (ob_id row) f x) = ob_state x" for x
      using stops_row [OF f(2), of x] by (simp add: set_row_def same_envelope_def)
    with f show thesis
      by (intro that [of "set_row (ob_id row) f"]) (auto simp: set_row_def)
  next
    case (Inr k)
    then show thesis
      using res by (intro that [of id]) (auto simp: same_envelope_def)
  qed
  have "pass_effect fin todo g"
    unfolding pass_effect_def
  proof (intro conjI allI impI)
    fix x
    show "same_envelope (g x) x"
      using h(1,2) env by (metis comp_apply same_envelope_def)
    show "ob_state (g x) = ''accepted'' \<or> ob_state (g x) = ''undeliverable''" if "ob_id x \<in> ob_id ` set fin"
      using mem [OF that] settled_same(2) h(1,2) by (metis comp_apply)
    show "ob_state (g x) = ob_state x" if "ob_id x \<notin> ob_id ` set fin"
      using other [OF that] h(1,2) by simp
    show "g x = x" if "ob_id x \<notin> ob_id ` set (fin @ take 1 todo)"
      using other [of x] h(1,3) that by (simp add: image_Un)
  qed
  moreover have "list_all2 (\<lambda>row v. g row = settled v row) fin vs"
    unfolding list_all2_conv_all_nth
  proof (intro conjI allI impI)
    show "length fin = length vs"
      using d(2) by simp
    fix i assume i: "i < length fin"
    have "ob_id (fin ! i) \<notin> ob_id ` set (take 1 todo)"
      using d(3) nth_mem [OF i] by (metis (no_types, lifting) image_iff in_set_takeD)
    moreover have "settle_rows fin vs (fin ! i) = settled (vs ! i) (fin ! i)"
      using at i by (simp add: list_all2_conv_all_nth)
    moreover have "ob_id (settled (vs ! i) (fin ! i)) = ob_id (fin ! i)"
      using settled_same(1) by (simp add: same_envelope_def)
    ultimately show "g (fin ! i) = settled (vs ! i) (fin ! i)"
      using h(1,3) by simp
  qed
  moreover have "case r of
       Inr k \<Rightarrow> todo = [] \<and> wd_conn w' = c \<and> k = n + length (filter (\<lambda>v. v \<noteq> PutRefused) vs)
     | Inl e \<Rightarrow> (\<exists>row rest f. todo = row # rest \<and> stops rq (wd_client w) expiry c row e (wd_conn w') f \<and> g row = f row)"
    using res d(3) other by (auto simp: set_row_def split: sum.splits)
  ultimately show ?thesis
    using pass by blast
qed

lemma sort_key_map_same: "(\<And>x. k (g x) = k x) \<Longrightarrow> sort_key k (map g xs) = map g (sort_key k xs)"
proof -
  assume k: "\<And>x. k (g x) = k x"
  have "insort_key k (g a) (map g ys) = map g (insort_key k a ys)" for a ys
    by (induction ys) (simp_all add: k)
  then show ?thesis
    by (induction xs) simp_all
qed

lemma pass_pending:
  assumes "distinct (map ob_id (outbox d))" and "pending d = fin @ todo" and "pass_effect fin todo g"
  shows "pending (d\<lparr>outbox := map g (outbox d)\<rparr>) = map g todo"
proof -
  have ids: "ob_id (g x) = ob_id x" for x
    using assms(3) by (simp add: pass_effect_def same_envelope_def)
  have "ob_state (g x) = ''sealed'' \<longleftrightarrow> ob_state x = ''sealed'' \<and> ob_id x \<notin> ob_id ` set fin" if "x \<in> set (outbox d)" for x
    using assms(3) unfolding pass_effect_def by (cases "ob_id x \<in> ob_id ` set fin") auto
  then have "filter (\<lambda>x. ob_state (g x) = ''sealed'') (outbox d) =
      filter (\<lambda>x. ob_id x \<notin> ob_id ` set fin) (filter (\<lambda>x. ob_state x = ''sealed'') (outbox d))"
    unfolding filter_filter by (intro filter_cong) auto
  then have "pending (d\<lparr>outbox := map g (outbox d)\<rparr>) = map g (filter (\<lambda>x. ob_id x \<notin> ob_id ` set fin) (pending d))"
    by (simp add: pending_def filter_map comp_def sort_key_map_same ids filter_sort)
  moreover have "distinct (map ob_id (fin @ todo))"
    using assms(1) unfolding assms(2) [symmetric] by (simp add: pending_def distinct_map inj_on_def)
  then have "filter (\<lambda>x. ob_id x \<notin> ob_id ` set fin) (pending d) = todo"
    unfolding assms(2) by (auto simp: filter_id_conv filter_empty_conv)
  ultimately show ?thesis
    by simp
qed

text \<open>C28. Publishing: from every reachable store and for every behaviour of the connection, the pending envelopes are
  taken in the order they were queued. Each is sent as it was sealed, to the mailbox it was sealed for; one that the
  relay accepts is marked accepted until the time it names, one that it refuses with 403 or 410 is given up, and the first that
  fails in any other way, or for which there is no capability, ends the pass with that error and stays pending with everything
  behind it, which has not been tried. The number returned counts the accepted ones. No envelope is resealed,
  redirected or lost, and no other row or table changes.\<close>

theorem publish_pending_correct:
  assumes "delivery_step\<^sup>*\<^sup>* delivery_new (wd_delivery w)" and "publish_pending rq tx expiry w = (r, w')"
  shows "\<exists>fin todo vs c g. pending (wd_delivery w) = fin @ todo \<and> pending (wd_delivery w') = map g todo \<and>
    publishes rq (wd_client w) expiry (wd_conn w) fin vs c \<and> list_all2 (\<lambda>row v. g row = settled v row) fin vs \<and>
    (case r of
       Inr k \<Rightarrow> todo = [] \<and> wd_conn w' = c \<and> k = length (filter (\<lambda>v. v \<noteq> PutRefused) vs)
     | Inl e \<Rightarrow> (\<exists>row rest f. todo = row # rest \<and> stops rq (wd_client w) expiry c row e (wd_conn w') f \<and> g row = f row)) \<and>
    wd_client w' = wd_client w \<and> wd_mls w' = wd_mls w \<and>
    wd_delivery w' = (wd_delivery w)\<lparr>outbox := map g (outbox (wd_delivery w))\<rparr> \<and>
    (\<forall>row. same_envelope (g row) row) \<and>
    (\<forall>row\<in>set (outbox (wd_delivery w)) - set fin - set (take 1 todo). g row = row)"
proof -
  let ?d = "wd_delivery w"
  have d: "distinct (map ob_id (outbox ?d))"
    using delivery_reachable_inv [OF assms(1)] by (simp add: delivery_inv_def)
  have ids: "a = b" if "a \<in> set (outbox ?d)" "b \<in> set (outbox ?d)" "ob_id a = ob_id b" for a b
    using d that by (auto simp: distinct_map inj_on_def)
  have sub: "set (pending ?d) \<subseteq> set (outbox ?d)" "distinct (map ob_id (pending ?d))"
    using d by (auto simp: pending_def distinct_map inj_on_def)
  have run: "publish_rows rq tx expiry (pending ?d) 0 w = (r, w')"
    using assms(2) by (simp add: publish_pending_def op_then_def)
  obtain fin todo vs c g where pass: "pending ?d = fin @ todo" "publishes rq (wd_client w) expiry (wd_conn w) fin vs c"
    "wd_client w' = wd_client w" "wd_mls w' = wd_mls w" "wd_delivery w' = ?d\<lparr>outbox := map g (outbox ?d)\<rparr>" "pass_effect fin todo g"
    "list_all2 (\<lambda>row v. g row = settled v row) fin vs"
    "case r of
       Inr k \<Rightarrow> todo = [] \<and> wd_conn w' = c \<and> k = length (filter (\<lambda>v. v \<noteq> PutRefused) vs)
     | Inl e \<Rightarrow> (\<exists>row rest f. todo = row # rest \<and> stops rq (wd_client w) expiry c row e (wd_conn w') f \<and> g row = f row)"
    using publish_rows_pass [OF run sub(2), unfolded add_0] by blast
  have "set (fin @ take 1 todo) \<subseteq> set (outbox ?d)"
    using sub(1) pass(1) set_take_subset [of 1 todo] by auto
  then have "g row = row" if "row \<in> set (outbox ?d) - set fin - set (take 1 todo)" for row
  proof -
    have "ob_id row \<notin> ob_id ` set (fin @ take 1 todo)"
      using ids that \<open>set (fin @ take 1 todo) \<subseteq> set (outbox ?d)\<close> by auto
    then show ?thesis
      using pass(6) by (simp add: pass_effect_def)
  qed
  moreover have "\<forall>row. same_envelope (g row) row"
    using pass(6) by (simp add: pass_effect_def)
  moreover have "pending (wd_delivery w') = map g todo"
    using pass_pending [OF d pass(1,6)] pass(5) by simp
  ultimately show ?thesis
    using pass(1-5,7,8) by - (rule exI [of _ fin], rule exI [of _ todo], rule exI [of _ vs], rule exI [of _ c], rule exI [of _ g], blast)
qed

definition demo_member_peer :: "bytes \<Rightarrow> peer" where
  "demo_member_peer i = \<lparr>pe_identity = [7], pe_device_id = i, pe_credential_hash = i, pe_root_public = [], pe_mailbox = Some i,
     pe_write_cap = Some [5], pe_hpke = Some (hpke_public demo_hpke i), pe_revoked = False\<rparr>"

definition demo_random :: fan_random where
  "demo_random = \<lparr>fr_draw = (\<lambda>_. Some 0), fr_delivery_id = (\<lambda>i. Some [word_of_nat i]), fr_seed = (\<lambda>_. [])\<rparr>"

definition demo_world :: "(nat, unit) world" where
  "demo_world = \<lparr>wd_client = client_new\<lparr>t_conversations := [\<lparr>cv_group_id = [1], cv_creator = True, cv_created_at = 0, cv_request = None,
        cv_request_from = None, cv_request_card = None, cv_request_card_at = None, cv_request_name = None\<rparr>],
      t_peers := [\<lparr>pr_group_id = [1], pr_device_id = [2], pr_identity = [7], pr_credential_hash = [2], pr_root_public = [],
        pr_mailbox = Some [2], pr_write_cap = Some [5], pr_hpke = Some [], pr_revoked = False\<rparr>]\<rparr>,
     wd_delivery = snd (enqueue 0 [2] [21] None [] [] (snd (enqueue 0 [2] [20] None [] [] delivery_new))),
     wd_task = \<lparr>tk_watchers = None, tk_result = no_result\<rparr>, wd_conn = 0, wd_mls = ()\<rparr>"

text \<open>A relay that accepts the first envelope and is then unavailable.\<close>

definition demo_relay :: "payload \<Rightarrow> (nat, cli_error, payload) op" where
  "demo_relay p n = (if n = 0 then Inr (EnvelopeAccepted 9) else Inl (CliRelay 503 []), n + 1)"

definition demo_app_texts :: app_texts where
  "demo_app_texts = \<lparr>tx_sql = (\<lambda>_. []), tx_attachment = (\<lambda>_. []), tx_client = (\<lambda>_. []), tx_signed = (\<lambda>_. []), tx_debug = (\<lambda>_. [])\<rparr>"

lemma demo_world_reachable: "delivery_step\<^sup>*\<^sup>* delivery_new (wd_delivery demo_world)"
  unfolding demo_world_def
  by (simp, rule rtranclp.rtrancl_into_rtrancl [OF r_into_rtranclp];
      rule delivery_step.intros(1) [OF prod.collapse [symmetric]])

lemma demo_pending:
  "pending (wd_delivery demo_world) =
     [\<lparr>ob_id = 1, ob_mailbox_id = [2], ob_delivery_id = [20], ob_event_id = None, ob_hpke_enc = [], ob_ciphertext = [],
       ob_state = ''sealed'', ob_attempts = 0, ob_expires_at = None, ob_created_at = 0\<rparr>,
      \<lparr>ob_id = 2, ob_mailbox_id = [2], ob_delivery_id = [21], ob_event_id = None, ob_hpke_enc = [], ob_ciphertext = [],
       ob_state = ''sealed'', ob_attempts = 0, ob_expires_at = None, ob_created_at = 0\<rparr>]"
  by (simp add: demo_world_def enqueue_def delivery_new_def pending_def next_id_def)

lemma demo_conn: "wd_conn demo_world = 0"
  by (simp add: demo_world_def)

theorem publish_pending_correct_witness:
  "\<exists>w'. publish_pending demo_relay demo_app_texts (\<lambda>_. 0) demo_world = (Inl (CliRelay 503 []), w') \<and>
      (\<exists>row. pending (wd_delivery w') = [row] \<and> ob_delivery_id row = [21])"
proof -
  obtain r w' where run: "publish_pending demo_relay demo_app_texts (\<lambda>_. 0) demo_world = (r, w')"
    by fastforce
  have cap: "write_cap_for (wd_client demo_world) [2] = Inr [5]"
    by (simp add: demo_world_def write_cap_for_def conversations_def conversation_def peers_of_def peer_of_row_def map_filter_def)
  have "fst (publish_pending demo_relay demo_app_texts (\<lambda>_. 0) demo_world) = Inl (CliRelay 503 [])"
    by (simp add: publish_pending_def publish_one_def op_then_def cap demo_pending mark_attempt_def mark_accepted_def
        on_delivery_modify demo_relay_def accepted_expiry_def delivery_change_def on_task_def record_change_def demo_conn)
  then have r: "r = Inl (CliRelay 503 [])"
    using run by simp
  obtain fin todo vs c g where pass: "pending (wd_delivery demo_world) = fin @ todo" "pending (wd_delivery w') = map g todo"
    "publishes demo_relay (wd_client demo_world) (\<lambda>_. 0) (wd_conn demo_world) fin vs c"
    "\<exists>row rest f. todo = row # rest \<and> stops demo_relay (wd_client demo_world) (\<lambda>_. 0) c row (CliRelay 503 []) (wd_conn w') f \<and> g row = f row"
    "\<forall>row. same_envelope (g row) row"
    using publish_pending_correct [OF demo_world_reachable run] unfolding r sum.case by blast
  have "fin \<noteq> []"
    using pass(1,3,4) publishes_length [OF pass(3)] cap by (auto simp: demo_pending publishes_Nil stops_def put_of_Inl put_of_Inr demo_relay_def demo_conn)
  then have "length todo = 1" "ob_delivery_id (last todo) = [21]"
    using pass(1,4) by (auto simp: demo_pending Cons_eq_append_conv append_eq_Cons_conv)
  then obtain row where "todo = [row]" "ob_delivery_id row = [21]"
    by (cases todo) auto
  then show ?thesis
    using run r pass(2,5) by (auto simp: same_envelope_def)
qed
lemma demo_seals:
  "\<exists>sl. envelope_seal rfc_cbor demo_hpke [] (hpke_public demo_hpke sk) (envelope_context_new [3] [2] [i]) KIND_MLS [7, 8] = Inr sl"
proof -
  let ?c = "envelope_context_new [3] [2] [i]"
  have s: "inner_size (bare KIND_MLS [7, 8]) = 36"
    by (simp add: inner_size_small head_size_def KIND_MLS_def)
  then obtain b where b: "pad rfc_cbor KIND_MLS [7, 8] = Inr b"
    using rfc.pad_cases [of KIND_MLS "[7, 8]"] by (auto simp: BUCKETS_def unfillable_def split: if_splits)
  have "cbor_size (struct (envelope_context_fields ?c)) < 2 ^ 64"
    by (simp add: envelope_context_new_def envelope_context_fields_def struct_def v_uint_def head_size_def ENVELOPE_VERSION_def)
  moreover have "wf_value 16 (struct (envelope_context_fields ?c))"
    by (simp add: envelope_context_fields_def struct_def wf_value_numeral wf_v_uint_numeral ascii_utf8 ascii_def)
  ultimately obtain a where "aad rfc_cbor ?c = Inr a"
    using rfc.encoder_size unfolding aad_def by (metis map_err_Inr)
  then show ?thesis
    by (simp add: envelope_seal_def b demo_hpke_def)
qed

theorem fan_out_correct_witness:
  "\<exists>rows out. enqueue_for_all rfc_cbor demo_hpke 0 [3] demo_random
       [demo_member_peer [2], (demo_member_peer [2])\<lparr>pe_revoked := True\<rparr>] None [7, 8] delivery_new =
       (Inr out, delivery_new\<lparr>outbox := rows\<rparr>) \<and> length rows + fo_no_route out = 1 \<and> fo_revoked out = 1"
proof -
  let ?peers = "[demo_member_peer [2], (demo_member_peer [2])\<lparr>pe_revoked := True\<rparr>]"
  have small: "inner_size (bare KIND_MLS [7, 8]) < 2 ^ 32"
    by (simp add: inner_size_small head_size_def KIND_MLS_def)
  have "fan_ready rfc_cbor demo_hpke [3] demo_random ?peers [7, 8] [0..<length ?peers] delivery_new"
    using demo_seals by (auto simp: fan_ready_def demo_random_def delivery_new_def demo_member_peer_def inj_on_def less_Suc_eq sendable_def)
  moreover have "\<forall>k. fr_draw demo_random k \<noteq> None"
    by (simp add: demo_random_def)
  ultimately show ?thesis
    using fan_out_correct [OF rfc.cbor_codec_axioms demo_hpke_ok small, of ?peers demo_random "[3]" delivery_new 0 None]
    by (fastforce simp: demo_member_peer_def delivery_new_def)
qed

end
