(* ===== verification/App_Requests.thy ===== *)
theory App_Requests
  imports App_Outbox
begin

text \<open>
  \<open>core/crates/arveil-app/src/requests.rs\<close> and the checks of a route in \<open>lib.rs\<close>: contact cards, the hello that
  uses one, and the requests that wait for an answer; \<open>remember_hello\<close> of \<open>invitations.rs\<close>.

  The roster of an MLS group (the basic identifier and the signature key of each member, or why the group
  does not load) is the argument \<open>roster\<close>; the texts of foreign errors are arguments.

  Shown: whom the in-person settlement marks as verified; when a conversation waits as a request; what a hello
  does, and that neither who sent it nor who is really in the conversation is checked where the comments say so.
\<close>

section \<open>Operations of the world\<close>

definition on_client :: "app_texts \<Rightarrow> string \<Rightarrow> 'a client_op \<Rightarrow> (('c, 'm) world, cli_error, 'a) op" where
  "on_client tx ctx m w =
     (case m (wd_client w) of (r, s) \<Rightarrow> (map_err (\<lambda>e. CliStorage (ctx @ '': '' @ tx_client tx e)) r, w\<lparr>wd_client := s\<rparr>))"

section \<open>Hello\<close>

record hello =
  hl_invitation :: "bytes option"
  hl_secret :: "bytes option"
  hl_name :: "string option"

definition hello_fields :: "hello \<Rightarrow> (string \<times> value) list" where
  "hello_fields h = opt_entry ''invitation'' VBytes (hl_invitation h) @ opt_entry ''secret'' VBytes (hl_secret h) @
     opt_entry ''name'' VText (hl_name h)"

definition hello_from_value :: "cbor \<Rightarrow> value \<Rightarrow> hello option" where
  "hello_from_value cb v =
     do { fs \<leftarrow> de_fields cb v;
          i \<leftarrow> get_default None (de_option cb (de_bytes cb)) fs ''invitation'';
          s \<leftarrow> get_default None (de_option cb (de_bytes cb)) fs ''secret'';
          n \<leftarrow> get_default None (de_option cb (de_text cb)) fs ''name'';
          Some \<lparr>hl_invitation = i, hl_secret = s, hl_name = n\<rparr> }"

definition encode_hello :: "cbor \<Rightarrow> app_texts \<Rightarrow> hello \<Rightarrow> cli_error + bytes" where
  "encode_hello cb tx h =
     and_then (map_err (\<lambda>e. CliProtocol (''hello: '' @ tx_signed tx e)) (signed_canonical cb (struct (hello_fields h))))
       (encode_event cb tx ''hello'')"

definition plain_hello :: "client \<Rightarrow> hello option" where
  "plain_hello s = map_option (\<lambda>name. \<lparr>hl_invitation = None, hl_secret = None, hl_name = Some name\<rparr>) (card_name s)"

section \<open>Requests\<close>

definition request_declined :: "bytes \<Rightarrow> client \<Rightarrow> bool" where
  "request_declined gid s = (case request gid s of Some r \<Rightarrow> rq_status r = DeclinedRequest | None \<Rightarrow> False)"

definition known_starter :: "app_session \<Rightarrow> bytes \<Rightarrow> peer list \<Rightarrow> client \<Rightarrow> bool" where
  "known_starter ss from peers s \<longleftrightarrow>
     from = ss_identity_id ss \<or> list_ex (\<lambda>p. pe_identity p = ss_identity_id ss) peers \<or> contact_is_accepted from s"

definition classify :: "app_texts \<Rightarrow> app_session \<Rightarrow> bytes \<Rightarrow> bytes option \<Rightarrow> peer list \<Rightarrow> (('c, 'm) world, cli_error, unit) op" where
  "classify tx ss gid sender peers =
     op_then (op_get (\<lambda>w. request gid (wd_client w))) (\<lambda>found.
     case found of
       None \<Rightarrow> op_return ()
     | Some r \<Rightarrow>
         if rq_status r \<noteq> PendingRequest \<or> rq_from r \<noteq> None then op_return ()
         else (case sender of
             None \<Rightarrow> op_return ()
           | Some from \<Rightarrow>
               op_then (on_client tx ''request'' (request_set_from gid from)) (\<lambda>_.
               op_then (op_get (\<lambda>w. known_starter ss from peers (wd_client w))) (\<lambda>known.
               if known then on_client tx ''request'' (request_resolve gid True) else op_return ()))))"

definition remember_hello :: "app_texts \<Rightarrow> bytes \<Rightarrow> bytes option \<Rightarrow> hello \<Rightarrow> (('c, 'm) world, cli_error, bool) op" where
  "remember_hello tx gid sender h =
     (case (hl_invitation h, hl_secret h, sender) of
        (Some i, Some secret, Some from) \<Rightarrow>
          op_then (op_get (\<lambda>w. invitation_operation i ''outgoing'' (wd_client w))) (\<lambda>found.
          case found of
            None \<Rightarrow> op_return False
          | Some opn \<Rightarrow>
              if secret \<noteq> io_secret opn \<or> length secret \<noteq> 16 \<or> io_state opn = ''revoked'' then op_return False
              else op_then (on_client tx ''invitation'' (invitation_hello_save
                  \<lparr>ih_group_id = gid, ih_invitation_id = i, ih_sender = from, ih_name = Option.bind (hl_name h) clean_name\<rparr>))
                (\<lambda>_. op_return True))
      | _ \<Rightarrow> op_return False)"

definition use_of_card :: "own_card option \<Rightarrow> card_use" where
  "use_of_card c = (case c of None \<Rightarrow> NoCard
     | Some k \<Rightarrow> (case oc_kind k of InPersonCard \<Rightarrow> InPersonPending | LinkCard \<Rightarrow> UsedLink (oc_created_at k)))"

definition receive_hello ::
  "cbor \<Rightarrow> app_texts \<Rightarrow> string \<Rightarrow> int \<Rightarrow> app_session \<Rightarrow> bytes \<Rightarrow> bytes option \<Rightarrow> bytes \<Rightarrow> (('c, 'm) world, cli_error, state_change) op" where
  "receive_hello cb tx why now ss gid sender body =
     op_then (op_lift (ok_or (decode_as cb (hello_from_value cb) body) (CliProtocol (''hello: '' @ why)))) (\<lambda>h.
     if sender = Some (ss_identity_id ss) then op_return (Ch_MlsMessageProcessed gid ''own hello'')
     else op_then (remember_hello tx gid sender h) (\<lambda>_.
       op_then (case hl_secret h of
           Some secret \<Rightarrow> op_then (on_client tx ''card'' (card_redeem secret now)) (\<lambda>c. op_return (use_of_card c))
         | None \<Rightarrow> op_return NoCard) (\<lambda>used.
       let name = Option.bind (hl_name h) clean_name in
       op_then (on_client tx ''request'' (request_set_card gid used name)) (\<lambda>_.
       op_return (Ch_HelloReceived gid name used)))))"

section \<open>Routes bound to their root\<close>

definition found_credential :: "payload \<Rightarrow> bytes option" where
  "found_credential p = (case p of CredentialFound c \<Rightarrow> Some c | _ \<Rightarrow> None)"

definition latest_manifest_reply :: "payload \<Rightarrow> bytes option" where
  "latest_manifest_reply p = (case p of ManifestLatest m \<Rightarrow> Some m | _ \<Rightarrow> None)"

definition clock_u64 :: "int \<Rightarrow> u64" where
  "clock_u64 now = (if now < 0 then 0 else word_of_int now)"

definition verified_route_credential ::
  "cbor \<Rightarrow> crypto \<Rightarrow> error_texts \<Rightarrow> app_texts \<Rightarrow> (identity_error \<Rightarrow> string) \<Rightarrow> (payload \<Rightarrow> ('c, cli_error, payload) op) \<Rightarrow> int \<Rightarrow> route \<Rightarrow>
   ('c, cli_error, device_credential) op" where
  "verified_route_credential cb cr et tx itx rq now r =
     op_then (\<lambda>c. case rq (CredentialGet (ro_identity_id r) (ro_credential_hash r)) c of
         (Inr p, c') \<Rightarrow> (ok_or (found_credential p) (CliProtocol (''unexpected reply: '' @ tx_debug tx p)), c')
       | (Inl e, c') \<Rightarrow>
           (Inl (if e = CliRelay 400 ''unsupported frame''
                 then CliDomain ''route: this server is too old to check routes; update the relay first'' else e), c')) (\<lambda>signed_credential.
     if signed_credential = []
     then op_fail (CliDomain ''route: the server holds no credential for this device; ask for a new route'')
     else op_then (rq (ManifestGet (ro_identity_id r))) (\<lambda>p.
       op_then (op_lift (ok_or (latest_manifest_reply p) (CliProtocol (''unexpected reply: '' @ tx_debug tx p)))) (\<lambda>signed_manifest.
       if signed_manifest = [] then op_fail (CliDomain ''route: the server holds no device list for this person'')
       else op_then (op_lift (route_root et cr r)) (\<lambda>root.
         op_lift (map_err (\<lambda>e. CliDomain (''route: '' @ itx e @ ''; nothing was sent''))
           (verify_claimed_device cb cr \<lparr>cd_root = root, cd_device_id = ro_device_id r, cd_credential_hash = ro_credential_hash r,
              cd_envelope_hpke_public_key = ro_hpke_public r\<rparr> signed_credential signed_manifest (clock_u64 now)))))))"

text \<open>A key package as the client reads it: \<open>None\<close> when the message is not one, else its leaf's signature key and basic
  identifier.\<close>

definition check_key_package_binding :: "(bytes \<times> bytes option) option \<Rightarrow> device_credential \<Rightarrow> cli_error + unit" where
  "check_key_package_binding kp credential =
     and_then (ok_or kp (CliProtocol ''the claimed object is not a key package'')) (\<lambda>(key, identifier).
     if key \<noteq> dc_mls_signature_public_key credential
     then Inl (CliDomain ''route: the server handed out a key package this person's root did not sign; nothing was sent'')
     else if identifier \<noteq> Some (dc_device_id credential)
     then Inl (CliDomain ''route: the key package names another device; nothing was sent'')
     else Inr ())"

definition claimed_key_package :: "payload \<Rightarrow> bytes option" where
  "claimed_key_package p = (case p of KeyPackageClaimed k \<Rightarrow> Some k | _ \<Rightarrow> None)"

text \<open>\<open>parse\<close> is \<open>MlsMessage::from_bytes\<close> with what the client reads of the message.\<close>

definition claim_key_package ::
  "cbor \<Rightarrow> crypto \<Rightarrow> error_texts \<Rightarrow> app_texts \<Rightarrow> (identity_error \<Rightarrow> string) \<Rightarrow> (payload \<Rightarrow> ('c, cli_error, payload) op) \<Rightarrow>
   (bytes \<Rightarrow> string + (bytes \<times> bytes option) option) \<Rightarrow> int \<Rightarrow> route \<Rightarrow> ('c, cli_error, bytes) op" where
  "claim_key_package cb cr et tx itx rq parse now r =
     op_then (verified_route_credential cb cr et tx itx rq now r) (\<lambda>credential.
     op_then (rq (KeyPackagesClaim (ro_identity_id r) (ro_device_id r))) (\<lambda>p.
     op_then (op_lift (ok_or (claimed_key_package p) (CliProtocol (''unexpected reply: '' @ tx_debug tx p)))) (\<lambda>bs.
     op_then (op_lift (map_err (\<lambda>e. CliProtocol (''key package: '' @ e)) (parse bs))) (\<lambda>kp.
     op_then (op_lift (check_key_package_binding kp credential)) (\<lambda>_. op_return bs)))))"

section \<open>Settling in-person codes\<close>

type_synonym group_roster = "(bytes option \<times> bytes) list"

definition leaf_key :: "bytes \<Rightarrow> group_roster \<Rightarrow> bytes option" where
  "leaf_key dev members = map_option snd (find (\<lambda>m. fst m = Some dev) members)"

text \<open>The first device of a person whose route binds to its root and to a leaf of the group.\<close>

fun bind_route ::
  "hex \<Rightarrow> crypto \<Rightarrow> error_texts \<Rightarrow> (route \<Rightarrow> ('c, cli_error, device_credential) op) \<Rightarrow> group_roster \<Rightarrow> peer list \<Rightarrow>
   ('c, cli_error, (route \<times> string) option) op" where
  "bind_route hx cr et vrfy members [] = op_return None"
| "bind_route hx cr et vrfy members (p # ps) =
     (case route_of_peer hx p of
        None \<Rightarrow> bind_route hx cr et vrfy members ps
      | Some text \<Rightarrow>
          op_then (op_lift (parse_route hx et cr text)) (\<lambda>parsed c.
          case vrfy parsed c of
            (Inl (CliDomain _), c') \<Rightarrow> bind_route hx cr et vrfy members ps c'
          | (Inl e, c') \<Rightarrow> (Inl e, c')
          | (Inr credential, c') \<Rightarrow>
              if leaf_key (ro_device_id parsed) members = Some (dc_mls_signature_public_key credential)
              then (Inr (Some (parsed, text)), c')
              else bind_route hx cr et vrfy members ps c'))"

definition settle_bound :: "app_texts \<Rightarrow> int \<Rightarrow> request \<Rightarrow> bytes \<Rightarrow> (route \<times> string) option \<Rightarrow> (('c, 'm) world, cli_error, unit) op" where
  "settle_bound tx now r from bound =
     (case bound of
        Some (rt, text) \<Rightarrow>
          op_then (on_client tx ''contact'' (contact_route_save from (ro_device_id rt) text)) (\<lambda>_.
          op_then (on_client tx ''contact'' (contact_verified from HowInPerson now)) (\<lambda>_.
          op_then (on_client tx ''request'' (request_set_card (rq_group_id r) UsedInPerson None)) (\<lambda>_.
          op_then (if rq_status r = PendingRequest then on_client tx ''request'' (request_resolve (rq_group_id r) True) else op_return ()) (\<lambda>_.
          on_task (record_change (Ch_ContactVerifiedInPerson (rq_group_id r) from))))))
      | None \<Rightarrow> on_client tx ''request'' (request_set_card (rq_group_id r) NoCard None))"

definition settle_one ::
  "hex \<Rightarrow> crypto \<Rightarrow> error_texts \<Rightarrow> app_texts \<Rightarrow> (route \<Rightarrow> ('c, cli_error, device_credential) op) \<Rightarrow> (bytes \<Rightarrow> string + group_roster) \<Rightarrow> int \<Rightarrow>
   request \<Rightarrow> (('c, 'm) world, cli_error, unit) op" where
  "settle_one hx cr et tx vrfy roster now r =
     (case rq_from r of
        None \<Rightarrow> op_return ()
      | Some from \<Rightarrow>
          op_then (op_get (\<lambda>w. find (\<lambda>c. cn_group_id c = rq_group_id r) (conversations (wd_client w)))) (\<lambda>found.
          case found of
            None \<Rightarrow> op_return ()
          | Some conv \<Rightarrow>
              op_then (op_lift (map_err (\<lambda>e. CliStorage (''mls load: '' @ e)) (roster (rq_group_id r)))) (\<lambda>members.
              op_then (on_conn (bind_route hx cr et vrfy members (filter (\<lambda>p. pe_identity p = from) (cn_peers conv)))) (\<lambda>bound.
              settle_bound tx now r from bound))))"

definition settle_in_person ::
  "hex \<Rightarrow> crypto \<Rightarrow> error_texts \<Rightarrow> app_texts \<Rightarrow> (route \<Rightarrow> ('c, cli_error, device_credential) op) \<Rightarrow> (bytes \<Rightarrow> string + group_roster) \<Rightarrow> int \<Rightarrow>
   (('c, 'm) world, cli_error, unit) op" where
  "settle_in_person hx cr et tx vrfy roster now =
     op_then (op_get (\<lambda>w. requests_in_person_pending (wd_client w))) (\<lambda>rs.
     op_for rs (settle_one hx cr et tx vrfy roster now))"

section \<open>The answer\<close>

definition answer_contact :: "hex \<Rightarrow> app_texts \<Rightarrow> request \<Rightarrow> bytes \<Rightarrow> (('c, 'm) world, cli_error, unit) op" where
  "answer_contact hx tx r from =
     op_then (op_get (\<lambda>w. find (\<lambda>c. cn_group_id c = rq_group_id r) (conversations (wd_client w)))) (\<lambda>conv.
     op_then (op_for (case conv of None \<Rightarrow> [] | Some c \<Rightarrow> cn_peers c) (\<lambda>p.
       if pe_identity p = from then
         (case route_of_peer hx p of Some rt \<Rightarrow> on_client tx ''contact'' (contact_route_save from (pe_device_id p) rt) | None \<Rightarrow> op_return ())
       else op_return ())) (\<lambda>_.
     op_then (on_client tx ''contact'' (contact_accept from)) (\<lambda>_.
     op_then (op_get (\<lambda>w. contact from (wd_client w))) (\<lambda>known.
     case (rq_name r, known) of
       (Some name, Some c) \<Rightarrow> if co_name c = None then on_client tx ''contact'' (contact_rename from name) else op_return ()
     | _ \<Rightarrow> op_return ()))))"

definition answer_request :: "hex \<Rightarrow> app_texts \<Rightarrow> bytes \<Rightarrow> bool \<Rightarrow> (('c, 'm) world, cli_error, unit) op" where
  "answer_request hx tx gid accept =
     op_then (op_get (\<lambda>w. request gid (wd_client w))) (\<lambda>found.
     op_then (op_lift (ok_or (case found of Some r \<Rightarrow> if rq_status r = PendingRequest then Some r else None | None \<Rightarrow> None)
       (CliDomain ''no request waits for an answer here''))) (\<lambda>r.
     op_then (case (accept, rq_from r) of (True, Some from) \<Rightarrow> answer_contact hx tx r from | _ \<Rightarrow> op_return ()) (\<lambda>_.
     op_then (on_client tx ''request'' (request_resolve gid accept)) (\<lambda>_.
     on_task (record_change (Ch_RequestAnswered gid accept))))))"

section \<open>Cards of this device\<close>

definition card_route_for ::
  "cbor \<Rightarrow> crypto \<Rightarrow> b64 \<Rightarrow> hex \<Rightarrow> error_texts \<Rightarrow> app_texts \<Rightarrow> (link_error \<Rightarrow> string) \<Rightarrow> string \<Rightarrow> client \<Rightarrow>
   cli_error + string \<times> string option \<times> bytes" where
  "card_route_for cb cr b64 hx et tx ltx text s =
     and_then (map_err (\<lambda>e. CliDomain (''card: '' @ ltx e)) (card_find cb cr b64 text)) (\<lambda>crd.
     case crd of
       ContactCard rl cr_rt secret name \<Rightarrow>
         and_then (enrolled cb cr (tx_client tx) s) (\<lambda>(_, own).
         if realm_id_of cr (lr_signing_key rl) \<noteq> sr_realm_id own
         then Inl (CliDomain ''card: this person uses another server; both of you need the same one'')
         else and_then (map_err (\<lambda>e. CliDomain (''card: '' @ ltx e)) (card_route_text hx cr cr_rt)) (\<lambda>rt.
           and_then (parse_route hx et cr rt) (\<lambda>parsed.
           if client_identity_id s = Some (ro_identity_id parsed) then Inl (CliDomain ''card: this is your own card'')
           else Inr (rt, name, secret))))
     | _ \<Rightarrow> Inl (CliDomain (''this is a '' @ link_card_kind crd @ '' code, not a contact'')))"

section \<open>Which conversations wait\<close>

lemma find_updated_rows:
  assumes "\<And>r. P r \<Longrightarrow> Q (f r) \<longleftrightarrow> Q r"
  shows "find Q (update_rows P f rows) = map_option (\<lambda>r. if P r then f r else r) (find Q rows)"
  using assms by (induction rows) (auto simp: update_rows_def)

lemma request_set_from_effect:
  "request_set_from gid from s = (Inr (), s\<lparr>t_conversations := update_rows (\<lambda>r. cv_group_id r = gid \<and> cv_request_from r = None)
     (\<lambda>r. r\<lparr>cv_request_from := Some from\<rparr>) (t_conversations s)\<rparr>)"
  by (simp add: request_set_from_def update_conversation_def)

lemma request_resolve_effect:
  "request_resolve gid b s = (Inr (), s\<lparr>t_conversations := update_rows (\<lambda>r. cv_group_id r = gid)
     (\<lambda>r. r\<lparr>cv_request := (if b then None else Some 2)\<rparr>) (t_conversations s)\<rparr>)"
  by (simp add: request_resolve_def update_conversation_def)

lemma on_client_Inr: "m (wd_client w) = (Inr a, s) \<Longrightarrow> on_client tx ctx m w = (Inr a, w\<lparr>wd_client := s\<rparr>)"
  by (simp add: on_client_def)

lemma request_after_set_from:
  assumes "request gid s = Some r" and "rq_from r = None"
  shows "request gid (snd (request_set_from gid from s)) = Some (r\<lparr>rq_from := Some from\<rparr>)"
proof -
  from assms obtain y where y: "find (\<lambda>r. cv_group_id r = gid) (t_conversations s) = Some y" "cv_request_from y = None"
    by (auto simp: request_def bind_eq_Some_conv split: if_splits)
  then have "cv_group_id y = gid"
    by (auto dest: find_Some_iff [THEN iffD1])
  then show ?thesis
    using assms y by (auto simp: request_def request_set_from_effect find_updated_rows split: if_splits)
qed

lemma request_after_accept: "request gid (snd (request_resolve gid True s)) = None"
  by (cases "find (\<lambda>r. cv_group_id r = gid) (t_conversations s)")
    (auto simp: request_def request_resolve_effect find_updated_rows dest: find_Some_iff [THEN iffD1])

lemma known_starter_set_from: "known_starter ss from peers (snd (request_set_from gid f s)) = known_starter ss from peers s"
  by (simp add: known_starter_def contact_is_accepted_def request_set_from_effect)

text \<open>A request is attributed to whoever sent the first roster; it then waits, unless that is this identity, an accepted
  contact, or the roster lists a device of this identity.\<close>

lemma classify_first_roster:
  assumes "request gid (wd_client w) = Some r" and "rq_status r = PendingRequest" and "rq_from r = None"
  shows "\<exists>s. classify tx ss gid (Some from) peers w = (Inr (), w\<lparr>wd_client := s\<rparr>) \<and>
    request gid s = (if known_starter ss from peers (wd_client w) then None else Some (r\<lparr>rq_from := Some from\<rparr>))"
proof -
  let ?s1 = "snd (request_set_from gid from (wd_client w))"
  have one: "on_client tx ''request'' (request_set_from gid from) w = (Inr (), w\<lparr>wd_client := ?s1\<rparr>)"
    by (rule on_client_Inr) (simp add: request_set_from_effect)
  have two: "on_client tx ''request'' (request_resolve gid True) v = (Inr (), v\<lparr>wd_client := snd (request_resolve gid True (wd_client v))\<rparr>)"
    for v :: "('a, 'b) world"
    by (rule on_client_Inr) (simp add: request_resolve_effect)
  show ?thesis
    using assms one two request_after_set_from [OF assms(1,3)] request_after_accept
    by (auto simp: classify_def op_then_def known_starter_set_from)
qed

text \<open>C37. Who may talk without asking: the first roster of a conversation a stranger started is kept waiting as a request
  from that stranger; but when the roster claims any device of this identity, which every sender who knows
  this identity's route can write into it, the conversation is joined without a question.\<close>

theorem roster_claim_skips_request:
  assumes "request gid (wd_client w) = Some r" and "rq_status r = PendingRequest" and "rq_from r = None"
    and "from \<noteq> ss_identity_id ss" and "\<not> contact_is_accepted from (wd_client w)"
    and "ro_identity_id rt = ss_identity_id ss"
  shows "(\<forall>peers. (\<forall>p\<in>set peers. pe_identity p \<noteq> ss_identity_id ss) \<longrightarrow>
      (\<exists>s. classify tx ss gid (Some from) peers w = (Inr (), w\<lparr>wd_client := s\<rparr>) \<and> request gid s = Some (r\<lparr>rq_from := Some from\<rparr>))) \<and>
    (\<exists>s. classify tx ss gid (Some from) [peer_from_route rt] w = (Inr (), w\<lparr>wd_client := s\<rparr>) \<and> request gid s = None)"
proof -
  note first = classify_first_roster [OF assms(1-3), of tx ss "from"]
  have stranger: "\<not> known_starter ss from peers (wd_client w)" if "\<forall>p\<in>set peers. pe_identity p \<noteq> ss_identity_id ss" for peers
    using assms(4,5) that by (auto simp: known_starter_def list_ex_iff)
  have "known_starter ss from [peer_from_route rt] (wd_client w)"
    using assms(6) by (simp add: known_starter_def peer_from_route_def)
  then have "\<exists>s. classify tx ss gid (Some from) [peer_from_route rt] w = (Inr (), w\<lparr>wd_client := s\<rparr>) \<and> request gid s = None"
    using first [of "[peer_from_route rt]"] by simp
  moreover have "\<exists>s. classify tx ss gid (Some from) peers w = (Inr (), w\<lparr>wd_client := s\<rparr>) \<and> request gid s = Some (r\<lparr>rq_from := Some from\<rparr>)"
    if "\<forall>p\<in>set peers. pe_identity p \<noteq> ss_identity_id ss" for peers
    using first [of peers] stranger [OF that] by simp
  ultimately show ?thesis
    by blast
qed

section \<open>What a hello does\<close>

lemma remember_hello_plain: "hl_invitation h = None \<Longrightarrow> remember_hello tx gid sender h w = (Inr False, w)"
  by (simp add: remember_hello_def)

text \<open>A hello with the secret of a fresh in-person code makes its conversation wait for the in-person check, whoever
  in the conversation sent it: the request that is settled names the one who started the conversation.\<close>

theorem hello_sender_not_checked:
  assumes "decode_as cb (hello_from_value cb) body = Some \<lparr>hl_invitation = None, hl_secret = Some secret, hl_name = nm\<rparr>"
    and "find (\<lambda>c. cr_secret c = secret) (t_contact_cards (wd_client w)) = Some c" and "cr_kind c = ''in-person''"
    and "\<not> cr_revoked c" and "now < cr_expires_at c" and "cr_used_at c = None"
    and "row \<in> set (t_conversations (wd_client w))" and "cv_group_id row = gid" and "cv_request_from row = Some starter"
    and "sender \<noteq> Some (ss_identity_id ss)"
  shows "\<exists>s. receive_hello cb tx why now ss gid sender body w =
      (Inr (Ch_HelloReceived gid (Option.bind nm clean_name) InPersonPending), w\<lparr>wd_client := s\<rparr>) \<and>
    (\<exists>r\<in>set (requests_in_person_pending s). rq_group_id r = gid \<and> rq_from r = Some starter)"
proof -
  have redeem: "\<exists>k s1. card_redeem secret now (wd_client w) = (Inr (Some k), s1) \<and> oc_kind k = InPersonCard \<and>
      t_conversations s1 = t_conversations (wd_client w)"
    using assms(2-6) by (auto simp: card_redeem_def card_kind_parse_def)
  then obtain k s1 where s1: "card_redeem secret now (wd_client w) = (Inr (Some k), s1)" "oc_kind k = InPersonCard"
    "t_conversations s1 = t_conversations (wd_client w)"
    by blast
  let ?f = "\<lambda>r. r\<lparr>cv_request_card := Some ''in-person-pending'', cv_request_card_at := None,
      cv_request_name := coalesce (Option.bind nm clean_name) (cv_request_name r)\<rparr>"
  let ?s = "s1\<lparr>t_conversations := update_rows (\<lambda>r. cv_group_id r = gid) ?f (t_conversations s1)\<rparr>"
  have "receive_hello cb tx why now ss gid sender body w =
      (Inr (Ch_HelloReceived gid (Option.bind nm clean_name) InPersonPending), w\<lparr>wd_client := ?s\<rparr>)"
    using assms(1,10) s1
    by (simp add: receive_hello_def op_then_def remember_hello_plain on_client_def use_of_card_def request_set_card_def update_conversation_def Let_def)
  moreover have "?f row \<in> set (t_conversations ?s)"
    using assms(7,8) s1(3) by (auto simp: update_rows_def image_iff)
  then have "\<exists>r\<in>set (requests_in_person_pending ?s). rq_group_id r = gid \<and> rq_from r = Some starter"
    using assms(8,9) by (force simp: requests_in_person_pending_def)
  ultimately show ?thesis
    by blast
qed

section \<open>Whom the in-person settlement verifies\<close>

text \<open>What binds a person to an in-person code: a request of that person, and a device of that person in the
  conversation whose route the relay's credential and manifest verify and whose key is a leaf of the group.\<close>

definition in_person_evidence ::
  "hex \<Rightarrow> crypto \<Rightarrow> error_texts \<Rightarrow> (route \<Rightarrow> ('c, cli_error, device_credential) op) \<Rightarrow> (bytes \<Rightarrow> string + group_roster) \<Rightarrow> client \<Rightarrow>
   bytes \<Rightarrow> bool" where
  "in_person_evidence hx cr et vrfy roster s from \<longleftrightarrow>
     (\<exists>r \<in> set (requests_in_person_pending s). rq_from r = Some from \<and>
       (\<exists>p \<in> set (peers_of (rq_group_id r) s). pe_identity p = from \<and>
         (\<exists>text rt c cred c' members. route_of_peer hx p = Some text \<and> parse_route hx et cr text = Inr rt \<and>
           vrfy rt c = (Inr cred, c') \<and> roster (rq_group_id r) = Inr members \<and>
           leaf_key (ro_device_id rt) members = Some (dc_mls_signature_public_key cred))))"

definition verified_only_by :: "client \<Rightarrow> (bytes \<Rightarrow> bool) \<Rightarrow> client \<Rightarrow> bool" where
  "verified_only_by s0 E s \<longleftrightarrow> t_peers s = t_peers s0 \<and>
     (\<forall>c \<in> set (t_contacts s). ct_verified c \<longrightarrow>
       (\<exists>c0 \<in> set (t_contacts s0). ct_identity_id c0 = ct_identity_id c \<and> ct_verified c0) \<or> E (ct_identity_id c))"

lemma bind_route_sound:
  assumes "bind_route hx cr et vrfy members ps c = (Inr (Some (rt, text)), c')"
  shows "\<exists>p \<in> set ps. route_of_peer hx p = Some text \<and> parse_route hx et cr text = Inr rt \<and>
    (\<exists>c1 cred c2. vrfy rt c1 = (Inr cred, c2) \<and> leaf_key (ro_device_id rt) members = Some (dc_mls_signature_public_key cred))"
  using assms
proof (induction ps arbitrary: c)
  case Nil
  then show ?case by simp
next
  case (Cons p ps)
  then show ?case
    by (auto simp: op_then_def split: option.splits sum.splits prod.splits cli_error.splits if_splits)
qed

lemma on_client_keeps: "op_keeps Q m \<Longrightarrow> op_keeps (\<lambda>w. Q (wd_client w)) (on_client tx ctx m)"
  by (force simp: op_keeps_def on_client_def split: prod.splits)

lemma on_conn_keeps: "op_keeps (\<lambda>w. Q (wd_client w)) (on_conn m)"
  by (auto simp: op_keeps_def on_conn_def split: prod.splits)

lemma on_task_keeps: "op_keeps (\<lambda>w. Q (wd_client w)) (on_task m)"
  by (auto simp: op_keeps_def on_task_def split: prod.splits)

lemma update_conversation_verified: "op_keeps (verified_only_by s0 E) (update_conversation P f)"
  by (simp add: op_keeps_def update_conversation_def verified_only_by_def)

lemma request_set_card_verified: "op_keeps (verified_only_by s0 E) (request_set_card g u n)"
  by (simp add: request_set_card_def update_conversation_verified split: prod.splits)

lemma request_resolve_verified: "op_keeps (verified_only_by s0 E) (request_resolve g a)"
  by (simp add: request_resolve_def update_conversation_verified)

lemma contact_route_save_verified: "op_keeps (verified_only_by s0 E) (contact_route_save i d t)"
  by (auto simp: op_keeps_def contact_route_save_def update_contact_def update_rows_def verified_only_by_def op_then_def split: if_splits)

lemma contact_verified_verified: "E i \<Longrightarrow> op_keeps (verified_only_by s0 E) (contact_verified i how now)"
  by (auto simp: op_keeps_def contact_verified_def update_contact_def update_rows_def verified_only_by_def split: if_splits)

lemmas settle_keeps = on_client_keeps [OF request_set_card_verified] on_client_keeps [OF request_resolve_verified]
  on_client_keeps [OF contact_route_save_verified] on_client_keeps [OF contact_verified_verified] on_task_keeps

lemma settle_bound_verified:
  assumes "bound \<noteq> None \<Longrightarrow> E from"
  shows "op_keeps (\<lambda>w. verified_only_by s0 E (wd_client w)) (settle_bound tx now r from bound)"
  using assms unfolding settle_bound_def
  by (auto intro!: op_keeps_then op_keeps_if settle_keeps split: option.splits)

lemma find_conversation_peers:
  assumes "find (\<lambda>c. cn_group_id c = g) (conversations s) = Some conv"
  shows "cn_peers conv = peers_of g s"
proof -
  from assms have "conv \<in> set (conversations s)" "cn_group_id conv = g"
    by (auto simp: find_Some_iff)
  then show ?thesis
    by (auto simp: conversations_def conversation_def map_filter_def)
qed

lemma settle_one_verified:
  assumes "r \<in> set (requests_in_person_pending s0)"
  shows "op_keeps (\<lambda>w. verified_only_by s0 (in_person_evidence hx cr et vrfy roster s0) (wd_client w))
    (settle_one hx cr et tx vrfy roster now r)"
    (is "op_keeps (\<lambda>w. ?Q (wd_client w)) _")
  unfolding op_keeps_def
proof (intro allI impI)
  fix w :: "('a, 'b) world" assume Q: "?Q (wd_client w)"
  show "?Q (wd_client (snd (settle_one hx cr et tx vrfy roster now r w)))"
  proof (cases "rq_from r")
    case (Some i)
    show ?thesis
    proof (cases "find (\<lambda>c. cn_group_id c = rq_group_id r) (conversations (wd_client w))")
      case (Some conv)
      have peers: "cn_peers conv = peers_of (rq_group_id r) s0"
        using find_conversation_peers [OF Some] Q by (simp add: verified_only_by_def peers_of_def)
      show ?thesis
      proof (cases "roster (rq_group_id r)")
        case (Inr members)
        let ?ps = "filter (\<lambda>p. pe_identity p = i) (cn_peers conv)"
        obtain b c' where b: "bind_route hx cr et vrfy members ?ps (wd_conn w) = (b, c')"
          by fastforce
        have evidence: "in_person_evidence hx cr et vrfy roster s0 i" if "b = Inr (Some (rt, txt0))" for rt txt0
          using bind_route_sound [OF b [unfolded that]] assms \<open>rq_from r = Some i\<close> Inr peers
          by (auto simp: in_person_evidence_def) blast
        have "op_keeps (\<lambda>w. ?Q (wd_client w)) (settle_bound tx now r i bound :: (('a, 'b) world, cli_error, unit) op)" if "b = Inr bound" for bound
          by (rule settle_bound_verified) (use evidence that in force)
        then show ?thesis
          using Q \<open>rq_from r = Some i\<close> Some Inr b
          by (cases b) (auto simp: settle_one_def op_then_def on_conn_def op_keeps_def)
      qed (use Q \<open>rq_from r = Some i\<close> Some in \<open>simp add: settle_one_def op_then_def\<close>)
    qed (use Q \<open>rq_from r = Some i\<close> in \<open>simp add: settle_one_def op_then_def\<close>)
  qed (use Q in \<open>simp add: settle_one_def\<close>)
qed

text \<open>C26. The settlement of in-person codes marks nobody as verified without evidence: whoever is verified afterwards and was
  not before made a request with an in-person code that waits, and has in that conversation a device whose route the
  relay's signed credential and manifest verify and whose signature key is the key of the group's leaf of that device;
  whatever the relay answers and wherever the settlement stops.\<close>

theorem settle_in_person_sound:
  "verified_only_by (wd_client w) (in_person_evidence hx cr et vrfy roster (wd_client w))
     (wd_client (snd (settle_in_person hx cr et tx vrfy roster now w)))"
proof -
  let ?P = "\<lambda>v. verified_only_by (wd_client w) (in_person_evidence hx cr et vrfy roster (wd_client w)) (wd_client v)"
  have "op_keeps ?P (op_for (requests_in_person_pending (wd_client w)) (settle_one hx cr et tx vrfy roster now))"
    by (rule op_keeps_for) (rule settle_one_verified)
  moreover have "?P w"
    by (auto simp: verified_only_by_def)
  ultimately show ?thesis
    by (auto simp: settle_in_person_def op_then_def op_keeps_def)
qed

section \<open>Hello on the wire\<close>

lemma hello_opt_fields:
  "opt_field (hello_fields h) ''invitation'' = Some (map_option VBytes (hl_invitation h))"
  "opt_field (hello_fields h) ''secret'' = Some (map_option VBytes (hl_secret h))"
  "opt_field (hello_fields h) ''name'' = Some (map_option VText (hl_name h))"
  by (simp_all add: hello_fields_def wire_field_simps image_Un del: append.simps)

context cbor_codec begin

lemma hello_roundtrip: "hello_from_value cb (sort_maps cb (struct (hello_fields h))) = Some h"
proof -
  obtain gs where d: "de_fields cb (sort_maps cb (struct (hello_fields h))) = Some gs"
    and f: "\<And>k. field gs k = map_option (sort_maps cb) (field (hello_fields h) k)"
    and o: "\<And>k. opt_field gs k = map_option (map_option (sort_maps cb)) (opt_field (hello_fields h) k)"
    using de_fields_sorted_struct [of "hello_fields h"] by blast
  have b: "get_default None (de_option cb (de_bytes cb)) gs k = Some x"
    if "opt_field (hello_fields h) k = Some (map_option VBytes x)" for k x
    using that by (cases x) (simp_all add: sorted_default [OF o] wire_simps)
  have n: "get_default None (de_option cb (de_text cb)) gs k = Some x"
    if "opt_field (hello_fields h) k = Some (map_option VText x)" for k x
    using that by (cases x) (simp_all add: sorted_default [OF o] wire_simps)
  show ?thesis
    by (simp add: hello_from_value_def d b n hello_opt_fields)
qed

lemma hello_encodes:
  assumes "wf_value 16 (struct (hello_fields h))" and "cbor_size (struct (hello_fields h)) < 2 ^ 64"
  obtains b where "signed_canonical cb (struct (hello_fields h)) = Inr b" and "decode_as cb (hello_from_value cb) b = Some h"
  by (rule encoder_size [OF assms]) (simp add: decode_as_def hello_roundtrip)

end

section \<open>Witnesses\<close>

definition demo_request_row :: "bytes option \<Rightarrow> conversation_row" where
  "demo_request_row starter = \<lparr>cv_group_id = [1], cv_creator = False, cv_created_at = 0, cv_request = Some 1,
     cv_request_from = starter, cv_request_card = None, cv_request_card_at = None, cv_request_name = None\<rparr>"

definition demo_requests :: "bytes option \<Rightarrow> (nat, unit) world" where
  "demo_requests starter = demo_world\<lparr>wd_client := client_new\<lparr>t_conversations := [demo_request_row starter],
     t_contact_cards := [\<lparr>cr_secret = [7], cr_kind = ''in-person'', cr_created_at = 0, cr_expires_at = 600,
       cr_used_at = None, cr_revoked = False\<rparr>]\<rparr>\<rparr>"

definition demo_app_session :: app_session where
  "demo_app_session = \<lparr>ss_device = demo_stored_device,
     ss_realm = \<lparr>sr_realm_id = [3], sr_signing_public = [], sr_noise_public = [], sr_bootstrap_url = [], sr_endpoint_list = None,
       sr_enrolled = True\<rparr>, ss_identity_id = [9]\<rparr>"

definition demo_own_route :: route where
  "demo_own_route = \<lparr>ro_identity_id = [9], ro_device_id = [1], ro_credential_hash = [], ro_root_public = [], ro_mailbox_id = [],
     ro_write_capability = [], ro_hpke_public = []\<rparr>"

theorem roster_claim_skips_request_witness:
  "(\<exists>s r. classify demo_app_texts demo_app_session [1] (Some [5]) [] (demo_requests None) =
      (Inr (), (demo_requests None)\<lparr>wd_client := s\<rparr>) \<and> request [1] s = Some r \<and> rq_from r = Some [5]) \<and>
   (\<exists>s. classify demo_app_texts demo_app_session [1] (Some [5]) [peer_from_route demo_own_route] (demo_requests None) =
      (Inr (), (demo_requests None)\<lparr>wd_client := s\<rparr>) \<and> request [1] s = None)"
proof -
  let ?r = "\<lparr>rq_group_id = [1], rq_status = PendingRequest, rq_from = None, rq_card = NoCard, rq_name = None\<rparr>"
  have r: "request [1] (wd_client (demo_requests None)) = Some ?r"
    by (simp add: request_def demo_requests_def demo_request_row_def card_use_of_def)
  have "[5] \<noteq> ss_identity_id demo_app_session" "\<not> contact_is_accepted [5] (wd_client (demo_requests None))"
    "ro_identity_id demo_own_route = ss_identity_id demo_app_session"
    by (simp_all add: demo_app_session_def demo_own_route_def contact_is_accepted_def demo_requests_def client_new_def)
  from roster_claim_skips_request [OF r _ _ this, of demo_app_texts]
  have all: "\<forall>peers. (\<forall>p\<in>set peers. pe_identity p \<noteq> ss_identity_id demo_app_session) \<longrightarrow>
      (\<exists>s. classify demo_app_texts demo_app_session [1] (Some [5]) peers (demo_requests None) =
        (Inr (), (demo_requests None)\<lparr>wd_client := s\<rparr>) \<and> request [1] s = Some (?r\<lparr>rq_from := Some [5]\<rparr>))"
    and own: "\<exists>s. classify demo_app_texts demo_app_session [1] (Some [5]) [peer_from_route demo_own_route] (demo_requests None) =
      (Inr (), (demo_requests None)\<lparr>wd_client := s\<rparr>) \<and> request [1] s = None"
    by simp_all
  from all [rule_format, of "[]"] own show ?thesis
    by force
qed

text \<open>Someone other than the starter of a conversation uses the in-person code there.\<close>

theorem hello_sender_not_checked_witness:
  "\<exists>body s r. receive_hello rfc_cbor demo_app_texts [] 5 demo_app_session [1] (Some [6]) body (demo_requests (Some [5])) =
      (Inr (Ch_HelloReceived [1] None InPersonPending), (demo_requests (Some [5]))\<lparr>wd_client := s\<rparr>) \<and>
    r \<in> set (requests_in_person_pending s) \<and> rq_from r = Some [5]"
proof -
  let ?h = "\<lparr>hl_invitation = None, hl_secret = Some [7], hl_name = None\<rparr>"
  obtain body where b: "decode_as rfc_cbor (hello_from_value rfc_cbor) body = Some ?h"
    by (rule rfc.hello_encodes [of ?h])
      (simp_all add: hello_fields_def opt_entry_def struct_def wf_value_numeral ascii_utf8 ascii_def head_size_def)
  let ?c = "\<lparr>cr_secret = [7], cr_kind = ''in-person'', cr_created_at = 0, cr_expires_at = 600, cr_used_at = None, cr_revoked = False\<rparr>"
  have "find (\<lambda>c. cr_secret c = [7]) (t_contact_cards (wd_client (demo_requests (Some [5])))) = Some ?c"
    "demo_request_row (Some [5]) \<in> set (t_conversations (wd_client (demo_requests (Some [5]))))"
    by (simp_all add: demo_requests_def)
  from hello_sender_not_checked [OF b this(1) _ _ _ _ this(2), of 5 "[1]" "[5]" "Some [6]" demo_app_session demo_app_texts "[]"]
  obtain s where "receive_hello rfc_cbor demo_app_texts [] 5 demo_app_session [1] (Some [6]) body (demo_requests (Some [5])) =
      (Inr (Ch_HelloReceived [1] None InPersonPending), (demo_requests (Some [5]))\<lparr>wd_client := s\<rparr>)"
    "\<exists>r\<in>set (requests_in_person_pending s). rq_group_id r = [1] \<and> rq_from r = Some [5]"
    by (auto simp: demo_request_row_def demo_app_session_def)
  then show ?thesis
    by blast
qed

end
