(* ===== verification/App_Sync.thy ===== *)
theory App_Sync
  imports App_Requests Mls Client_Runs
begin

text \<open>
  Receiving, from \<open>core/crates/arveil-app/src/lib.rs\<close>: what one decrypted MLS message does (\<open>handle_mls\<close>), the pass over the
  fetched envelopes with its acknowledgement and cursor (\<open>sync\<close>), the manifests the relay serves (\<open>refresh_manifests\<close>), and who may
  commit to a group (\<open>committer_leaf\<close>).

  The MLS library is the record \<open>mls_lib\<close> over its own storage; that storage, the tables of the client and the tables of
  the delivery store are one database, which a unit of work restores as a whole. The steps of \<open>sync\<close> between the
  pass and the acknowledgement, which settle invitations and download attachments, are an argument.

  Shown: the cursor passes no envelope that was not recorded; the first envelope that fails leaves no trace but a report;
  a text that a member sealed arrives once, with the sender the group authenticated; the committer the client
  computes is the one its policy lets commit when the commit removes every leaf below it, and is refused otherwise.
\<close>

section \<open>The MLS library\<close>

datatype wire_format = WfWelcome | WfPrivateMessage | WfPublicMessage | WfOther string

datatype received_message = ReceivedApplication bytes u32 | ReceivedCommit u32 | ReceivedOther string

record ('g, 'k, 'm) mls_lib =
  ml_from_bytes :: "bytes \<Rightarrow> string + 'k"
  ml_wire_format :: "'k \<Rightarrow> wire_format"
  ml_message_group :: "'k \<Rightarrow> bytes option"
  ml_join :: "'k \<Rightarrow> client \<Rightarrow> ('m, string, 'g) op"
  ml_load :: "bytes \<Rightarrow> client \<Rightarrow> ('m, string, 'g) op"
  ml_process :: "'k \<Rightarrow> 'g \<Rightarrow> client \<Rightarrow> ('m, string, 'g \<times> received_message) op"
  ml_write :: "'g \<Rightarrow> client \<Rightarrow> ('m, string, 'g) op"
  ml_group_id :: "'g \<Rightarrow> bytes"
  ml_current_epoch :: "'g \<Rightarrow> u64"
  ml_members :: "'g \<Rightarrow> member list"
  ml_own_leaf :: "'g \<Rightarrow> u32"

text \<open>What the operations below use of their surroundings: the libraries, the texts of their errors, and the clock.\<close>

record ('g, 'k, 'm) sync_env =
  se_cbor :: cbor
  se_crypto :: crypto
  se_hpke :: hpke
  se_hex :: hex
  se_errors :: error_texts
  se_texts :: app_texts
  se_tables :: text_tables
  se_decode_text :: string
  se_envelope_text :: "envelope_error \<Rightarrow> string"
  se_now :: int
  se_mls :: "('g, 'k, 'm) mls_lib"

definition on_mls :: "(string \<Rightarrow> cli_error) \<Rightarrow> (client \<Rightarrow> ('m, string, 'a) op) \<Rightarrow> (('c, 'm) world, cli_error, 'a) op" where
  "on_mls err m w = (case m (wd_client w) (wd_mls w) of (r, s) \<Rightarrow> (map_err err r, w\<lparr>wd_mls := s\<rparr>))"

definition protocol_text :: "string \<Rightarrow> string \<Rightarrow> cli_error" where
  "protocol_text ctx e = CliProtocol (ctx @ '': '' @ e)"

definition storage_text :: "string \<Rightarrow> string \<Rightarrow> cli_error" where
  "storage_text ctx e = CliStorage (ctx @ '': '' @ e)"

text \<open>A unit of work over the database of a world.\<close>

definition in_unit :: "(('c, 'm) world, 'e, 'a) op \<Rightarrow> (('c, 'm) world, 'e, 'a) op" where
  "in_unit m w =
     (case m w of
        (Inr a, w') \<Rightarrow> (Inr a, w')
      | (Inl e, w') \<Rightarrow> (Inl e, w'\<lparr>wd_client := wd_client w, wd_delivery := wd_delivery w, wd_mls := wd_mls w\<rparr>))"

section \<open>Members of a group\<close>

definition roster_device_ids :: "member list \<Rightarrow> bytes list" where
  "roster_device_ids members = List.map_filter mem_identifier members"

definition committer_leaf :: "client \<Rightarrow> member list \<Rightarrow> u32 option" where
  "committer_leaf s members =
     map_option mem_index (find (\<lambda>m. \<not> device_revoked (device_of m) s) (sort_key mem_index members))"

definition i_am_committer :: "client \<Rightarrow> member list \<Rightarrow> u32 \<Rightarrow> bool" where
  "i_am_committer s members own \<longleftrightarrow> committer_leaf s members = Some own"

definition revoked_leaves :: "conversation \<Rightarrow> member list \<Rightarrow> bytes list" where
  "revoked_leaves conv members =
     (let leaves = roster_device_ids members in
      map pe_device_id (filter (\<lambda>p. pe_revoked p \<and> pe_device_id p \<in> set leaves) (cn_peers conv)))"

section \<open>One message\<close>

text \<open>\<open>str::lines\<close>.\<close>

definition strip_cr :: "string \<Rightarrow> string" where
  "strip_cr l = (if l \<noteq> [] \<and> last l = CHR 0x0D then butlast l else l)"

function text_lines :: "string \<Rightarrow> string list" where
  "text_lines s =
     (if s = [] then []
      else case dropWhile (\<lambda>c. c \<noteq> CHR 0x0A) s of
          [] \<Rightarrow> [s]
        | _ # rest \<Rightarrow> strip_cr (takeWhile (\<lambda>c. c \<noteq> CHR 0x0A) s) # text_lines rest)"
  by pat_completeness auto
termination
proof (relation "measure length")
  fix s rest :: string and c
  assume "dropWhile (\<lambda>c. c \<noteq> CHR 0x0A) s = c # rest"
  then have "Suc (length rest) \<le> length s"
    by (metis length_Cons length_dropWhile_le)
  then show "(rest, s) \<in> measure length"
    by simp
qed simp

definition leaf_device :: "member list \<Rightarrow> u32 \<Rightarrow> bytes option" where
  "leaf_device members leaf = Option.bind (find (\<lambda>m. mem_index m = leaf) members) mem_identifier"

definition event_sender_of :: "client \<Rightarrow> member list \<Rightarrow> bytes \<Rightarrow> u32 \<Rightarrow> event_sender option" where
  "event_sender_of s members gid leaf =
     map_option (\<lambda>dev. \<lparr>es_device_id = Some dev, es_identity_id = device_identity gid dev s\<rparr>) (leaf_device members leaf)"

definition sender_identity :: "client \<Rightarrow> member list \<Rightarrow> bytes \<Rightarrow> u32 \<Rightarrow> bytes option" where
  "sender_identity s members gid leaf = Option.bind (event_sender_of s members gid leaf) es_identity_id"

definition record_device_notices ::
  "cbor \<Rightarrow> crypto \<Rightarrow> int \<Rightarrow> bytes \<Rightarrow> u64 \<Rightarrow> device_change \<Rightarrow> bytes option \<Rightarrow> (('c, 'm) world, client_error, unit) op" where
  "record_device_notices cb cr now identity sequence change carrier =
     (if device_change_is_empty change then op_return ()
      else op_then (op_get (\<lambda>w. groups_with_identity identity (wd_client w))) (\<lambda>groups.
        op_for groups (\<lambda>grp w.
          case record_event_by now grp (notice_event_id cr identity sequence grp) DEVICES_CHANGED (device_change_encode cb change)
                 (Some \<lparr>es_device_id = carrier, es_identity_id = Some identity\<rparr>) (wd_delivery w) of
            (r, d) \<Rightarrow> (map_err ClSqlite r, w\<lparr>wd_delivery := d\<rparr>))))"

text \<open>An operation of the client inside a unit that fails with the client's errors.\<close>

definition in_client :: "'a client_op \<Rightarrow> (('c, 'm) world, client_error, 'a) op" where
  "in_client m w = (case m (wd_client w) of (r, s) \<Rightarrow> (r, w\<lparr>wd_client := s\<rparr>))"

fun roster_peers :: "hex \<Rightarrow> error_texts \<Rightarrow> crypto \<Rightarrow> bytes \<Rightarrow> string list \<Rightarrow> cli_error + peer list" where
  "roster_peers hx et cr own [] = Inr []"
| "roster_peers hx et cr own (line # lines) =
     and_then (parse_route hx et cr line) (\<lambda>r.
     and_then (roster_peers hx et cr own lines) (\<lambda>ps.
     Inr (if ro_device_id r \<noteq> own then peer_from_route r # ps else ps)))"

definition handle_roster ::
  "('g, 'k, 'm) sync_env \<Rightarrow> app_session \<Rightarrow> member list \<Rightarrow> bytes \<Rightarrow> u32 \<Rightarrow> bytes \<Rightarrow> (('c, 'm) world, cli_error, state_change) op" where
  "handle_roster v ss members gid leaf body =
     op_then (op_lift (roster_peers (se_hex v) (se_errors v) (se_crypto v) (dk_device_id (sd_keys (ss_device ss)))
       (text_lines (from_utf8_lossy (se_tables v) body)))) (\<lambda>peers.
     op_then (on_client (se_texts v) ''conversation'' (conversation_save (se_now v) \<lparr>cn_group_id = gid, cn_creator = False, cn_peers = peers\<rparr>)) (\<lambda>_.
     op_then (op_get (\<lambda>w. sender_identity (wd_client w) members gid leaf)) (\<lambda>sender.
     op_then (classify (se_texts v) ss gid sender peers) (\<lambda>_.
     op_return (Ch_RosterUpdated gid (length peers))))))"

definition manifest_change :: "manifest_source \<Rightarrow> device_manifest \<Rightarrow> bool \<Rightarrow> state_change" where
  "manifest_change src body new = Ch_ManifestUpdated (dm_identity_id body) (dm_manifest_sequence body)
     (length (dm_active_credential_hashes body)) (length (dm_revoked_credential_hashes body)) src (\<not> new)"

definition domain_client :: "app_texts \<Rightarrow> string \<Rightarrow> 'a client_op \<Rightarrow> (('c, 'm) world, cli_error, 'a) op" where
  "domain_client tx ctx m w =
     (case m (wd_client w) of (r, s) \<Rightarrow> (map_err (\<lambda>e. CliDomain (ctx @ '': '' @ tx_client tx e)) r, w\<lparr>wd_client := s\<rparr>))"

definition handle_manifest ::
  "('g, 'k, 'm) sync_env \<Rightarrow> app_session \<Rightarrow> member list \<Rightarrow> bytes \<Rightarrow> u32 \<Rightarrow> bytes \<Rightarrow> (('c, 'm) world, cli_error, state_change) op" where
  "handle_manifest v ss members gid leaf body =
     (let cb = se_cbor v; cr = se_crypto v; tx = se_texts v in
      case manifest_identity_unverified cb body of
        Some i \<Rightarrow>
          if i \<noteq> ss_identity_id ss then
            op_then (domain_client tx ''manifest'' (peer_manifest_accept cb cr i body)) (\<lambda>(m, new, change).
            op_then (if new then
                op_then (op_get (\<lambda>w. Option.bind (event_sender_of (wd_client w) members gid leaf) es_device_id)) (\<lambda>carrier.
                op_map_err (\<lambda>e. CliStorage (''notice: '' @ tx_client tx e)) (record_device_notices cb cr (se_now v) i (dm_manifest_sequence m) change carrier))
              else op_return ()) (\<lambda>_.
            op_return (manifest_change FromGroup m new)))
          else op_then (domain_client tx ''manifest'' (manifest_accept_own cb cr body)) (\<lambda>(m, new). op_return (manifest_change FromGroup m new))
      | None \<Rightarrow> op_then (domain_client tx ''manifest'' (manifest_accept_own cb cr body)) (\<lambda>(m, new). op_return (manifest_change FromGroup m new)))"

definition record_message_event ::
  "('g, 'k, 'm) sync_env \<Rightarrow> member list \<Rightarrow> bytes \<Rightarrow> u32 \<Rightarrow> bytes \<Rightarrow> string \<Rightarrow> bytes \<Rightarrow> (('c, 'm) world, cli_error, unit) op" where
  "record_message_event v members gid leaf delivery_id kind body =
     op_then (op_get (\<lambda>w. event_sender_of (wd_client w) members gid leaf)) (\<lambda>sender.
     on_delivery (se_texts v) ''event'' (record_event_by (se_now v) gid delivery_id kind body sender))"

definition handle_file ::
  "('g, 'k, 'm) sync_env \<Rightarrow> member list \<Rightarrow> bytes \<Rightarrow> u32 \<Rightarrow> bytes \<Rightarrow> bytes \<Rightarrow> (('c, 'm) world, cli_error, state_change) op" where
  "handle_file v members gid leaf delivery_id body =
     op_then (op_lift (map_err (\<lambda>e. protocol_text ''file'' (tx_attachment (se_texts v) e)) (descriptor_decode (se_cbor v) body))) (\<lambda>d.
     op_then (record_message_event v members gid leaf delivery_id ''file-pending'' body) (\<lambda>_.
     op_return (Ch_FileAnnounced gid delivery_id (safe_name d) (fd_size d))))"

definition handle_event ::
  "('g, 'k, 'm) sync_env \<Rightarrow> app_session \<Rightarrow> member list \<Rightarrow> bytes \<Rightarrow> u32 \<Rightarrow> bytes \<Rightarrow> app_event \<Rightarrow> (('c, 'm) world, cli_error, state_change) op" where
  "handle_event v ss members gid leaf delivery_id ev =
     (if av_kind ev = ''roster'' then handle_roster v ss members gid leaf (av_body ev)
      else if av_kind ev = ''manifest'' then handle_manifest v ss members gid leaf (av_body ev)
      else if av_kind ev = ''text'' then
        op_then (record_message_event v members gid leaf delivery_id ''received'' (av_body ev)) (\<lambda>_.
        op_return (Ch_MessageReceived gid delivery_id (av_body ev)))
      else if av_kind ev = ''file'' then handle_file v members gid leaf delivery_id (av_body ev)
      else if av_kind ev = ''hello'' then
        op_then (op_get (\<lambda>w. sender_identity (wd_client w) members gid leaf)) (\<lambda>sender.
        receive_hello (se_cbor v) (se_texts v) (se_decode_text v) (se_now v) ss gid sender (av_body ev))
      else op_return (Ch_MlsMessageProcessed gid (''event of kind '' @ av_kind ev @ '' ignored'')))"

definition handle_welcome :: "('g, 'k, 'm) sync_env \<Rightarrow> 'k \<Rightarrow> (('c, 'm) world, cli_error, state_change) op" where
  "handle_welcome v msg =
     (let ml = se_mls v; tx = se_texts v in
      op_then (on_mls (protocol_text ''mls join'') (ml_join ml msg)) (\<lambda>g.
      op_then (on_mls (storage_text ''mls persist'') (ml_write ml g)) (\<lambda>g.
      op_then (on_client tx ''conversation'' (conversation_save (se_now v) \<lparr>cn_group_id = ml_group_id ml g, cn_creator = False, cn_peers = []\<rparr>)) (\<lambda>_.
      op_then (on_client tx ''request'' (request_open (ml_group_id ml g))) (\<lambda>_.
      op_return (Ch_ConversationJoined (ml_group_id ml g) (ml_current_epoch ml g)))))))"

definition handle_received ::
  "('g, 'k, 'm) sync_env \<Rightarrow> app_session \<Rightarrow> 'g \<Rightarrow> bytes \<Rightarrow> bytes \<Rightarrow> received_message \<Rightarrow> (('c, 'm) world, cli_error, state_change) op" where
  "handle_received v ss g gid delivery_id received =
     (case received of
        ReceivedApplication data leaf \<Rightarrow>
          op_then (op_lift (decode_event (se_cbor v) (se_decode_text v) data)) (handle_event v ss (ml_members (se_mls v) g) gid leaf delivery_id)
      | ReceivedCommit committer \<Rightarrow> op_return (Ch_CommitApplied gid committer (ml_current_epoch (se_mls v) g))
      | ReceivedOther shown \<Rightarrow> op_return (Ch_MlsMessageProcessed gid (''mls message '' @ shown @ '' processed'')))"

definition handle_message ::
  "('g, 'k, 'm) sync_env \<Rightarrow> app_session \<Rightarrow> 'k \<Rightarrow> bytes \<Rightarrow> (('c, 'm) world, cli_error, state_change) op" where
  "handle_message v ss msg delivery_id =
     (let ml = se_mls v in
      op_then (op_lift (ok_or (ml_message_group ml msg) (CliProtocol ''message without group id''))) (\<lambda>gid.
      op_then (op_get (\<lambda>w. request_declined gid (wd_client w))) (\<lambda>dropped.
      if dropped then op_return (Ch_MlsMessageProcessed gid ''declined conversation: dropped'')
      else op_then (on_mls (storage_text ''mls load'') (ml_load ml gid)) (\<lambda>g.
        op_then (on_mls (protocol_text ''mls process'') (ml_process ml msg g)) (\<lambda>(g, received).
        op_then (on_mls (storage_text ''mls persist'') (ml_write ml g)) (\<lambda>g.
        handle_received v ss g gid delivery_id received))))))"

definition handle_mls ::
  "('g, 'k, 'm) sync_env \<Rightarrow> app_session \<Rightarrow> 'k \<Rightarrow> bytes \<Rightarrow> (('c, 'm) world, cli_error, state_change) op" where
  "handle_mls v ss msg delivery_id =
     (case ml_wire_format (se_mls v) msg of
        WfWelcome \<Rightarrow> handle_welcome v msg
      | WfPrivateMessage \<Rightarrow> handle_message v ss msg delivery_id
      | WfPublicMessage \<Rightarrow> handle_message v ss msg delivery_id
      | WfOther shown \<Rightarrow> op_fail (CliProtocol (''unexpected MLS wire format '' @ shown)))"

section \<open>The pass over the envelopes\<close>

definition receive_unit ::
  "('g, 'k, 'm) sync_env \<Rightarrow> app_session \<Rightarrow> bytes \<Rightarrow> envelope_item \<Rightarrow> (('c, 'm) world, cli_error, state_change option) op" where
  "receive_unit v ss mailbox item =
     op_then (on_delivery (se_texts v) ''inbox'' (record_incoming (se_now v) mailbox (ei_delivery_id item) (as_i64 (ei_seq item)))) (\<lambda>fresh.
     if \<not> fresh then op_return None
     else op_then (op_lift (map_err (\<lambda>e. protocol_text ''open'' (se_envelope_text v e))
         (envelope_open (se_cbor v) (se_hpke v) (fst (dk_envelope_hpke (sd_keys (ss_device ss))))
           (envelope_context_new (sr_realm_id (ss_realm ss)) mailbox (ei_delivery_id item))
           \<lparr>s_enc = ei_hpke_enc item, s_ciphertext = ei_ciphertext item\<rparr>))) (\<lambda>inner.
       op_then (op_lift (map_err (protocol_text ''mls parse'') (ml_from_bytes (se_mls v) (ip_payload inner)))) (\<lambda>msg.
       op_then (handle_mls v ss msg (ei_delivery_id item)) (\<lambda>change. op_return (Some change)))))"

definition receive_one ::
  "('g, 'k, 'm) sync_env \<Rightarrow> app_session \<Rightarrow> bytes \<Rightarrow> envelope_item \<Rightarrow> (('c, 'm) world, cli_error, state_change option) op" where
  "receive_one v ss mailbox item = in_unit (receive_unit v ss mailbox item)"

fun receive_items ::
  "('g, 'k, 'm) sync_env \<Rightarrow> app_session \<Rightarrow> bytes \<Rightarrow> envelope_item list \<Rightarrow> nat \<Rightarrow> u64 \<Rightarrow> (('c, 'm) world, cli_error, nat \<times> u64) op" where
  "receive_items v ss mailbox [] new advanced_to = op_return (new, advanced_to)"
| "receive_items v ss mailbox (item # items) new advanced_to =
     (\<lambda>w. case receive_one v ss mailbox item w of
        (Inr (Some change), w') \<Rightarrow>
          op_then (on_task (record_change change)) (\<lambda>_. receive_items v ss mailbox items (new + 1) (ei_seq item)) w'
      | (Inr None, w') \<Rightarrow>
          op_then (on_task (record_change (Ch_DuplicateDelivery (ei_delivery_id item)))) (\<lambda>_. receive_items v ss mailbox items new (ei_seq item)) w'
      | (Inl e, w') \<Rightarrow>
          op_then (on_task (record_change (Ch_DeliveryDeferred (ei_delivery_id item) (error_text e)))) (\<lambda>_. op_return (new, advanced_to)) w')"

definition fetched_items :: "payload \<Rightarrow> envelope_item list option" where
  "fetched_items p = (case p of Envelopes items _ \<Rightarrow> Some items | _ \<Rightarrow> None)"

definition fetch_envelopes ::
  "(payload \<Rightarrow> ('c, cli_error, payload) op) \<Rightarrow> app_texts \<Rightarrow> own_mailbox \<Rightarrow> u64 \<Rightarrow> ('c, cli_error, envelope_item list) op" where
  "fetch_envelopes rq tx m cur =
     op_then (rq (EnvelopeFetch (om_mailbox_id m) (om_read_capability m) cur 50)) (\<lambda>reply.
     op_lift (ok_or (fetched_items reply) (CliProtocol (''unexpected reply: '' @ tx_debug tx reply))))"

definition acknowledge ::
  "(payload \<Rightarrow> ('c, cli_error, payload) op) \<Rightarrow> app_texts \<Rightarrow> own_mailbox \<Rightarrow> (('c, 'm) world, cli_error, nat) op" where
  "acknowledge rq tx m =
     op_then (op_get (\<lambda>w. unacked (om_mailbox_id m) (wd_delivery w))) (\<lambda>ids.
     op_then (if ids = [] then op_return ()
       else op_then (on_conn (rq (EnvelopeAck (om_mailbox_id m) (om_read_capability m) ids))) (\<lambda>reply.
         if reply = Ack then on_delivery tx ''inbox'' (mark_acked (om_mailbox_id m) ids)
         else op_fail (CliProtocol (''unexpected reply: '' @ tx_debug tx reply)))) (\<lambda>_.
     op_return (length ids)))"

text \<open>\<open>sync\<close> from the cursor it reads to the last envelope it handles, and from the acknowledgement to the report of the pass;
  between the two it settles requests and invitations and downloads attachments.\<close>

definition sync_receive ::
  "('g, 'k, 'm) sync_env \<Rightarrow> (payload \<Rightarrow> ('c, cli_error, payload) op) \<Rightarrow> app_session \<Rightarrow> own_mailbox \<Rightarrow>
   (('c, 'm) world, cli_error, envelope_item list \<times> nat \<times> u64) op" where
  "sync_receive v rq ss m =
     op_then (op_get (\<lambda>w. as_u64 (cursor (om_mailbox_id m) (wd_delivery w)))) (\<lambda>cur.
     op_then (on_conn (fetch_envelopes rq (se_texts v) m cur)) (\<lambda>items.
     op_then (receive_items v ss (om_mailbox_id m) items 0 cur) (\<lambda>(new, advanced_to).
     op_return (items, new, advanced_to))))"

definition sync_finish ::
  "(payload \<Rightarrow> ('c, cli_error, payload) op) \<Rightarrow> app_texts \<Rightarrow> own_mailbox \<Rightarrow> envelope_item list \<times> nat \<times> u64 \<Rightarrow> (('c, 'm) world, cli_error, unit) op" where
  "sync_finish rq tx m = (\<lambda>(items, new, advanced_to).
     op_then (acknowledge rq tx m) (\<lambda>acked.
     op_then (on_delivery tx ''cursor'' (set_cursor (om_mailbox_id m) (as_i64 advanced_to))) (\<lambda>_.
     on_task (record_change (Ch_SyncCompleted (length items) new acked)))))"

section \<open>Manifests of the relay\<close>

text \<open>The identities of the conversations, this one first, each once.\<close>

fun push_new :: "'a list \<Rightarrow> 'a list \<Rightarrow> 'a list" where
  "push_new [] known = known"
| "push_new (x # xs) known = push_new xs (if x \<in> set known then known else known @ [x])"

definition known_identities :: "app_session \<Rightarrow> client \<Rightarrow> bytes list" where
  "known_identities ss s = push_new (map pe_identity (concat (map cn_peers (conversations s)))) [ss_identity_id ss]"

definition accept_served ::
  "('g, 'k, 'm) sync_env \<Rightarrow> app_session \<Rightarrow> bytes \<Rightarrow> bytes \<Rightarrow> (('c, 'm) world, client_error, device_manifest \<times> bool) op" where
  "accept_served v ss i sm =
     (if i = ss_identity_id ss then in_client (manifest_accept_own (se_cbor v) (se_crypto v) sm)
      else in_unit (op_then (in_client (peer_manifest_accept (se_cbor v) (se_crypto v) i sm)) (\<lambda>(m, new, change).
        op_then (if new then record_device_notices (se_cbor v) (se_crypto v) (se_now v) i (dm_manifest_sequence m) change None else op_return ()) (\<lambda>_.
        op_return (m, new)))))"

definition refresh_one ::
  "('g, 'k, 'm) sync_env \<Rightarrow> (payload \<Rightarrow> ('c, cli_error, payload) op) \<Rightarrow> app_session \<Rightarrow> bytes \<Rightarrow> (('c, 'm) world, cli_error, unit) op" where
  "refresh_one v rq ss i =
     op_then (on_conn (rq (ManifestGet i))) (\<lambda>reply.
     op_then (op_lift (ok_or (latest_manifest_reply reply) (CliProtocol (''unexpected reply: '' @ tx_debug (se_texts v) reply)))) (\<lambda>sm.
     if sm = [] then op_return ()
     else (\<lambda>w. case accept_served v ss i sm w of
         (Inr (m, True), w') \<Rightarrow> on_task (record_change (Ch_ManifestUpdated i (dm_manifest_sequence m)
             (length (dm_active_credential_hashes m)) (length (dm_revoked_credential_hashes m)) FromRealm False)) w'
       | (Inr (m, False), w') \<Rightarrow> (Inr (), w')
       | (Inl e, w') \<Rightarrow> on_task (record_change (Ch_ManifestRejected i (tx_client (se_texts v) e))) w')))"

definition refresh_manifests ::
  "('g, 'k, 'm) sync_env \<Rightarrow> (payload \<Rightarrow> ('c, cli_error, payload) op) \<Rightarrow> app_session \<Rightarrow> (('c, 'm) world, cli_error, unit) op" where
  "refresh_manifests v rq ss =
     op_then (op_get (\<lambda>w. known_identities ss (wd_client w))) (\<lambda>ids. op_for ids (refresh_one v rq ss))"

section \<open>What a unit leaves\<close>

lemma in_unit_Inr: "in_unit m w = (Inr a, w') \<longleftrightarrow> m w = (Inr a, w')"
  by (auto simp: in_unit_def split: prod.splits sum.splits)

text \<open>The database of two worlds is the same.\<close>

definition same_db :: "('c, 'm) world \<Rightarrow> ('c, 'm) world \<Rightarrow> bool" where
  "same_db w w' \<longleftrightarrow> wd_client w' = wd_client w \<and> wd_delivery w' = wd_delivery w \<and> wd_mls w' = wd_mls w"

lemma in_unit_Inl: "in_unit m w = (Inl e, w') \<Longrightarrow> same_db w w'"
  by (auto simp: in_unit_def same_db_def split: prod.splits sum.splits)

lemma op_keeps_unit:
  assumes "\<And>w w'. same_db w w' \<Longrightarrow> P w \<Longrightarrow> P w'" and "op_keeps P m"
  shows "op_keeps P (in_unit m)"
  unfolding op_keeps_def
proof (intro allI impI)
  fix w assume P: "P w"
  obtain r w' where run: "in_unit m w = (r, w')"
    by fastforce
  show "P (snd (in_unit m w))"
  proof (cases r)
    case (Inl e)
    then show ?thesis
      using assms(1) [OF in_unit_Inl P] run by simp
  next
    case (Inr a)
    then have "m w = (Inr a, w')"
      using run by (simp add: in_unit_Inr)
    then show ?thesis
      using assms(2) P run unfolding op_keeps_def by (metis snd_conv)
  qed
qed

text \<open>The inbox row of an envelope.\<close>

definition recorded :: "bytes \<Rightarrow> envelope_item \<Rightarrow> delivery \<Rightarrow> bool" where
  "recorded mailbox item d \<longleftrightarrow> (\<exists>r\<in>set (inbox d). ib_mailbox_id r = mailbox \<and> ib_delivery_id r = ei_delivery_id item)"

text \<open>Operations that leave the inbox, the cursors, the connection and the progress alone.\<close>

definition inner_op :: "(('c, 'm) world, 'e, 'a) op \<Rightarrow> bool" where
  "inner_op m \<longleftrightarrow> (\<forall>w. inbox (wd_delivery (snd (m w))) = inbox (wd_delivery w) \<and> wd_conn (snd (m w)) = wd_conn w \<and>
     mailbox_cursor (wd_delivery (snd (m w))) = mailbox_cursor (wd_delivery w) \<and> wd_task (snd (m w)) = wd_task w)"

named_theorems inner_intros

lemma inner_basic [inner_intros]:
  "inner_op (op_return a)" "inner_op (op_fail e)" "inner_op (op_lift r)" "inner_op (op_get f)"
  by (simp_all add: inner_op_def)

lemma inner_then [inner_intros]:
  assumes "inner_op m" and "\<And>a. inner_op (f a)"
  shows "inner_op (op_then m f)"
  unfolding inner_op_def
proof
  fix w
  show "inbox (wd_delivery (snd (op_then m f w))) = inbox (wd_delivery w) \<and> wd_conn (snd (op_then m f w)) = wd_conn w \<and>
      mailbox_cursor (wd_delivery (snd (op_then m f w))) = mailbox_cursor (wd_delivery w) \<and> wd_task (snd (op_then m f w)) = wd_task w"
    using assms(1) assms(2) unfolding inner_op_def op_then_def
    by (cases "m w"; cases "fst (m w)") (simp_all, (metis snd_conv)+)
qed

lemma inner_for [inner_intros]: "(\<And>x. inner_op (f x)) \<Longrightarrow> inner_op (op_for xs f)"
  by (induction xs) (auto intro!: inner_intros)

lemma inner_if [inner_intros]: "inner_op m \<Longrightarrow> inner_op n \<Longrightarrow> inner_op (if b then m else n)"
  by simp

lemma inner_map_err [inner_intros]: "inner_op m \<Longrightarrow> inner_op (op_map_err f m)"
  unfolding inner_op_def op_map_err_def by (simp split: prod.split) (metis snd_conv)

lemma inner_on_client [inner_intros]: "inner_op (on_client tx ctx m)"
  by (simp add: inner_op_def on_client_def split: prod.splits)

lemma inner_domain_client [inner_intros]: "inner_op (domain_client tx ctx m)"
  by (simp add: inner_op_def domain_client_def split: prod.splits)

lemma inner_on_mls [inner_intros]: "inner_op (on_mls err m)"
  by (simp add: inner_op_def on_mls_def split: prod.splits)

lemma record_event_inbox:
  "inbox (snd (record_event_by now g e k b s d)) = inbox d"
  "mailbox_cursor (snd (record_event_by now g e k b s d)) = mailbox_cursor d"
  by (simp_all add: record_event_by_def)

lemma inner_record_event [inner_intros]: "inner_op (on_delivery tx ctx (record_event_by now g e k b s))"
  using record_event_inbox [of now g e k b s] by (simp add: inner_op_def on_delivery_def case_prod_unfold)

lemma inner_notices [inner_intros]: "inner_op (record_device_notices cb cr now i sq change carrier)"
  unfolding record_device_notices_def
  by (intro inner_intros) (simp add: inner_op_def case_prod_unfold record_event_inbox)

lemma inner_hello [inner_intros]: "inner_op (receive_hello cb tx why now ss gid sender body)"
  unfolding receive_hello_def remember_hello_def Let_def
  by (auto intro!: inner_intros split: option.splits)

lemma inner_classify [inner_intros]: "inner_op (classify tx ss gid sender peers)"
  unfolding classify_def by (auto intro!: inner_intros split: option.splits)

lemmas handler_defs = handle_mls_def handle_message_def handle_received_def handle_welcome_def handle_event_def handle_file_def
  record_message_event_def handle_manifest_def handle_roster_def

lemma inner_handle_event [inner_intros]: "inner_op (handle_event v ss members gid leaf delivery_id ev)"
  unfolding handle_event_def handle_file_def record_message_event_def handle_manifest_def handle_roster_def Let_def
  by (auto intro!: inner_intros split: option.splits prod.splits)

lemma inner_handle_mls [inner_intros]: "inner_op (handle_mls v ss msg delivery_id)"
  unfolding handle_mls_def handle_message_def handle_received_def handle_welcome_def Let_def
  by (auto intro!: inner_intros split: wire_format.splits received_message.splits prod.splits)

section \<open>The pass\<close>

lemma inner_same: "inner_op m \<Longrightarrow> m w = (r, w') \<Longrightarrow> inbox (wd_delivery w') = inbox (wd_delivery w) \<and> wd_conn w' = wd_conn w \<and>
    mailbox_cursor (wd_delivery w') = mailbox_cursor (wd_delivery w) \<and> wd_task w' = wd_task w"
  unfolding inner_op_def by (metis snd_conv)

lemma record_incoming_cases:
  "recorded mb item d \<Longrightarrow> record_incoming now mb (ei_delivery_id item) sq d = (Inr False, d)"
  "\<not> recorded mb item d \<Longrightarrow> \<exists>row. record_incoming now mb (ei_delivery_id item) sq d = (Inr True, d\<lparr>inbox := inbox d @ [row]\<rparr>) \<and>
     ib_mailbox_id row = mb \<and> ib_delivery_id row = ei_delivery_id item"
  by (auto simp: recorded_def record_incoming_def)

text \<open>The rest of the unit, once the envelope is entered in the inbox.\<close>

definition open_and_handle ::
  "('g, 'k, 'm) sync_env \<Rightarrow> app_session \<Rightarrow> bytes \<Rightarrow> envelope_item \<Rightarrow> (('c, 'm) world, cli_error, state_change option) op" where
  "open_and_handle v ss mailbox item =
     op_then (op_lift (map_err (\<lambda>e. protocol_text ''open'' (se_envelope_text v e))
         (envelope_open (se_cbor v) (se_hpke v) (fst (dk_envelope_hpke (sd_keys (ss_device ss))))
           (envelope_context_new (sr_realm_id (ss_realm ss)) mailbox (ei_delivery_id item))
           \<lparr>s_enc = ei_hpke_enc item, s_ciphertext = ei_ciphertext item\<rparr>))) (\<lambda>inner.
       op_then (op_lift (map_err (protocol_text ''mls parse'') (ml_from_bytes (se_mls v) (ip_payload inner)))) (\<lambda>msg.
       op_then (handle_mls v ss msg (ei_delivery_id item)) (\<lambda>change. op_return (Some change))))"

lemma inner_open_and_handle: "inner_op (open_and_handle v ss mb item)"
  unfolding open_and_handle_def by (intro inner_intros)

lemma open_and_handle_Some: "open_and_handle v ss mb item w = (Inr c, w') \<Longrightarrow> c \<noteq> None"
  by (auto simp: open_and_handle_def op_then_def split: prod.splits sum.splits)

lemma receive_unit_known:
  "recorded mb item (wd_delivery w) \<Longrightarrow> receive_unit v ss mb item w = (Inr None, w)"
  by (simp add: receive_unit_def op_then_def on_delivery_def record_incoming_cases(1))

lemma receive_unit_fresh:
  assumes "\<not> recorded mb item (wd_delivery w)"
  shows "\<exists>row. receive_unit v ss mb item w =
      open_and_handle v ss mb item (w\<lparr>wd_delivery := (wd_delivery w)\<lparr>inbox := inbox (wd_delivery w) @ [row]\<rparr>\<rparr>) \<and>
    ib_mailbox_id row = mb \<and> ib_delivery_id row = ei_delivery_id item"
proof -
  obtain row where row: "record_incoming (se_now v) mb (ei_delivery_id item) (as_i64 (ei_seq item)) (wd_delivery w) =
      (Inr True, (wd_delivery w)\<lparr>inbox := inbox (wd_delivery w) @ [row]\<rparr>)"
    "ib_mailbox_id row = mb" "ib_delivery_id row = ei_delivery_id item"
    using record_incoming_cases(2) [OF assms] by blast
  then show ?thesis
    unfolding receive_unit_def open_and_handle_def [symmetric]
    by (intro exI [of _ row]) (simp add: op_then_def on_delivery_def)
qed

text \<open>One envelope: a known one changes nothing; a new one that is handled is recorded; one that fails changes nothing.\<close>

lemma receive_one_cases:
  assumes "receive_one v ss mb item w = (r, w')"
  obtains (known) "recorded mb item (wd_delivery w)" and "r = Inr None" and "w' = w"
  | (handled) c row where "\<not> recorded mb item (wd_delivery w)" and "r = Inr (Some c)" and "inbox (wd_delivery w') = inbox (wd_delivery w) @ [row]"
      and "ib_mailbox_id row = mb" and "ib_delivery_id row = ei_delivery_id item"
      and "mailbox_cursor (wd_delivery w') = mailbox_cursor (wd_delivery w)" and "wd_conn w' = wd_conn w" and "wd_task w' = wd_task w"
  | (failed) e where "\<not> recorded mb item (wd_delivery w)" and "r = Inl e" and "w' = w"
proof (cases "recorded mb item (wd_delivery w)")
  case True
  then have "r = Inr None" "w' = w"
    using assms by (simp_all add: receive_one_def in_unit_def receive_unit_known)
  with True show thesis
    by (rule known)
next
  case False
  then obtain row where row: "receive_unit v ss mb item w =
      open_and_handle v ss mb item (w\<lparr>wd_delivery := (wd_delivery w)\<lparr>inbox := inbox (wd_delivery w) @ [row]\<rparr>\<rparr>)"
    "ib_mailbox_id row = mb" "ib_delivery_id row = ei_delivery_id item"
    using receive_unit_fresh by blast
  obtain r1 w1 where run: "receive_unit v ss mb item w = (r1, w1)"
    by fastforce
  note inner = inner_same [OF inner_open_and_handle run [unfolded row(1)]]
  show thesis
  proof (cases r1)
    case (Inl e)
    then have "r = Inl e" "w' = w1\<lparr>wd_client := wd_client w, wd_delivery := wd_delivery w, wd_mls := wd_mls w\<rparr>"
      using assms run by (simp_all add: receive_one_def in_unit_def)
    moreover have "w1\<lparr>wd_client := wd_client w, wd_delivery := wd_delivery w, wd_mls := wd_mls w\<rparr> = w"
      using inner by (intro world.equality) simp_all
    ultimately show thesis
      by (intro failed [OF False]) simp_all
  next
    case (Inr c)
    then have "r = Inr c" "w' = w1"
      using assms run by (simp_all add: receive_one_def in_unit_def)
    moreover obtain c' where "c = Some c'"
      using open_and_handle_Some [of v ss mb item _ c] run row(1) Inr by (metis not_None_eq)
    ultimately show thesis
      using inner by (intro handled [OF False _ _ row(2,3)]) simp_all
  qed
qed

definition reported :: "('c, 'm) world \<Rightarrow> state_change list" where
  "reported w = or_changes (tk_result (wd_task w))"

lemma on_task_change:
  obtains t where "on_task (record_change c) w = (Inr (), w\<lparr>wd_task := t\<rparr>)" and "reported (w\<lparr>wd_task := t\<rparr>) = reported w @ [c]"
  by (simp add: on_task_def record_change_def op_then_def reported_def)

lemma recorded_mono: "set (inbox d) \<subseteq> set (inbox d') \<Longrightarrow> recorded mb i d \<Longrightarrow> recorded mb i d'"
  by (auto simp: recorded_def)

text \<open>What a pass over envelopes did: the handled ones come first, in order; the first that fails stops the pass.\<close>

definition passed ::
  "('g, 'k, 'm) sync_env \<Rightarrow> app_session \<Rightarrow> bytes \<Rightarrow> envelope_item list \<Rightarrow> envelope_item list \<Rightarrow> ('c, 'm) world \<Rightarrow> ('c, 'm) world \<Rightarrow> bool" where
  "passed v ss mb did rest w w' \<longleftrightarrow>
     (\<forall>i\<in>set did. recorded mb i (wd_delivery w')) \<and>
     set (inbox (wd_delivery w)) \<subseteq> set (inbox (wd_delivery w')) \<and>
     mailbox_cursor (wd_delivery w') = mailbox_cursor (wd_delivery w) \<and> wd_conn w' = wd_conn w \<and>
     length (reported w') = length (reported w) + length did + (if rest = [] then 0 else 1) \<and>
     (rest \<noteq> [] \<longrightarrow> \<not> recorded mb (hd rest) (wd_delivery w') \<and>
        (\<exists>wm e. receive_one v ss mb (hd rest) wm = (Inl e, wm) \<and> same_db wm w' \<and>
          reported w' = reported wm @ [Ch_DeliveryDeferred (ei_delivery_id (hd rest)) (error_text e)]))"

definition advance :: "u64 \<Rightarrow> envelope_item list \<Rightarrow> u64" where
  "advance cur did = (if did = [] then cur else ei_seq (last did))"

lemma passed_step:
  assumes "passed v ss mb did rest w1 w'" and "recorded mb item (wd_delivery w1)"
    and "set (inbox (wd_delivery w)) \<subseteq> set (inbox (wd_delivery w1))" and "mailbox_cursor (wd_delivery w1) = mailbox_cursor (wd_delivery w)"
    and "wd_conn w1 = wd_conn w" and "length (reported w1) = Suc (length (reported w))"
  shows "passed v ss mb (item # did) rest w w'"
  using assms unfolding passed_def by (auto intro: recorded_mono)

text \<open>A pass over all of the envelopes left the database as a pass over the handled ones alone leaves it, and there the next one
  fails.\<close>

definition handled_alone ::
  "('g, 'k, 'm) sync_env \<Rightarrow> app_session \<Rightarrow> bytes \<Rightarrow> envelope_item list \<Rightarrow> envelope_item list \<Rightarrow> nat \<Rightarrow> u64 \<Rightarrow> nat \<times> u64 \<Rightarrow>
   ('c, 'm) world \<Rightarrow> ('c, 'm) world \<Rightarrow> bool" where
  "handled_alone v ss mb did rest new cur res w w' \<longleftrightarrow>
     (\<exists>wd. receive_items v ss mb did new cur w = (Inr res, wd) \<and> same_db wd w' \<and>
        (rest \<noteq> [] \<longrightarrow> (\<exists>e. receive_one v ss mb (hd rest) wd = (Inl e, wd))))"

lemma receive_items_pass:
  assumes "receive_items v ss mb items new cur w = (r, w')"
  shows "\<exists>did rest new'. items = did @ rest \<and> r = Inr (new', advance cur did) \<and> passed v ss mb did rest w w' \<and>
    handled_alone v ss mb did rest new cur (new', advance cur did) w w' \<and>
    length (inbox (wd_delivery w')) + new = length (inbox (wd_delivery w)) + new'"
  using assms
proof (induction items arbitrary: new cur w)
  case Nil
  then show ?case
    by (intro exI [of _ "[]"] exI [of _ new]) (simp add: passed_def advance_def handled_alone_def same_db_def)
next
  case (Cons item items)
  obtain r1 w1 where one: "receive_one v ss mb item w = (r1, w1)"
    by fastforce
  have step: "\<exists>did rest new'. item # items = did @ rest \<and> r = Inr (new', advance cur did) \<and> passed v ss mb did rest w w' \<and>
      handled_alone v ss mb did rest new cur (new', advance cur did) w w' \<and>
      length (inbox (wd_delivery w')) + new = length (inbox (wd_delivery w)) + new'"
    if next_one: "\<And>xs. receive_items v ss mb (item # xs) new cur w = receive_items v ss mb xs (new + n) (ei_seq item) (w1\<lparr>wd_task := t\<rparr>)"
      and t: "reported (w1\<lparr>wd_task := t\<rparr>) = reported w1 @ [c]" and task: "wd_task w1 = wd_task w"
      and rec: "recorded mb item (wd_delivery w1)" and sub: "set (inbox (wd_delivery w)) \<subseteq> set (inbox (wd_delivery w1))"
      and cur: "mailbox_cursor (wd_delivery w1) = mailbox_cursor (wd_delivery w)" and conn: "wd_conn w1 = wd_conn w"
      and n: "length (inbox (wd_delivery w1)) = length (inbox (wd_delivery w)) + n" for n t c
  proof -
    have rest: "receive_items v ss mb items (new + n) (ei_seq item) (w1\<lparr>wd_task := t\<rparr>) = (r, w')"
      using Cons.prems next_one by metis
    obtain did rest' new' where ih: "items = did @ rest'" "r = Inr (new', advance (ei_seq item) did)"
      "passed v ss mb did rest' (w1\<lparr>wd_task := t\<rparr>) w'"
      "handled_alone v ss mb did rest' (new + n) (ei_seq item) (new', advance (ei_seq item) did) (w1\<lparr>wd_task := t\<rparr>) w'"
      "length (inbox (wd_delivery w')) + (new + n) = length (inbox (wd_delivery (w1\<lparr>wd_task := t\<rparr>))) + new'"
      using Cons.IH [OF rest] by blast
    have "length (reported (w1\<lparr>wd_task := t\<rparr>)) = Suc (length (reported w))"
      using t task by (simp add: reported_def)
    then have "passed v ss mb (item # did) rest' w w'"
      using passed_step [OF ih(3), of item w] rec sub cur conn by simp
    moreover have "advance cur (item # did) = advance (ei_seq item) did"
      by (simp add: advance_def)
    moreover have "handled_alone v ss mb (item # did) rest' new cur (new', advance (ei_seq item) did) w w'"
      using ih(4) unfolding handled_alone_def next_one .
    ultimately show ?thesis
      using ih n by (intro exI [of _ "item # did"] exI [of _ rest'] exI [of _ new']) simp
  qed
  show ?case
    using one
  proof (cases rule: receive_one_cases)
    case known
    obtain t where "on_task (record_change (Ch_DuplicateDelivery (ei_delivery_id item))) w1 = (Inr (), w1\<lparr>wd_task := t\<rparr>)"
      "reported (w1\<lparr>wd_task := t\<rparr>) = reported w1 @ [Ch_DuplicateDelivery (ei_delivery_id item)]"
      by (rule on_task_change)
    then show ?thesis
      using step [of 0 t] known one by (simp add: op_then_def)
  next
    case (handled c row)
    obtain t where "on_task (record_change c) w1 = (Inr (), w1\<lparr>wd_task := t\<rparr>)" "reported (w1\<lparr>wd_task := t\<rparr>) = reported w1 @ [c]"
      by (rule on_task_change)
    moreover have "recorded mb item (wd_delivery w1)"
      using handled by (auto simp: recorded_def)
    ultimately show ?thesis
      using step [of 1 t] handled one by (simp add: op_then_def) blast
  next
    case (failed e)
    obtain t where t: "on_task (record_change (Ch_DeliveryDeferred (ei_delivery_id item) (error_text e))) w1 = (Inr (), w1\<lparr>wd_task := t\<rparr>)"
      "reported (w1\<lparr>wd_task := t\<rparr>) = reported w1 @ [Ch_DeliveryDeferred (ei_delivery_id item) (error_text e)]"
      by (rule on_task_change)
    then have "r = Inr (new, cur)" "w' = w\<lparr>wd_task := t\<rparr>"
      using failed one Cons.prems by (simp_all add: op_then_def)
    moreover have "passed v ss mb [] (item # items) w (w\<lparr>wd_task := t\<rparr>)"
      using failed one t(2) by (auto simp: passed_def same_db_def)
    moreover have "handled_alone v ss mb [] (item # items) new cur (new, cur) w (w\<lparr>wd_task := t\<rparr>)"
      using failed one by (simp add: handled_alone_def same_db_def)
    ultimately show ?thesis
      by (intro exI [of _ "[]"] exI [of _ "item # items"] exI [of _ new]) (simp add: advance_def)
  qed
qed

section \<open>Acknowledgement and cursor\<close>

lemma ack_fold:
  "inbox (fold (ack_one mb) ds d) = map (\<lambda>r. if ib_mailbox_id r = mb \<and> ib_delivery_id r \<in> set ds then r\<lparr>ib_acked := True\<rparr> else r) (inbox d) \<and>
   mailbox_cursor (fold (ack_one mb) ds d) = mailbox_cursor d"
proof (induction ds arbitrary: d)
  case (Cons x xs)
  show ?case
    using Cons.IH [of "ack_one mb x d"] by (auto simp: ack_one_def)
qed simp

lemma ack_recorded: "recorded mb i (fold (ack_one m) ds d) = recorded mb i d"
  unfolding recorded_def ack_fold [THEN conjunct1] set_map bex_simps by (intro bex_cong) auto

lemma unacked_none: "\<forall>r\<in>set (inbox d). ib_mailbox_id r = mb \<longrightarrow> ib_acked r \<Longrightarrow> unacked mb d = []"
  by (simp add: unacked_def)

lemma ack_all: "unacked mb (fold (ack_one mb) (unacked mb d) d) = []"
  by (rule unacked_none) (unfold ack_fold [THEN conjunct1] set_map ball_simps, auto simp: unacked_def)

lemma acknowledge_effect:
  assumes "acknowledge rq tx m w = (r, w')"
  shows "(\<forall>i. recorded (om_mailbox_id m) i (wd_delivery w') = recorded (om_mailbox_id m) i (wd_delivery w)) \<and>
    mailbox_cursor (wd_delivery w') = mailbox_cursor (wd_delivery w) \<and> (\<forall>n. r = Inr n \<longrightarrow> unacked (om_mailbox_id m) (wd_delivery w') = [])"
proof (cases "unacked (om_mailbox_id m) (wd_delivery w) = []")
  case True
  then show ?thesis
    using assms by (auto simp: acknowledge_def op_then_def)
next
  case False
  obtain reply c where rq: "rq (EnvelopeAck (om_mailbox_id m) (om_read_capability m) (unacked (om_mailbox_id m) (wd_delivery w))) (wd_conn w) = (reply, c)"
    by fastforce
  then show ?thesis
    using assms False
    by (cases reply) (auto simp: acknowledge_def op_then_def on_conn_def on_delivery_def mark_acked_fold ack_recorded ack_fold ack_all
        split: if_splits)
qed

lemma sync_finish_effect:
  assumes "sync_finish rq tx m (items, new, adv) w = (r, w')"
  shows "(\<forall>i. recorded (om_mailbox_id m) i (wd_delivery w') = recorded (om_mailbox_id m) i (wd_delivery w)) \<and>
    (r = Inr () \<longrightarrow> unacked (om_mailbox_id m) (wd_delivery w') = [] \<and>
       mailbox_cursor (wd_delivery w') (om_mailbox_id m) =
         Some (case mailbox_cursor (wd_delivery w) (om_mailbox_id m) of None \<Rightarrow> as_i64 adv | Some old \<Rightarrow> max old (as_i64 adv))) \<and>
    (r \<noteq> Inr () \<longrightarrow> mailbox_cursor (wd_delivery w') = mailbox_cursor (wd_delivery w))"
proof -
  obtain a w1 where ack: "acknowledge rq tx m w = (a, w1)"
    by fastforce
  note eff = acknowledge_effect [OF ack]
  show ?thesis
  proof (cases a)
    case (Inl e)
    then show ?thesis
      using assms ack eff by (auto simp: sync_finish_def op_then_def)
  next
    case (Inr n)
    let ?w2 = "w1\<lparr>wd_delivery := snd (set_cursor (om_mailbox_id m) (as_i64 adv) (wd_delivery w1))\<rparr>"
    obtain t where "on_task (record_change (Ch_SyncCompleted (length items) new n)) ?w2 = (Inr (), ?w2\<lparr>wd_task := t\<rparr>)"
      by (rule on_task_change)
    then have "r = Inr ()" "w' = ?w2\<lparr>wd_task := t\<rparr>"
      using assms ack Inr by (simp_all add: sync_finish_def op_then_def on_delivery_def set_cursor_def)
    then show ?thesis
      using eff Inr by (simp add: set_cursor_def recorded_def unacked_def)
  qed
qed

lemma sync_receive_pass:
  assumes "sync_receive v rq ss m w = (Inr (items, new, adv), w1)"
  shows "\<exists>did rest w0. items = did @ rest \<and> w0 = w\<lparr>wd_conn := wd_conn w0\<rparr> \<and> passed v ss (om_mailbox_id m) did rest w0 w1 \<and>
    handled_alone v ss (om_mailbox_id m) did rest 0 (as_u64 (cursor (om_mailbox_id m) (wd_delivery w))) (new, adv) w0 w1 \<and>
    adv = advance (as_u64 (cursor (om_mailbox_id m) (wd_delivery w))) did \<and>
    length (inbox (wd_delivery w1)) = length (inbox (wd_delivery w)) + new"
proof -
  let ?cur = "as_u64 (cursor (om_mailbox_id m) (wd_delivery w))"
  obtain f c where f: "fetch_envelopes rq (se_texts v) m ?cur (wd_conn w) = (f, c)"
    by fastforce
  let ?w0 = "w\<lparr>wd_conn := c\<rparr>"
  obtain r w' where run: "receive_items v ss (om_mailbox_id m) items 0 ?cur ?w0 = (r, w')"
    by fastforce
  have "f = Inr items" "r = Inr (new, adv)" "w' = w1"
    using assms f run
    by (auto simp: sync_receive_def op_then_def on_conn_def split: sum.splits prod.splits)
  then obtain did rest where "items = did @ rest" "adv = advance ?cur did" "passed v ss (om_mailbox_id m) did rest ?w0 w1"
    "handled_alone v ss (om_mailbox_id m) did rest 0 ?cur (new, adv) ?w0 w1"
    "length (inbox (wd_delivery w1)) = length (inbox (wd_delivery w)) + new"
    using receive_items_pass [OF run] by auto
  then show ?thesis
    by (intro exI [of _ did] exI [of _ rest] exI [of _ ?w0]) simp
qed

text \<open>A relay that serves the envelopes after the cursor in the order of their numbers.\<close>

definition in_order :: "int \<Rightarrow> envelope_item list \<Rightarrow> bool" where
  "in_order cur items \<longleftrightarrow> 0 \<le> cur \<and> cur < 2 ^ 63 \<and> (\<forall>i\<in>set items. unat (ei_seq i) < 2 ^ 63) \<and>
     sorted_wrt (<) (cur # map (\<lambda>i. int (unat (ei_seq i))) items)"

lemma advance_in_order:
  assumes "in_order cur (did @ rest)"
  shows "as_i64 (advance (as_u64 cur) did) = (if did = [] then cur else int (unat (ei_seq (last did)))) \<and>
    cur \<le> as_i64 (advance (as_u64 cur) did) \<and> (\<forall>i\<in>set rest. as_i64 (advance (as_u64 cur) did) < int (unat (ei_seq i)))"
proof (cases "did = []")
  case True
  have "unat (as_u64 cur) = nat cur"
    using assms by (simp add: in_order_def as_u64_def unsigned_of_int take_bit_int_eq_self)
  then have "as_i64 (as_u64 cur) = cur"
    using assms as_i64_small [of "as_u64 cur"] by (simp add: in_order_def nat_less_iff)
  then show ?thesis
    using assms True by (auto simp: advance_def in_order_def)
next
  case False
  then have l: "last did \<in> set did"
    by simp
  then have "as_i64 (ei_seq (last did)) = int (unat (ei_seq (last did)))"
    using assms as_i64_small by (simp add: in_order_def)
  moreover have "cur < int (unat (ei_seq (last did)))"
    using assms l by (simp add: in_order_def)
  moreover have "\<forall>i\<in>set rest. int (unat (ei_seq (last did))) < int (unat (ei_seq i))"
    using assms l by (simp add: in_order_def sorted_wrt_append)
  ultimately show ?thesis
    using False by (simp add: advance_def)
qed

text \<open>C23. A pass never skips an envelope. The envelopes of a pass split into a first part, all recorded in the inbox when the pass
  ends, and the rest, which the pass leaves alone: the database is exactly what a pass over the first part alone leaves, and the
  first of the rest, which fails there, is not recorded. When the pass succeeds every recorded
  envelope has been acknowledged. If the relay serves the envelopes in the order of their numbers, after the cursor, then the
  cursor afterwards is before every envelope of the rest, so the next pass fetches them again, and it never goes
  back; what happens between the envelopes and the acknowledgement may change anything but inbox and cursors.\<close>

theorem sync_cursor_safe:
  assumes "sync_receive v rq ss m w = (Inr (items, new, adv), w1)"
    and "inbox (wd_delivery w2) = inbox (wd_delivery w1)" and "mailbox_cursor (wd_delivery w2) = mailbox_cursor (wd_delivery w1)"
    and "sync_finish rq tx m (items, new, adv) w2 = (r, w3)"
  shows "\<exists>did rest. items = did @ rest \<and>
    handled_alone v ss (om_mailbox_id m) did rest 0 (as_u64 (cursor (om_mailbox_id m) (wd_delivery w))) (new, adv) (w\<lparr>wd_conn := wd_conn w1\<rparr>) w1 \<and>
    (\<forall>i\<in>set did. recorded (om_mailbox_id m) i (wd_delivery w3)) \<and>
    (rest \<noteq> [] \<longrightarrow> \<not> recorded (om_mailbox_id m) (hd rest) (wd_delivery w3)) \<and>
    (r = Inr () \<longrightarrow> unacked (om_mailbox_id m) (wd_delivery w3) = []) \<and>
    (in_order (cursor (om_mailbox_id m) (wd_delivery w)) items \<longrightarrow>
       cursor (om_mailbox_id m) (wd_delivery w) \<le> cursor (om_mailbox_id m) (wd_delivery w3) \<and>
       (\<forall>i\<in>set rest. cursor (om_mailbox_id m) (wd_delivery w3) < int (unat (ei_seq i))) \<and>
       (r = Inr () \<and> did \<noteq> [] \<longrightarrow> cursor (om_mailbox_id m) (wd_delivery w3) = int (unat (ei_seq (last did)))))"
proof -
  let ?mb = "om_mailbox_id m"
  let ?cur = "cursor ?mb (wd_delivery w)"
  obtain did rest w0 where pass: "items = did @ rest" "w0 = w\<lparr>wd_conn := wd_conn w0\<rparr>" "passed v ss ?mb did rest w0 w1"
    and alone: "handled_alone v ss ?mb did rest 0 (as_u64 ?cur) (new, adv) w0 w1" and adv: "adv = advance (as_u64 ?cur) did"
    using sync_receive_pass [OF assms(1)] by blast
  have w0: "w0 = w\<lparr>wd_conn := wd_conn w1\<rparr>"
    using pass(2,3) by (metis passed_def)
  note fin = sync_finish_effect [OF assms(4)]
  have same: "recorded ?mb i (wd_delivery w3) = recorded ?mb i (wd_delivery w1)" for i
    using fin assms(2) by (simp add: recorded_def)
  have "mailbox_cursor (wd_delivery w2) = mailbox_cursor (wd_delivery w)"
    using pass(3) assms(3) arg_cong [OF pass(2), of wd_delivery] by (simp add: passed_def)
  then have cur: "cursor ?mb (wd_delivery w3) = (if r = Inr () then
      (if mailbox_cursor (wd_delivery w) ?mb = None then as_i64 adv else max ?cur (as_i64 adv)) else ?cur)"
    using fin by (cases "mailbox_cursor (wd_delivery w) ?mb"; cases "r = Inr ()") (simp_all add: cursor_def)
  have "?cur \<le> cursor ?mb (wd_delivery w3) \<and> (\<forall>i\<in>set rest. cursor ?mb (wd_delivery w3) < int (unat (ei_seq i))) \<and>
      (r = Inr () \<and> did \<noteq> [] \<longrightarrow> cursor ?mb (wd_delivery w3) = int (unat (ei_seq (last did))))"
    if "in_order ?cur items"
  proof -
    have "in_order ?cur (did @ rest)"
      using that pass(1) by simp
    moreover from this have "\<forall>i\<in>set rest. ?cur < int (unat (ei_seq i))"
      by (simp add: in_order_def)
    ultimately show ?thesis
      unfolding cur adv using advance_in_order [of ?cur did rest] by (auto simp: max_def)
  qed
  then show ?thesis
    using pass(1,3) alone [unfolded w0] same fin unfolding passed_def by - (rule exI [of _ did], rule exI [of _ rest], simp)
qed

section \<open>Who commits\<close>

lemma find_first_sorted:
  assumes "find P (sort_key k xs) = Some x"
  shows "x \<in> set xs \<and> P x \<and> (\<forall>y\<in>set xs. k y < k x \<longrightarrow> \<not> P y)"
proof -
  obtain i where i: "i < length (sort_key k xs)" "P (sort_key k xs ! i)" "x = sort_key k xs ! i"
    "\<forall>j<i. \<not> P (sort_key k xs ! j)"
    using assms by (auto simp: find_Some_iff)
  have "\<not> P y" if y: "y \<in> set xs" "k y < k x" for y
  proof -
    obtain j where j: "j < length (sort_key k xs)" "y = sort_key k xs ! j"
      using y(1) by (metis in_set_conv_nth set_sort)
    have "sorted (map k (sort_key k xs))"
      by simp
    then have "\<not> i \<le> j"
      using y(2) i(1,3) j sorted_nth_mono [of "map k (sort_key k xs)" i j] by (auto simp: not_less)
    then show ?thesis
      using i(4) j(2) by simp
  qed
  then show ?thesis
    using i(1-3) by (metis nth_mem set_sort)
qed

text \<open>C36. The committer the application computes is the one the policy of the group lets commit. If a member that is not known to be
  revoked finds itself to be the committer, then a commit by it passes the policy of every client with the same knowledge exactly when it
  removes every leaf below, all of which are known to be revoked, and no commit of another member that is not known to be revoked
  passes. With two leaves below, a commit that removes at most one leaf never passes; the application builds only such
  commits, so two revoked devices below the committer are never removed.\<close>

theorem committer_passes_policy:
  assumes "m \<in> set members" and "\<not> device_revoked (device_of m) s" and "i_am_committer s members (mem_index m)"
  shows "(\<forall>ps. filter_proposals removes inner (Some s) dir (ExistingMember m) members (Inr (Some (lowest_active_leaf c))) ps = Inr (inner ps) \<longleftrightarrow>
      {mem_index x | x. x \<in> set members \<and> mem_index x < mem_index m} \<subseteq> set (removes ps)) \<and>
    (\<forall>x\<in>set members. mem_index x < mem_index m \<longrightarrow> device_revoked (device_of x) s) \<and>
    (\<forall>b qs. b \<in> set members \<and> mem_index b \<noteq> mem_index m \<and> \<not> device_revoked (device_of b) s \<longrightarrow>
      (\<exists>e. filter_proposals removes inner (Some s) dir (ExistingMember b) members (Inr (Some (lowest_active_leaf c))) qs = Inl e)) \<and>
    (\<forall>x y ps. x \<in> set members \<and> y \<in> set members \<and> mem_index x < mem_index y \<and> mem_index y < mem_index m \<and> length (removes ps) \<le> 1 \<longrightarrow>
      (\<exists>e. filter_proposals removes inner (Some s) dir (ExistingMember m) members (Inr (Some (lowest_active_leaf c))) ps = Inl e))"
proof (intro conjI allI impI)
  let ?filter = "\<lambda>who ps. filter_proposals removes inner (Some s) dir (ExistingMember who) members (Inr (Some (lowest_active_leaf c))) ps"
  obtain x where x: "find (\<lambda>m. \<not> device_revoked (device_of m) s) (sort_key mem_index members) = Some x" "mem_index x = mem_index m"
    using assms(3) by (auto simp: i_am_committer_def committer_leaf_def)
  show low: "\<forall>y\<in>set members. mem_index y < mem_index m \<longrightarrow> device_revoked (device_of y) s"
    using find_first_sorted [OF x(1)] x(2) by auto
  have refused: "\<exists>e. ?filter who ps = Inl e" if "?filter who ps \<noteq> Inr (inner ps)" for who ps
  proof (cases "?filter who ps")
    case (Inr qs)
    then show ?thesis
      using that by (auto simp: filter_proposals_ok)
  qed simp
  show passes: "?filter m ps = Inr (inner ps) \<longleftrightarrow> {mem_index x | x. x \<in> set members \<and> mem_index x < mem_index m} \<subseteq> set (removes ps)" for ps
    using low by (auto simp: filter_proposals_ok policy_revoked_client lowest_active_leaf_def)
  show "\<exists>e. ?filter b qs = Inl e" if "b \<in> set members \<and> mem_index b \<noteq> mem_index m \<and> \<not> device_revoked (device_of b) s" for b qs
  proof (rule refused)
    have "mem_index m < mem_index b"
      using low that by (meson linorder_neqE)
    then show "?filter b qs \<noteq> Inr (inner qs)"
      using assms(1,2) by (auto simp: filter_proposals_ok policy_revoked_client)
  qed
  show "\<exists>e. ?filter m ps = Inl e"
    if "x \<in> set members \<and> y \<in> set members \<and> mem_index x < mem_index y \<and> mem_index y < mem_index m \<and> length (removes ps) \<le> 1" for x y ps
  proof (rule refused)
    have "\<not> {mem_index x, mem_index y} \<subseteq> set (removes ps)"
      using that by (cases "removes ps") auto
    then show "?filter m ps \<noteq> Inr (inner ps)"
      unfolding passes using that less_trans [of "mem_index x" "mem_index y" "mem_index m"] by blast
  qed
qed

section \<open>A text arrives\<close>

context cbor_codec begin

lemma app_event_roundtrip: "app_event_from_value cb (sort_maps cb (struct (app_event_fields e))) = Some e"
  unfolding app_event_from_value_def
  by (rule sorted_struct_cases [of "app_event_fields e"]) (simp add: sorted_field app_event_fields_def wire_simps)

lemma event_decodes:
  assumes "utf8 kind" and "encode_event cb tx kind body = Inr data"
  shows "decode_event cb why data = Inr \<lparr>av_kind = kind, av_body = body\<rparr>"
proof -
  let ?e = "\<lparr>av_kind = kind, av_body = body\<rparr>"
  have "canonical cb (struct (app_event_fields ?e)) = Some data"
    using assms(2) by (auto simp: encode_event_def signed_canonical_def result_simps)
  moreover have "wf_value 16 (struct (app_event_fields ?e))"
    using assms(1) by (simp add: app_event_fields_def struct_def wf_value_numeral ascii_utf8 ascii_def)
  ultimately have "from_reader cb data = Some (sort_maps cb (struct (app_event_fields ?e)))"
    using canonical_decodes by simp
  then show ?thesis
    by (simp add: decode_event_def decode_as_def app_event_roundtrip)
qed

end

text \<open>The MLS library takes a private message of a group in the profile's state to application data of a leaf, and
  stores the group.\<close>

definition mls_delivers ::
  "('g, 'k, 'm) mls_lib \<Rightarrow> client \<Rightarrow> 'm \<Rightarrow> bytes \<Rightarrow> bytes \<Rightarrow> 'g \<Rightarrow> bytes \<Rightarrow> u32 \<Rightarrow> 'm \<Rightarrow> bool" where
  "mls_delivers ml s m mls_bytes gid g data leaf m' \<longleftrightarrow>
     (\<exists>msg g0 m1 g1 m2. ml_from_bytes ml mls_bytes = Inr msg \<and> ml_wire_format ml msg = WfPrivateMessage \<and>
        ml_message_group ml msg = Some gid \<and> ml_load ml gid s m = (Inr g0, m1) \<and>
        ml_process ml msg g0 s m1 = (Inr (g1, ReceivedApplication data leaf), m2) \<and> ml_write ml g1 s m2 = (Inr g, m'))"

text \<open>The envelope the relay hands out for a row of a sender's outbox.\<close>

definition item_of_row :: "u64 \<Rightarrow> outbox_row \<Rightarrow> envelope_item" where
  "item_of_row sq row = \<lparr>ei_seq = sq, ei_delivery_id = ob_delivery_id row, ei_hpke_enc = ob_hpke_enc row, ei_ciphertext = ob_ciphertext row\<rparr>"

lemma handle_text:
  assumes "ml_wire_format (se_mls v) msg = WfPrivateMessage" and "ml_message_group (se_mls v) msg = Some gid"
    and "ml_load (se_mls v) gid (wd_client w) (wd_mls w) = (Inr g0, m1)"
    and "ml_process (se_mls v) msg g0 (wd_client w) m1 = (Inr (g1, ReceivedApplication data leaf), m2)"
    and "ml_write (se_mls v) g1 (wd_client w) m2 = (Inr g, m')"
    and "decode_event (se_cbor v) (se_decode_text v) data = Inr \<lparr>av_kind = ''text'', av_body = body\<rparr>"
    and "\<not> request_declined gid (wd_client w)" and "did \<notin> ev_event_id ` set (events (wd_delivery w))"
  shows "\<exists>row. handle_mls v ss msg did w = (Inr (Ch_MessageReceived gid did body),
      w\<lparr>wd_mls := m', wd_delivery := (wd_delivery w)\<lparr>events := events (wd_delivery w) @ [row]\<rparr>\<rparr>) \<and>
    ev_group_id row = gid \<and> ev_event_id row = did \<and> ev_kind row = ''received'' \<and> ev_body row = body \<and>
    ev_sender_device row = leaf_device (ml_members (se_mls v) g) leaf \<and>
    ev_sender_identity row = sender_identity (wd_client w) (ml_members (se_mls v) g) gid leaf"
proof -
  let ?sender = "event_sender_of (wd_client w) (ml_members (se_mls v) g) gid leaf"
  let ?row = "\<lparr>ev_id = next_id (map ev_id (events (wd_delivery w))), ev_group_id = gid, ev_event_id = did, ev_kind = ''received'',
    ev_body = body, ev_created_at = se_now v, ev_sender_device = Option.bind ?sender es_device_id,
    ev_sender_identity = Option.bind ?sender es_identity_id\<rparr>"
  have "\<not> (\<exists>e\<in>set (events (wd_delivery w)). ev_event_id e = did)"
    using assms(8) by auto
  then have ev: "record_event_by (se_now v) gid did ''received'' body ?sender (wd_delivery w) =
      (Inr (), (wd_delivery w)\<lparr>events := events (wd_delivery w) @ [?row]\<rparr>)"
    by (simp add: record_event_by_def)
  have "handle_mls v ss msg did w = (Inr (Ch_MessageReceived gid did body),
      w\<lparr>wd_mls := m', wd_delivery := (wd_delivery w)\<lparr>events := events (wd_delivery w) @ [?row]\<rparr>\<rparr>)"
    using assms(1-7) ev
    by (simp add: handle_mls_def handle_message_def handle_received_def handle_event_def record_message_event_def Let_def op_then_def
        on_mls_def on_delivery_def)
  moreover have "Option.bind ?sender es_device_id = leaf_device (ml_members (se_mls v) g) leaf"
    by (cases "leaf_device (ml_members (se_mls v) g) leaf") (simp_all add: event_sender_of_def)
  ultimately show ?thesis
    by (intro exI [of _ ?row]) (simp add: sender_identity_def)
qed

text \<open>C24. From one device to another. When a sender's fan-out sealed a message for this device's mailbox and key, and the MLS library
  takes the message to a text of some member of a conversation that was not declined, then the first delivery of the envelope, whatever number the relay gives it, reports the
  text and appends exactly one event with its body, the conversation, the device of the leaf that MLS
  authenticated and the identity the profile knows for that device; a second delivery of the same envelope, under any number,
  changes nothing.\<close>

theorem text_arrives_once:
  assumes "cbor_codec (se_cbor v)" and "hpke_ok (se_hpke v)" and "inner_size (bare KIND_MLS mls_bytes) < 2 ^ 32"
    and "sealed_for (se_cbor v) (se_hpke v) (sr_realm_id (ss_realm ss)) event mls_bytes p row"
    and "pe_hpke p = Some (hpke_public (se_hpke v) (fst (dk_envelope_hpke (sd_keys (ss_device ss)))))"
    and "mls_delivers (se_mls v) (wd_client w) (wd_mls w) mls_bytes gid g data leaf m'"
    and "encode_event (se_cbor v) tx ''text'' body = Inr data" and "\<not> request_declined gid (wd_client w)"
    and "\<not> recorded (ob_mailbox_id row) (item_of_row sq row) (wd_delivery w)"
    and "ob_delivery_id row \<notin> ev_event_id ` set (events (wd_delivery w))"
  shows "\<exists>w' e. receive_one v ss (ob_mailbox_id row) (item_of_row sq row) w =
      (Inr (Some (Ch_MessageReceived gid (ob_delivery_id row) body)), w') \<and>
    events (wd_delivery w') = events (wd_delivery w) @ [e] \<and> ev_body e = body \<and> ev_group_id e = gid \<and> ev_kind e = ''received'' \<and>
    ev_sender_device e = leaf_device (ml_members (se_mls v) g) leaf \<and>
    ev_sender_identity e = sender_identity (wd_client w) (ml_members (se_mls v) g) gid leaf \<and>
    wd_client w' = wd_client w \<and> wd_mls w' = m' \<and>
    receive_one v ss (ob_mailbox_id row) (item_of_row sq' row) w' = (Inr None, w')"
proof -
  let ?item = "item_of_row sq row" and ?mb = "ob_mailbox_id row"
  obtain inner where inner: "envelope_open (se_cbor v) (se_hpke v) (fst (dk_envelope_hpke (sd_keys (ss_device ss))))
      (envelope_context_new (sr_realm_id (ss_realm ss)) ?mb (ob_delivery_id row)) \<lparr>s_enc = ob_hpke_enc row, s_ciphertext = ob_ciphertext row\<rparr> =
      Inr inner" "ip_payload inner = mls_bytes"
    using sealed_for_delivers [OF assms(1-4)] assms(5) by (auto simp: delivers_to_def)
  obtain msg g0 m1 g1 m2 where lib: "ml_from_bytes (se_mls v) mls_bytes = Inr msg" "ml_wire_format (se_mls v) msg = WfPrivateMessage"
    "ml_message_group (se_mls v) msg = Some gid" "ml_load (se_mls v) gid (wd_client w) (wd_mls w) = (Inr g0, m1)"
    "ml_process (se_mls v) msg g0 (wd_client w) m1 = (Inr (g1, ReceivedApplication data leaf), m2)"
    "ml_write (se_mls v) g1 (wd_client w) m2 = (Inr g, m')"
    using assms(6) unfolding mls_delivers_def by blast
  have "utf8 ''text''"
    by (simp add: ascii_utf8 ascii_def)
  note ev = cbor_codec.event_decodes [OF assms(1) this assms(7), of "se_decode_text v"]
  obtain ib where ib: "receive_unit v ss ?mb ?item w =
      open_and_handle v ss ?mb ?item (w\<lparr>wd_delivery := (wd_delivery w)\<lparr>inbox := inbox (wd_delivery w) @ [ib]\<rparr>\<rparr>)"
    "ib_mailbox_id ib = ?mb" "ib_delivery_id ib = ei_delivery_id ?item"
    using receive_unit_fresh [OF assms(9)] by blast
  let ?w1 = "w\<lparr>wd_delivery := (wd_delivery w)\<lparr>inbox := inbox (wd_delivery w) @ [ib]\<rparr>\<rparr>"
  obtain e where e: "handle_mls v ss msg (ob_delivery_id row) ?w1 = (Inr (Ch_MessageReceived gid (ob_delivery_id row) body),
      ?w1\<lparr>wd_mls := m', wd_delivery := (wd_delivery ?w1)\<lparr>events := events (wd_delivery ?w1) @ [e]\<rparr>\<rparr>)"
    "ev_group_id e = gid" "ev_kind e = ''received''" "ev_body e = body"
    "ev_sender_device e = leaf_device (ml_members (se_mls v) g) leaf"
    "ev_sender_identity e = sender_identity (wd_client w) (ml_members (se_mls v) g) gid leaf"
    using handle_text [OF lib(2,3), of ?w1 g0 m1 g1 data leaf m2 g m' body "ob_delivery_id row" ss] lib(4-6) ev assms(8,10) by auto
  let ?w2 = "?w1\<lparr>wd_mls := m', wd_delivery := (wd_delivery ?w1)\<lparr>events := events (wd_delivery ?w1) @ [e]\<rparr>\<rparr>"
  have "receive_one v ss ?mb ?item w = (Inr (Some (Ch_MessageReceived gid (ob_delivery_id row) body)), ?w2)"
    unfolding receive_one_def in_unit_Inr ib(1) using inner lib(1) e(1)
    by (simp add: open_and_handle_def op_then_def item_of_row_def)
  moreover have "recorded ?mb (item_of_row sq' row) (wd_delivery ?w2)"
    using ib(2,3) by (simp add: recorded_def item_of_row_def)
  then have "receive_one v ss ?mb (item_of_row sq' row) ?w2 = (Inr None, ?w2)"
    by (simp only: receive_one_def in_unit_Inr receive_unit_known)
  ultimately show ?thesis
    using e(2-6) by (intro exI [of _ ?w2] exI [of _ e]) simp
qed

section \<open>Witnesses\<close>

text \<open>An MLS library with one group of one other member, in which every message carries the same application data.\<close>

definition demo_mls :: "bytes \<Rightarrow> (unit, bytes, unit) mls_lib" where
  "demo_mls data = \<lparr>ml_from_bytes = Inr, ml_wire_format = (\<lambda>_. WfPrivateMessage), ml_message_group = (\<lambda>_. Some [1]),
     ml_join = (\<lambda>_ _. op_return ()), ml_load = (\<lambda>_ _. op_return ()), ml_process = (\<lambda>_ _ _. op_return ((), ReceivedApplication data 1)),
     ml_write = (\<lambda>_ _. op_return ()), ml_group_id = (\<lambda>_. [1]), ml_current_epoch = (\<lambda>_. 1),
     ml_members = (\<lambda>_. [demo_member 1 [6]]), ml_own_leaf = (\<lambda>_. 0)\<rparr>"

definition demo_env :: "hpke \<Rightarrow> bytes \<Rightarrow> (unit, bytes, unit) sync_env" where
  "demo_env hp data = \<lparr>se_cbor = rfc_cbor, se_crypto = demo_crypto, se_hpke = hp, se_hex = base16,
     se_errors = \<lparr>hex_error = (\<lambda>_. []), point_error = (\<lambda>_. [])\<rparr>, se_texts = demo_app_texts, se_tables = demo_tables,
     se_decode_text = [], se_envelope_text = (\<lambda>_. []), se_now = 0, se_mls = demo_mls data\<rparr>"

theorem text_arrives_once_witness:
  "\<exists>data row w'. encode_event rfc_cbor demo_app_texts ''text'' [104, 105] = Inr data \<and>
     receive_one (demo_env demo_hpke data) demo_app_session [2] (item_of_row 1 row) demo_world =
       (Inr (Some (Ch_MessageReceived [1] [4] [104, 105])), w') \<and>
     map ev_body (events (wd_delivery w')) = [[104, 105]] \<and>
     receive_one (demo_env demo_hpke data) demo_app_session [2] (item_of_row 2 row) w' = (Inr None, w')"
proof -
  let ?e = "\<lparr>av_kind = ''text'', av_body = [104, 105]\<rparr>"
  have "wf_value 16 (struct (app_event_fields ?e))" "cbor_size (struct (app_event_fields ?e)) < 2 ^ 64"
    by (simp_all add: app_event_fields_def struct_def wf_value_numeral ascii_utf8 ascii_def head_size_def)
  then obtain data where data: "encode_event rfc_cbor demo_app_texts ''text'' [104, 105] = Inr data"
    unfolding encode_event_def by (metis rfc.encoder_size map_err_Inr)
  obtain sl where sl: "envelope_seal rfc_cbor demo_hpke [] (hpke_public demo_hpke []) (envelope_context_new [3] [2] [4]) KIND_MLS [7, 8] = Inr sl"
    using demo_seals by blast
  define row where "row = \<lparr>ob_id = 1, ob_mailbox_id = [2], ob_delivery_id = [4], ob_event_id = None, ob_hpke_enc = s_enc sl,
    ob_ciphertext = s_ciphertext sl, ob_state = ''sealed'', ob_attempts = 0, ob_expires_at = None, ob_created_at = 0\<rparr>"
  let ?p = "(demo_member_peer [2])\<lparr>pe_hpke := Some (hpke_public demo_hpke [])\<rparr>"
  have "sealed_for rfc_cbor demo_hpke [3] None [7, 8] ?p row"
    unfolding sealed_for_def using sl by (cases sl) (auto simp: row_def demo_member_peer_def)
  moreover have "inner_size (bare KIND_MLS [7, 8]) < 2 ^ 32"
    by (simp add: inner_size_small head_size_def KIND_MLS_def)
  moreover have "mls_delivers (demo_mls data) (wd_client demo_world) () [7, 8] [1] () data 1 ()"
    by (simp add: mls_delivers_def demo_mls_def)
  moreover have "\<not> request_declined [1] (wd_client demo_world)" "\<not> recorded [2] (item_of_row 1 row) (wd_delivery demo_world)"
    "[4] \<notin> ev_event_id ` set (events (wd_delivery demo_world))" "events (wd_delivery demo_world) = []"
    by (simp_all add: request_declined_def request_def demo_world_def recorded_def enqueue_def delivery_new_def)
  ultimately show ?thesis
    using text_arrives_once [of "demo_env demo_hpke data" "[7, 8]" demo_app_session None ?p row demo_world "[1]" "()" data 1 "()" demo_app_texts
        "[104, 105]" 1 2] rfc.cbor_codec_axioms demo_hpke_ok data
    by (fastforce simp: demo_env_def demo_app_session_def demo_stored_device_def row_def)
qed

theorem committer_passes_policy_witness:
  "i_am_committer demo_revoked [demo_member 0 [1], demo_member 1 [2]] 1 \<and>
   filter_proposals id id (Some demo_revoked) SendCommit (ExistingMember (demo_member 1 [2])) [demo_member 0 [1], demo_member 1 [2]]
     (Inr (Some (lowest_active_leaf 0))) [0] = Inr [0] \<and>
   filter_proposals id id (Some demo_revoked) SendCommit (ExistingMember (demo_member 1 [2])) [demo_member 0 [1], demo_member 1 [2]]
     (Inr (Some (lowest_active_leaf 0))) [] \<noteq> Inr []"
proof -
  have revoked: "device_revoked (device_of (demo_member 0 [1])) demo_revoked" "\<not> device_revoked (device_of (demo_member 1 [2])) demo_revoked"
    by (simp_all add: demo_member_def device_of_def demo_revoked_def device_revoked_def count_rows_def client_new_def)
  have me: "i_am_committer demo_revoked [demo_member 0 [1], demo_member 1 [2]] 1"
    using revoked by (simp add: i_am_committer_def committer_leaf_def) (simp add: demo_member_def)
  have "{mem_index x | x. x \<in> set [demo_member 0 [1], demo_member 1 [2]] \<and> mem_index x < mem_index (demo_member 1 [2])} = {0}"
    by (auto simp: demo_member_def intro!: exI [of _ "\<lparr>mem_index = 0, mem_identifier = Some [1]\<rparr>"])
  then show ?thesis
    using committer_passes_policy [of "demo_member 1 [2]" "[demo_member 0 [1], demo_member 1 [2]]" demo_revoked id id SendCommit 0] revoked me
    by (simp add: demo_member_def)
qed

text \<open>A relay that serves an envelope the device has and one it cannot open, and acknowledges.\<close>

definition demo_items :: "envelope_item list" where
  "demo_items = [\<lparr>ei_seq = 5, ei_delivery_id = [4], ei_hpke_enc = [], ei_ciphertext = []\<rparr>,
     \<lparr>ei_seq = 6, ei_delivery_id = [8], ei_hpke_enc = [], ei_ciphertext = []\<rparr>]"

definition demo_serving :: "payload \<Rightarrow> (nat, cli_error, payload) op" where
  "demo_serving p n = (Inr (if n = 0 then Envelopes demo_items 0 else Ack), n + 1)"

definition demo_inbox :: "(nat, unit) world" where
  "demo_inbox = demo_world\<lparr>wd_delivery := delivery_new\<lparr>inbox := [\<lparr>ib_mailbox_id = [2], ib_delivery_id = [4], ib_seq = 5, ib_received_at = 0,
     ib_acked = False\<rparr>]\<rparr>\<rparr>"

theorem sync_cursor_safe_witness:
  "\<exists>new adv w1 r w3. sync_receive (demo_env demo_hpke []) demo_serving demo_app_session \<lparr>om_mailbox_id = [2], om_read_capability = [],
       om_write_capability = []\<rparr> demo_inbox = (Inr (demo_items, new, adv), w1) \<and>
     sync_finish demo_serving demo_app_texts \<lparr>om_mailbox_id = [2], om_read_capability = [], om_write_capability = []\<rparr> (demo_items, new, adv) w1 = (r, w3) \<and>
     0 \<le> cursor [2] (wd_delivery w3) \<and> (\<exists>did rest. demo_items = did @ rest \<and> set did \<subseteq> {i. recorded [2] i (wd_delivery w3)})"
proof -
  let ?v = "demo_env demo_hpke []" and ?m = "\<lparr>om_mailbox_id = [2], om_read_capability = [], om_write_capability = []\<rparr>"
  have cur: "cursor [2] (wd_delivery demo_inbox) = 0" and conn: "wd_conn demo_inbox = 0"
    by (simp_all add: demo_inbox_def demo_world_def delivery_new_def cursor_def)
  obtain r1 w1 where items: "receive_items ?v demo_app_session [2] demo_items 0 (as_u64 0) (demo_inbox\<lparr>wd_conn := 1\<rparr>) = (r1, w1)"
    by fastforce
  obtain new adv where r1: "r1 = Inr (new, adv)"
    using receive_items_pass [OF items] by blast
  have recv: "sync_receive ?v demo_serving demo_app_session ?m demo_inbox = (Inr (demo_items, new, adv), w1)"
    using items r1 cur conn
    by (simp add: sync_receive_def op_then_def on_conn_def fetch_envelopes_def demo_serving_def fetched_items_def)
  obtain r w3 where fin: "sync_finish demo_serving demo_app_texts ?m (demo_items, new, adv) w1 = (r, w3)"
    by fastforce
  have "in_order (cursor (om_mailbox_id ?m) (wd_delivery demo_inbox)) demo_items"
    by (simp add: cur in_order_def demo_items_def)
  with sync_cursor_safe [OF recv _ _ fin]
  have "0 \<le> cursor [2] (wd_delivery w3) \<and> (\<exists>did rest. demo_items = did @ rest \<and> set did \<subseteq> {i. recorded [2] i (wd_delivery w3)})"
    by (auto simp: cur)
  with recv fin show ?thesis
    by blast
qed

end
