(* ===== verification/App_Files.thy ===== *)
theory App_Files
  imports App_Sync Attachments
begin

text \<open>
  Transfers of files, from \<open>core/crates/arveil-app/src/lib.rs\<close>: where an upload continues and the chunks it sends
  (\<open>send_file\<close> up to the committed blob, \<open>begin_upload\<close>), and the downloads of announced files (\<open>download_pending\<close>).

  The directory of the downloads is a map from file names to contents; which of its operations fail, with which text, is an
  argument, and so is the limit of the test hooks. The download loop has fuel, one unit for each request: the relay decides how
  often it runs. \<open>None\<close> is a loop that has not ended.

  Shown: an upload sends exactly the bytes the relay does not hold; a download ends with the file whatever part of it was
  already there, in as many requests as there are chunks; a left-over part of another file spoils the download; the relay,
  not the descriptor, decides how much is written.
\<close>

section \<open>Uploads\<close>

definition BLOB_CHUNK :: nat where "BLOB_CHUNK = 60 * 1024"

definition upload_started :: "payload \<Rightarrow> (bytes \<times> bytes) option" where
  "upload_started p = (case p of BlobUploadStarted blob_id read_capability \<Rightarrow> Some (blob_id, read_capability) | _ \<Rightarrow> None)"

definition unexpected :: "app_texts \<Rightarrow> payload \<Rightarrow> cli_error" where
  "unexpected tx p = CliProtocol (''unexpected reply: '' @ tx_debug tx p)"

definition begin_upload ::
  "(payload \<Rightarrow> ('c, cli_error, payload) op) \<Rightarrow> app_texts \<Rightarrow> nat \<Rightarrow> ('c, cli_error, bytes \<times> bytes \<times> nat) op" where
  "begin_upload rq tx sz =
     op_then (rq (BlobUploadBegin (word_of_nat sz))) (\<lambda>reply.
     op_then (op_lift (ok_or (upload_started reply) (unexpected tx reply))) (\<lambda>(blob_id, read_capability).
     op_return (blob_id, read_capability, 0)))"

definition blob_expiry :: "u64 option \<Rightarrow> u64 \<Rightarrow> u64" where
  "blob_expiry ttl now = (case ttl of Some t \<Rightarrow> now + t | None \<Rightarrow> 0)"

text \<open>The ciphertext of an upload: the interrupted one again, unless the file changed; \<open>draws\<close> are the random key and nonce of a
  new one.\<close>

definition upload_ciphertext ::
  "crypto \<Rightarrow> aead \<Rightarrow> app_texts \<Rightarrow> bytes option \<times> bytes option \<Rightarrow> string \<Rightarrow> string \<Rightarrow> bytes \<Rightarrow>
   (('c, 'm) world, cli_error, encrypted \<times> pending_upload option) op" where
  "upload_ciphertext cr ae tx draws key name plaintext =
     op_then (op_get (\<lambda>w. upload_pending key (wd_client w))) (\<lambda>found.
     op_then (case found of
         None \<Rightarrow> op_return None
       | Some u \<Rightarrow>
           op_then (op_lift (map_err (\<lambda>e. protocol_text ''encrypt'' (tx_attachment tx e)) (encrypt_with cr ae (pu_file_key u) (pu_nonce u) plaintext))) (\<lambda>again.
           if en_ciphertext_hash again = pu_ciphertext_hash u then op_return (Some again)
           else op_then (on_task (record_change (Ch_UploadRestarted name FileChanged))) (\<lambda>_.
             op_then (on_client tx ''uploads'' (upload_clear key)) (\<lambda>_. op_return None)))) (\<lambda>enc.
     case enc of
       Some e \<Rightarrow> op_return (e, found)
     | None \<Rightarrow> op_then (op_lift (map_err (\<lambda>e. protocol_text ''encrypt'' (tx_attachment tx e)) (encrypt cr ae (fst draws) (snd draws) plaintext)))
         (\<lambda>e. op_return (e, None))))"

definition blob_offset :: "payload \<Rightarrow> u64 option" where
  "blob_offset p = (case p of BlobOffset offset \<Rightarrow> Some offset | _ \<Rightarrow> None)"

text \<open>Where an upload continues: at what the relay says it holds, or in a new blob.\<close>

definition upload_position ::
  "(payload \<Rightarrow> ('c, cli_error, payload) op) \<Rightarrow> app_texts \<Rightarrow> string \<Rightarrow> encrypted \<Rightarrow> pending_upload option \<Rightarrow>
   (('c, 'm) world, cli_error, bytes \<times> bytes \<times> nat) op" where
  "upload_position rq tx name enc found =
     (case found of
        None \<Rightarrow> on_conn (begin_upload rq tx (length (en_ciphertext enc)))
      | Some u \<Rightarrow> (\<lambda>w. case rq (BlobResume (pu_blob_id u)) (wd_conn w) of
            (Inr reply, c) \<Rightarrow>
              (case blob_offset reply of
                 Some offset \<Rightarrow>
                   op_then (on_task (record_change (Ch_UploadResumed name (unat offset) (length (en_ciphertext enc)))))
                     (\<lambda>_. op_return (pu_blob_id u, pu_read_capability u, unat offset)) (w\<lparr>wd_conn := c\<rparr>)
               | None \<Rightarrow> (Inl (unexpected tx reply), w\<lparr>wd_conn := c\<rparr>))
          | (Inl e, c) \<Rightarrow>
              op_then (on_task (record_change (Ch_UploadRestarted name (RemoteMissing (error_text e)))))
                (\<lambda>_. on_conn (begin_upload rq tx (length (en_ciphertext enc)))) (w\<lparr>wd_conn := c\<rparr>)))"

text \<open>The loop over the chunks; \<open>limit\<close> is the test hook that stops it.\<close>

function upload_chunks ::
  "(payload \<Rightarrow> ('c, cli_error, payload) op) \<Rightarrow> app_texts \<Rightarrow> nat option \<Rightarrow> bytes \<Rightarrow> bytes \<Rightarrow> nat \<Rightarrow> nat \<Rightarrow> ('c, cli_error, nat) op" where
  "upload_chunks rq tx limit blob_id ciphertext offset sent =
     (if offset < length ciphertext then
        let stop = min (offset + BLOB_CHUNK) (length ciphertext) in
        op_then (rq (BlobChunk blob_id (word_of_nat offset) (take (stop - offset) (drop offset ciphertext)))) (\<lambda>reply.
        if reply \<noteq> Ack then op_fail (unexpected tx reply)
        else if (case limit of Some l \<Rightarrow> l \<le> sent + 1 | None \<Rightarrow> False)
        then op_fail (CliInterrupted 4 (''simulated interruption after '' @ decimal (sent + 1) @ '' chunk(s), at offset '' @ decimal stop))
        else upload_chunks rq tx limit blob_id ciphertext stop (sent + 1))
      else op_return sent)"
  by pat_completeness auto
termination
  by (relation "measure (\<lambda>(rq, tx, limit, blob_id, ciphertext, offset, sent). length ciphertext - offset)") (auto simp: BLOB_CHUNK_def)

definition committed_expiry :: "payload \<Rightarrow> u64 option" where
  "committed_expiry p = (case p of BlobCommitted effective_expiry \<Rightarrow> Some effective_expiry | _ \<Rightarrow> None)"

text \<open>The upload of \<open>send_file\<close>, from the connection to the blob that is committed and forgotten here.\<close>

definition upload_file ::
  "(payload \<Rightarrow> ('c, cli_error, payload) op) \<Rightarrow> app_texts \<Rightarrow> nat option \<Rightarrow> u64 \<Rightarrow> string \<Rightarrow> string \<Rightarrow> encrypted \<Rightarrow> pending_upload option \<Rightarrow>
   (('c, 'm) world, cli_error, bytes \<times> bytes \<times> u64) op" where
  "upload_file rq tx limit expiry key name enc found =
     op_then (upload_position rq tx name enc found) (\<lambda>(blob_id, read_capability, offset).
     op_then (on_client tx ''uploads'' (upload_save key \<lparr>pu_blob_id = blob_id, pu_read_capability = read_capability,
       pu_file_key = en_file_key enc, pu_nonce = en_nonce enc, pu_ciphertext_hash = en_ciphertext_hash enc,
       pu_size = word_of_nat (length (en_ciphertext enc))\<rparr>)) (\<lambda>_.
     op_then (on_conn (upload_chunks rq tx limit blob_id (en_ciphertext enc) offset 0)) (\<lambda>_.
     op_then (on_conn (rq (BlobCommit blob_id (en_ciphertext_hash enc) expiry))) (\<lambda>reply.
     op_then (op_lift (ok_or (committed_expiry reply) (unexpected tx reply))) (\<lambda>effective.
     op_then (on_client tx ''uploads'' (upload_clear key)) (\<lambda>_.
     op_then (on_task (record_change (Ch_BlobUploaded blob_id (length (en_ciphertext enc)) effective))) (\<lambda>_.
     op_return (blob_id, read_capability, effective))))))))"

section \<open>Downloads\<close>

record ('c, 'm) disk =
  dk_world :: "('c, 'm) world"
  dk_files :: "string \<rightharpoonup> bytes"

text \<open>Failures of the file system, and the path that is shown for a file.\<close>

record file_env =
  fe_dir :: "string option"
  fe_write :: "string \<Rightarrow> bytes \<Rightarrow> string option"
  fe_remove :: "string \<Rightarrow> bool"
  fe_path :: "string \<Rightarrow> string"

definition fs_write :: "file_env \<Rightarrow> string \<Rightarrow> bytes \<Rightarrow> (('c, 'm) disk, string, unit) op" where
  "fs_write fe name data s =
     (case fe_write fe name data of Some e \<Rightarrow> (Inl e, s) | None \<Rightarrow> (Inr (), s\<lparr>dk_files := (dk_files s)(name \<mapsto> data)\<rparr>))"

definition fs_read :: "string \<Rightarrow> ('c, 'm) disk \<Rightarrow> bytes" where
  "fs_read name s = (case dk_files s name of Some b \<Rightarrow> b | None \<Rightarrow> [])"

definition fs_remove :: "file_env \<Rightarrow> string \<Rightarrow> ('c, 'm) disk \<Rightarrow> ('c, 'm) disk" where
  "fs_remove fe name s = (if fe_remove fe name then s\<lparr>dk_files := (dk_files s)(name := None)\<rparr> else s)"

definition on_world :: "(('c, 'm) world, cli_error, 'a) op \<Rightarrow> (('c, 'm) disk, cli_error, 'a) op" where
  "on_world m s = (case m (dk_world s) of (r, w) \<Rightarrow> (r, s\<lparr>dk_world := w\<rparr>))"

definition part_name :: "file_descriptor \<Rightarrow> string" where
  "part_name d = safe_name d @ ''.part''"

definition blob_data :: "payload \<Rightarrow> (u64 \<times> bytes) option" where
  "blob_data p = (case p of BlobData total_size data \<Rightarrow> Some (total_size, data) | _ \<Rightarrow> None)"

text \<open>What the part file of an earlier download leaves to continue from; \<open>size + 16\<close> wraps around.\<close>

definition resume_part :: "file_descriptor \<Rightarrow> (('c, 'm) disk, cli_error, bytes) op" where
  "resume_part d =
     op_then (op_get (fs_read (part_name d))) (\<lambda>ciphertext.
     if ciphertext = [] then op_return []
     else if fd_size d + 16 < word_of_nat (length ciphertext) then op_return []
     else op_then (on_world (on_task (record_change (Ch_FileDownloadResumed (safe_name d) (length ciphertext))))) (\<lambda>_. op_return ciphertext))"

fun download_loop ::
  "nat \<Rightarrow> (payload \<Rightarrow> ('c, cli_error, payload) op) \<Rightarrow> app_texts \<Rightarrow> file_env \<Rightarrow> nat option \<Rightarrow> file_descriptor \<Rightarrow> nat \<Rightarrow> bytes \<Rightarrow>
   ('c, 'm) disk \<Rightarrow> (cli_error + string option \<times> bytes) option \<times> ('c, 'm) disk" where
  "download_loop 0 rq tx fe limit d rounds ciphertext s = (None, s)"
| "download_loop (Suc n) rq tx fe limit d rounds ciphertext s =
     (case on_world (on_conn (\<lambda>c. case rq (BlobFetch (fd_blob_id d) (fd_read_capability d) (word_of_nat (length ciphertext)) (word_of_nat BLOB_CHUNK)) c of
          (r, c') \<Rightarrow> (Inr r, c'))) s of
        (Inl e, s) \<Rightarrow> (Some (Inl e), s)
      | (Inr (Inr reply), s) \<Rightarrow>
          (case blob_data reply of
             None \<Rightarrow> (Some (Inr (Some (''unexpected reply '' @ tx_debug tx reply), ciphertext)), s)
           | Some (total_size, data) \<Rightarrow>
               if data = [] then (Some (Inr (None, ciphertext)), s)
               else let ciphertext = ciphertext @ data in
                 (case fs_write fe (part_name d) ciphertext s of
                    (Inl e, s) \<Rightarrow> (Some (Inl (CliFileSystem (''partial file: '' @ e))), s)
                  | (Inr _, s) \<Rightarrow>
                      if (case limit of Some l \<Rightarrow> l \<le> rounds + 1 | None \<Rightarrow> False)
                      then (Some (Inl (CliInterrupted 4 (''simulated interruption after '' @ decimal (rounds + 1) @ '' chunk(s), at '' @
                             decimal (length ciphertext) @ '' bytes''))), s)
                      else if total_size \<le> word_of_nat (length ciphertext) then (Some (Inr (None, ciphertext)), s)
                      else download_loop n rq tx fe limit d (rounds + 1) ciphertext s))
      | (Inr (Inl e), s) \<Rightarrow>
          if error_kind e = TransportFailure then (Some (Inl e), s)
          else (Some (Inr (Some (error_text e), ciphertext)), s))"

text \<open>The outcome of the requests: the saved file, or why there is none.\<close>

definition save_download ::
  "crypto \<Rightarrow> aead \<Rightarrow> app_texts \<Rightarrow> file_env \<Rightarrow> file_descriptor \<Rightarrow> string option \<times> bytes \<Rightarrow> (('c, 'm) disk, string, string) op" where
  "save_download cr ae tx fe d = (\<lambda>(reason, ciphertext).
     case reason of
       Some why \<Rightarrow> op_fail why
     | None \<Rightarrow>
         op_then (op_lift (map_err (tx_attachment tx) (decrypt cr ae d ciphertext))) (\<lambda>plain.
         op_then (fs_write fe (safe_name d) plain) (\<lambda>_.
         op_then (op_modify (fs_remove fe (part_name d))) (\<lambda>_.
         op_return (fe_path fe (safe_name d))))))"

definition record_outcome ::
  "app_texts \<Rightarrow> file_descriptor \<Rightarrow> bytes \<Rightarrow> string + string \<Rightarrow> (('c, 'm) disk, cli_error, unit) op" where
  "record_outcome tx d event outcome =
     (case outcome of
        Inr target \<Rightarrow>
          op_then (on_world (on_delivery tx ''event'' (update_event event ''received-file'' (bytes_of_string target)))) (\<lambda>_.
          on_world (on_task (record_change (Ch_FileSaved (safe_name d) target))))
      | Inl reason \<Rightarrow>
          op_then (on_world (on_delivery tx ''event'' (update_event event ''file-unavailable''
            (bytes_of_string (safe_name d @ '' ('' @ reason @ '')''))))) (\<lambda>_.
          on_world (on_task (record_change (Ch_FileUnavailable (safe_name d) reason)))))"

definition download_file ::
  "nat \<Rightarrow> (payload \<Rightarrow> ('c, cli_error, payload) op) \<Rightarrow> crypto \<Rightarrow> aead \<Rightarrow> app_texts \<Rightarrow> file_env \<Rightarrow> nat option \<Rightarrow> bytes \<Rightarrow> file_descriptor \<Rightarrow>
   ('c, 'm) disk \<Rightarrow> (cli_error + unit) option \<times> ('c, 'm) disk" where
  "download_file n rq cr ae tx fe limit event d s =
     (case resume_part d s of
        (Inl e, s) \<Rightarrow> (Some (Inl e), s)
      | (Inr ciphertext, s) \<Rightarrow>
          (case download_loop n rq tx fe limit d 0 ciphertext s of
             (None, s) \<Rightarrow> (None, s)
           | (Some (Inl e), s) \<Rightarrow> (Some (Inl e), s)
           | (Some (Inr got), s) \<Rightarrow>
               (case save_download cr ae tx fe d got s of
                  (outcome, s) \<Rightarrow> (case record_outcome tx d event outcome s of (r, s) \<Rightarrow> (Some r, s)))))"

definition download_event ::
  "nat \<Rightarrow> (payload \<Rightarrow> ('c, cli_error, payload) op) \<Rightarrow> cbor \<Rightarrow> crypto \<Rightarrow> aead \<Rightarrow> app_texts \<Rightarrow> file_env \<Rightarrow> nat option \<Rightarrow> bytes \<times> bytes \<Rightarrow>
   ('c, 'm) disk \<Rightarrow> (cli_error + unit) option \<times> ('c, 'm) disk" where
  "download_event n rq cb cr ae tx fe limit ev s =
     (case attachment (fst ev) (wd_delivery (dk_world s)) of
        Inl e \<Rightarrow> (Some (Inl (CliStorage (''sqlite: '' @ tx_sql tx e))), s)
      | Inr (Some _) \<Rightarrow> (Some (Inr ()), s)
      | Inr None \<Rightarrow>
          (case descriptor_decode cb (snd ev) of
             Inl e \<Rightarrow>
               (case on_world (on_delivery tx ''event'' (update_event (fst ev) ''file-unavailable''
                  (bytes_of_string (''bad descriptor: '' @ tx_attachment tx e)))) s of (r, s) \<Rightarrow> (Some r, s))
           | Inr d \<Rightarrow> download_file n rq cr ae tx fe limit (fst ev) d s))"

fun download_events ::
  "nat \<Rightarrow> (payload \<Rightarrow> ('c, cli_error, payload) op) \<Rightarrow> cbor \<Rightarrow> crypto \<Rightarrow> aead \<Rightarrow> app_texts \<Rightarrow> file_env \<Rightarrow> nat option \<Rightarrow> (bytes \<times> bytes) list \<Rightarrow>
   ('c, 'm) disk \<Rightarrow> (cli_error + unit) option \<times> ('c, 'm) disk" where
  "download_events n rq cb cr ae tx fe limit [] s = (Some (Inr ()), s)"
| "download_events n rq cb cr ae tx fe limit (ev # evs) s =
     (case download_event n rq cb cr ae tx fe limit ev s of
        (Some (Inr _), s) \<Rightarrow> download_events n rq cb cr ae tx fe limit evs s
      | stopped \<Rightarrow> stopped)"

definition download_pending ::
  "nat \<Rightarrow> (payload \<Rightarrow> ('c, cli_error, payload) op) \<Rightarrow> cbor \<Rightarrow> crypto \<Rightarrow> aead \<Rightarrow> app_texts \<Rightarrow> file_env \<Rightarrow> nat option \<Rightarrow>
   ('c, 'm) disk \<Rightarrow> (cli_error + unit) option \<times> ('c, 'm) disk" where
  "download_pending n rq cb cr ae tx fe limit s =
     (let waiting = events_of_kind ''file-pending'' (wd_delivery (dk_world s)) in
      if waiting = [] then (Some (Inr ()), s)
      else case fe_dir fe of
          Some e \<Rightarrow> (Some (Inl (CliFileSystem (''downloads dir: '' @ e))), s)
        | None \<Rightarrow> download_events n rq cb cr ae tx fe limit (map (\<lambda>(i, _, body). (i, body)) waiting) s)"

section \<open>Uploads send what is missing\<close>

text \<open>A relay that appends the chunks of a blob which arrive in order; \<open>held\<close> is what it holds.\<close>

definition appends :: "(payload \<Rightarrow> ('c, cli_error, payload) op) \<Rightarrow> bytes \<Rightarrow> ('c \<Rightarrow> bytes) \<Rightarrow> bool" where
  "appends rq blob_id held \<longleftrightarrow>
     (\<forall>c data. \<exists>c'. rq (BlobChunk blob_id (word_of_nat (length (held c))) data) c = (Inr Ack, c') \<and> held c' = held c @ data)"

lemma upload_chunks_complete:
  assumes "appends rq blob_id held" and "held c = take offset ciphertext" and "offset \<le> length ciphertext"
  shows "\<exists>c' m. upload_chunks rq tx None blob_id ciphertext offset sent c = (Inr m, c') \<and> held c' = ciphertext"
  using assms(2,3)
proof (induction "length ciphertext - offset" arbitrary: offset sent c rule: less_induct)
  case less
  show ?case
  proof (cases "offset < length ciphertext")
    case False
    then show ?thesis
      using less.prems by (simp add: upload_chunks.simps [of rq tx None blob_id ciphertext offset])
  next
    case True
    let ?stop = "min (offset + BLOB_CHUNK) (length ciphertext)"
    let ?data = "take (?stop - offset) (drop offset ciphertext)"
    have len: "length (held c) = offset"
      using less.prems by simp
    then obtain c1 where c1: "rq (BlobChunk blob_id (word_of_nat offset) ?data) c = (Inr Ack, c1)" "held c1 = held c @ ?data"
      using assms(1) unfolding appends_def by metis
    have "held c1 = take ?stop ciphertext"
      using c1(2) less.prems(1) True by (simp add: take_add [symmetric])
    moreover have "length ciphertext - ?stop < length ciphertext - offset" "?stop \<le> length ciphertext"
      using True by (auto simp: BLOB_CHUNK_def)
    ultimately obtain c' m where "upload_chunks rq tx None blob_id ciphertext ?stop (sent + 1) c1 = (Inr m, c')" "held c' = ciphertext"
      using less.hyps [of ?stop c1 "sent + 1"] by blast
    then show ?thesis
      using True c1(1) by (subst upload_chunks.simps) (simp add: Let_def op_then_def)
  qed
qed

section \<open>Downloads of an honest relay\<close>

definition serves_blob :: "(payload \<Rightarrow> ('c, cli_error, payload) op) \<Rightarrow> file_descriptor \<Rightarrow> bytes \<Rightarrow> bool" where
  "serves_blob rq d blob \<longleftrightarrow>
     (\<forall>offset len c. offset \<le> length blob \<longrightarrow>
        (\<exists>c'. rq (BlobFetch (fd_blob_id d) (fd_read_capability d) (word_of_nat offset) len) c =
          (Inr (BlobData (word_of_nat (length blob)) (take (unat len) (drop offset blob))), c')))"

definition writable :: "file_env \<Rightarrow> bool" where
  "writable fe \<longleftrightarrow> (\<forall>name data. fe_write fe name data = None)"

text \<open>The part file and the connection are all that the requests change.\<close>

definition fetched_from :: "file_descriptor \<Rightarrow> ('c, 'm) disk \<Rightarrow> ('c, 'm) disk \<Rightarrow> bool" where
  "fetched_from d s s' \<longleftrightarrow> (\<exists>c. dk_world s' = (dk_world s)\<lparr>wd_conn := c\<rparr>) \<and> (\<forall>name. name \<noteq> part_name d \<longrightarrow> dk_files s' name = dk_files s name)"

lemma fetched_from_trans: "fetched_from d s s1 \<Longrightarrow> fetched_from d s1 s2 \<Longrightarrow> fetched_from d s s2"
  by (auto simp: fetched_from_def)

lemma nat_word_less: "a < b \<Longrightarrow> b < 2 ^ 64 \<Longrightarrow> \<not> (word_of_nat b :: u64) \<le> word_of_nat a"
  by (simp add: word_le_nat_alt unat_of_nat take_bit_nat_eq_self)

lemma chunk_size: "unat (word_of_nat BLOB_CHUNK :: u32) = BLOB_CHUNK"
  by (simp add: BLOB_CHUNK_def)

text \<open>Whatever bytes the download starts with, the loop fetches the rest of the blob after as many bytes as it has.\<close>

lemma download_loop_rest:
  assumes "serves_blob rq d blob" and "writable fe" and "length blob < 2 ^ 64"
  shows "length old \<le> length blob \<Longrightarrow> (length blob - length old - 1) div BLOB_CHUNK < n \<Longrightarrow>
    \<exists>s'. download_loop n rq tx fe None d rounds old s = (Some (Inr (None, old @ drop (length old) blob)), s') \<and> fetched_from d s s' \<and>
      dk_files s' (part_name d) = (if length old = length blob then dk_files s (part_name d) else Some (old @ drop (length old) blob))"
proof (induction n arbitrary: rounds old s)
  case (Suc n)
  let ?data = "take BLOB_CHUNK (drop (length old) blob)"
  obtain c where c: "rq (BlobFetch (fd_blob_id d) (fd_read_capability d) (word_of_nat (length old)) (word_of_nat BLOB_CHUNK)) (wd_conn (dk_world s)) =
      (Inr (BlobData (word_of_nat (length blob)) ?data), c)"
    using assms(1) Suc.prems(1) unfolding serves_blob_def by (metis chunk_size)
  let ?s1 = "s\<lparr>dk_world := (dk_world s)\<lparr>wd_conn := c\<rparr>\<rparr>"
  have fetch: "on_world (on_conn (\<lambda>c. case rq (BlobFetch (fd_blob_id d) (fd_read_capability d) (word_of_nat (length old)) (word_of_nat BLOB_CHUNK)) c of
      (r, c') \<Rightarrow> (Inr r, c'))) s = (Inr (Inr (BlobData (word_of_nat (length blob)) ?data)), ?s1)"
    by (simp add: on_world_def on_conn_def c)
  show ?case
  proof (cases "length old = length blob")
    case True
    then show ?thesis
      using fetch by (simp add: blob_data_def fetched_from_def) blast
  next
    case False
    then have less: "length old < length blob"
      using Suc.prems(1) by simp
    then have data: "?data \<noteq> []"
      by (simp add: BLOB_CHUNK_def)
    let ?old = "old @ ?data"
    let ?s2 = "?s1\<lparr>dk_files := (dk_files s)(part_name d \<mapsto> ?old)\<rparr>"
    have wrote: "fs_write fe (part_name d) ?old ?s1 = (Inr (), ?s2)"
      using assms(2) by (simp add: fs_write_def writable_def)
    have s2: "fetched_from d s ?s2" "dk_files ?s2 (part_name d) = Some ?old"
      by (auto simp: fetched_from_def)
    have "drop (length ?old) blob = drop BLOB_CHUNK (drop (length old) blob)"
      by (auto simp: min_def add.commute)
    then have whole: "?old @ drop (length ?old) blob = old @ drop (length old) blob"
      by (metis append.assoc append_take_drop_id)
    show ?thesis
    proof (cases "length blob \<le> length ?old")
      case True
      then have "?old = old @ drop (length old) blob" "length ?old = length blob"
        using whole less by auto
      then show ?thesis
        using fetch wrote data s2 False by (simp add: blob_data_def Let_def)
    next
      case more: False
      then have len: "length ?old = length old + BLOB_CHUNK"
        using less by simp
      have "\<not> word_of_nat (length blob) \<le> (word_of_nat (length ?old) :: u64)"
        by (rule nat_word_less) (use more assms(3) in auto)
      then have step: "download_loop (Suc n) rq tx fe None d rounds old s = download_loop n rq tx fe None d (rounds + 1) ?old ?s2"
        using fetch wrote data by (simp add: blob_data_def Let_def)
      have "length blob - length old - 1 = (length blob - length ?old - 1) + BLOB_CHUNK"
        using more len by linarith
      moreover have "(x + BLOB_CHUNK) div BLOB_CHUNK = Suc (x div BLOB_CHUNK)" for x
        by (simp add: BLOB_CHUNK_def)
      ultimately have "(length blob - length old - 1) div BLOB_CHUNK = Suc ((length blob - length ?old - 1) div BLOB_CHUNK)"
        by metis
      then have fuel: "(length blob - length ?old - 1) div BLOB_CHUNK < n"
        using Suc.prems(2) by linarith
      have short: "length ?old \<le> length blob" and other: "length ?old \<noteq> length blob"
        using more by linarith+
      obtain s' where s': "download_loop n rq tx fe None d (rounds + 1) ?old ?s2 = (Some (Inr (None, old @ drop (length old) blob)), s')"
        "fetched_from d ?s2 s'" "dk_files s' (part_name d) = Some (old @ drop (length old) blob)"
        using Suc.IH [OF short fuel, of "rounds + 1" ?s2] other whole by auto
      then show ?thesis
        using step False fetched_from_trans [OF s2(1) s'(2)] by (intro exI [of _ s']) (simp only: if_False simp_thms)
    qed
  qed
qed simp

lemma part_not_target: "part_name d \<noteq> safe_name d"
  by (simp add: part_name_def)

text \<open>The bytes a download starts with.\<close>

lemma resume_part_kept:
  assumes "word_of_nat (length (fs_read (part_name d) s)) \<le> fd_size d + 16"
  obtains s1 t where "resume_part d s = (Inr (fs_read (part_name d) s), s1)" and "s1 = s\<lparr>dk_world := (dk_world s)\<lparr>wd_task := t\<rparr>\<rparr>"
proof (cases "fs_read (part_name d) s = []")
  case True
  then have "resume_part d s = (Inr (fs_read (part_name d) s), s)"
    by (simp add: resume_part_def op_then_def)
  then show thesis
    using that [of s "wd_task (dk_world s)"] by simp
next
  case False
  obtain t where "on_task (record_change (Ch_FileDownloadResumed (safe_name d) (length (fs_read (part_name d) s)))) (dk_world s) =
      (Inr (), (dk_world s)\<lparr>wd_task := t\<rparr>)"
    by (rule on_task_change)
  then show thesis
    using that [of _ t] assms False by (simp add: resume_part_def op_then_def on_world_def not_less)
qed

text \<open>What a download that ended changed: the event, the target file and the part file.\<close>

definition download_effect ::
  "file_descriptor \<Rightarrow> bytes \<Rightarrow> string \<Rightarrow> bytes \<Rightarrow> bytes option \<Rightarrow> bytes option \<Rightarrow> ('c, 'm) disk \<Rightarrow> ('c, 'm) disk \<Rightarrow> bool" where
  "download_effect d event kind body target part s s' \<longleftrightarrow>
     wd_delivery (dk_world s') = snd (update_event event kind body (wd_delivery (dk_world s))) \<and>
     wd_client (dk_world s') = wd_client (dk_world s) \<and>
     dk_files s' (safe_name d) = target \<and> dk_files s' (part_name d) = part \<and>
     (\<forall>name. name \<noteq> safe_name d \<longrightarrow> name \<noteq> part_name d \<longrightarrow> dk_files s' name = dk_files s name)"

lemma record_outcome_total:
  "\<exists>t. record_outcome tx d event outcome s = (Inr (), s\<lparr>dk_world := (dk_world s)\<lparr>
     wd_delivery := snd (update_event event (case outcome of Inr _ \<Rightarrow> ''received-file'' | Inl _ \<Rightarrow> ''file-unavailable'')
       (bytes_of_string (case outcome of Inr target \<Rightarrow> target | Inl reason \<Rightarrow> safe_name d @ '' ('' @ reason @ '')'')) (wd_delivery (dk_world s))),
     wd_task := t\<rparr>\<rparr>)"
  by (cases outcome) (auto simp: record_outcome_def op_then_def on_world_def on_delivery_def update_event_def on_task_def record_change_def)

lemma download_rest:
  assumes "serves_blob rq d blob" and "writable fe" and "length blob < 2 ^ 64" and "fd_size d + 16 = word_of_nat (length blob)"
    and "length (fs_read (part_name d) s) \<le> length blob" and "(length blob - length (fs_read (part_name d) s) - 1) div BLOB_CHUNK < n"
  obtains s1 where "download_file n rq cr ae tx fe None event d s =
      (case save_download cr ae tx fe d (None, fs_read (part_name d) s @ drop (length (fs_read (part_name d) s)) blob) s1 of
         (outcome, s2) \<Rightarrow> (case record_outcome tx d event outcome s2 of (r, s3) \<Rightarrow> (Some r, s3)))"
    and "wd_delivery (dk_world s1) = wd_delivery (dk_world s)" and "wd_client (dk_world s1) = wd_client (dk_world s)"
    and "\<And>name. name \<noteq> part_name d \<Longrightarrow> dk_files s1 name = dk_files s name"
    and "dk_files s1 (part_name d) = (if length (fs_read (part_name d) s) = length blob then dk_files s (part_name d)
      else Some (fs_read (part_name d) s @ drop (length (fs_read (part_name d) s)) blob))"
proof -
  let ?old = "fs_read (part_name d) s"
  have "word_of_nat (length ?old) \<le> (word_of_nat (length blob) :: u64)"
    using assms(3,5) by (simp add: word_le_nat_alt unat_of_nat take_bit_nat_eq_self)
  then obtain s0 t where s0: "resume_part d s = (Inr ?old, s0)" "s0 = s\<lparr>dk_world := (dk_world s)\<lparr>wd_task := t\<rparr>\<rparr>"
    using resume_part_kept [of d s] assms(4) by metis
  from download_loop_rest [OF assms(1-3,5,6), of tx 0 s0]
  obtain s1 where s1: "download_loop n rq tx fe None d 0 ?old s0 = (Some (Inr (None, ?old @ drop (length ?old) blob)), s1)" "fetched_from d s0 s1"
    "dk_files s1 (part_name d) = (if length ?old = length blob then dk_files s0 (part_name d) else Some (?old @ drop (length ?old) blob))"
    by blast
  show thesis
    by (rule that [of s1]) (use s0 s1 in \<open>auto simp: download_file_def fetched_from_def\<close>)
qed

text \<open>C34. A download ends with the file. If the relay serves the blob that was encrypted and the descriptor names, files can be
  written, and the part file is missing or holds any first part of the blob, then a download that may make as many requests as
  chunks of the blob are missing, and one if none is, ends: the plaintext is in the file, the part file is gone unless it cannot be removed,
  the event says where the file is, and no other file changed. A relay that does not serve that blob can keep the loop going
  (\<open>download_not_bounded\<close>).\<close>

theorem download_completes:
  assumes "aead_ok ae" and "encrypt_with cr ae key nonce plain = Inr e"
    and "fd_file_key d = en_file_key e" and "fd_nonce d = en_nonce e" and "fd_ciphertext_hash d = en_ciphertext_hash e"
    and "fd_size d = word_of_nat (length plain)" and "serves_blob rq d (en_ciphertext e)" and "writable fe"
    and "prefix (fs_read (part_name d) s) (en_ciphertext e)"
    and "(length (en_ciphertext e) - length (fs_read (part_name d) s) - 1) div BLOB_CHUNK < n"
  shows "\<exists>s'. download_file n rq cr ae tx fe None event d s = (Some (Inr ()), s') \<and>
    download_effect d event ''received-file'' (bytes_of_string (fe_path fe (safe_name d))) (Some plain)
      (if fe_remove fe (part_name d) then None else Some (en_ciphertext e)) s s'"
proof -
  let ?old = "fs_read (part_name d) s" and ?blob = "en_ciphertext e"
  have parts: "length key = 32" "length nonce = 12" "aead_encrypt ae key nonce FILE_AAD plain = Some ?blob"
    and small: "length plain \<le> MAX_FILE_BYTES"
    using assms(2) by (auto simp: encrypt_with_def result_simps split: if_splits)
  then have len: "length ?blob = length plain + 16"
    using assms(1) unfolding aead_ok_def by (metis option.inject)
  have blob: "?old @ drop (length ?old) ?blob = ?blob"
    using assms(9) by (auto simp: prefix_def)
  have dec: "decrypt cr ae d ?blob = Inr plain"
    by (rule encrypt_decrypt [OF assms(1,2)]) (simp_all add: assms(3-5))
  have "fd_size d + 16 = word_of_nat (length ?blob)" "length ?blob < 2 ^ 64"
    using len small by (simp_all add: assms(6) MAX_FILE_BYTES_def)
  moreover have "length ?old \<le> length ?blob"
    using assms(9) by (rule prefix_length_le)
  ultimately obtain s1 where run: "download_file n rq cr ae tx fe None event d s =
      (case save_download cr ae tx fe d (None, ?blob) s1 of (outcome, s2) \<Rightarrow> (case record_outcome tx d event outcome s2 of (r, s3) \<Rightarrow> (Some r, s3)))"
    and s1: "wd_delivery (dk_world s1) = wd_delivery (dk_world s)" "wd_client (dk_world s1) = wd_client (dk_world s)"
      "\<And>name. name \<noteq> part_name d \<Longrightarrow> dk_files s1 name = dk_files s name"
      "dk_files s1 (part_name d) = (if length ?old = length ?blob then dk_files s (part_name d) else Some ?blob)"
    using download_rest [OF assms(7,8) _ _ _ assms(10), of cr ae tx event] unfolding blob by metis
  have "?old = ?blob" if "length ?old = length ?blob"
    using assms(9) that by (auto simp: prefix_def)
  then have part: "dk_files s1 (part_name d) = Some ?blob"
    using s1(4) len by (auto simp: fs_read_def split: if_splits option.splits)
  let ?s2 = "fs_remove fe (part_name d) (s1\<lparr>dk_files := (dk_files s1)(safe_name d \<mapsto> plain)\<rparr>)"
  have save: "save_download cr ae tx fe d (None, ?blob) s1 = (Inr (fe_path fe (safe_name d)), ?s2)"
    using assms(8) by (simp add: save_download_def op_then_def dec fs_write_def writable_def)
  obtain t where "record_outcome tx d event (Inr (fe_path fe (safe_name d))) ?s2 = (Inr (), ?s2\<lparr>dk_world := (dk_world ?s2)\<lparr>
      wd_delivery := snd (update_event event ''received-file'' (bytes_of_string (fe_path fe (safe_name d))) (wd_delivery (dk_world ?s2))), wd_task := t\<rparr>\<rparr>)"
    using record_outcome_total [of tx d event "Inr (fe_path fe (safe_name d))" ?s2] by auto
  then show ?thesis
    using run save s1(1-3) part part_not_target [of d] by (auto simp: download_effect_def fs_remove_def)
qed

text \<open>C35. A left-over part file spoils another download. A part file is named after the file's name alone and is removed only when the
  file is saved. If one is left from another file of the same name, no longer than the new one, then the download of the new
  file, from a relay that serves it correctly, fails its hash, the file counts as unavailable for good, and the part file
  stays, as long as the blob, for the next file of that name.\<close>

theorem left_over_part_spoils:
  assumes "serves_blob rq d blob" and "writable fe" and "length blob < 2 ^ 64" and "fd_size d + 16 = word_of_nat (length blob)"
    and "dk_files s (part_name d) = Some old" and "length old \<le> length blob" and "length blob div BLOB_CHUNK < n"
    and "sha256 cr (old @ drop (length old) blob) \<noteq> fd_ciphertext_hash d"
  shows "\<exists>s'. download_file n rq cr ae tx fe None event d s = (Some (Inr ()), s') \<and>
    download_effect d event ''file-unavailable'' (bytes_of_string (safe_name d @ '' ('' @ tx_attachment tx HashMismatch @ '')''))
      (dk_files s (safe_name d)) (Some (old @ drop (length old) blob)) s s'"
proof -
  have old: "fs_read (part_name d) s = old"
    using assms(5) by (simp add: fs_read_def)
  have fuel: "(length blob - length old - 1) div BLOB_CHUNK < n"
    using assms(7) div_le_mono [of "length blob - length old - 1" "length blob" BLOB_CHUNK] by linarith
  obtain s1 where run: "download_file n rq cr ae tx fe None event d s =
      (case save_download cr ae tx fe d (None, old @ drop (length old) blob) s1 of
         (outcome, s2) \<Rightarrow> (case record_outcome tx d event outcome s2 of (r, s3) \<Rightarrow> (Some r, s3)))"
    and s1: "wd_delivery (dk_world s1) = wd_delivery (dk_world s)" "wd_client (dk_world s1) = wd_client (dk_world s)"
      "\<And>name. name \<noteq> part_name d \<Longrightarrow> dk_files s1 name = dk_files s name"
      "dk_files s1 (part_name d) = Some (old @ drop (length old) blob)"
    using download_rest [OF assms(1-4) _ fuel [folded old], of cr ae tx event] assms(5,6) unfolding old by (metis append_Nil2 drop_all order_refl)
  have save: "save_download cr ae tx fe d (None, old @ drop (length old) blob) s1 = (Inl (tx_attachment tx HashMismatch), s1)"
    using assms(8) by (simp add: save_download_def op_then_def decrypt_def)
  obtain t where "record_outcome tx d event (Inl (tx_attachment tx HashMismatch)) s1 = (Inr (), s1\<lparr>dk_world := (dk_world s1)\<lparr>
      wd_delivery := snd (update_event event ''file-unavailable'' (bytes_of_string (safe_name d @ '' ('' @ tx_attachment tx HashMismatch @ '')''))
        (wd_delivery (dk_world s1))), wd_task := t\<rparr>\<rparr>)"
    using record_outcome_total [of tx d event "Inl (tx_attachment tx HashMismatch)" s1] by auto
  then show ?thesis
    using run save s1 part_not_target [of d] by (auto simp: download_effect_def)
qed

text \<open>The relay decides how much is written. Whatever size the descriptor announces, a relay that keeps sending bytes and keeps
  naming a larger total makes the loop go on: after any number of requests it has not ended and the part file has grown by that
  many bytes.\<close>

theorem download_not_bounded:
  assumes "\<And>offset c. \<exists>c'. rq (BlobFetch (fd_blob_id d) (fd_read_capability d) offset (word_of_nat BLOB_CHUNK)) c = (Inr (BlobData (2 ^ 64 - 1) [0]), c')"
    and "writable fe" and "length got + n < 2 ^ 64 - 1" and "0 < n"
  shows "\<exists>s'. download_loop n rq tx fe None d rounds got s = (None, s') \<and> dk_files s' (part_name d) = Some (got @ replicate n 0)"
  using assms(3,4)
proof (induction n arbitrary: rounds got s)
  case (Suc n)
  obtain c where c: "rq (BlobFetch (fd_blob_id d) (fd_read_capability d) (word_of_nat (length got)) (word_of_nat BLOB_CHUNK)) (wd_conn (dk_world s)) =
      (Inr (BlobData (2 ^ 64 - 1) [0]), c)"
    using assms(1) by blast
  let ?s2 = "s\<lparr>dk_world := (dk_world s)\<lparr>wd_conn := c\<rparr>, dk_files := (dk_files s)(part_name d \<mapsto> got @ [0])\<rparr>"
  have "\<not> (word_of_nat (2 ^ 64 - 1) :: u64) \<le> word_of_nat (length (got @ [0]))"
    by (rule nat_word_less) (use Suc.prems in auto)
  then have step: "download_loop (Suc n) rq tx fe None d rounds got s = download_loop n rq tx fe None d (rounds + 1) (got @ [0]) ?s2"
    using assms(2) by (simp add: on_world_def on_conn_def c blob_data_def Let_def fs_write_def writable_def)
  show ?case
  proof (cases "n = 0")
    case True
    then show ?thesis
      using step by simp
  next
    case False
    then show ?thesis
      using Suc.IH [of "got @ [0]" "rounds + 1" ?s2] Suc.prems step by (simp add: replicate_append_same)
  qed
qed simp

section \<open>Interrupted uploads continue\<close>

text \<open>A relay that holds a first part of a blob: it appends chunks, says how much it holds, and commits.\<close>

definition keeps_blob :: "(payload \<Rightarrow> ('c, cli_error, payload) op) \<Rightarrow> bytes \<Rightarrow> ('c \<Rightarrow> bytes) \<Rightarrow> bool" where
  "keeps_blob rq blob_id held \<longleftrightarrow> appends rq blob_id held \<and>
     (\<forall>c. \<exists>c'. rq (BlobResume blob_id) c = (Inr (BlobOffset (word_of_nat (length (held c)))), c') \<and> held c' = held c) \<and>
     (\<forall>hash expiry c. \<exists>c' x. rq (BlobCommit blob_id hash expiry) c = (Inr (BlobCommitted x), c') \<and> held c' = held c)"

text \<open>An interrupted upload continues. If the file is unchanged, the encryption gives the same bytes again; if the relay still
  holds a first part of them, the upload sends exactly the rest, the relay holds the whole ciphertext when it commits, and the profile
  forgets the upload.\<close>

theorem upload_continues:
  assumes "keeps_blob rq (pu_blob_id u) held" and "upload_pending key (wd_client w) = Some u"
    and "encrypt_with cr ae (pu_file_key u) (pu_nonce u) plain = Inr e" and "en_ciphertext_hash e = pu_ciphertext_hash u"
    and "held (wd_conn w) = take k (en_ciphertext e)" and "length (en_ciphertext e) < 2 ^ 64"
  shows "\<exists>w' x. op_then (upload_ciphertext cr ae tx draws key name plain) (\<lambda>(enc, found). upload_file rq tx None expiry key name enc found) w =
      (Inr (pu_blob_id u, pu_read_capability u, x), w') \<and>
    held (wd_conn w') = en_ciphertext e \<and> upload_pending key (wd_client w') = None"
proof -
  let ?ct = "en_ciphertext e"
  have again: "upload_ciphertext cr ae tx draws key name plain w = (Inr (e, Some u), w)"
    using assms(2-4) by (simp add: upload_ciphertext_def op_then_def)
  obtain c1 where c1: "rq (BlobResume (pu_blob_id u)) (wd_conn w) = (Inr (BlobOffset (word_of_nat (length (held (wd_conn w))))), c1)"
    "held c1 = held (wd_conn w)"
    using assms(1) unfolding keeps_blob_def by blast
  let ?off = "length (held (wd_conn w))"
  have off: "unat (word_of_nat ?off :: u64) = ?off" "held c1 = take ?off ?ct" "?off \<le> length ?ct"
    using assms(5,6) c1(2) by (simp_all add: unat_of_nat take_bit_nat_eq_self min_def)
  obtain t where t: "on_task (record_change (Ch_UploadResumed name ?off (length ?ct))) (w\<lparr>wd_conn := c1\<rparr>) = (Inr (), w\<lparr>wd_conn := c1, wd_task := t\<rparr>)"
    using on_task_change [of _ "w\<lparr>wd_conn := c1\<rparr>"] by metis
  obtain c2 m where c2: "upload_chunks rq tx None (pu_blob_id u) ?ct ?off 0 c1 = (Inr m, c2)" "held c2 = ?ct"
    using upload_chunks_complete [where held = held, OF _ off(2,3)] assms(1) unfolding keeps_blob_def by blast
  obtain c3 x where c3: "rq (BlobCommit (pu_blob_id u) (en_ciphertext_hash e) expiry) c2 = (Inr (BlobCommitted x), c3)" "held c3 = held c2"
    using assms(1) unfolding keeps_blob_def by blast
  have position: "upload_position rq tx name e (Some u) w = (Inr (pu_blob_id u, pu_read_capability u, ?off), w\<lparr>wd_conn := c1, wd_task := t\<rparr>)"
    using t c1(1) off(1) by (simp add: upload_position_def blob_offset_def op_then_def)
  have "\<exists>w'. upload_file rq tx None expiry key name e (Some u) w = (Inr (pu_blob_id u, pu_read_capability u, x), w') \<and>
      wd_conn w' = c3 \<and> upload_pending key (wd_client w') = None"
    using position c2(1) c3(1)
    by (auto simp: upload_file_def op_then_def on_client_def on_conn_def upload_save_def upload_clear_def committed_expiry_def upload_pending_def
        on_task_def record_change_def)
  then show ?thesis
    using again c2(2) c3(2) by (auto simp: op_then_def)
qed

section \<open>Witnesses\<close>

text \<open>A relay over the bytes it holds of a blob, and one that serves a blob.\<close>

definition demo_holder :: "payload \<Rightarrow> (bytes, cli_error, payload) op" where
  "demo_holder p c = (case p of BlobResume _ \<Rightarrow> (Inr (BlobOffset (word_of_nat (length c))), c) | BlobChunk _ _ data \<Rightarrow> (Inr Ack, c @ data)
     | BlobCommit _ _ _ \<Rightarrow> (Inr (BlobCommitted 9), c) | _ \<Rightarrow> (Inl (CliRelay 400 []), c))"

definition demo_server :: "bytes \<Rightarrow> payload \<Rightarrow> (nat, cli_error, payload) op" where
  "demo_server blob p c = (case p of BlobFetch _ _ offset len \<Rightarrow> (Inr (BlobData (word_of_nat (length blob)) (take (unat len) (drop (unat offset) blob))), c + 1)
     | _ \<Rightarrow> (Inl (CliRelay 400 []), c + 1))"

definition demo_fs :: file_env where
  "demo_fs = \<lparr>fe_dir = None, fe_write = (\<lambda>_ _. None), fe_remove = (\<lambda>_. True), fe_path = id\<rparr>"

definition demo_disk :: "(string \<rightharpoonup> bytes) \<Rightarrow> (nat, unit) disk" where
  "demo_disk files = \<lparr>dk_world = demo_world, dk_files = files\<rparr>"

lemma demo_server_serves: "length blob < 2 ^ 64 \<Longrightarrow> serves_blob (demo_server blob) d blob"
  by (auto simp: serves_blob_def demo_server_def unat_of_nat take_bit_nat_eq_self)

lemma demo_fs_writable: "writable demo_fs"
  by (simp add: writable_def demo_fs_def)

lemma demo_encrypted: "encrypt_with demo_crypto demo_aead (replicate 32 0) (replicate 12 0) [7] =
    Inr \<lparr>en_file_key = replicate 32 0, en_nonce = replicate 12 0, en_ciphertext = [7] @ fit 16 (replicate 32 0),
      en_ciphertext_hash = sha256 demo_crypto ([7] @ fit 16 (replicate 32 0))\<rparr>"
  by (simp add: encrypt_with_def demo_aead_def MAX_FILE_BYTES_def)

definition demo_file :: file_descriptor where
  "demo_file = demo_descriptor\<lparr>fd_ciphertext_hash := sha256 demo_crypto ([7] @ fit 16 (replicate 32 0))\<rparr>"

definition demo_upload :: pending_upload where
  "demo_upload = \<lparr>pu_blob_id = [1], pu_read_capability = [2], pu_file_key = replicate 32 0, pu_nonce = replicate 12 0,
     pu_ciphertext_hash = sha256 demo_crypto ([7] @ fit 16 (replicate 32 0)), pu_size = 17\<rparr>"

definition demo_uploading :: "(bytes, unit) world" where
  "demo_uploading = \<lparr>wd_client = client_new\<lparr>t_outgoing_files := [''a'' \<mapsto> demo_upload]\<rparr>, wd_delivery = delivery_new,
     wd_task = \<lparr>tk_watchers = None, tk_result = no_result\<rparr>, wd_conn = [7], wd_mls = ()\<rparr>"

theorem upload_continues_witness:
  "\<exists>w' x. op_then (upload_ciphertext demo_crypto demo_aead demo_app_texts (None, None) ''a'' ''a'' [7])
       (\<lambda>(enc, found). upload_file demo_holder demo_app_texts None 0 ''a'' ''a'' enc found) demo_uploading = (Inr ([1], [2], x), w') \<and>
     wd_conn w' = [7] @ fit 16 (replicate 32 0)"
proof -
  let ?e = "\<lparr>en_file_key = replicate 32 0, en_nonce = replicate 12 0, en_ciphertext = [7] @ fit 16 (replicate 32 0),
      en_ciphertext_hash = sha256 demo_crypto ([7] @ fit 16 (replicate 32 0))\<rparr>"
  have "keeps_blob demo_holder (pu_blob_id demo_upload) id"
    by (simp add: keeps_blob_def appends_def demo_holder_def)
  moreover have "upload_pending ''a'' (wd_client demo_uploading) = Some demo_upload"
    by (simp add: demo_uploading_def upload_pending_def)
  moreover have "encrypt_with demo_crypto demo_aead (pu_file_key demo_upload) (pu_nonce demo_upload) [7] = Inr ?e"
    using demo_encrypted by (simp add: demo_upload_def)
  ultimately show ?thesis
    using upload_continues [of demo_holder demo_upload id "''a''" demo_uploading demo_crypto demo_aead "[7]" ?e 1 demo_app_texts "(None, None)" "''a''" 0]
    by (simp add: demo_upload_def demo_uploading_def fit_def) blast
qed

theorem download_completes_witness:
  "\<exists>s'. download_file 1 (demo_server ([7] @ fit 16 (replicate 32 0))) demo_crypto demo_aead demo_app_texts demo_fs None [4] demo_file
       (demo_disk [part_name demo_file \<mapsto> [7, 0]]) = (Some (Inr ()), s') \<and> dk_files s' (safe_name demo_file) = Some [7]"
proof -
  let ?blob = "[7] @ fit 16 (replicate 32 0)" and ?s = "demo_disk [part_name demo_file \<mapsto> [7, 0]]"
  have "prefix [0] (replicate (Suc 15) (0 :: u8))"
    by (subst replicate_Suc) simp
  then have "prefix (fs_read (part_name demo_file) ?s) ?blob" "length ?blob = 17"
    by (simp_all add: fs_read_def demo_disk_def fit_def)
  moreover have "serves_blob (demo_server ?blob) demo_file ?blob"
    by (rule demo_server_serves) (simp add: fit_def)
  ultimately show ?thesis
    using download_completes [OF demo_aead_ok demo_encrypted, of demo_file "demo_server ?blob" demo_fs ?s 1 demo_app_texts "[4]"] demo_fs_writable
    by (auto simp: download_effect_def demo_file_def demo_descriptor_def BLOB_CHUNK_def)
qed

theorem left_over_part_spoils_witness:
  "\<exists>s'. download_file 1 (demo_server ([7] @ fit 16 (replicate 32 0))) demo_crypto demo_aead demo_app_texts demo_fs None [4] demo_file
       (demo_disk [part_name demo_file \<mapsto> [8]]) = (Some (Inr ()), s') \<and>
     dk_files s' (safe_name demo_file) = None \<and> dk_files s' (part_name demo_file) \<noteq> None"
proof -
  let ?blob = "[7] @ fit 16 (replicate 32 0)" and ?s = "demo_disk [part_name demo_file \<mapsto> [8]]"
  have "sha256 demo_crypto ([8] @ drop (length [8]) ?blob) \<noteq> fd_ciphertext_hash demo_file"
    by (simp add: demo_crypto_def demo_file_def fit_def)
  moreover have "serves_blob (demo_server ?blob) demo_file ?blob"
    by (rule demo_server_serves) (simp add: fit_def)
  moreover have "fd_size demo_file + 16 = word_of_nat (length ?blob)" "dk_files ?s (safe_name demo_file) = None"
    using part_not_target [of demo_file] by (auto simp: demo_file_def demo_descriptor_def fit_def demo_disk_def)
  ultimately show ?thesis
    using left_over_part_spoils [of "demo_server ?blob" demo_file ?blob demo_fs ?s "[8]" 1 demo_crypto demo_aead demo_app_texts "[4]"] demo_fs_writable
    by (auto simp: download_effect_def demo_disk_def fit_def BLOB_CHUNK_def)
qed

theorem download_not_bounded_witness:
  "\<exists>s'. download_loop 100 (\<lambda>p c. (Inr (BlobData (2 ^ 64 - 1) [0]), c)) demo_app_texts demo_fs None demo_file 0 [] (demo_disk Map.empty) = (None, s') \<and>
     dk_files s' (part_name demo_file) = Some (replicate 100 0)"
  using download_not_bounded [of "\<lambda>p c. (Inr (BlobData (2 ^ 64 - 1) [0]), c)" demo_file demo_fs "[]" 100 demo_app_texts 0 "demo_disk Map.empty"]
    demo_fs_writable by simp

end
