(* ===== verification/Spec2Isabelle.thy ===== *)
theory Spec2Isabelle
  imports Channel Envelope Pairing Attachments Mls Client_Runs App_Progress App_Executor App_Sessions App_History App_Carrier App_Files
begin

text \<open>
  Arveil is a private messenger: clients hold their keys and their history in an encrypted SQLite profile,
  exchange sealed envelopes through a relay they do not trust, and talk in MLS groups. This development
  models the Rust core under \<open>src/core/crates/arveil-core/src\<close> and the logic of the application above it, and proves what
  makes them correct.

  \<^bold>\<open>The program and its model.\<close> Every theory models one part; the names of the definitions are those of the
  code, with a suffix where HOL already uses the name.

  \<^item> \<open>Prelude\<close>: results and state-passing operations (\<open>op_then\<close>, \<open>op_for\<close>), bytes, words, lists. \<open>Text\<close>: UTF-8 text,
    hexadecimal, splitting and trimming.
  \<^item> \<open>Cbor\<close>, \<open>Rfc8949\<close>: the CBOR data model with the interface \<open>cbor_codec\<close> of the crate \<open>ciborium\<close>, and an
    implementation of RFC 8949 that interprets it. \<open>Signed\<close>: \<open>signed.rs\<close>, canonical CBOR, signing and verification.
  \<^item> \<open>Fragment\<close>, \<open>Codec\<close>, \<open>Channel\<close>: \<open>channel/fragment.rs\<close>, \<open>codec.rs\<close>, \<open>noise.rs\<close> and \<open>mod.rs\<close>, the encrypted channel to
    the relay: frames are encoded, cut into Noise messages, reassembled and decoded.
  \<^item> \<open>Identity\<close>: \<open>identity/mod.rs\<close> and \<open>channel/endpoints.rs\<close>: device credentials, chained device manifests, endpoint lists.
  \<^item> \<open>Envelope\<close>, \<open>Pairing\<close>, \<open>Attachments\<close>, \<open>Recovery\<close>: padding and sealing of deliveries, pairing codes and link
    messages, encrypted files, identity kits and history archives.
  \<^item> \<open>Storage\<close>: \<open>storage.rs\<close> and \<open>schema.rs\<close>: units of work and migrations. \<open>Delivery\<close>: \<open>delivery.rs\<close> and
    \<open>attachment_store.rs\<close>: outbox, inbox, events, read markers, transfers.
  \<^item> \<open>Client_State\<close> to \<open>Client_Runs\<close>: \<open>client.rs\<close> with its stores. The tables are one record \<open>client\<close>; an operation takes it
    and returns a result with the tables after it. \<open>Client_Devices\<close>: identity, devices, manifests, revocation
    (with \<open>device_store.rs\<close>). \<open>Client_Contacts\<close>: contacts, conversations, cards, requests (with \<open>card_store.rs\<close>).
    \<open>Client_Pairing\<close>: linking sessions. \<open>Client_Enrollment\<close>: realm, enrollment, key packages, mailbox, kits, recovery,
    invitations (with \<open>invitation_store.rs\<close>). \<open>Client_Archive\<close>: imported history (with \<open>archive_store.rs\<close>).
    \<open>Client_Runs\<close>: all of them as one step relation.
  \<^item> \<open>Mls\<close>: \<open>mls/policy.rs\<close> and \<open>mls/store.rs\<close>: who may commit, and the storage given to the MLS library.
  \<^item> \<open>App_Commands\<close> to \<open>App_Files\<close>: the application crate \<open>src/core/crates/arveil-app/src\<close>. \<open>App_Commands\<close>: commands, changes and
    errors. \<open>App_Progress\<close>: watchers of progress and the changes an operation reports. \<open>App_Executor\<close>: admission, exclusion and the
    worker of a profile, as step relations of callers and worker. \<open>App_Sessions\<close>: the registry of open profiles. \<open>App_Links\<close>:
    \<open>links.rs\<close> and route strings. \<open>App_History\<close>: pages and search. \<open>App_Carrier\<close>: \<open>carrier.rs\<close>, requests over a socket
    that yields any events. \<open>App_Outbox\<close>: sealing for the devices of a conversation and publishing. \<open>App_Requests\<close>: \<open>requests.rs\<close>
    and the checks of routes. \<open>App_Sync\<close>: what a received message does, the pass over the envelopes, the manifests of the relay.
    \<open>App_Files\<close>: uploads and downloads. An operation acts on a \<open>world\<close>: the tables of the client, the delivery store, the
    storage of the MLS library, the connection and the task that records changes.

  \<^bold>\<open>What is assumed.\<close> Code that is not in the repository is a parameter: \<open>cbor\<close> (laws in \<open>cbor_codec\<close>, interpreted by
  \<open>Rfc8949\<close>), \<open>crypto\<close> for Ed25519 and SHA-256 (\<open>crypto_ok\<close>), the Noise, HPKE, AES-GCM and age crates, SQLite's
  begin and commit (\<open>sql_env\<close>; a ROLLBACK inside a transaction succeeds, as SQLite documents), the MLS library (\<open>mls_lib\<close>, and what the policy reads of it), the socket and the file system. Their hypotheses state the documented behaviour
  (what is encrypted decrypts, what is signed verifies, lengths) and every property that uses one has a
  witness with a concrete instance. Randomness and material from the MLS library are arguments. A Rust panic is an
  error value. SQL tables are lists in row-id order, options or maps; integers cast with \<open>as i64\<close> keep
  their sign.

  \<^bold>\<open>What is shown.\<close> Round trips for frames, fragments, signed objects, envelopes, codes, archives; termination of the
  padding loops and of paging; bounds of reassembly; soundness of credentials, manifests, endpoint lists and
  claimed devices; atomicity of units of work, migrations that run no step twice while other connections write, and the refinement of the transaction machinery to an
  all-or-nothing operation; invariants of the delivery store and of the whole client over every run
  (\<open>client_never_forgets\<close>): revocations, manifests, verified contacts, used cards and imported history are
  never lost; exclusion of commit and cancel when linking; stability of prepared key packages; the committer rule.
  For the application: requests get their own replies, and between honest ends they are answered; the executor loses and
  duplicates no request, respects its limits and always drains; a fan-out reaches exactly the devices it should, publishing
  keeps the order and the sealed bytes and stops at failures that may pass; a pass over the envelopes skips none and leaves what
  follows a failure alone (\<open>sync_cursor_safe\<close>), a text arrives once (\<open>text_arrives_once\<close>); downloads from a relay that
  serves the blob end with the file. Some theorems show where the code falls short of its comments, for example that the manifest of
  one contact can revoke the devices of another (\<open>foreign_manifest_revokes\<close>); they are listed as findings.

  \<^bold>\<open>Interfaces.\<close> \<open>cbor_codec\<close> (interpreted by \<open>rfc_cbor\<close>), \<open>table_order\<close> (what an operation may do to the tables; interpreted
  for every such relation), \<open>group_storage\<close> (what the MLS library relies on; interpreted by the SQLite provider).

  \<^bold>\<open>Bounds and fuel.\<close> The padding loop of the codec is a partial function with the value \<open>None\<close> where it would not end, which
  \<open>encode_padded_correct\<close> excludes; that of the envelope runs the
  four rounds of the source. The download loop has fuel, one unit for each request, because the relay decides how long it
  runs; \<open>download_completes\<close> shows how much is enough. Waiting for a reply ends with the events of the socket.

  \<^bold>\<open>Not modelled.\<close> The MLS engine (a wrapper over \<open>mls-rs\<close>), key generation, the SQL text of the single migrations,
  SQLite's file format and locking, the changes of MLS groups (start, add, remove, send: calls of the MLS library around what is
  modelled), onboarding, linking, invitations, devices and recovery of the application crate (network conversations around client
  operations that are modelled), the Flutter bridge and application, the command line, the Go
  relay and the spikes: glue, generated code, or code in other languages.
\<close>

end
